(* ===== verification/Blitz_Prelude.thy ===== *)
theory Blitz_Prelude
  imports Main "HOL-Library.Word" "HOL-Library.Sublist"
begin

text \<open>
  Shared vocabulary of the development: the machine integer types of the Rust
  sources, the wrap-around and saturation of their arithmetic, results as a sum
  type, byte-addressed files with the effect of a positional write, and the
  collections of simplification rules that the component theories extend.

  A Rust \<open>Result<T, E>\<close> is \<open>'e + 't\<close> with \<open>Inl\<close> for \<open>Err\<close>; an \<open>Option<T>\<close> is
  \<open>'t option\<close>. A \<open>u64\<close> whose overflow matters is a \<open>64 word\<close>; an \<open>i64\<close> is an
  \<open>int\<close> with \<open>wrap_i64\<close>, \<open>sat_i64\<close> written where the code casts, saturates or
  subtracts; sizes and offsets that the code keeps below a bound are \<open>nat\<close>.
\<close>

named_theorems str_simps \<open>facts on the string operations of the Rust standard library\<close>
named_theorems buf_simps \<open>facts on the segment buffer\<close>

type_synonym u8 = "8 word"
type_synonym u16 = "16 word"
type_synonym u64 = "64 word"
type_synonym bytes = "8 word list"

abbreviation u64_max :: nat where
  "u64_max \<equiv> 18446744073709551615"

abbreviation u32_max :: nat where
  "u32_max \<equiv> 4294967295"

abbreviation u16_max :: nat where
  "u16_max \<equiv> 65535"

abbreviation u8_max :: nat where
  "u8_max \<equiv> 255"

abbreviation i64_max :: int where
  "i64_max \<equiv> 9223372036854775807"

abbreviation i64_min :: int where
  "i64_min \<equiv> - 9223372036854775808"

text \<open>The value an \<open>i64\<close> register holds after a two's complement operation or an \<open>as i64\<close> cast.\<close>

definition wrap_i64 :: "int \<Rightarrow> int" where
  "wrap_i64 x = (x + 9223372036854775808) mod 18446744073709551616 - 9223372036854775808"

definition sat_i64 :: "int \<Rightarrow> int" where
  "sat_i64 x = max i64_min (min i64_max x)"

text \<open>An \<open>as u64\<close> cast of a signed value.\<close>

definition to_u64 :: "int \<Rightarrow> nat" where
  "to_u64 x = nat (x mod 18446744073709551616)"

lemma wrap_i64_id [simp]: "i64_min \<le> x \<Longrightarrow> x \<le> i64_max \<Longrightarrow> wrap_i64 x = x"
  by (simp add: wrap_i64_def)

lemma wrap_i64_range: "i64_min \<le> wrap_i64 x \<and> wrap_i64 x \<le> i64_max"
proof -
  have "0 \<le> (x + 9223372036854775808) mod 18446744073709551616"
    "(x + 9223372036854775808) mod 18446744073709551616 < 18446744073709551616"
    by simp_all
  then show ?thesis unfolding wrap_i64_def by linarith
qed

lemma sat_i64_id [simp]: "i64_min \<le> x \<Longrightarrow> x \<le> i64_max \<Longrightarrow> sat_i64 x = x"
  by (simp add: sat_i64_def)

lemma to_u64_id [simp]: "0 \<le> x \<Longrightarrow> x \<le> i64_max \<Longrightarrow> to_u64 x = nat x"
  by (simp add: to_u64_def)

text \<open>Results.\<close>

definition is_ok :: "'e + 'a \<Rightarrow> bool" where
  "is_ok r = (case r of Inl _ \<Rightarrow> False | Inr _ \<Rightarrow> True)"

definition map_err :: "('e \<Rightarrow> 'f) \<Rightarrow> 'e + 'a \<Rightarrow> 'f + 'a" where
  "map_err f r = (case r of Inl e \<Rightarrow> Inl (f e) | Inr x \<Rightarrow> Inr x)"

definition ok_or :: "'a option \<Rightarrow> 'e \<Rightarrow> 'e + 'a" where
  "ok_or x e = (case x of None \<Rightarrow> Inl e | Some y \<Rightarrow> Inr y)"

fun bind_res :: "'e + 'a \<Rightarrow> ('a \<Rightarrow> 'e + 'b) \<Rightarrow> 'e + 'b" where
  "bind_res (Inl e) f = Inl e"
| "bind_res (Inr x) f = f x"

lemma is_ok_simps [simp]: "\<not> is_ok (Inl e)" "is_ok (Inr x)"
  by (simp_all add: is_ok_def)

lemma map_err_simps [simp]: "map_err f (Inl e) = Inl (f e)" "map_err f (Inr x) = Inr x"
  by (simp_all add: map_err_def)

lemma ok_or_simps [simp]: "ok_or None e = Inl e" "ok_or (Some y) e = Inr y"
  by (simp_all add: ok_or_def)

lemma bind_res_Inr_iff: "bind_res r f = Inr y \<longleftrightarrow> (\<exists>x. r = Inr x \<and> f x = Inr y)"
  by (cases r) auto

text \<open>\<open>collect::<Result<Vec<_>, _>>()\<close>: the first error, or all values in order.\<close>

fun collect_res :: "('e + 'a) list \<Rightarrow> 'e + 'a list" where
  "collect_res [] = Inr []"
| "collect_res (Inl e # rs) = Inl e"
| "collect_res (Inr x # rs) =
     (case collect_res rs of Inl e \<Rightarrow> Inl e | Inr xs \<Rightarrow> Inr (x # xs))"

lemma collect_res_Inr: "collect_res (map Inr xs) = Inr xs"
  by (induction xs) auto

lemma collect_res_Inl:
  "collect_res rs = Inr xs \<longleftrightarrow> rs = map Inr xs"
proof (induction rs arbitrary: xs)
  case Nil
  then show ?case by auto
next
  case (Cons r rs)
  then show ?case by (cases r) (auto split: sum.splits simp: Cons_eq_map_conv collect_res_Inr)
qed

text \<open>
  A regular file as its bytes. \<open>pwrite\<close> is the effect of a positional write: bytes past
  the end are added, a gap before the offset reads as zero (a sparse file).
\<close>

definition pwrite :: "bytes \<Rightarrow> nat \<Rightarrow> bytes \<Rightarrow> bytes" where
  "pwrite f off d =
     (if d = [] then f
      else take off f @ replicate (off - length f) 0 @ d @ drop (off + length d) f)"

definition pread :: "bytes \<Rightarrow> nat \<Rightarrow> nat \<Rightarrow> bytes" where
  "pread f off n = take n (drop off f)"

lemma pwrite_Nil [simp]: "pwrite f off [] = f"
  by (simp add: pwrite_def)

lemma length_pwrite [simp]:
  "length (pwrite f off d) = (if d = [] then length f else max (length f) (off + length d))"
  by (auto simp: pwrite_def)

lemma pwrite_within: "off + length d \<le> length f \<Longrightarrow>
    pwrite f off d = take off f @ d @ drop (off + length d) f"
  by (simp add: pwrite_def)

lemma pread_pwrite_same: "pread (pwrite f off d) off (length d) = d"
  by (cases "d = []") (auto simp: pread_def pwrite_def min_def)

lemma pread_length: "length (pread f off n) = min n (length f - off)"
  by (simp add: pread_def)

lemma pread_all: "pread f 0 (length f) = f"
  by (simp add: pread_def)

lemma pread_add: "pread f off (n + m) = pread f off n @ pread f (off + n) m"
  by (simp add: pread_def take_add add.commute [of off n])

text \<open>Two writes in a row, the second where the first ended, are one write.\<close>

lemma pwrite_append:
  assumes "off + length a + length b \<le> length f"
  shows "pwrite (pwrite f off a) (off + length a) b = pwrite f off (a @ b)"
proof -
  have "pwrite (pwrite f off a) (off + length a) b
      = take (off + length a) (pwrite f off a) @ b
        @ drop (off + length a + length b) (pwrite f off a)"
    using assms by (subst pwrite_within) auto
  then show ?thesis using assms by (simp add: pwrite_within ac_simps)
qed

text \<open>A write leaves the bytes outside its range alone.\<close>

lemma nth_pwrite_outside:
  assumes "off + length d \<le> length f" "i < off \<or> off + length d \<le> i" "i < length f"
  shows "pwrite f off d ! i = f ! i"
  using assms by (auto simp: pwrite_within nth_append)

lemma pread_pwrite_outside:
  assumes "off + length d \<le> length f" "s + n \<le> off \<or> off + length d \<le> s"
  shows "pread (pwrite f off d) s n = pread f s n"
proof (rule nth_equalityI)
  have l: "length (pwrite f off d) = length f" using assms(1) by (cases "d = []") (simp_all add: max_absorb1)
  then show "length (pread (pwrite f off d) s n) = length (pread f s n)" by (simp add: pread_length)
  fix i assume "i < length (pread (pwrite f off d) s n)"
  then have "i < n" "s + i < length f" unfolding pread_length l by auto
  then show "pread (pwrite f off d) s n ! i = pread f s n ! i"
    using assms l nth_pwrite_outside [OF assms(1), of "s + i"] by (auto simp: pread_def)
qed

text \<open>Counting in a list in which one element changes.\<close>

lemma filter_update:
  assumes "i < length xs"
  shows "length (filter P (xs[i := y])) + (if P (xs ! i) then 1 else 0) = length (filter P xs) + (if P y then 1 else 0)"
proof -
  have "xs = take i xs @ xs ! i # drop (Suc i) xs" using id_take_nth_drop [OF assms] .
  then have "length (filter P xs) = length (filter P (take i xs @ xs ! i # drop (Suc i) xs))" by simp
  moreover have "xs[i := y] = take i xs @ y # drop (Suc i) xs" using upd_conv_take_nth_drop [OF assms] .
  ultimately show ?thesis by simp
qed

end
