(* ===== verification/Http_Headers.thy ===== *)
theory Http_Headers
  imports Rust_Str
begin

text \<open>
  Header maps of the \<open>http\<close> crate as the sources use them: names in lower case, \<open>get\<close>
  returns the first value of a name, \<open>insert\<close> replaces all of them, \<open>append\<close> adds one.
\<close>

type_synonym header_map = "(string \<times> string) list"

definition header_get :: "string \<Rightarrow> header_map \<Rightarrow> string option" where
  "header_get k h = map_of h k"

definition header_insert :: "string \<Rightarrow> string \<Rightarrow> header_map \<Rightarrow> header_map" where
  "header_insert k v h = filter (\<lambda>p. fst p \<noteq> k) h @ [(k, v)]"

definition header_append :: "string \<Rightarrow> string \<Rightarrow> header_map \<Rightarrow> header_map" where
  "header_append k v h = h @ [(k, v)]"

text \<open>\<open>HeaderValue::to_str\<close> accepts visible ASCII and tabs, \<open>HeaderValue::from_str\<close> all but controls.\<close>

definition visible_char :: "char \<Rightarrow> bool" where
  "visible_char c \<longleftrightarrow> (let n = of_char c :: nat in (32 \<le> n \<and> n < 127) \<or> n = 9)"

definition to_str :: "string \<Rightarrow> string option" where
  "to_str v = (if \<forall>c \<in> set v. visible_char c then Some v else None)"

text \<open>The text of a header, when it is there and visible ASCII.\<close>

definition header_text :: "string \<Rightarrow> header_map \<Rightarrow> string option" where
  "header_text k h = (case header_get k h of None \<Rightarrow> None | Some v \<Rightarrow> to_str v)"

definition valid_value :: "string \<Rightarrow> bool" where
  "valid_value v \<longleftrightarrow> (\<forall>c \<in> set v. let n = of_char c :: nat in (32 \<le> n \<and> n \<noteq> 127) \<or> n = 9)"

text \<open>\<open>HeaderName::from_bytes\<close> accepts the token characters.\<close>

definition token_char :: "char \<Rightarrow> bool" where
  "token_char c \<longleftrightarrow>
     (let n = of_char c :: nat in
      (48 \<le> n \<and> n \<le> 57) \<or> (65 \<le> n \<and> n \<le> 90) \<or> (97 \<le> n \<and> n \<le> 122)
      \<or> c \<in> set ''!#$%&*+-.^_`|~'' \<or> n = 39)"

definition valid_name :: "string \<Rightarrow> bool" where
  "valid_name s \<longleftrightarrow> s \<noteq> [] \<and> (\<forall>c \<in> set s. token_char c)"

lemma header_get_Nil [simp]: "header_get k [] = None"
  by (simp add: header_get_def)

lemma header_get_Cons [simp]:
  "header_get k ((k', v) # h) = (if k = k' then Some v else header_get k h)"
  by (simp add: header_get_def)

lemma header_get_append:
  "header_get k (h @ h') = (case header_get k h of Some v \<Rightarrow> Some v | None \<Rightarrow> header_get k h')"
  by (induction h) (auto split: option.splits)

lemma header_get_filter_other:
  "k \<noteq> k' \<Longrightarrow> header_get k (filter (\<lambda>p. fst p \<noteq> k') h) = header_get k h"
  by (induction h) auto

lemma header_get_filter_same: "header_get k (filter (\<lambda>p. fst p \<noteq> k) h) = None"
  by (induction h) auto

lemma header_get_insert [simp]:
  "header_get k (header_insert k' v h) = (if k = k' then Some v else header_get k h)"
  by (simp add: header_insert_def header_get_append header_get_filter_other header_get_filter_same
      split: option.splits)

lemma to_str_Some: "to_str v = Some s \<Longrightarrow> s = v \<and> (\<forall>c \<in> set v. visible_char c)"
  by (simp add: to_str_def split: if_splits)

lemma visible_valid: "\<forall>c \<in> set v. visible_char c \<Longrightarrow> valid_value v"
  unfolding valid_value_def visible_char_def Let_def by fastforce

end
