(* ===== verification/Assoc_Map.thy ===== *)
theory Assoc_Map
  imports Main
begin

text \<open>
  A Rust \<open>HashMap\<close> as an association list with distinct keys: the sources need its
  length and its entries, so a function would not do. The order of the list stands for
  the unspecified iteration order; no definition of the development depends on it
  except where it says so.
\<close>

type_synonym ('k, 'v) amap = "('k \<times> 'v) list"

definition am_get :: "'k \<Rightarrow> ('k, 'v) amap \<Rightarrow> 'v option" where
  "am_get k m = map_of m k"

definition am_remove :: "'k \<Rightarrow> ('k, 'v) amap \<Rightarrow> ('k, 'v) amap" where
  "am_remove k m = filter (\<lambda>p. fst p \<noteq> k) m"

fun am_insert :: "'k \<Rightarrow> 'v \<Rightarrow> ('k, 'v) amap \<Rightarrow> ('k, 'v) amap" where
  "am_insert k v [] = [(k, v)]"
| "am_insert k v ((k', v') # m) = (if k' = k then (k, v) # m else (k', v') # am_insert k v m)"

definition am_ok :: "('k, 'v) amap \<Rightarrow> bool" where
  "am_ok m \<longleftrightarrow> distinct (map fst m)"

lemma am_get_Nil [simp]: "am_get k [] = None"
  by (simp add: am_get_def)

lemma am_get_Cons [simp]: "am_get k ((k', v) # m) = (if k = k' then Some v else am_get k m)"
  by (simp add: am_get_def)

lemma am_get_insert [simp]:
  "am_get k (am_insert k' v m) = (if k = k' then Some v else am_get k m)"
  by (induction k' v m rule: am_insert.induct) auto

lemma am_get_remove [simp]: "am_get k (am_remove k' m) = (if k = k' then None else am_get k m)"
  by (induction m) (auto simp: am_get_def am_remove_def)

lemma am_ok_Nil [simp]: "am_ok []"
  by (simp add: am_ok_def)

lemma fst_am_insert: "set (map fst (am_insert k v m)) = insert k (set (map fst m))"
  by (induction k v m rule: am_insert.induct) auto

lemma am_ok_insert [simp]: "am_ok m \<Longrightarrow> am_ok (am_insert k v m)"
proof (induction k v m rule: am_insert.induct)
  case (1 k v)
  then show ?case by (simp add: am_ok_def)
next
  case (2 k v k' v' m)
  then show ?case using fst_am_insert [of k v m] by (auto simp: am_ok_def)
qed

lemma am_ok_filter [simp]: "am_ok m \<Longrightarrow> am_ok (filter P m)"
  by (induction m) (auto simp: am_ok_def)

lemma am_ok_remove [simp]: "am_ok m \<Longrightarrow> am_ok (am_remove k m)"
  by (simp add: am_remove_def)

lemma am_get_None_iff: "am_get k m = None \<longleftrightarrow> k \<notin> fst ` set m"
  by (simp add: am_get_def map_of_eq_None_iff)

lemma am_get_Some_iff: "am_ok m \<Longrightarrow> am_get k m = Some v \<longleftrightarrow> (k, v) \<in> set m"
  by (simp add: am_get_def am_ok_def)

lemma length_am_insert:
  "length (am_insert k v m) = (if am_get k m = None then Suc (length m) else length m)"
  by (induction k v m rule: am_insert.induct) (auto simp: am_get_def)

lemma am_insert_not_Nil [simp]: "am_insert k v m \<noteq> []"
  by (induction k v m rule: am_insert.induct) auto

lemma length_am_remove_le: "length (am_remove k m) \<le> length m"
  by (simp add: am_remove_def)

lemma set_am_insert:
  "am_ok m \<Longrightarrow> set (am_insert k v m) = insert (k, v) {p \<in> set m. fst p \<noteq> k}"
proof (induction k v m rule: am_insert.induct)
  case (1 k v)
  then show ?case by simp
next
  case (2 k v k' v' m)
  then show ?case by (auto simp: am_ok_def)
qed

lemma am_get_filter:
  assumes ok: "am_ok m"
  shows "am_get k (filter P m) =
    (case am_get k m of Some v \<Rightarrow> if P (k, v) then Some v else None | None \<Rightarrow> None)"
proof (cases "am_get k m")
  case None
  then have "am_get k (filter P m) = None" by (auto simp: am_get_None_iff)
  then show ?thesis using None by simp
next
  case (Some v)
  then have "(k, w) \<in> set m \<longleftrightarrow> w = v" for w
    using am_get_Some_iff [OF ok, of k w] by auto
  then have "am_get k (filter P m) = Some w \<longleftrightarrow> w = v \<and> P (k, v)" for w
    using am_get_Some_iff [OF am_ok_filter [OF ok], of k P w] by auto
  then have "am_get k (filter P m) = (if P (k, v) then Some v else None)"
    by (cases "am_get k (filter P m)") auto
  then show ?thesis using Some by simp
qed

lemma am_get_filter_keys: "am_get k (filter (\<lambda>p. P (fst p)) m) = (if P k then am_get k m else None)"
  by (induction m) (auto simp: am_get_def)

end
