(* ===== verification/Segments_Buffer.thy ===== *)
theory Segments_Buffer
  imports Http_Headers
begin

text \<open>
  \<open>src/src/buffer.rs\<close>: the disk-backed buffer that the download workers fill and the
  response streams read. The atomics and mutexes of the struct are the fields of a
  record; each method is a function from the record to its result and the record it
  leaves. A method that takes one lock or does one atomic operation is one step. The
  one method that does two (\<open>claim_range\<close>: a compare-exchange, then a push under the
  lock) is taken apart in the theory Claim\_Interleaving; here it runs undisturbed.

  The answers of the operating system are arguments: \<open>wr off len\<close> is what
  \<open>write_at\<close> returns for a request of \<open>len\<close> bytes at \<open>off\<close> (\<open>None\<close> an error, \<open>Some n\<close>
  the bytes written) and \<open>rd off len\<close> what \<open>read_at\<close> returns. The contents of the
  notifications are kept as the list of messages sent.
\<close>

datatype seg_state = Downloading | Ready

record segment =
  sg_start :: nat
  sg_end :: nat
  sg_state :: seg_state

record segments_buffer =
  total_size :: nat
  next_unassigned :: nat
  segments :: "segment list"
  ready_count :: nat
  all_assigned :: bool
  meta :: "(nat \<times> header_map) option"
  notify :: "nat list"
  failed :: bool
  dl_file :: bytes
  file_path :: string

datatype io_error = Os_error | Write_zero | Timed_out | Unexpected_eof

definition new_buffer :: "nat \<Rightarrow> bytes \<Rightarrow> string \<Rightarrow> segments_buffer" where
  "new_buffer sz f path =
     \<lparr>total_size = sz, next_unassigned = 0, segments = [], ready_count = 0,
      all_assigned = False, meta = None, notify = [], failed = False,
      dl_file = f, file_path = path\<rparr>"

definition set_meta :: "nat \<Rightarrow> header_map \<Rightarrow> segments_buffer \<Rightarrow> segments_buffer" where
  "set_meta status headers b = b\<lparr>meta := Some (status, headers)\<rparr>"

text \<open>\<open>wait_meta\<close> over the values the watch channel shows one after the other.\<close>

fun wait_meta :: "(nat \<times> header_map) option list \<Rightarrow> (nat \<times> header_map) option" where
  "wait_meta [] = None"
| "wait_meta (Some m # obs) = Some m"
| "wait_meta (None # obs) = wait_meta obs"

definition claim_range ::
    "nat \<Rightarrow> segments_buffer \<Rightarrow> (nat \<times> nat \<times> nat) option \<times> segments_buffer" where
  "claim_range preferred b =
     (if preferred = 0 then
        (None, if next_unassigned b \<ge> total_size b then b\<lparr>all_assigned := True\<rparr> else b)
      else
        let current = next_unassigned b in
        if current \<ge> total_size b then (None, b\<lparr>all_assigned := True\<rparr>)
        else
          let sz = min preferred (total_size b - current);
              e = current + sz;
              i = length (segments b)
          in (Some (i, current, e),
              b\<lparr>next_unassigned := e,
                segments := segments b @
                  [\<lparr>sg_start = current, sg_end = e, sg_state = Downloading\<rparr>]\<rparr>))"

function write_loop ::
    "(nat \<Rightarrow> nat \<Rightarrow> nat option) \<Rightarrow> nat \<Rightarrow> bytes \<Rightarrow> nat \<Rightarrow> bytes \<Rightarrow> (io_error + unit) \<times> bytes" where
  "write_loop wr off d written f =
     (if written < length d then
        (case wr (off + written) (length d - written) of
           None \<Rightarrow> (Inl Os_error, f)
         | Some n \<Rightarrow>
             if n = 0 then (Inl Write_zero, f)
             else write_loop wr off d (written + n)
                    (pwrite f (off + written) (take n (drop written d))))
      else (Inr (), f))"
  by pat_completeness auto
termination
  by (relation "measure (\<lambda>(wr, off, d, w, f). length d - w)") auto

declare write_loop.simps [simp del]

definition write_data ::
    "(nat \<Rightarrow> nat \<Rightarrow> nat option) \<Rightarrow> nat \<Rightarrow> bytes \<Rightarrow> segments_buffer
       \<Rightarrow> (io_error + unit) \<times> segments_buffer" where
  "write_data wr off d b =
     (let (r, f) = write_loop wr off d 0 (dl_file b) in (r, b\<lparr>dl_file := f\<rparr>))"

definition mark_ready :: "nat \<Rightarrow> segments_buffer \<Rightarrow> segments_buffer" where
  "mark_ready i b =
     (if i < length (segments b) then
        b\<lparr>segments := (segments b)[i := (segments b ! i)\<lparr>sg_state := Ready\<rparr>],
          ready_count := ready_count b + 1,
          notify := notify b @ [i]\<rparr>
      else b)"

definition num_segments :: "segments_buffer \<Rightarrow> nat" where
  "num_segments b = length (segments b)"

definition is_ready :: "nat \<Rightarrow> segments_buffer \<Rightarrow> bool" where
  "is_ready i b \<longleftrightarrow> i < length (segments b) \<and> sg_state (segments b ! i) = Ready"

definition segment_start :: "nat \<Rightarrow> segments_buffer \<Rightarrow> nat" where
  "segment_start i b = (if i < length (segments b) then sg_start (segments b ! i) else 0)"

definition segment_end :: "nat \<Rightarrow> segments_buffer \<Rightarrow> nat" where
  "segment_end i b =
     (if i < length (segments b) then sg_end (segments b ! i) else total_size b)"

definition read_data ::
    "(nat \<Rightarrow> nat \<Rightarrow> nat option) \<Rightarrow> nat \<Rightarrow> nat \<Rightarrow> segments_buffer \<Rightarrow> bytes option" where
  "read_data rd off len b =
     (if len = 0 then Some []
      else (case rd off len of
              None \<Rightarrow> None
            | Some n \<Rightarrow> if n = 0 then None else Some (pread (dl_file b) off n)))"

definition all_completed :: "segments_buffer \<Rightarrow> bool" where
  "all_completed b \<longleftrightarrow> all_assigned b \<and> ready_count b \<ge> length (segments b)"

definition mark_all_ready :: "segments_buffer \<Rightarrow> segments_buffer" where
  "mark_all_ready b =
     b\<lparr>segments := map (\<lambda>s. s\<lparr>sg_state := Ready\<rparr>) (segments b),
       ready_count := length (segments b),
       notify := notify b @ [u64_max]\<rparr>"

definition set_failed :: "segments_buffer \<Rightarrow> segments_buffer" where
  "set_failed b = b\<lparr>failed := True, notify := notify b @ [u64_max]\<rparr>"

definition is_failed :: "segments_buffer \<Rightarrow> bool" where
  "is_failed b = failed b"

subsection \<open>What the operating system promises about a regular file\<close>

text \<open>
  \<open>write_at\<close> never reports more bytes than it was given. \<open>read_at\<close> never reports more
  than were asked for or are there, and reports at least one when there are some.
\<close>

definition wr_ok :: "(nat \<Rightarrow> nat \<Rightarrow> nat option) \<Rightarrow> bool" where
  "wr_ok wr \<longleftrightarrow> (\<forall>off len n. wr off len = Some n \<longrightarrow> n \<le> len)"

definition wr_progress :: "(nat \<Rightarrow> nat \<Rightarrow> nat option) \<Rightarrow> bool" where
  "wr_progress wr \<longleftrightarrow> (\<forall>off len. 0 < len \<longrightarrow> (\<exists>n. wr off len = Some n \<and> 0 < n))"

definition rd_ok :: "bytes \<Rightarrow> (nat \<Rightarrow> nat \<Rightarrow> nat option) \<Rightarrow> bool" where
  "rd_ok f rd \<longleftrightarrow> (\<forall>off len. 0 < len \<longrightarrow> off < length f \<longrightarrow>
     (\<exists>n. rd off len = Some n \<and> 0 < n \<and> n \<le> len \<and> n \<le> length f - off))"

definition wr_full :: "nat \<Rightarrow> nat \<Rightarrow> nat option" where
  "wr_full off len = Some len"

definition rd_full :: "bytes \<Rightarrow> nat \<Rightarrow> nat \<Rightarrow> nat option" where
  "rd_full f off len = Some (min len (length f - off))"

lemma wr_full_ok: "wr_ok wr_full" "wr_progress wr_full"
  by (auto simp: wr_ok_def wr_progress_def wr_full_def)

lemma rd_full_ok: "rd_ok f (rd_full f)"
  by (auto simp: rd_ok_def rd_full_def)

subsection \<open>Writing and reading\<close>

lemma write_loop_Inr:
  assumes "wr_ok wr" "write_loop wr off d w f = (Inr (), f')" "off + length d \<le> length f"
    "w \<le> length d"
  shows "f' = pwrite f (off + w) (drop w d)"
  using assms
proof (induction wr off d w f rule: write_loop.induct)
  case (1 wr off d w f)
  show ?case
  proof (cases "w < length d")
    case False
    with 1 show ?thesis by (subst (asm) write_loop.simps) simp
  next
    case True
    with "1.prems"(2) obtain n where n: "wr (off + w) (length d - w) = Some n" "n \<noteq> 0"
      and rest: "write_loop wr off d (w + n) (pwrite f (off + w) (take n (drop w d)))
        = (Inr (), f')"
      by (subst (asm) write_loop.simps) (auto split: option.splits if_splits)
    have le: "n \<le> length d - w" using "1.prems"(1) n by (auto simp: wr_ok_def)
    have tk: "length (take n (drop w d)) = n" using le by simp
    have len: "off + length d \<le> length (pwrite f (off + w) (take n (drop w d)))"
      using "1.prems"(3) by auto
    have "f' = pwrite (pwrite f (off + w) (take n (drop w d))) (off + (w + n)) (drop (w + n) d)"
      using "1.IH" [OF True n(1) n(2) "1.prems"(1) rest len] le True by simp
    also have "\<dots> = pwrite f (off + w) (take n (drop w d) @ drop (w + n) d)"
      using pwrite_append [of "off + w" "take n (drop w d)" "drop (w + n) d" f, unfolded tk]
        le True "1.prems"(3) by (simp add: add.assoc)
    also have "take n (drop w d) @ drop (w + n) d = drop w d"
      by (metis add.commute append_take_drop_id drop_drop)
    finally show ?thesis .
  qed
qed

lemma write_loop_progress:
  "wr_progress wr \<Longrightarrow> \<exists>f'. write_loop wr off d w f = (Inr (), f')"
proof (induction wr off d w f rule: write_loop.induct)
  case (1 wr off d w f)
  show ?case
  proof (cases "w < length d")
    case False
    then show ?thesis by (subst write_loop.simps) simp
  next
    case True
    then obtain n where n: "wr (off + w) (length d - w) = Some n" "0 < n"
      using "1.prems" unfolding wr_progress_def by (meson zero_less_diff)
    then show ?thesis using "1.IH" [OF True n(1)] "1.prems" True
      by (subst write_loop.simps) simp
  qed
qed

lemma write_data_fields:
  assumes "write_data wr off d b = (r, b')"
  shows "\<exists>f. b' = b\<lparr>dl_file := f\<rparr>"
  using assms by (auto simp: write_data_def split: prod.splits)

lemma write_data_ok:
  assumes "wr_ok wr" "write_data wr off d b = (Inr (), b')" "off + length d \<le> length (dl_file b)"
  shows "b' = b\<lparr>dl_file := pwrite (dl_file b) off d\<rparr>"
proof -
  obtain f where f: "write_loop wr off d 0 (dl_file b) = (Inr (), f)" "b' = b\<lparr>dl_file := f\<rparr>"
    using assms(2) by (auto simp: write_data_def split: prod.splits)
  then show ?thesis using write_loop_Inr [OF assms(1) f(1) assms(3)] by simp
qed

subsection \<open>The claimed ranges tile the file\<close>

text \<open>\<open>tiles a ss z\<close>: the segments \<open>ss\<close> lie one after the other from \<open>a\<close> to \<open>z\<close>, none empty.\<close>

fun tiles :: "nat \<Rightarrow> segment list \<Rightarrow> nat \<Rightarrow> bool" where
  "tiles a [] z \<longleftrightarrow> a = z"
| "tiles a (s # ss) z \<longleftrightarrow> sg_start s = a \<and> a < sg_end s \<and> tiles (sg_end s) ss z"

definition count_ready :: "segment list \<Rightarrow> nat" where
  "count_ready ss = length (filter (\<lambda>s. sg_state s = Ready) ss)"

definition buf_inv :: "segments_buffer \<Rightarrow> bool" where
  "buf_inv b \<longleftrightarrow>
     tiles 0 (segments b) (next_unassigned b) \<and> next_unassigned b \<le> total_size b \<and>
     (all_assigned b \<longrightarrow> next_unassigned b = total_size b) \<and>
     ready_count b = count_ready (segments b)"

lemma tiles_append: "tiles a (ss @ ts) z \<longleftrightarrow> (\<exists>m. tiles a ss m \<and> tiles m ts z)"
  by (induction ss arbitrary: a) auto

lemma tiles_le: "tiles a ss z \<Longrightarrow> a \<le> z"
  by (induction ss arbitrary: a) fastforce+

lemma tiles_bounds:
  "tiles a ss z \<Longrightarrow> s \<in> set ss \<Longrightarrow> a \<le> sg_start s \<and> sg_start s < sg_end s \<and> sg_end s \<le> z"
proof (induction ss arbitrary: a)
  case Nil
  then show ?case by simp
next
  case (Cons x ss)
  then show ?case using tiles_le [of "sg_end x" ss z] by fastforce
qed

lemma tiles_state_update:
  "tiles a (ss[i := (ss ! i)\<lparr>sg_state := x\<rparr>]) z \<longleftrightarrow> tiles a ss z" if "i < length ss"
  using that
proof (induction ss arbitrary: a i)
  case Nil
  then show ?case by simp
next
  case (Cons s ss)
  then show ?case by (cases i) auto
qed

lemma tiles_map_state: "tiles a (map (\<lambda>s. s\<lparr>sg_state := x\<rparr>) ss) z \<longleftrightarrow> tiles a ss z"
  by (induction ss arbitrary: a) auto

lemma tiles_no_overlap:
  assumes "tiles a ss z" "i < j" "j < length ss"
  shows "sg_end (ss ! i) \<le> sg_start (ss ! j)"
proof -
  obtain m where "tiles m (drop (Suc i) ss) z" "m = sg_end (ss ! i)"
    using assms id_take_nth_drop [of i ss]
    by (metis order.strict_trans tiles.simps(2) tiles_append)
  moreover have "ss ! j \<in> set (drop (Suc i) ss)"
    using assms by (auto simp: in_set_conv_nth intro!: exI [of _ "j - Suc i"])
  ultimately show ?thesis using tiles_bounds by blast
qed

lemma tiles_covers:
  "tiles a ss z \<Longrightarrow> a \<le> x \<Longrightarrow> x < z \<Longrightarrow> \<exists>s \<in> set ss. sg_start s \<le> x \<and> x < sg_end s"
proof (induction ss arbitrary: a)
  case Nil
  then show ?case by simp
next
  case (Cons s ss)
  then show ?case by (cases "x < sg_end s") auto
qed

lemma count_ready_le: "count_ready ss \<le> length ss"
  by (simp add: count_ready_def)

lemma count_ready_all: "count_ready ss = length ss \<longleftrightarrow> (\<forall>s \<in> set ss. sg_state s = Ready)"
proof (induction ss)
  case Nil
  then show ?case by (simp add: count_ready_def)
next
  case (Cons s ss)
  then show ?case using length_filter_le [of "\<lambda>s. sg_state s = Ready" ss]
    by (auto simp: count_ready_def simp del: length_filter_le)
qed

lemma count_ready_append: "count_ready (ss @ ts) = count_ready ss + count_ready ts"
  by (simp add: count_ready_def)

lemma count_ready_update:
  "i < length ss \<Longrightarrow> sg_state (ss ! i) \<noteq> Ready \<Longrightarrow>
   count_ready (ss[i := (ss ! i)\<lparr>sg_state := Ready\<rparr>]) = Suc (count_ready ss)"
proof (induction ss arbitrary: i)
  case Nil
  then show ?case by simp
next
  case (Cons s ss)
  then show ?case by (cases i) (auto simp: count_ready_def)
qed

lemma buf_inv_new: "buf_inv (new_buffer n f p)"
  by (simp add: buf_inv_def new_buffer_def count_ready_def)

lemma buf_inv_claim:
  assumes "buf_inv b"
  shows "buf_inv (snd (claim_range p b))"
  using assms
  by (auto simp: claim_range_def buf_inv_def Let_def tiles_append count_ready_append)
    (simp_all add: count_ready_def)

lemma buf_inv_mark:
  assumes "buf_inv b" "\<not> is_ready i b"
  shows "buf_inv (mark_ready i b)"
  using assms
  by (auto simp: mark_ready_def buf_inv_def tiles_state_update count_ready_update is_ready_def)

lemma buf_inv_mark_all: "buf_inv b \<Longrightarrow> buf_inv (mark_all_ready b)"
  by (auto simp: mark_all_ready_def buf_inv_def tiles_map_state count_ready_def)

lemma buf_inv_frame [buf_simps]:
  "buf_inv (b\<lparr>dl_file := f\<rparr>) = buf_inv b"
  "buf_inv (set_failed b) = buf_inv b"
  "buf_inv (set_meta st hs b) = buf_inv b"
  by (simp_all add: buf_inv_def set_failed_def set_meta_def)

text \<open>
  What \<open>claim_range\<close> does, case by case: it takes the next range, never empty, never longer
  than asked for and never past the end; or it finds the file exhausted; or, asked for
  nothing, it only notes an exhausted file.
\<close>

lemma claim_range_Some:
  assumes "claim_range p b = (Some (i, s, e), b')"
  shows "0 < p" "i = length (segments b)" "s = next_unassigned b" "s < e" "e - s \<le> p"
    "e \<le> total_size b" "next_unassigned b' = e" "total_size b' = total_size b"
    "segments b' = segments b @ [\<lparr>sg_start = s, sg_end = e, sg_state = Downloading\<rparr>]"
    "dl_file b' = dl_file b" "ready_count b' = ready_count b" "failed b' = failed b"
    "all_assigned b' = all_assigned b"
  using assms by (auto simp: claim_range_def Let_def split: if_splits)

lemma claim_range_None:
  assumes "claim_range p b = (None, b')" "0 < p"
  shows "total_size b \<le> next_unassigned b" "b' = b\<lparr>all_assigned := True\<rparr>"
  using assms by (auto simp: claim_range_def Let_def split: if_splits)

lemma claim_range_0: "claim_range 0 b = (None, if total_size b \<le> next_unassigned b
    then b\<lparr>all_assigned := True\<rparr> else b)"
  by (simp add: claim_range_def)

end
