(* ===== verification/Buffer_Protocol.thy ===== *)
theory Buffer_Protocol
  imports Segments_Buffer
begin

text \<open>
  How the buffer of \<open>buffer.rs\<close> is used. The locale \<open>range_supply\<close> is the contract a
  download worker relies on when it keeps asking for ranges; \<open>claim_range\<close> provides it.
  \<open>buf_step\<close> is any one call on the buffer, in any order, with the one discipline the
  workers keep (a segment is marked ready once); \<open>buf_reach\<close> are the buffers such calls
  lead to.
\<close>

subsection \<open>The supply of ranges a worker loop consumes\<close>

text \<open>The loop of a worker: claim with the size preferred at that round, stop at \<open>None\<close>.\<close>

fun claim_seq ::
    "(nat \<Rightarrow> 'b \<Rightarrow> (nat \<times> nat \<times> nat) option \<times> 'b) \<Rightarrow> nat list \<Rightarrow> 'b
       \<Rightarrow> (nat \<times> nat \<times> nat) list \<times> 'b" where
  "claim_seq claim [] b = ([], b)"
| "claim_seq claim (p # ps) b =
     (case claim p b of
        (None, b') \<Rightarrow> ([], b')
      | (Some r, b') \<Rightarrow> (let (rs, b'') = claim_seq claim ps b' in (r # rs, b'')))"

fun consecutive :: "nat \<Rightarrow> (nat \<times> nat \<times> nat) list \<Rightarrow> nat \<Rightarrow> bool" where
  "consecutive a [] z \<longleftrightarrow> a = z"
| "consecutive a ((i, s, e) # rs) z \<longleftrightarrow> s = a \<and> a < e \<and> consecutive e rs z"

lemma consecutive_length: "consecutive a rs z \<Longrightarrow> a + length rs \<le> z"
  by (induction a rs z rule: consecutive.induct) auto

lemma consecutive_sum:
  "consecutive a rs z \<Longrightarrow> a + (\<Sum>(i, s, e) \<leftarrow> rs. e - s) = z"
  by (induction a rs z rule: consecutive.induct) auto

locale range_supply =
  fixes claim :: "nat \<Rightarrow> 'b \<Rightarrow> (nat \<times> nat \<times> nat) option \<times> 'b"
    and pos :: "'b \<Rightarrow> nat"
    and limit :: "'b \<Rightarrow> nat"
  assumes claim_Some: "claim p b = (Some (i, s, e), b') \<Longrightarrow>
      s = pos b \<and> s < e \<and> e \<le> limit b \<and> e - s \<le> p \<and> pos b' = e \<and> limit b' = limit b"
    and claim_None: "claim p b = (None, b') \<Longrightarrow>
      pos b' = pos b \<and> limit b' = limit b \<and> (0 < p \<longrightarrow> limit b \<le> pos b)"
begin

lemma claim_seq_consecutive:
  "claim_seq claim ps b = (rs, b') \<Longrightarrow> consecutive (pos b) rs (pos b') \<and> limit b' = limit b"
proof (induction ps arbitrary: b rs)
  case Nil
  then show ?case by simp
next
  case (Cons p ps)
  show ?case
  proof (cases "claim p b")
    case (Pair r c)
    show ?thesis
    proof (cases r)
      case None
      then show ?thesis using Cons.prems Pair claim_None by auto
    next
      case (Some t)
      obtain i s e where t: "t = (i, s, e)" by (cases t)
      obtain rs' where rs': "claim_seq claim ps c = (rs', b')" "rs = t # rs'"
        using Cons.prems Pair Some by (auto split: prod.splits)
      show ?thesis
        using Cons.IH [OF rs'(1)] claim_Some [of p b i s e c] Pair Some t rs'(2) by auto
    qed
  qed
qed

lemma claim_seq_bounded:
  "claim_seq claim ps b = (rs, b') \<Longrightarrow> (i, s, e) \<in> set rs \<Longrightarrow> pos b \<le> limit b \<Longrightarrow> e \<le> limit b"
proof (induction ps arbitrary: b rs)
  case Nil
  then show ?case by simp
next
  case (Cons p ps)
  then obtain t c rs' where c: "claim p b = (Some t, c)" "claim_seq claim ps c = (rs', b')"
    "rs = t # rs'"
    by (auto split: prod.splits option.splits)
  obtain j u v where t: "t = (j, u, v)" by (cases t)
  have "limit c = limit b" "v \<le> limit b" "pos c \<le> limit c"
    using claim_Some [of p b j u v c] c(1) t by auto
  then show ?case using Cons.IH [OF c(2)] Cons.prems(2) c(3) t by auto
qed

text \<open>A loop that gets \<open>None\<close> for a real request has exhausted the supply.\<close>

lemma claim_seq_exhausted:
  "claim_seq claim ps b = (rs, b') \<Longrightarrow> length rs < length ps \<Longrightarrow> \<forall>p \<in> set ps. 0 < p \<Longrightarrow>
   limit b \<le> pos b'"
proof (induction ps arbitrary: b rs)
  case Nil
  then show ?case by simp
next
  case (Cons p ps)
  show ?case
  proof (cases "fst (claim p b)")
    case None
    then show ?thesis using Cons.prems claim_None [of p b "snd (claim p b)"]
      by (cases "claim p b") auto
  next
    case (Some t)
    obtain c where c: "claim p b = (Some t, c)" using Some by (cases "claim p b") auto
    obtain i s e where t: "t = (i, s, e)" by (cases t)
    obtain rs' where rs': "claim_seq claim ps c = (rs', b')" "rs = t # rs'"
      using Cons.prems(1) c by (auto split: prod.splits)
    have "limit c \<le> pos b'" using Cons.IH [OF rs'(1)] Cons.prems rs'(2) by auto
    then show ?thesis using claim_Some [of p b i s e c] c t by auto
  qed
qed

theorem worker_loop_covers:
  assumes "claim_seq claim ps b = (rs, b')" "\<forall>p \<in> set ps. 0 < p"
    "limit b - pos b < length ps" "pos b \<le> limit b"
  shows "consecutive (pos b) rs (limit b)"
proof -
  have c: "consecutive (pos b) rs (pos b')" "limit b' = limit b"
    using claim_seq_consecutive [OF assms(1)] by auto
  have le: "pos b' \<le> limit b"
  proof (cases rs rule: rev_cases)
    case Nil
    then show ?thesis using c assms(4) by simp
  next
    case (snoc xs t)
    obtain i s e where t: "t = (i, s, e)" by (cases t)
    have "consecutive a (xs @ [(i, s, e)]) z \<Longrightarrow> z = e" for a z
      by (induction a xs z rule: consecutive.induct) auto
    then have "pos b' = e" using c snoc t by auto
    then show ?thesis using claim_seq_bounded [OF assms(1) _ assms(4)] snoc t by auto
  qed
  have "length rs < length ps" using consecutive_length [OF c(1)] le assms(3) by linarith
  then have "limit b \<le> pos b'" using claim_seq_exhausted [OF assms(1) _ assms(2)] by simp
  then show ?thesis using c le by simp
qed

end

interpretation seg: range_supply claim_range next_unassigned total_size
  by unfold_locales
    (auto simp: claim_range_def Let_def split: if_splits)

subsection \<open>All calls in all orders\<close>

inductive buf_step :: "segments_buffer \<Rightarrow> segments_buffer \<Rightarrow> bool" where
  step_claim: "buf_step b (snd (claim_range p b))"
| step_write: "write_data wr off d b = (r, b') \<Longrightarrow> buf_step b b'"
| step_mark: "\<not> is_ready i b \<Longrightarrow> buf_step b (mark_ready i b)"
| step_mark_all: "buf_step b (mark_all_ready b)"
| step_fail: "buf_step b (set_failed b)"
| step_meta: "buf_step b (set_meta st hs b)"

inductive buf_reach :: "nat \<Rightarrow> segments_buffer \<Rightarrow> bool" where
  reach_new: "buf_reach n (new_buffer n f path)"
| reach_step: "buf_reach n b \<Longrightarrow> buf_step b b' \<Longrightarrow> buf_reach n b'"

inductive_cases buf_stepE: "buf_step b b'"

lemma claim_total [simp]: "total_size (snd (claim_range p b)) = total_size b"
  by (simp add: claim_range_def Let_def)

lemma mark_total [simp]: "total_size (mark_ready i b) = total_size b"
  by (simp add: mark_ready_def)

lemma buf_step_total: "buf_step b b' \<Longrightarrow> total_size b' = total_size b"
  by (induction rule: buf_step.induct)
    (auto simp: mark_all_ready_def set_failed_def set_meta_def dest: write_data_fields)

lemma buf_step_inv: "buf_step b b' \<Longrightarrow> buf_inv b \<Longrightarrow> buf_inv b'"
  by (induction rule: buf_step.induct)
    (auto simp: buf_inv_claim buf_inv_mark buf_inv_mark_all buf_simps dest: write_data_fields)

lemma buf_reach_inv: "buf_reach n b \<Longrightarrow> buf_inv b \<and> total_size b = n"
  by (induction rule: buf_reach.induct)
    (auto simp: buf_inv_new buf_step_total new_buffer_def intro: buf_step_inv
      buf_inv_new [unfolded new_buffer_def])

subsection \<open>Properties of the buffer\<close>

lemma claim_seq_new_reach:
  "claim_seq claim_range ps b = (rs, b') \<Longrightarrow> buf_reach n b \<Longrightarrow> buf_reach n b'"
proof (induction ps arbitrary: b rs)
  case Nil
  then show ?case by simp
next
  case (Cons p ps)
  have r: "buf_reach n (snd (claim_range p b))"
    using Cons.prems(2) by (blast intro: reach_step step_claim)
  obtain x c where c: "claim_range p b = (x, c)" by (cases "claim_range p b")
  show ?case
  proof (cases x)
    case None
    then show ?thesis using Cons.prems r c by simp
  next
    case (Some t)
    then obtain rs' where "claim_seq claim_range ps c = (rs', b')"
      using Cons.prems(1) c by (auto split: prod.splits)
    then show ?thesis using Cons.IH r c by simp
  qed
qed

text \<open>
  C9. Workers that keep claiming ranges of any positive preferred sizes from a new buffer
  of \<open>n\<close> bytes get at most \<open>n\<close> ranges; the ranges follow one another from 0 to \<open>n\<close>, none
  is empty, and the loop stops because the file is exhausted.
\<close>

theorem claim_loop_covers:
  assumes "claim_seq claim_range ps (new_buffer n f path) = (rs, b')"
    and "\<forall>p \<in> set ps. 0 < p" and "n < length ps"
  shows "consecutive 0 rs n \<and> length rs \<le> n \<and> (\<Sum>(i, s, e) \<leftarrow> rs. e - s) = n"
proof -
  have "consecutive 0 rs n"
    using seg.worker_loop_covers [OF assms(1,2)] assms(3) by (simp add: new_buffer_def)
  then show ?thesis using consecutive_length consecutive_sum by fastforce
qed

theorem claim_loop_covers_witness:
  "claim_seq claim_range [2, 2, 2, 2] (new_buffer 3 [] [])
     = ([(0, 0, 2), (1, 2, 3)],
        (snd (claim_range 2 (snd (claim_range 2 (snd (claim_range 2 (new_buffer 3 [] []))))))))
   \<and> consecutive 0 [(0, 0, 2), (1, 2, 3)] 3"
proof -
  have c: "claim_seq claim_range [2, 2, 2, 2] (new_buffer 3 [] [])
     = ([(0, 0, 2), (1, 2, 3)],
        (snd (claim_range 2 (snd (claim_range 2 (snd (claim_range 2 (new_buffer 3 [] []))))))))"
    by (simp add: new_buffer_def claim_range_def)
  show ?thesis using c claim_loop_covers [OF c] by simp
qed

text \<open>
  Completion means what the readers take it to mean: in every buffer that calls in any
  order lead to (each segment marked ready at most once), when \<open>all_completed\<close> holds every
  byte of the file lies in exactly one segment and that segment is ready.
\<close>

lemma completed_covers:
  assumes "buf_reach n b" and "all_completed b" and "x < n"
  shows "\<exists>!i. i < num_segments b \<and> segment_start i b \<le> x \<and> x < segment_end i b \<and> is_ready i b"
proof -
  have inv: "buf_inv b" "total_size b = n" using buf_reach_inv [OF assms(1)] by auto
  have t: "tiles 0 (segments b) n"
    using inv assms(2) by (auto simp: buf_inv_def all_completed_def)
  have "count_ready (segments b) = length (segments b)"
    using inv assms(2) count_ready_le [of "segments b"]
    by (auto simp: buf_inv_def all_completed_def)
  then have rdy: "\<forall>s \<in> set (segments b). sg_state s = Ready" using count_ready_all by blast
  obtain s where "s \<in> set (segments b)" "sg_start s \<le> x" "x < sg_end s"
    using tiles_covers [OF t _ assms(3)] by auto
  then obtain i where i: "i < length (segments b)" "sg_start (segments b ! i) \<le> x"
    "x < sg_end (segments b ! i)"
    by (auto simp: in_set_conv_nth)
  have uniq: "j = i" if "j < length (segments b)" "sg_start (segments b ! j) \<le> x"
    "x < sg_end (segments b ! j)" for j
    using that i tiles_no_overlap [OF t, of i j] tiles_no_overlap [OF t, of j i]
    by (cases i j rule: linorder_cases) auto
  show ?thesis
  proof (rule ex1I [of _ i])
    show "i < num_segments b \<and> segment_start i b \<le> x \<and> x < segment_end i b \<and> is_ready i b"
      using i rdy by (simp add: num_segments_def segment_start_def segment_end_def is_ready_def)
  next
    fix j assume a: "j < num_segments b \<and> segment_start j b \<le> x \<and> x < segment_end j b
      \<and> is_ready j b"
    then have "j < length (segments b)" by (simp add: num_segments_def)
    then show "j = i" using a by (intro uniq) (simp_all add: segment_start_def segment_end_def)
  qed
qed

definition demo_buffer :: segments_buffer where
  "demo_buffer = mark_ready 0 (snd (claim_range 2 (snd (claim_range 2 (new_buffer 2 [1, 2] [])))))"

lemma demo_buffer_eq:
  "demo_buffer = \<lparr>total_size = 2, next_unassigned = 2,
     segments = [\<lparr>sg_start = 0, sg_end = 2, sg_state = Ready\<rparr>], ready_count = 1,
     all_assigned = True, meta = None, notify = [0], failed = False, dl_file = [1, 2],
     file_path = []\<rparr>"
  by (simp add: demo_buffer_def new_buffer_def claim_range_def mark_ready_def)

lemma reach_claim: "buf_reach n b \<Longrightarrow> buf_reach n (snd (claim_range p b))"
  by (blast intro: reach_step step_claim)

lemma demo_buffer_reach: "buf_reach 2 demo_buffer"
proof -
  have "buf_reach 2 (snd (claim_range 2 (snd (claim_range 2 (new_buffer 2 [1, 2] [])))))"
    by (intro reach_claim reach_new)
  moreover have "\<not> is_ready 0 (snd (claim_range 2 (snd (claim_range 2 (new_buffer 2 [1, 2] [])))))"
    by (simp add: new_buffer_def claim_range_def is_ready_def)
  ultimately show ?thesis unfolding demo_buffer_def by (blast intro: reach_step step_mark)
qed

lemma completed_covers_witness:
  "all_completed demo_buffer \<and>
   (\<exists>!i. i < num_segments demo_buffer \<and> segment_start i demo_buffer \<le> 1 \<and>
      1 < segment_end i demo_buffer \<and> is_ready i demo_buffer)"
proof -
  have "all_completed demo_buffer" by (simp add: demo_buffer_eq all_completed_def)
  then show ?thesis using completed_covers [OF demo_buffer_reach, of 1] by simp
qed

text \<open>
  A write that succeeds inside the file, however the kernel splits it, is what a read of
  that range returns, and every byte outside the range keeps its value.
\<close>

lemma write_read_roundtrip:
  assumes "wr_ok wr" and "write_data wr off d b = (Inr (), b')"
    and "off + length d \<le> length (dl_file b)"
  shows "read_data (rd_full (dl_file b')) off (length d) b' = Some d \<and>
     (\<forall>i < length (dl_file b). i < off \<or> off + length d \<le> i \<longrightarrow>
        dl_file b' ! i = dl_file b ! i) \<and>
     length (dl_file b') = length (dl_file b)"
proof -
  have b': "b' = b\<lparr>dl_file := pwrite (dl_file b) off d\<rparr>" by (rule write_data_ok [OF assms])
  have "min (length d) (max (length (dl_file b)) (off + length d) - off) = length d"
    using assms(3) by simp
  then show ?thesis
    using b' assms(3) by (auto simp: read_data_def rd_full_def pread_pwrite_same nth_pwrite_outside)
qed

lemma write_read_roundtrip_witness:
  "read_data (rd_full (pwrite [0, 0, 0, 0] 1 [7, 8])) 1 2
     (demo_buffer\<lparr>dl_file := pwrite [0, 0, 0, 0] 1 [7, 8]\<rparr>) = Some [7, 8]"
proof -
  define b where "b = demo_buffer\<lparr>dl_file := [0, 0, 0, 0]\<rparr>"
  have w: "write_data wr_full 1 [7, 8] b = (Inr (), b\<lparr>dl_file := pwrite [0, 0, 0, 0] 1 [7, 8]\<rparr>)"
    by (simp add: write_data_def write_loop.simps wr_full_def b_def)
  show ?thesis
    using write_read_roundtrip [OF wr_full_ok(1) w] by (simp add: b_def numeral_2_eq_2)
qed

text \<open>
  Marking one segment twice breaks the count: the buffer then reports completion while
  another segment is still downloading. The workers mark each segment once, which is why
  the steps above ask for it; the method itself does not check.
\<close>

lemma double_mark_completes_early:
  "let b = mark_ready 0 (mark_ready 0 (snd (claim_range 1 (snd (claim_range 1
         (snd (claim_range 1 (new_buffer 2 f path))))))))
   in all_completed b \<and> 1 < num_segments b \<and> \<not> is_ready 1 b"
  by (simp add: new_buffer_def claim_range_def mark_ready_def all_completed_def num_segments_def
      is_ready_def)

end
