(* ===== verification/Claim_Interleaving.thy ===== *)
theory Claim_Interleaving
  imports Buffer_Protocol "HOL-Library.Multiset"
begin

text \<open>
  \<open>claim_range\<close> of \<open>buffer.rs\<close> under concurrency. The method loads the next free
  position, decides, wins the range with a compare-exchange and only then, under the
  lock, pushes the segment. Each of these is one step here, and any number of workers
  take their steps in any order. \<open>claim_steps_refine\<close> shows that the steps of one
  undisturbed worker are the sequential \<open>claim_range\<close>.
\<close>

text \<open>Where a worker is inside the call; \<open>Start p\<close> is the head of the retry loop.\<close>

datatype claim_pc =
    Start nat
  | Loaded nat nat
  | Won nat nat
  | Returned "(nat \<times> nat \<times> nat) option"

definition claim_load :: "nat \<Rightarrow> segments_buffer \<Rightarrow> claim_pc \<times> segments_buffer" where
  "claim_load p b =
     (let current = next_unassigned b in
      if p = 0 then
        (Returned None, if current \<ge> total_size b then b\<lparr>all_assigned := True\<rparr> else b)
      else if current \<ge> total_size b then (Returned None, b\<lparr>all_assigned := True\<rparr>)
      else (Loaded p current, b))"

definition claim_cas :: "nat \<Rightarrow> nat \<Rightarrow> segments_buffer \<Rightarrow> claim_pc \<times> segments_buffer" where
  "claim_cas p current b =
     (let e = current + min p (total_size b - current) in
      if next_unassigned b = current then (Won current e, b\<lparr>next_unassigned := e\<rparr>)
      else (Start p, b))"

definition claim_push :: "nat \<Rightarrow> nat \<Rightarrow> segments_buffer \<Rightarrow> claim_pc \<times> segments_buffer" where
  "claim_push s e b =
     (Returned (Some (length (segments b), s, e)),
      b\<lparr>segments := segments b @ [\<lparr>sg_start = s, sg_end = e, sg_state = Downloading\<rparr>]\<rparr>)"

fun claim_step :: "claim_pc \<Rightarrow> segments_buffer \<Rightarrow> claim_pc \<times> segments_buffer" where
  "claim_step (Start p) b = claim_load p b"
| "claim_step (Loaded p c) b = claim_cas p c b"
| "claim_step (Won s e) b = claim_push s e b"
| "claim_step (Returned r) b = (Returned r, b)"

lemma claim_steps_refine:
  "claim_range p b =
     (case (\<lambda>(pc, b). claim_step pc b) ((\<lambda>(pc, b). claim_step pc b) (claim_step (Start p) b)) of
        (Returned r, b') \<Rightarrow> (r, b') | (_, b') \<Rightarrow> (None, b'))"
  by (simp add: claim_range_def claim_load_def claim_cas_def claim_push_def Let_def)

text \<open>The whole system: the buffer and one program counter per worker.\<close>

record claim_sys =
  shared :: segments_buffer
  workers :: "claim_pc list"

definition sys_step :: "nat \<Rightarrow> claim_sys \<Rightarrow> claim_sys" where
  "sys_step w s =
     (if w < length (workers s) then
        (let (pc, b) = claim_step (workers s ! w) (shared s)
         in \<lparr>shared = b, workers = (workers s)[w := pc]\<rparr>)
      else s)"

fun sys_run :: "nat list \<Rightarrow> claim_sys \<Rightarrow> claim_sys" where
  "sys_run [] s = s"
| "sys_run (w # ws) s = sys_run ws (sys_step w s)"

definition sys_init :: "nat \<Rightarrow> bytes \<Rightarrow> string \<Rightarrow> nat list \<Rightarrow> claim_sys" where
  "sys_init n f path prefs = \<lparr>shared = new_buffer n f path, workers = map Start prefs\<rparr>"

text \<open>The ranges won: those pushed and those whose worker has not pushed yet.\<close>

fun won_range :: "claim_pc \<Rightarrow> (nat \<times> nat) multiset" where
  "won_range (Won s e) = {#(s, e)#}"
| "won_range _ = {#}"

definition sg_range :: "segment \<Rightarrow> nat \<times> nat" where
  "sg_range s = (sg_start s, sg_end s)"

definition held_ranges :: "claim_sys \<Rightarrow> (nat \<times> nat) multiset" where
  "held_ranges s =
     mset (map sg_range (segments (shared s))) + \<Sum>\<^sub># (mset (map won_range (workers s)))"

fun chain :: "nat \<Rightarrow> (nat \<times> nat) list \<Rightarrow> nat \<Rightarrow> bool" where
  "chain a [] z \<longleftrightarrow> a = z"
| "chain a ((s, e) # rs) z \<longleftrightarrow> s = a \<and> a < e \<and> chain e rs z"

definition loaded_ok :: "segments_buffer \<Rightarrow> claim_pc \<Rightarrow> bool" where
  "loaded_ok b pc = (case pc of Loaded p c \<Rightarrow> 0 < p \<and> c < total_size b | _ \<Rightarrow> True)"

definition sys_inv :: "claim_sys \<Rightarrow> bool" where
  "sys_inv s \<longleftrightarrow>
     (\<exists>rs. chain 0 rs (next_unassigned (shared s)) \<and> mset rs = held_ranges s) \<and>
     next_unassigned (shared s) \<le> total_size (shared s) \<and>
     (\<forall>pc \<in> set (workers s). loaded_ok (shared s) pc)"

lemma chain_append: "chain a (rs @ ts) z \<longleftrightarrow> (\<exists>m. chain a rs m \<and> chain m ts z)"
  by (induction a rs z rule: chain.induct) auto

lemma chain_le: "chain a rs z \<Longrightarrow> a \<le> z"
  by (induction a rs z rule: chain.induct) auto

lemma chain_bounds: "chain a rs z \<Longrightarrow> (s, e) \<in> set rs \<Longrightarrow> a \<le> s \<and> s < e \<and> e \<le> z"
  by (induction a rs z rule: chain.induct) (auto dest: chain_le)

lemma chain_covers:
  "chain a rs z \<Longrightarrow> a \<le> x \<Longrightarrow> x < z \<Longrightarrow> size {#r \<in># mset rs. fst r \<le> x \<and> x < snd r#} = 1"
proof (induction a rs z rule: chain.induct)
  case (1 a z)
  then show ?case by simp
next
  case (2 a s e rs z)
  show ?case
  proof (cases "x < e")
    case True
    have "{#r \<in># mset rs. fst r \<le> x \<and> x < snd r#} = {#}"
      using "2.prems"(1) True chain_bounds [of e rs z] by (fastforce simp: filter_mset_eq_mempty_iff)
    then show ?thesis using 2 True by auto
  next
    case False
    then show ?thesis using 2 by auto
  qed
qed

lemma sum_mset_update:
  "i < length pcs \<Longrightarrow>
   \<Sum>\<^sub># (mset (map won_range (pcs[i := pc]))) + won_range (pcs ! i)
     = \<Sum>\<^sub># (mset (map won_range pcs)) + won_range pc"
proof (induction pcs arbitrary: i)
  case Nil
  then show ?case by simp
next
  case (Cons p pcs)
  then show ?case by (cases i) (auto simp: ac_simps)
qed

lemma claim_step_total [simp]: "total_size (snd (claim_step pc b)) = total_size b"
  by (cases pc) (auto simp: claim_load_def claim_cas_def claim_push_def Let_def)

lemma claim_step_cases:
  assumes "loaded_ok b pc" "claim_step pc b = (pc', b')"
  shows "(won_range pc' = won_range pc \<and> segments b' = segments b \<and>
            next_unassigned b' = next_unassigned b) \<or>
         (\<exists>e. won_range pc = {#} \<and> won_range pc' = {#(next_unassigned b, e)#} \<and>
            segments b' = segments b \<and> next_unassigned b < e \<and> e \<le> total_size b \<and>
            next_unassigned b' = e) \<or>
         (\<exists>s e x. won_range pc = {#(s, e)#} \<and> won_range pc' = {#} \<and>
            next_unassigned b' = next_unassigned b \<and>
            segments b' = segments b @ [\<lparr>sg_start = s, sg_end = e, sg_state = x\<rparr>])"
  using assms
  by (cases pc) (auto simp: loaded_ok_def claim_load_def claim_cas_def claim_push_def Let_def
      split: if_splits)

lemma claim_step_loaded_ok: "loaded_ok b pc \<Longrightarrow> claim_step pc b = (pc', b') \<Longrightarrow> loaded_ok b' pc'"
  by (cases pc) (auto simp: loaded_ok_def claim_load_def claim_cas_def claim_push_def Let_def
      split: if_splits)

lemma sys_step_inv:
  assumes inv: "sys_inv s"
  shows "sys_inv (sys_step w s)"
proof (cases "w < length (workers s)")
  case False
  then show ?thesis using inv by (simp add: sys_step_def)
next
  case True
  let ?b = "shared s" and ?pc = "workers s ! w"
  obtain pc' b' where step: "claim_step ?pc ?b = (pc', b')" by (cases "claim_step ?pc ?b")
  have s': "sys_step w s = \<lparr>shared = b', workers = (workers s)[w := pc']\<rparr>"
    using True step by (simp add: sys_step_def)
  have tot: "total_size b' = total_size ?b" using claim_step_total [of ?pc ?b] step by simp
  obtain rs where rs: "chain 0 rs (next_unassigned ?b)" "mset rs = held_ranges s"
    using inv by (auto simp: sys_inv_def)
  have lok: "loaded_ok ?b ?pc" using inv True by (auto simp: sys_inv_def)
  have lok': "\<forall>pc \<in> set ((workers s)[w := pc']). loaded_ok b' pc"
  proof
    fix pc assume "pc \<in> set ((workers s)[w := pc'])"
    then consider "pc = pc'" | "pc \<in> set (workers s)" using set_update_subset_insert by fastforce
    then show "loaded_ok b' pc"
    proof cases
      case 1
      then show ?thesis using claim_step_loaded_ok [OF lok step] by simp
    next
      case 2
      then have "loaded_ok ?b pc" using inv by (auto simp: sys_inv_def)
      then show ?thesis using tot by (auto simp: loaded_ok_def split: claim_pc.splits)
    qed
  qed
  define rest where "rest = \<Sum>\<^sub># (mset (map won_range ((workers s)[w := pc'])))"
  have upd: "rest + won_range ?pc = \<Sum>\<^sub># (mset (map won_range (workers s))) + won_range pc'"
    unfolding rest_def by (rule sum_mset_update [OF True])
  have held': "held_ranges (sys_step w s) = mset (map sg_range (segments b')) + rest"
    by (simp add: held_ranges_def s' rest_def)
  have held: "held_ranges s + won_range pc'
      = mset (map sg_range (segments ?b)) + (rest + won_range ?pc)"
    unfolding upd by (simp add: held_ranges_def)
  have "\<exists>rs'. chain 0 rs' (next_unassigned b') \<and> mset rs' = held_ranges (sys_step w s) \<and>
      next_unassigned b' \<le> total_size b'"
    using claim_step_cases [OF lok step]
  proof (elim disjE exE conjE)
    assume "won_range pc' = won_range ?pc" "segments b' = segments ?b"
      "next_unassigned b' = next_unassigned ?b"
    then show ?thesis using rs held held' inv tot by (intro exI [of _ rs]) (simp add: sys_inv_def)
  next
    fix e
    assume "won_range ?pc = {#}" "won_range pc' = {#(next_unassigned ?b, e)#}"
      "segments b' = segments ?b" "next_unassigned ?b < e" "e \<le> total_size ?b"
      "next_unassigned b' = e"
    then show ?thesis using rs held held' tot
      by (intro exI [of _ "rs @ [(next_unassigned ?b, e)]"]) (auto simp: chain_append)
  next
    fix u e x
    assume "won_range ?pc = {#(u, e)#}" "won_range pc' = {#}"
      "next_unassigned b' = next_unassigned ?b"
      "segments b' = segments ?b @ [\<lparr>sg_start = u, sg_end = e, sg_state = x\<rparr>]"
    then show ?thesis using rs held held' inv tot
      by (intro exI [of _ rs]) (simp add: sg_range_def sys_inv_def)
  qed
  then show ?thesis using lok' s' by (auto simp: sys_inv_def)
qed

lemma sys_run_inv: "sys_inv s \<Longrightarrow> sys_inv (sys_run ws s)"
  by (induction ws arbitrary: s) (auto simp: sys_step_inv)

lemma sys_init_inv: "sys_inv (sys_init n f path prefs)"
  by (auto simp: sys_inv_def sys_init_def new_buffer_def held_ranges_def loaded_ok_def
      intro!: exI [of _ "[]"] sum_mset.neutral)

lemma sys_step_total [simp]: "total_size (shared (sys_step w s)) = total_size (shared s)"
  by (cases "claim_step (workers s ! w) (shared s)")
    (use claim_step_total [of "workers s ! w" "shared s"] in \<open>auto simp: sys_step_def\<close>)

lemma sys_run_total [simp]: "total_size (shared (sys_run ws s)) = total_size (shared s)"
  by (induction ws arbitrary: s) auto

text \<open>
  C10. Whatever the interleaving of the steps of any number of workers, no byte is handed out
  twice: every position below the next free one lies in exactly one of the ranges that have
  been won (pushed as a segment or about to be), and none of these reaches past the end of
  the file.
\<close>

theorem claims_disjoint_interleaved:
  "let s = sys_run ws (sys_init n f path prefs) in
     (\<forall>x. size {#r \<in># held_ranges s. fst r \<le> x \<and> x < snd r#}
        = (if x < next_unassigned (shared s) then 1 else 0)) \<and>
     next_unassigned (shared s) \<le> n"
proof -
  define s where "s = sys_run ws (sys_init n f path prefs)"
  have inv: "sys_inv s" unfolding s_def by (intro sys_run_inv sys_init_inv)
  obtain rs where rs: "chain 0 rs (next_unassigned (shared s))" "mset rs = held_ranges s"
    using inv by (auto simp: sys_inv_def)
  have "size {#r \<in># mset rs. fst r \<le> x \<and> x < snd r#}
      = (if x < next_unassigned (shared s) then 1 else 0)" for x
  proof (cases "x < next_unassigned (shared s)")
    case True
    then show ?thesis using chain_covers [OF rs(1), of x] by simp
  next
    case False
    then have "{#r \<in># mset rs. fst r \<le> x \<and> x < snd r#} = {#}"
      using chain_bounds [OF rs(1)] by (fastforce simp: filter_mset_eq_mempty_iff)
    then show ?thesis using False by simp
  qed
  moreover have "next_unassigned (shared s) \<le> n"
    using inv by (simp add: sys_inv_def s_def) (simp add: sys_init_def new_buffer_def)
  ultimately show ?thesis using rs(2) by (simp add: s_def Let_def)
qed

text \<open>
  The order of the pushes is not the order of the ranges: two workers on a file of 200
  bytes can leave the segment vector with bytes 100 to 199 at index 0 and bytes 0 to 99 at
  index 1, because the range is won before, and apart from, the push that gives it its id.
\<close>

lemma segment_order_not_file_order:
  "map sg_range (segments (shared (sys_run [0, 0, 1, 1, 1, 0] (sys_init 200 f path [100, 100]))))
     = [(100, 200), (0, 100)]"
  by (simp add: sys_init_def sys_step_def new_buffer_def claim_load_def claim_cas_def
      claim_push_def sg_range_def)

text \<open>
  Completion can be announced too early: a worker has won bytes 100 to 199 but has not
  pushed its segment when another, finding the file exhausted, sets \<open>all_assigned\<close>; with the
  first segment ready, \<open>all_completed\<close> holds although half of the file is in no segment.
\<close>

lemma completion_before_push:
  "let s = sys_run [0, 0, 0, 1, 1, 2] (sys_init 200 f path [100, 100, 100]);
       b = mark_ready 0 (shared s)
   in all_completed b \<and> map sg_range (segments b) = [(0, 100)] \<and>
      workers s ! 1 = Won 100 200"
  by (simp add: sys_init_def sys_step_def new_buffer_def claim_load_def claim_cas_def
      claim_push_def sg_range_def mark_ready_def all_completed_def)

end
