(* ===== verification/Buffer_Stream.thy ===== *)
theory Buffer_Stream
  imports Claim_Interleaving
begin

text \<open>
  \<open>make_buffer_stream\<close> of \<open>proxy.rs\<close>: the body of a response that is served while the
  download is running. One turn of its loop is \<open>stream_iter\<close>; the buffer may change
  between two turns, so a run is driven by the list of buffers the turns see. The
  100 ms wait for a notification ends by itself and has no other effect.
\<close>

record stream_state =
  current_segment :: nat
  offset_in_segment :: nat
  errored :: bool

datatype stream_out =
    Chunk bytes
  | Stream_error
  | Stream_end
  | Waiting
  | Advance

definition stream_init :: stream_state where
  "stream_init = \<lparr>current_segment = 0, offset_in_segment = 0, errored = False\<rparr>"

definition next_segment :: "stream_state \<Rightarrow> stream_state" where
  "next_segment st =
     st\<lparr>current_segment := current_segment st + 1, offset_in_segment := 0\<rparr>"

definition stream_iter ::
    "(nat \<Rightarrow> nat \<Rightarrow> nat option) \<Rightarrow> segments_buffer \<Rightarrow> stream_state \<Rightarrow> stream_out \<times> stream_state"
where
  "stream_iter rd b st =
     (if is_failed b then
        (if errored st then (Stream_end, st) else (Stream_error, st\<lparr>errored := True\<rparr>))
      else if current_segment st \<ge> num_segments b then
        (if num_segments b = 0 \<or> \<not> all_completed b then (Waiting, st) else (Stream_end, st))
      else if \<not> is_ready (current_segment st) b then (Waiting, st)
      else
        let seg_start = segment_start (current_segment st) b;
            seg_end = segment_end (current_segment st) b;
            seg_pos = seg_start + offset_in_segment st
        in if seg_pos \<ge> seg_end then (Advance, next_segment st)
           else (case read_data rd seg_pos (seg_end - seg_pos) b of
                   Some d \<Rightarrow>
                     if d \<noteq> [] then
                       (Chunk d, st\<lparr>offset_in_segment := offset_in_segment st + length d\<rparr>)
                     else (Advance, next_segment st)
                 | None \<Rightarrow> (Advance, next_segment st)))"

fun stream_drive ::
    "(segments_buffer \<Rightarrow> nat \<Rightarrow> nat \<Rightarrow> nat option) \<Rightarrow> segments_buffer list \<Rightarrow> stream_state
       \<Rightarrow> stream_out list" where
  "stream_drive rd [] st = []"
| "stream_drive rd (b # bs) st =
     (case stream_iter (rd b) b st of
        (Stream_end, st') \<Rightarrow> [Stream_end]
      | (Waiting, st') \<Rightarrow> stream_drive rd bs st'
      | (Advance, st') \<Rightarrow> stream_drive rd bs st'
      | (out, st') \<Rightarrow> out # stream_drive rd bs st')"

fun chunk_bytes :: "stream_out \<Rightarrow> bytes" where
  "chunk_bytes (Chunk d) = d"
| "chunk_bytes _ = []"

definition body_bytes :: "stream_out list \<Rightarrow> bytes" where
  "body_bytes outs = concat (map chunk_bytes outs)"

lemma body_bytes_simps [simp]:
  "body_bytes [] = []" "body_bytes (x # outs) = chunk_bytes x @ body_bytes outs"
  by (simp_all add: body_bytes_def)

subsection \<open>Where a stream is in the file\<close>

text \<open>
  \<open>stream_at z ss st p\<close>: over the segments \<open>ss\<close>, which end at \<open>z\<close>, the state \<open>st\<close> has the
  position \<open>p\<close> in the file.
\<close>

definition stream_at :: "nat \<Rightarrow> segment list \<Rightarrow> stream_state \<Rightarrow> nat \<Rightarrow> bool" where
  "stream_at z ss st p \<longleftrightarrow>
     (if current_segment st < length ss then
        p = sg_start (ss ! current_segment st) + offset_in_segment st \<and>
        p \<le> sg_end (ss ! current_segment st)
      else current_segment st = length ss \<and> offset_in_segment st = 0 \<and> p = z)"

lemma tiles_nth_Suc:
  "tiles a ss z \<Longrightarrow> i < length ss \<Longrightarrow>
   sg_end (ss ! i) = (if Suc i < length ss then sg_start (ss ! Suc i) else z)"
proof (induction ss arbitrary: a i)
  case Nil
  then show ?case by simp
next
  case (Cons s ss)
  show ?case
  proof (cases i)
    case 0
    then show ?thesis using Cons.prems by (cases ss) auto
  next
    case (Suc j)
    then show ?thesis using Cons.IH [of "sg_end s" j] Cons.prems by auto
  qed
qed

lemma tiles_nth_0: "tiles a ss z \<Longrightarrow> (if ss \<noteq> [] then sg_start (ss ! 0) else z) = a"
  by (cases ss) auto

lemma stream_at_init: "tiles 0 ss z \<Longrightarrow> stream_at z ss stream_init 0"
  using tiles_bounds [of 0 ss z "ss ! 0"] tiles_nth_0 [of 0 ss z]
  by (cases ss) (auto simp: stream_at_def stream_init_def)

lemma stream_at_next:
  assumes "tiles 0 ss z" "stream_at z ss st p" "current_segment st < length ss"
    "sg_end (ss ! current_segment st) \<le> p"
  shows "stream_at z ss (next_segment st) p"
proof -
  let ?c = "current_segment st"
  have p: "p = sg_end (ss ! ?c)" using assms by (auto simp: stream_at_def)
  have b: "sg_start (ss ! Suc ?c) < sg_end (ss ! Suc ?c)" if "Suc ?c < length ss"
    using tiles_bounds [OF assms(1), of "ss ! Suc ?c"] that by simp
  show ?thesis
    using tiles_nth_Suc [OF assms(1,3)] p b assms(3)
    by (auto simp: stream_at_def next_segment_def split: if_splits)
qed

lemma stream_at_chunk:
  assumes "stream_at z ss st p" "current_segment st < length ss"
    "p + n \<le> sg_end (ss ! current_segment st)"
  shows "stream_at z ss (st\<lparr>offset_in_segment := offset_in_segment st + n\<rparr>) (p + n)"
  using assms by (simp add: stream_at_def)

text \<open>A read inside the file yields some bytes, and they are the file's.\<close>

lemma read_data_some:
  assumes "rd_ok (dl_file b) rd" "0 < len" "off + len \<le> length (dl_file b)"
  obtains n where "read_data rd off len b = Some (pread (dl_file b) off n)" "0 < n" "n \<le> len"
    "length (pread (dl_file b) off n) = n"
proof -
  obtain n where n: "rd off len = Some n" "0 < n" "n \<le> len" "n \<le> length (dl_file b) - off"
    using assms unfolding rd_ok_def by (metis add.commute less_le_trans less_add_same_cancel1)
  then show thesis
    using assms(2) by (intro that [of n]) (simp_all add: read_data_def pread_length)
qed

subsection \<open>A stream over a running download\<close>

text \<open>
  The buffers a stream may see while the file \<open>fin\<close> is being downloaded: the segments are
  the first ones of \<open>plan\<close> (the ranges in file order), the file on disk has its full
  length, and the ready segments hold the final bytes.
\<close>

definition snapshot_ok :: "bytes \<Rightarrow> segment list \<Rightarrow> segments_buffer \<Rightarrow> bool" where
  "snapshot_ok fin plan b \<longleftrightarrow>
     (\<exists>rest. map sg_range plan = map sg_range (segments b) @ rest) \<and>
     length (dl_file b) = length fin \<and>
     (\<forall>i < length (segments b). is_ready i b \<longrightarrow>
        (\<forall>x. sg_start (segments b ! i) \<le> x \<longrightarrow> x < sg_end (segments b ! i) \<longrightarrow>
           dl_file b ! x = fin ! x))"

lemma snapshot_range:
  assumes "snapshot_ok fin plan b" "i < length (segments b)"
  shows "i < length plan" "sg_start (plan ! i) = sg_start (segments b ! i)"
    "sg_end (plan ! i) = sg_end (segments b ! i)"
proof -
  obtain rest where r: "map sg_range plan = map sg_range (segments b) @ rest"
    using assms by (auto simp: snapshot_ok_def)
  then have "length (map sg_range plan) = length (segments b) + length rest" by simp
  then show l: "i < length plan" using assms(2) by simp
  have "sg_range (plan ! i) = sg_range (segments b ! i)"
    using arg_cong [OF r, of "\<lambda>l. l ! i"] l assms(2) by (simp add: nth_append)
  then show "sg_start (plan ! i) = sg_start (segments b ! i)"
    "sg_end (plan ! i) = sg_end (segments b ! i)"
    by (simp_all add: sg_range_def)
qed

lemma pread_agree:
  assumes "length g = length f" "off + n \<le> length f" "\<forall>x. off \<le> x \<longrightarrow> x < off + n \<longrightarrow> g ! x = f ! x"
  shows "pread g off n = pread f off n"
  using assms by (intro nth_equalityI) (auto simp: pread_def)

lemma stream_iter_snapshot:
  assumes plan: "tiles 0 plan (length fin)" and snap: "snapshot_ok fin plan b"
    and rd: "rd_ok (dl_file b) rd" and at: "stream_at (length fin) plan st p"
    and out: "stream_iter rd b st = (out, st')"
  shows "\<exists>n. chunk_bytes out = pread fin p n \<and> stream_at (length fin) plan st' (p + n) \<and>
    p + n \<le> length fin"
proof -
  let ?c = "current_segment st"
  have ple: "p \<le> length fin"
    using at tiles_bounds [OF plan, of "plan ! ?c"] by (auto simp: stream_at_def split: if_splits)
  have stay: ?thesis if "chunk_bytes out = []" "stream_at (length fin) plan st' p"
    using that ple by (intro exI [of _ 0]) (simp add: pread_def)
  show ?thesis
  proof (cases "is_failed b \<or> num_segments b \<le> ?c \<or> \<not> is_ready ?c b")
    case True
    then show ?thesis using out at
      by (intro stay) (auto simp: stream_iter_def stream_at_def split: if_splits)
  next
    case False
    then have c: "?c < length (segments b)" by (simp add: num_segments_def)
    note r = snapshot_range [OF snap c]
    have pos: "p = sg_start (segments b ! ?c) + offset_in_segment st"
      and pend: "p \<le> sg_end (segments b ! ?c)"
      using at r by (auto simp: stream_at_def)
    show ?thesis
    proof (cases "p < sg_end (segments b ! ?c)")
      case False
      then have "out = Advance" "st' = next_segment st"
        using out c pos \<open>\<not> (is_failed b \<or> num_segments b \<le> ?c \<or> \<not> is_ready ?c b)\<close>
        by (simp_all add: stream_iter_def segment_start_def segment_end_def Let_def)
      then show ?thesis
        using stream_at_next [OF plan at r(1)] False r by (intro stay) auto
    next
      case True
      let ?len = "sg_end (segments b ! ?c) - p"
      have e: "sg_end (segments b ! ?c) \<le> length fin"
        using tiles_bounds [OF plan, of "plan ! ?c"] r by simp
      have lf: "length (dl_file b) = length fin" using snap by (simp add: snapshot_ok_def)
      obtain n where n: "read_data rd p ?len b = Some (pread (dl_file b) p n)" "0 < n" "n \<le> ?len"
        "length (pread (dl_file b) p n) = n"
        using read_data_some [OF rd, of ?len p] True e lf by auto
      have "out = Chunk (pread (dl_file b) p n)"
        "st' = st\<lparr>offset_in_segment := offset_in_segment st + n\<rparr>"
        using out c pos True n \<open>\<not> (is_failed b \<or> num_segments b \<le> ?c \<or> \<not> is_ready ?c b)\<close>
        by (auto simp: stream_iter_def segment_start_def segment_end_def Let_def split: if_splits)
      moreover have "pread (dl_file b) p n = pread fin p n"
      proof (rule pread_agree [OF lf])
        show "p + n \<le> length fin" using n(3) e True by simp
        show "\<forall>x. p \<le> x \<longrightarrow> x < p + n \<longrightarrow> dl_file b ! x = fin ! x"
          using snap c False pos n(3) True
            \<open>\<not> (is_failed b \<or> num_segments b \<le> ?c \<or> \<not> is_ready ?c b)\<close>
          by (auto simp: snapshot_ok_def)
      qed
      moreover have "stream_at (length fin) plan (st\<lparr>offset_in_segment := offset_in_segment st + n\<rparr>)
          (p + n)"
        using stream_at_chunk [OF at r(1), of n] r n(3) True by simp
      ultimately show ?thesis using n(3) e True by (intro exI [of _ n]) auto
    qed
  qed
qed

lemma stream_drive_snapshot:
  assumes "tiles 0 plan (length fin)"
  shows "\<forall>b \<in> set bs. snapshot_ok fin plan b \<and> rd_ok (dl_file b) (rd b) \<Longrightarrow>
    stream_at (length fin) plan st p \<Longrightarrow>
    \<exists>n. body_bytes (stream_drive rd bs st) = pread fin p n"
proof (induction bs arbitrary: st p)
  case Nil
  then show ?case by (intro exI [of _ 0]) (simp add: pread_def)
next
  case (Cons b bs)
  obtain out st' where out: "stream_iter (rd b) b st = (out, st')"
    by (cases "stream_iter (rd b) b st")
  obtain n where n: "chunk_bytes out = pread fin p n" "stream_at (length fin) plan st' (p + n)"
    using stream_iter_snapshot [OF assms _ _ Cons.prems(2) out] Cons.prems(1) by auto
  obtain m where m: "body_bytes (stream_drive rd bs st') = pread fin (p + n) m"
    using Cons.IH [OF _ n(2)] Cons.prems(1) by auto
  have "chunk_bytes out @ body_bytes (stream_drive rd bs st') = pread fin p (n + m)"
    using n(1) m by (simp add: pread_add)
  moreover have "pread fin p 0 = []" by (simp add: pread_def)
  ultimately show ?case
    using out by (cases out) (auto simp del: pread_add intro: exI [of _ "n + m"] exI [of _ 0])
qed

subsection \<open>A stream over a finished download\<close>

definition finished :: "segments_buffer \<Rightarrow> bool" where
  "finished b \<longleftrightarrow> tiles 0 (segments b) (total_size b) \<and> all_completed b \<and> \<not> is_failed b \<and>
     segments b \<noteq> [] \<and> (\<forall>s \<in> set (segments b). sg_state s = Ready) \<and>
     length (dl_file b) = total_size b"

lemma finished_snapshot: "finished b \<Longrightarrow> snapshot_ok (dl_file b) (segments b) b"
  by (simp add: finished_def snapshot_ok_def)

text \<open>Every turn on a finished buffer moves the position, moves the segment, or ends.\<close>

lemma stream_iter_finished:
  assumes fin: "finished b" and rd: "rd_ok (dl_file b) rd"
    and at: "stream_at (total_size b) (segments b) st p"
    and out: "stream_iter rd b st = (out, st')"
  shows "(out = Stream_end \<and> p = total_size b) \<or>
    (out = Advance \<and> current_segment st' = Suc (current_segment st) \<and>
       current_segment st < length (segments b) \<and>
       stream_at (total_size b) (segments b) st' p) \<or>
    (\<exists>n > 0. out = Chunk (pread (dl_file b) p n) \<and> p + n \<le> total_size b \<and>
       current_segment st' = current_segment st \<and>
       stream_at (total_size b) (segments b) st' (p + n))"
proof (cases "current_segment st < length (segments b)")
  case False
  then show ?thesis using out fin at
    by (auto simp: stream_iter_def finished_def is_failed_def num_segments_def stream_at_def)
next
  case True
  let ?c = "current_segment st"
  have t: "tiles 0 (segments b) (total_size b)" and lf: "length (dl_file b) = total_size b"
    using fin by (auto simp: finished_def)
  have go: "\<not> is_failed b" "num_segments b > ?c" "is_ready ?c b"
    using fin True by (auto simp: finished_def num_segments_def is_ready_def)
  have pos: "p = sg_start (segments b ! ?c) + offset_in_segment st"
    "p \<le> sg_end (segments b ! ?c)"
    using at True by (auto simp: stream_at_def)
  show ?thesis
  proof (cases "p < sg_end (segments b ! ?c)")
    case False
    then have "out = Advance" "st' = next_segment st"
      using out True pos go by (simp_all add: stream_iter_def segment_start_def segment_end_def Let_def)
    then show ?thesis using stream_at_next [OF t at True] False True by (simp add: next_segment_def)
  next
    case lt: True
    have e: "sg_end (segments b ! ?c) \<le> total_size b"
      using tiles_bounds [OF t, of "segments b ! ?c"] True by simp
    obtain n where n: "read_data rd p (sg_end (segments b ! ?c) - p) b = Some (pread (dl_file b) p n)"
      "0 < n" "n \<le> sg_end (segments b ! ?c) - p" "length (pread (dl_file b) p n) = n"
      using read_data_some [OF rd, of "sg_end (segments b ! ?c) - p" p] lt e lf by auto
    have "out = Chunk (pread (dl_file b) p n)"
      "st' = st\<lparr>offset_in_segment := offset_in_segment st + n\<rparr>"
      using out True pos go lt n
      by (auto simp: stream_iter_def segment_start_def segment_end_def Let_def split: if_splits)
    moreover have "stream_at (total_size b) (segments b)
        (st\<lparr>offset_in_segment := offset_in_segment st + n\<rparr>) (p + n)"
      using n(3) lt by (intro stream_at_chunk [OF at True]) simp
    ultimately show ?thesis using n(2,3) e lt by auto
  qed
qed

lemma stream_drive_finished:
  assumes "finished b" "rd_ok (dl_file b) (rd b)"
  shows "stream_at (total_size b) (segments b) st p \<Longrightarrow> p \<le> total_size b \<Longrightarrow>
    (total_size b - p) + (length (segments b) - current_segment st) < k \<Longrightarrow>
    body_bytes (stream_drive rd (replicate k b) st) = drop p (dl_file b) \<and>
    last (stream_drive rd (replicate k b) st) = Stream_end \<and>
    stream_drive rd (replicate k b) st \<noteq> []"
proof (induction k arbitrary: st p)
  case 0
  then show ?case by simp
next
  case (Suc k)
  have lf: "length (dl_file b) = total_size b" using assms(1) by (simp add: finished_def)
  obtain out st' where out: "stream_iter (rd b) b st = (out, st')"
    by (cases "stream_iter (rd b) b st")
  from stream_iter_finished [OF assms Suc.prems(1) out] show ?case
  proof (elim disjE conjE exE)
    assume "out = Stream_end" "p = total_size b"
    then show ?thesis using out lf by simp
  next
    assume a: "out = Advance" "current_segment st' = Suc (current_segment st)"
      "current_segment st < length (segments b)" "stream_at (total_size b) (segments b) st' p"
    then have "(total_size b - p) + (length (segments b) - current_segment st') < k"
      using Suc.prems(3) by linarith
    then show ?thesis using Suc.IH [OF a(4) Suc.prems(2)] out a(1) by simp
  next
    fix n
    assume a: "0 < n" "out = Chunk (pread (dl_file b) p n)" "p + n \<le> total_size b"
      "current_segment st' = current_segment st" "stream_at (total_size b) (segments b) st' (p + n)"
    then have "(total_size b - (p + n)) + (length (segments b) - current_segment st') < k"
      using Suc.prems(3) by linarith
    note ih = Suc.IH [OF a(5,3) this]
    have "pread (dl_file b) p n @ drop (p + n) (dl_file b) = drop p (dl_file b)"
      by (metis add.commute append_take_drop_id drop_drop pread_def)
    then show ?thesis using ih out a(2) by simp
  qed
qed

subsection \<open>Properties of the stream\<close>

text \<open>
  A response body streamed while the download runs never carries a wrong or misplaced
  byte: if the segments the stream sees are always the first ones of a partition of the file
  in file order and ready segments hold final bytes, then what has been sent after any number
  of turns is a prefix of the file, whatever the kernel's short reads.
\<close>

lemma stream_prefix_safe:
  assumes "tiles 0 plan (length fin)"
    and "\<forall>b \<in> set bs. snapshot_ok fin plan b \<and> rd_ok (dl_file b) (rd b)"
  shows "\<exists>n. body_bytes (stream_drive rd bs stream_init) = take n fin"
  using stream_drive_snapshot [OF assms stream_at_init [OF assms(1)]]
  by (auto simp: pread_def)

lemma demo_snapshot: "snapshot_ok [1, 2] (segments demo_buffer) demo_buffer"
  by (simp add: snapshot_ok_def demo_buffer_eq is_ready_def)

lemma stream_prefix_safe_witness:
  "\<exists>n. body_bytes (stream_drive (\<lambda>b. rd_full (dl_file b)) [demo_buffer, demo_buffer] stream_init)
     = take n [1, 2]"
proof (rule stream_prefix_safe)
  show "tiles 0 (segments demo_buffer) (length [1, 2 :: 8 word])" by (simp add: demo_buffer_eq)
  show "\<forall>b \<in> set [demo_buffer, demo_buffer]. snapshot_ok [1, 2] (segments demo_buffer) b \<and>
      rd_ok (dl_file b) (rd_full (dl_file b))"
    using demo_snapshot rd_full_ok by simp
qed

text \<open>
  Once the download is complete, a stream over a buffer whose segments lie in file order
  sends the whole file, byte for byte, and ends: it takes at most one turn per byte and per
  segment and one more.
\<close>

lemma stream_delivers_file:
  assumes "finished b" and "rd_ok (dl_file b) (rd b)"
    and "total_size b + length (segments b) < k"
  shows "body_bytes (stream_drive rd (replicate k b) stream_init) = dl_file b \<and>
     last (stream_drive rd (replicate k b) stream_init) = Stream_end"
proof -
  have "stream_at (total_size b) (segments b) stream_init 0"
    using assms(1) by (intro stream_at_init) (simp add: finished_def)
  then show ?thesis
    using stream_drive_finished [OF assms(1), of rd stream_init 0 k] assms
    by (simp add: stream_init_def)
qed

lemma stream_delivers_file_witness:
  "body_bytes (stream_drive (\<lambda>b. rd_full (dl_file b)) (replicate 4 demo_buffer) stream_init)
     = dl_file demo_buffer"
proof -
  have "finished demo_buffer"
    by (simp add: finished_def demo_buffer_eq all_completed_def is_failed_def)
  moreover have "total_size demo_buffer + length (segments demo_buffer) < 4"
    by (simp add: demo_buffer_eq)
  ultimately show ?thesis
    using stream_delivers_file [where b = demo_buffer and k = 4 and
        rd = "\<lambda>b. rd_full (dl_file b)"] rd_full_ok by simp
qed

text \<open>
  The race of \<open>claim_range\<close> reaches the client: in the interleaving that pushes the second
  half first, the finished two-byte file 10, 20 is streamed as 20, 10.
\<close>

lemma stream_out_of_order:
  "let s = sys_run [0, 0, 1, 1, 1, 0, 2] (sys_init 2 [10, 20] path [1, 1, 1]);
       b = mark_ready 0 (mark_ready 1 (shared s))
   in all_completed b \<and> dl_file b = [10, 20] \<and>
      body_bytes (stream_drive (\<lambda>b. rd_full (dl_file b)) (replicate 6 b) stream_init) = [20, 10]"
  by (simp add: sys_init_def sys_step_def new_buffer_def claim_load_def claim_cas_def
      claim_push_def mark_ready_def all_completed_def stream_iter_def stream_init_def
      is_failed_def num_segments_def is_ready_def segment_start_def segment_end_def
      read_data_def rd_full_def pread_def next_segment_def eval_nat_numeral)

text \<open>
  A read error of the disk is not reported to the client: on a complete buffer whose file
  cannot be read the stream ends normally without having sent a byte.
\<close>

lemma stream_hides_read_error:
  "stream_drive (\<lambda>b off len. None) (replicate 3 demo_buffer) stream_init = [Stream_end]"
  by (simp add: stream_iter_def stream_init_def demo_buffer_eq is_failed_def num_segments_def
      is_ready_def segment_start_def segment_end_def read_data_def next_segment_def
      all_completed_def eval_nat_numeral)

text \<open>
  A file of no bytes has no segment to claim, and a buffer without segments is taken for one
  that has not started: its stream waits for ever, also when the buffer is complete.
\<close>

lemma empty_file_never_ends:
  "\<forall>b \<in> set bs. num_segments b = 0 \<and> \<not> is_failed b \<Longrightarrow> stream_drive rd bs stream_init = []"
  by (induction bs) (simp_all add: stream_iter_def)

lemma empty_file_complete:
  "all_completed (snd (claim_range p (new_buffer 0 [] path))) \<and> num_segments (snd (claim_range p (new_buffer 0 [] path))) = 0"
  by (simp add: claim_range_def new_buffer_def all_completed_def num_segments_def)

end
