(* ===== verification/Coalescing.thy ===== *)
theory Coalescing
  imports Blitz_Prelude Assoc_Map
begin

text \<open>
  \<open>src/src/coalescer.rs\<close>: one download per URL, its leader and its followers. A buffer is
  a handle of any type. A \<open>oneshot\<close> channel is a number; \<open>channels\<close> says what its
  receiver sees: nothing yet, the buffer, or that the sender was dropped. Both maps sit
  under a mutex, so every method is one step.
\<close>

datatype 'b inflight = Pending "nat list" | In_download 'b

datatype 'b channel = Open | Sent 'b | Dropped

record 'b coalescer =
  inflight :: "(string, 'b inflight) amap"
  etag_failed :: "(string, bool) amap"
  channels :: "nat \<Rightarrow> 'b channel"
  next_channel :: nat

definition MAX_INFLIGHT :: nat where
  "MAX_INFLIGHT = 1024"

datatype 'b register_result = Leader | Follower nat | Follower_buffer 'b

definition new_coalescer :: "'b coalescer" where
  "new_coalescer = \<lparr>inflight = [], etag_failed = [], channels = (\<lambda>_. Open), next_channel = 0\<rparr>"

definition register :: "string \<Rightarrow> 'b coalescer \<Rightarrow> 'b register_result \<times> 'b coalescer" where
  "register url c =
     (if length (inflight c) \<ge> MAX_INFLIGHT then (Leader, c)
      else (case am_get url (inflight c) of
              Some (In_download buf) \<Rightarrow> (Follower_buffer buf, c)
            | Some (Pending senders) \<Rightarrow>
                (let tx = next_channel c in
                 (Follower tx,
                  c\<lparr>inflight := am_insert url (Pending (senders @ [tx])) (inflight c),
                    channels := (channels c)(tx := Open),
                    next_channel := tx + 1\<rparr>))
            | None \<Rightarrow> (Leader, c\<lparr>inflight := am_insert url (Pending []) (inflight c)\<rparr>)))"

definition send_all :: "nat list \<Rightarrow> 'b channel \<Rightarrow> (nat \<Rightarrow> 'b channel) \<Rightarrow> nat \<Rightarrow> 'b channel" where
  "send_all txs x chs = (\<lambda>i. if i \<in> set txs then x else chs i)"

text \<open>Removing an entry drops the senders it holds, which their receivers notice.\<close>

definition take_entry :: "string \<Rightarrow> 'b coalescer \<Rightarrow> 'b coalescer" where
  "take_entry url c =
     c\<lparr>inflight := am_remove url (inflight c),
       channels := (case am_get url (inflight c) of
                      Some (Pending senders) \<Rightarrow> send_all senders Dropped (channels c)
                    | _ \<Rightarrow> channels c)\<rparr>"

definition attach_buffer :: "string \<Rightarrow> 'b \<Rightarrow> 'b coalescer \<Rightarrow> 'b coalescer" where
  "attach_buffer url buf c =
     (case am_get url (inflight c) of
        Some (Pending senders) \<Rightarrow>
          c\<lparr>inflight := am_insert url (In_download buf) (am_remove url (inflight c)),
            channels := send_all senders (Sent buf) (channels c)\<rparr>
      | Some (In_download _) \<Rightarrow> c\<lparr>inflight := am_remove url (inflight c)\<rparr>
      | None \<Rightarrow> c)"

definition complete :: "string \<Rightarrow> 'b coalescer \<Rightarrow> 'b coalescer" where
  "complete url c = (take_entry url c)\<lparr>etag_failed := am_remove url (etag_failed c)\<rparr>"

definition fail :: "string \<Rightarrow> bool \<Rightarrow> 'b coalescer \<Rightarrow> 'b coalescer" where
  "fail url etag_changed c =
     (take_entry url c)\<lparr>etag_failed := am_insert url etag_changed (etag_failed c)\<rparr>"

definition etag_failed_for :: "string \<Rightarrow> 'b coalescer \<Rightarrow> bool" where
  "etag_failed_for url c = (case am_get url (etag_failed c) of Some b \<Rightarrow> b | None \<Rightarrow> False)"

subsection \<open>The operations as one alphabet\<close>

datatype 'b co_op =
    Op_register string
  | Op_attach string 'b
  | Op_complete string
  | Op_fail string bool

fun co_step :: "'b co_op \<Rightarrow> 'b coalescer \<Rightarrow> 'b coalescer" where
  "co_step (Op_register u) c = snd (register u c)"
| "co_step (Op_attach u b) c = attach_buffer u b c"
| "co_step (Op_complete u) c = complete u c"
| "co_step (Op_fail u e) c = fail u e c"

definition co_run :: "'b co_op list \<Rightarrow> 'b coalescer \<Rightarrow> 'b coalescer" where
  "co_run ops c = fold co_step ops c"

text \<open>The operations that end or advance the flight of a URL.\<close>

fun touches :: "string \<Rightarrow> 'b co_op \<Rightarrow> bool" where
  "touches u (Op_register v) = False"
| "touches u (Op_attach v b) = (u = v)"
| "touches u (Op_complete v) = (u = v)"
| "touches u (Op_fail v e) = (u = v)"

fun pending_of :: "'b inflight \<Rightarrow> nat list" where
  "pending_of (Pending txs) = txs"
| "pending_of (In_download b) = []"

definition co_inv :: "'b coalescer \<Rightarrow> bool" where
  "co_inv c \<longleftrightarrow>
     am_ok (inflight c) \<and> length (inflight c) \<le> MAX_INFLIGHT \<and>
     (\<forall>u x tx. am_get u (inflight c) = Some x \<longrightarrow> tx \<in> set (pending_of x) \<longrightarrow>
        tx < next_channel c \<and> channels c tx = Open \<and>
        (\<forall>v y. am_get v (inflight c) = Some y \<longrightarrow> tx \<in> set (pending_of y) \<longrightarrow> u = v))"

lemma co_inv_new: "co_inv new_coalescer"
  by (simp add: co_inv_def new_coalescer_def MAX_INFLIGHT_def)

lemma length_replace:
  "am_ok m \<Longrightarrow> am_get k m = Some x \<Longrightarrow> length (am_insert k v (am_remove k m)) = length m"
proof (induction m)
  case Nil
  then show ?case by simp
next
  case (Cons p m)
  show ?case
  proof (cases "fst p = k")
    case True
    then have "k \<notin> fst ` set m" using Cons.prems(1) by (auto simp: am_ok_def)
    then have "am_remove k m = m" by (force simp: am_remove_def filter_id_conv)
    then show ?thesis using True \<open>k \<notin> fst ` set m\<close>
      by (simp add: length_am_insert am_get_None_iff am_remove_def)
  next
    case False
    then show ?thesis using Cons by (cases p) (auto simp: am_ok_def am_remove_def am_get_def)
  qed
qed

lemma co_inv_register: "co_inv c \<Longrightarrow> co_inv (snd (register u c))"
proof -
  assume inv: "co_inv c"
  show ?thesis
  proof (cases "length (inflight c) \<ge> MAX_INFLIGHT")
    case True
    then show ?thesis using inv by (simp add: register_def)
  next
    case False
    consider "am_get u (inflight c) = None" | txs where "am_get u (inflight c) = Some (Pending txs)"
      | b where "am_get u (inflight c) = Some (In_download b)"
      by (cases "am_get u (inflight c)") (auto elim: inflight.exhaust)
    then show ?thesis
    proof cases
      case 1
      then show ?thesis using inv False
        by (auto simp: register_def co_inv_def length_am_insert split: if_splits)
    next
      case 2
      have fresh: "tx \<noteq> next_channel c" if "am_get v (inflight c) = Some y" "tx \<in> set (pending_of y)"
        for v y tx using inv that unfolding co_inv_def by (metis nat_neq_iff)
      have lt: "tx < Suc (next_channel c)" if "am_get v (inflight c) = Some y" "tx \<in> set (pending_of y)"
        for v y tx using inv that unfolding co_inv_def by (metis less_SucI)
      show ?thesis using inv False 2 fresh lt
        by (auto simp: register_def co_inv_def length_am_insert Let_def split: if_splits)
    next
      case 3
      then show ?thesis using inv False by (simp add: register_def)
    qed
  qed
qed

lemma send_all_other: "i \<notin> set txs \<Longrightarrow> send_all txs x chs i = chs i"
  by (simp add: send_all_def)

lemma co_inv_take: "co_inv c \<Longrightarrow> co_inv (take_entry u c)"
  using length_am_remove_le [of u "inflight c"]
  unfolding co_inv_def take_entry_def
  by (auto simp: send_all_def split: option.splits inflight.splits if_splits)

lemma co_inv_etag [simp]: "co_inv (c\<lparr>etag_failed := e\<rparr>) = co_inv c"
  by (simp add: co_inv_def)

lemma co_inv_attach: "co_inv c \<Longrightarrow> co_inv (attach_buffer u b c)"
proof -
  assume inv: "co_inv c"
  consider "am_get u (inflight c) = None" | txs where "am_get u (inflight c) = Some (Pending txs)"
    | d where "am_get u (inflight c) = Some (In_download d)"
    by (cases "am_get u (inflight c)") (auto elim: inflight.exhaust)
  then show ?thesis
  proof cases
    case 1
    then show ?thesis using inv by (simp add: attach_buffer_def)
  next
    case 2
    have other: "tx \<notin> set txs" if "am_get v (inflight c) = Some y" "tx \<in> set (pending_of y)" "v \<noteq> u"
      for v y tx using inv 2 that unfolding co_inv_def by (metis pending_of.simps(1))
    show ?thesis using inv 2 other length_replace [of "inflight c" u]
      by (auto simp: attach_buffer_def co_inv_def send_all_def split: if_splits)
  next
    case 3
    then show ?thesis using inv length_am_remove_le [of u "inflight c"]
      by (auto simp: attach_buffer_def co_inv_def split: if_splits)
  qed
qed

lemma co_step_inv: "co_inv c \<Longrightarrow> co_inv (co_step op c)"
  by (cases op) (simp_all add: co_inv_register co_inv_attach co_inv_take complete_def fail_def)

lemma co_run_inv: "co_inv c \<Longrightarrow> co_inv (co_run ops c)"
  unfolding co_run_def by (induction ops arbitrary: c) (auto simp: co_step_inv)

text \<open>
  While nothing touches a URL, its entry stays, and a waiting list only grows: the channels
  already waiting keep waiting.
\<close>

lemma co_step_keeps:
  assumes "\<not> touches u op"
  shows "am_get u (inflight c) = Some (In_download b) \<Longrightarrow>
      am_get u (inflight (co_step op c)) = Some (In_download b)"
    and "am_get u (inflight c) = Some (Pending txs) \<Longrightarrow>
      \<exists>more. am_get u (inflight (co_step op c)) = Some (Pending (txs @ more))"
  using assms
  by (cases op; auto simp: register_def attach_buffer_def complete_def fail_def take_entry_def
      Let_def split: option.splits inflight.splits if_splits)+

lemma co_run_keeps:
  assumes "\<forall>op \<in> set ops. \<not> touches u op"
  shows "am_get u (inflight c) = Some (In_download b) \<Longrightarrow>
      am_get u (inflight (co_run ops c)) = Some (In_download b)"
    and "am_get u (inflight c) = Some (Pending txs) \<Longrightarrow>
      \<exists>more. am_get u (inflight (co_run ops c)) = Some (Pending (txs @ more))"
proof -
  show "am_get u (inflight c) = Some (In_download b) \<Longrightarrow>
      am_get u (inflight (co_run ops c)) = Some (In_download b)"
    using assms unfolding co_run_def
    by (induction ops arbitrary: c) (auto simp: co_step_keeps(1))
  show "am_get u (inflight c) = Some (Pending txs) \<Longrightarrow>
      \<exists>more. am_get u (inflight (co_run ops c)) = Some (Pending (txs @ more))"
    using assms unfolding co_run_def
  proof (induction ops arbitrary: c txs)
    case Nil
    then show ?case by simp
  next
    case (Cons op ops)
    obtain more where "am_get u (inflight (co_step op c)) = Some (Pending (txs @ more))"
      using co_step_keeps(2) Cons.prems by fastforce
    then show ?case using Cons.IH [of "co_step op c" "txs @ more"] Cons.prems by auto
  qed
qed

subsection \<open>The registry contract\<close>

text \<open>
  What a client of the registry relies on: while there is room, joining a URL that is held
  never makes a second leader, joining one that is not makes a leader and holds it, and
  joining never lets go of anything.
\<close>

fun join_many :: "('k \<Rightarrow> 's \<Rightarrow> 'r \<times> 's) \<Rightarrow> nat \<Rightarrow> 'k \<Rightarrow> 's \<Rightarrow> 'r list \<times> 's" where
  "join_many jn 0 u s = ([], s)"
| "join_many jn (Suc n) u s =
     (let (r, s') = jn u s; (rs, s'') = join_many jn n u s' in (r # rs, s''))"

locale flight_registry =
  fixes join_flight :: "'k \<Rightarrow> 's \<Rightarrow> 'r \<times> 's"
    and leads :: "'r \<Rightarrow> bool"
    and held :: "'k \<Rightarrow> 's \<Rightarrow> bool"
    and full :: "'s \<Rightarrow> bool"
  assumes join_held: "held u s \<Longrightarrow> \<not> full s \<Longrightarrow> \<not> leads (fst (join_flight u s))"
    and join_free: "\<not> held u s \<Longrightarrow> \<not> full s \<Longrightarrow>
      leads (fst (join_flight u s)) \<and> held u (snd (join_flight u s))"
    and join_keeps: "held v s \<Longrightarrow> held v (snd (join_flight u s))"
    and join_room: "held u s \<Longrightarrow> \<not> full s \<Longrightarrow> \<not> full (snd (join_flight u s))"
begin

lemma join_many_held:
  "held u s \<Longrightarrow> \<not> full s \<Longrightarrow> \<forall>r \<in> set (fst (join_many join_flight n u s)). \<not> leads r"
proof (induction n arbitrary: s)
  case 0
  then show ?case by simp
next
  case (Suc n)
  then show ?case
    using join_held join_keeps join_room by (auto simp: Let_def split: prod.splits) (metis fst_conv snd_conv)+
qed

lemma join_many_one_leader:
  assumes "\<not> held u s" "\<not> full s" "\<not> full (snd (join_flight u s))"
  shows "length (filter leads (fst (join_many join_flight (Suc n) u s))) = 1"
proof -
  obtain r s' where rs: "join_flight u s = (r, s')" by (cases "join_flight u s")
  have "\<forall>x \<in> set (fst (join_many join_flight n u s')). \<not> leads x"
    using join_many_held join_free assms rs by fastforce
  moreover have "leads r" using join_free [OF assms(1,2)] rs by simp
  ultimately show ?thesis
    using rs by (cases "join_many join_flight n u s'") (simp add: filter_empty_conv)
qed

end

definition leads :: "'b register_result \<Rightarrow> bool" where
  "leads r \<longleftrightarrow> (case r of Leader \<Rightarrow> True | _ \<Rightarrow> False)"

interpretation co: flight_registry register leads
  "\<lambda>u c. am_get u (inflight c) \<noteq> None" "\<lambda>c. length (inflight c) \<ge> MAX_INFLIGHT"
  by unfold_locales
    (auto simp: register_def leads_def Let_def length_am_insert
      split: option.splits inflight.splits if_splits)

subsection \<open>Properties of the coalescer\<close>

text \<open>
  C24. However registrations, attached buffers, completions and failures of any URLs are
  mixed, the registry never holds more than 1024 flights, holds each URL once, and every
  channel that is waiting is open and waits for exactly one URL.
\<close>

theorem coalescer_invariant: "co_inv (co_run ops new_coalescer)"
  by (rule co_run_inv [OF co_inv_new])

text \<open>
  Of any number of requests that join one idle URL, one is the leader and all the others
  are followers, as long as the registry has room for one more flight after it.
\<close>

lemma exactly_one_leader:
  assumes "am_get url (inflight c) = None" and "Suc (length (inflight c)) < MAX_INFLIGHT"
  shows "length (filter leads (fst (join_many register (Suc n) url c))) = 1 \<and>
     length (fst (join_many register (Suc n) url c)) = Suc n"
proof -
  have "length (fst (join_many jn k u s)) = k"
    for jn :: "string \<Rightarrow> 'a coalescer \<Rightarrow> 'a register_result \<times> 'a coalescer" and k u s
    by (induction k arbitrary: s) (auto simp: Let_def split: prod.splits, metis fst_conv)
  moreover have "length (filter leads (fst (join_many register (Suc n) url c))) = 1"
    by (rule co.join_many_one_leader) (use assms in \<open>auto simp: register_def length_am_insert\<close>)
  ultimately show ?thesis by blast
qed

lemma exactly_one_leader_witness:
  "length (filter leads (fst (join_many register (Suc 9) ''u'' (new_coalescer :: nat coalescer)))) = 1"
  using exactly_one_leader [of "''u''" "new_coalescer :: nat coalescer" 9]
  by (simp add: new_coalescer_def MAX_INFLIGHT_def)

text \<open>
  C15. A follower is not forgotten: if it joins while the URL's leader is under way, and until
  the leader attaches its buffer nothing ends that flight, then, whatever else happens in
  between, the follower's channel receives exactly that buffer and later requests are handed
  the same buffer.
\<close>

theorem follower_receives_buffer:
  assumes "co_inv c" and "am_get url (inflight c) = Some (Pending txs)"
    and "register url c = (Follower tx, c1)"
    and "\<forall>op \<in> set ops. \<not> touches url op"
    and "c2 = attach_buffer url buf (co_run ops c1)"
  shows "channels c2 tx = Sent buf \<and> am_get url (inflight c2) = Some (In_download buf) \<and>
     (length (inflight c2) < MAX_INFLIGHT \<longrightarrow> fst (register url c2) = Follower_buffer buf)"
proof -
  have "am_get url (inflight c1) = Some (Pending (txs @ [tx]))"
    using assms(2,3) by (auto simp: register_def Let_def split: if_splits)
  then obtain more where "am_get url (inflight (co_run ops c1)) = Some (Pending (txs @ [tx] @ more))"
    using co_run_keeps(2) [OF assms(4)] by fastforce
  then show ?thesis using assms(5) by (simp add: attach_buffer_def send_all_def register_def)
qed

theorem follower_receives_buffer_witness:
  "let c0 = snd (register ''u'' (new_coalescer :: nat coalescer));
       c2 = attach_buffer ''u'' 7 (co_run [Op_register ''v''] (snd (register ''u'' c0)))
   in channels c2 0 = Sent 7 \<and> fst (register ''u'' c2) = Follower_buffer 7"
proof -
  let ?c0 = "snd (register ''u'' (new_coalescer :: nat coalescer))"
  have "co_inv ?c0" by (intro co_inv_register co_inv_new)
  moreover have "am_get ''u'' (inflight ?c0) = Some (Pending [])"
    by (simp add: register_def new_coalescer_def MAX_INFLIGHT_def)
  moreover have "register ''u'' ?c0 = (Follower 0, snd (register ''u'' ?c0))"
    by (simp add: register_def new_coalescer_def MAX_INFLIGHT_def)
  ultimately show ?thesis
    using follower_receives_buffer [of ?c0 "''u''" "[]" 0 "snd (register ''u'' ?c0)"
        "[Op_register ''v'']" _ 7]
    by (simp add: register_def new_coalescer_def MAX_INFLIGHT_def co_run_def attach_buffer_def
        am_remove_def)
qed

text \<open>
  Attaching a second buffer to a URL that is already downloading is not a no-op: the
  entry is removed from the registry although its download is still running, and the next
  request for the URL starts over as a leader.
\<close>

lemma attach_twice_forgets_flight:
  "let c = attach_buffer url b2 (attach_buffer url b1 (snd (register url new_coalescer)))
   in am_get url (inflight c) = None \<and> fst (register url c) = Leader"
  by (simp add: register_def attach_buffer_def new_coalescer_def MAX_INFLIGHT_def am_remove_def
      Let_def)

text \<open>
  A flight whose leader never attaches, completes or fails is never given up: whatever other
  calls are made, the URL stays pending and nobody becomes its leader again.
\<close>

lemma abandoned_flight_blocks_url:
  assumes "am_get url (inflight c) = Some (Pending txs)" "\<forall>op \<in> set ops. \<not> touches url op"
    "length (inflight (co_run ops c)) < MAX_INFLIGHT"
  shows "\<exists>tx. fst (register url (co_run ops c)) = Follower tx"
proof -
  obtain more where "am_get url (inflight (co_run ops c)) = Some (Pending (txs @ more))"
    using co_run_keeps(2) [OF assms(2,1)] by blast
  then show ?thesis using assms(3) by (simp add: register_def Let_def)
qed

end
