(* ===== verification/Token_Bucket.thy ===== *)
theory Token_Bucket
  imports Blitz_Prelude
begin

text \<open>
  \<open>TokenBucket\<close> of \<open>src/src/rate_limit.rs\<close>. Its four fields are \<open>u64\<close> words and its
  arithmetic wraps as the release build does. The wall clock is an argument of every
  method that reads it. Each method is one step: the compare-and-exchange loops of the
  code retry until they act on the value they read.
\<close>

record token_bucket =
  tokens :: u64
  max_tokens :: u64
  refill_rate_nanos :: u64
  last_refill_nanos :: u64

definition NANOS_PER_SEC :: u64 where
  "NANOS_PER_SEC = 1000000000"

definition new_bucket :: "u64 \<Rightarrow> u64 \<Rightarrow> u64 \<Rightarrow> token_bucket" where
  "new_bucket mx refill_per_sec now =
     \<lparr>tokens = mx, max_tokens = mx,
      refill_rate_nanos = (if refill_per_sec = 0 then 0 else NANOS_PER_SEC div refill_per_sec),
      last_refill_nanos = now\<rparr>"

definition unlimited_bucket :: token_bucket where
  "unlimited_bucket =
     \<lparr>tokens = - 1, max_tokens = - 1, refill_rate_nanos = 0, last_refill_nanos = 0\<rparr>"

definition bucket_unlimited :: "token_bucket \<Rightarrow> bool" where
  "bucket_unlimited b \<longleftrightarrow> max_tokens b = - 1 \<and> refill_rate_nanos b = 0"

definition refill :: "u64 \<Rightarrow> token_bucket \<Rightarrow> token_bucket" where
  "refill now b =
     (let elapsed = (if now \<le> last_refill_nanos b then 0 else now - last_refill_nanos b) in
      if elapsed = 0 then b
      else
        let b1 = b\<lparr>last_refill_nanos := now\<rparr>;
            r = min (elapsed div refill_rate_nanos b) (max_tokens b)
        in if r = 0 then b1
           else b1\<lparr>tokens := min (tokens b + r) (max_tokens b)\<rparr>)"

definition refilled :: "u64 \<Rightarrow> token_bucket \<Rightarrow> token_bucket" where
  "refilled now b = (if refill_rate_nanos b > 0 then refill now b else b)"

definition try_consume :: "u64 \<Rightarrow> u64 \<Rightarrow> token_bucket \<Rightarrow> bool \<times> token_bucket" where
  "try_consume now amount b =
     (if bucket_unlimited b then (True, b)
      else let b1 = refilled now b in
        if tokens b1 < amount then (False, b1)
        else (True, b1\<lparr>tokens := tokens b1 - amount\<rparr>))"

definition available :: "u64 \<Rightarrow> token_bucket \<Rightarrow> u64 \<times> token_bucket" where
  "available now b =
     (if bucket_unlimited b then (- 1, b)
      else let b1 = refilled now b in (tokens b1, b1))"

definition wait_time_nanos :: "u64 \<Rightarrow> u64 \<Rightarrow> token_bucket \<Rightarrow> u64 \<times> token_bucket" where
  "wait_time_nanos now amount b =
     (if bucket_unlimited b then (0, b)
      else let (avail, b1) = available now b in
        if avail \<ge> amount then (0, b1)
        else ((amount - avail) * refill_rate_nanos b1, b1))"

text \<open>
  The loop of \<open>wait_consume\<close>. The environment is a list of turns: whether the token was
  cancelled when the turn looked, and the clock after its sleep. The result holds the
  outcome, the sleeps in milliseconds and the bucket; a list that ends first leaves the
  call waiting.
\<close>

datatype wait_outcome = Consumed | Cancelled | Still_waiting

definition wait_batch :: "u64 \<Rightarrow> u64" where
  "wait_batch remaining = min remaining (64 * 1024)"

fun wait_loop ::
    "(bool \<times> u64) list \<Rightarrow> u64 \<Rightarrow> nat \<Rightarrow> token_bucket \<Rightarrow> wait_outcome \<times> nat list \<times> token_bucket"
where
  "wait_loop [] remaining delay_ms b =
     (if remaining = 0 then Consumed else Still_waiting, [], b)"
| "wait_loop ((cancelled, now) # turns) remaining delay_ms b =
     (if remaining = 0 then (Consumed, [], b)
      else if cancelled then (Cancelled, [], b)
      else
        let batch = wait_batch remaining;
            (ok, b1) = try_consume now batch b;
            (out, sleeps, b2) =
              (if ok then wait_loop turns (remaining - batch) 1 b1
               else wait_loop turns remaining (min (delay_ms * 2) 100) b1)
        in (out, delay_ms # sleeps, b2))"

definition wait_consume ::
    "u64 \<Rightarrow> (bool \<times> u64) list \<Rightarrow> u64 \<Rightarrow> token_bucket \<Rightarrow> wait_outcome \<times> nat list \<times> token_bucket"
where
  "wait_consume now turns amount b =
     (let (ok, b1) = try_consume now amount b in
      if ok then (Consumed, [], b1) else wait_loop turns amount 1 b1)"

subsection \<open>Frame facts\<close>

definition bucket_inv :: "token_bucket \<Rightarrow> bool" where
  "bucket_inv b \<longleftrightarrow> tokens b \<le> max_tokens b"

lemma refilled_frame [simp]:
  "max_tokens (refilled now b) = max_tokens b"
  "refill_rate_nanos (refilled now b) = refill_rate_nanos b"
  by (simp_all add: refilled_def refill_def Let_def)

lemma try_consume_frame [simp]:
  "max_tokens (snd (try_consume now a b)) = max_tokens b"
  "refill_rate_nanos (snd (try_consume now a b)) = refill_rate_nanos b"
  by (simp_all add: try_consume_def Let_def)

lemma refilled_inv: "bucket_inv b \<Longrightarrow> bucket_inv (refilled now b)"
  by (auto simp: refilled_def refill_def bucket_inv_def Let_def)

lemma try_consume_inv: "bucket_inv b \<Longrightarrow> bucket_inv (snd (try_consume now a b))"
  using refilled_inv [of b now] word_sub_le_iff [of "tokens (refilled now b)" a]
  by (auto simp: try_consume_def bucket_inv_def Let_def not_less intro: order_trans)

text \<open>The clock of the last refill never goes back, and no refill is worth more than the time it covers.\<close>

lemma unat_min: "unat (min a b) = min (unat a) (unat (b :: 'a::len word))"
  by (simp add: min_def word_le_nat_alt)

lemma refilled_last: "last_refill_nanos b \<le> last_refill_nanos (refilled now b)"
  by (auto simp: refilled_def refill_def Let_def)

lemma refilled_credit:
  "unat (tokens (refilled now b)) * unat (refill_rate_nanos b) + unat (last_refill_nanos b)
     \<le> unat (tokens b) * unat (refill_rate_nanos b) + unat (last_refill_nanos (refilled now b))"
proof (cases "refill_rate_nanos b > 0 \<and> last_refill_nanos b < now")
  case False
  then show ?thesis by (auto simp: refilled_def refill_def Let_def)
next
  case True
  let ?rate = "unat (refill_rate_nanos b)"
  let ?el = "now - last_refill_nanos b"
  have el: "unat ?el = unat now - unat (last_refill_nanos b)" "unat (last_refill_nanos b) < unat now"
    using True by (auto simp: word_less_nat_alt unat_sub less_imp_le word_le_nat_alt)
  let ?r = "min (?el div refill_rate_nanos b) (max_tokens b)"
  have r: "unat ?r * ?rate \<le> unat ?el"
  proof -
    have "unat ?r \<le> unat ?el div ?rate" by (simp add: unat_min unat_div)
    then have "unat ?r * ?rate \<le> unat ?el div ?rate * ?rate" by (rule mult_le_mono1)
    also have "\<dots> \<le> unat ?el" by simp
    finally show ?thesis .
  qed
  have nz: "?el \<noteq> 0" using True by auto
  have "unat (tokens (refilled now b)) \<le> unat (tokens b) + unat ?r"
  proof -
    have "unat (tokens b + ?r) \<le> unat (tokens b) + unat ?r" by (simp add: unat_word_ariths)
    then show ?thesis using True nz
      by (auto simp: refilled_def refill_def Let_def unat_min min.coboundedI1)
  qed
  then have "unat (tokens (refilled now b)) * ?rate \<le> unat (tokens b) * ?rate + unat ?r * ?rate"
    by (metis mult_le_mono1 distrib_right)
  moreover have "last_refill_nanos (refilled now b) = now"
    using True nz by (auto simp: refilled_def refill_def Let_def)
  ultimately show ?thesis using r el by simp
qed


subsection \<open>The contract of a rated source\<close>

text \<open>
  A source sells units at a price and holds a credit. Whatever a client asks, and at
  whatever times, it cannot be granted more than the credit the source starts with.
\<close>

fun grant_run ::
    "('t \<Rightarrow> 'n \<Rightarrow> 's \<Rightarrow> bool \<times> 's) \<Rightarrow> ('t \<times> 'n) list \<Rightarrow> 's \<Rightarrow> 'n list \<times> 's" where
  "grant_run f [] s = ([], s)"
| "grant_run f ((t, a) # reqs) s =
     (let (ok, s1) = f t a s; (gs, s2) = grant_run f reqs s1
      in (if ok then a # gs else gs, s2))"

locale rated_source =
  fixes consume :: "'t \<Rightarrow> 'n \<Rightarrow> 's \<Rightarrow> bool \<times> 's"
    and cost :: "'n \<Rightarrow> int"
    and price :: "'s \<Rightarrow> int"
    and credit :: "'s \<Rightarrow> int"
    and limited :: "'s \<Rightarrow> bool"
  assumes granted: "limited s \<Longrightarrow> consume t a s = (True, s') \<Longrightarrow>
      credit s' + cost a * price s \<le> credit s"
    and refused: "limited s \<Longrightarrow> consume t a s = (False, s') \<Longrightarrow> credit s' \<le> credit s"
    and same_price: "price (snd (consume t a s)) = price s"
    and stays_limited: "limited s \<Longrightarrow> limited (snd (consume t a s))"
begin

lemma grants_bounded:
  "limited s \<Longrightarrow> grant_run consume reqs s = (gs, s') \<Longrightarrow>
     credit s' + sum_list (map cost gs) * price s \<le> credit s"
proof (induction reqs arbitrary: s gs)
  case Nil
  then show ?case by simp
next
  case (Cons q reqs)
  obtain t a where q: "q = (t, a)" by (cases q)
  obtain ok s1 where c: "consume t a s = (ok, s1)" by (cases "consume t a s")
  obtain gs1 where g: "grant_run consume reqs s1 = (gs1, s')"
    using Cons.prems(2) q c by (auto split: prod.splits)
  have l: "limited s1" "price s1 = price s"
    using stays_limited [OF Cons.prems(1), of t a] same_price [of t a s] c by simp_all
  have ih: "credit s' + sum_list (map cost gs1) * price s \<le> credit s1"
    using Cons.IH [OF l(1) g] l(2) by simp
  show ?case
  proof (cases ok)
    case True
    then have "gs = a # gs1" using Cons.prems(2) q c g by simp
    then show ?thesis using granted [OF Cons.prems(1), of t a s1] c True ih by (simp add: distrib_right)
  next
    case False
    then have "gs = gs1" using Cons.prems(2) q c g by simp
    then show ?thesis using refused [OF Cons.prems(1), of t a s1] c False ih by simp
  qed
qed

end

definition bucket_credit :: "token_bucket \<Rightarrow> int" where
  "bucket_credit b =
     int (unat (tokens b)) * int (unat (refill_rate_nanos b)) - int (unat (last_refill_nanos b))"

lemma refilled_credit_int: "bucket_credit (refilled now b) \<le> bucket_credit b"
proof -
  have "int (unat (tokens (refilled now b)) * unat (refill_rate_nanos b) + unat (last_refill_nanos b))
     \<le> int (unat (tokens b) * unat (refill_rate_nanos b) + unat (last_refill_nanos (refilled now b)))"
    using refilled_credit [of now b] by (simp only: of_nat_le_iff)
  then show ?thesis by (simp add: bucket_credit_def)
qed

lemma consume_credit:
  assumes "\<not> bucket_unlimited b"
  shows "try_consume now a b = (True, b') \<Longrightarrow>
      bucket_credit b' + int (unat a) * int (unat (refill_rate_nanos b)) \<le> bucket_credit b"
    and "try_consume now a b = (False, b') \<Longrightarrow> bucket_credit b' \<le> bucket_credit b"
proof -
  let ?r = "refilled now b"
  show "try_consume now a b = (False, b') \<Longrightarrow> bucket_credit b' \<le> bucket_credit b"
    using assms refilled_credit_int [of now b] by (auto simp: try_consume_def Let_def split: if_splits)
  assume "try_consume now a b = (True, b')"
  then have b': "b' = ?r\<lparr>tokens := tokens ?r - a\<rparr>" and le: "a \<le> tokens ?r"
    using assms by (auto simp: try_consume_def Let_def split: if_splits)
  have "int (unat (tokens ?r - a)) = int (unat (tokens ?r)) - int (unat a)"
    using le by (simp add: unat_sub word_le_nat_alt of_nat_diff)
  then show "bucket_credit b' + int (unat a) * int (unat (refill_rate_nanos b)) \<le> bucket_credit b"
    using refilled_credit_int [of now b] unfolding b' bucket_credit_def
    by (simp add: left_diff_distrib)
qed

lemma bucket_unlimited_frame: "bucket_unlimited (snd (try_consume now a b)) = bucket_unlimited b"
  by (simp add: bucket_unlimited_def)

interpretation tb: rated_source try_consume "\<lambda>a. int (unat a)"
  "\<lambda>b. int (unat (refill_rate_nanos b))" bucket_credit "\<lambda>b. \<not> bucket_unlimited b"
  by unfold_locales (use consume_credit bucket_unlimited_frame in auto)


lemma snd_grant_run [simp]:
  "snd (grant_run f (q # reqs) s) = snd (grant_run f reqs (snd (f (fst q) (snd q) s)))"
  by (cases q) (simp split: prod.splits)

lemma grant_run_frame:
  "max_tokens (snd (grant_run try_consume reqs b)) = max_tokens b"
  "refill_rate_nanos (snd (grant_run try_consume reqs b)) = refill_rate_nanos b"
  "bucket_inv b \<Longrightarrow> bucket_inv (snd (grant_run try_consume reqs b))"
  by (induction reqs arbitrary: b) (simp_all add: try_consume_inv del: grant_run.simps(2))

text \<open>Without a refill rate a bucket only empties.\<close>

lemma unrated_sum:
  assumes "refill_rate_nanos b = 0" "\<not> bucket_unlimited b"
  shows "sum_list (map unat (fst (grant_run try_consume reqs b)))
      + unat (tokens (snd (grant_run try_consume reqs b))) = unat (tokens b)"
  using assms
proof (induction reqs arbitrary: b)
  case Nil
  then show ?case by simp
next
  case (Cons q reqs)
  obtain t a where q: "q = (t, a)" by (cases q)
  obtain ok b1 where c: "try_consume t a b = (ok, b1)" by (cases "try_consume t a b")
  have b1: "refill_rate_nanos b1 = 0" "\<not> bucket_unlimited b1"
    using Cons.prems c try_consume_frame(2) [of t a b] bucket_unlimited_frame [of t a b] by auto
  have "unat (tokens b1) + (if ok then unat a else 0) = unat (tokens b)"
    using c Cons.prems
    by (auto simp: try_consume_def refilled_def Let_def unat_sub word_le_nat_alt not_less split: if_splits)
  then show ?case using Cons.IH [OF b1] q c by (auto split: prod.splits)
qed

subsection \<open>The waiting loop\<close>

lemma wait_loop_turn:
  "try_consume now (wait_batch remaining) b = (ok, b1) \<Longrightarrow>
     wait_loop ((cancelled, now) # turns) remaining d b =
       (if remaining = 0 then (Consumed, [], b)
        else if cancelled then (Cancelled, [], b)
        else apsnd (apfst ((#) d))
          (if ok then wait_loop turns (remaining - wait_batch remaining) 1 b1
           else wait_loop turns remaining (min (d * 2) 100) b1))"
  by (simp add: Let_def split: prod.splits)

declare wait_loop.simps(2) [simp del]

lemma wait_loop_sleeps:
  assumes "P 1" "\<And>d. P d \<Longrightarrow> P (min (d * 2) 100)"
  shows "P d \<Longrightarrow> \<forall>m \<in> set (fst (snd (wait_loop turns remaining d b))). P m"
proof (induction turns arbitrary: remaining d b)
  case Nil
  then show ?case by simp
next
  case (Cons q turns)
  obtain cancelled now where q: "q = (cancelled, now)" by (cases q)
  obtain ok b1 where c: "try_consume now (wait_batch remaining) b = (ok, b1)"
    by (cases "try_consume now (wait_batch remaining) b")
  show ?case unfolding q wait_loop_turn [OF c]
    using Cons.IH [OF assms(2) [OF Cons.prems], of remaining b1] Cons.prems
      Cons.IH [OF assms(1), of "remaining - wait_batch remaining" b1] by simp
qed

text \<open>What one turn that was granted or refused did to the level, when a refill is due.\<close>

lemma refilled_gains:
  assumes "bucket_inv b" "0 < refill_rate_nanos b" "tokens b < max_tokens b"
    "max_tokens b < 2 ^ 63" "unat (last_refill_nanos b) + unat (refill_rate_nanos b) \<le> unat now"
  shows "unat (tokens b) < unat (tokens (refilled now b))"
proof -
  let ?el = "now - last_refill_nanos b"
  have rate: "0 < unat (refill_rate_nanos b)"
    using assms(2) by (simp add: word_less_nat_alt)
  have "last_refill_nanos b \<le> now" using assms(5) by (simp add: word_le_nat_alt)
  then have el: "unat ?el = unat now - unat (last_refill_nanos b)"
    by (simp add: unat_sub word_le_nat_alt)
  then have "1 \<le> unat ?el div unat (refill_rate_nanos b)"
    using assms(5) rate by (simp add: div_greater_zero_iff Suc_le_eq)
  then have el1: "1 \<le> unat (?el div refill_rate_nanos b)" by (simp add: unat_div)
  let ?r = "min (?el div refill_rate_nanos b) (max_tokens b)"
  have mx: "unat (max_tokens b) < 2 ^ 63" "unat (tokens b) < unat (max_tokens b)"
    using assms(3,4) by (simp_all add: word_less_nat_alt)
  have r: "1 \<le> unat ?r" "unat ?r \<le> unat (max_tokens b)" using el1 mx by (auto simp: unat_min)
  have "unat (tokens b + ?r) = unat (tokens b) + unat ?r"
    using mx r(2) by (subst unat_add_lem [THEN iffD1]) auto
  moreover have "?el \<noteq> 0" "\<not> now \<le> last_refill_nanos b" "?r \<noteq> 0"
  proof -
    show "?r \<noteq> 0" using r(1) by auto
    show nle: "\<not> now \<le> last_refill_nanos b" using assms(5) rate by (simp add: word_le_nat_alt)
    then show "?el \<noteq> 0" by auto
  qed
  ultimately show ?thesis using r mx assms(2)
    by (simp add: refilled_def refill_def Let_def unat_min)
qed


text \<open>
  Turns that are never cancelled and whose clocks lie at least one sleep of a millisecond
  apart.
\<close>

fun ms_apart :: "nat \<Rightarrow> (bool \<times> u64) list \<Rightarrow> bool" where
  "ms_apart t [] = True"
| "ms_apart t ((cancelled, now) # turns) \<longleftrightarrow>
     \<not> cancelled \<and> t + 1000000 \<le> unat now \<and> ms_apart (unat now) turns"

definition fast_enough :: "token_bucket \<Rightarrow> bool" where
  "fast_enough b \<longleftrightarrow> bucket_inv b \<and> 0 < refill_rate_nanos b \<and> unat (refill_rate_nanos b) \<le> 1000000
     \<and> 64 * 1024 \<le> max_tokens b \<and> max_tokens b < 2 ^ 63"

text \<open>The buckets the proxy makes for a bandwidth from 64 KiB/s to 1 GB/s are of this kind.\<close>

lemma fast_enough_new:
  assumes "64 * 1024 \<le> bw" "bw \<le> NANOS_PER_SEC"
  shows "fast_enough (new_bucket bw bw now)"
proof -
  have bw: "65536 \<le> unat bw" "unat bw \<le> 1000000000"
    using assms by (simp_all add: word_le_nat_alt NANOS_PER_SEC_def)
  have d: "unat (NANOS_PER_SEC div bw) = 1000000000 div unat bw"
    by (simp add: unat_div NANOS_PER_SEC_def)
  have "1000000000 div unat bw \<le> 1000000000 div 65536" by (rule div_le_mono2) (use bw in auto)
  then have "unat (NANOS_PER_SEC div bw) \<le> 1000000" unfolding d by simp
  moreover have "0 < 1000000000 div unat bw" using bw by (simp add: div_greater_zero_iff)
  then have "0 < NANOS_PER_SEC div bw" using d by (simp add: word_less_nat_alt)
  moreover have "bw \<noteq> 0" using bw(1) by auto
  ultimately show ?thesis using assms bw
    by (simp add: fast_enough_def new_bucket_def bucket_inv_def word_less_nat_alt)
qed

lemma fast_enough_limited: "fast_enough b \<Longrightarrow> \<not> bucket_unlimited b"
  by (auto simp: fast_enough_def bucket_unlimited_def)

lemma fast_enough_consume: "fast_enough b \<Longrightarrow> fast_enough (snd (try_consume now a b))"
  by (simp add: fast_enough_def try_consume_inv)

lemma refilled_last_le: "last_refill_nanos b \<le> now \<Longrightarrow> last_refill_nanos (refilled now b) \<le> now"
  by (auto simp: refilled_def refill_def Let_def)

lemma try_consume_last:
  "last_refill_nanos b \<le> now \<Longrightarrow> last_refill_nanos (snd (try_consume now a b)) \<le> now"
  using refilled_last_le [of b now] by (simp add: try_consume_def Let_def)

lemma wait_batch_nat: "unat (wait_batch r) = min (unat r) (64 * 1024)"
  by (simp add: wait_batch_def unat_min)

text \<open>Every turn brings the loop closer to its end.\<close>

definition wait_work :: "u64 \<Rightarrow> token_bucket \<Rightarrow> nat" where
  "wait_work remaining b = 2 * unat remaining - min (unat (tokens b)) (unat remaining)"

lemma refilled_ge: "bucket_inv b \<Longrightarrow> max_tokens b < 2 ^ 63 \<Longrightarrow> tokens b \<le> tokens (refilled now b)"
proof -
  assume inv: "bucket_inv b" and mx: "max_tokens b < 2 ^ 63"
  have mx': "unat (max_tokens b) < 2 ^ 63" using mx by (simp add: word_less_nat_alt)
  have "unat (tokens b) \<le> unat (max_tokens b)" using inv by (simp add: bucket_inv_def word_le_nat_alt)
  moreover have "unat (tokens b + min x (max_tokens b)) = unat (tokens b) + unat (min x (max_tokens b))"
    for x
    using calculation mx' by (subst unat_add_lem [THEN iffD1]) (auto simp: unat_min)
  ultimately show ?thesis
    by (simp add: refilled_def refill_def Let_def word_le_nat_alt unat_min)
qed

lemma wait_work_refused:
  assumes b: "fast_enough b" and t: "unat (last_refill_nanos b) + 1000000 \<le> unat now"
    and c: "try_consume now (wait_batch r) b = (False, b1)"
  shows "wait_work r b1 < wait_work r b"
proof -
  have b1: "b1 = refilled now b" and lt: "tokens b1 < wait_batch r"
    using c fast_enough_limited [OF b] by (auto simp: try_consume_def Let_def split: if_splits)
  have lt': "unat (tokens b1) < min (unat r) (64 * 1024)"
    using lt wait_batch_nat [of r] by (simp add: word_less_nat_alt)
  have mx: "64 * 1024 \<le> unat (max_tokens b)"
    using b by (simp add: fast_enough_def word_le_nat_alt)
  show ?thesis
  proof (cases "tokens b < max_tokens b")
    case True
    then have "unat (tokens b) < unat (tokens b1)"
      unfolding b1 using b t by (intro refilled_gains) (auto simp: fast_enough_def)
    then show ?thesis using lt' by (simp add: wait_work_def diff_less_mono2)
  next
    case False
    then have "tokens b1 = max_tokens b"
      using refilled_ge [of b now] refilled_inv [of b now] b unfolding b1
      by (simp add: fast_enough_def bucket_inv_def)
    then show ?thesis using lt' mx by simp
  qed
qed

lemma wait_work_granted:
  assumes b: "fast_enough b" and r: "r \<noteq> 0"
    and c: "try_consume now (wait_batch r) b = (True, b1)"
  shows "wait_work (r - wait_batch r) b1 < wait_work r b"
proof -
  have b1: "tokens b1 = tokens (refilled now b) - wait_batch r" and
    le: "wait_batch r \<le> tokens (refilled now b)"
    using c fast_enough_limited [OF b] by (auto simp: try_consume_def Let_def split: if_splits)
  have ge: "unat (tokens b) \<le> unat (tokens (refilled now b))"
    using refilled_ge [of b now] b by (simp add: fast_enough_def word_le_nat_alt)
  have t1: "unat (tokens b1) = unat (tokens (refilled now b)) - unat (wait_batch r)"
    using le unfolding b1 by (simp add: unat_sub word_le_nat_alt)
  have wb: "wait_batch r \<le> r" by (simp add: wait_batch_def)
  have r1: "unat (r - wait_batch r) = unat r - unat (wait_batch r)"
    using wb by (simp add: unat_sub word_le_nat_alt)
  have "0 < unat r" using r by (simp add: unat_gt_0)
  then have pos: "0 < unat (wait_batch r)" by (simp add: wait_batch_nat)
  have "unat (wait_batch r) \<le> unat r" using wb by (simp add: word_le_nat_alt)
  then show ?thesis using ge le pos unfolding wait_work_def t1 r1 by (simp add: word_le_nat_alt)
qed


lemma wait_loop_returns:
  "fast_enough b \<Longrightarrow> unat (last_refill_nanos b) \<le> t \<Longrightarrow> ms_apart t turns \<Longrightarrow>
     wait_work remaining b \<le> length turns \<Longrightarrow> fst (wait_loop turns remaining d b) = Consumed"
proof (induction turns arbitrary: t remaining d b)
  case Nil
  then have "2 * unat remaining \<le> unat remaining" by (simp add: wait_work_def min_def split: if_splits)
  then have "remaining = 0" by (simp add: unat_eq_0)
  then show ?case by simp
next
  case (Cons q turns)
  obtain cancelled now where q: "q = (cancelled, now)" by (cases q)
  have ms: "\<not> cancelled" "t + 1000000 \<le> unat now" "ms_apart (unat now) turns"
    using Cons.prems(3) q by auto
  obtain ok b1 where c: "try_consume now (wait_batch remaining) b = (ok, b1)"
    by (cases "try_consume now (wait_batch remaining) b")
  have le: "last_refill_nanos b \<le> now" using Cons.prems(2) ms(2) by (simp add: word_le_nat_alt)
  have b1: "fast_enough b1" "unat (last_refill_nanos b1) \<le> unat now"
    using fast_enough_consume [OF Cons.prems(1), of now "wait_batch remaining"] c
      try_consume_last [OF le, of "wait_batch remaining"] by (simp_all add: word_le_nat_alt)
  note turn = wait_loop_turn [OF c, of cancelled turns d, folded q]
  show ?case
  proof (cases "remaining = 0")
    case True
    then show ?thesis using turn by simp
  next
    case nz: False
    show ?thesis
    proof (cases ok)
      case True
      then have "wait_work (remaining - wait_batch remaining) b1 \<le> length turns"
        using wait_work_granted [OF Cons.prems(1) nz, of now b1] c Cons.prems(4) by simp
      then show ?thesis using Cons.IH [OF b1 ms(3)] turn ms(1) nz True by simp
    next
      case False
      have "unat (last_refill_nanos b) + 1000000 \<le> unat now" using Cons.prems(2) ms(2) by simp
      then have "wait_work remaining b1 \<le> length turns"
        using wait_work_refused [OF Cons.prems(1), of now remaining b1] c False Cons.prems(4) by simp
      then show ?thesis using Cons.IH [OF b1 ms(3)] turn ms(1) nz False by simp
    qed
  qed
qed

lemma wait_loop_stuck:
  "\<not> bucket_unlimited b \<Longrightarrow> bucket_inv b \<Longrightarrow> max_tokens b < wait_batch remaining \<Longrightarrow>
     fst (wait_loop turns remaining d b) \<noteq> Consumed"
proof (induction turns arbitrary: d b)
  case Nil
  then have "remaining \<noteq> 0" by (auto simp: wait_batch_def)
  then show ?case by simp
next
  case (Cons q turns)
  obtain cancelled now where q: "q = (cancelled, now)" by (cases q)
  have nz: "remaining \<noteq> 0" using Cons.prems(3) by (auto simp: wait_batch_def)
  have "tokens (refilled now b) \<le> max_tokens b"
    using refilled_inv [OF Cons.prems(2), of now] by (simp add: bucket_inv_def)
  then have c: "try_consume now (wait_batch remaining) b = (False, refilled now b)"
    using Cons.prems(1,3) by (simp add: try_consume_def Let_def)
  have "\<not> bucket_unlimited (refilled now b)" using Cons.prems(1) by (simp add: bucket_unlimited_def)
  then show ?case
    using Cons.IH [of "refilled now b" "min (d * 2) 100"] Cons.prems refilled_inv
      wait_loop_turn [OF c, of cancelled turns d] q nz by simp
qed

subsection \<open>Properties of the bucket\<close>

text \<open>
  C16. A rate-limited bucket never gives away more than it held plus what its rate earns: over
  any requests at any clock readings, even a clock that jumps, the granted bytes, priced in
  nanoseconds, are at most the initial tokens and the time the bucket has accounted for.
\<close>

theorem grants_bounded_by_rate:
  assumes "\<not> bucket_unlimited b" and "grant_run try_consume reqs b = (gs, b')"
  shows "(\<Sum>a\<leftarrow>gs. unat a) * unat (refill_rate_nanos b) + unat (last_refill_nanos b)
     \<le> unat (tokens b) * unat (refill_rate_nanos b) + unat (last_refill_nanos b')"
proof -
  have rate: "refill_rate_nanos b' = refill_rate_nanos b"
    using grant_run_frame(2) [of reqs b] assms(2) by simp
  have sum: "(\<Sum>a\<leftarrow>gs. int (unat a)) = int (\<Sum>a\<leftarrow>gs. unat a)" by (induction gs) auto
  have "0 \<le> int (unat (tokens b')) * int (unat (refill_rate_nanos b))" by simp
  then have "int (\<Sum>a\<leftarrow>gs. unat a) * int (unat (refill_rate_nanos b)) + int (unat (last_refill_nanos b))
      \<le> int (unat (tokens b)) * int (unat (refill_rate_nanos b)) + int (unat (last_refill_nanos b'))"
    using tb.grants_bounded [OF assms] unfolding bucket_credit_def rate sum by linarith
  then show ?thesis by (simp only: of_nat_add [symmetric] of_nat_mult [symmetric] of_nat_le_iff)
qed

theorem grants_bounded_by_rate_witness:
  "let b = new_bucket 10 1000 0; (gs, b') = grant_run try_consume [(0, 8), (1000000, 9), (7000000, 9)] b
   in gs = [8, 9] \<and> 17 * 1000000 \<le> 10 * 1000000 + unat (last_refill_nanos b')"
proof -
  let ?b = "new_bucket 10 1000 0"
  have run: "grant_run try_consume [(0, 8), (1000000, 9), (7000000, 9)] ?b =
      ([8, 9], \<lparr>tokens = 0, max_tokens = 10, refill_rate_nanos = 1000000, last_refill_nanos = 7000000\<rparr>)"
    by (simp add: new_bucket_def NANOS_PER_SEC_def try_consume_def refilled_def refill_def
        bucket_unlimited_def Let_def)
  have "\<not> bucket_unlimited ?b" by (simp add: new_bucket_def bucket_unlimited_def)
  from grants_bounded_by_rate [OF this run] show ?thesis
    using run by (simp add: new_bucket_def NANOS_PER_SEC_def)
qed



text \<open>
  A bucket smaller than the batch the loop asks for never lets it through: whatever the
  clock does and however long it is called, \<open>wait_consume\<close> of more bytes than the bucket can
  hold, or of 64 KiB and more on a smaller bucket, does not come back with \<open>Consumed\<close>.
\<close>

lemma wait_consume_livelock:
  assumes "\<not> bucket_unlimited b" and "bucket_inv b" and "max_tokens b < wait_batch amount"
  shows "fst (wait_consume now turns amount b) \<noteq> Consumed"
proof -
  have "tokens (refilled now b) \<le> max_tokens b"
    using refilled_inv [OF assms(2), of now] by (simp add: bucket_inv_def)
  moreover have "wait_batch amount \<le> amount" by (simp add: wait_batch_def)
  ultimately have "try_consume now amount b = (False, refilled now b)"
    using assms(1,3) by (auto simp: try_consume_def Let_def)
  then show ?thesis
    using wait_loop_stuck [of "refilled now b" amount turns 1] assms refilled_inv
    by (simp add: wait_consume_def bucket_unlimited_def)
qed

lemma wait_consume_livelock_witness:
  "fst (wait_consume 0 [(False, 10 ^ 9), (False, 10 ^ 12), (False, 10 ^ 15)] 20000
     (new_bucket 10240 10240 0)) \<noteq> Consumed"
  by (rule wait_consume_livelock)
    (simp_all add: new_bucket_def bucket_unlimited_def bucket_inv_def wait_batch_def)

text \<open>
  A rate above one byte per nanosecond rounds down to no rate at all: such a bucket is never
  refilled, and all it ever grants is its initial burst.
\<close>

lemma rate_above_1G_never_refills:
  assumes "NANOS_PER_SEC < per_sec" and "mx \<noteq> - 1"
  shows "(\<Sum>a\<leftarrow>fst (grant_run try_consume reqs (new_bucket mx per_sec now)). unat a) \<le> unat mx"
proof -
  have "NANOS_PER_SEC div per_sec = 0"
    using assms(1) by (simp add: word_arith_nat_div word_less_nat_alt)
  moreover have "\<not> bucket_unlimited (new_bucket mx per_sec now)"
    using assms(2) by (simp add: bucket_unlimited_def new_bucket_def)
  ultimately show ?thesis
    using unrated_sum [of "new_bucket mx per_sec now" reqs] by (simp add: new_bucket_def split: if_splits)
qed

lemma rate_above_1G_never_refills_witness:
  "(\<Sum>a\<leftarrow>fst (grant_run try_consume [(10 ^ 18, 5)] (new_bucket 4 2000000000 0)). unat a) \<le> unat (4 :: u64)"
  by (rule rate_above_1G_never_refills) (simp_all add: NANOS_PER_SEC_def)

text \<open>
  Time is lost when the bucket is asked more often than its rate: a refill that rounds to no
  token still moves the clock of the last refill.
\<close>

fun polls :: "nat \<Rightarrow> u64 \<Rightarrow> u64 list \<Rightarrow> bool" where
  "polls rate t [] = True"
| "polls rate t (now # nows) \<longleftrightarrow> t \<le> now \<and> unat now < unat t + rate \<and> polls rate now nows"

lemma polling_starves:
  "polls (unat (refill_rate_nanos b)) (last_refill_nanos b) nows \<Longrightarrow>
     tokens (fold refilled nows b) = tokens b"
proof (induction nows arbitrary: b)
  case Nil
  then show ?case by simp
next
  case (Cons now nows)
  let ?el = "now - last_refill_nanos b"
  have le: "last_refill_nanos b \<le> now" and lt: "unat now < unat (last_refill_nanos b) + unat (refill_rate_nanos b)"
    using Cons.prems by auto
  have "unat ?el < unat (refill_rate_nanos b)"
    using le lt by (simp add: unat_sub word_le_nat_alt)
  then have z: "?el div refill_rate_nanos b = 0"
    by (simp add: word_arith_nat_div)
  have t: "tokens (refilled now b) = tokens b" "last_refill_nanos (refilled now b) = now"
    using z le lt word_le_nat_alt [THEN iffD1, OF le] by (auto simp: refilled_def refill_def Let_def word_gt_0)
  then show ?case using Cons.IH [of "refilled now b"] Cons.prems by simp
qed

text \<open>
  No method ever lets the level exceed the capacity, and every sleep of the waiting loop
  lasts between 1 and 100 milliseconds.
\<close>

lemma bucket_stays_within_bounds:
  assumes "bucket_inv b"
  shows "tokens (snd (grant_run try_consume reqs b)) \<le> max_tokens b
     \<and> (\<forall>m \<in> set (fst (snd (wait_loop turns amount 1 b))). 1 \<le> m \<and> m \<le> 100)"
proof
  show "tokens (snd (grant_run try_consume reqs b)) \<le> max_tokens b"
    using grant_run_frame(3) [OF assms, of reqs] grant_run_frame(1) [of reqs b]
    by (simp add: bucket_inv_def)
  show "\<forall>m \<in> set (fst (snd (wait_loop turns amount 1 b))). 1 \<le> m \<and> m \<le> 100"
    by (rule wait_loop_sleeps) auto
qed

lemma bucket_stays_within_bounds_witness:
  "tokens (snd (grant_run try_consume [(10 ^ 12, 3)] (new_bucket 10 1000 0))) \<le> 10"
  using bucket_stays_within_bounds [of "new_bucket 10 1000 0" "[(10 ^ 12, 3)]" "[]" 0]
  by (simp add: bucket_inv_def new_bucket_def)

end
