(* ===== verification/Permit_Pool.thy ===== *)
theory Permit_Pool
  imports Blitz_Prelude
begin

text \<open>
  The contract of a semaphore: taking a permit uses up a free one or leaves the pool as it
  is, giving one back makes it free again. Its clients hold permits in a list; a permit
  that is given back is named by its position. \<open>IpRateLimiter\<close> and \<open>WorkerLimiter\<close> of
  \<open>src/src/rate_limit.rs\<close> interpret the contract.
\<close>

datatype 'a pool_op = Take_permit 'a | Give_permit nat

definition drop_nth :: "nat \<Rightarrow> 'a list \<Rightarrow> 'a list" where
  "drop_nth i xs = take i xs @ drop (Suc i) xs"

lemma length_drop_nth: "i < length xs \<Longrightarrow> Suc (length (drop_nth i xs)) = length xs"
  by (simp add: drop_nth_def)

lemma set_drop_nth: "set (drop_nth i xs) \<subseteq> set xs"
  by (auto simp: drop_nth_def dest: in_set_takeD in_set_dropD)

lemma filter_drop_nth:
  "i < length xs \<Longrightarrow> length (filter P xs) = length (filter P (drop_nth i xs)) + (if P (xs ! i) then 1 else 0)"
  by (subst (1) id_take_nth_drop [of i xs]) (simp_all add: drop_nth_def)

fun pool_step ::
    "('a \<Rightarrow> 's \<Rightarrow> 'p option \<times> 's) \<Rightarrow> ('p \<Rightarrow> 's \<Rightarrow> 's) \<Rightarrow> 'a pool_op \<Rightarrow> 'p list \<times> 's \<Rightarrow> 'p list \<times> 's"
where
  "pool_step acq rel (Take_permit a) (held, s) =
     (case acq a s of (Some p, s') \<Rightarrow> (held @ [p], s') | (None, s') \<Rightarrow> (held, s'))"
| "pool_step acq rel (Give_permit i) (held, s) =
     (if i < length held then (drop_nth i held, rel (held ! i) s) else (held, s))"

definition pool_run ::
    "('a \<Rightarrow> 's \<Rightarrow> 'p option \<times> 's) \<Rightarrow> ('p \<Rightarrow> 's \<Rightarrow> 's) \<Rightarrow> 'a pool_op list \<Rightarrow> 'p list \<times> 's \<Rightarrow> 'p list \<times> 's"
where
  "pool_run acq rel ops st = fold (pool_step acq rel) ops st"

locale permit_pool =
  fixes acq :: "'a \<Rightarrow> 's \<Rightarrow> 'p option \<times> 's"
    and rel :: "'p \<Rightarrow> 's \<Rightarrow> 's"
    and free :: "'s \<Rightarrow> nat"
  assumes taken: "acq a s = (Some p, s') \<Longrightarrow> free s = Suc (free s')"
    and not_taken: "acq a s = (None, s') \<Longrightarrow> free s' = free s"
    and given: "free (rel p s) = Suc (free s)"
begin

lemma step_conserves:
  "pool_step acq rel op (held, s) = (held', s') \<Longrightarrow>
     length held' + free s' = length held + free s"
proof (cases op)
  case (Take_permit a)
  assume st: "pool_step acq rel op (held, s) = (held', s')"
  obtain r s1 where r: "acq a s = (r, s1)" by (cases "acq a s")
  then show ?thesis using st Take_permit taken [of a s _ s1] not_taken [of a s s1]
    by (cases r) auto
next
  case (Give_permit i)
  assume "pool_step acq rel op (held, s) = (held', s')"
  then show ?thesis using Give_permit length_drop_nth [of i held] given
    by (auto split: if_splits)
qed

lemma run_conserves:
  "pool_run acq rel ops (held, s) = (held', s') \<Longrightarrow>
     length held' + free s' = length held + free s"
proof (induction ops arbitrary: held s)
  case Nil
  then show ?case by (simp add: pool_run_def)
next
  case (Cons op ops)
  obtain h1 s1 where st: "pool_step acq rel op (held, s) = (h1, s1)"
    by (cases "pool_step acq rel op (held, s)")
  have "pool_run acq rel ops (h1, s1) = (held', s')"
    using Cons.prems st by (simp add: pool_run_def)
  then show ?case using Cons.IH step_conserves [OF st] by simp
qed

lemma never_over: "pool_run acq rel ops ([], s) = (held', s') \<Longrightarrow> length held' \<le> free s"
  using run_conserves [of ops "[]" s held' s'] by simp

end

end
