(* ===== verification/Ip_Limiter.thy ===== *)
theory Ip_Limiter
  imports Token_Bucket Permit_Pool Assoc_Map
begin

text \<open>
  \<open>IpRateLimiter\<close> and \<open>WorkerLimiter\<close> of \<open>src/src/rate_limit.rs\<close>. Semaphores and buckets
  are shared objects (\<open>Arc\<close>): a map entry and the permits taken through it name the same
  object by its number, and an object outlives its map entry. An \<open>Instant\<close> is a number of
  nanoseconds.
\<close>

definition UNLIMITED :: nat where
  "UNLIMITED = 1000000"

definition MAP_ENTRY_TTL :: nat where
  "MAP_ENTRY_TTL = 600 * 1000000000"

record ip_permit =
  permit_per_ip :: "nat option"
  permit_bucket :: "nat option"

record ip_limiter =
  per_ip :: "(string, nat \<times> nat) amap"
  per_ip_limit :: nat
  global_free :: nat
  per_ip_bandwidth :: u64
  per_ip_buckets :: "(string, nat \<times> nat) amap"
  semaphores :: "nat list"
  buckets :: "token_bucket list"

definition new_limiter :: "nat \<Rightarrow> nat \<Rightarrow> u64 \<Rightarrow> ip_limiter" where
  "new_limiter ip_limit global_limit bandwidth =
     \<lparr>per_ip = [], per_ip_limit = ip_limit,
      global_free = (if global_limit = 0 then UNLIMITED else global_limit),
      per_ip_bandwidth = bandwidth, per_ip_buckets = [], semaphores = [], buckets = []\<rparr>"

definition get_or_create_bucket ::
    "string \<Rightarrow> nat \<Rightarrow> u64 \<Rightarrow> ip_limiter \<Rightarrow> nat option \<times> ip_limiter" where
  "get_or_create_bucket ip now clock s =
     (if per_ip_bandwidth s = 0 then (None, s)
      else (case am_get ip (per_ip_buckets s) of
              Some (i, _) \<Rightarrow> (Some i, s\<lparr>per_ip_buckets := am_insert ip (i, now) (per_ip_buckets s)\<rparr>)
            | None \<Rightarrow>
                let i = length (buckets s) in
                (Some i,
                 s\<lparr>per_ip_buckets := am_insert ip (i, now) (per_ip_buckets s),
                   buckets := buckets s @ [new_bucket (per_ip_bandwidth s) (per_ip_bandwidth s) clock]\<rparr>)))"

text \<open>The entry of an address, made when it is missing, with its time brought up to date.\<close>

definition touch_semaphore :: "string \<Rightarrow> nat \<Rightarrow> ip_limiter \<Rightarrow> nat \<times> ip_limiter" where
  "touch_semaphore ip now s =
     (case am_get ip (per_ip s) of
        Some (i, _) \<Rightarrow> (i, s\<lparr>per_ip := am_insert ip (i, now) (per_ip s)\<rparr>)
      | None \<Rightarrow>
          let i = length (semaphores s) in
          (i, s\<lparr>per_ip := am_insert ip (i, now) (per_ip s),
                semaphores := semaphores s @ [per_ip_limit s]\<rparr>))"

definition try_acquire_sem :: "nat \<Rightarrow> ip_limiter \<Rightarrow> bool \<times> ip_limiter" where
  "try_acquire_sem i s =
     (if semaphores s ! i = 0 then (False, s)
      else (True, s\<lparr>semaphores := (semaphores s)[i := semaphores s ! i - 1]\<rparr>))"

definition acquire ::
    "string \<Rightarrow> nat \<Rightarrow> u64 \<Rightarrow> ip_limiter \<Rightarrow> ip_permit option \<times> ip_limiter" where
  "acquire ip now clock s =
     (if global_free s = 0 then (None, s)
      else
        let s1 = s\<lparr>global_free := global_free s - 1\<rparr> in
        if per_ip_limit s1 = 0 then
          (let (bk, s2) = get_or_create_bucket ip now clock s1 in
           (Some \<lparr>permit_per_ip = None, permit_bucket = bk\<rparr>, s2))
        else
          let (i, s2) = touch_semaphore ip now s1; (ok, s3) = try_acquire_sem i s2 in
          if ok then
            (let (bk, s4) = get_or_create_bucket ip now clock s3 in
             (Some \<lparr>permit_per_ip = Some i, permit_bucket = bk\<rparr>, s4))
          else (None, s3\<lparr>global_free := global_free s3 + 1\<rparr>))"

text \<open>Dropping a permit gives both semaphores back what it holds.\<close>

definition release :: "ip_permit \<Rightarrow> ip_limiter \<Rightarrow> ip_limiter" where
  "release p s =
     (case permit_per_ip p of
        None \<Rightarrow> s\<lparr>global_free := global_free s + 1\<rparr>
      | Some i \<Rightarrow> s\<lparr>global_free := global_free s + 1,
                  semaphores := (semaphores s)[i := semaphores s ! i + 1]\<rparr>)"

definition recently_used :: "nat \<Rightarrow> nat \<Rightarrow> bool" where
  "recently_used now last_used \<longleftrightarrow> (if now < last_used then True else now - last_used < MAP_ENTRY_TTL)"

definition sweep_stale_entries_at :: "nat \<Rightarrow> ip_limiter \<Rightarrow> ip_limiter" where
  "sweep_stale_entries_at now s =
     s\<lparr>per_ip := filter (\<lambda>(_, _, last_used). recently_used now last_used) (per_ip s),
       per_ip_buckets := filter (\<lambda>(_, _, last_used). recently_used now last_used) (per_ip_buckets s)\<rparr>"

text \<open>\<open>WorkerLimiter\<close>: one semaphore; \<open>acquire\<close> waits where \<open>try_acquire\<close> returns nothing.\<close>

record worker_limiter =
  semaphore :: nat

definition new_worker_limiter :: "nat \<Rightarrow> worker_limiter" where
  "new_worker_limiter max_workers =
     \<lparr>semaphore = (if max_workers = 0 then UNLIMITED else max_workers)\<rparr>"

definition worker_try_acquire :: "worker_limiter \<Rightarrow> unit option \<times> worker_limiter" where
  "worker_try_acquire w =
     (if semaphore w = 0 then (None, w) else (Some (), w\<lparr>semaphore := semaphore w - 1\<rparr>))"

definition worker_release :: "worker_limiter \<Rightarrow> worker_limiter" where
  "worker_release w = w\<lparr>semaphore := semaphore w + 1\<rparr>"

subsection \<open>The global limits as permit pools\<close>

definition acquire_for ::
    "string \<times> nat \<times> u64 \<Rightarrow> ip_limiter \<Rightarrow> (string \<times> ip_permit) option \<times> ip_limiter" where
  "acquire_for = (\<lambda>(ip, now, clock) s. apfst (map_option (Pair ip)) (acquire ip now clock s))"

lemma bucket_frame [simp]:
  "global_free (snd (get_or_create_bucket ip now clock s)) = global_free s"
  "per_ip (snd (get_or_create_bucket ip now clock s)) = per_ip s"
  "per_ip_limit (snd (get_or_create_bucket ip now clock s)) = per_ip_limit s"
  "semaphores (snd (get_or_create_bucket ip now clock s)) = semaphores s"
  by (auto simp: get_or_create_bucket_def Let_def split: option.splits prod.splits)

lemma bucketD:
  "get_or_create_bucket ip now clock s = (bk, s') \<Longrightarrow>
     global_free s' = global_free s \<and> per_ip s' = per_ip s \<and> per_ip_limit s' = per_ip_limit s
     \<and> semaphores s' = semaphores s"
  using bucket_frame [of ip now clock s] by simp

lemma touch_frame [simp]:
  "global_free (snd (touch_semaphore ip now s)) = global_free s"
  "per_ip_limit (snd (touch_semaphore ip now s)) = per_ip_limit s"
  by (auto simp: touch_semaphore_def Let_def split: option.splits prod.splits)

lemma try_sem_frame [simp]:
  "global_free (snd (try_acquire_sem i s)) = global_free s"
  "per_ip (snd (try_acquire_sem i s)) = per_ip s"
  "per_ip_limit (snd (try_acquire_sem i s)) = per_ip_limit s"
  by (auto simp: try_acquire_sem_def)

lemma acquire_global:
  "acquire ip now clock s = (r, s') \<Longrightarrow>
     global_free s = global_free s' + (case r of None \<Rightarrow> 0 | Some p \<Rightarrow> 1)"
proof -
  assume a: "acquire ip now clock s = (r, s')"
  let ?s1 = "s\<lparr>global_free := global_free s - 1\<rparr>"
  obtain i s2 where t: "touch_semaphore ip now ?s1 = (i, s2)" by fastforce
  obtain ok s3 where q: "try_acquire_sem i s2 = (ok, s3)" by fastforce
  have "global_free s2 = global_free s - 1" "global_free s3 = global_free s2"
    using touch_frame(1) [of ip now ?s1, unfolded t] try_sem_frame(1) [of i s2, unfolded q] by simp_all
  then show ?thesis
    using a t q
    by (auto simp: acquire_def Let_def split: if_splits prod.splits dest!: bucketD)
qed

lemma release_global: "global_free (release p s) = Suc (global_free s)"
  by (simp add: release_def split: option.splits)

lemma acquire_for_SomeD:
  "acquire_for (ip, now, clock) s = (Some p, s') \<Longrightarrow>
     \<exists>q. acquire ip now clock s = (Some q, s') \<and> p = (ip, q)"
  by (cases "acquire ip now clock s") (auto simp: acquire_for_def)

lemma acquire_for_NoneD:
  "acquire_for (ip, now, clock) s = (None, s') \<Longrightarrow> acquire ip now clock s = (None, s')"
  by (cases "acquire ip now clock s") (auto simp: acquire_for_def)

interpretation ip_pool: permit_pool acquire_for "\<lambda>(_, p). release p" global_free
proof
  fix a s p s'
  show "acquire_for a s = (Some p, s') \<Longrightarrow> global_free s = Suc (global_free s')"
    by (cases a) (auto dest!: acquire_for_SomeD acquire_global)
next
  fix a s s'
  show "acquire_for a s = (None, s') \<Longrightarrow> global_free s' = global_free s"
    by (cases a) (auto dest!: acquire_for_NoneD acquire_global)
next
  fix p s
  show "global_free ((case p of (_, x) \<Rightarrow> release x) s) = Suc (global_free s)"
    by (cases p) (simp add: release_global)
qed

interpretation worker_pool: permit_pool "\<lambda>_ :: unit. worker_try_acquire" "\<lambda>_. worker_release" semaphore
  by unfold_locales (auto simp: worker_try_acquire_def worker_release_def split: if_splits)

subsection \<open>The limit of one address\<close>

definition sem_count :: "nat \<Rightarrow> (string \<times> ip_permit) list \<Rightarrow> nat" where
  "sem_count i held = length (filter (\<lambda>h. permit_per_ip (snd h) = Some i) held)"

definition ip_count :: "string \<Rightarrow> (string \<times> ip_permit) list \<Rightarrow> nat" where
  "ip_count ip held = length (filter (\<lambda>h. fst h = ip) held)"

definition lim_inv :: "(string \<times> ip_permit) list \<Rightarrow> ip_limiter \<Rightarrow> bool" where
  "lim_inv held s \<longleftrightarrow>
     (\<forall>ip i t. am_get ip (per_ip s) = Some (i, t) \<longrightarrow> i < length (semaphores s)) \<and>
     (\<forall>ip ip' i t t'. am_get ip (per_ip s) = Some (i, t) \<longrightarrow> am_get ip' (per_ip s) = Some (i, t')
        \<longrightarrow> ip = ip') \<and>
     (\<forall>h \<in> set held. \<exists>i t. permit_per_ip (snd h) = Some i \<and> am_get (fst h) (per_ip s) = Some (i, t)) \<and>
     (\<forall>i < length (semaphores s). semaphores s ! i + sem_count i held = per_ip_limit s)"

lemma lim_inv_new: "lim_inv [] (new_limiter k g bw)"
  by (simp add: lim_inv_def new_limiter_def sem_count_def)

lemma lim_inv_cong:
  "per_ip s' = per_ip s \<Longrightarrow> semaphores s' = semaphores s \<Longrightarrow> per_ip_limit s' = per_ip_limit s \<Longrightarrow>
     lim_inv held s' = lim_inv held s"
  by (simp add: lim_inv_def)

lemma sem_count_fresh:
  assumes "lim_inv held s" "length (semaphores s) \<le> i"
  shows "sem_count i held = 0"
proof -
  have "permit_per_ip (snd h) \<noteq> Some i" if "h \<in> set held" for h
    using assms that unfolding lim_inv_def by (metis leD option.inject)
  then show ?thesis by (simp add: sem_count_def)
qed

text \<open>The permits of an address are those of its semaphore.\<close>

lemma sem_count_ip:
  assumes "lim_inv held s" "am_get ip (per_ip s) = Some (i, t)"
  shows "sem_count i held = ip_count ip held"
proof -
  have "permit_per_ip (snd h) = Some i \<longleftrightarrow> fst h = ip" if h: "h \<in> set held" for h
  proof -
    obtain j u where "permit_per_ip (snd h) = Some j" "am_get (fst h) (per_ip s) = Some (j, u)"
      using assms(1) h unfolding lim_inv_def by blast
    then show ?thesis using assms unfolding lim_inv_def
      by (metis option.inject prod.inject)
  qed
  then have "filter (\<lambda>h. permit_per_ip (snd h) = Some i) held = filter (\<lambda>h. fst h = ip) held"
    by (intro filter_cong) auto
  then show ?thesis by (simp add: sem_count_def ip_count_def)
qed

lemma ip_count_none:
  assumes "lim_inv held s" "am_get ip (per_ip s) = None"
  shows "ip_count ip held = 0"
proof -
  have "fst h \<noteq> ip" if "h \<in> set held" for h using assms that unfolding lim_inv_def by force
  then show ?thesis by (simp add: ip_count_def)
qed

lemma lim_inv_touch:
  assumes inv: "lim_inv held s" and t: "touch_semaphore ip now s = (i, s2)"
  shows "lim_inv held s2 \<and> am_get ip (per_ip s2) = Some (i, now) \<and> i < length (semaphores s2)"
proof (cases "am_get ip (per_ip s)")
  case None
  have s2: "i = length (semaphores s)" "per_ip s2 = am_insert ip (i, now) (per_ip s)"
    "semaphores s2 = semaphores s @ [per_ip_limit s]" "per_ip_limit s2 = per_ip_limit s"
    using t None by (auto simp: touch_semaphore_def Let_def)
  have old: "j < length (semaphores s)" if "am_get v (per_ip s) = Some (j, u)" for v j u
    using inv that unfolding lim_inv_def by blast
  have held: "fst h \<noteq> ip" if "h \<in> set held" for h
    using inv None that unfolding lim_inv_def by force
  have "sem_count i held = 0" using sem_count_fresh [OF inv] s2(1) by simp
  then show ?thesis using inv s2 old held
    unfolding lim_inv_def by (auto simp: nth_append less_Suc_eq)
next
  case (Some e)
  obtain j u where e: "e = (j, u)" by (cases e)
  have s2: "i = j" "per_ip s2 = am_insert ip (i, now) (per_ip s)"
    "semaphores s2 = semaphores s" "per_ip_limit s2 = per_ip_limit s"
    using t Some e by (auto simp: touch_semaphore_def)
  show ?thesis using inv s2 Some e unfolding lim_inv_def
    by (auto split: if_splits)
qed

text \<open>What \<open>acquire\<close> decides, in terms of the permits that are out.\<close>

lemma acquire_decides:
  assumes inv: "lim_inv held s" and lim: "0 < per_ip_limit s"
    and a: "acquire ip now clock s = (r, s')"
  shows "(r \<noteq> None \<longleftrightarrow> 0 < global_free s \<and> ip_count ip held < per_ip_limit s)
     \<and> lim_inv (held @ (case r of None \<Rightarrow> [] | Some p \<Rightarrow> [(ip, p)])) s'
     \<and> per_ip_limit s' = per_ip_limit s"
proof (cases "global_free s = 0")
  case True
  then show ?thesis using a inv by (simp add: acquire_def)
next
  case False
  let ?s1 = "s\<lparr>global_free := global_free s - 1\<rparr>"
  have inv1: "lim_inv held ?s1" using inv by (simp add: lim_inv_def)
  obtain i s2 where t: "touch_semaphore ip now ?s1 = (i, s2)" by fastforce
  have inv2: "lim_inv held s2" and i: "am_get ip (per_ip s2) = Some (i, now)" "i < length (semaphores s2)"
    using lim_inv_touch [OF inv1 t] by auto
  have l2: "per_ip_limit s2 = per_ip_limit s"
    using touch_frame(2) [of ip now ?s1, unfolded t] by simp
  have cnt: "semaphores s2 ! i + ip_count ip held = per_ip_limit s"
    using inv2 i sem_count_ip [OF inv2 i(1)] l2 unfolding lim_inv_def by force
  obtain ok s3 where q: "try_acquire_sem i s2 = (ok, s3)" by fastforce
  show ?thesis
  proof (cases ok)
    case False
    then have "semaphores s2 ! i = 0" "s3 = s2"
      using q by (auto simp: try_acquire_sem_def split: if_splits)
    then have "r = None" "s' = s2\<lparr>global_free := global_free s2 + 1\<rparr>"
      using a t q False \<open>global_free s \<noteq> 0\<close> lim by (auto simp: acquire_def)
    then show ?thesis using cnt inv2 l2 \<open>semaphores s2 ! i = 0\<close> by (simp add: lim_inv_def)
  next
    case True
    then have s3: "s3 = s2\<lparr>semaphores := (semaphores s2)[i := semaphores s2 ! i - 1]\<rparr>"
      and pos: "0 < semaphores s2 ! i"
      using q by (auto simp: try_acquire_sem_def split: if_splits)
    obtain bk s4 where g: "get_or_create_bucket ip now clock s3 = (bk, s4)" by fastforce
    let ?p = "\<lparr>permit_per_ip = Some i, permit_bucket = bk\<rparr>"
    have r: "r = Some ?p" "s' = s4"
      using a t q g True \<open>global_free s \<noteq> 0\<close> lim by (auto simp: acquire_def)
    have "sem_count j (held @ [(ip, ?p)]) = sem_count j held + (if j = i then 1 else 0)" for j
      by (simp add: sem_count_def)
    then have "lim_inv (held @ [(ip, ?p)]) s3"
      using inv2 i pos unfolding lim_inv_def s3 by (auto simp: nth_list_update)
    then have "lim_inv (held @ [(ip, ?p)]) s'"
      using lim_inv_cong [of s4 s3] bucketD [OF g] r by simp
    moreover have "per_ip_limit s' = per_ip_limit s" using bucketD [OF g] r l2 s3 by simp
    ultimately show ?thesis using r cnt pos \<open>global_free s \<noteq> 0\<close> by simp
  qed
qed

lemma lim_inv_release:
  assumes inv: "lim_inv held s" and k: "k < length held"
  shows "lim_inv (drop_nth k held) (release (snd (held ! k)) s)"
proof -
  obtain i t where h: "permit_per_ip (snd (held ! k)) = Some i"
      "am_get (fst (held ! k)) (per_ip s) = Some (i, t)"
    using inv k unfolding lim_inv_def by (meson nth_mem)
  have "sem_count j held = sem_count j (drop_nth k held) + (if j = i then 1 else 0)" for j
    unfolding sem_count_def using filter_drop_nth [OF k] h by simp
  moreover have "semaphores s ! j + sem_count j held = per_ip_limit s"
    if "j < length (semaphores s)" for j using inv that unfolding lim_inv_def by blast
  ultimately have "(semaphores s)[i := semaphores s ! i + 1] ! j + sem_count j (drop_nth k held)
      = per_ip_limit s" if "j < length (semaphores s)" for j
    using that by (cases "j = i") fastforce+
  then show ?thesis using inv h set_drop_nth [of k held]
    unfolding lim_inv_def release_def by auto
qed

abbreviation limiter_run ::
    "(string \<times> nat \<times> u64) pool_op list \<Rightarrow> ip_limiter \<Rightarrow> (string \<times> ip_permit) list \<times> ip_limiter" where
  "limiter_run ops s \<equiv> pool_run acquire_for (\<lambda>(_, p). release p) ops ([], s)"

lemma pool_step_inv:
  assumes "lim_inv held s" "0 < per_ip_limit s"
    and "pool_step acquire_for (\<lambda>(_, p). release p) op (held, s) = (held', s')"
  shows "lim_inv held' s' \<and> per_ip_limit s' = per_ip_limit s"
proof (cases op)
  case (Take_permit a)
  obtain ip now clock where a: "a = (ip, now, clock)" by (cases a)
  obtain r s1 where r: "acquire ip now clock s = (r, s1)" by fastforce
  have "held' = held @ (case r of None \<Rightarrow> [] | Some p \<Rightarrow> [(ip, p)])" "s' = s1"
    using assms(3) Take_permit a r by (auto simp: acquire_for_def split: option.splits)
  then show ?thesis using acquire_decides [OF assms(1,2) r] by simp
next
  case (Give_permit k)
  then show ?thesis
    using assms lim_inv_release [OF assms(1), of k]
    by (auto simp: release_def split: prod.splits if_splits option.splits)
qed

lemma pool_run_inv:
  "lim_inv held s \<Longrightarrow> 0 < per_ip_limit s \<Longrightarrow>
     pool_run acquire_for (\<lambda>(_, p). release p) ops (held, s) = (held', s') \<Longrightarrow>
     lim_inv held' s' \<and> per_ip_limit s' = per_ip_limit s"
proof (induction ops arbitrary: held s)
  case Nil
  then show ?case by (simp add: pool_run_def)
next
  case (Cons op ops)
  obtain h1 s1 where st: "pool_step acquire_for (\<lambda>(_, p). release p) op (held, s) = (h1, s1)"
    by fastforce
  then show ?case
    using Cons.IH [of h1 s1] pool_step_inv [OF Cons.prems(1,2) st] Cons.prems(2,3)
    by (simp add: pool_run_def)
qed

text \<open>A sweep that only drops addresses without permits keeps the accounts right.\<close>

lemma lim_inv_sweep:
  assumes "lim_inv held s" "am_ok (per_ip s)"
    and "\<forall>h \<in> set held. \<forall>i t. am_get (fst h) (per_ip s) = Some (i, t) \<longrightarrow> recently_used now t"
  shows "lim_inv held (sweep_stale_entries_at now s)"
  using assms unfolding lim_inv_def sweep_stale_entries_at_def
  by (auto simp: am_get_filter split: option.splits if_splits) (metis prod.collapse)+

subsection \<open>Properties of the limiters\<close>

text \<open>
  C25. The limiter admits exactly what its configuration says: after any sequence of
  acquisitions and releases by any addresses, a request of an address gets a permit if and
  only if fewer permits than the global limit are out and fewer than the per-address limit
  are held by that address; other addresses do not count against it.
\<close>

theorem limiter_admits_exactly:
  assumes "0 < k" and "limiter_run ops (new_limiter k g bw) = (held, s)"
  shows "fst (acquire ip now clock s) \<noteq> None \<longleftrightarrow>
     length held < (if g = 0 then UNLIMITED else g) \<and> ip_count ip held < k"
proof -
  have "length held + global_free s = (if g = 0 then UNLIMITED else g)"
    using ip_pool.run_conserves [OF assms(2)] by (simp add: new_limiter_def)
  moreover have "lim_inv held s" "per_ip_limit s = k"
    using pool_run_inv [OF lim_inv_new _ assms(2)] assms(1) by (simp_all add: new_limiter_def)
  moreover obtain r s' where a: "acquire ip now clock s = (r, s')" by fastforce
  ultimately show ?thesis using acquire_decides [of held s ip now clock r s'] assms(1)
    by (auto simp del: not_None_eq)
qed

theorem limiter_admits_exactly_witness:
  "let (held, s) = limiter_run [Take_permit (''a'', 0, 0), Take_permit (''b'', 1, 0)] (new_limiter 1 3 0)
   in fst (acquire ''a'' 2 0 s) = None \<and> fst (acquire ''c'' 2 0 s) \<noteq> None"
proof -
  let ?ops = "[Take_permit (''a'', 0, 0), Take_permit (''b'', 1, 0)]"
  obtain held s where run: "limiter_run ?ops (new_limiter 1 3 0) = (held, s)" by fastforce
  then have "length held = 2" "ip_count ''a'' held = 1" "ip_count ''c'' held = 0"
    by (auto simp: pool_run_def new_limiter_def acquire_for_def acquire_def touch_semaphore_def
        try_acquire_sem_def get_or_create_bucket_def ip_count_def Let_def)
  then show ?thesis
    using limiter_admits_exactly [OF _ run, of "''a''" 2 0] limiter_admits_exactly [OF _ run, of "''c''" 2 0]
    unfolding run by simp
qed

text \<open>
  A sweep forgets permits that are still out: when the only permit of an address was taken
  ten minutes ago and is still held, the sweep drops the entry of the address and the next
  request gets a second permit although the limit is one.
\<close>

lemma sweep_forgets_held_permits:
  "let (p, s1) = acquire ip 0 clock (new_limiter 1 0 0);
       s2 = sweep_stale_entries_at MAP_ENTRY_TTL s1
   in p \<noteq> None \<and> fst (acquire ip MAP_ENTRY_TTL clock s1) = None
      \<and> fst (acquire ip MAP_ENTRY_TTL clock s2) \<noteq> None"
  by (simp add: new_limiter_def acquire_def touch_semaphore_def try_acquire_sem_def UNLIMITED_def
      get_or_create_bucket_def sweep_stale_entries_at_def recently_used_def Let_def)

text \<open>At most \<open>max_workers\<close> download workers hold a permit.\<close>

lemma workers_bounded:
  assumes "0 < n"
    and "pool_run (\<lambda>_ :: unit. worker_try_acquire) (\<lambda>_. worker_release) ops ([], new_worker_limiter n) = (held, w)"
  shows "length held \<le> n"
  using worker_pool.never_over [OF assms(2)] assms(1) by (simp add: new_worker_limiter_def)

end
