(* ===== verification/Config_Parse.thy ===== *)
theory Config_Parse
  imports Rust_Str
begin

text \<open>
  The value parsers of \<open>src/src/config.rs\<close>: human-readable byte counts, the URL of an
  upstream proxy, and the mapping of a fake host to a real base URL.
\<close>

datatype config_error =
    Empty_string
  | Invalid_number string
  | Unknown_suffix string
  | Value_too_large nat nat
  | Bad_proxy_scheme
  | Invalid_proxy_port
  | Empty_proxy_host
  | Bad_url_map string
  | Empty_fake_host
  | Bad_base_scheme string
  | Cli_error string
  | Config_unreadable string
  | Config_unparsable string

subsection \<open>Byte counts\<close>

definition unit_multiplier :: "string \<Rightarrow> nat option" where
  "unit_multiplier sfx =
     map_of [(''kb'', 1000), (''mb'', 1000 * 1000), (''gb'', 1000 * 1000 * 1000),
             (''tb'', 1000 * 1000 * 1000 * 1000), (''pb'', 1000 * 1000 * 1000 * 1000 * 1000),
             (''k'', 1024), (''m'', 1024 * 1024), (''g'', 1024 * 1024 * 1024),
             (''t'', 1024 * 1024 * 1024 * 1024), (''p'', 1024 * 1024 * 1024 * 1024 * 1024)]
       (to_ascii_lowercase sfx)"

definition parse_bytes :: "string \<Rightarrow> config_error + nat" where
  "parse_bytes s0 =
     (let s = trim s0 in
      if s = [] then Inl Empty_string
      else
        let (num_part, suffix) =
          (case find_char (\<lambda>c. \<not> is_digit c) s of
             Some pos \<Rightarrow> (take pos s, trim (drop pos s))
           | None \<Rightarrow> (s, []))
        in case parse_uint u64_max num_part of
             None \<Rightarrow> Inl (Invalid_number num_part)
           | Some base \<Rightarrow>
               if suffix = [] then Inr base
               else (case unit_multiplier suffix of
                       None \<Rightarrow> Inl (Unknown_suffix suffix)
                     | Some m \<Rightarrow> if base * m \<le> u64_max then Inr (base * m)
                                 else Inl (Value_too_large base m)))"

text \<open>\<open>serde_bytes_option\<close>: a YAML number, or a string for \<open>parse_bytes\<close>.\<close>

datatype raw_bytes = Num nat | Str string

definition deserialize_bytes :: "raw_bytes option \<Rightarrow> config_error + nat option" where
  "deserialize_bytes r =
     (case r of
        Some (Num n) \<Rightarrow> Inr (Some n)
      | Some (Str s) \<Rightarrow> (case parse_bytes s of Inl e \<Rightarrow> Inl e | Inr n \<Rightarrow> Inr (Some n))
      | None \<Rightarrow> Inr None)"

subsection \<open>The upstream proxy\<close>

datatype proxy_type = Http | Https | Socks5

record upstream_proxy =
  proxy_type :: proxy_type
  host :: string
  port :: nat
  username :: "string option"
  password :: "string option"

definition proxy_scheme :: "string \<Rightarrow> config_error + proxy_type \<times> string" where
  "proxy_scheme input =
     (case strip_prefix ''socks5://'' input of
        Some s \<Rightarrow> Inr (Socks5, s)
      | None \<Rightarrow> (case strip_prefix ''http://'' input of
          Some s \<Rightarrow> Inr (Http, s)
        | None \<Rightarrow> (case strip_prefix ''https://'' input of
            Some s \<Rightarrow> Inr (Https, s)
          | None \<Rightarrow> Inl Bad_proxy_scheme)))"

definition parse_proxy :: "string \<Rightarrow> config_error + upstream_proxy" where
  "parse_proxy input =
     bind_res (proxy_scheme input)
       (\<lambda>(ptype, rest).
          let (userinfo, hostport) =
            (case rfind_char ((=) (CHR ''@'')) rest of
               Some idx \<Rightarrow> (Some (take idx rest), drop (idx + 1) rest)
             | None \<Rightarrow> (None, rest));
            (user, pass) =
            (case userinfo of
               Some ui \<Rightarrow> (case split_once (CHR '':'') ui of
                   Some (u, p) \<Rightarrow> (Some u, Some p)
                 | None \<Rightarrow> (Some ui, None))
             | None \<Rightarrow> (None, None))
          in bind_res
            (case rsplit_once (CHR '':'') hostport of
               Some (h, p) \<Rightarrow> (case parse_uint u16_max p of
                   Some n \<Rightarrow> Inr (h, n)
                 | None \<Rightarrow> Inl Invalid_proxy_port)
             | None \<Rightarrow> Inr (hostport, 1080))
            (\<lambda>(h, n).
               if h = [] then Inl Empty_proxy_host
               else Inr \<lparr>proxy_type = ptype, host = h, port = n, username = user, password = pass\<rparr>))"

subsection \<open>URL mappings\<close>

record url_map =
  fake_host :: string
  real_base :: string

definition parse_url_map :: "string \<Rightarrow> config_error + url_map" where
  "parse_url_map input =
     (case split_once (CHR ''='') input of
        None \<Rightarrow> Inl (Bad_url_map input)
      | Some (fake, real) \<Rightarrow>
          let f = trim fake; r = trim real in
          if f = [] then Inl Empty_fake_host
          else if \<not> starts_with r ''http://'' \<and> \<not> starts_with r ''https://''
            \<and> \<not> starts_with r ''ftp://'' \<and> \<not> starts_with r ''ftps://''
          then Inl (Bad_base_scheme r)
          else Inr \<lparr>fake_host = f, real_base = trim_end_char (CHR ''/'') r\<rparr>)"

subsection \<open>Facts on byte counts\<close>

lemma find_char_append_first:
  "\<forall>c \<in> set a. \<not> P c \<Longrightarrow> b \<noteq> [] \<Longrightarrow> P (hd b) \<Longrightarrow> find_char P (a @ b) = Some (length a)"
  by (induction a) (cases b, auto)

lemma trim_blanks: "trim (replicate k (CHR '' '') @ s) = trim s"
proof -
  have "is_ws (CHR '' '')" by (simp add: is_ws_def)
  then have "dropWhile is_ws (replicate k (CHR '' '') @ s) = dropWhile is_ws s"
    by (induction k) auto
  then show ?thesis by (simp add: trim_def trim_start_def)
qed

lemma parse_bytes_unit:
  assumes n: "n \<le> u64_max"
    and so: "sfx \<noteq> []" "\<not> is_ws (hd sfx)" "\<not> is_ws (last sfx)" "\<not> is_digit (hd sfx)"
    and m: "unit_multiplier sfx = Some m"
  shows "parse_bytes (dec n @ replicate k (CHR '' '') @ sfx) =
     (if n * m \<le> u64_max then Inr (n * m) else Inl (Value_too_large n m))"
proof -
  let ?t = "replicate k (CHR '' '') @ sfx"
  let ?s = "dec n @ ?t"
  have "last ?s = last sfx" using so by simp
  moreover have "\<not> is_ws (hd ?s)" using dec_digits [of "hd (dec n)" n] digit_not_ws by simp
  ultimately have t: "trim ?s = ?s" using so by (intro trim_id) auto
  have "\<not> is_digit (hd ?t)" using so by (cases k) (auto simp: is_digit_def)
  then have f: "find_char (\<lambda>c. \<not> is_digit c) ?s = Some (length (dec n))"
    using so dec_digits by (intro find_char_append_first) auto
  have "trim ?t = sfx" using so by (simp add: trim_blanks trim_id)
  then show ?thesis
    unfolding parse_bytes_def Let_def t f using parse_uint_dec [OF n] m so by simp
qed

lemma parse_bytes_bounded: "parse_bytes s = Inr n \<Longrightarrow> n \<le> u64_max"
  by (auto simp: parse_bytes_def Let_def split: if_splits option.splits prod.splits
      dest!: parse_uint_le)

subsection \<open>Properties of the parsers\<close>

text \<open>
  Byte counts mean what the documentation says: a number that fits 64 bits, any blanks and
  a unit letter is the number times 1024 to the power of the unit, with a following B times
  1000 to that power, in lower or upper case; a product that does not fit 64 bits is an error
  and never wraps.
\<close>

lemma parse_bytes_units:
  assumes "n \<le> u64_max" and "i < 5"
  shows "\<forall>unit \<in> {''kmgtp'' ! i, ''KMGTP'' ! i}.
     parse_bytes (dec n @ replicate k (CHR '' '') @ [unit]) =
       (if n * 1024 ^ (i + 1) \<le> u64_max then Inr (n * 1024 ^ (i + 1))
        else Inl (Value_too_large n (1024 ^ (i + 1)))) \<and>
     (\<forall>b \<in> {CHR ''b'', CHR ''B''}.
     parse_bytes (dec n @ replicate k (CHR '' '') @ [unit, b]) =
       (if n * 1000 ^ (i + 1) \<le> u64_max then Inr (n * 1000 ^ (i + 1))
        else Inl (Value_too_large n (1000 ^ (i + 1)))))"
proof -
  have i: "i = 0 \<or> i = 1 \<or> i = 2 \<or> i = 3 \<or> i = 4" using assms(2) by auto
  have letter: "\<not> is_ws c \<and> \<not> is_digit c"
    if "c \<in> {''kmgtp'' ! i, ''KMGTP'' ! i, CHR ''b'', CHR ''B''}" for c
    using i that by (elim disjE) (auto simp: is_ws_def is_digit_def)
  have low: "to_ascii_lowercase [u] = [''kmgtp'' ! i]" if "u \<in> {''kmgtp'' ! i, ''KMGTP'' ! i}" for u
    using i that by (elim disjE) (auto simp: to_ascii_lowercase_def char_of_eq_iff)
  have lowb: "to_ascii_lowercase [b] = [CHR ''b'']" if "b \<in> {CHR ''b'', CHR ''B''}" for b
    using that by (auto simp: to_ascii_lowercase_def char_of_eq_iff)
  have "unit_multiplier [u] = Some (1024 ^ (i + 1))"
    if "to_ascii_lowercase [u] = [''kmgtp'' ! i]" for u
    unfolding unit_multiplier_def that using i by (elim disjE) simp_all
  then have one: "unit_multiplier [u] = Some (1024 ^ (i + 1))"
    if "u \<in> {''kmgtp'' ! i, ''KMGTP'' ! i}" for u using low that by blast
  have "unit_multiplier [u, b] = Some (1000 ^ (i + 1))"
    if "to_ascii_lowercase [u, b] = [''kmgtp'' ! i, CHR ''b'']" for u b
    unfolding unit_multiplier_def that using i by (elim disjE) simp_all
  moreover have "to_ascii_lowercase [u, b] = to_ascii_lowercase [u] @ to_ascii_lowercase [b]" for u b
    by (simp add: to_ascii_lowercase_def)
  ultimately have two: "unit_multiplier [u, b] = Some (1000 ^ (i + 1))"
    if "u \<in> {''kmgtp'' ! i, ''KMGTP'' ! i}" "b \<in> {CHR ''b'', CHR ''B''}" for u b
    using low [OF that(1)] lowb [OF that(2)] by simp
  show ?thesis
  proof (intro ballI conjI)
    fix u assume u: "u \<in> {''kmgtp'' ! i, ''KMGTP'' ! i}"
    then have lu: "\<not> is_ws u" "\<not> is_digit u" using letter by blast+
    show "parse_bytes (dec n @ replicate k (CHR '' '') @ [u]) =
        (if n * 1024 ^ (i + 1) \<le> u64_max then Inr (n * 1024 ^ (i + 1))
         else Inl (Value_too_large n (1024 ^ (i + 1))))"
      by (rule parse_bytes_unit [OF assms(1) _ _ _ _ one [OF u]]) (simp_all add: lu)
    fix b assume b: "b \<in> {CHR ''b'', CHR ''B''}"
    then have lb: "\<not> is_ws b" using letter by blast
    show "parse_bytes (dec n @ replicate k (CHR '' '') @ [u, b]) =
        (if n * 1000 ^ (i + 1) \<le> u64_max then Inr (n * 1000 ^ (i + 1))
         else Inl (Value_too_large n (1000 ^ (i + 1))))"
      by (rule parse_bytes_unit [OF assms(1) _ _ _ _ two [OF u b]]) (simp_all add: lu lb)
  qed
qed

lemma parse_bytes_units_witness:
  "parse_bytes ''2 M'' = Inr 2097152"
proof -
  have "dec 2 = ''2''" by (simp add: dec.simps char_of_eq_iff)
  then show ?thesis using parse_bytes_units [of 2 1 1] by simp
qed

lemma rfind_char_append:
  "c \<notin> set b \<Longrightarrow> rfind_char ((=) c) (a @ c # b) = Some (length a)"
proof -
  assume c: "c \<notin> set b"
  have "find_char ((=) c) (rev b @ c # rev a) = Some (length (rev b))"
    by (rule find_char_append_first) (use c in auto)
  then show ?thesis by (simp add: rfind_char_def)
qed

lemma rfind_char_none: "c \<notin> set s \<Longrightarrow> rfind_char ((=) c) s = None"
  by (auto simp: rfind_char_def find_char_None)

fun scheme_prefix :: "proxy_type \<Rightarrow> string" where
  "scheme_prefix Http = ''http://''"
| "scheme_prefix Https = ''https://''"
| "scheme_prefix Socks5 = ''socks5://''"

fun userinfo_prefix :: "string option \<Rightarrow> string option \<Rightarrow> string" where
  "userinfo_prefix None p = []"
| "userinfo_prefix (Some u) None = u @ ''@''"
| "userinfo_prefix (Some u) (Some p) = u @ '':'' @ p @ ''@''"

lemma proxy_scheme_prefix: "proxy_scheme (scheme_prefix t @ r) = Inr (t, r)"
  by (cases t) (simp_all add: proxy_scheme_def)

text \<open>
  The URL of an upstream proxy is read back from its parts for every scheme, with and
  without user name and password; the password may contain colons and at-signs and the host
  may contain colons, because the last at-sign and the last colon separate.
\<close>

lemma parse_proxy_roundtrip:
  assumes "h \<noteq> []" and "CHR ''@'' \<notin> set h" and "n \<le> u16_max"
    and "user = None \<Longrightarrow> pass = None" and "\<And>u. user = Some u \<Longrightarrow> CHR '':'' \<notin> set u"
  shows "parse_proxy (scheme_prefix t @ userinfo_prefix user pass @ h @ '':'' @ dec n) =
     Inr \<lparr>proxy_type = t, host = h, port = n, username = user, password = pass\<rparr>"
proof -
  have dn: "CHR '':'' \<notin> set (dec n)" "CHR ''@'' \<notin> set (dec n)"
    by (rule dec_not_in; simp add: is_digit_def)+
  have at: "CHR ''@'' \<notin> set (h @ '':'' @ dec n)" using assms(2) dn by simp
  have hp: "rsplit_once (CHR '':'') (h @ CHR '':'' # dec n) = Some (h, dec n)"
    using dn by (simp add: rsplit_once_Some)
  consider "user = None" | u where "user = Some u" "pass = None" | u p where "user = Some u" "pass = Some p"
    by (cases user; cases pass) auto
  then show ?thesis
  proof cases
    case 1
    then show ?thesis using assms at hp
      by (simp add: parse_proxy_def proxy_scheme_prefix rfind_char_none parse_uint_dec)
  next
    case (2 u)
    have "rfind_char ((=) (CHR ''@'')) (u @ CHR ''@'' # h @ CHR '':'' # dec n) = Some (length u)"
      using at by (intro rfind_char_append) simp
    moreover have "split_once (CHR '':'') u = None" using assms(5) 2 by (simp add: split_once_None)
    ultimately show ?thesis using 2 assms hp
      by (simp add: parse_proxy_def proxy_scheme_prefix parse_uint_dec)
  next
    case (3 u p)
    have "rfind_char ((=) (CHR ''@'')) ((u @ CHR '':'' # p) @ CHR ''@'' # h @ CHR '':'' # dec n)
        = Some (length (u @ CHR '':'' # p))"
      using at by (intro rfind_char_append) simp
    moreover have "split_once (CHR '':'') (u @ CHR '':'' # p) = Some (u, p)" using assms(5) 3 by simp
    ultimately show ?thesis using 3 assms hp
      by (simp add: parse_proxy_def proxy_scheme_prefix parse_uint_dec)
  qed
qed

lemma parse_proxy_roundtrip_witness:
  "parse_proxy ''http://me:a@b@proxy:3128'' =
     Inr \<lparr>proxy_type = Http, host = ''proxy'', port = 3128, username = Some ''me'', password = Some ''a@b''\<rparr>"
proof -
  have "dec 3128 = ''3128''" by (simp add: dec.simps char_of_eq_iff)
  then show ?thesis
    using parse_proxy_roundtrip [of "''proxy''" 3128 "Some ''me''" "Some ''a@b''" Http] by simp
qed

text \<open>What a mapping that parses looks like: no trailing slash, and nothing was lost but slashes.\<close>

lemma parse_url_map_shape:
  assumes "parse_url_map input = Inr m"
  obtains f r where "input = f @ CHR ''='' # r" "fake_host m = trim f" "trim f \<noteq> []"
    "real_base m = trim_end_char (CHR ''/'') (trim r)"
    "real_base m = [] \<or> last (real_base m) \<noteq> CHR ''/''"
proof -
  obtain f r where fr: "split_once (CHR ''='') input = Some (f, r)"
    using assms by (cases "split_once (CHR ''='') input") (auto simp: parse_url_map_def)
  then have "trim f \<noteq> []" "m = \<lparr>fake_host = trim f, real_base = trim_end_char (CHR ''/'') (trim r)\<rparr>"
    using assms by (simp_all add: parse_url_map_def Let_def split: if_splits)
  then show thesis using that fr trim_end_char_no [of "CHR ''/''" "trim r"]
    by (simp add: split_once_Some)
qed

text \<open>The check of the scheme comes before the slashes are cut, so a base without a host passes.\<close>

lemma parse_url_map_bare_scheme:
  "parse_url_map ''apt=http://'' = Inr \<lparr>fake_host = ''apt'', real_base = ''http:''\<rparr>"
  by code_simp

end
