(* ===== verification/Config_Load.thy ===== *)
theory Config_Load
  imports Config_Parse
begin

text \<open>
  Where \<open>src/src/config.rs\<close> gets its values from: YAML file, environment and command line.
  What \<open>serde_yaml\<close> makes of a file is a function \<open>yaml_of\<close>; the options \<open>clap\<close> finds on
  the command line are a function from the long name to the values given. The rest of
  what \<open>clap\<close> does is read off the attributes of \<open>Cli\<close>: an option that is not given takes
  its environment variable, else its default, and the text goes through its value parser.
\<close>

type_synonym env = "string \<Rightarrow> string option"
type_synonym cli_options = "string \<Rightarrow> string list"

record os_view =
  os_exists :: "string \<Rightarrow> bool"
  os_read :: "string \<Rightarrow> string option"
  os_config_dir :: "string option"

record yaml_config =
  y_port :: "nat option"
  y_bind :: "string option"
  y_connections :: "nat option"
  y_cache_dir :: "string option"
  y_max_cache_size :: "nat option"
  y_max_cache_age :: "nat option"
  y_url_map :: "string list option"
  y_upstream_proxy :: "string option"
  y_no_proxy :: "string list option"
  y_max_connections_per_ip :: "nat option"
  y_max_total_connections :: "nat option"
  y_max_workers :: "nat option"
  y_upstream_bandwidth :: "nat option"
  y_per_ip_bandwidth :: "nat option"
  y_coalesce_follower_timeout_secs :: "nat option"
  y_coalesce_max_retries :: "nat option"
  y_coalesce_etag_max_retries :: "nat option"

subsection \<open>From YAML to the environment\<close>

definition set_env :: "string \<Rightarrow> string option \<Rightarrow> env \<Rightarrow> env" where
  "set_env key val e =
     (case val of
        Some v \<Rightarrow> (let var = ''PROXY_'' @ key in if e var = None then e(var \<mapsto> v) else e)
      | None \<Rightarrow> e)"

definition joined :: "string list option \<Rightarrow> string option" where
  "joined xs = (case xs of Some l \<Rightarrow> if l \<noteq> [] then Some (join '','' l) else None | None \<Rightarrow> None)"

definition yaml_settings :: "yaml_config \<Rightarrow> (string \<times> string option) list" where
  "yaml_settings y =
     [(''PORT'', map_option dec (y_port y)),
      (''BIND'', y_bind y),
      (''CONNECTIONS'', map_option dec (y_connections y)),
      (''CACHE_DIR'', y_cache_dir y),
      (''MAX_CACHE_SIZE'', map_option dec (y_max_cache_size y)),
      (''MAX_CACHE_AGE'', map_option dec (y_max_cache_age y)),
      (''URL_MAP'', joined (y_url_map y)),
      (''UPSTREAM_PROXY'', y_upstream_proxy y),
      (''NO_PROXY'', joined (y_no_proxy y)),
      (''MAX_CONNECTIONS_PER_IP'', map_option dec (y_max_connections_per_ip y)),
      (''MAX_TOTAL_CONNECTIONS'', map_option dec (y_max_total_connections y)),
      (''MAX_WORKERS'', map_option dec (y_max_workers y)),
      (''UPSTREAM_BANDWIDTH'', map_option dec (y_upstream_bandwidth y)),
      (''PER_IP_BANDWIDTH'', map_option dec (y_per_ip_bandwidth y)),
      (''COALESCE_FOLLOWER_TIMEOUT_SECS'', map_option dec (y_coalesce_follower_timeout_secs y)),
      (''COALESCE_MAX_RETRIES'', map_option dec (y_coalesce_max_retries y)),
      (''COALESCE_ETAG_MAX_RETRIES'', map_option dec (y_coalesce_etag_max_retries y))]"

definition apply_env :: "yaml_config \<Rightarrow> env \<Rightarrow> env" where
  "apply_env y e = fold (\<lambda>(key, val). set_env key val) (yaml_settings y) e"

subsection \<open>The command line\<close>

record cli =
  cli_port :: nat
  cli_bind :: string
  cli_connections :: nat
  cli_cache_dir :: string
  cli_max_cache_size :: nat
  cli_max_cache_age :: nat
  cli_url_map :: "string list"
  cli_upstream_proxy :: "string option"
  cli_no_proxy :: "string list"
  cli_max_connections_per_ip :: nat
  cli_max_total_connections :: nat
  cli_max_workers :: nat
  cli_upstream_bandwidth :: nat
  cli_per_ip_bandwidth :: nat
  cli_coalesce_follower_timeout_secs :: nat
  cli_coalesce_max_retries :: nat
  cli_coalesce_etag_max_retries :: nat

text \<open>An option that takes one value: from the command line, else its variable.\<close>

definition arg_value :: "cli_options \<Rightarrow> env \<Rightarrow> string \<Rightarrow> string \<Rightarrow> config_error + string option" where
  "arg_value opts e long var =
     (case opts long of [] \<Rightarrow> Inr (e var) | [v] \<Rightarrow> Inr (Some v) | _ \<Rightarrow> Inl (Cli_error long))"

definition parsed_arg ::
    "(string \<Rightarrow> 'a option) \<Rightarrow> 'a \<Rightarrow> cli_options \<Rightarrow> env \<Rightarrow> string \<Rightarrow> string \<Rightarrow> config_error + 'a" where
  "parsed_arg p dflt opts e long var =
     bind_res (arg_value opts e long var)
       (\<lambda>v. case v of None \<Rightarrow> Inr dflt | Some s \<Rightarrow> ok_or (p s) (Cli_error long))"

definition list_arg :: "cli_options \<Rightarrow> env \<Rightarrow> string \<Rightarrow> string \<Rightarrow> string list" where
  "list_arg opts e long var =
     (case opts long of
        [] \<Rightarrow> (case e var of None \<Rightarrow> [] | Some s \<Rightarrow> split_on (CHR '','') s)
      | vs \<Rightarrow> concat (map (split_on (CHR '','')) vs))"

definition parse_bytes_value :: "string \<Rightarrow> nat option" where
  "parse_bytes_value s = (case parse_bytes s of Inl _ \<Rightarrow> None | Inr n \<Rightarrow> Some n)"

definition parse_path :: "string \<Rightarrow> string option" where
  "parse_path s = (if s = [] then None else Some s)"

definition cli_parse :: "cli_options \<Rightarrow> env \<Rightarrow> config_error + cli" where
  "cli_parse opts e =
     bind_res (parsed_arg (parse_uint u16_max) 8080 opts e ''port'' ''PROXY_PORT'') (\<lambda>p.
     bind_res (parsed_arg Some ''127.0.0.1'' opts e ''bind'' ''PROXY_BIND'') (\<lambda>b.
     bind_res (parsed_arg (parse_uint u64_max) 4 opts e ''connections'' ''PROXY_CONNECTIONS'') (\<lambda>c.
     bind_res (parsed_arg parse_path ''/var/cache/apt-blitz'' opts e ''cache-dir'' ''PROXY_CACHE_DIR'') (\<lambda>d.
     bind_res (parsed_arg parse_bytes_value 1073741824 opts e ''max-cache-size'' ''PROXY_MAX_CACHE_SIZE'') (\<lambda>sz.
     bind_res (parsed_arg (parse_uint u64_max) 86400 opts e ''max-cache-age'' ''PROXY_MAX_CACHE_AGE'') (\<lambda>age.
     bind_res (arg_value opts e ''upstream-proxy'' ''PROXY_UPSTREAM_PROXY'') (\<lambda>up.
     bind_res (parsed_arg (parse_uint u64_max) 0 opts e ''max-connections-per-ip'' ''PROXY_MAX_CONNECTIONS_PER_IP'') (\<lambda>ip.
     bind_res (parsed_arg (parse_uint u64_max) 0 opts e ''max-total-connections'' ''PROXY_MAX_TOTAL_CONNECTIONS'') (\<lambda>tot.
     bind_res (parsed_arg (parse_uint u64_max) 0 opts e ''max-workers'' ''PROXY_MAX_WORKERS'') (\<lambda>w.
     bind_res (parsed_arg parse_bytes_value 0 opts e ''upstream-bandwidth'' ''PROXY_UPSTREAM_BANDWIDTH'') (\<lambda>ub.
     bind_res (parsed_arg parse_bytes_value 0 opts e ''per-ip-bandwidth'' ''PROXY_PER_IP_BANDWIDTH'') (\<lambda>ib.
     bind_res (parsed_arg (parse_uint u64_max) 50 opts e ''coalesce-follower-timeout-secs''
         ''PROXY_COALESCE_FOLLOWER_TIMEOUT_SECS'') (\<lambda>ft.
     bind_res (parsed_arg (parse_uint u32_max) 3 opts e ''coalesce-max-retries'' ''PROXY_COALESCE_MAX_RETRIES'') (\<lambda>mr.
     bind_res (parsed_arg (parse_uint u32_max) 8 opts e ''coalesce-etag-max-retries''
         ''PROXY_COALESCE_ETAG_MAX_RETRIES'') (\<lambda>er.
     Inr \<lparr>cli_port = p, cli_bind = b, cli_connections = c, cli_cache_dir = d,
          cli_max_cache_size = sz, cli_max_cache_age = age,
          cli_url_map = list_arg opts e ''url-map'' ''PROXY_URL_MAP'',
          cli_upstream_proxy = up,
          cli_no_proxy = list_arg opts e ''no-proxy'' ''PROXY_NO_PROXY'',
          cli_max_connections_per_ip = ip, cli_max_total_connections = tot, cli_max_workers = w,
          cli_upstream_bandwidth = ub, cli_per_ip_bandwidth = ib,
          cli_coalesce_follower_timeout_secs = ft, cli_coalesce_max_retries = mr,
          cli_coalesce_etag_max_retries = er\<rparr>)))))))))))))))"

subsection \<open>The configuration\<close>

record config =
  cfg_port :: nat
  cfg_bind :: string
  cfg_connections :: nat
  cfg_cache_dir :: string
  cfg_max_cache_size :: nat
  cfg_max_cache_age :: nat
  cfg_url_maps :: "url_map list"
  cfg_upstream_proxy :: "upstream_proxy option"
  cfg_no_proxy :: "string list"
  cfg_max_connections_per_ip :: nat
  cfg_max_total_connections :: nat
  cfg_max_workers :: nat
  cfg_upstream_bandwidth :: nat
  cfg_per_ip_bandwidth :: nat
  cfg_coalesce_follower_timeout_secs :: nat
  cfg_coalesce_max_retries :: nat
  cfg_coalesce_etag_max_retries :: nat

definition config_of_cli :: "cli \<Rightarrow> config_error + config" where
  "config_of_cli c =
     bind_res (collect_res (map parse_url_map (cli_url_map c))) (\<lambda>maps.
     bind_res (case cli_upstream_proxy c of
                 None \<Rightarrow> Inr None
               | Some s \<Rightarrow> (case parse_proxy s of Inl e \<Rightarrow> Inl e | Inr p \<Rightarrow> Inr (Some p))) (\<lambda>up.
     Inr \<lparr>cfg_port = cli_port c, cfg_bind = cli_bind c, cfg_connections = cli_connections c,
          cfg_cache_dir = cli_cache_dir c, cfg_max_cache_size = cli_max_cache_size c,
          cfg_max_cache_age = cli_max_cache_age c, cfg_url_maps = maps,
          cfg_upstream_proxy = up, cfg_no_proxy = cli_no_proxy c,
          cfg_max_connections_per_ip = cli_max_connections_per_ip c,
          cfg_max_total_connections = cli_max_total_connections c,
          cfg_max_workers = cli_max_workers c,
          cfg_upstream_bandwidth = cli_upstream_bandwidth c,
          cfg_per_ip_bandwidth = cli_per_ip_bandwidth c,
          cfg_coalesce_follower_timeout_secs = cli_coalesce_follower_timeout_secs c,
          cfg_coalesce_max_retries = cli_coalesce_max_retries c,
          cfg_coalesce_etag_max_retries = cli_coalesce_etag_max_retries c\<rparr>))"

definition config_candidates :: "string option \<Rightarrow> string list" where
  "config_candidates cdir =
     [''apt-blitz.yaml'', ''apt-blitz.yml'']
     @ (case cdir of
          Some home \<Rightarrow> [home @ ''/apt-blitz/config.yaml'', home @ ''/apt-blitz/config.yml'']
        | None \<Rightarrow> [])
     @ [''/etc/apt-blitz/config.yaml'', ''/etc/apt-blitz/config.yml'']"

definition discover :: "os_view \<Rightarrow> string option" where
  "discover os = List.find (os_exists os) (config_candidates (os_config_dir os))"

definition explicit_config :: "string list \<Rightarrow> string option" where
  "explicit_config argv =
     (case List.map_filter (strip_prefix ''--config-file='') argv of [] \<Rightarrow> None | p # _ \<Rightarrow> Some p)"

definition load_env ::
    "(string \<Rightarrow> yaml_config option) \<Rightarrow> os_view \<Rightarrow> string list \<Rightarrow> env \<Rightarrow> config_error + env" where
  "load_env yaml_of os argv e =
     (case (case explicit_config argv of Some p \<Rightarrow> Some p | None \<Rightarrow> discover os) of
        None \<Rightarrow> Inr e
      | Some path \<Rightarrow> (case os_read os path of
            None \<Rightarrow> Inl (Config_unreadable path)
          | Some content \<Rightarrow> (case yaml_of content of
                None \<Rightarrow> Inl (Config_unparsable path)
              | Some y \<Rightarrow> Inr (apply_env y e))))"

definition load_config ::
    "(string \<Rightarrow> yaml_config option) \<Rightarrow> os_view \<Rightarrow> string list \<Rightarrow> cli_options \<Rightarrow> env \<Rightarrow> config_error + config"
where
  "load_config yaml_of os argv opts e =
     bind_res (load_env yaml_of os argv e)
       (\<lambda>e'. bind_res (cli_parse opts e') config_of_cli)"

definition discovered_yaml :: "(string \<Rightarrow> yaml_config option) \<Rightarrow> os_view \<Rightarrow> yaml_config option" where
  "discovered_yaml yaml_of os =
     (case discover os of
        None \<Rightarrow> None
      | Some path \<Rightarrow> (case os_read os path of None \<Rightarrow> None | Some content \<Rightarrow> yaml_of content))"

definition cache_dir_only :: "(string \<Rightarrow> yaml_config option) \<Rightarrow> os_view \<Rightarrow> env \<Rightarrow> string" where
  "cache_dir_only yaml_of os e =
     (case (case discovered_yaml yaml_of os of None \<Rightarrow> None | Some y \<Rightarrow> y_cache_dir y) of
        Some dir \<Rightarrow> dir
      | None \<Rightarrow> (case e ''PROXY_CACHE_DIR'' of
            Some v \<Rightarrow> if v \<noteq> [] then v else ''/var/cache/apt-blitz''
          | None \<Rightarrow> ''/var/cache/apt-blitz''))"

definition max_cache_age_only :: "(string \<Rightarrow> yaml_config option) \<Rightarrow> os_view \<Rightarrow> env \<Rightarrow> nat" where
  "max_cache_age_only yaml_of os e =
     (case (case e ''PROXY_MAX_CACHE_AGE'' of None \<Rightarrow> None | Some v \<Rightarrow> parse_uint u64_max (trim v)) of
        Some n \<Rightarrow> n
      | None \<Rightarrow> (case (case discovered_yaml yaml_of os of None \<Rightarrow> None | Some y \<Rightarrow> y_max_cache_age y) of
            Some age \<Rightarrow> age
          | None \<Rightarrow> 86400))"

definition load_url_maps ::
    "(string \<Rightarrow> yaml_config option) \<Rightarrow> os_view \<Rightarrow> env \<Rightarrow> config_error + url_map list" where
  "load_url_maps yaml_of os e =
     (case (case e ''PROXY_URL_MAP'' of None \<Rightarrow> None | Some v \<Rightarrow> if trim v \<noteq> [] then Some v else None) of
        Some v \<Rightarrow>
          collect_res (map parse_url_map (filter (\<lambda>s. s \<noteq> []) (map trim (split_on (CHR '','') v))))
      | None \<Rightarrow> (case (case discovered_yaml yaml_of os of None \<Rightarrow> None | Some y \<Rightarrow> y_url_map y) of
            Some maps \<Rightarrow> collect_res (map parse_url_map maps)
          | None \<Rightarrow> Inr []))"

text \<open>\<open>Display\<close> of a configuration; it shows no credentials.\<close>

fun show_proxy_type :: "proxy_type \<Rightarrow> string" where
  "show_proxy_type Http = ''Http''"
| "show_proxy_type Https = ''Https''"
| "show_proxy_type Socks5 = ''Socks5''"

definition show_config :: "config \<Rightarrow> string" where
  "show_config c =
     ''Config { port: '' @ dec (cfg_port c) @ '', bind: '' @ cfg_bind c
     @ '', connections: '' @ dec (cfg_connections c) @ '', cache_dir: '' @ cfg_cache_dir c
     @ '', max_cache_size: '' @ dec (cfg_max_cache_size c)
     @ '', max_cache_age: '' @ dec (cfg_max_cache_age c)
     @ '', url_maps: '' @ dec (length (cfg_url_maps c))
     @ '', upstream_proxy: '' @ (case cfg_upstream_proxy c of
          None \<Rightarrow> []
        | Some u \<Rightarrow> show_proxy_type (upstream_proxy.proxy_type u) @ ''://'' @ host u @ '':'' @ dec (port u))
     @ '', no_proxy: '' @ join '','' (cfg_no_proxy c)
     @ '', max_connections_per_ip: '' @ dec (cfg_max_connections_per_ip c)
     @ '', max_total_connections: '' @ dec (cfg_max_total_connections c)
     @ '', max_workers: '' @ dec (cfg_max_workers c)
     @ '', upstream_bandwidth: '' @ dec (cfg_upstream_bandwidth c)
     @ '', per_ip_bandwidth: '' @ dec (cfg_per_ip_bandwidth c)
     @ '', coalesce_follower_timeout_secs: '' @ dec (cfg_coalesce_follower_timeout_secs c)
     @ '', coalesce_max_retries: '' @ dec (cfg_coalesce_max_retries c)
     @ '', coalesce_etag_max_retries: '' @ dec (cfg_coalesce_etag_max_retries c) @ '' }''"

text \<open>Two configurations that differ in the credentials of the proxy look the same in the log.\<close>

lemma show_config_hides_credentials:
  "cfg_upstream_proxy c = Some u \<Longrightarrow>
     show_config (c\<lparr>cfg_upstream_proxy := Some (u\<lparr>username := n, password := p\<rparr>)\<rparr>) = show_config c"
  by (simp add: show_config_def)

subsection \<open>Facts on the sources of a value\<close>

text \<open>The value a list of settings gives a variable: the first one that has a value.\<close>

fun first_setting :: "(string \<times> string option) list \<Rightarrow> string \<Rightarrow> string option" where
  "first_setting [] var = None"
| "first_setting ((key, val) # ss) var =
     (if ''PROXY_'' @ key = var \<and> val \<noteq> None then val else first_setting ss var)"

lemma set_env_value:
  "set_env key val e var =
     (case e var of Some v \<Rightarrow> Some v | None \<Rightarrow> if ''PROXY_'' @ key = var then val else None)"
  by (auto simp: set_env_def Let_def simp del: append.simps split: option.splits)

lemma fold_set_env:
  "fold (\<lambda>(key, val). set_env key val) ss e var =
     (case e var of Some v \<Rightarrow> Some v | None \<Rightarrow> first_setting ss var)"
proof (induction ss arbitrary: e)
  case Nil
  then show ?case by (simp split: option.splits)
next
  case (Cons kv ss)
  obtain key val where kv: "kv = (key, val)" by (cases kv)
  show ?case unfolding kv
    using Cons.IH [of "set_env key val e"]
    by (simp add: set_env_value del: append.simps split: option.splits)
qed

lemma apply_env_value:
  "apply_env y e var = (case e var of Some v \<Rightarrow> Some v | None \<Rightarrow> first_setting (yaml_settings y) var)"
  by (simp add: apply_env_def fold_set_env)

lemma cli_parse_fields:
  assumes "cli_parse opts e = Inr c"
  shows "parsed_arg Some ''127.0.0.1'' opts e ''bind'' ''PROXY_BIND'' = Inr (cli_bind c)"
    "parsed_arg (parse_uint u64_max) 86400 opts e ''max-cache-age'' ''PROXY_MAX_CACHE_AGE''
       = Inr (cli_max_cache_age c)"
    "parsed_arg parse_bytes_value 1073741824 opts e ''max-cache-size'' ''PROXY_MAX_CACHE_SIZE''
       = Inr (cli_max_cache_size c)"
    "parsed_arg parse_path ''/var/cache/apt-blitz'' opts e ''cache-dir'' ''PROXY_CACHE_DIR''
       = Inr (cli_cache_dir c)"
  using assms by (auto simp: cli_parse_def bind_res_Inr_iff)

lemma config_of_cli_fields:
  assumes "config_of_cli c = Inr g"
  shows "cfg_bind g = cli_bind c" "cfg_max_cache_age g = cli_max_cache_age c"
    "cfg_max_cache_size g = cli_max_cache_size c" "cfg_cache_dir g = cli_cache_dir c"
  using assms by (auto simp: config_of_cli_def bind_res_Inr_iff)

lemma load_config_fields:
  assumes "load_config yaml_of os argv opts e = Inr g" "load_env yaml_of os argv e = Inr e'"
  shows "parsed_arg Some ''127.0.0.1'' opts e' ''bind'' ''PROXY_BIND'' = Inr (cfg_bind g)"
    "parsed_arg (parse_uint u64_max) 86400 opts e' ''max-cache-age'' ''PROXY_MAX_CACHE_AGE''
       = Inr (cfg_max_cache_age g)"
    "parsed_arg parse_bytes_value 1073741824 opts e' ''max-cache-size'' ''PROXY_MAX_CACHE_SIZE''
       = Inr (cfg_max_cache_size g)"
    "parsed_arg parse_path ''/var/cache/apt-blitz'' opts e' ''cache-dir'' ''PROXY_CACHE_DIR''
       = Inr (cfg_cache_dir g)"
proof -
  obtain c where c: "cli_parse opts e' = Inr c" "config_of_cli c = Inr g"
    using assms by (auto simp: load_config_def bind_res_Inr_iff)
  note cf = cli_parse_fields [OF c(1)] config_of_cli_fields [OF c(2)]
  show "parsed_arg Some ''127.0.0.1'' opts e' ''bind'' ''PROXY_BIND'' = Inr (cfg_bind g)"
    using cf(1,5) by (simp only:)
  show "parsed_arg (parse_uint u64_max) 86400 opts e' ''max-cache-age'' ''PROXY_MAX_CACHE_AGE''
       = Inr (cfg_max_cache_age g)" using cf(2,6) by (simp only:)
  show "parsed_arg parse_bytes_value 1073741824 opts e' ''max-cache-size'' ''PROXY_MAX_CACHE_SIZE''
       = Inr (cfg_max_cache_size g)" using cf(3,7) by (simp only:)
  show "parsed_arg parse_path ''/var/cache/apt-blitz'' opts e' ''cache-dir'' ''PROXY_CACHE_DIR''
       = Inr (cfg_cache_dir g)" using cf(4,8) by (simp only:)
qed

lemma parse_bytes_dec: "n \<le> u64_max \<Longrightarrow> parse_bytes (dec n) = Inr n"
proof -
  assume n: "n \<le> u64_max"
  have "trim (dec n) = dec n" using dec_digits digit_not_ws by (intro trim_no_ws) blast
  moreover have "find_char (\<lambda>c. \<not> is_digit c) (dec n) = None"
    using dec_digits by (simp add: find_char_None)
  ultimately show ?thesis using parse_uint_dec [OF n] by (simp add: parse_bytes_def)
qed

text \<open>What the YAML file sets the variables to that the theorems below speak of.\<close>

lemma yaml_values:
  "first_setting (yaml_settings y) ''PROXY_BIND'' = y_bind y"
  "first_setting (yaml_settings y) ''PROXY_MAX_CACHE_AGE'' = map_option dec (y_max_cache_age y)"
  "first_setting (yaml_settings y) ''PROXY_MAX_CACHE_SIZE'' = map_option dec (y_max_cache_size y)"
  "first_setting (yaml_settings y) ''PROXY_CACHE_DIR'' = y_cache_dir y"
  by (simp_all add: yaml_settings_def)

subsection \<open>Properties of the configuration\<close>


definition demo_yaml :: yaml_config where
  "demo_yaml =
     \<lparr>y_port = None, y_bind = Some ''::1'', y_connections = None, y_cache_dir = Some ''/yaml'',
      y_max_cache_size = Some 5, y_max_cache_age = Some 7, y_url_map = None,
      y_upstream_proxy = None, y_no_proxy = None, y_max_connections_per_ip = None,
      y_max_total_connections = None, y_max_workers = None, y_upstream_bandwidth = None,
      y_per_ip_bandwidth = None, y_coalesce_follower_timeout_secs = None,
      y_coalesce_max_retries = None, y_coalesce_etag_max_retries = None\<rparr>"

definition demo_os :: os_view where
  "demo_os = \<lparr>os_exists = (\<lambda>p. p = ''apt-blitz.yaml''), os_read = (\<lambda>p. Some p), os_config_dir = None\<rparr>"

lemma demo_load:
  "\<exists>g. load_config (\<lambda>_. Some demo_yaml) demo_os [] (\<lambda>_. []) [''PROXY_CACHE_DIR'' \<mapsto> ''/env''] = Inr g"
proof -
  have env: "load_env (\<lambda>_. Some demo_yaml) demo_os [] e = Inr (apply_env demo_yaml e)" for e
    by (simp add: load_env_def explicit_config_def discover_def config_candidates_def demo_os_def
        List.map_filter_def)
  have "\<exists>c. cli_parse (\<lambda>_. []) (apply_env demo_yaml [''PROXY_CACHE_DIR'' \<mapsto> ''/env'']) = Inr c
      \<and> cli_url_map c = [] \<and> cli_upstream_proxy c = None"
    by (simp add: cli_parse_def parsed_arg_def arg_value_def apply_env_value demo_yaml_def
        yaml_settings_def joined_def list_arg_def parse_path_def parse_bytes_value_def
        parse_bytes_dec parse_uint_dec)
  then show ?thesis unfolding load_config_def env
    by (auto simp: config_of_cli_def)
qed


text \<open>
  The server and \<open>blitzctl\<close> rank the cache directory differently: when both the YAML file
  and the environment name one, the server caches in the one of the environment and the
  tool works on the one of the file.
\<close>

lemma cache_dirs_disagree:
  assumes "load_config yaml_of os argv opts e = Inr g" and "explicit_config argv = None"
    and "discovered_yaml yaml_of os = Some y" and "y_cache_dir y = Some d1"
    and "opts ''cache-dir'' = []" and "e ''PROXY_CACHE_DIR'' = Some d2"
  shows "cfg_cache_dir g = d2 \<and> cache_dir_only yaml_of os e = d1"
proof -
  have "load_env yaml_of os argv e = Inr (apply_env y e)"
    using assms(2,3) by (auto simp: load_env_def discovered_yaml_def split: option.splits)
  from load_config_fields(4) [OF assms(1) this] have "cfg_cache_dir g = d2"
    using assms(5,6) by (auto simp: parsed_arg_def arg_value_def apply_env_value parse_path_def
        split: if_splits)
  then show ?thesis using assms(3,4) by (simp add: cache_dir_only_def)
qed

lemma cache_dirs_disagree_witness:
  "\<exists>g. load_config (\<lambda>_. Some demo_yaml) demo_os [] (\<lambda>_. []) [''PROXY_CACHE_DIR'' \<mapsto> ''/env''] = Inr g
     \<and> cfg_cache_dir g = ''/env''
     \<and> cache_dir_only (\<lambda>_. Some demo_yaml) demo_os [''PROXY_CACHE_DIR'' \<mapsto> ''/env''] = ''/yaml''"
proof -
  let ?e = "[''PROXY_CACHE_DIR'' \<mapsto> ''/env''] :: env"
  obtain g where g: "load_config (\<lambda>_. Some demo_yaml) demo_os [] (\<lambda>_. []) ?e = Inr g"
    using demo_load by blast
  have "discovered_yaml (\<lambda>_. Some demo_yaml) demo_os = Some demo_yaml"
    by (simp add: discovered_yaml_def discover_def config_candidates_def demo_os_def)
  from cache_dirs_disagree [OF g _ this, of "''/yaml''" "''/env''"] show ?thesis
    using g by (simp add: demo_yaml_def explicit_config_def List.map_filter_def)
qed

text \<open>
  The configuration file named by \<open>PROXY_CONFIG_FILE\<close>, or by \<open>--config-file\<close> and a value of
  its own, is not read: only the form with an equals sign is.
\<close>

lemma config_file_env_ignored:
  "load_env yaml_of os argv (e(''PROXY_CONFIG_FILE'' \<mapsto> f)) =
     map_sum id (\<lambda>e'. e'(''PROXY_CONFIG_FILE'' \<mapsto> f)) (load_env yaml_of os argv e)"
proof -
  have "first_setting (yaml_settings y) ''PROXY_CONFIG_FILE'' = None" for y
    by (simp add: yaml_settings_def)
  then have "apply_env y (e(''PROXY_CONFIG_FILE'' \<mapsto> f)) = (apply_env y e)(''PROXY_CONFIG_FILE'' \<mapsto> f)" for y
    by (intro ext) (simp add: apply_env_value)
  then show ?thesis by (simp add: load_env_def split: option.splits)
qed

lemma config_file_separate_value_ignored:
  "explicit_config [''--config-file'', path] = (if starts_with path ''--config-file=''
     then strip_prefix ''--config-file='' path else None)"
  by (auto simp: explicit_config_def List.map_filter_def starts_with_def split: option.splits)

text \<open>
  The two readers of \<open>PROXY_URL_MAP\<close> differ: a trailing comma makes the server refuse to
  start, while \<open>blitzctl\<close> skips the empty item.
\<close>

lemma url_map_readers_disagree:
  "\<not> is_ok (collect_res (map parse_url_map (split_on (CHR '','') (m @ '',''))))
   \<and> filter (\<lambda>s. s \<noteq> []) (map trim (split_on (CHR '','') (m @ '','')))
       = filter (\<lambda>s. s \<noteq> []) (map trim (split_on (CHR '','') m))"
proof
  have "\<not> is_ok (collect_res (rs @ [Inl e]))" for rs :: "('a + 'b) list" and e
    using collect_res_Inl [of "rs @ [Inl e]"]
    by (cases "collect_res (rs @ [Inl e])") (auto simp: append_eq_map_conv)
  moreover have "parse_url_map [] = Inl (Bad_url_map [])" by (simp add: parse_url_map_def)
  ultimately show "\<not> is_ok (collect_res (map parse_url_map (split_on (CHR '','') (m @ '',''))))"
    by (simp add: split_on_snoc)
  show "filter (\<lambda>s. s \<noteq> []) (map trim (split_on (CHR '','') (m @ '','')))
       = filter (\<lambda>s. s \<noteq> []) (map trim (split_on (CHR '','') m))"
    by (simp add: split_on_snoc trim_def trim_start_def trim_end_def)
qed

end
