(* ===== verification/Freshness.thy ===== *)
theory Freshness
  imports Http_Headers
begin

text \<open>
  How long a cached entry may be served without asking upstream: \<open>is_fresh\<close>,
  \<open>time_until_expiry\<close>, \<open>parse_max_age\<close> and \<open>etag_equals\<close> of \<open>src/src/cache.rs\<close>. Times are
  \<open>i64\<close> seconds; the clock is an argument and so is the parser of HTTP dates, which gives the
  seconds since the epoch (0 for an earlier date).
\<close>

fun find_max_age :: "string list \<Rightarrow> nat option" where
  "find_max_age [] = None"
| "find_max_age (d # ds) =
     (case strip_prefix ''max-age='' (trim d) of
        Some rest \<Rightarrow>
          (let r = trim rest in
           case strip_prefix ''+'' r of
             Some digits \<Rightarrow> parse_uint u64_max digits
           | None \<Rightarrow> parse_uint u64_max r)
      | None \<Rightarrow> find_max_age ds)"

definition parse_max_age :: "string \<Rightarrow> nat option" where
  "parse_max_age cache_control = find_max_age (split_on (CHR '','') cache_control)"

definition forbids_fresh :: "string \<Rightarrow> bool" where
  "forbids_fresh cc \<longleftrightarrow>
     (\<exists>d \<in> set (split_on (CHR '','') cc). let t = trim d in t = ''no-cache'' \<or> t = ''no-store'')"

definition expires_secs :: "(string \<Rightarrow> int option) \<Rightarrow> header_map \<Rightarrow> int option" where
  "expires_secs parse_date h =
     (case header_text ''expires'' h of None \<Rightarrow> None | Some s \<Rightarrow> parse_date s)"

definition is_fresh :: "(string \<Rightarrow> int option) \<Rightarrow> int \<Rightarrow> int \<Rightarrow> header_map \<Rightarrow> nat \<Rightarrow> bool" where
  "is_fresh parse_date now cached_at h max_cache_age =
     (if cached_at \<le> 0 \<or> now < cached_at then False
      else
        let age = now - cached_at; cc = header_text ''cache-control'' h in
        if (case cc of Some s \<Rightarrow> forbids_fresh s | None \<Rightarrow> False) then False
        else (case (case cc of Some s \<Rightarrow> parse_max_age s | None \<Rightarrow> None) of
                Some max_age \<Rightarrow> age < wrap_i64 (int max_age)
              | None \<Rightarrow> (case expires_secs parse_date h of
                    Some e \<Rightarrow> now < e
                  | None \<Rightarrow> max_cache_age > 0 \<and> age < wrap_i64 (int max_cache_age))))"

definition time_until_expiry ::
    "(string \<Rightarrow> int option) \<Rightarrow> int \<Rightarrow> int \<Rightarrow> header_map \<Rightarrow> nat \<Rightarrow> nat option" where
  "time_until_expiry parse_date now cached_at h max_cache_age =
     (if cached_at \<le> 0 \<or> now < cached_at then None
      else
        let cc = header_text ''cache-control'' h in
        if (case cc of Some s \<Rightarrow> forbids_fresh s | None \<Rightarrow> False) then None
        else (case (case cc of Some s \<Rightarrow> parse_max_age s | None \<Rightarrow> None) of
                Some max_age \<Rightarrow> Some (to_u64 (max 0 (wrap_i64
                    (sat_i64 (cached_at + wrap_i64 (int max_age)) - now))))
              | None \<Rightarrow> (case expires_secs parse_date h of
                    Some e \<Rightarrow> Some (to_u64 (max 0 (wrap_i64 (e - now))))
                  | None \<Rightarrow>
                      if max_cache_age > 0
                      then Some (to_u64 (max 0 (wrap_i64
                        (sat_i64 (cached_at + wrap_i64 (int max_cache_age)) - now))))
                      else None)))"

definition etag_equals :: "header_map \<Rightarrow> header_map \<Rightarrow> bool" where
  "etag_equals stored response =
     (case (header_get ''etag'' stored, header_get ''etag'' response) of
        (Some a, Some b) \<Rightarrow> a = b
      | _ \<Rightarrow> False)"

subsection \<open>Facts on the lifetime\<close>

text \<open>The lifetime left of something cached at \<open>c\<close> for \<open>k\<close> seconds, and the test of its age.\<close>

lemma lifetime_left:
  assumes "0 < c" "c \<le> now" "now < i64_max" "0 \<le> k" "k \<le> i64_max"
  shows "0 < to_u64 (max 0 (wrap_i64 (sat_i64 (c + k) - now))) \<longleftrightarrow> now - c < k"
proof -
  let ?d = "sat_i64 (c + k) - now"
  have "i64_min \<le> ?d" "?d \<le> i64_max" using assms by (auto simp: sat_i64_def)
  then have "wrap_i64 ?d = ?d" "max 0 ?d \<le> i64_max" by auto
  then have "0 < to_u64 (max 0 (wrap_i64 ?d)) \<longleftrightarrow> 0 < ?d" by (auto simp: max_def)
  also have "\<dots> \<longleftrightarrow> now - c < k" using assms by (auto simp: sat_i64_def)
  finally show ?thesis .
qed

lemma lifetime_left_date:
  assumes "0 \<le> now" "now \<le> i64_max" "0 \<le> e" "e \<le> i64_max"
  shows "0 < to_u64 (max 0 (wrap_i64 (e - now))) \<longleftrightarrow> now < e"
proof -
  have "wrap_i64 (e - now) = e - now" "max 0 (e - now) \<le> i64_max" using assms by auto
  then show ?thesis by (auto simp: max_def)
qed

lemma parse_max_age_dec:
  assumes "n \<le> u64_max"
  shows "parse_max_age (''max-age='' @ dec n) = Some n"
proof -
  have nows: "\<forall>c \<in> set (dec n). \<not> is_ws c" using dec_digits digit_not_ws by blast
  obtain c cs where d: "dec n = c # cs" by (cases "dec n") auto
  have "c \<noteq> CHR ''+''" using dec_digits [of c n] d by auto
  then have plus: "strip_prefix ''+'' (dec n) = None" by (simp add: d)
  have "trim (dec n) = dec n" using nows by (rule trim_no_ws)
  moreover have "trim (''max-age='' @ dec n) = ''max-age='' @ dec n"
    by (rule trim_id) (simp add: is_ws_def [of "CHR ''m''"])
  ultimately have t: "trim (''max-age='' @ dec n) = ''max-age='' @ dec n" "trim (dec n) = dec n"
    by simp_all
  have "CHR '','' \<notin> set (''max-age='' @ dec n)"
    using dec_not_in [of "CHR '',''" n] by simp
  then have "split_on (CHR '','') (''max-age='' @ dec n) = [''max-age='' @ dec n]"
    by (rule split_on_single)
  moreover have "strip_prefix ''max-age='' (''max-age='' @ dec n) = Some (dec n)"
    by (rule strip_prefix_append)
  ultimately show ?thesis
    unfolding parse_max_age_def by (simp only: find_max_age.simps t option.case Let_def plus
        parse_uint_dec [OF assms])
qed

subsection \<open>Properties of freshness\<close>

text \<open>
  C29. The two judgements of an entry agree: it is served without asking upstream exactly while
  \<open>blitzctl\<close> shows time left, whatever the headers are, as long as the lifetimes fit a signed
  64-bit number.
\<close>

theorem freshness_agrees:
  assumes "0 \<le> now" and "now < i64_max" and "max_cache_age \<le> 9223372036854775807"
    and "\<And>cc n. header_text ''cache-control'' h = Some cc \<Longrightarrow> parse_max_age cc = Some n \<Longrightarrow>
       n \<le> 9223372036854775807"
    and "\<And>d e. parse_date d = Some e \<Longrightarrow> 0 \<le> e \<and> e \<le> i64_max"
  shows "is_fresh parse_date now cached_at h max_cache_age \<longleftrightarrow>
     (\<exists>t > 0. time_until_expiry parse_date now cached_at h max_cache_age = Some t)"
proof (cases "cached_at \<le> 0 \<or> now < cached_at")
  case True
  then show ?thesis by (auto simp: is_fresh_def time_until_expiry_def)
next
  case False
  then have c: "0 < cached_at" "cached_at \<le> now" by auto
  have life: "0 < to_u64 (max 0 (wrap_i64 (sat_i64 (cached_at + wrap_i64 (int n)) - now)))
      \<longleftrightarrow> now - cached_at < wrap_i64 (int n)" if "n \<le> 9223372036854775807" for n
    using that lifetime_left [OF c assms(2), of "wrap_i64 (int n)"] by simp
  have exp: "0 \<le> e \<and> e \<le> i64_max" if "expires_secs parse_date h = Some e" for e
    using that assms(5) by (auto simp: expires_secs_def split: option.splits)
  have date: "0 < to_u64 (max 0 (wrap_i64 (e - now))) \<longleftrightarrow> now < e"
    if "expires_secs parse_date h = Some e" for e
    using exp [OF that] assms(1,2) by (intro lifetime_left_date) auto
  have no_cc: ?thesis if "header_text ''cache-control'' h = None"
    using False life [OF assms(3)] date that
    by (simp add: is_fresh_def time_until_expiry_def split: option.splits)
  have with_cc: ?thesis if cc: "header_text ''cache-control'' h = Some s" for s
  proof (cases "parse_max_age s")
    case None
    then show ?thesis using False life [OF assms(3)] date cc
      by (simp add: is_fresh_def time_until_expiry_def split: option.splits)
  next
    case (Some n)
    then show ?thesis using False life [OF assms(4) [OF cc Some]] cc
      by (simp add: is_fresh_def time_until_expiry_def)
  qed
  show ?thesis using no_cc with_cc by (cases "header_text ''cache-control'' h") auto
qed

lemma header_text_single:
  "\<forall>c \<in> set v. visible_char c \<Longrightarrow> header_text k [(k, v)] = Some v"
  by (simp add: header_text_def to_str_def)

lemma dec_visible: "\<forall>c \<in> set (dec n). visible_char c"
  using dec_digits by (fastforce simp: visible_char_def is_digit_def Let_def)

lemma max_age_header:
  assumes "n \<le> u64_max"
  shows "header_text ''cache-control'' [(''cache-control'', ''max-age='' @ dec n)]
      = Some (''max-age='' @ dec n)" "\<not> forbids_fresh (''max-age='' @ dec n)"
proof -
  have "\<forall>c \<in> set (''max-age='' @ dec n). visible_char c"
    using dec_visible [of n] by (simp add: visible_char_def)
  then show "header_text ''cache-control'' [(''cache-control'', ''max-age='' @ dec n)]
      = Some (''max-age='' @ dec n)" by (rule header_text_single)
  have "CHR '','' \<notin> set (''max-age='' @ dec n)" using dec_not_in [of "CHR '',''" n] by simp
  then have "split_on (CHR '','') (''max-age='' @ dec n) = [''max-age='' @ dec n]"
    by (rule split_on_single)
  moreover have "trim (''max-age='' @ dec n) = ''max-age='' @ dec n"
    by (rule trim_id) (simp add: is_ws_def [of "CHR ''m''"])
  ultimately show "\<not> forbids_fresh (''max-age='' @ dec n)" by (simp add: forbids_fresh_def)
qed

theorem freshness_agrees_witness:
  "is_fresh (\<lambda>_. None) 1000 900 [(''cache-control'', ''max-age='' @ dec 200)] 0
   \<and> (\<exists>t > 0. time_until_expiry (\<lambda>_. None) 1000 900 [(''cache-control'', ''max-age='' @ dec 200)] 0 = Some t)"
proof -
  let ?h = "[(''cache-control'', ''max-age='' @ dec 200)]"
  note h = max_age_header [of 200, simplified]
  have "is_fresh (\<lambda>_. None) 1000 900 ?h 0"
    using h parse_max_age_dec [of 200] by (simp add: is_fresh_def)
  moreover have "is_fresh (\<lambda>_. None) 1000 900 ?h 0 \<longleftrightarrow>
      (\<exists>t > 0. time_until_expiry (\<lambda>_. None) 1000 900 ?h 0 = Some t)"
    by (rule freshness_agrees) (use h parse_max_age_dec [of 200] in auto)
  ultimately show ?thesis by blast
qed

text \<open>
  A lifetime from \<open>2 ^ 63\<close> seconds becomes negative in the cast to \<open>i64\<close>: the entry is never
  fresh, while the time that is left wraps around to centuries.
\<close>

lemma huge_max_age_disagrees:
  defines "h \<equiv> [(''cache-control'', ''max-age='' @ dec 9223372036854775808)]"
  shows "\<not> is_fresh pd 1000 900 h m \<and> time_until_expiry pd 1000 900 h m = Some 9223372036854775708"
  using max_age_header [of 9223372036854775808, simplified]
    parse_max_age_dec [of 9223372036854775808, simplified]
  by (simp add: h_def is_fresh_def time_until_expiry_def wrap_i64_def sat_i64_def to_u64_def)

text \<open>
  Directives that forbid serving from the cache win over every lifetime, wherever they
  stand in the header and whatever blanks surround them.
\<close>

lemma no_cache_never_fresh:
  assumes "header_text ''cache-control'' h = Some (join '','' ds)" and "ds \<noteq> []"
    and "\<forall>d \<in> set ds. CHR '','' \<notin> set d" and "d \<in> set ds" and "trim d \<in> {''no-cache'', ''no-store''}"
  shows "\<not> is_fresh parse_date now cached_at h max_cache_age
     \<and> time_until_expiry parse_date now cached_at h max_cache_age = None"
proof -
  have "split_on (CHR '','') (join '','' ds) = ds" using assms(2,3) by (intro split_on_join)
  then have "forbids_fresh (join '','' ds)" using assms(4,5) by (auto simp: forbids_fresh_def Let_def)
  then show ?thesis using assms(1) by (simp add: is_fresh_def time_until_expiry_def)
qed

lemma no_cache_never_fresh_witness:
  "\<not> is_fresh pd 1000 900 [(''cache-control'', ''max-age=99, no-store'')] 86400"
  using no_cache_never_fresh [of "[(''cache-control'', ''max-age=99, no-store'')]"
      "[''max-age=99'', '' no-store'']" "'' no-store''" pd 1000 900 86400]
  by (simp add: header_text_def to_str_def visible_char_def trim_def trim_start_def trim_end_def is_ws_def)

end
