(* ===== verification/Unix_Path.thy ===== *)
theory Unix_Path
  imports Rust_Str
begin

text \<open>
  \<open>std::path\<close> as the cache uses it: \<open>join\<close>, the component-wise \<open>starts_with\<close> (which keeps
  \<open>..\<close> as a component), and where the operating system looks for a path (where \<open>..\<close> goes
  up). Symbolic links are not modelled; a relative path starts at the working directory,
  which is the empty list of names.
\<close>

definition join_path :: "string \<Rightarrow> string \<Rightarrow> string" where
  "join_path d p =
     (if starts_with p ''/'' then p
      else if d = [] \<or> ends_with d ''/'' then d @ p
      else d @ ''/'' @ p)"

definition path_components :: "string \<Rightarrow> string list" where
  "path_components p =
     (let cs = split_on (CHR ''/'') p;
          names = filter (\<lambda>c. c \<noteq> [] \<and> c \<noteq> ''.'') cs
      in if starts_with p ''/'' then ''/'' # names
         else if hd cs = ''.'' then ''.'' # names else names)"

definition path_starts_with :: "string \<Rightarrow> string \<Rightarrow> bool" where
  "path_starts_with p base \<longleftrightarrow> take (length (path_components base)) (path_components p) = path_components base"

definition walk_step :: "string \<Rightarrow> string list \<Rightarrow> string list" where
  "walk_step c up = (if c = [] \<or> c = ''.'' then up else if c = ''..'' then tl up else c # up)"

definition walk :: "string list \<Rightarrow> string \<Rightarrow> string list" where
  "walk at p = rev (fold walk_step (split_on (CHR ''/'') p) (rev at))"

definition resolve_path :: "string \<Rightarrow> string list" where
  "resolve_path p = walk [] p"

text \<open>\<open>Path::extension\<close> of the last component.\<close>

definition extension :: "string \<Rightarrow> string option" where
  "extension name =
     (case rsplit_once (CHR ''.'') name of
        Some (stem, ext) \<Rightarrow> if stem = [] then None else Some ext
      | None \<Rightarrow> None)"

lemma walk_Nil [simp]: "walk at [] = at"
  by (simp add: walk_def walk_step_def)

lemma walk_append: "walk at (d @ CHR ''/'' # p) = walk (walk at d) p"
  by (simp add: walk_def split_on_append_all)

lemma resolve_join:
  assumes "\<not> starts_with p ''/''"
  shows "resolve_path (join_path d p) = walk (resolve_path d) p"
proof -
  have "walk at (r @ [CHR ''/'']) = walk at r" for at r
    by (simp add: walk_append [of at r "[]"])
  then show ?thesis
    using assms by (auto simp: resolve_path_def join_path_def walk_append ends_with_iff)
qed

text \<open>Names that are just names.\<close>

definition plain_name :: "string \<Rightarrow> bool" where
  "plain_name s \<longleftrightarrow> s \<noteq> [] \<and> s \<noteq> ''.'' \<and> s \<noteq> ''..'' \<and> CHR ''/'' \<notin> set s"

lemma walk_plain: "plain_name s \<Longrightarrow> walk at s = at @ [s]"
  by (simp add: walk_def walk_step_def plain_name_def split_on_single)

lemma walk_plain2: "plain_name a \<Longrightarrow> plain_name b \<Longrightarrow> walk at (a @ ''/'' @ b) = at @ [a, b]"
  using walk_append [of at a b] by (simp add: walk_plain)

lemma plain_not_abs: "plain_name a \<Longrightarrow> \<not> starts_with (a @ x) ''/''"
  by (cases a) (auto simp: plain_name_def starts_with_iff)

text \<open>Whatever relative path is joined, the result starts with the directory.\<close>

lemma components_join:
  assumes "d \<noteq> []" "\<not> starts_with p ''/''"
  shows "\<exists>rest. path_components (join_path d p) = path_components d @ rest"
proof -
  let ?ok = "\<lambda>c. c \<noteq> [] \<and> c \<noteq> ''.''"
  have st: "starts_with (d @ x) ''/'' = starts_with d ''/''" for x
    using assms(1) by (cases d) (auto simp: starts_with_iff)
  have hd: "hd (split_on (CHR ''/'') (d @ CHR ''/'' # x)) = hd (split_on (CHR ''/'') d)" for x
    by (simp add: split_on_append_all)
  show ?thesis
  proof (cases "ends_with d ''/''")
    case False
    then have "join_path d p = d @ CHR ''/'' # p" using assms by (simp add: join_path_def)
    then show ?thesis using st [of "CHR ''/'' # p"] hd [of p]
      by (simp add: path_components_def Let_def split_on_append_all)
  next
    case True
    then obtain d0 where d0: "d = d0 @ ''/''" by (auto simp: ends_with_iff)
    have j: "join_path d p = d0 @ CHR ''/'' # p" using True assms d0 by (simp add: join_path_def)
    have "starts_with (d0 @ CHR ''/'' # p) ''/'' = starts_with d ''/''"
      using st [of p] d0 by simp
    moreover have "hd (split_on (CHR ''/'') (d0 @ CHR ''/'' # p)) = hd (split_on (CHR ''/'') d)"
      using d0 by (simp add: split_on_append_all)
    moreover have "filter ?ok (split_on (CHR ''/'') d) = filter ?ok (split_on (CHR ''/'') d0)"
      using d0 by (simp add: split_on_append_all)
    ultimately show ?thesis unfolding j path_components_def Let_def
      by (simp add: split_on_append_all)
  qed
qed

lemma join_starts_with: "\<not> starts_with p ''/'' \<Longrightarrow> path_starts_with (join_path d p) d"
  using components_join [of d p]
  by (cases "d = []") (auto simp: path_starts_with_def path_components_def starts_with_iff)

end
