(* ===== verification/Ranked_Steps.thy ===== *)
theory Ranked_Steps
  imports Main
begin

text \<open>
  The contract of a process that ends: while it is live it can take a step, and every step of its
  own lowers its rank. The accept loop of \<open>lib.rs\<close> after the signal and the requests of
  \<open>proxy.rs\<close> interpret it.
\<close>

fun step_chain :: "('s \<Rightarrow> 's \<Rightarrow> bool) \<Rightarrow> 's \<Rightarrow> 's list \<Rightarrow> bool" where
  "step_chain step s [] = True"
| "step_chain step s (t # ts) = (step s t \<and> step_chain step t ts)"

locale ranked_steps =
  fixes step :: "'s \<Rightarrow> 's \<Rightarrow> bool"
    and live :: "'s \<Rightarrow> bool"
    and rank :: "'s \<Rightarrow> nat"
  assumes step_down: "live s \<Longrightarrow> step s s' \<Longrightarrow> rank s' < rank s"
    and live_moves: "live s \<Longrightarrow> \<exists>s'. step s s'"
begin

text \<open>As long as it is live the process takes at most as many steps as its rank says.\<close>

lemma chain_bounded: "step_chain step s ts \<Longrightarrow> live s \<Longrightarrow> \<forall>t \<in> set (butlast ts). live t \<Longrightarrow> length ts \<le> rank s"
proof (induction ts arbitrary: s)
  case Nil
  then show ?case by simp
next
  case step: (Cons t ts)
  then have d: "rank t < rank s" using step_down by simp
  show ?case
  proof (cases ts)
    case Nil
    then show ?thesis using d by simp
  next
    case (Cons u us)
    then have "live t" "\<forall>x \<in> set (butlast ts). live x" using step.prems(3) by auto
    then show ?thesis using step.IH [of t] step.prems(1) d by simp
  qed
qed

text \<open>From every state it can come to an end.\<close>

lemma can_end: "\<exists>s'. step\<^sup>*\<^sup>* s s' \<and> \<not> live s'"
proof (induction "rank s" arbitrary: s rule: less_induct)
  case less
  show ?case
  proof (cases "live s")
    case True
    then obtain t where t: "step s t" using live_moves by blast
    then obtain s' where "step\<^sup>*\<^sup>* t s'" "\<not> live s'" using less step_down [OF True] by blast
    then show ?thesis using t by (meson converse_rtranclp_into_rtranclp)
  qed blast
qed

end

end
