(* ===== verification/Disk_Cache.thy ===== *)
theory Disk_Cache
  imports Http_Headers Unix_Path Assoc_Map
begin

text \<open>
  The disk cache of \<open>src/src/cache.rs\<close>: a table of entries in SQLite and one file per entry.
  The table is the list of its rows in the order of insertion, \<open>url_hash\<close> is its key. The
  disk maps a path, as the list of names the kernel walks, to the bytes of a file. One lock
  guards the connection, so an operation is one step; a panic under the lock poisons it and
  every later operation fails.

  Not under \<open>src/\<close> and therefore arguments (\<open>cache_env\<close>): the hash, the JSON reader and
  writer, and the choice SQLite makes among the rows with the least \<open>last_access\<close>. The clock
  is an argument of each operation, and \<open>cache_faults\<close> says which calls fail.
\<close>

record cache_row =
  row_hash :: string
  row_url :: string
  row_size :: int
  row_last_access :: int
  row_path :: string
  row_headers :: string
  row_cached_at :: int

record cache_env =
  hash_of :: "string \<Rightarrow> string"
  to_json :: "header_map \<Rightarrow> string"
  of_json :: "string \<Rightarrow> header_map option"
  pick_oldest :: "cache_row list \<Rightarrow> cache_row option"

record cache_faults =
  f_mkdir :: bool
  f_rename :: bool
  f_metadata :: bool
  f_insert :: bool
  f_delete :: bool
  f_unlink :: bool

definition no_faults :: cache_faults where
  "no_faults = \<lparr>f_mkdir = False, f_rename = False, f_metadata = False, f_insert = False,
     f_delete = False, f_unlink = False\<rparr>"

datatype cache_error = Cache_io | Cache_db | Cache_panicked

type_synonym disk_files = "(string list, bytes) amap"

record disk_cache =
  c_dir :: string
  c_max_size :: nat
  c_rows :: "cache_row list"
  c_disk :: disk_files
  c_poisoned :: bool

record cached_file =
  cf_url :: string
  cf_file_path :: string
  cf_size :: nat
  cf_last_access :: int
  cf_cached_at :: int

record cache_entry_detail =
  ce_url :: string
  ce_file_path :: string
  ce_size :: nat
  ce_last_access :: int
  ce_cached_at :: int
  ce_headers :: header_map

subsection \<open>Headers\<close>

definition stored_header_names :: "string list" where
  "stored_header_names =
     [''content-type'', ''content-disposition'', ''accept-ranges'', ''last-modified'', ''etag'',
      ''cache-control'', ''expires'']"

definition headers_to_map :: "header_map \<Rightarrow> header_map" where
  "headers_to_map h =
     List.map_filter (\<lambda>k. case header_get k h of
         None \<Rightarrow> None
       | Some v \<Rightarrow> map_option (\<lambda>s. (k, s)) (to_str v)) stored_header_names"

text \<open>\<open>None\<close> is the panic on a name that is not a header name.\<close>

fun map_to_headers :: "header_map \<Rightarrow> header_map \<Rightarrow> header_map option" where
  "map_to_headers [] acc = Some acc"
| "map_to_headers ((k, v) # m) acc =
     (if valid_value v then
        (if valid_name k then map_to_headers m (header_insert (to_ascii_lowercase k) v acc) else None)
      else map_to_headers m acc)"

subsection \<open>The table\<close>

definition find_row :: "string \<Rightarrow> cache_row list \<Rightarrow> cache_row option" where
  "find_row h rs = List.find (\<lambda>r. row_hash r = h) rs"

definition delete_row :: "string \<Rightarrow> cache_row list \<Rightarrow> cache_row list" where
  "delete_row h rs = filter (\<lambda>r. row_hash r \<noteq> h) rs"

definition update_row :: "string \<Rightarrow> (cache_row \<Rightarrow> cache_row) \<Rightarrow> cache_row list \<Rightarrow> cache_row list" where
  "update_row h f rs = map (\<lambda>r. if row_hash r = h then f r else r) rs"

definition insert_or_replace :: "cache_row \<Rightarrow> cache_row list \<Rightarrow> cache_row list" where
  "insert_or_replace r rs = delete_row (row_hash r) rs @ [r]"

text \<open>\<open>SUM\<close> fails on integer overflow; the query then counts as 0.\<close>

definition total_size_of :: "cache_row list \<Rightarrow> nat" where
  "total_size_of rs =
     (let s = (\<Sum>r\<leftarrow>rs. row_size r) in if i64_min \<le> s \<and> s \<le> i64_max then to_u64 s else 0)"

definition row_file :: "string \<Rightarrow> cache_row \<Rightarrow> string list" where
  "row_file dir r = resolve_path (join_path dir (row_path r))"

subsection \<open>Eviction\<close>

text \<open>The loop of \<open>evict_inner\<close> with fuel; without fuel left it has not returned.\<close>

fun evict_loop ::
    "cache_env \<Rightarrow> cache_faults \<Rightarrow> string \<Rightarrow> nat \<Rightarrow> nat \<Rightarrow> cache_row list \<Rightarrow> disk_files
       \<Rightarrow> (cache_row list \<times> disk_files) option" where
  "evict_loop env flt dir mx 0 rs d = None"
| "evict_loop env flt dir mx (Suc fuel) rs d =
     (if total_size_of rs \<le> mx then Some (rs, d)
      else (case pick_oldest env rs of
              None \<Rightarrow> Some (rs, d)
            | Some r \<Rightarrow>
                evict_loop env flt dir mx fuel
                  (if f_delete flt then rs else delete_row (row_hash r) rs)
                  (if f_unlink flt then d else am_remove (row_file dir r) d)))"

definition evict_inner ::
    "cache_env \<Rightarrow> cache_faults \<Rightarrow> string \<Rightarrow> nat \<Rightarrow> cache_row list \<Rightarrow> disk_files
       \<Rightarrow> (cache_row list \<times> disk_files) option" where
  "evict_inner env flt dir mx rs d = evict_loop env flt dir mx (Suc (length rs)) rs d"

subsection \<open>Operations\<close>

definition lookup_entry ::
    "cache_env \<Rightarrow> int \<Rightarrow> string \<Rightarrow> disk_cache \<Rightarrow> (string \<times> header_map \<times> int) option \<times> disk_cache" where
  "lookup_entry env now url c =
     (let h = hash_of env url in
      if c_poisoned c then (None, c)
      else (case find_row h (c_rows c) of
              None \<Rightarrow> (None, c)
            | Some r \<Rightarrow>
                if am_get (row_file (c_dir c) r) (c_disk c) \<noteq> None then
                  (let c1 = c\<lparr>c_rows := update_row h (\<lambda>r. r\<lparr>row_last_access := now\<rparr>) (c_rows c)\<rparr> in
                   case (case of_json env (row_headers r) of
                           Some m \<Rightarrow> map_to_headers m [] | None \<Rightarrow> Some []) of
                     Some hs \<Rightarrow> (Some (join_path (c_dir c) (row_path r), hs, row_cached_at r), c1)
                   | None \<Rightarrow> (None, c1\<lparr>c_poisoned := True\<rparr>))
                else (None, c\<lparr>c_rows := delete_row h (c_rows c)\<rparr>)))"

definition lookup ::
    "cache_env \<Rightarrow> int \<Rightarrow> string \<Rightarrow> disk_cache \<Rightarrow> (string \<times> header_map) option \<times> disk_cache" where
  "lookup env now url c =
     (let (r, c') = lookup_entry env now url c in (map_option (\<lambda>(p, h, _). (p, h)) r, c'))"

definition refresh ::
    "cache_env \<Rightarrow> cache_faults \<Rightarrow> int \<Rightarrow> string \<Rightarrow> header_map \<Rightarrow> disk_cache \<Rightarrow> (cache_error + unit) \<times> disk_cache" where
  "refresh env flt now url hs c =
     (if c_poisoned c then (Inl Cache_panicked, c)
      else if f_insert flt then (Inl Cache_db, c)
      else (Inr (), c\<lparr>c_rows := update_row (hash_of env url)
              (\<lambda>r. r\<lparr>row_headers := to_json env (headers_to_map hs), row_cached_at := now\<rparr>)
              (c_rows c)\<rparr>))"

definition entry_file_name :: "string \<Rightarrow> string" where
  "entry_file_name h = take 2 h @ ''/'' @ h"

text \<open>\<open>None\<close>: the eviction loop does not return.\<close>

definition store ::
    "cache_env \<Rightarrow> cache_faults \<Rightarrow> int \<Rightarrow> string \<Rightarrow> string \<Rightarrow> header_map \<Rightarrow> disk_cache
       \<Rightarrow> ((cache_error + string) \<times> disk_cache) option" where
  "store env flt now url temp_path hs c =
     (let h = hash_of env url; name = entry_file_name h;
          final_path = join_path (c_dir c) name in
      if f_mkdir flt then Some (Inl Cache_io, c)
      else (case (if f_rename flt then None else am_get (resolve_path temp_path) (c_disk c)) of
              None \<Rightarrow> Some (Inl Cache_io, c)
            | Some content \<Rightarrow>
                let c1 = c\<lparr>c_disk := am_insert (resolve_path final_path) content
                             (am_remove (resolve_path temp_path) (c_disk c))\<rparr> in
                if f_metadata flt then Some (Inl Cache_io, c1)
                else if c_poisoned c then Some (Inl Cache_panicked, c1)
                else if f_insert flt then Some (Inl Cache_db, c1)
                else
                  let row = \<lparr>row_hash = h, row_url = url, row_size = int (length content),
                             row_last_access = now, row_path = name,
                             row_headers = to_json env (headers_to_map hs), row_cached_at = now\<rparr>
                  in (case evict_inner env flt (c_dir c) (c_max_size c)
                             (insert_or_replace row (c_rows c)) (c_disk c1) of
                        None \<Rightarrow> None
                      | Some (rs, d) \<Rightarrow> Some (Inr final_path, c1\<lparr>c_rows := rs, c_disk := d\<rparr>))))"

definition cached_file_of :: "cache_row \<Rightarrow> cached_file" where
  "cached_file_of r =
     \<lparr>cf_url = row_url r, cf_file_path = row_path r, cf_size = nat (max 0 (row_size r)),
      cf_last_access = row_last_access r, cf_cached_at = row_cached_at r\<rparr>"

definition list_all_cached :: "disk_cache \<Rightarrow> cache_error + cached_file list" where
  "list_all_cached c = (if c_poisoned c then Inl Cache_panicked else Inr (map cached_file_of (c_rows c)))"

definition detail_of :: "cache_env \<Rightarrow> string \<Rightarrow> cache_row \<Rightarrow> cache_entry_detail" where
  "detail_of env url r =
     \<lparr>ce_url = url, ce_file_path = row_path r, ce_size = nat (max 0 (row_size r)),
      ce_last_access = row_last_access r, ce_cached_at = row_cached_at r,
      ce_headers = (case of_json env (row_headers r) of Some m \<Rightarrow> m | None \<Rightarrow> [])\<rparr>"

definition list_all_detailed :: "cache_env \<Rightarrow> disk_cache \<Rightarrow> cache_error + cache_entry_detail list" where
  "list_all_detailed env c =
     (if c_poisoned c then Inl Cache_panicked else Inr (map (\<lambda>r. detail_of env (row_url r) r) (c_rows c)))"

definition entry_by_url :: "cache_env \<Rightarrow> string \<Rightarrow> disk_cache \<Rightarrow> cache_error + cache_entry_detail option" where
  "entry_by_url env url c =
     (if c_poisoned c then Inl Cache_panicked
      else Inr (case find_row (hash_of env url) (c_rows c) of
                  None \<Rightarrow> None
                | Some r \<Rightarrow>
                    if am_get (row_file (c_dir c) r) (c_disk c) = None then None
                    else Some (detail_of env url r)))"

text \<open>The removal of a file that the guard lets through.\<close>

definition guarded_unlink :: "cache_faults \<Rightarrow> string \<Rightarrow> string \<Rightarrow> disk_files \<Rightarrow> disk_files" where
  "guarded_unlink flt dir fp d =
     (let full = join_path dir fp in
      if path_starts_with full dir \<and> \<not> f_unlink flt then am_remove (resolve_path full) d else d)"

fun delete_urls ::
    "cache_env \<Rightarrow> cache_faults \<Rightarrow> string list \<Rightarrow> nat \<Rightarrow> disk_cache \<Rightarrow> (cache_error + nat) \<times> disk_cache" where
  "delete_urls env flt [] removed c = (Inr removed, c)"
| "delete_urls env flt (url # urls) removed c =
     (case find_row (hash_of env url) (c_rows c) of
        None \<Rightarrow> delete_urls env flt urls removed c
      | Some r \<Rightarrow>
          let c1 = c\<lparr>c_disk := guarded_unlink flt (c_dir c) (row_path r) (c_disk c)\<rparr> in
          if f_delete flt then (Inl Cache_db, c1)
          else delete_urls env flt urls (removed + 1)
                 (c1\<lparr>c_rows := delete_row (hash_of env url) (c_rows c1)\<rparr>))"

definition delete_by_urls ::
    "cache_env \<Rightarrow> cache_faults \<Rightarrow> string list \<Rightarrow> disk_cache \<Rightarrow> (cache_error + nat) \<times> disk_cache" where
  "delete_by_urls env flt urls c =
     (if c_poisoned c then (Inl Cache_panicked, c) else delete_urls env flt urls 0 c)"

definition stale_download :: "string list \<Rightarrow> string list \<Rightarrow> bool" where
  "stale_download tmp p \<longleftrightarrow>
     p \<noteq> [] \<and> butlast p = tmp \<and> extension (last p) = Some ''download''"

definition clear_all :: "cache_faults \<Rightarrow> disk_cache \<Rightarrow> (cache_error + nat) \<times> disk_cache" where
  "clear_all flt c =
     (if c_poisoned c then (Inl Cache_panicked, c)
      else
        let c1 = c\<lparr>c_disk := fold (\<lambda>r. guarded_unlink flt (c_dir c) (row_path r)) (c_rows c) (c_disk c)\<rparr> in
        if f_delete flt then (Inl Cache_db, c1)
        else
          let tmp = resolve_path (join_path (c_dir c) ''tmp'') in
          (Inr (length (c_rows c)),
           c1\<lparr>c_rows := [],
              c_disk := (if f_unlink flt then c_disk c1
                         else filter (\<lambda>p. \<not> stale_download tmp (fst p)) (c_disk c1))\<rparr>))"

subsection \<open>Opening the database\<close>

record cache_db =
  has_cached_at :: bool
  db_rows :: "cache_row list"

definition migrate_schema :: "cache_db \<Rightarrow> cache_db" where
  "migrate_schema db =
     (if has_cached_at db then db
      else \<lparr>has_cached_at = True,
            db_rows = map (\<lambda>r. r\<lparr>row_cached_at := row_last_access r\<rparr>) (db_rows db)\<rparr>)"

definition new_cache :: "string \<Rightarrow> nat \<Rightarrow> cache_db option \<Rightarrow> disk_files \<Rightarrow> disk_cache" where
  "new_cache dir mx db d =
     (let db1 = (case db of Some x \<Rightarrow> x | None \<Rightarrow> \<lparr>has_cached_at = True, db_rows = []\<rparr>) in
      \<lparr>c_dir = dir, c_max_size = mx, c_rows = db_rows (migrate_schema db1), c_disk = d,
       c_poisoned = False\<rparr>)"

end
