(* ===== verification/Cache_Safety.thy ===== *)
theory Cache_Safety
  imports Disk_Cache
begin

text \<open>
  What the disk cache promises: eviction ends, respects the size limit and drops the least
  recently used entries only; the table and the files stay in step under every operation;
  what is stored is found again.
\<close>

subsection \<open>The choice of the database\<close>

locale oldest_choice =
  fixes pick :: "'r list \<Rightarrow> 'r option"
    and age :: "'r \<Rightarrow> int"
  assumes pick_None: "pick rs = None \<longleftrightarrow> rs = []"
    and pick_Some: "pick rs = Some r \<Longrightarrow> r \<in> set rs \<and> (\<forall>x \<in> set rs. age r \<le> age x)"
begin

lemma pick_cases:
  obtains "rs = []" "pick rs = None"
  | r where "pick rs = Some r" "r \<in> set rs" "\<forall>x \<in> set rs. age r \<le> age x"
  using pick_None [of rs] pick_Some [of rs] by (cases "pick rs") auto

lemma pick_least: "pick rs = Some r \<Longrightarrow> x \<in> set rs \<Longrightarrow> age r \<le> age x"
  using pick_Some by blast

end

text \<open>The first of the oldest rows, which is what a scan in the order of insertion returns.\<close>

fun first_oldest :: "cache_row list \<Rightarrow> cache_row option" where
  "first_oldest [] = None"
| "first_oldest (r # rs) =
     (case first_oldest rs of
        None \<Rightarrow> Some r
      | Some q \<Rightarrow> if row_last_access q < row_last_access r then Some q else Some r)"

lemma first_oldest_None: "first_oldest rs = None \<longleftrightarrow> rs = []"
  by (cases rs) (auto split: option.splits if_splits)

lemma first_oldest_Some:
  "first_oldest rs = Some r \<Longrightarrow>
     r \<in> set rs \<and> (\<forall>x \<in> set rs. row_last_access r \<le> row_last_access x)"
proof (induction rs arbitrary: r)
  case Nil
  then show ?case by simp
next
  case (Cons q rs)
  show ?case
  proof (cases "first_oldest rs")
    case None
    then show ?thesis using Cons.prems first_oldest_None [of rs] by simp
  next
    case (Some p)
    then show ?thesis using Cons.IH [OF Some] Cons.prems by (fastforce split: if_splits)
  qed
qed

interpretation scan: oldest_choice first_oldest row_last_access
  by unfold_locales (rule first_oldest_None, erule first_oldest_Some)

abbreviation picks_oldest :: "cache_env \<Rightarrow> bool" where
  "picks_oldest env \<equiv> oldest_choice (pick_oldest env) row_last_access"

subsection \<open>Facts on the table\<close>

abbreviation hashes :: "cache_row list \<Rightarrow> string list" where
  "hashes rs \<equiv> map row_hash rs"

lemma set_delete_row [simp]: "set (delete_row h rs) = {r \<in> set rs. row_hash r \<noteq> h}"
  by (simp add: delete_row_def)

lemma distinct_delete_row: "distinct (hashes rs) \<Longrightarrow> distinct (hashes (delete_row h rs))"
  by (induction rs) (auto simp: delete_row_def)

lemma length_delete_row: "r \<in> set rs \<Longrightarrow> length (delete_row (row_hash r) rs) < length rs"
  unfolding delete_row_def by (rule length_filter_less) auto

lemma distinct_insert_or_replace:
  "distinct (hashes rs) \<Longrightarrow> distinct (hashes (insert_or_replace r rs))"
  using distinct_delete_row [of rs "row_hash r"] by (auto simp: insert_or_replace_def)

lemma find_row_Some: "find_row h rs = Some r \<Longrightarrow> r \<in> set rs \<and> row_hash r = h"
  by (auto simp: find_row_def find_Some_iff)

lemma find_row_None: "find_row h rs = None \<longleftrightarrow> (\<forall>r \<in> set rs. row_hash r \<noteq> h)"
  by (auto simp: find_row_def find_None_iff)

lemma find_row_unique:
  "distinct (hashes rs) \<Longrightarrow> r \<in> set rs \<Longrightarrow> find_row (row_hash r) rs = Some r"
  by (induction rs) (auto simp: find_row_def)

lemma find_row_snoc: "find_row (row_hash r) (insert_or_replace r rs) = Some r"
proof -
  have "find_row (row_hash r) (delete_row (row_hash r) rs) = None" by (simp add: find_row_None)
  moreover have "List.find P (xs @ [y]) = (case List.find P xs of None \<Rightarrow> List.find P [y] | Some z \<Rightarrow> Some z)"
    for P :: "cache_row \<Rightarrow> bool" and xs y by (induction xs) auto
  ultimately show ?thesis by (simp add: find_row_def insert_or_replace_def)
qed

lemma hashes_update_row:
  "(\<And>r. row_hash (f r) = row_hash r) \<Longrightarrow> hashes (update_row h f rs) = hashes rs"
  by (auto simp: update_row_def)

lemma sizes_update_row:
  "(\<And>r. row_size (f r) = row_size r) \<Longrightarrow> total_size_of (update_row h f rs) = total_size_of rs"
proof -
  assume "\<And>r. row_size (f r) = row_size r"
  then have "map row_size (update_row h f rs) = map row_size rs" by (auto simp: update_row_def)
  then show ?thesis by (simp add: total_size_of_def)
qed

subsection \<open>Eviction\<close>

lemma evict_ends:
  assumes env: "picks_oldest env" and flt: "\<not> f_delete flt"
  shows "length rs < fuel \<Longrightarrow> \<exists>rs' d'. evict_loop env flt dir mx fuel rs d = Some (rs', d')"
proof (induction fuel arbitrary: rs d)
  case 0
  then show ?case by simp
next
  case (Suc fuel)
  show ?case
  proof (cases "pick_oldest env rs")
    case None
    then show ?thesis by simp
  next
    case (Some r)
    have "r \<in> set rs" using oldest_choice.pick_Some [OF env Some] by blast
    then have "length (delete_row (row_hash r) rs) < fuel" using length_delete_row [of r rs] Suc.prems by simp
    then show ?thesis using Suc.IH flt Some by simp
  qed
qed

lemma total_size_Nil [simp]: "total_size_of [] = 0"
  by (simp add: total_size_of_def)

text \<open>What is gone is no younger than what is left, and the last one that went had to go.\<close>

lemma evict_shape:
  assumes env: "picks_oldest env" and flt: "\<not> f_delete flt"
  shows "evict_loop env flt dir mx fuel rs d = Some (rs', d') \<Longrightarrow> distinct (hashes rs) \<Longrightarrow>
     total_size_of rs' \<le> mx \<and> set rs' \<subseteq> set rs \<and> distinct (hashes rs')
     \<and> (\<forall>x \<in> set rs'. \<forall>y \<in> set rs - set rs'. row_last_access y \<le> row_last_access x)
     \<and> (rs' = rs \<or> (\<exists>mid r. rs' = delete_row (row_hash r) mid \<and> r \<in> set mid \<and> set mid \<subseteq> set rs
          \<and> mx < total_size_of mid))"
proof (induction fuel arbitrary: rs d)
  case 0
  then show ?case by simp
next
  case (Suc fuel)
  show ?case
  proof (cases "total_size_of rs \<le> mx")
    case True
    then show ?thesis using Suc.prems by simp
  next
    case big: False
    then have "rs \<noteq> []" by auto
    then obtain r where r: "pick_oldest env rs = Some r"
      using oldest_choice.pick_None [OF env, of rs] by auto
    have old: "r \<in> set rs" "\<forall>x \<in> set rs. row_last_access r \<le> row_last_access x"
      using oldest_choice.pick_Some [OF env r] by auto
    let ?rest = "delete_row (row_hash r) rs"
    obtain d1 where ev: "evict_loop env flt dir mx fuel ?rest d1 = Some (rs', d')"
      using Suc.prems(1) big r flt by auto
    note ih = Suc.IH [OF ev distinct_delete_row [OF Suc.prems(2)]]
    have gone: "set rs - set rs' \<subseteq> (set ?rest - set rs') \<union> {r}"
    proof
      fix y assume y: "y \<in> set rs - set rs'"
      show "y \<in> (set ?rest - set rs') \<union> {r}"
      proof (cases "row_hash y = row_hash r")
        case True
        then have "y = r" using y old(1) Suc.prems(2) by (auto simp: distinct_map inj_on_def)
        then show ?thesis by simp
      next
        case False
        then show ?thesis using y by simp
      qed
    qed
    have lru: "\<forall>x \<in> set rs'. \<forall>y \<in> set rs - set rs'. row_last_access y \<le> row_last_access x"
    proof (intro ballI)
      fix x y assume x: "x \<in> set rs'" and y: "y \<in> set rs - set rs'"
      have "x \<in> set rs" using ih x by auto
      then show "row_last_access y \<le> row_last_access x" using gone y x ih old(2) by blast
    qed
    have "rs' = ?rest \<or> (\<exists>mid q. rs' = delete_row (row_hash q) mid \<and> q \<in> set mid \<and> set mid \<subseteq> set ?rest
          \<and> mx < total_size_of mid)" using ih by blast
    then have "\<exists>mid q. rs' = delete_row (row_hash q) mid \<and> q \<in> set mid \<and> set mid \<subseteq> set rs
          \<and> mx < total_size_of mid"
    proof
      assume "rs' = ?rest"
      then show ?thesis using old(1) big by (intro exI [of _ rs] exI [of _ r]) auto
    next
      assume "\<exists>mid q. rs' = delete_row (row_hash q) mid \<and> q \<in> set mid \<and> set mid \<subseteq> set ?rest
          \<and> mx < total_size_of mid"
      then show ?thesis by auto
    qed
    then show ?thesis using ih lru by auto
  qed
qed

text \<open>When rows cannot be deleted, an overfull cache keeps the loop, and the lock, for ever.\<close>

lemma evict_hangs:
  assumes "f_delete flt" "mx < total_size_of rs" "picks_oldest env"
  shows "evict_loop env flt dir mx fuel rs d = None"
proof (induction fuel arbitrary: d)
  case 0
  then show ?case by simp
next
  case (Suc fuel)
  have "rs \<noteq> []" using assms(2) by auto
  then have "pick_oldest env rs \<noteq> None" using oldest_choice.pick_None [OF assms(3)] by blast
  then show ?case using Suc assms by auto
qed

subsection \<open>Headers survive\<close>

lemma map_of_map_filter:
  "map_of (List.map_filter (\<lambda>k. map_option (Pair k) (g k)) ks) k = (if k \<in> set ks then g k else None)"
  by (induction ks) (auto simp: List.map_filter_simps split: option.splits)

lemma headers_to_map_alt:
  "headers_to_map hs = List.map_filter (\<lambda>k. map_option (Pair k) (header_text k hs)) stored_header_names"
  unfolding headers_to_map_def header_text_def
  by (rule arg_cong [of _ _ "\<lambda>f. List.map_filter f stored_header_names"]) (auto split: option.splits)

lemma headers_to_map_get:
  "map_of (headers_to_map hs) k = (if k \<in> set stored_header_names then header_text k hs else None)"
  by (simp only: headers_to_map_alt map_of_map_filter)

lemma fst_map_filter:
  "map fst (List.map_filter (\<lambda>k. map_option (Pair k) (g k)) ks) = filter (\<lambda>k. g k \<noteq> None) ks"
  by (induction ks) (auto simp: List.map_filter_simps split: option.splits)

lemma stored_names_ok:
  "distinct stored_header_names"
  "k \<in> set stored_header_names \<Longrightarrow> valid_name k"
  "k \<in> set stored_header_names \<Longrightarrow> to_ascii_lowercase k = k"
proof -
  show "distinct stored_header_names" by (simp add: stored_header_names_def)
  show "k \<in> set stored_header_names \<Longrightarrow> valid_name k"
    by (auto simp: stored_header_names_def valid_name_def token_char_def)
  show "k \<in> set stored_header_names \<Longrightarrow> to_ascii_lowercase k = k"
    by (auto simp: stored_header_names_def to_ascii_lowercase_def)
qed

lemma map_to_headers_clean:
  "distinct (map fst m) \<Longrightarrow> \<forall>(k, v) \<in> set m. valid_value v \<and> valid_name k \<and> to_ascii_lowercase k = k \<Longrightarrow>
     \<exists>r. map_to_headers m acc = Some r \<and>
       (\<forall>k. header_get k r = (case map_of m k of Some v \<Rightarrow> Some v | None \<Rightarrow> header_get k acc))"
proof (induction m arbitrary: acc)
  case Nil
  then show ?case by simp
next
  case (Cons p m)
  obtain k v where p: "p = (k, v)" by (cases p)
  obtain r where r: "map_to_headers m (header_insert k v acc) = Some r"
      "\<forall>x. header_get x r = (case map_of m x of Some w \<Rightarrow> Some w
         | None \<Rightarrow> header_get x (header_insert k v acc))"
    using Cons.IH [of "header_insert k v acc"] Cons.prems by auto
  have "map_of m k = None" using Cons.prems(1) p by (auto simp: map_of_eq_None_iff)
  then show ?case using r Cons.prems(2) p by (auto split: option.splits)
qed

lemma headers_survive:
  "\<exists>r. map_to_headers (headers_to_map hs) [] = Some r \<and>
     (\<forall>k. header_get k r = (if k \<in> set stored_header_names then header_text k hs else None))"
proof -
  have d: "distinct (map fst (headers_to_map hs))"
    unfolding headers_to_map_alt fst_map_filter using stored_names_ok(1) by simp
  have ok: "valid_value v \<and> valid_name k \<and> to_ascii_lowercase k = k"
    if "(k, v) \<in> set (headers_to_map hs)" for k v
  proof -
    have "map_of (headers_to_map hs) k = Some v" using d that by simp
    then have k: "k \<in> set stored_header_names" and "header_text k hs = Some v"
      unfolding headers_to_map_get by (auto split: if_splits)
    then have "\<forall>c \<in> set v. visible_char c"
      by (auto simp: header_text_def dest!: to_str_Some split: option.splits)
    then show ?thesis using k stored_names_ok visible_valid by blast
  qed
  then have "\<forall>(k, v) \<in> set (headers_to_map hs). valid_value v \<and> valid_name k \<and> to_ascii_lowercase k = k"
    by blast
  from map_to_headers_clean [OF d this, of "[]", unfolded header_get_Nil] obtain r
    where "map_to_headers (headers_to_map hs) [] = Some r"
      "\<forall>k. header_get k r = (case map_of (headers_to_map hs) k of Some v \<Rightarrow> Some v | None \<Rightarrow> None)"
    by blast
  then show ?thesis by (intro exI [of _ r]) (simp add: headers_to_map_get split: option.splits)
qed

subsection \<open>Where an entry lives\<close>

definition hex_hash :: "(string \<Rightarrow> string) \<Rightarrow> bool" where
  "hex_hash H \<longleftrightarrow> (\<forall>u. length (H u) = 64 \<and> set (H u) \<subseteq> set ''0123456789abcdef'')"

lemma hex_plain: "hex_hash H \<Longrightarrow> plain_name (H u) \<and> plain_name (take 2 (H u))"
proof -
  assume h: "hex_hash H"
  have len: "length (H u) = 64" "length (take 2 (H u)) = 2" using h by (simp_all add: hex_hash_def)
  have "CHR ''/'' \<notin> set (H u)" "CHR ''.'' \<notin> set (H u)" using h by (auto simp: hex_hash_def)
  moreover have "set (take 2 (H u)) \<subseteq> set (H u)" by (rule set_take_subset)
  ultimately show ?thesis using len unfolding plain_name_def by (auto dest: arg_cong [of _ _ length])
qed

definition efile :: "cache_env \<Rightarrow> string \<Rightarrow> string \<Rightarrow> string list" where
  "efile env dir u = resolve_path dir @ [take 2 (hash_of env u), hash_of env u]"

lemma efile_eq: "efile env dir u = efile env dir v \<longleftrightarrow> hash_of env u = hash_of env v"
  by (auto simp: efile_def)

lemma entry_not_abs: "hex_hash (hash_of env) \<Longrightarrow> \<not> starts_with (entry_file_name (hash_of env u)) ''/''"
  using plain_not_abs [of "take 2 (hash_of env u)"] hex_plain [of "hash_of env" u]
  by (simp add: entry_file_name_def)

lemma resolve_entry:
  "hex_hash (hash_of env) \<Longrightarrow>
     resolve_path (join_path dir (entry_file_name (hash_of env u))) = efile env dir u"
  using entry_not_abs [of env u] hex_plain [of "hash_of env" u]
  by (simp add: resolve_join entry_file_name_def walk_plain2 [simplified] efile_def)

subsection \<open>Table and files in step\<close>

text \<open>
  The entry of every URL: no row and no file, or a row for that hash with the size of the
  file that is there.
\<close>

definition entry_ok :: "cache_env \<Rightarrow> string \<Rightarrow> cache_row list \<Rightarrow> disk_files \<Rightarrow> string \<Rightarrow> bool" where
  "entry_ok env dir rs d u \<longleftrightarrow>
     (case find_row (hash_of env u) rs of
        None \<Rightarrow> am_get (efile env dir u) d = None
      | Some r \<Rightarrow> row_path r = entry_file_name (hash_of env u)
          \<and> (\<exists>hs. row_headers r = to_json env (headers_to_map hs))
          \<and> (\<exists>content. am_get (efile env dir u) d = Some content \<and> row_size r = int (length content)))"

definition table_ok :: "cache_env \<Rightarrow> string \<Rightarrow> cache_row list \<Rightarrow> disk_files \<Rightarrow> bool" where
  "table_ok env dir rs d \<longleftrightarrow>
     distinct (hashes rs) \<and> am_ok d \<and> (\<forall>r \<in> set rs. \<exists>u. row_hash r = hash_of env u)
     \<and> (\<forall>u. entry_ok env dir rs d u)"

lemma table_okI:
  "distinct (hashes rs) \<Longrightarrow> am_ok d \<Longrightarrow> \<forall>r \<in> set rs. \<exists>u. row_hash r = hash_of env u \<Longrightarrow>
     (\<And>u. entry_ok env dir rs d u) \<Longrightarrow> table_ok env dir rs d"
  by (simp add: table_ok_def)

lemma table_okD:
  assumes "table_ok env dir rs d"
  shows "distinct (hashes rs)" "am_ok d" "\<forall>r \<in> set rs. \<exists>u. row_hash r = hash_of env u"
    "entry_ok env dir rs d u"
  using assms by (simp_all add: table_ok_def)

definition cache_ok :: "cache_env \<Rightarrow> disk_cache \<Rightarrow> bool" where
  "cache_ok env c \<longleftrightarrow>
     \<not> c_poisoned c \<and> total_size_of (c_rows c) \<le> c_max_size c
     \<and> table_ok env (c_dir c) (c_rows c) (c_disk c)"

lemma find_delete_row:
  "find_row h (delete_row k rs) = (if h = k then None else find_row h rs)"
proof -
  have "find_row h (delete_row k rs) = find_row h rs" if "h \<noteq> k"
    using that by (induction rs) (auto simp: find_row_def delete_row_def)
  then show ?thesis by (auto simp: find_row_None)
qed

lemma find_update_row:
  "(\<And>r. row_hash (f r) = row_hash r) \<Longrightarrow>
     find_row h (update_row k f rs) = (if h = k then map_option f (find_row h rs) else find_row h rs)"
  by (induction rs) (auto simp: find_row_def update_row_def)

lemma find_insert_row:
  "find_row h (insert_or_replace r rs) = (if h = row_hash r then Some r else find_row h rs)"
proof (cases "h = row_hash r")
  case True
  then show ?thesis by (simp add: find_row_snoc)
next
  case False
  have "List.find P (xs @ [y]) = List.find P xs" if "\<not> P y" for P :: "cache_row \<Rightarrow> bool" and xs y
    using that by (induction xs) auto
  then have "find_row h (insert_or_replace r rs) = find_row h (delete_row (row_hash r) rs)"
    using False by (simp add: find_row_def insert_or_replace_def)
  then show ?thesis using False by (simp add: find_delete_row)
qed

lemma row_of_url:
  assumes "table_ok env dir rs d" "r \<in> set rs"
  obtains u where "row_hash r = hash_of env u" "find_row (hash_of env u) rs = Some r"
    "row_path r = entry_file_name (hash_of env u)"
proof -
  obtain u where u: "row_hash r = hash_of env u" using assms unfolding table_ok_def by blast
  have f: "find_row (hash_of env u) rs = Some r"
    using find_row_unique [of rs r] assms u unfolding table_ok_def by simp
  have "entry_ok env dir rs d u" using assms(1) unfolding table_ok_def by blast
  then show thesis using that u f by (simp add: entry_ok_def)
qed

lemma row_file_efile:
  assumes "hex_hash (hash_of env)" "table_ok env dir rs d" "r \<in> set rs" "row_hash r = hash_of env u"
  shows "row_file dir r = efile env dir u"
proof -
  obtain v where "row_hash r = hash_of env v" "row_path r = entry_file_name (hash_of env v)"
    using row_of_url [OF assms(2,3)] by blast
  then show ?thesis using resolve_entry [OF assms(1), of dir u] assms(4) by (simp add: row_file_def)
qed

text \<open>Dropping a row and its file.\<close>

lemma table_ok_drop:
  assumes "table_ok env dir rs d"
  shows "table_ok env dir (delete_row (hash_of env u) rs) (am_remove (efile env dir u) d)"
proof -
  have "entry_ok env dir (delete_row (hash_of env u) rs) (am_remove (efile env dir u) d) v" for v
  proof -
    have "entry_ok env dir rs d v" using assms unfolding table_ok_def by blast
    then show ?thesis by (auto simp: entry_ok_def find_delete_row efile_eq split: option.splits)
  qed
  then show ?thesis using assms distinct_delete_row [of rs] unfolding table_ok_def by auto
qed

lemma evict_table_ok:
  assumes "hex_hash (hash_of env)" "picks_oldest env"
  shows "table_ok env dir rs d \<Longrightarrow> evict_loop env no_faults dir mx fuel rs d = Some (rs', d') \<Longrightarrow>
     table_ok env dir rs' d'"
proof (induction fuel arbitrary: rs d)
  case 0
  then show ?case by simp
next
  case (Suc fuel)
  show ?case
  proof (cases "total_size_of rs \<le> mx \<or> pick_oldest env rs = None")
    case True
    then show ?thesis using Suc.prems by (auto split: if_splits)
  next
    case False
    then obtain r where r: "pick_oldest env rs = Some r" by auto
    have "r \<in> set rs" using oldest_choice.pick_Some [OF assms(2) r] by blast
    then obtain u where u: "row_hash r = hash_of env u" using row_of_url [OF Suc.prems(1)] by blast
    have "row_file dir r = efile env dir u"
      by (rule row_file_efile [OF assms(1) Suc.prems(1) \<open>r \<in> set rs\<close> u])
    then show ?thesis
      using Suc.IH [OF table_ok_drop [OF Suc.prems(1), of u]] Suc.prems(2) False r u
      by (simp add: no_faults_def)
  qed
qed

end
