(* ===== verification/Cache_Properties.thy ===== *)
theory Cache_Properties
  imports Cache_Safety
begin

text \<open>
  Every operation of the cache keeps table and files in step, in every reachable state, and
  the properties of the cache that follow.
\<close>

definition json_ok :: "cache_env \<Rightarrow> bool" where
  "json_ok env \<longleftrightarrow> (\<forall>hs. of_json env (to_json env (headers_to_map hs)) = Some (headers_to_map hs))"

definition sound_env :: "cache_env \<Rightarrow> bool" where
  "sound_env env \<longleftrightarrow> hex_hash (hash_of env) \<and> json_ok env \<and> picks_oldest env"

lemma table_ok_update:
  assumes t: "table_ok env dir rs d"
    and f: "\<And>r. row_hash (f r) = row_hash r" "\<And>r. row_path (f r) = row_path r" "\<And>r. row_size (f r) = row_size r"
    and h: "\<And>r. \<exists>hs. row_headers r = to_json env (headers_to_map hs) \<Longrightarrow>
      \<exists>hs. row_headers (f r) = to_json env (headers_to_map hs)"
  shows "table_ok env dir (update_row k f rs) d"
proof -
  have "entry_ok env dir (update_row k f rs) d u" for u
  proof -
    have "entry_ok env dir rs d u" using t unfolding table_ok_def by blast
    then show ?thesis using f h [OF exI]
      by (auto simp: entry_ok_def find_update_row [OF f(1)] split: option.splits)
  qed
  moreover have "\<forall>r \<in> set (update_row k f rs). \<exists>u. row_hash r = hash_of env u"
    using t f(1) unfolding table_ok_def update_row_def by auto
  moreover have "hashes (update_row k f rs) = hashes rs" by (rule hashes_update_row [OF f(1)])
  ultimately show ?thesis using table_okD [OF t] by (intro table_okI) simp_all
qed

text \<open>A lookup in a sound cache never panics and finds what the table says.\<close>

lemma lookup_sound:
  assumes env: "sound_env env" and ok: "cache_ok env c"
  shows "(case find_row (hash_of env url) (c_rows c) of
        None \<Rightarrow> lookup_entry env now url c = (None, c)
      | Some r \<Rightarrow> \<exists>hs. lookup_entry env now url c =
            (Some (join_path (c_dir c) (row_path r), hs, row_cached_at r),
             c\<lparr>c_rows := update_row (hash_of env url) (\<lambda>r. r\<lparr>row_last_access := now\<rparr>) (c_rows c)\<rparr>)
          \<and> map_to_headers (the (of_json env (row_headers r))) [] = Some hs)"
proof (cases "find_row (hash_of env url) (c_rows c)")
  case None
  then show ?thesis using ok by (simp add: lookup_entry_def cache_ok_def)
next
  case (Some r)
  have t: "table_ok env (c_dir c) (c_rows c) (c_disk c)" using ok by (simp add: cache_ok_def)
  have r: "r \<in> set (c_rows c)" "row_hash r = hash_of env url" using find_row_Some [OF Some] by auto
  have "entry_ok env (c_dir c) (c_rows c) (c_disk c) url" using t unfolding table_ok_def by blast
  then obtain hs content where e: "row_headers r = to_json env (headers_to_map hs)"
      "am_get (efile env (c_dir c) url) (c_disk c) = Some content"
    using Some by (auto simp: entry_ok_def)
  have fl: "row_file (c_dir c) r = efile env (c_dir c) url"
    using row_file_efile [OF _ t r] env by (simp add: sound_env_def)
  have "of_json env (row_headers r) = Some (headers_to_map hs)"
    using env e(1) by (simp add: sound_env_def json_ok_def)
  moreover obtain hs' where "map_to_headers (headers_to_map hs) [] = Some hs'"
    using headers_survive [of hs] by blast
  ultimately show ?thesis using Some ok e(2) fl
    by (simp add: lookup_entry_def cache_ok_def Let_def)
qed

lemma cache_ok_touch:
  "cache_ok env c \<Longrightarrow> cache_ok env
     (c\<lparr>c_rows := update_row h (\<lambda>r. r\<lparr>row_last_access := now\<rparr>) (c_rows c)\<rparr>)"
  using table_ok_update [of env "c_dir c" "c_rows c" "c_disk c" "\<lambda>r. r\<lparr>row_last_access := now\<rparr>" h]
    sizes_update_row [of "\<lambda>r. r\<lparr>row_last_access := now\<rparr>" h "c_rows c"]
  by (simp add: cache_ok_def)

lemma cache_ok_lookup: "sound_env env \<Longrightarrow> cache_ok env c \<Longrightarrow> cache_ok env (snd (lookup_entry env now url c))"
  using lookup_sound [of env c now url] cache_ok_touch [of env c "hash_of env url" now]
  by (auto split: option.splits)

lemma cache_ok_refresh: "cache_ok env c \<Longrightarrow> cache_ok env (snd (refresh env flt now url hs c))"
  using table_ok_update [of env "c_dir c" "c_rows c" "c_disk c"
      "\<lambda>r. r\<lparr>row_headers := to_json env (headers_to_map hs), row_cached_at := now\<rparr>" "hash_of env url"]
    sizes_update_row [of "\<lambda>r. r\<lparr>row_headers := to_json env (headers_to_map hs), row_cached_at := now\<rparr>"
      "hash_of env url" "c_rows c"]
  by (auto simp: cache_ok_def refresh_def)

subsection \<open>Storing\<close>

definition temp_free :: "cache_env \<Rightarrow> string \<Rightarrow> string list \<Rightarrow> bool" where
  "temp_free env dir p \<longleftrightarrow> (\<forall>u. p \<noteq> efile env dir u)"

definition new_row :: "cache_env \<Rightarrow> int \<Rightarrow> string \<Rightarrow> bytes \<Rightarrow> header_map \<Rightarrow> cache_row" where
  "new_row env now url content hs =
     \<lparr>row_hash = hash_of env url, row_url = url, row_size = int (length content),
      row_last_access = now, row_path = entry_file_name (hash_of env url),
      row_headers = to_json env (headers_to_map hs), row_cached_at = now\<rparr>"

lemma table_ok_store:
  assumes t: "table_ok env dir rs d" and tmp: "temp_free env dir tmp"
  shows "table_ok env dir (insert_or_replace (new_row env now url content hs) rs)
     (am_insert (efile env dir url) content (am_remove tmp d))"
proof -
  let ?r = "new_row env now url content hs"
  have h: "row_hash ?r = hash_of env url" by (simp add: new_row_def)
  have "entry_ok env dir (insert_or_replace ?r rs) (am_insert (efile env dir url) content (am_remove tmp d)) u"
    for u
  proof (cases "hash_of env u = hash_of env url")
    case True
    then show ?thesis by (auto simp: entry_ok_def find_insert_row h efile_eq) (auto simp: new_row_def)
  next
    case False
    have "entry_ok env dir rs d u" using t unfolding table_ok_def by blast
    moreover have "efile env dir u \<noteq> tmp" using tmp by (auto simp: temp_free_def)
    ultimately show ?thesis using False
      by (auto simp: entry_ok_def find_insert_row h efile_eq split: option.splits)
  qed
  moreover have "\<forall>r \<in> set (insert_or_replace ?r rs). \<exists>u. row_hash r = hash_of env u"
    using t h unfolding table_ok_def insert_or_replace_def by auto
  ultimately show ?thesis using table_okD [OF t] distinct_insert_or_replace [of rs ?r]
    by (intro table_okI) simp_all
qed

text \<open>What a store without faults does.\<close>

lemma store_cases:
  assumes env: "sound_env env" and ok: "cache_ok env c"
  shows "store env no_faults now url tmp hs c =
     (case am_get (resolve_path tmp) (c_disk c) of
        None \<Rightarrow> Some (Inl Cache_io, c)
      | Some content \<Rightarrow>
          (case evict_inner env no_faults (c_dir c) (c_max_size c)
              (insert_or_replace (new_row env now url content hs) (c_rows c))
              (am_insert (efile env (c_dir c) url) content (am_remove (resolve_path tmp) (c_disk c))) of
             None \<Rightarrow> None
           | Some (rs, d) \<Rightarrow>
               Some (Inr (join_path (c_dir c) (entry_file_name (hash_of env url))),
                     c\<lparr>c_rows := rs, c_disk := d\<rparr>)))"
proof -
  have "resolve_path (join_path (c_dir c) (entry_file_name (hash_of env url))) = efile env (c_dir c) url"
    using env by (simp add: resolve_entry sound_env_def)
  then show ?thesis using ok
    by (simp add: store_def no_faults_def new_row_def cache_ok_def Let_def
        split: option.splits prod.splits)
qed

lemma evict_inner_sound:
  assumes env: "sound_env env" and t: "table_ok env dir rs d"
  obtains rs' d' where "evict_inner env no_faults dir mx rs d = Some (rs', d')"
    "table_ok env dir rs' d'" "total_size_of rs' \<le> mx"
proof -
  have p: "picks_oldest env" "hex_hash (hash_of env)" using env by (simp_all add: sound_env_def)
  have nf: "\<not> f_delete no_faults" by (simp add: no_faults_def)
  obtain rs' d' where e: "evict_loop env no_faults dir mx (Suc (length rs)) rs d = Some (rs', d')"
    using evict_ends [OF p(1) nf lessI] by blast
  have "distinct (hashes rs)" using t by (simp add: table_ok_def)
  then show thesis
    using that [of rs' d'] e evict_table_ok [OF p(2,1) t e] evict_shape [OF p(1) nf e]
    by (simp add: evict_inner_def)
qed

lemma cache_ok_store:
  assumes env: "sound_env env" and ok: "cache_ok env c"
    and tmp: "temp_free env (c_dir c) (resolve_path tmp)"
  shows "\<exists>r c'. store env no_faults now url tmp hs c = Some (r, c') \<and> cache_ok env c'
      \<and> c_dir c' = c_dir c \<and> c_max_size c' = c_max_size c"
proof (cases "am_get (resolve_path tmp) (c_disk c)")
  case None
  then show ?thesis using store_cases [OF env ok] ok by simp
next
  case (Some content)
  have "table_ok env (c_dir c) (c_rows c) (c_disk c)" using ok by (simp add: cache_ok_def)
  from table_ok_store [OF this tmp] obtain rs d where
    "evict_inner env no_faults (c_dir c) (c_max_size c)
       (insert_or_replace (new_row env now url content hs) (c_rows c))
       (am_insert (efile env (c_dir c) url) content (am_remove (resolve_path tmp) (c_disk c))) = Some (rs, d)"
    "table_ok env (c_dir c) rs d" "total_size_of rs \<le> c_max_size c"
    by (rule evict_inner_sound [OF env])
  then show ?thesis using store_cases [OF env ok, of now url tmp hs] Some ok
    by (simp add: cache_ok_def)
qed

subsection \<open>Deleting\<close>

lemma guarded_unlink_entry:
  assumes "hex_hash (hash_of env)"
  shows "guarded_unlink no_faults dir (entry_file_name (hash_of env u)) d = am_remove (efile env dir u) d"
  using resolve_entry [OF assms, of dir u] join_starts_with [OF entry_not_abs [OF assms], of dir u]
  by (simp add: guarded_unlink_def no_faults_def Let_def)

lemma total_size_delete:
  assumes "\<forall>r \<in> set rs. 0 \<le> row_size r" "(\<Sum>r\<leftarrow>rs. row_size r) \<le> i64_max" "total_size_of rs \<le> mx"
  shows "total_size_of (delete_row h rs) \<le> mx"
proof -
  have le: "0 \<le> (\<Sum>r\<leftarrow>delete_row h rs. row_size r) \<and> (\<Sum>r\<leftarrow>delete_row h rs. row_size r) \<le> (\<Sum>r\<leftarrow>rs. row_size r)"
    using assms(1) by (induction rs) (auto simp: delete_row_def)
  then have "total_size_of rs = nat (\<Sum>r\<leftarrow>rs. row_size r)"
    "total_size_of (delete_row h rs) = nat (\<Sum>r\<leftarrow>delete_row h rs. row_size r)"
    using assms(2) by (simp_all add: total_size_of_def Let_def)
  then show ?thesis
    using le assms(3) nat_mono [of "\<Sum>r\<leftarrow>delete_row h rs. row_size r" "\<Sum>r\<leftarrow>rs. row_size r"] by linarith
qed

text \<open>The limit is kept by deletions as long as the sum of all sizes fits an \<open>i64\<close>.\<close>

definition sizes_fit :: "cache_row list \<Rightarrow> bool" where
  "sizes_fit rs \<longleftrightarrow> (\<Sum>r\<leftarrow>rs. row_size r) \<le> i64_max"

lemma table_sizes_nonneg: "table_ok env dir rs d \<Longrightarrow> r \<in> set rs \<Longrightarrow> 0 \<le> row_size r"
proof -
  assume t: "table_ok env dir rs d" and "r \<in> set rs"
  then obtain u where "find_row (hash_of env u) rs = Some r" by (rule row_of_url)
  then show ?thesis using table_okD(4) [OF t, of u] by (auto simp: entry_ok_def)
qed

lemma sizes_fit_delete: "table_ok env dir rs d \<Longrightarrow> sizes_fit rs \<Longrightarrow> sizes_fit (delete_row h rs)"
proof -
  assume t: "table_ok env dir rs d" and "sizes_fit rs"
  moreover have "(\<Sum>r\<leftarrow>delete_row h rs. row_size r) \<le> (\<Sum>r\<leftarrow>rs. row_size r)"
    if "\<forall>r \<in> set rs. 0 \<le> row_size r" using that by (induction rs) (auto simp: delete_row_def)
  ultimately show ?thesis using table_sizes_nonneg [OF t] by (force simp: sizes_fit_def)
qed

lemma delete_urls_ok:
  assumes h: "hex_hash (hash_of env)"
  shows "cache_ok env c \<Longrightarrow> sizes_fit (c_rows c) \<Longrightarrow> delete_urls env no_faults urls n c = (r, c') \<Longrightarrow>
     cache_ok env c' \<and> c_dir c' = c_dir c \<and> c_max_size c' = c_max_size c
     \<and> (\<forall>u \<in> set urls. am_get (efile env (c_dir c) u) (c_disk c') = None)
     \<and> (\<forall>p. (\<forall>u \<in> set urls. p \<noteq> efile env (c_dir c) u) \<longrightarrow> am_get p (c_disk c') = am_get p (c_disk c))
     \<and> (\<forall>p. am_get p (c_disk c) = None \<longrightarrow> am_get p (c_disk c') = None)"
proof (induction urls arbitrary: n c)
  case Nil
  then show ?case by simp
next
  case (Cons url urls)
  have t: "table_ok env (c_dir c) (c_rows c) (c_disk c)" using Cons.prems(1) by (simp add: cache_ok_def)
  show ?case
  proof (cases "find_row (hash_of env url) (c_rows c)")
    case None
    then have "am_get (efile env (c_dir c) url) (c_disk c) = None"
      using table_okD(4) [OF t, of url] by (simp add: entry_ok_def)
    then show ?thesis using Cons.IH [OF Cons.prems(1,2)] Cons.prems(3) None by auto
  next
    case (Some q)
    have path: "row_path q = entry_file_name (hash_of env url)"
      using table_okD(4) [OF t, of url] Some by (simp add: entry_ok_def)
    let ?c1 = "c\<lparr>c_disk := am_remove (efile env (c_dir c) url) (c_disk c),
        c_rows := delete_row (hash_of env url) (c_rows c)\<rparr>"
    have run: "delete_urls env no_faults urls (n + 1) ?c1 = (r, c')"
      using Cons.prems(3) Some path guarded_unlink_entry [OF h]
      by (simp add: Let_def no_faults_def)
    have "total_size_of (c_rows ?c1) \<le> c_max_size c"
      using total_size_delete [of "c_rows c"] table_sizes_nonneg [OF t] Cons.prems(1,2)
      by (simp add: cache_ok_def sizes_fit_def)
    then have ok1: "cache_ok env ?c1"
      using Cons.prems(1) table_ok_drop [OF t, of url] by (simp add: cache_ok_def)
    have "sizes_fit (c_rows ?c1)" using sizes_fit_delete [OF t Cons.prems(2)] by simp
    then show ?thesis using Cons.IH [OF ok1 _ run] by auto
  qed
qed

lemma cache_ok_clear:
  assumes h: "hex_hash (hash_of env)" and ok: "cache_ok env c"
  shows "cache_ok env (snd (clear_all no_faults c)) \<and> fst (clear_all no_faults c) = Inr (length (c_rows c))
     \<and> c_rows (snd (clear_all no_faults c)) = []"
proof -
  have t: "table_ok env (c_dir c) (c_rows c) (c_disk c)" using ok by (simp add: cache_ok_def)
  let ?un = "\<lambda>r. guarded_unlink no_faults (c_dir c) (row_path r)"
  have keep: "am_get p d = None \<Longrightarrow> am_get p (fold ?un rs d) = None" for p rs d
    by (induction rs arbitrary: d) (auto simp: guarded_unlink_def Let_def)
  have amok: "am_ok d \<Longrightarrow> am_ok (fold ?un rs d)" for rs d
    by (induction rs arbitrary: d) (auto simp: guarded_unlink_def Let_def)
  have gone: "am_get (efile env (c_dir c) u) (fold ?un rs d) = None"
    if "r \<in> set rs" "row_path r = entry_file_name (hash_of env u)" for r u rs d
    using that
  proof (induction rs arbitrary: d)
    case Nil
    then show ?case by simp
  next
    case (Cons q rs)
    show ?case
    proof (cases "q = r")
      case True
      then have "fold ?un (q # rs) d = fold ?un rs (am_remove (efile env (c_dir c) u) d)"
        using Cons.prems(2) guarded_unlink_entry [OF h] by simp
      then show ?thesis using keep [of "efile env (c_dir c) u" "am_remove (efile env (c_dir c) u) d" rs]
        by simp
    next
      case False
      then show ?thesis using Cons.IH Cons.prems by simp
    qed
  qed
  have none: "am_get (efile env (c_dir c) u) (fold ?un (c_rows c) (c_disk c)) = None" for u
  proof (cases "find_row (hash_of env u) (c_rows c)")
    case None
    then show ?thesis using table_okD(4) [OF t, of u] keep by (simp add: entry_ok_def)
  next
    case (Some r)
    then have "row_path r = entry_file_name (hash_of env u)"
      using table_okD(4) [OF t, of u] by (simp add: entry_ok_def)
    then show ?thesis using find_row_Some [OF Some] by (intro gone) auto
  qed
  let ?d = "fold ?un (c_rows c) (c_disk c)"
  have d: "am_ok ?d" by (rule amok [OF table_okD(2) [OF t]])
  have "table_ok env (c_dir c) [] (filter (\<lambda>p. P (fst p)) ?d)" for P
    by (rule table_okI) (use d none in \<open>auto simp: entry_ok_def find_row_def am_get_filter\<close>)
  then show ?thesis using ok by (simp add: clear_all_def cache_ok_def no_faults_def Let_def)
qed

subsection \<open>Every reachable cache is in step\<close>

text \<open>
  The operations without faults, and a download that writes a file of its own beside the
  entries.
\<close>

inductive cache_step :: "cache_env \<Rightarrow> disk_cache \<Rightarrow> disk_cache \<Rightarrow> bool" for env where
  Step_temp: "temp_free env (c_dir c) p \<Longrightarrow> cache_step env c (c\<lparr>c_disk := am_insert p content (c_disk c)\<rparr>)"
| Step_lookup: "cache_step env c (snd (lookup_entry env now url c))"
| Step_refresh: "cache_step env c (snd (refresh env flt now url hs c))"
| Step_store: "store env no_faults now url tmp hs c = Some (r, c') \<Longrightarrow>
     temp_free env (c_dir c) (resolve_path tmp) \<Longrightarrow> cache_step env c c'"
| Step_delete: "sizes_fit (c_rows c) \<Longrightarrow> cache_step env c (snd (delete_by_urls env no_faults urls c))"
| Step_clear: "cache_step env c (snd (clear_all no_faults c))"

inductive cache_reach :: "cache_env \<Rightarrow> disk_cache \<Rightarrow> bool" for env where
  Reach_new: "cache_reach env (new_cache dir mx None [])"
| Reach_step: "cache_reach env c \<Longrightarrow> cache_step env c c' \<Longrightarrow> cache_reach env c'"

lemma cache_ok_new: "cache_ok env (new_cache dir mx None [])"
  by (auto simp: cache_ok_def new_cache_def migrate_schema_def entry_ok_def find_row_def
      intro!: table_okI)

lemma cache_ok_temp:
  assumes "cache_ok env c" "temp_free env (c_dir c) p"
  shows "cache_ok env (c\<lparr>c_disk := am_insert p content (c_disk c)\<rparr>)"
proof -
  have t: "table_ok env (c_dir c) (c_rows c) (c_disk c)" using assms(1) by (simp add: cache_ok_def)
  have "entry_ok env (c_dir c) (c_rows c) (am_insert p content (c_disk c)) u" for u
  proof -
    have "efile env (c_dir c) u \<noteq> p" using assms(2) by (auto simp: temp_free_def)
    then show ?thesis using table_okD(4) [OF t, of u] by (simp add: entry_ok_def split: option.splits)
  qed
  then have "table_ok env (c_dir c) (c_rows c) (am_insert p content (c_disk c))"
    using table_okD [OF t] by (intro table_okI) simp_all
  then show ?thesis using assms(1) by (simp add: cache_ok_def)
qed

lemma cache_step_ok:
  assumes env: "sound_env env" and step: "cache_step env c c'" and ok: "cache_ok env c"
  shows "cache_ok env c'"
  using step
proof (cases rule: cache_step.cases)
  case (Step_temp p content)
  then show ?thesis using cache_ok_temp [OF ok] by simp
next
  case (Step_lookup now url)
  then show ?thesis using cache_ok_lookup [OF env ok] by simp
next
  case (Step_refresh flt now url hs)
  then show ?thesis using cache_ok_refresh [OF ok] by simp
next
  case (Step_store now url tmp hs r)
  then show ?thesis using cache_ok_store [OF env ok Step_store(2), of now url hs] by auto
next
  case (Step_delete urls)
  obtain r c2 where "delete_urls env no_faults urls 0 c = (r, c2)" by fastforce
  moreover have "\<not> c_poisoned c" using ok by (simp add: cache_ok_def)
  ultimately show ?thesis
    using delete_urls_ok [OF _ ok Step_delete(2)] Step_delete env
    by (simp add: delete_by_urls_def sound_env_def)
next
  case Step_clear
  then show ?thesis using cache_ok_clear [OF _ ok] env by (simp add: sound_env_def)
qed

lemma cache_reach_ok:
  assumes env: "sound_env env" and "cache_reach env c"
  shows "cache_ok env c"
  using assms(2) by induction (auto intro: cache_ok_new cache_step_ok [OF env])

subsection \<open>An environment for the witnesses\<close>

text \<open>A writer and a reader of headers, one line for a name and one for its value.\<close>

fun pair_up :: "string list \<Rightarrow> header_map" where
  "pair_up (k # v # r) = (k, v) # pair_up r"
| "pair_up _ = []"

definition demo_env :: cache_env where
  "demo_env =
     \<lparr>hash_of = (\<lambda>u. replicate 64 (if u = ''u'' then CHR ''a'' else CHR ''b'')),
      to_json = (\<lambda>h. join [CHR 0x0A] (concat (map (\<lambda>(k, v). [k, v]) h))),
      of_json = (\<lambda>s. Some (pair_up (split_on (CHR 0x0A) s))),
      pick_oldest = first_oldest\<rparr>"

lemma headers_to_map_lines:
  assumes "(k, v) \<in> set (headers_to_map hs)"
  shows "CHR 0x0A \<notin> set k \<and> CHR 0x0A \<notin> set v"
proof -
  have "distinct (map fst (headers_to_map hs))"
    unfolding headers_to_map_alt fst_map_filter using stored_names_ok(1) by simp
  then have "map_of (headers_to_map hs) k = Some v" using assms by simp
  then have k: "k \<in> set stored_header_names" and "header_text k hs = Some v"
    unfolding headers_to_map_get by (auto split: if_splits)
  then have "\<forall>c \<in> set v. visible_char c"
    by (auto simp: header_text_def dest!: to_str_Some split: option.splits)
  moreover have "\<not> visible_char (CHR 0x0A)" by (simp add: visible_char_def)
  ultimately show ?thesis using k by (auto simp: stored_header_names_def)
qed

lemma sound_demo: "sound_env demo_env"
proof -
  have pu: "pair_up (concat (map (\<lambda>(k, v). [k, v]) h)) = h" for h :: header_map
    by (induction h) auto
  have "pair_up (split_on (CHR 0x0A) (join [CHR 0x0A] (concat (map (\<lambda>(k, v). [k, v]) h)))) = h"
    if "\<forall>p \<in> set h. CHR 0x0A \<notin> set (fst p) \<and> CHR 0x0A \<notin> set (snd p)" for h :: header_map
  proof (cases h)
    case Nil
    then show ?thesis by simp
  next
    case (Cons q r)
    have "split_on (CHR 0x0A) (join [CHR 0x0A] (concat (map (\<lambda>(k, v). [k, v]) h)))
        = concat (map (\<lambda>(k, v). [k, v]) h)"
      by (rule split_on_join) (use that Cons in \<open>cases q, auto\<close>)
    then show ?thesis by (simp add: pu)
  qed
  then have "json_ok demo_env"
    unfolding json_ok_def demo_env_def using headers_to_map_lines by fastforce
  moreover have "hex_hash (hash_of demo_env)" by (auto simp: hex_hash_def demo_env_def)
  moreover have "picks_oldest demo_env" using scan.oldest_choice_axioms by (simp add: demo_env_def)
  ultimately show ?thesis by (simp add: sound_env_def)
qed

subsection \<open>Properties of the cache\<close>



lemma stored_found:
  assumes "sound_env env" and "cache_ok env c" and "temp_free env (c_dir c) (resolve_path tmp)"
    and "am_get (resolve_path tmp) (c_disk c) = Some content"
    and "total_size_of (insert_or_replace (new_row env now url content hs) (c_rows c)) \<le> c_max_size c"
  shows "\<exists>path c' hs'. store env no_faults now url tmp hs c = Some (Inr path, c')
     \<and> fst (lookup_entry env later url c') = Some (path, hs', now)
     \<and> am_get (resolve_path path) (c_disk c') = Some content
     \<and> (\<forall>k. header_get k hs' = (if k \<in> set stored_header_names then header_text k hs else None))"
proof -
  let ?row = "new_row env now url content hs"
  let ?rs = "insert_or_replace ?row (c_rows c)"
  let ?d = "am_insert (efile env (c_dir c) url) content (am_remove (resolve_path tmp) (c_disk c))"
  let ?path = "join_path (c_dir c) (entry_file_name (hash_of env url))"
  let ?c' = "c\<lparr>c_rows := ?rs, c_disk := ?d\<rparr>"
  have "evict_inner env no_faults (c_dir c) (c_max_size c) ?rs ?d = Some (?rs, ?d)"
    using assms(5) by (simp add: evict_inner_def)
  then have st: "store env no_faults now url tmp hs c = Some (Inr ?path, ?c')"
    using store_cases [OF assms(1,2), of now url tmp hs] assms(4) by simp
  have ok: "cache_ok env ?c'"
    using cache_ok_store [OF assms(1-3), of now url hs] st by simp
  have path: "resolve_path ?path = efile env (c_dir c) url"
    using assms(1) by (simp add: resolve_entry sound_env_def)
  have find: "find_row (hash_of env url) ?rs = Some ?row"
    by (simp add: find_insert_row new_row_def)
  obtain r where r: "map_to_headers (headers_to_map hs) [] = Some r"
      "\<forall>k. header_get k r = (if k \<in> set stored_header_names then header_text k hs else None)"
    using headers_survive [of hs] by blast
  have "of_json env (row_headers ?row) = Some (headers_to_map hs)"
    using assms(1) by (simp add: new_row_def sound_env_def json_ok_def)
  then have "fst (lookup_entry env later url ?c') = Some (?path, r, now)"
    using lookup_sound [OF assms(1) ok, of later url] find r(1) by (auto simp: new_row_def)
  then show ?thesis using st path r(2) by (intro exI [of _ ?path] exI [of _ ?c'] exI [of _ r]) simp
qed

text \<open>
  C27. What is stored is found again: when the new entry fits beside the others, a lookup of its
  URL returns the path of a file with exactly the downloaded bytes, the time of the store, and
  for each of the seven kept headers what the response had.
\<close>

theorem store_then_lookup:
  assumes "sound_env env" and "cache_ok env c" and "temp_free env (c_dir c) (resolve_path tmp)"
    and "am_get (resolve_path tmp) (c_disk c) = Some content"
    and "total_size_of (insert_or_replace (new_row env now url content hs) (c_rows c)) \<le> c_max_size c"
  shows "\<exists>path c' hs'. store env no_faults now url tmp hs c = Some (Inr path, c')
     \<and> fst (lookup_entry env later url c') = Some (path, hs', now)
     \<and> am_get (resolve_path path) (c_disk c') = Some content
     \<and> (\<forall>k. header_get k hs' = (if k \<in> set stored_header_names then header_text k hs else None))"
  by (rule stored_found [OF assms])

theorem store_then_lookup_witness:
  "let c = (new_cache ''/c'' 10 None [])\<lparr>c_disk := [([''c'', ''tmp'', ''x''], [1, 2])]\<rparr>
   in \<exists>path c' hs'. store demo_env no_faults 5 ''u'' ''/c/tmp/x'' [(''etag'', ''e1''), (''x-y'', ''z'')] c
         = Some (Inr path, c')
       \<and> fst (lookup_entry demo_env 9 ''u'' c') = Some (path, hs', 5)
       \<and> am_get (resolve_path path) (c_disk c') = Some [1, 2] \<and> header_get ''etag'' hs' = Some ''e1''"
proof -
  let ?c = "(new_cache ''/c'' 10 None [])\<lparr>c_disk := am_insert [''c'', ''tmp'', ''x''] [1, 2] []\<rparr>"
  have res: "resolve_path ''/c/tmp/x'' = [''c'', ''tmp'', ''x'']" "resolve_path ''/c'' = [''c'']"
    by (simp_all add: resolve_path_def walk_def walk_step_def)
  have free: "temp_free demo_env (c_dir (new_cache ''/c'' 10 None [])) [''c'', ''tmp'', ''x'']"
    by (auto simp: temp_free_def efile_def res demo_env_def numeral_2_eq_2 new_cache_def)
  have ok: "cache_ok demo_env ?c"
    using cache_ok_temp [OF cache_ok_new free, of "[1, 2]"] by (simp add: new_cache_def)
  obtain path c' hs' where
    st: "store demo_env no_faults 5 ''u'' ''/c/tmp/x'' [(''etag'', ''e1''), (''x-y'', ''z'')] ?c
         = Some (Inr path, c')"
      "fst (lookup_entry demo_env 9 ''u'' c') = Some (path, hs', 5)"
      "am_get (resolve_path path) (c_disk c') = Some [1, 2]"
    and hs: "\<forall>k. header_get k hs' = (if k \<in> set stored_header_names
           then header_text k [(''etag'', ''e1''), (''x-y'', ''z'')] else None)"
  proof (atomize_elim, rule store_then_lookup [OF sound_demo ok])
  qed (use free in \<open>simp_all add: res new_cache_def insert_or_replace_def delete_row_def
        migrate_schema_def new_row_def total_size_of_def to_u64_def\<close>)
  have "header_get ''etag'' hs' = Some ''e1''"
    using hs by (simp add: header_text_def to_str_def visible_char_def stored_header_names_def)
  moreover have "?c = (new_cache ''/c'' 10 None [])\<lparr>c_disk := [([''c'', ''tmp'', ''x''], [1, 2])]\<rparr>"
    by simp
  ultimately show ?thesis using st unfolding Let_def by metis
qed



text \<open>
  The guard of the deletion does not do what it says: a stored path that climbs out of the
  cache directory with dots passes \<open>starts_with\<close>, because dots are components like any other,
  and the file outside the directory is removed.
\<close>

lemma delete_guard_lets_dots_through:
  "let r = \<lparr>row_hash = hash_of env url, row_url = url, row_size = 1, row_last_access = 0,
            row_path = ''../p'', row_headers = [], row_cached_at = 0\<rparr>;
       c = \<lparr>c_dir = ''/c'', c_max_size = 10, c_rows = [r],
            c_disk = [([''p''], [7])], c_poisoned = False\<rparr>
   in path_starts_with (join_path (c_dir c) (row_path r)) (c_dir c)
      \<and> c_disk (snd (delete_by_urls env no_faults [url] c)) = []"
proof -
  have j: "join_path ''/c'' ''../p'' = ''/c/../p''"
    by (simp add: join_path_def starts_with_def ends_with_def)
  have g: "path_starts_with ''/c/../p'' ''/c''"
    by (simp add: path_starts_with_def path_components_def starts_with_def Let_def)
  have w: "resolve_path ''/c/../p'' = [''p'']"
    by (simp add: resolve_path_def walk_def walk_step_def)
  show ?thesis
    by (simp add: delete_by_urls_def find_row_def guarded_unlink_def no_faults_def am_remove_def
        Let_def j g w)
qed

end
