(* ===== verification/Ftp_Url.thy ===== *)
theory Ftp_Url
  imports Rust_Str
begin

unbundle bit_operations_syntax

text \<open>
  The parsers of \<open>src/src/ftp.rs\<close>: FTP URLs with their normalised path, and the answer to
  the PASV command.
\<close>

record ftp_url =
  ftp_scheme :: string
  ftp_username :: "string option"
  ftp_password :: "string option"
  ftp_host :: string
  ftp_port :: nat
  ftp_path :: string

datatype ftp_url_error = Not_ftp string | Bad_port string | Empty_host string

definition path_step :: "string \<Rightarrow> string list \<Rightarrow> string list" where
  "path_step part segs =
     (if part = [] \<or> part = ''.'' then segs
      else if part = ''..'' then butlast segs
      else segs @ [part])"

definition normalize_ftp_path :: "string \<Rightarrow> string" where
  "normalize_ftp_path path = ''/'' @ join ''/'' (fold path_step (split_on (CHR ''/'') path) [])"

definition split_userinfo :: "string \<Rightarrow> string \<times> string" where
  "split_userinfo rest =
     (let first_slash = find_char ((=) (CHR ''/'')) rest;
          before = (case first_slash of Some i \<Rightarrow> take i rest | None \<Rightarrow> rest)
      in case rfind_char ((=) (CHR ''@'')) before of
           Some idx \<Rightarrow> (take idx rest, drop (idx + 1) rest)
         | None \<Rightarrow> ([], rest))"

definition split_credentials :: "string \<Rightarrow> string option \<times> string option" where
  "split_credentials ui =
     (if ui = [] then (None, None)
      else (case split_once (CHR '':'') ui of
              Some (u, p) \<Rightarrow> (Some u, Some p)
            | None \<Rightarrow> (Some ui, None)))"

definition parse_ftp_url :: "string \<Rightarrow> ftp_url_error + ftp_url" where
  "parse_ftp_url url =
     bind_res
       (case strip_prefix ''ftps://'' url of
          Some s \<Rightarrow> Inr (''ftps'', s)
        | None \<Rightarrow> (case strip_prefix ''ftp://'' url of
            Some s \<Rightarrow> Inr (''ftp'', s)
          | None \<Rightarrow> Inl (Not_ftp url)))
       (\<lambda>(scheme, rest).
          let (userinfo, hostportpath) = split_userinfo rest;
              (user, pass) = split_credentials userinfo;
              (hostport, path) =
                (case find_char ((=) (CHR ''/'')) hostportpath of
                   Some i \<Rightarrow> (take i hostportpath, drop i hostportpath)
                 | None \<Rightarrow> (hostportpath, ''/''))
          in bind_res
            (case split_once (CHR '':'') hostport of
               Some (h, p) \<Rightarrow> (case parse_uint u16_max p of
                   Some n \<Rightarrow> Inr (h, n) | None \<Rightarrow> Inl (Bad_port p))
             | None \<Rightarrow> Inr (hostport, if scheme = ''ftps'' then 990 else 21))
            (\<lambda>(h, n).
               if h = [] then Inl (Empty_host url)
               else Inr \<lparr>ftp_scheme = scheme, ftp_username = user, ftp_password = pass,
                         ftp_host = h, ftp_port = n, ftp_path = normalize_ftp_path path\<rparr>))"

datatype pasv_error = Invalid_field string | Too_few_fields string

definition pasv_body :: "string \<Rightarrow> string" where
  "pasv_body resp =
     (case find_char ((=) (CHR ''('')) resp of
        Some s \<Rightarrow> (case find_char ((=) (CHR '')'')) (drop s resp) of
            Some e \<Rightarrow> take (e - 1) (drop (s + 1) resp)
          | None \<Rightarrow> (case strip_prefix ''227 '' resp of Some r \<Rightarrow> r | None \<Rightarrow> resp))
      | None \<Rightarrow> (case strip_prefix ''227 '' resp of Some r \<Rightarrow> r | None \<Rightarrow> resp))"

definition pasv_port :: "nat \<Rightarrow> nat \<Rightarrow> u16" where
  "pasv_port p1 p2 = push_bit 8 (of_nat p1) OR of_nat p2"

definition parse_pasv :: "string \<Rightarrow> pasv_error + string \<times> u16" where
  "parse_pasv resp =
     bind_res (collect_res (map (\<lambda>s. ok_or (parse_uint u8_max (trim s)) (Invalid_field s))
                 (split_on (CHR '','') (pasv_body resp))))
       (\<lambda>nums.
          if length nums < 6 then Inl (Too_few_fields resp)
          else Inr (join ''.'' (map dec (take 4 nums)), pasv_port (nums ! 4) (nums ! 5)))"

subsection \<open>Facts on the normalised path\<close>

definition plain_segment :: "string \<Rightarrow> bool" where
  "plain_segment s \<longleftrightarrow> s \<noteq> [] \<and> s \<noteq> ''.'' \<and> s \<noteq> ''..'' \<and> CHR ''/'' \<notin> set s"

lemma path_steps_plain:
  "\<forall>p \<in> set ps. CHR ''/'' \<notin> set p \<Longrightarrow> \<forall>s \<in> set segs. plain_segment s \<Longrightarrow>
     \<forall>s \<in> set (fold path_step ps segs). plain_segment s"
proof (induction ps arbitrary: segs)
  case Nil
  then show ?case by simp
next
  case (Cons p ps)
  have "\<forall>s \<in> set (path_step p segs). plain_segment s"
    using Cons.prems by (auto simp: path_step_def plain_segment_def dest: in_set_butlastD)
  then show ?case using Cons.IH Cons.prems(1) by simp
qed

lemma path_steps_keep:
  "\<forall>s \<in> set ps. plain_segment s \<Longrightarrow> fold path_step ps segs = segs @ ps"
  by (induction ps arbitrary: segs) (auto simp: path_step_def plain_segment_def)

lemma split_join_segments:
  "\<forall>s \<in> set segs. plain_segment s \<Longrightarrow>
     split_on (CHR ''/'') (''/'' @ join ''/'' segs) = [] # (if segs = [] then [[]] else segs)"
  using split_on_join [of segs "CHR ''/''"] by (auto simp: plain_segment_def)

lemma normal_segments:
  "\<forall>s \<in> set (fold path_step (split_on (CHR ''/'') path) []). plain_segment s"
  using path_steps_plain [of "split_on (CHR ''/'') path" "[]"] split_on_no_sep by fastforce

text \<open>
  The path of a parsed FTP URL is absolute and cannot climb: every segment between its
  slashes is a real name, never empty, a dot or two dots, and normalising it again changes
  nothing.
\<close>

lemma ftp_path_is_normal:
  "\<exists>segs. normalize_ftp_path path = ''/'' @ join ''/'' segs
     \<and> (\<forall>s \<in> set segs. s \<noteq> [] \<and> s \<noteq> ''.'' \<and> s \<noteq> ''..'' \<and> CHR ''/'' \<notin> set s)
     \<and> normalize_ftp_path (normalize_ftp_path path) = normalize_ftp_path path"
proof -
  let ?segs = "fold path_step (split_on (CHR ''/'') path) []"
  note plain = normal_segments [of path]
  have n: "normalize_ftp_path path = ''/'' @ join ''/'' ?segs" by (simp add: normalize_ftp_path_def)
  have "fold path_step (split_on (CHR ''/'') (''/'' @ join ''/'' ?segs)) [] = ?segs"
    unfolding split_join_segments [OF plain]
    using path_steps_keep [OF plain, of "[]"] by (auto simp: path_step_def)
  then have "normalize_ftp_path (normalize_ftp_path path) = normalize_ftp_path path"
    unfolding n by (simp add: normalize_ftp_path_def)
  moreover have "\<forall>s \<in> set ?segs. s \<noteq> [] \<and> s \<noteq> ''.'' \<and> s \<noteq> ''..'' \<and> CHR ''/'' \<notin> set s"
    using plain by (simp add: plain_segment_def)
  ultimately show ?thesis using n by (intro exI [of _ ?segs]) simp
qed

lemma ftp_path_is_normal_witness:
  "\<exists>segs. normalize_ftp_path ''/a/../b//c'' = ''/'' @ join ''/'' segs \<and> ''..'' \<notin> set segs
     \<and> normalize_ftp_path (normalize_ftp_path ''/a/../b//c'') = normalize_ftp_path ''/a/../b//c''"
  using ftp_path_is_normal [of "''/a/../b//c''"] by blast

subsection \<open>The answer to PASV\<close>

lemma pasv_port_value:
  assumes "p1 < 256" "p2 < 256"
  shows "unat (pasv_port p1 p2) = p1 * 256 + p2"
proof -
  have "push_bit 8 (of_nat p1 :: u16) AND of_nat p2 = 0"
  proof (rule bit_eqI)
    fix n
    have "\<not> bit p2 n" if "8 \<le> n"
    proof -
      have "(2 :: nat) ^ 8 \<le> 2 ^ n" using that by (rule power_increasing) simp
      then have "p2 < 2 ^ n" using assms(2) by simp
      then show ?thesis by (simp add: bit_iff_odd)
    qed
    then show "bit (push_bit 8 (of_nat p1 :: u16) AND of_nat p2) n = bit (0 :: u16) n"
      by (auto simp: bit_simps)
  qed
  then have "pasv_port p1 p2 = push_bit 8 (of_nat p1) + of_nat p2"
    by (simp add: pasv_port_def disjunctive_add_eq_or)
  then have "pasv_port p1 p2 = of_nat (p1 * 256 + p2)" by (simp add: push_bit_eq_mult)
  moreover have "unat (of_nat (p1 * 256 + p2) :: u16) = p1 * 256 + p2"
    by (rule of_nat_inverse [OF refl]) (use assms in simp)
  ultimately show ?thesis by simp
qed

lemma find_char_first: "c \<notin> set a \<Longrightarrow> find_char ((=) c) (a @ c # b) = Some (length a)"
  by (induction a) auto

text \<open>
  C40. The address of the data connection is read back from every well-formed answer to PASV,
  whatever text precedes the parentheses: the four numbers of the host with dots, and the
  port as the two last numbers in base 256.
\<close>

theorem parse_pasv_roundtrip:
  assumes "length hs = 4" and "\<forall>x \<in> set hs. x < 256" and "p1 < 256" and "p2 < 256"
    and "CHR ''('' \<notin> set msg"
  shows "\<exists>port. parse_pasv (msg @ ''('' @ join '','' (map dec (hs @ [p1, p2])) @ '')'' @ tail) =
       Inr (join ''.'' (map dec hs), port) \<and> unat port = p1 * 256 + p2"
proof -
  let ?nums = "hs @ [p1, p2]"
  let ?body = "join '','' (map dec ?nums)"
  have no: "c \<notin> set ?body" if "\<not> is_digit c" "c \<noteq> CHR '',''" for c
    using set_join [of "'',''" "map dec ?nums"] dec_not_in [OF that(1)] that(2) by auto
  have body: "pasv_body (msg @ ''('' @ ?body @ '')'' @ tail) = ?body"
  proof -
    have "find_char ((=) (CHR ''('')) (msg @ CHR ''('' # ?body @ '')'' @ tail) = Some (length msg)"
      by (rule find_char_first [OF assms(5)])
    moreover have "find_char ((=) (CHR '')'')) ((CHR ''('' # ?body) @ CHR '')'' # tail)
        = Some (length (CHR ''('' # ?body))"
      by (rule find_char_first) (use no [of "CHR '')''"] in \<open>simp add: is_digit_def\<close>)
    ultimately show ?thesis by (simp add: pasv_body_def)
  qed
  have split: "split_on (CHR '','') ?body = map dec ?nums"
    by (rule split_on_join) (use dec_not_in [of "CHR '',''"] in auto)
  have "\<forall>x \<in> set ?nums. x \<le> u8_max" using assms(2-4) by auto
  then have parts: "map (\<lambda>s. ok_or (parse_uint u8_max (trim s)) (Invalid_field s)) (map dec ?nums)
      = map Inr ?nums"
    by (simp add: trim_dec parse_uint_dec)
  have "take 4 ?nums = hs" "?nums ! 4 = p1" "?nums ! 5 = p2" "length ?nums = 6"
    using assms(1) by (simp_all add: nth_append)
  then have "parse_pasv (msg @ ''('' @ ?body @ '')'' @ tail) = Inr (join ''.'' (map dec hs), pasv_port p1 p2)"
    unfolding parse_pasv_def body split parts collect_res_Inr by simp
  then show ?thesis using pasv_port_value [OF assms(3,4)] by blast
qed

theorem parse_pasv_roundtrip_witness:
  "\<exists>port. parse_pasv (''227 Entering Passive Mode '' @ ''('' @ join '','' (map dec [10, 0, 0, 7, 78, 32]) @ '')'' @ [])
     = Inr (join ''.'' (map dec [10, 0, 0, 7]), port) \<and> unat port = 20000"
  using parse_pasv_roundtrip [of "[10, 0, 0, 7]" 78 32 "''227 Entering Passive Mode ''" "[]"] by simp

end
