(* ===== verification/Ftp_Download.thy ===== *)
theory Ftp_Download
  imports Ftp_Url Segments_Buffer Token_Bucket
begin

text \<open>
  The FTP client of \<open>src/src/ftp.rs\<close>. The peer is a script: the lines the control connection
  will deliver, and for every data connection the pieces it will deliver. A control
  connection whose script is used up has been closed by the server; \<open>read_line\<close> then returns
  an empty line without an error, for ever. A call that does not return is the value
  \<open>None\<close>; the reading loop takes fuel. String slicing panics at a position that is not a
  character boundary or lies past the end.
\<close>

datatype ftp_failure =
    Connect_failed
  | Write_failed
  | Read_failed
  | Unexpected_code string
  | Ftps_unsupported
  | Bad_size string
  | Bad_pasv pasv_error
  | Ftp_panicked

datatype control_event = Line string | Control_error

record ftp_control =
  incoming :: "control_event list"
  sent :: "string list"
  writes_left :: "nat option"

fun trim_crlf_rev :: "string \<Rightarrow> string" where
  "trim_crlf_rev (a # b # r) =
     (if a = CHR 0x0A \<and> b = CHR 0x0D then trim_crlf_rev r else a # b # r)"
| "trim_crlf_rev r = r"

definition trim_end_crlf :: "string \<Rightarrow> string" where
  "trim_end_crlf s = rev (trim_crlf_rev (rev s))"

text \<open>A position where a UTF-8 string may be cut: not before a continuation byte.\<close>

definition char_boundary :: "nat \<Rightarrow> string \<Rightarrow> bool" where
  "char_boundary i s \<longleftrightarrow>
     i \<le> length s \<and> (i < length s \<longrightarrow> (let n = of_char (s ! i) :: nat in n < 128 \<or> 192 \<le> n))"

definition read_line :: "ftp_control \<Rightarrow> (ftp_failure + string) \<times> ftp_control" where
  "read_line c =
     (case incoming c of
        [] \<Rightarrow> (Inr [], c)
      | Line l # rest \<Rightarrow> (Inr l, c\<lparr>incoming := rest\<rparr>)
      | Control_error # rest \<Rightarrow> (Inl Read_failed, c\<lparr>incoming := rest\<rparr>))"

fun read_response_loop ::
    "nat \<Rightarrow> string option \<Rightarrow> string list \<Rightarrow> ftp_control \<Rightarrow> ((ftp_failure + string) \<times> ftp_control) option"
where
  "read_response_loop 0 expected ls c = None"
| "read_response_loop (Suc fuel) expected ls c =
     (case read_line c of
        (Inl e, c1) \<Rightarrow> Some (Inl e, c1)
      | (Inr line, c1) \<Rightarrow>
          let trimmed = trim_end_crlf line; ls1 = ls @ [trimmed] in
          if length trimmed \<ge> 4 then
            if \<not> char_boundary 3 trimmed \<or> \<not> char_boundary 4 trimmed then Some (Inl Ftp_panicked, c1)
            else if trimmed ! 3 = CHR '' '' then
              (case expected of
                 Some code \<Rightarrow>
                   if \<not> char_boundary 3 (hd ls1) then Some (Inl Ftp_panicked, c1)
                   else if take 3 (hd ls1) \<noteq> code
                   then Some (Inl (Unexpected_code (join '' | '' ls1)), c1)
                   else Some (Inr trimmed, c1)
               | None \<Rightarrow> Some (Inr trimmed, c1))
            else read_response_loop fuel expected ls1 c1
          else read_response_loop fuel expected ls1 c1)"

definition read_response ::
    "string option \<Rightarrow> ftp_control \<Rightarrow> ((ftp_failure + string) \<times> ftp_control) option" where
  "read_response expected c = read_response_loop (Suc (length (incoming c))) expected [] c"

definition write_control :: "string \<Rightarrow> ftp_control \<Rightarrow> (ftp_failure + unit) \<times> ftp_control" where
  "write_control s c =
     (case writes_left c of
        Some 0 \<Rightarrow> (Inl Write_failed, c)
      | Some (Suc n) \<Rightarrow> (Inr (), c\<lparr>sent := sent c @ [s], writes_left := Some n\<rparr>)
      | None \<Rightarrow> (Inr (), c\<lparr>sent := sent c @ [s]\<rparr>))"

definition ftp_cmd :: "string \<Rightarrow> ftp_control \<Rightarrow> ((ftp_failure + string) \<times> ftp_control) option" where
  "ftp_cmd line c =
     (case write_control (line @ [CHR 0x0D, CHR 0x0A]) c of
        (Inl e, c1) \<Rightarrow> Some (Inl e, c1)
      | (Inr _, c1) \<Rightarrow> read_response None c1)"

definition ftp_connect :: "ftp_control option \<Rightarrow> ((ftp_failure + unit) \<times> ftp_control option) option" where
  "ftp_connect peer =
     (case peer of
        None \<Rightarrow> Some (Inl Connect_failed, None)
      | Some c \<Rightarrow> (case read_response None c of
            None \<Rightarrow> None
          | Some (Inl e, c1) \<Rightarrow> Some (Inl e, Some c1)
          | Some (Inr _, c1) \<Rightarrow> Some (Inr (), Some c1)))"

text \<open>Commands one after the other, as \<open>?\<close> chains them.\<close>

fun run_cmds :: "string list \<Rightarrow> ftp_control \<Rightarrow> ((ftp_failure + unit) \<times> ftp_control) option" where
  "run_cmds [] c = Some (Inr (), c)"
| "run_cmds (l # ls) c =
     (case ftp_cmd l c of
        None \<Rightarrow> None
      | Some (Inl e, c1) \<Rightarrow> Some (Inl e, c1)
      | Some (Inr _, c1) \<Rightarrow> run_cmds ls c1)"

definition login_cmds :: "ftp_url \<Rightarrow> string list" where
  "login_cmds url =
     [''USER '' @ (case ftp_username url of Some u \<Rightarrow> u | None \<Rightarrow> ''anonymous''),
      ''PASS '' @ (case ftp_password url of Some p \<Rightarrow> p | None \<Rightarrow> ''anonymous@''),
      ''TYPE I'']"

definition connect_and_login ::
    "ftp_url \<Rightarrow> ftp_control option \<Rightarrow> (ftp_failure + ftp_control) option" where
  "connect_and_login url peer =
     (if ftp_scheme url = ''ftps'' then Some (Inl Ftps_unsupported)
      else (case ftp_connect peer of
              None \<Rightarrow> None
            | Some (Inl e, _) \<Rightarrow> Some (Inl e)
            | Some (Inr _, None) \<Rightarrow> Some (Inl Connect_failed)
            | Some (Inr _, Some c) \<Rightarrow> (case run_cmds (login_cmds url) c of
                  None \<Rightarrow> None
                | Some (Inl e, _) \<Rightarrow> Some (Inl e)
                | Some (Inr _, c1) \<Rightarrow> Some (Inr c1))))"

definition check_ftp_size :: "ftp_url \<Rightarrow> ftp_control option \<Rightarrow> (ftp_failure + nat) option" where
  "check_ftp_size url peer =
     (case connect_and_login url peer of
        None \<Rightarrow> None
      | Some (Inl e) \<Rightarrow> Some (Inl e)
      | Some (Inr c) \<Rightarrow> (case ftp_cmd (''SIZE '' @ ftp_path url) c of
            None \<Rightarrow> None
          | Some (Inl e, _) \<Rightarrow> Some (Inl e)
          | Some (Inr resp, c1) \<Rightarrow> (case strip_prefix ''213 '' resp of
                None \<Rightarrow> Some (Inl (Bad_size resp))
              | Some s \<Rightarrow> (case parse_uint u64_max (trim s) of
                    None \<Rightarrow> Some (Inl (Bad_size resp))
                  | Some sz \<Rightarrow> (case ftp_cmd ''QUIT'' c1 of
                        None \<Rightarrow> None
                      | Some _ \<Rightarrow> Some (Inr sz))))))"

subsection \<open>One transfer\<close>

datatype ftp_download_error = Ftp_io | Ftp_msg ftp_failure | Buffer_failed | Download_cancelled

text \<open>What a data connection delivers: pieces with the clock reading at their arrival.\<close>

datatype data_event = Piece u64 bytes | Data_error

type_synonym data_conn = "data_event list option"

record ftp_world =
  w_ctrl :: ftp_control
  w_data :: "data_conn list"
  w_bucket :: token_bucket
  w_buffer :: segments_buffer

definition data_buf_len :: nat where
  "data_buf_len = 65536"

text \<open>The reading loop of \<open>download_range\<close>; a piece longer than the request stays for the next read.\<close>

function range_loop ::
    "(nat \<Rightarrow> nat \<Rightarrow> nat option) \<Rightarrow> nat \<Rightarrow> nat \<Rightarrow> nat \<Rightarrow> data_event list \<Rightarrow> token_bucket \<Rightarrow> segments_buffer
       \<Rightarrow> (ftp_download_error + nat) \<times> token_bucket \<times> segments_buffer" where
  "range_loop wr offset sz written evs bk b =
     (if written < sz then
        (case evs of
           [] \<Rightarrow> (Inr written, bk, b)
         | Data_error # _ \<Rightarrow> (Inl Ftp_io, bk, b)
         | Piece now d # rest \<Rightarrow>
             let to_read = min data_buf_len (sz - written); got = take to_read d in
             if got = [] then (Inr written, bk, b)
             else
               let bk1 = snd (try_consume now (of_nat (length got)) bk);
                   (r, b1) = write_data wr (offset + written) got b
               in (case r of
                     Inl _ \<Rightarrow> (Inl Buffer_failed, bk1, b1)
                   | Inr _ \<Rightarrow>
                       range_loop wr offset sz (written + length got)
                         (if drop to_read d = [] then rest else Piece now (drop to_read d) # rest) bk1 b1))
      else (Inr written, bk, b))"
  by pat_completeness auto

termination
  by (relation "measure (\<lambda>(wr, offset, sz, written, evs, bk, b). sz - written)")
    (auto simp: data_buf_len_def intro!: diff_less_mono2)

declare range_loop.simps [simp del]

definition download_range ::
    "(nat \<Rightarrow> nat \<Rightarrow> nat option) \<Rightarrow> string \<Rightarrow> nat \<Rightarrow> nat \<Rightarrow> nat \<Rightarrow> ftp_world
       \<Rightarrow> ((ftp_download_error + unit) \<times> ftp_world) option" where
  "download_range wr path start offset sz w =
     (case (if start > 0 then ftp_cmd (''REST '' @ dec start) (w_ctrl w)
            else Some (Inr [], w_ctrl w)) of
        None \<Rightarrow> None
      | Some (Inl e, c1) \<Rightarrow> Some (Inl (Ftp_msg e), w\<lparr>w_ctrl := c1\<rparr>)
      | Some (Inr _, c1) \<Rightarrow>
          (case write_control (''RETR '' @ path @ [CHR 0x0D, CHR 0x0A]) c1 of
             (Inl e, c2) \<Rightarrow> Some (Inl (Ftp_msg e), w\<lparr>w_ctrl := c2\<rparr>)
           | (Inr _, c2) \<Rightarrow>
               (case w_data w of
                  [] \<Rightarrow> Some (Inl (Ftp_msg Connect_failed), w\<lparr>w_ctrl := c2\<rparr>)
                | None # conns \<Rightarrow> Some (Inl (Ftp_msg Connect_failed), w\<lparr>w_ctrl := c2, w_data := conns\<rparr>)
                | Some evs # conns \<Rightarrow>
                    (case read_response (Some ''150'') c2 of
                       None \<Rightarrow> None
                     | Some (Inl e, c3) \<Rightarrow> Some (Inl (Ftp_msg e), w\<lparr>w_ctrl := c3, w_data := conns\<rparr>)
                     | Some (Inr _, c3) \<Rightarrow>
                         (case range_loop wr offset sz 0 evs (w_bucket w) (w_buffer w) of
                            (Inl e, bk, b) \<Rightarrow>
                              Some (Inl e, w\<lparr>w_ctrl := c3, w_data := conns, w_bucket := bk, w_buffer := b\<rparr>)
                          | (Inr _, bk, b) \<Rightarrow>
                              (case read_response (Some ''226'') c3 of
                                 None \<Rightarrow> None
                               | Some (_, c4) \<Rightarrow>
                                   Some (Inr (), w\<lparr>w_ctrl := c4, w_data := conns, w_bucket := bk,
                                                   w_buffer := b\<rparr>)))))))"

text \<open>PASV, then the transfer of a claimed segment, then its mark.\<close>

definition fetch_segment ::
    "(nat \<Rightarrow> nat \<Rightarrow> nat option) \<Rightarrow> string \<Rightarrow> nat \<times> nat \<times> nat \<Rightarrow> ftp_world
       \<Rightarrow> ((ftp_download_error + unit) \<times> ftp_world) option" where
  "fetch_segment wr path = (\<lambda>(id, start, seg_end) w.
     (case ftp_cmd ''PASV'' (w_ctrl w) of
        None \<Rightarrow> None
      | Some (Inl e, c1) \<Rightarrow> Some (Inl (Ftp_msg e), w\<lparr>w_ctrl := c1\<rparr>)
      | Some (Inr resp, c1) \<Rightarrow>
          (case parse_pasv resp of
             Inl e \<Rightarrow> Some (Inl (Ftp_msg (Bad_pasv e)), w\<lparr>w_ctrl := c1\<rparr>)
           | Inr _ \<Rightarrow>
               (case download_range wr path start start (seg_end - start) (w\<lparr>w_ctrl := c1\<rparr>) of
                  None \<Rightarrow> None
                | Some (Inl e, w1) \<Rightarrow> Some (Inl e, w1)
                | Some (Inr _, w1) \<Rightarrow> Some (Inr (), w1\<lparr>w_buffer := mark_ready id (w_buffer w1)\<rparr>)))))"

definition download_ftp_single ::
    "(nat \<Rightarrow> nat \<Rightarrow> nat option) \<Rightarrow> ftp_url \<Rightarrow> ftp_control option \<Rightarrow> ftp_world
       \<Rightarrow> ((ftp_download_error + unit) \<times> ftp_world) option" where
  "download_ftp_single wr url peer w =
     (case connect_and_login url peer of
        None \<Rightarrow> None
      | Some (Inl e) \<Rightarrow> Some (Inl (Ftp_msg e), w)
      | Some (Inr c) \<Rightarrow>
          (case claim_range u64_max (w_buffer w) of
             (None, b1) \<Rightarrow> Some (Inr (), w\<lparr>w_ctrl := c, w_buffer := b1\<rparr>)
           | (Some seg, b1) \<Rightarrow>
               (case fetch_segment wr (ftp_path url) seg (w\<lparr>w_ctrl := c, w_buffer := b1\<rparr>) of
                  None \<Rightarrow> None
                | Some (Inl e, w1) \<Rightarrow> Some (Inl e, w1)
                | Some (Inr _, w1) \<Rightarrow> (case ftp_cmd ''QUIT'' (w_ctrl w1) of
                      None \<Rightarrow> None
                    | Some (_, c2) \<Rightarrow> Some (Inr (), w1\<lparr>w_ctrl := c2\<rparr>)))))"

subsection \<open>A worker\<close>

definition ftp_min_segment :: nat where "ftp_min_segment = 64 * 1024"
definition ftp_max_segment :: nat where "ftp_max_segment = 4 * 1024 * 1024"

definition next_preferred :: "nat option \<Rightarrow> nat \<Rightarrow> nat" where
  "next_preferred measured preferred =
     (case measured of None \<Rightarrow> preferred | Some m \<Rightarrow> max ftp_min_segment (min ftp_max_segment m))"

text \<open>
  One turn per element of the schedule: whether the token was cancelled at the head of the
  loop, and the speed measured over the segment times the target time (\<open>None\<close> when no time
  had passed). A schedule that ends first leaves the worker under way.
\<close>

fun worker_loop ::
    "(nat \<Rightarrow> nat \<Rightarrow> nat option) \<Rightarrow> string \<Rightarrow> (bool \<times> nat option) list \<Rightarrow> nat \<Rightarrow> ftp_world
       \<Rightarrow> ((ftp_download_error + unit) \<times> ftp_world) option" where
  "worker_loop wr path [] preferred w = None"
| "worker_loop wr path ((cancelled, measured) # turns) preferred w =
     (if cancelled then Some (Inl Download_cancelled, w)
      else (case claim_range preferred (w_buffer w) of
              (None, b1) \<Rightarrow>
                (case ftp_cmd ''QUIT'' (w_ctrl w) of
                   None \<Rightarrow> None
                 | Some (_, c1) \<Rightarrow> Some (Inr (), w\<lparr>w_ctrl := c1, w_buffer := b1\<rparr>))
            | (Some seg, b1) \<Rightarrow>
                (case fetch_segment wr path seg (w\<lparr>w_buffer := b1\<rparr>) of
                   None \<Rightarrow> None
                 | Some (Inl e, w1) \<Rightarrow> Some (Inl e, w1)
                 | Some (Inr _, w1) \<Rightarrow> worker_loop wr path turns (next_preferred measured preferred) w1)))"

definition ftp_worker ::
    "(nat \<Rightarrow> nat \<Rightarrow> nat option) \<Rightarrow> ftp_url \<Rightarrow> ftp_control option \<Rightarrow> (bool \<times> nat option) list \<Rightarrow> ftp_world
       \<Rightarrow> ((ftp_download_error + unit) \<times> ftp_world) option" where
  "ftp_worker wr url peer turns w =
     (case connect_and_login url peer of
        None \<Rightarrow> None
      | Some (Inl e) \<Rightarrow> Some (Inl (Ftp_msg e), w)
      | Some (Inr c) \<Rightarrow> worker_loop wr (ftp_path url) turns (1024 * 1024) (w\<lparr>w_ctrl := c\<rparr>))"

text \<open>How \<open>download_ftp_multithreaded\<close> ends, from how its tasks end.\<close>

datatype ftp_join = Joined "ftp_download_error + unit" | Join_panicked

fun is_ftp_error :: "ftp_join \<Rightarrow> bool" where
  "is_ftp_error (Joined (Inr _)) = False"
| "is_ftp_error (Joined (Inl Download_cancelled)) = False"
| "is_ftp_error _ = True"

definition download_ftp_multithreaded ::
    "ftp_join list \<Rightarrow> segments_buffer \<Rightarrow> (ftp_download_error + unit) \<times> segments_buffer" where
  "download_ftp_multithreaded joins b =
     (if filter is_ftp_error joins = [] then (Inr (), b) else (Inl Buffer_failed, set_failed b))"

subsection \<open>The control connection\<close>

text \<open>A line that does not end a response.\<close>

definition continues :: "string \<Rightarrow> bool" where
  "continues l \<longleftrightarrow>
     (let t = trim_end_crlf l in
      length t < 4 \<or> (char_boundary 3 t \<and> char_boundary 4 t \<and> t ! 3 \<noteq> CHR '' ''))"

lemma trim_end_crlf_Nil [simp]: "trim_end_crlf [] = []"
  by (simp add: trim_end_crlf_def)

lemma read_loop_continues:
  "incoming c = Line l # rest \<Longrightarrow> continues l \<Longrightarrow>
     read_response_loop (Suc fuel) e ls c
       = read_response_loop fuel e (ls @ [trim_end_crlf l]) (c\<lparr>incoming := rest\<rparr>)"
  by (auto simp: read_line_def continues_def Let_def)

lemma read_loop_eof: "incoming c = [] \<Longrightarrow> read_response_loop fuel e ls c = None"
  by (induction fuel arbitrary: ls) (simp_all add: read_line_def)

text \<open>
  A control connection that the server closes before it has finished a response is never
  noticed: the reading loop takes the end of the stream for empty lines and does not return,
  however long it runs.
\<close>

lemma closed_control_connection_hangs:
  assumes "\<forall>ev \<in> set (incoming c). \<exists>l. ev = Line l \<and> continues l"
  shows "read_response_loop fuel expected ls c = None"
  using assms
proof (induction "incoming c" arbitrary: c fuel ls)
  case Nil
  then show ?case by (simp add: read_loop_eof)
next
  case (Cons ev evs)
  obtain l where l: "ev = Line l" "continues l" using Cons.prems Cons.hyps(2) by (metis list.set_intros(1))
  show ?case
  proof (cases fuel)
    case 0
    then show ?thesis by simp
  next
    case (Suc n)
    have "read_response_loop n expected (ls @ [trim_end_crlf l]) (c\<lparr>incoming := evs\<rparr>) = None"
      using Cons.hyps(1) [of "c\<lparr>incoming := evs\<rparr>"] Cons.prems Cons.hyps(2) [symmetric] by simp
    then show ?thesis using read_loop_continues [of c l evs] Cons.hyps(2) l Suc by simp
  qed
qed

lemma closed_control_connection_hangs_witness:
  "read_response_loop 1000 (Some ''226'')
     [] \<lparr>incoming = [Line (''226-Transfer'' @ [CHR 0x0D, CHR 0x0A])], sent = [], writes_left = None\<rparr> = None"
  by (rule closed_control_connection_hangs)
    (simp add: continues_def trim_end_crlf_def char_boundary_def numeral_3_eq_3)

lemma read_loop_multiline:
  assumes "t = trim_end_crlf final" "4 \<le> length t" "t ! 3 = CHR '' ''" "char_boundary 4 t"
    "char_boundary 3 t"
  shows "length conts < fuel \<Longrightarrow> incoming c = map Line conts @ Line final # rest \<Longrightarrow>
      \<forall>l \<in> set conts. continues l \<Longrightarrow>
      read_response_loop fuel None ls c = Some (Inr t, c\<lparr>incoming := rest\<rparr>)"
proof (induction conts arbitrary: c fuel ls)
  case Nil
  then obtain n where "fuel = Suc n" by (cases fuel) auto
  then show ?case using Nil assms by (simp add: read_line_def Let_def)
next
  case (Cons l conts)
  then obtain n where n: "fuel = Suc n" by (cases fuel) auto
  show ?case
    using Cons.IH [of n "c\<lparr>incoming := map Line conts @ Line final # rest\<rparr>"] Cons.prems n
      read_loop_continues [of c l "map Line conts @ Line final # rest"] by simp
qed

text \<open>
  A response of several lines is read to its last line and not further: the lines that
  continue it are skipped, the last line is the result, and what follows stays for the next
  command.
\<close>

lemma multiline_response:
  assumes "incoming c = map Line conts @ Line final # rest" and "\<forall>l \<in> set conts. continues l"
    and "t = trim_end_crlf final" and "4 \<le> length t" and "t ! 3 = CHR '' ''"
    and "char_boundary 4 t"
  shows "read_response None c = Some (Inr t, c\<lparr>incoming := rest\<rparr>)"
proof -
  have b3: "char_boundary 3 t" using assms(4,5) by (simp add: char_boundary_def)
  show ?thesis
    using read_loop_multiline [OF assms(3-6) b3, of conts "Suc (length (incoming c))" c rest "[]"]
      assms(1,2) unfolding read_response_def by simp
qed

lemma multiline_response_witness:
  "read_response None \<lparr>incoming = [Line ''220-hello'', Line ''220 ready'', Line ''331 x''], sent = [],
      writes_left = None\<rparr>
   = Some (Inr ''220 ready'', \<lparr>incoming = [Line ''331 x''], sent = [], writes_left = None\<rparr>)"
  using multiline_response [of "\<lparr>incoming = [Line ''220-hello'', Line ''220 ready'', Line ''331 x''],
      sent = [], writes_left = None\<rparr>" "[''220-hello'']" "''220 ready''" "[Line ''331 x'']" "''220 ready''"]
  by (simp add: continues_def trim_end_crlf_def char_boundary_def numeral_3_eq_3 eval_nat_numeral)

subsection \<open>The data connection\<close>

text \<open>The bytes that arrive before the peer ends the connection or fails.\<close>

fun pieces :: "data_event list \<Rightarrow> bytes" where
  "pieces [] = []"
| "pieces (Data_error # evs) = []"
| "pieces (Piece now d # evs) = (if d = [] then [] else d @ pieces evs)"

lemma pieces_rest:
  "d \<noteq> [] \<Longrightarrow> 0 < k \<Longrightarrow>
     pieces (Piece now d # rest) =
       take k d @ pieces (if drop k d = [] then rest else Piece now (drop k d) # rest)"
  by auto

lemma range_loop_piece:
  assumes "written < sz" "d \<noteq> []" "k = min data_buf_len (sz - written)"
    "write_data wr (offset + written) (take k d) b = (r, b1)"
  shows "range_loop wr offset sz written (Piece now d # rest) bk b =
     (let bk1 = snd (try_consume now (of_nat (length (take k d))) bk) in
      case r of Inl _ \<Rightarrow> (Inl Buffer_failed, bk1, b1)
      | Inr _ \<Rightarrow> range_loop wr offset sz (written + length (take k d))
          (if drop k d = [] then rest else Piece now (drop k d) # rest) bk1 b1)"
proof -
  have "take k d \<noteq> []" using assms(1-3) by (simp add: data_buf_len_def)
  then show ?thesis
    unfolding range_loop.simps [of wr offset sz written "Piece now d # rest"] list.case data_event.case
      Let_def assms(3) [symmetric] assms(4) prod.case using assms(1) by simp
qed

lemma range_loop_writes:
  assumes wr: "wr_ok wr"
  shows "range_loop wr offset sz written evs bk b = (Inr n, bk', b') \<Longrightarrow>
     offset + sz \<le> length (dl_file b) \<Longrightarrow> written \<le> sz \<Longrightarrow>
     b' = b\<lparr>dl_file := pwrite (dl_file b) (offset + written) (take (sz - written) (pieces evs))\<rparr>
     \<and> n = written + length (take (sz - written) (pieces evs))"
proof (induction "sz - written" arbitrary: written evs bk b rule: less_induct)
  case less
  consider "\<not> written < sz" | "written < sz" "evs = []" | r where "written < sz" "evs = Data_error # r"
    | now rest where "written < sz" "evs = Piece now [] # rest"
    | now d rest where "written < sz" "evs = Piece now d # rest" "d \<noteq> []"
    by (cases evs rule: pieces.cases) auto
  then show ?case
  proof cases
    case (5 now d rest)
    define k where "k = min data_buf_len (sz - written)"
    let ?evs = "if drop k d = [] then rest else Piece now (drop k d) # rest"
    have k: "0 < k" "k \<le> sz - written" using 5(1) by (simp_all add: k_def data_buf_len_def)
    have g: "0 < length (take k d)" "length (take k d) \<le> sz - written" using k 5(3) by auto
    obtain r b1 where w: "write_data wr (offset + written) (take k d) b = (r, b1)" by fastforce
    note step = range_loop_piece [OF 5(1,3) k_def w, of now rest bk, folded 5(2)]
    have r: "r = Inr ()" using less.prems(1) step by (cases r) (auto simp: Let_def)
    then have run: "range_loop wr offset sz (written + length (take k d)) ?evs
        (snd (try_consume now (of_nat (length (take k d))) bk)) b1 = (Inr n, bk', b')"
      using less.prems(1) step by (simp add: Let_def)
    have fits: "offset + written + length (take k d) \<le> length (dl_file b)"
      using less.prems(2) 5(1) g(2) by linarith
    have b1: "b1 = b\<lparr>dl_file := pwrite (dl_file b) (offset + written) (take k d)\<rparr>"
      using write_data_ok [OF wr _ fits] w r by simp
    have len1: "length (dl_file b1) = length (dl_file b)" using b1 fits by simp
    have ih: "b' = b1\<lparr>dl_file := pwrite (dl_file b1) (offset + (written + length (take k d)))
          (take (sz - (written + length (take k d))) (pieces ?evs))\<rparr>
        \<and> n = (written + length (take k d)) + length (take (sz - (written + length (take k d))) (pieces ?evs))"
      by (rule less.hyps [OF _ run]) (use 5(1) g len1 less.prems(2) in linarith)+
    have pc: "pieces evs = take k d @ pieces ?evs" using pieces_rest [OF 5(3) k(1)] 5(2) by simp
    have tk: "take (sz - written) (pieces evs)
        = take k d @ take (sz - (written + length (take k d))) (pieces ?evs)"
      unfolding pc using g(2) k(2) by (simp add: take_append min_absorb2)
    let ?tail = "take (sz - (written + length (take k d))) (pieces ?evs)"
    have "pwrite (dl_file b1) (offset + written + length (take k d)) ?tail
        = pwrite (dl_file b) (offset + written) (take k d @ ?tail)"
    proof -
      have "length ?tail \<le> sz - (written + length (take k d))" by simp
      then have "offset + written + length (take k d) + length ?tail \<le> length (dl_file b)"
        using less.prems(2) 5(1) g(2) by linarith
      from pwrite_append [OF this] show ?thesis using b1 by simp
    qed
    then show ?thesis using ih b1 unfolding tk by (simp add: add.assoc)
  qed (use less.prems in \<open>simp add: range_loop.simps\<close>)+
qed

text \<open>What a transfer that reports success has done.\<close>

lemma download_range_Ok:
  assumes wr: "wr_ok wr" and run: "download_range wr path start offset sz w = Some (Inr (), w')"
    and fits: "offset + sz \<le> length (dl_file (w_buffer w))"
  shows "\<exists>evs conns. w_data w = Some evs # conns \<and> w_data w' = conns
     \<and> w_buffer w' = (w_buffer w)\<lparr>dl_file := pwrite (dl_file (w_buffer w)) offset (take sz (pieces evs))\<rparr>"
proof -
  obtain evs conns c3 n bk b where conn: "w_data w = Some evs # conns"
    and loop: "range_loop wr offset sz 0 evs (w_bucket w) (w_buffer w) = (Inr n, bk, b)"
    and w': "w_data w' = conns" "w_buffer w' = b"
    using run by (auto simp: download_range_def split: option.splits sum.splits prod.splits list.splits)
  show ?thesis using range_loop_writes [OF wr loop fits] conn w' by simp
qed

text \<open>
  C30. What a fetched FTP segment holds: when the fetch reports success the segment is marked
  ready, and its range of the file holds the first bytes the data connection delivered, as
  many as the segment is long; all other bytes of the file are as before.
\<close>

theorem ftp_segment_fetched:
  assumes "wr_ok wr" and "fetch_segment wr path (i, start, seg_end) w = Some (Inr (), w')"
    and "i < num_segments (w_buffer w)" and "start \<le> seg_end" and "seg_end \<le> length (dl_file (w_buffer w))"
  shows "is_ready i (w_buffer w') \<and> (\<exists>evs. hd (w_data w) = Some evs
     \<and> dl_file (w_buffer w') = pwrite (dl_file (w_buffer w)) start (take (seg_end - start) (pieces evs)))"
proof -
  obtain c1 w1 where run: "download_range wr path start start (seg_end - start) (w\<lparr>w_ctrl := c1\<rparr>)
      = Some (Inr (), w1)" and w': "w' = w1\<lparr>w_buffer := mark_ready i (w_buffer w1)\<rparr>"
    using assms(2) by (auto simp: fetch_segment_def split: option.splits sum.splits prod.splits)
  have "start + (seg_end - start) \<le> length (dl_file (w_buffer (w\<lparr>w_ctrl := c1\<rparr>)))"
    using assms(4,5) by simp
  from download_range_Ok [OF assms(1) run this] obtain evs conns where
    conn: "w_data w = Some evs # conns"
    and b: "w_buffer w1 = (w_buffer w)\<lparr>dl_file := pwrite (dl_file (w_buffer w)) start
        (take (seg_end - start) (pieces evs))\<rparr>"
    by auto
  have "i < length (segments (w_buffer w1))" using assms(3) b by (simp add: num_segments_def)
  then have "is_ready i (w_buffer w')" "dl_file (w_buffer w') = dl_file (w_buffer w1)"
    by (simp_all add: w' is_ready_def mark_ready_def)
  then show ?thesis using conn b by simp
qed

definition demo_world :: "string list \<Rightarrow> bytes \<Rightarrow> ftp_world" where
  "demo_world ls d =
     \<lparr>w_ctrl = \<lparr>incoming = map Line ls, sent = [], writes_left = None\<rparr>,
      w_data = [Some [Piece 0 d]], w_bucket = unlimited_bucket,
      w_buffer = snd (claim_range 4 (new_buffer 4 [0, 0, 0, 0] ''f''))\<rparr>"

lemma demo_pasv: "\<exists>x. parse_pasv ''227 (1,2,3,4,5,6)'' = Inr x"
  by (simp add: parse_pasv_def pasv_body_def parse_uint_def is_digit_def digit_val_def trim_def
        trim_start_def trim_end_def is_ws_def Let_def)

text \<open>One line that is a whole response.\<close>

lemma read_one_line:
  assumes "trim_end_crlf l = l" "4 \<le> length l" "l ! 3 = CHR '' ''" "char_boundary 4 l"
    and "expected = None \<or> expected = Some (take 3 l)"
  shows "read_response expected \<lparr>incoming = Line l # ls, sent = xs, writes_left = wl\<rparr>
     = Some (Inr l, \<lparr>incoming = ls, sent = xs, writes_left = wl\<rparr>)"
  using assms by (auto simp: read_response_def read_line_def char_boundary_def Let_def)

lemma demo_lines:
  "trim_end_crlf l = l \<and> 4 \<le> length l \<and> l ! 3 = CHR '' '' \<and> char_boundary 4 l"
  if "l \<in> {''227 (1,2,3,4,5,6)'', ''150 ok'', ''226 ok'', ''502 no''}"
  using that by (auto simp: trim_end_crlf_def char_boundary_def eval_nat_numeral)

text \<open>A transfer in full: the answers are a line each.\<close>

lemma demo_read:
  assumes "l \<in> {''227 (1,2,3,4,5,6)'', ''150 ok'', ''226 ok'', ''502 no''}"
  shows "read_response None \<lparr>incoming = Line l # ls, sent = xs, writes_left = wl\<rparr>
     = Some (Inr l, \<lparr>incoming = ls, sent = xs, writes_left = wl\<rparr>)"
    and "read_response (Some (take 3 l)) \<lparr>incoming = Line l # ls, sent = xs, writes_left = wl\<rparr>
     = Some (Inr l, \<lparr>incoming = ls, sent = xs, writes_left = wl\<rparr>)"
  using demo_lines [OF assms] read_one_line [of l None] read_one_line [of l "Some (take 3 l)"] by auto

lemma write_data_full:
  "off + length d \<le> length (dl_file b) \<Longrightarrow>
     write_data wr_full off d b = (Inr (), b\<lparr>dl_file := pwrite (dl_file b) off d\<rparr>)"
proof -
  assume fits: "off + length d \<le> length (dl_file b)"
  obtain f where "write_loop wr_full off d 0 (dl_file b) = (Inr (), f)"
    using write_loop_progress [OF wr_full_ok(2)] by blast
  then have "write_data wr_full off d b = (Inr (), b\<lparr>dl_file := f\<rparr>)" by (simp add: write_data_def)
  then show ?thesis using write_data_ok [OF wr_full_ok(1) _ fits] by simp
qed

lemma demo_loop:
  assumes "d \<noteq> []" "length d \<le> 4" "length (dl_file b) = 4" "sz \<le> 4" "0 < sz" "off + sz \<le> 4"
  shows "\<exists>n bk' b'. range_loop wr_full off sz 0 [Piece 0 d] bk b = (Inr n, bk', b')"
proof -
  let ?k = "min data_buf_len sz"
  have k: "?k = sz" using assms by (simp add: data_buf_len_def)
  have "write_data wr_full off (take ?k d) b
      = (Inr (), b\<lparr>dl_file := pwrite (dl_file b) off (take ?k d)\<rparr>)"
    by (rule write_data_full) (use assms k in simp)
  then have w: "write_data wr_full (off + 0) (take ?k d) b
      = (Inr (), b\<lparr>dl_file := pwrite (dl_file b) off (take ?k d)\<rparr>)" by simp
  show ?thesis
    using range_loop_piece [OF assms(5,1) _ w, of 0 "[]" bk] k assms(5)
    by (auto simp: Let_def range_loop.simps [of _ _ _ _ "[]"] range_loop.simps [of _ _ _ "min a b" for a b])
qed

lemma demo_world_buffer [simp]:
  "dl_file (w_buffer (demo_world ls d)) = [0, 0, 0, 0]" "num_segments (w_buffer (demo_world ls d)) = 1"
  "w_data (demo_world ls d) = [Some [Piece 0 d]]"
  by (simp_all add: demo_world_def claim_range_def new_buffer_def num_segments_def Let_def)

lemma demo_fetch:
  assumes "d \<noteq> []" "length d \<le> 4"
  shows "\<exists>w'. fetch_segment wr_full ''/f'' (0, 0, 4)
      (demo_world [''227 (1,2,3,4,5,6)'', ''150 ok'', ''226 ok''] d) = Some (Inr (), w')"
proof -
  obtain n bk b where "range_loop wr_full 0 4 0 [Piece 0 d] unlimited_bucket
      (snd (claim_range 4 (new_buffer 4 [0, 0, 0, 0] ''f''))) = (Inr n, bk, b)"
    using demo_loop [OF assms, where b = "snd (claim_range 4 (new_buffer 4 [0, 0, 0, 0] ''f''))"
        and sz = 4 and off = 0 and bk = unlimited_bucket]
    by (auto simp: claim_range_def new_buffer_def Let_def)
  then show ?thesis
    using demo_pasv demo_read(1) [of "''227 (1,2,3,4,5,6)''"] demo_read(2) [of "''150 ok''"]
      demo_read(2) [of "''226 ok''"]
    by (auto simp: fetch_segment_def ftp_cmd_def write_control_def demo_world_def download_range_def)
qed

text \<open>
  The witness is also the defect: the server ends the connection after two of four bytes, the
  fetch reports success, and the segment counts as ready with two bytes of zeros.
\<close>

theorem ftp_segment_fetched_witness:
  "\<exists>w'. fetch_segment wr_full ''/f'' (0, 0, 4)
      (demo_world [''227 (1,2,3,4,5,6)'', ''150 ok'', ''226 ok''] [9, 8]) = Some (Inr (), w')
    \<and> is_ready 0 (w_buffer w') \<and> dl_file (w_buffer w') = [9, 8, 0, 0]"
proof -
  obtain w' where f: "fetch_segment wr_full ''/f'' (0, 0, 4)
      (demo_world [''227 (1,2,3,4,5,6)'', ''150 ok'', ''226 ok''] [9, 8]) = Some (Inr (), w')"
    using demo_fetch [of "[9, 8]"] by auto
  show ?thesis using ftp_segment_fetched [OF wr_full_ok(1) f] f by (simp add: pwrite_def)
qed

text \<open>
  A server that does not resume corrupts the file: its refusal of REST is not looked at, so
  the bytes from the start of the remote file are written at the offset of the segment and the
  transfer reports success.
\<close>

lemma rest_refusal_ignored:
  "\<exists>w'. download_range wr_full ''/f'' 2 2 2
      (demo_world [''502 no'', ''150 ok'', ''226 ok''] [1, 2, 3, 4]) = Some (Inr (), w')
    \<and> dl_file (w_buffer w') = [0, 0, 1, 2]"
proof -
  let ?w = "demo_world [''502 no'', ''150 ok'', ''226 ok''] [1, 2, 3, 4]"
  obtain n bk b where "range_loop wr_full 2 2 0 [Piece 0 [1, 2, 3, 4]] unlimited_bucket
      (snd (claim_range 4 (new_buffer 4 [0, 0, 0, 0] ''f''))) = (Inr n, bk, b)"
    using demo_loop [of "[1, 2, 3, 4]" "snd (claim_range 4 (new_buffer 4 [0, 0, 0, 0] ''f''))" 2 2
        unlimited_bucket]
    by (auto simp: claim_range_def new_buffer_def Let_def)
  then obtain w' where run: "download_range wr_full ''/f'' 2 2 2 ?w = Some (Inr (), w')"
    using demo_read(1) [of "''502 no''"] demo_read(2) [of "''150 ok''"] demo_read(2) [of "''226 ok''"]
    by (auto simp: ftp_cmd_def write_control_def demo_world_def download_range_def)
  show ?thesis using download_range_Ok [OF wr_full_ok(1) run] run by (auto simp: pwrite_def)
qed

text \<open>The bandwidth limit has no effect on FTP: the answer of the bucket is not looked at.\<close>

lemma range_loop_ignores_bucket:
  "(fst (range_loop wr offset sz written evs bk b), snd (snd (range_loop wr offset sz written evs bk b)))
     = (fst (range_loop wr offset sz written evs bk2 b), snd (snd (range_loop wr offset sz written evs bk2 b)))"
proof (induction "sz - written" arbitrary: written evs bk bk2 b rule: less_induct)
  case less
  consider "\<not> written < sz" | "written < sz" "evs = []" | r where "written < sz" "evs = Data_error # r"
    | now rest where "written < sz" "evs = Piece now [] # rest"
    | now d rest where "written < sz" "evs = Piece now d # rest" "d \<noteq> []"
    by (cases evs rule: pieces.cases) auto
  then show ?case
  proof cases
    case (5 now d rest)
    define k where "k = min data_buf_len (sz - written)"
    have k: "0 < k" using 5(1) by (simp add: k_def data_buf_len_def)
    obtain r b1 where w: "write_data wr (offset + written) (take k d) b = (r, b1)" by fastforce
    note step = range_loop_piece [OF 5(1,3) k_def w, of now rest, folded 5(2)]
    have "sz - (written + length (take k d)) < sz - written"
      by (intro diff_less_mono2) (use 5 k in auto)
    then show ?thesis unfolding step Let_def
      using less.hyps by (cases r) auto
  qed (simp_all add: range_loop.simps)
qed

lemma next_preferred_bounds:
  "next_preferred (Some m) p \<ge> ftp_min_segment \<and> next_preferred (Some m) p \<le> ftp_max_segment"
  by (simp add: next_preferred_def ftp_min_segment_def ftp_max_segment_def)

text \<open>With no connections there is no task to fail: the download succeeds without a byte.\<close>

lemma no_ftp_connections: "download_ftp_multithreaded [] b = (Inr (), b)"
  by (simp add: download_ftp_multithreaded_def)

text \<open>
  A single connection claims the whole file at once, so no claim ever finds it exhausted and
  the buffer is not complete when the download has succeeded.
\<close>

lemma range_loop_frame:
  "range_loop wr offset sz written evs bk b = (r, bk', b') \<Longrightarrow> \<exists>f. b' = b\<lparr>dl_file := f\<rparr>"
proof (induction "sz - written" arbitrary: written evs bk b rule: less_induct)
  case less
  consider "\<not> written < sz" | "written < sz" "evs = []" | q where "written < sz" "evs = Data_error # q"
    | now rest where "written < sz" "evs = Piece now [] # rest"
    | now d rest where "written < sz" "evs = Piece now d # rest" "d \<noteq> []"
    by (cases evs rule: pieces.cases) auto
  then show ?case
  proof cases
    case (5 now d rest)
    define k where "k = min data_buf_len (sz - written)"
    have k: "0 < k" using 5(1) by (simp add: k_def data_buf_len_def)
    obtain q b1 where w: "write_data wr (offset + written) (take k d) b = (q, b1)" by fastforce
    then obtain f where f: "b1 = b\<lparr>dl_file := f\<rparr>" using write_data_fields by blast
    note step = range_loop_piece [OF 5(1,3) k_def w, of now rest, folded 5(2)]
    have lt: "sz - (written + length (take k d)) < sz - written"
      by (intro diff_less_mono2) (use 5 k in auto)
    show ?thesis
    proof (cases q)
      case (Inl e)
      then show ?thesis using less.prems step [of bk] f by (auto simp: Let_def)
    next
      case (Inr u)
      then obtain g where "b' = b1\<lparr>dl_file := g\<rparr>"
        using less.prems step [of bk] less.hyps [OF lt] by (simp add: Let_def) blast
      then have "b' = b\<lparr>dl_file := g\<rparr>" using f by simp
      then show ?thesis ..
    qed
  qed (use less.prems in \<open>auto simp: range_loop.simps intro: exI [of _ "dl_file b'"]\<close>)
qed

lemma ftp_single_never_completes:
  assumes "download_ftp_single wr url peer w = Some (Inr (), w')" "w_buffer w = new_buffer n f p" "0 < n"
    "n \<le> u64_max"
  shows "\<not> all_completed (w_buffer w')"
proof -
  have cl: "\<not> all_assigned b" if "claim_range u64_max (new_buffer n f p) = (Some seg, b)" for seg b
    using that assms(3) by (auto simp: claim_range_def new_buffer_def Let_def)
  have some: "fst (claim_range u64_max (new_buffer n f p)) \<noteq> None"
    using assms(3) by (simp add: claim_range_def new_buffer_def Let_def)
  have fr: "all_assigned (w_buffer w2) = all_assigned (w_buffer w1)"
    if fe: "fetch_segment wr path seg w1 = Some (Inr (), w2)" for path seg w1 w2
  proof -
    obtain i s e where seg: "seg = (i, s, e)" by (cases seg)
    obtain c1 w3 where run: "download_range wr path s s (e - s) (w1\<lparr>w_ctrl := c1\<rparr>) = Some (Inr (), w3)"
      and w2: "w2 = w3\<lparr>w_buffer := mark_ready i (w_buffer w3)\<rparr>"
      using fe seg by (auto simp: fetch_segment_def split: option.splits sum.splits prod.splits)
    obtain evs c3 m bk b where "range_loop wr s (e - s) 0 evs (w_bucket w1) (w_buffer w1) = (Inr m, bk, b)"
      and w3: "w_buffer w3 = b"
      using run by (auto simp: download_range_def split: option.splits sum.splits prod.splits list.splits)
    then obtain g where "b = (w_buffer w1)\<lparr>dl_file := g\<rparr>" using range_loop_frame by blast
    then show ?thesis using w2 w3 by (simp add: mark_ready_def)
  qed
  show ?thesis
    using assms(1,2) some fr cl
    by (auto simp: download_ftp_single_def all_completed_def split: option.splits sum.splits prod.splits)
qed

end
