(* ===== verification/Range_Download.thy ===== *)
theory Range_Download
  imports Segments_Buffer Token_Bucket
begin

text \<open>
  The HTTP downloader of \<open>src/src/downloader.rs\<close>: one worker and its retries. The world of a
  worker holds the answers the upstream will give to its requests one after the other, the
  answers of \<open>is_cancelled\<close> in the order the code asks, for every \<open>wait_consume\<close> the clock and
  the turns of its loop (theory Token\_Bucket), and what the worker changes: the bucket, the
  buffer, the exchanges with the upstream, the delays slept and the segments announced. \<open>None\<close> is a call that
  has not returned: a request without an answer, a wait for tokens that does not end. The
  loops themselves end, by the measures of their termination proofs. The supervisor
  \<open>download_multithreaded\<close> is in the theory Download\_Supervisor.
\<close>

text \<open>What \<open>reqwest\<close> says of an error.\<close>

record req_error =
  is_connect :: bool
  is_body :: bool
  is_timeout :: bool
  is_decode :: bool
  is_request :: bool

datatype download_error =
    Dl_reqwest req_error
  | Dl_http_status nat
  | Dl_io io_error
  | Dl_range_unsupported
  | Dl_etag_changed
  | Dl_buffer_failed
  | Dl_cancelled

datatype stream_event = Chunk bytes | Stream_error req_error | Stream_timeout

record range_response =
  rr_status :: nat
  rr_stream :: "stream_event list"

type_synonym range_answer = "req_error + range_response"

record range_request =
  rq_range :: string
  rq_user_agent :: "string option"
  rq_if_match :: "string option"

record dl_world =
  dw_answers :: "range_answer list"
  dw_polls :: "bool list"
  dw_waits :: "(u64 \<times> (bool \<times> u64) list) list"
  dw_bucket :: token_bucket
  dw_buffer :: segments_buffer
  dw_exchanges :: "(range_request \<times> range_answer) list"
  dw_sleeps :: "nat list"
  dw_ready :: nat

definition min_segment_size :: nat where "min_segment_size = 64 * 1024"
definition max_segment_size :: nat where "max_segment_size = 4 * 1024 * 1024"
definition initial_segment_size :: nat where "initial_segment_size = 1024 * 1024"
definition max_segment_retries :: nat where "max_segment_retries = 3"
definition base_retry_delay_ms :: nat where "base_retry_delay_ms = 200"

definition is_transient_error :: "req_error \<Rightarrow> bool" where
  "is_transient_error e \<longleftrightarrow> is_connect e \<or> is_body e \<or> is_timeout e \<or> is_decode e \<or> is_request e"

definition is_strong_etag :: "string \<Rightarrow> bool" where
  "is_strong_etag etag \<longleftrightarrow> \<not> starts_with etag ''W/'' \<and> \<not> starts_with etag ''w/''"

text \<open>
  The speed is a float; the function reads two things of it: whether it is positive
  (\<open>None\<close>: it is not) and the truncated product with the target time.
\<close>

definition next_segment_size :: "nat option \<Rightarrow> nat" where
  "next_segment_size speed =
     (case speed of
        None \<Rightarrow> initial_segment_size
      | Some preferred \<Rightarrow> max min_segment_size (min max_segment_size preferred))"

definition is_fatal :: "download_error \<Rightarrow> bool" where
  "is_fatal e \<longleftrightarrow> (case e of Dl_range_unsupported \<Rightarrow> True | Dl_etag_changed \<Rightarrow> True | _ \<Rightarrow> False)"

definition retry_delay :: "nat \<Rightarrow> nat" where
  "retry_delay attempt = base_retry_delay_ms * 2 ^ attempt"

subsection \<open>The calls to the outside\<close>

definition is_cancelled :: "dl_world \<Rightarrow> bool \<times> dl_world" where
  "is_cancelled w =
     (case dw_polls w of [] \<Rightarrow> (False, w) | c # cs \<Rightarrow> (c, w\<lparr>dw_polls := cs\<rparr>))"

definition consume_upstream :: "nat \<Rightarrow> dl_world \<Rightarrow> (bool \<times> dl_world) option" where
  "consume_upstream n w =
     (case dw_waits w of
        [] \<Rightarrow> None
      | (now, turns) # ws \<Rightarrow>
          (case wait_consume now turns (of_nat n) (dw_bucket w) of
             (Still_waiting, _, _) \<Rightarrow> None
           | (out, _, bk) \<Rightarrow> Some (out = Consumed, w\<lparr>dw_waits := ws, dw_bucket := bk\<rparr>)))"

definition send_request :: "range_request \<Rightarrow> dl_world \<Rightarrow> (range_answer \<times> dl_world) option" where
  "send_request rq w =
     (case dw_answers w of
        [] \<Rightarrow> None
      | a # as \<Rightarrow> Some (a, w\<lparr>dw_answers := as, dw_exchanges := dw_exchanges w @ [(rq, a)]\<rparr>))"

definition sleep_ms :: "nat \<Rightarrow> dl_world \<Rightarrow> dl_world" where
  "sleep_ms ms w = w\<lparr>dw_sleeps := dw_sleeps w @ [ms]\<rparr>"

subsection \<open>One chunk\<close>

text \<open>
  The inner loop: \<open>rest\<close> is the part of the chunk not yet written, so that \<open>remaining\<close> is its
  length and \<open>chunk_offset\<close> the length of what precedes it. The result is \<open>file_offset\<close>.
\<close>

function write_chunk ::
    "(nat \<Rightarrow> nat \<Rightarrow> nat option) \<Rightarrow> nat \<Rightarrow> bytes \<Rightarrow> nat \<Rightarrow> dl_world
       \<Rightarrow> ((download_error + nat) \<times> dl_world) option" where
  "write_chunk wr seg_end rest file_offset w =
     (if rest = [] then Some (Inr file_offset, w)
      else if seg_end - file_offset = 0 then Some (Inr file_offset, w)
      else
        let to_write = min (length rest) (seg_end - file_offset) in
        case consume_upstream to_write w of
          None \<Rightarrow> None
        | Some (False, w1) \<Rightarrow> Some (Inl Dl_cancelled, w1)
        | Some (True, w1) \<Rightarrow>
            (case write_data wr file_offset (take to_write rest) (dw_buffer w1) of
               (Inl e, b) \<Rightarrow> Some (Inl (Dl_io e), w1\<lparr>dw_buffer := b\<rparr>)
             | (Inr _, b) \<Rightarrow>
                 write_chunk wr seg_end (drop to_write rest) (file_offset + to_write)
                   (w1\<lparr>dw_buffer := b\<rparr>)))"
  by pat_completeness auto

termination
  by (relation "measure (\<lambda>(wr, seg_end, rest, file_offset, w). length rest)") auto

declare write_chunk.simps [simp del]

subsection \<open>One response\<close>

text \<open>How the reading of a body ends without an error: at an offset, or to be tried again.\<close>

datatype body_end = Body_at nat | Body_retry download_error

fun read_body ::
    "(nat \<Rightarrow> nat \<Rightarrow> nat option) \<Rightarrow> nat \<Rightarrow> nat \<Rightarrow> stream_event list \<Rightarrow> nat \<Rightarrow> dl_world
       \<Rightarrow> ((download_error + body_end) \<times> dl_world) option" where
  "read_body wr attempt seg_end [] file_offset w = Some (Inr (Body_at file_offset), w)"
| "read_body wr attempt seg_end (Stream_error e # evs) file_offset w =
     (if is_transient_error e \<and> attempt < max_segment_retries
      then Some (Inr (Body_retry (Dl_reqwest e)), sleep_ms (retry_delay attempt) w)
      else Some (Inl (Dl_reqwest e), w))"
| "read_body wr attempt seg_end (Stream_timeout # evs) file_offset w =
     (if attempt < max_segment_retries then Some (Inr (Body_retry (Dl_io Timed_out)), w)
      else Some (Inl (Dl_io Timed_out), w))"
| "read_body wr attempt seg_end (Chunk c # evs) file_offset w =
     (case is_cancelled w of
        (True, w1) \<Rightarrow> Some (Inl Dl_cancelled, w1)
      | (False, w1) \<Rightarrow>
          (case write_chunk wr seg_end c file_offset w1 of
             None \<Rightarrow> None
           | Some (Inl e, w2) \<Rightarrow> Some (Inl e, w2)
           | Some (Inr off, w2) \<Rightarrow>
               if off \<ge> seg_end then Some (Inr (Body_at off), w2)
               else read_body wr attempt seg_end evs off w2))"

text \<open>How one attempt ends without an error.\<close>

datatype attempt_end = Segment_done | Segment_retry download_error

definition range_header :: "nat \<Rightarrow> nat \<Rightarrow> string" where
  "range_header seg_start seg_end = ''bytes='' @ dec seg_start @ ''-'' @ dec (seg_end - 1)"

definition range_request_for :: "string option \<Rightarrow> string option \<Rightarrow> nat \<Rightarrow> nat \<Rightarrow> range_request" where
  "range_request_for ua etag seg_start seg_end =
     \<lparr>rq_range = range_header seg_start seg_end,
      rq_user_agent = ua,
      rq_if_match = (case etag of Some t \<Rightarrow> if is_strong_etag t then Some t else None | None \<Rightarrow> None)\<rparr>"

definition check_status :: "nat \<Rightarrow> nat \<Rightarrow> nat \<Rightarrow> nat \<Rightarrow> download_error option" where
  "check_status status seg_start seg_end total_sz =
     (if status = 412 then Some Dl_etag_changed
      else if status \<noteq> 206 \<and> status \<noteq> 200 then Some (Dl_http_status status)
      else if status = 200 \<and> \<not> (seg_start = 0 \<and> seg_end = total_sz) then Some Dl_range_unsupported
      else None)"

definition try_segment ::
    "(nat \<Rightarrow> nat \<Rightarrow> nat option) \<Rightarrow> string option \<Rightarrow> string option \<Rightarrow> nat \<Rightarrow> nat \<Rightarrow> nat \<Rightarrow> dl_world
       \<Rightarrow> ((download_error + attempt_end) \<times> dl_world) option" where
  "try_segment wr ua etag seg_start seg_end attempt w =
     (case send_request (range_request_for ua etag seg_start seg_end) w of
        None \<Rightarrow> None
      | Some (Inl e, w1) \<Rightarrow>
          if is_transient_error e \<and> attempt < max_segment_retries
          then Some (Inr (Segment_retry (Dl_reqwest e)), sleep_ms (retry_delay attempt) w1)
          else Some (Inl (Dl_reqwest e), w1)
      | Some (Inr resp, w1) \<Rightarrow>
          (case check_status (rr_status resp) seg_start seg_end (total_size (dw_buffer w1)) of
             Some e \<Rightarrow> Some (Inl e, w1)
           | None \<Rightarrow>
               (case read_body wr attempt seg_end (rr_stream resp) seg_start w1 of
                  None \<Rightarrow> None
                | Some (Inl e, w2) \<Rightarrow> Some (Inl e, w2)
                | Some (Inr (Body_retry e), w2) \<Rightarrow> Some (Inr (Segment_retry e), w2)
                | Some (Inr (Body_at off), w2) \<Rightarrow>
                    if off - seg_start \<noteq> seg_end - seg_start then
                      (if attempt < max_segment_retries
                       then Some (Inr (Segment_retry (Dl_io Unexpected_eof)), w2)
                       else Some (Inl (Dl_io Unexpected_eof), w2))
                    else Some (Inr Segment_done, w2))))"

function attempt_loop ::
    "(nat \<Rightarrow> nat \<Rightarrow> nat option) \<Rightarrow> string option \<Rightarrow> string option \<Rightarrow> nat \<Rightarrow> nat \<Rightarrow> nat \<Rightarrow> download_error option
       \<Rightarrow> dl_world \<Rightarrow> ((download_error + unit) \<times> dl_world) option" where
  "attempt_loop wr ua etag seg_start seg_end attempt last_err w =
     (if attempt \<le> max_segment_retries then
        (case is_cancelled w of
           (True, w1) \<Rightarrow> Some (Inl Dl_cancelled, w1)
         | (False, w1) \<Rightarrow>
             (case try_segment wr ua etag seg_start seg_end attempt w1 of
                None \<Rightarrow> None
              | Some (Inl e, w2) \<Rightarrow> Some (Inl e, w2)
              | Some (Inr (Segment_retry e), w2) \<Rightarrow>
                  attempt_loop wr ua etag seg_start seg_end (attempt + 1) (Some e) w2
              | Some (Inr Segment_done, w2) \<Rightarrow> Some (Inr (), w2)))
      else Some (Inl (case last_err of Some e \<Rightarrow> e | None \<Rightarrow> Dl_buffer_failed), w))"
  by pat_completeness auto

termination
  by (relation "measure (\<lambda>(wr, ua, etag, s, e, attempt, last_err, w). max_segment_retries + 1 - attempt)")
    auto

declare attempt_loop.simps [simp del]

subsection \<open>The worker\<close>

text \<open>
  One turn per segment; an element of the list is the time the segment took: \<open>None\<close> when none
  had elapsed, else the speed as \<open>next_segment_size\<close> reads it. A list that ends first leaves
  the worker under way.
\<close>

fun download_worker ::
    "(nat \<Rightarrow> nat \<Rightarrow> nat option) \<Rightarrow> string option \<Rightarrow> string option \<Rightarrow> nat option option list \<Rightarrow> nat
       \<Rightarrow> dl_world \<Rightarrow> ((download_error + unit) \<times> dl_world) option" where
  "download_worker wr ua etag [] preferred w = None"
| "download_worker wr ua etag (elapsed # turns) preferred w =
     (case is_cancelled w of
        (True, w1) \<Rightarrow> Some (Inl Dl_cancelled, w1)
      | (False, w1) \<Rightarrow>
          (case claim_range preferred (dw_buffer w1) of
             (None, b) \<Rightarrow> Some (Inr (), w1\<lparr>dw_buffer := b\<rparr>)
           | (Some (i, seg_start, seg_end), b) \<Rightarrow>
               (case attempt_loop wr ua etag seg_start seg_end 0 None (w1\<lparr>dw_buffer := b\<rparr>) of
                  None \<Rightarrow> None
                | Some (Inl e, w2) \<Rightarrow> Some (Inl e, w2)
                | Some (Inr _, w2) \<Rightarrow>
                    download_worker wr ua etag turns
                      (case elapsed of None \<Rightarrow> preferred | Some speed \<Rightarrow> next_segment_size speed)
                      (w2\<lparr>dw_buffer := mark_ready i (dw_buffer w2), dw_ready := dw_ready w2 + 1\<rparr>))))"

subsection \<open>What is left alone\<close>

text \<open>\<open>inside s e f f'\<close>: a file \<open>f'\<close> that differs from \<open>f\<close> at most between \<open>s\<close> and \<open>e\<close>.\<close>

definition inside :: "nat \<Rightarrow> nat \<Rightarrow> bytes \<Rightarrow> bytes \<Rightarrow> bool" where
  "inside s e f f' \<longleftrightarrow>
     length f' = length f \<and> (\<forall>i < length f. i < s \<or> e \<le> i \<longrightarrow> f' ! i = f ! i)"

lemma inside_refl [simp]: "inside s e f f"
  by (simp add: inside_def)

lemma inside_trans: "inside s e f g \<Longrightarrow> inside s e g h \<Longrightarrow> inside s e f h"
  by (simp add: inside_def)

lemma inside_pwrite:
  "s \<le> off \<Longrightarrow> off + length d \<le> e \<Longrightarrow> e \<le> length f \<Longrightarrow> inside s e f (pwrite f off d)"
  by (auto simp: inside_def intro!: nth_pwrite_outside)

lemma inside_write_loop:
  "wr_ok wr \<Longrightarrow> write_loop wr off d k f = (r, f') \<Longrightarrow> s \<le> off \<Longrightarrow> off + length d \<le> e \<Longrightarrow> e \<le> length f \<Longrightarrow>
     k \<le> length d \<Longrightarrow> inside s e f f'"
proof (induction wr off d k f rule: write_loop.induct)
  case (1 wr off d k f)
  note run = "1.prems"(2) [unfolded write_loop.simps [of wr off d k f]]
  show ?case
  proof (cases "\<exists>n. k < length d \<and> wr (off + k) (length d - k) = Some n \<and> n \<noteq> 0")
    case True
    then obtain n where n: "k < length d" "wr (off + k) (length d - k) = Some n" "n \<noteq> 0" by auto
    let ?g = "pwrite f (off + k) (take n (drop k d))"
    have le: "n \<le> length d - k" using "1.prems"(1) n(2) by (auto simp: wr_ok_def)
    have g: "inside s e f ?g" by (rule inside_pwrite) (use "1.prems" n(1) le in auto)
    have "inside s e ?g f'"
      using "1.IH" [OF n(1,2,3)] "1.prems" run n g le by (simp add: inside_def)
    then show ?thesis by (rule inside_trans [OF g])
  next
    case False
    then show ?thesis using run by (auto split: if_splits option.splits)
  qed
qed

text \<open>\<open>touched s e w w'\<close>: of the buffer only bytes of the file between \<open>s\<close> and \<open>e\<close> have changed.\<close>

definition touched :: "nat \<Rightarrow> nat \<Rightarrow> dl_world \<Rightarrow> dl_world \<Rightarrow> bool" where
  "touched s e w w' \<longleftrightarrow>
     (dw_buffer w')\<lparr>dl_file := []\<rparr> = (dw_buffer w)\<lparr>dl_file := []\<rparr>
     \<and> inside s e (dl_file (dw_buffer w)) (dl_file (dw_buffer w')) \<and> dw_ready w' = dw_ready w"

lemma touched_same: "dw_buffer w' = dw_buffer w \<Longrightarrow> dw_ready w' = dw_ready w \<Longrightarrow> touched s e w w'"
  by (simp add: touched_def)

lemma touched_refl [simp]: "touched s e w w"
  by (simp add: touched_same)

lemma touched_trans: "touched s e w w1 \<Longrightarrow> touched s e w1 w2 \<Longrightarrow> touched s e w w2"
  by (auto simp: touched_def intro: inside_trans)

lemma touched_fits: "touched s e w w' \<Longrightarrow> length (dl_file (dw_buffer w')) = length (dl_file (dw_buffer w))"
  by (simp add: touched_def inside_def)

lemma touched_total: "touched s e w w' \<Longrightarrow> total_size (dw_buffer w') = total_size (dw_buffer w)"
  by (drule touched_def [THEN iffD1], drule conjunct1, drule arg_cong [where f = total_size]) simp

lemma is_cancelled_frame:
  "is_cancelled w = (c, w') \<Longrightarrow> dw_buffer w' = dw_buffer w \<and> dw_ready w' = dw_ready w
     \<and> dw_exchanges w' = dw_exchanges w \<and> dw_sleeps w' = dw_sleeps w"
  by (auto simp: is_cancelled_def split: list.splits)

lemma consume_frame:
  "consume_upstream n w = Some (c, w') \<Longrightarrow> dw_buffer w' = dw_buffer w \<and> dw_ready w' = dw_ready w
     \<and> dw_exchanges w' = dw_exchanges w \<and> dw_sleeps w' = dw_sleeps w"
  by (auto simp: consume_upstream_def split: list.splits prod.splits wait_outcome.splits)

lemma send_frame:
  "send_request rq w = Some (a, w') \<Longrightarrow> dw_buffer w' = dw_buffer w \<and> dw_ready w' = dw_ready w
     \<and> dw_exchanges w' = dw_exchanges w @ [(rq, a)] \<and> dw_sleeps w' = dw_sleeps w"
  by (auto simp: send_request_def split: list.splits)

lemma sleep_frame [simp]:
  "dw_buffer (sleep_ms n w) = dw_buffer w" "dw_ready (sleep_ms n w) = dw_ready w"
  "dw_exchanges (sleep_ms n w) = dw_exchanges w" "dw_sleeps (sleep_ms n w) = dw_sleeps w @ [n]"
  by (simp_all add: sleep_ms_def)

text \<open>The inner loop runs at most once: a chunk is written whole or the segment is full.\<close>

lemma write_chunk_stop: "rest = [] \<or> e \<le> off \<Longrightarrow> write_chunk wr e rest off w = Some (Inr off, w)"
  by (subst write_chunk.simps) auto

lemma write_chunk_once:
  assumes "rest \<noteq> []" "off < e" "k = min (length rest) (e - off)"
  shows "write_chunk wr e rest off w =
     (case consume_upstream k w of
        None \<Rightarrow> None
      | Some (False, w1) \<Rightarrow> Some (Inl Dl_cancelled, w1)
      | Some (True, w1) \<Rightarrow>
          (case write_data wr off (take k rest) (dw_buffer w1) of
             (Inl x, b) \<Rightarrow> Some (Inl (Dl_io x), w1\<lparr>dw_buffer := b\<rparr>)
           | (Inr _, b) \<Rightarrow> Some (Inr (off + k), w1\<lparr>dw_buffer := b\<rparr>)))"
proof -
  have "write_chunk wr e (drop k rest) (off + k) v = Some (Inr (off + k), v)" for v
    by (rule write_chunk_stop) (use assms in auto)
  then show ?thesis using assms(1,2)
    by (subst write_chunk.simps) (simp add: Let_def assms(3) [symmetric] split: option.split prod.split bool.split sum.split)
qed

lemma write_chunk_touched:
  assumes wr: "wr_ok wr" and run: "write_chunk wr e rest off w = Some (r, w')"
    and pos: "s \<le> off" and fits: "e \<le> length (dl_file (dw_buffer w))"
  shows "touched s e w w' \<and> dw_exchanges w' = dw_exchanges w \<and> dw_sleeps w' = dw_sleeps w"
proof (cases "rest = [] \<or> e \<le> off")
  case True
  then show ?thesis using run write_chunk_stop [OF True] by simp
next
  case False
  define k where "k = min (length rest) (e - off)"
  have run: "write_chunk wr e rest off w = Some (r, w')" by (rule run)
  note once = write_chunk_once [OF _ _ k_def, of wr w]
  obtain ok w1 where c: "consume_upstream k w = Some (ok, w1)"
    using run once False by (auto split: option.splits)
  note fr = consume_frame [OF c]
  obtain q b where d: "write_data wr off (take k rest) (dw_buffer w1) = (q, b)" by fastforce
  have ins: "inside s e (dl_file (dw_buffer w1)) f"
    if "write_loop wr off (take k rest) 0 (dl_file (dw_buffer w1)) = (q, f)" for f
    by (rule inside_write_loop [OF wr that]) (use pos fits fr False in \<open>auto simp: k_def\<close>)
  obtain f where f: "b = (dw_buffer w1)\<lparr>dl_file := f\<rparr>" "inside s e (dl_file (dw_buffer w1)) f"
    using d ins by (auto simp: write_data_def split: prod.splits)
  then have "touched s e w (w1\<lparr>dw_buffer := b\<rparr>)" using fr by (simp add: touched_def)
  then show ?thesis
    using run once c d False fr by (cases ok; cases q) (auto intro: touched_same)
qed

text \<open>The bytes of a body up to its end or its first error.\<close>

fun body_of :: "stream_event list \<Rightarrow> bytes" where
  "body_of (Chunk c # evs) = c @ body_of evs"
| "body_of evs = []"

lemma write_chunk_writes:
  assumes wr: "wr_ok wr" and run: "write_chunk wr e rest off w = Some (Inr off', w')"
    and pos: "off \<le> e" and fits: "e \<le> length (dl_file (dw_buffer w))"
  shows "dl_file (dw_buffer w') = pwrite (dl_file (dw_buffer w)) off (take (e - off) rest)
    \<and> off' = off + length (take (e - off) rest)"
proof (cases "rest = [] \<or> e \<le> off")
  case True
  then show ?thesis using run pos write_chunk_stop [OF True] by auto
next
  case False
  define k where "k = min (length rest) (e - off)"
  note once = write_chunk_once [OF _ _ k_def, of wr w]
  obtain w1 b where c: "consume_upstream k w = Some (True, w1)"
    and d: "write_data wr off (take k rest) (dw_buffer w1) = (Inr (), b)"
    and r: "off' = off + k" "w' = w1\<lparr>dw_buffer := b\<rparr>"
    using run once False by (auto split: option.splits bool.splits sum.splits prod.splits)
  have "off + length (take k rest) \<le> length (dl_file (dw_buffer w1))"
    using fits False consume_frame [OF c] by (auto simp: k_def)
  then have "dl_file b = pwrite (dl_file (dw_buffer w1)) off (take k rest)"
    using write_data_ok [OF wr d] by simp
  moreover have "take (e - off) rest = take k rest" "length (take k rest) = k"
    by (auto simp: k_def min_def)
  ultimately show ?thesis using r consume_frame [OF c] by simp
qed

lemma write_chunk_mono: "write_chunk wr e rest off w = Some (Inr off', w') \<Longrightarrow> off \<le> off'"
  using write_chunk_once [OF _ _ refl, of rest off e wr w] write_chunk_stop [of rest e off wr w]
  by (cases "rest = [] \<or> e \<le> off") (auto split: option.splits bool.splits sum.splits prod.splits)

lemma read_body_touched:
  assumes wr: "wr_ok wr"
  shows "read_body wr attempt e evs off w = Some (r, w') \<Longrightarrow> s \<le> off \<Longrightarrow>
     e \<le> length (dl_file (dw_buffer w)) \<Longrightarrow>
     touched s e w w' \<and> dw_exchanges w' = dw_exchanges w
     \<and> (dw_sleeps w' = dw_sleeps w \<or>
        attempt < max_segment_retries \<and> dw_sleeps w' = dw_sleeps w @ [retry_delay attempt])"
proof (induction evs arbitrary: off w)
  case Nil
  then show ?case by simp
next
  case (Cons ev evs)
  note prems = Cons.prems and IH = Cons.IH
  show ?case
  proof (cases ev)
    case (Chunk c)
    obtain q w1 where p: "is_cancelled w = (q, w1)" by fastforce
    note fr = is_cancelled_frame [OF p]
    have t1: "touched s e w w1" using fr by (simp add: touched_same)
    show ?thesis
    proof (cases q)
      case True
      then show ?thesis using prems Chunk p t1 fr by auto
    next
      case False
      then obtain x w2 where ch: "write_chunk wr e c off w1 = Some (x, w2)"
        using prems(1) Chunk p by (auto split: option.splits)
      have fits: "e \<le> length (dl_file (dw_buffer w1))" using prems(3) fr by simp
      note t2 = write_chunk_touched [OF wr ch prems(2) fits]
      have t: "touched s e w w2" using t1 t2 touched_trans by blast
      show ?thesis
      proof (cases "\<exists>off'. x = Inr off' \<and> off' < e")
        case True
        then obtain off' where x: "x = Inr off'" "off' < e" by blast
        have rb: "read_body wr attempt e evs off' w2 = Some (r, w')"
          using prems(1) Chunk p False ch x by simp
        have so: "s \<le> off'" using write_chunk_mono ch x prems(2) by fastforce
        have "e \<le> length (dl_file (dw_buffer w2))" using fits touched_fits t2 by metis
        from IH [OF rb so this] have "touched s e w2 w' \<and> dw_exchanges w' = dw_exchanges w2
            \<and> (dw_sleeps w' = dw_sleeps w2 \<or>
               attempt < max_segment_retries \<and> dw_sleeps w' = dw_sleeps w2 @ [retry_delay attempt])" .
        then show ?thesis using t t2 fr touched_trans by metis
      next
        case F: False
        then have "w' = w2" using prems(1) Chunk p False ch by (cases x) auto
        then show ?thesis using t t2 fr by simp
      qed
    qed
  qed (use prems in \<open>auto split: if_splits intro: touched_same\<close>)
qed

lemma read_body_at:
  assumes wr: "wr_ok wr"
  shows "read_body wr attempt e evs off w = Some (Inr (Body_at off'), w') \<Longrightarrow> off < e \<Longrightarrow>
     e \<le> length (dl_file (dw_buffer w)) \<Longrightarrow>
     dl_file (dw_buffer w') = pwrite (dl_file (dw_buffer w)) off (take (e - off) (body_of evs))
     \<and> off' = off + length (take (e - off) (body_of evs))"
proof (induction evs arbitrary: off w)
  case Nil
  then show ?case by simp
next
  case (Cons ev evs)
  note prems = Cons.prems and IH = Cons.IH
  show ?case
  proof (cases ev)
    case (Chunk c)
    obtain w1 x w2 where p: "is_cancelled w = (False, w1)"
      and ch: "write_chunk wr e c off w1 = Some (Inr x, w2)"
      and rest: "if x \<ge> e then off' = x \<and> w' = w2
        else read_body wr attempt e evs x w2 = Some (Inr (Body_at off'), w')"
      using prems(1) Chunk by (auto split: option.splits prod.splits bool.splits sum.splits if_splits)
    note fr = is_cancelled_frame [OF p]
    have fits: "e \<le> length (dl_file (dw_buffer w1))" using prems(3) fr by simp
    note cw = write_chunk_writes [OF wr ch less_imp_le [OF prems(2)] fits]
    have len: "length (dl_file (dw_buffer w2)) = length (dl_file (dw_buffer w1))"
      using write_chunk_touched [OF wr ch order_refl fits] touched_fits by blast
    show ?thesis
    proof (cases "e \<le> x")
      case True
      then have "e - off \<le> length c" using cw prems(2) by simp
      then have "take (e - off) (body_of (ev # evs)) = take (e - off) c" using Chunk by simp
      then show ?thesis using cw rest True fr by simp
    next
      case False
      then have c: "take (e - off) c = c" "x = off + length c" using cw by auto
      have "read_body wr attempt e evs x w2 = Some (Inr (Body_at off'), w')" using rest False by simp
      from IH [OF this] have ih: "dl_file (dw_buffer w') = pwrite (dl_file (dw_buffer w2)) x (take (e - x) (body_of evs))
          \<and> off' = x + length (take (e - x) (body_of evs))"
        using False fits len by simp
      have tk: "take (e - off) (body_of (ev # evs)) = c @ take (e - x) (body_of evs)"
        using Chunk c by (simp add: take_append)
      have "off + length c + length (take (e - x) (body_of evs)) \<le> length (dl_file (dw_buffer w))"
        using c False prems(3) by simp
      from pwrite_append [OF this] show ?thesis using ih tk cw c fr by simp
    qed
  qed (use prems in \<open>auto split: if_splits\<close>)
qed

text \<open>One attempt, whatever its end: only the file inside the range, one request, one delay at most.\<close>

definition attempt_frame :: "nat \<Rightarrow> nat \<Rightarrow> nat \<Rightarrow> dl_world \<Rightarrow> dl_world \<Rightarrow> bool" where
  "attempt_frame s e attempt w w' \<longleftrightarrow>
     touched s e w w' \<and> (dw_sleeps w' = dw_sleeps w \<or>
        attempt < max_segment_retries \<and> dw_sleeps w' = dw_sleeps w @ [retry_delay attempt])"

lemma try_segment_frame:
  assumes wr: "wr_ok wr" and run: "try_segment wr ua etag s e attempt w = Some (r, w')"
    and fits: "e \<le> length (dl_file (dw_buffer w))"
  shows "attempt_frame s e attempt w w'
    \<and> (\<exists>a. dw_exchanges w' = dw_exchanges w @ [(range_request_for ua etag s e, a)])"
proof -
  obtain a w1 where s: "send_request (range_request_for ua etag s e) w = Some (a, w1)"
    using run by (auto simp: try_segment_def split: option.splits)
  note fr = send_frame [OF s]
  have t: "touched s e w w1" using fr by (simp add: touched_same)
  show ?thesis
  proof (cases "\<exists>resp x w2. a = Inr resp \<and> read_body wr attempt e (rr_stream resp) s w1 = Some (x, w2) \<and> w2 = w'")
    case True
    then obtain resp x where a: "a = Inr resp"
      and rb: "read_body wr attempt e (rr_stream resp) s w1 = Some (x, w')" by blast
    have "e \<le> length (dl_file (dw_buffer w1))" using fits fr by simp
    from read_body_touched [OF wr rb order_refl this] show ?thesis
      using fr t touched_trans by (auto simp: attempt_frame_def)
  next
    case False
    then have "dw_buffer w' = dw_buffer w1 \<and> dw_ready w' = dw_ready w1 \<and> dw_exchanges w' = dw_exchanges w1
        \<and> (dw_sleeps w' = dw_sleeps w1 \<or>
           attempt < max_segment_retries \<and> dw_sleeps w' = dw_sleeps w1 @ [retry_delay attempt])"
      using run s by (auto simp: try_segment_def split: option.splits sum.splits prod.splits if_splits
          body_end.splits)
    then show ?thesis using fr by (auto simp: attempt_frame_def intro: touched_same)
  qed
qed

text \<open>What the upstream has answered when an attempt succeeds.\<close>

definition good_answer :: "nat \<Rightarrow> nat \<Rightarrow> nat \<Rightarrow> range_response \<Rightarrow> bool" where
  "good_answer s e n resp \<longleftrightarrow>
     (rr_status resp = 206 \<or> rr_status resp = 200 \<and> s = 0 \<and> e = n) \<and> e - s \<le> length (body_of (rr_stream resp))"

lemma try_segment_done:
  assumes wr: "wr_ok wr" and run: "try_segment wr ua etag s e attempt w = Some (Inr Segment_done, w')"
    and fits: "e \<le> length (dl_file (dw_buffer w))" and ne: "s < e"
  shows "\<exists>resp. dw_exchanges w' = dw_exchanges w @ [(range_request_for ua etag s e, Inr resp)]
    \<and> good_answer s e (total_size (dw_buffer w)) resp
    \<and> dl_file (dw_buffer w') = pwrite (dl_file (dw_buffer w)) s (take (e - s) (body_of (rr_stream resp)))"
proof -
  obtain resp w1 off where sd: "send_request (range_request_for ua etag s e) w = Some (Inr resp, w1)"
    and st: "check_status (rr_status resp) s e (total_size (dw_buffer w1)) = None"
    and rb: "read_body wr attempt e (rr_stream resp) s w1 = Some (Inr (Body_at off), w')"
    and off: "off - s = e - s"
    using run by (auto simp: try_segment_def split: option.splits sum.splits prod.splits if_splits body_end.splits)
  note fr = send_frame [OF sd]
  have f1: "e \<le> length (dl_file (dw_buffer w1))" using fits fr by simp
  note at = read_body_at [OF wr rb ne f1]
  have "e - s \<le> length (body_of (rr_stream resp))" using at off by simp
  then have "good_answer s e (total_size (dw_buffer w)) resp"
    using st fr by (auto simp: good_answer_def check_status_def split: if_splits)
  then show ?thesis using at fr read_body_touched [OF wr rb order_refl f1] by auto
qed

subsection \<open>The retries of a segment\<close>

definition retry_budget :: "nat \<Rightarrow> nat" where
  "retry_budget attempt = sum_list (map retry_delay [attempt..<max_segment_retries])"

lemma retry_budget_0: "retry_budget 0 = 1400"
  by (simp add: retry_budget_def retry_delay_def max_segment_retries_def base_retry_delay_ms_def upt_rec)

lemma retry_budget_step:
  "retry_budget (Suc a) \<le> retry_budget a"
  "a < max_segment_retries \<Longrightarrow> retry_budget a = retry_delay a + retry_budget (Suc a)"
  by (cases "a < max_segment_retries", simp_all add: retry_budget_def upt_conv_Cons)

text \<open>What is true of the retries of a segment however they end.\<close>

definition retries_frame ::
    "string option \<Rightarrow> string option \<Rightarrow> nat \<Rightarrow> nat \<Rightarrow> nat \<Rightarrow> dl_world \<Rightarrow> dl_world \<Rightarrow> bool" where
  "retries_frame ua etag s e attempt w w' \<longleftrightarrow>
     touched s e w w' \<and> sum_list (dw_sleeps w') \<le> sum_list (dw_sleeps w) + retry_budget attempt
     \<and> (\<exists>xs. dw_exchanges w' = dw_exchanges w @ map (Pair (range_request_for ua etag s e)) xs
          \<and> length xs + attempt \<le> max_segment_retries + 1)"

lemma retries_frame_once:
  assumes "attempt \<le> max_segment_retries" "attempt_frame s e attempt w w'"
    "dw_exchanges w' = dw_exchanges w @ [(range_request_for ua etag s e, a)]"
  shows "retries_frame ua etag s e attempt w w'"
  using assms retry_budget_step(2) [of attempt]
  by (auto simp: retries_frame_def attempt_frame_def intro!: exI [of _ "[a]"])

lemma retries_frame_step:
  assumes "attempt_frame s e attempt w w1"
    "dw_exchanges w1 = dw_exchanges w @ [(range_request_for ua etag s e, a)]"
    "retries_frame ua etag s e (Suc attempt) w1 w'"
  shows "retries_frame ua etag s e attempt w w'"
proof -
  obtain xs where xs: "dw_exchanges w' = dw_exchanges w1 @ map (Pair (range_request_for ua etag s e)) xs"
    "length xs + Suc attempt \<le> max_segment_retries + 1"
    using assms(3) by (auto simp: retries_frame_def)
  have "sum_list (dw_sleeps w') \<le> sum_list (dw_sleeps w) + retry_budget attempt"
    using assms(1,3) retry_budget_step [of attempt] by (auto simp: retries_frame_def attempt_frame_def)
  moreover have "touched s e w w'"
    using assms(1,3) touched_trans by (auto simp: retries_frame_def attempt_frame_def)
  ultimately show ?thesis
    using xs assms(2) by (auto simp: retries_frame_def intro!: exI [of _ "a # xs"])
qed

lemma retries_frame_none:
  "dw_buffer w' = dw_buffer w \<Longrightarrow> dw_ready w' = dw_ready w \<Longrightarrow> dw_sleeps w' = dw_sleeps w \<Longrightarrow>
   dw_exchanges w' = dw_exchanges w \<Longrightarrow> attempt \<le> max_segment_retries + 1 \<Longrightarrow>
   retries_frame ua etag s e attempt w w'"
  by (auto simp: retries_frame_def intro!: touched_same)

lemma attempt_loop_frame:
  assumes wr: "wr_ok wr"
  shows "attempt_loop wr ua etag s e attempt le w = Some (r, w') \<Longrightarrow>
     e \<le> length (dl_file (dw_buffer w)) \<Longrightarrow> attempt \<le> max_segment_retries + 1 \<Longrightarrow>
     retries_frame ua etag s e attempt w w'"
proof (induction "max_segment_retries + 1 - attempt" arbitrary: attempt le w rule: less_induct)
  case less
  note run = less.prems(1) [unfolded attempt_loop.simps [of wr ua etag s e attempt le w]]
  obtain c w1 where p: "is_cancelled w = (c, w1)" by fastforce
  note fr = is_cancelled_frame [OF p]
  show ?case
  proof (cases "attempt \<le> max_segment_retries \<and> \<not> c")
    case False
    then have "w' = w \<or> w' = w1" using run p by (auto split: if_splits)
    then show ?thesis using fr less.prems(3) by (auto intro: retries_frame_none)
  next
    case True
    then obtain x w2 where ts: "try_segment wr ua etag s e attempt w1 = Some (x, w2)"
      using run p by (auto split: option.splits)
    have "e \<le> length (dl_file (dw_buffer w1))" using less.prems(2) fr by simp
    from try_segment_frame [OF wr ts this] obtain a where
      f: "attempt_frame s e attempt w1 w2"
         "dw_exchanges w2 = dw_exchanges w1 @ [(range_request_for ua etag s e, a)]" by blast
    have fw: "attempt_frame s e attempt w w2"
      using f(1) fr by (auto simp: attempt_frame_def touched_def)
    have ew: "dw_exchanges w2 = dw_exchanges w @ [(range_request_for ua etag s e, a)]" using f(2) fr by simp
    show ?thesis
    proof (cases "\<exists>err. x = Inr (Segment_retry err)")
      case True
      then obtain err where "attempt_loop wr ua etag s e (Suc attempt) (Some err) w2 = Some (r, w')"
        using run p ts \<open>attempt \<le> max_segment_retries \<and> \<not> c\<close> by auto
      then have "retries_frame ua etag s e (Suc attempt) w2 w'"
        by (rule less.hyps [rotated])
          (use \<open>attempt \<le> max_segment_retries \<and> \<not> c\<close> less.prems(2) fw touched_fits in
           \<open>auto simp: attempt_frame_def\<close>)
      then show ?thesis by (rule retries_frame_step [OF fw ew])
    next
      case False
      then have "w' = w2"
        using run p ts \<open>attempt \<le> max_segment_retries \<and> \<not> c\<close>
        by (auto split: sum.splits attempt_end.splits)
      then show ?thesis
        using retries_frame_once [OF _ fw ew] \<open>attempt \<le> max_segment_retries \<and> \<not> c\<close> by simp
    qed
  qed
qed

lemma attempt_loop_done:
  assumes wr: "wr_ok wr" and ne: "s < e"
  shows "attempt_loop wr ua etag s e attempt le w = Some (Inr (), w') \<Longrightarrow>
     e \<le> length (dl_file (dw_buffer w)) \<Longrightarrow>
     \<exists>resp xs. dw_exchanges w' = dw_exchanges w @ xs @ [(range_request_for ua etag s e, Inr resp)]
       \<and> good_answer s e (total_size (dw_buffer w)) resp
       \<and> pread (dl_file (dw_buffer w')) s (e - s) = take (e - s) (body_of (rr_stream resp))"
proof (induction "max_segment_retries + 1 - attempt" arbitrary: attempt le w rule: less_induct)
  case less
  note run = less.prems(1) [unfolded attempt_loop.simps [of wr ua etag s e attempt le w]]
  obtain w1 x w2 where at: "attempt \<le> max_segment_retries" and p: "is_cancelled w = (False, w1)"
    and ts: "try_segment wr ua etag s e attempt w1 = Some (Inr x, w2)"
    using run by (auto split: if_splits prod.splits bool.splits option.splits sum.splits)
  note fr = is_cancelled_frame [OF p]
  have f1: "e \<le> length (dl_file (dw_buffer w1))" using less.prems(2) fr by simp
  show ?case
  proof (cases x)
    case Segment_done
    then have w': "w' = w2" and td: "try_segment wr ua etag s e attempt w1 = Some (Inr Segment_done, w2)"
      using run at p ts by auto
    from try_segment_done [OF wr td f1 ne] obtain resp where
      r: "dw_exchanges w2 = dw_exchanges w1 @ [(range_request_for ua etag s e, Inr resp)]"
      "good_answer s e (total_size (dw_buffer w1)) resp"
      "dl_file (dw_buffer w2) = pwrite (dl_file (dw_buffer w1)) s (take (e - s) (body_of (rr_stream resp)))"
      by blast
    have "length (take (e - s) (body_of (rr_stream resp))) = e - s" using r(2) by (simp add: good_answer_def)
    with pread_pwrite_same [of "dl_file (dw_buffer w1)" s "take (e - s) (body_of (rr_stream resp))"]
    show ?thesis using r w' fr by (intro exI [of _ resp] exI [of _ "[]"]) simp
  next
    case (Segment_retry err)
    then have next_run: "attempt_loop wr ua etag s e (Suc attempt) (Some err) w2 = Some (Inr (), w')"
      using run at p ts by simp
    from try_segment_frame [OF wr ts f1] obtain a where
      f: "touched s e w1 w2" "dw_exchanges w2 = dw_exchanges w1 @ [(range_request_for ua etag s e, a)]"
      by (auto simp: attempt_frame_def)
    have "max_segment_retries + 1 - Suc attempt < max_segment_retries + 1 - attempt" using at by simp
    moreover have "e \<le> length (dl_file (dw_buffer w2))" using f1 touched_fits [OF f(1)] by simp
    ultimately obtain resp xs where
      "dw_exchanges w' = dw_exchanges w2 @ xs @ [(range_request_for ua etag s e, Inr resp)]"
      "good_answer s e (total_size (dw_buffer w2)) resp"
      "pread (dl_file (dw_buffer w')) s (e - s) = take (e - s) (body_of (rr_stream resp))"
      using less.hyps next_run by blast
    then show ?thesis using f touched_total [OF f(1)] fr
      by (intro exI [of _ resp] exI [of _ "(range_request_for ua etag s e, a) # xs"]) simp
  qed
qed

text \<open>
  What a downloaded segment holds: when the retries of a segment succeed, the upstream's last
  answer was to the request for exactly this range, was a 206 (or a 200 when the segment is the
  whole file), had at least as many bytes as the segment, and these bytes are now the
  segment's range of the file, whatever failed attempts had left there.
\<close>

lemma segment_downloaded:
  assumes "wr_ok wr" and "attempt_loop wr ua etag s e 0 None w = Some (Inr (), w')"
    and "s < e" and "e \<le> length (dl_file (dw_buffer w))"
  shows "\<exists>resp. last (dw_exchanges w') = (range_request_for ua etag s e, Inr resp)
     \<and> good_answer s e (total_size (dw_buffer w)) resp
     \<and> pread (dl_file (dw_buffer w')) s (e - s) = take (e - s) (body_of (rr_stream resp))"
  using attempt_loop_done [OF assms(1,3,2,4)] by fastforce

definition demo_answers :: "range_answer list" where
  "demo_answers =
     [Inl \<lparr>is_connect = True, is_body = False, is_timeout = False, is_decode = False, is_request = False\<rparr>,
      Inr \<lparr>rr_status = 206, rr_stream = [Chunk [7], Stream_timeout]\<rparr>,
      Inr \<lparr>rr_status = 206, rr_stream = [Chunk [8], Chunk [9, 6, 5]]\<rparr>]"

definition demo_dl :: "range_answer list \<Rightarrow> dl_world" where
  "demo_dl as =
     \<lparr>dw_answers = as, dw_polls = [], dw_waits = [(0, []), (0, []), (0, [])], dw_bucket = unlimited_bucket,
      dw_buffer = (new_buffer 4 [0, 0, 0, 0] ''f''), dw_exchanges = [], dw_sleeps = [], dw_ready = 0\<rparr>"

lemmas dl_eval = attempt_loop.simps try_segment_def send_request_def is_cancelled_def check_status_def
  is_transient_error_def max_segment_retries_def consume_upstream_def wait_consume_def try_consume_def
  bucket_unlimited_def unlimited_bucket_def demo_dl_def demo_answers_def sleep_ms_def write_chunk.simps
  write_data_def write_loop.simps wr_full_def new_buffer_def pwrite_def

lemma demo_retries:
  "\<exists>w'. attempt_loop wr_full None None 1 3 0 None (demo_dl demo_answers) = Some (Inr (), w')
     \<and> dl_file (dw_buffer w') = [0, 8, 9, 0]"
  by (simp add: dl_eval)

lemma segment_downloaded_witness:
  "\<exists>w' resp. attempt_loop wr_full None None 1 3 0 None (demo_dl demo_answers) = Some (Inr (), w')
     \<and> last (dw_exchanges w') = (range_request_for None None 1 3, Inr resp)
     \<and> good_answer 1 3 4 resp \<and> pread (dl_file (dw_buffer w')) 1 2 = take 2 (body_of (rr_stream resp))"
proof -
  obtain w' where "attempt_loop wr_full None None 1 3 0 None (demo_dl demo_answers) = Some (Inr (), w')"
    using demo_retries by blast
  from segment_downloaded [OF wr_full_ok(1) this] this show ?thesis
    by (auto simp: demo_dl_def new_buffer_def)
qed

text \<open>
  C13. However the download of a segment ends, with an error of the upstream, of the disk, by
  cancellation or in success, it has asked the upstream at most four times, always for the
  segment's range, has slept at most 1400 milliseconds between its tries, and has changed no
  byte of the file outside the segment and nothing else of the buffer.
\<close>

theorem failed_segment_contained:
  assumes "wr_ok wr" and "attempt_loop wr ua etag s e 0 None w = Some (r, w')"
    and "e \<le> length (dl_file (dw_buffer w))"
  shows "inside s e (dl_file (dw_buffer w)) (dl_file (dw_buffer w'))
     \<and> (dw_buffer w')\<lparr>dl_file := []\<rparr> = (dw_buffer w)\<lparr>dl_file := []\<rparr>
     \<and> sum_list (dw_sleeps w') \<le> sum_list (dw_sleeps w) + 1400
     \<and> (\<exists>as. length as \<le> 4
          \<and> dw_exchanges w' = dw_exchanges w @ map (Pair (range_request_for ua etag s e)) as)"
proof -
  have "retries_frame ua etag s e 0 w w'" by (rule attempt_loop_frame [OF assms]) simp
  then show ?thesis
    by (auto simp: retries_frame_def touched_def retry_budget_0 max_segment_retries_def)
qed

theorem failed_segment_contained_witness:
  "\<exists>r w'. attempt_loop wr_full None None 1 3 0 None (demo_dl [Inr \<lparr>rr_status = 412, rr_stream = []\<rparr>]) = Some (r, w')
     \<and> r = Inl Dl_etag_changed \<and> inside 1 3 [0, 0, 0, 0] (dl_file (dw_buffer w'))"
proof -
  obtain w' where run: "attempt_loop wr_full None None 1 3 0 None
      (demo_dl [Inr \<lparr>rr_status = 412, rr_stream = []\<rparr>]) = Some (Inl Dl_etag_changed, w')"
    by (simp add: dl_eval)
  from failed_segment_contained [OF wr_full_ok(1) run] run show ?thesis
    by (auto simp: demo_dl_def new_buffer_def)
qed

text \<open>
  An upstream that does not honour the range, or whose file has changed, aborts the download
  at the first answer, before a byte is written.
\<close>

lemma upstream_refusal_is_fatal:
  assumes "dw_answers w = Inr resp # as" "fst (is_cancelled w) = False"
    "rr_status resp = 412 \<or> rr_status resp = 200 \<and> \<not> (s = 0 \<and> e = total_size (dw_buffer w))"
  shows "\<exists>err w'. attempt_loop wr ua etag s e 0 None w = Some (Inl err, w') \<and> is_fatal err
    \<and> dw_buffer w' = dw_buffer w"
proof -
  obtain w1 where p: "is_cancelled w = (False, w1)" using assms(2) by (cases "is_cancelled w") auto
  have "dw_answers w1 = dw_answers w" using p by (auto simp: is_cancelled_def split: list.splits)
  then show ?thesis
    using p assms(1,3) is_cancelled_frame [OF p]
    by (auto simp: attempt_loop.simps try_segment_def send_request_def check_status_def is_fatal_def)
qed

text \<open>The loop never falls through: the last try has no retry left, so it returns.\<close>

lemma last_try_returns:
  "try_segment wr ua etag s e max_segment_retries w = Some (r, w') \<Longrightarrow> r \<noteq> Inr (Segment_retry err)"
proof -
  have "read_body wr max_segment_retries e evs off v = Some (q, v') \<Longrightarrow> q \<noteq> Inr (Body_retry x)"
    for evs off v q v' x
    by (induction evs arbitrary: off v rule: body_of.induct)
      (auto split: option.splits sum.splits prod.splits bool.splits if_splits)
  then show "try_segment wr ua etag s e max_segment_retries w = Some (r, w') \<Longrightarrow> r \<noteq> Inr (Segment_retry err)"
    by (auto simp: try_segment_def split: option.splits sum.splits prod.splits if_splits body_end.splits)
      blast
qed

lemma next_segment_size_bounds:
  "min_segment_size \<le> next_segment_size sp \<and> next_segment_size sp \<le> max_segment_size"
  by (auto simp: next_segment_size_def min_segment_size_def max_segment_size_def initial_segment_size_def
      split: option.split)

text \<open>A request names its range.\<close>

lemma dec_inj: "dec m = dec n \<Longrightarrow> m = n"
  by (metis max.cobounded1 max.cobounded2 option.inject parse_uint_dec)

lemma range_request_inj:
  assumes "range_request_for ua etag s e = range_request_for ua etag s' e'" "s < e" "s' < e'"
  shows "s = s' \<and> e = e'"
proof -
  have eq: "dec s @ CHR ''-'' # dec (e - 1) = dec s' @ CHR ''-'' # dec (e' - 1)"
    using assms(1) by (simp add: range_request_for_def range_header_def)
  have "CHR ''-'' \<notin> set (dec n)" for n by (rule dec_not_in) (simp add: is_digit_def)
  then have "split_once (CHR ''-'') (dec m @ CHR ''-'' # dec n) = Some (dec m, dec n)" for m n
    by (rule split_once_append)
  then have "dec s = dec s'" "dec (e - 1) = dec (e' - 1)" using eq by (metis option.inject prod.inject)+
  then have "s = s'" "e - 1 = e' - 1" by (auto dest: dec_inj)
  then show ?thesis using assms(2,3) by simp
qed

subsection \<open>One worker assembles the whole file\<close>

text \<open>
  An upstream that serves \<open>F\<close>: every good answer to a request for a range starts with the
  bytes of \<open>F\<close> in that range.
\<close>

definition serves ::
    "string option \<Rightarrow> string option \<Rightarrow> bytes \<Rightarrow> (range_request \<times> range_answer) list \<Rightarrow> bool" where
  "serves ua etag F log \<longleftrightarrow>
     (\<forall>s e resp. s < e \<longrightarrow> (range_request_for ua etag s e, Inr resp) \<in> set log \<longrightarrow>
        good_answer s e (length F) resp \<longrightarrow> take (e - s) (body_of (rr_stream resp)) = pread F s (e - s))"

text \<open>Every claimed segment is ready and the file agrees with \<open>F\<close> as far as it is claimed.\<close>

definition assembled :: "bytes \<Rightarrow> segments_buffer \<Rightarrow> bool" where
  "assembled F b \<longleftrightarrow>
     buf_inv b \<and> total_size b = length F \<and> length (dl_file b) = length F
     \<and> (\<forall>sg \<in> set (segments b). sg_state sg = Ready)
     \<and> take (next_unassigned b) (dl_file b) = take (next_unassigned b) F"

lemma mark_frame [simp]:
  "total_size (mark_ready i b) = total_size b" "dl_file (mark_ready i b) = dl_file b"
  "next_unassigned (mark_ready i b) = next_unassigned b" "all_assigned (mark_ready i b) = all_assigned b"
  by (simp_all add: mark_ready_def)

lemma worker_exchanges:
  assumes wr: "wr_ok wr"
  shows "download_worker wr ua etag turns p w = Some (r, w') \<Longrightarrow>
     total_size (dw_buffer w) \<le> length (dl_file (dw_buffer w)) \<Longrightarrow>
     \<exists>xs. dw_exchanges w' = dw_exchanges w @ xs"
proof (induction turns arbitrary: p w)
  case Nil
  then show ?case by simp
next
  case (Cons el turns)
  obtain c w1 where p: "is_cancelled w = (c, w1)" by fastforce
  note fr = is_cancelled_frame [OF p]
  show ?case
  proof (cases "c \<or> fst (claim_range p (dw_buffer w1)) = None")
    case True
    then show ?thesis using Cons.prems(1) p fr by (cases c) (auto split: prod.splits)
  next
    case False
    then obtain i s e b where cl: "claim_range p (dw_buffer w1) = (Some (i, s, e), b)"
      by (cases "claim_range p (dw_buffer w1)") auto
    obtain x w2 where at: "attempt_loop wr ua etag s e 0 None (w1\<lparr>dw_buffer := b\<rparr>) = Some (x, w2)"
      using Cons.prems(1) p False cl by (auto split: option.splits)
    have "retries_frame ua etag s e 0 (w1\<lparr>dw_buffer := b\<rparr>) w2"
      by (rule attempt_loop_frame [OF wr at])
        (use claim_range_Some(6,8,10) [OF cl] Cons.prems(2) fr in auto)
    then obtain ys where t: "touched s e (w1\<lparr>dw_buffer := b\<rparr>) w2" and ys: "dw_exchanges w2 = dw_exchanges w @ ys"
      using fr by (auto simp: retries_frame_def)
    have sz: "total_size (dw_buffer w2) \<le> length (dl_file (dw_buffer w2))"
      using touched_fits [OF t] touched_total [OF t] claim_range_Some(8,10) [OF cl] fr Cons.prems(2) by simp
    show ?thesis
    proof (cases x)
      case (Inl err)
      then show ?thesis using Cons.prems(1) p False cl at ys by auto
    next
      case (Inr u)
      then have rest: "download_worker wr ua etag turns
          (case el of None \<Rightarrow> p | Some speed \<Rightarrow> next_segment_size speed)
          (w2\<lparr>dw_buffer := mark_ready i (dw_buffer w2), dw_ready := dw_ready w2 + 1\<rparr>) = Some (r, w')"
        using Cons.prems(1) p False cl at by simp
      from Cons.IH [OF rest] obtain zs where "dw_exchanges w' = dw_exchanges w2 @ zs" using sz by auto
      then show ?thesis using ys by simp
    qed
  qed
qed

lemma assembled_claim_fetch:
  assumes as: "assembled F (dw_buffer w1)" and cl: "claim_range p (dw_buffer w1) = (Some (i, s, e), b)"
    and t: "touched s e (w1\<lparr>dw_buffer := b\<rparr>) w2"
    and got: "pread (dl_file (dw_buffer w2)) s (e - s) = pread F s (e - s)"
  shows "assembled F (mark_ready i (dw_buffer w2))"
proof -
  note c = claim_range_Some [OF cl]
  have eq: "(dw_buffer w2)\<lparr>dl_file := []\<rparr> = b\<lparr>dl_file := []\<rparr>" using t by (simp add: touched_def)
  have f: "segments (dw_buffer w2) = segments b" "total_size (dw_buffer w2) = total_size b"
    "next_unassigned (dw_buffer w2) = next_unassigned b"
    using arg_cong [OF eq, of segments] arg_cong [OF eq, of total_size] arg_cong [OF eq, of next_unassigned]
    by simp_all
  have b: "buf_inv b" using as buf_inv_claim [of "dw_buffer w1" p] cl by (simp add: assembled_def)
  have inv2: "buf_inv (dw_buffer w2)"
    using b arg_cong [OF eq, of buf_inv] by (simp add: buf_inv_frame)
  have nr: "\<not> is_ready i (dw_buffer w2)" using c(2,9) f by (simp add: is_ready_def)
  have ins: "inside s e (dl_file b) (dl_file (dw_buffer w2))" using t by (simp add: touched_def)
  have upto: "take e (dl_file (dw_buffer w2)) = take e F"
  proof -
    have "length (dl_file (dw_buffer w2)) = length (dl_file (dw_buffer w1))" using ins c(10) by (simp add: inside_def)
    then have "take s (dl_file (dw_buffer w2)) = take s (dl_file (dw_buffer w1))"
      using ins c(10) by (intro nth_equalityI) (auto simp: inside_def)
    then have "take s (dl_file (dw_buffer w2)) = take s F" using as c(3) by (simp add: assembled_def)
    moreover have "take e g = take s g @ pread g s (e - s)" for g :: bytes
      using take_add [of s "e - s" g] c(4) by (simp add: pread_def)
    ultimately show ?thesis using got by simp
  qed
  have ready: "\<forall>sg \<in> set (segments (mark_ready i (dw_buffer w2))). sg_state sg = Ready"
    using as c(2,9) f by (auto simp: mark_ready_def assembled_def set_conv_nth nth_append nth_list_update
        less_Suc_eq)
  show ?thesis
    using as c(7,8,10) f upto ready buf_inv_mark [OF inv2 nr] ins
    by (simp add: assembled_def inside_def)
qed

lemma worker_assembles:
  assumes wr: "wr_ok wr"
  shows "download_worker wr ua etag turns p w = Some (Inr (), w') \<Longrightarrow> assembled F (dw_buffer w) \<Longrightarrow>
     0 < p \<Longrightarrow> serves ua etag F (dw_exchanges w') \<Longrightarrow>
     assembled F (dw_buffer w') \<and> all_assigned (dw_buffer w')"
proof (induction turns arbitrary: p w)
  case Nil
  then show ?case by simp
next
  case (Cons el turns)
  obtain w1 where p: "is_cancelled w = (False, w1)"
    using Cons.prems(1) by (auto split: prod.splits bool.splits)
  note fr = is_cancelled_frame [OF p]
  have as: "assembled F (dw_buffer w1)" using Cons.prems(2) fr by simp
  show ?case
  proof (cases "claim_range p (dw_buffer w1)")
    case (Pair res b)
    show ?thesis
    proof (cases res)
      case None
      then have w': "w' = w1\<lparr>dw_buffer := b\<rparr>" using Cons.prems(1) p Pair by simp
      have b: "b = (dw_buffer w1)\<lparr>all_assigned := True\<rparr>" and le: "total_size (dw_buffer w1) \<le> next_unassigned (dw_buffer w1)"
        using claim_range_None [of p "dw_buffer w1" b] Pair None Cons.prems(3) by simp_all
      have "next_unassigned (dw_buffer w1) = total_size (dw_buffer w1)"
        using as le by (simp add: assembled_def buf_inv_def)
      then have "buf_inv b" using as b by (auto simp: assembled_def buf_inv_def)
      then show ?thesis using as b w' by (simp add: assembled_def)
    next
      case (Some r)
      obtain i s e where cl: "claim_range p (dw_buffer w1) = (Some (i, s, e), b)"
        using Pair Some by (cases r) auto
      note c = claim_range_Some [OF cl]
      obtain w2 where at: "attempt_loop wr ua etag s e 0 None (w1\<lparr>dw_buffer := b\<rparr>) = Some (Inr (), w2)"
        and rest: "download_worker wr ua etag turns
          (case el of None \<Rightarrow> p | Some speed \<Rightarrow> next_segment_size speed)
          (w2\<lparr>dw_buffer := mark_ready i (dw_buffer w2), dw_ready := dw_ready w2 + 1\<rparr>) = Some (Inr (), w')"
        using Cons.prems(1) p cl by (auto split: option.splits sum.splits)
      have fits: "e \<le> length (dl_file (dw_buffer (w1\<lparr>dw_buffer := b\<rparr>)))"
        using as c(6,8,10) by (simp add: assembled_def)
      have t: "touched s e (w1\<lparr>dw_buffer := b\<rparr>) w2"
        using attempt_loop_frame [OF wr at fits] by (simp add: retries_frame_def)
      from attempt_loop_done [OF wr c(4) at fits] obtain resp xs where
        log: "dw_exchanges w2 = dw_exchanges w1 @ xs @ [(range_request_for ua etag s e, Inr resp)]"
        and good: "good_answer s e (total_size b) resp"
        and got: "pread (dl_file (dw_buffer w2)) s (e - s) = take (e - s) (body_of (rr_stream resp))"
        by auto
      have sz: "total_size (dw_buffer w2) \<le> length (dl_file (dw_buffer w2))"
        using touched_fits [OF t] touched_total [OF t] c(8,10) as by (simp add: assembled_def)
      obtain ys where "dw_exchanges w' = dw_exchanges w2 @ ys"
        using worker_exchanges [OF wr rest] sz by auto
      then have "(range_request_for ua etag s e, Inr resp) \<in> set (dw_exchanges w')" using log by simp
      moreover have "good_answer s e (length F) resp" using good c(8) as by (simp add: assembled_def)
      ultimately have "take (e - s) (body_of (rr_stream resp)) = pread F s (e - s)"
        using Cons.prems(4) c(4) by (auto simp: serves_def)
      then have "assembled F (mark_ready i (dw_buffer w2))"
        using assembled_claim_fetch [OF as cl t] got by simp
      moreover have "0 < (case el of None \<Rightarrow> p | Some speed \<Rightarrow> next_segment_size speed)"
        using Cons.prems(3) next_segment_size_bounds [of "the el"]
        by (auto simp: min_segment_size_def split: option.split)
      ultimately show ?thesis using Cons.IH [OF rest] Cons.prems(4) by simp
    qed
  qed
qed

text \<open>
  A worker that works alone and succeeds has downloaded the file: with an upstream that
  serves \<open>F\<close>, whatever it sends in failed tries, the buffer is complete at the end and its
  file is \<open>F\<close>, byte for byte.
\<close>

lemma worker_downloads_file:
  assumes "wr_ok wr"
    and "download_worker wr ua etag turns initial_segment_size w = Some (Inr (), w')"
    and "dw_buffer w = new_buffer (length F) f path" and "length f = length F"
    and "serves ua etag F (dw_exchanges w')"
  shows "all_completed (dw_buffer w') \<and> dl_file (dw_buffer w') = F"
proof -
  have "assembled F (dw_buffer w)"
    using assms(3,4) buf_inv_new [of "length F" f path] by (simp add: assembled_def new_buffer_def)
  from worker_assembles [OF assms(1,2) this _ assms(5)]
  have a: "assembled F (dw_buffer w')" "all_assigned (dw_buffer w')" by (simp_all add: initial_segment_size_def)
  then have n: "next_unassigned (dw_buffer w') = length F" by (simp add: assembled_def buf_inv_def)
  then have "dl_file (dw_buffer w') = F" using a(1) by (auto simp: assembled_def)
  moreover have "ready_count (dw_buffer w') = length (segments (dw_buffer w'))"
    using a(1) by (simp add: assembled_def buf_inv_def count_ready_all)
  ultimately show ?thesis using a(2) by (simp add: all_completed_def)
qed

definition demo_file :: bytes where "demo_file = [8, 9, 6, 5]"

lemma demo_claim:
  "claim_range initial_segment_size (new_buffer 4 f p) =
     (Some (0, 0, 4), (new_buffer 4 f p)\<lparr>next_unassigned := 4,
        segments := [\<lparr>sg_start = 0, sg_end = 4, sg_state = Downloading\<rparr>]\<rparr>)"
  by (simp add: claim_range_def new_buffer_def initial_segment_size_def)

lemma demo_worker_segment:
  "\<exists>w'. attempt_loop wr_full None None 0 4 0 None ((demo_dl demo_answers)\<lparr>dw_buffer := b\<lparr>dl_file := [0, 0, 0, 0]\<rparr>\<rparr>)
        = Some (Inr (), w')
     \<and> dw_exchanges w' = map (Pair (range_request_for None None 0 4)) demo_answers
     \<and> dw_polls w' = [] \<and> dw_buffer w' = b\<lparr>dl_file := [8, 9, 6, 5]\<rparr>"
  by (simp add: dl_eval)

lemma demo_worker_run:
  "\<exists>w'. download_worker wr_full None None [None, None] initial_segment_size (demo_dl demo_answers) = Some (Inr (), w')
     \<and> dw_exchanges w' = map (Pair (range_request_for None None 0 4)) demo_answers
     \<and> dl_file (dw_buffer w') = [8, 9, 6, 5] \<and> all_completed (dw_buffer w')"
proof -
  let ?w = "demo_dl demo_answers"
  let ?b = "(new_buffer 4 [0, 0, 0, 0] ''f'')\<lparr>next_unassigned := 4,
     segments := [\<lparr>sg_start = 0, sg_end = 4, sg_state = Downloading\<rparr>]\<rparr>"
  have idb: "?b = ?b\<lparr>dl_file := [0, 0, 0, 0]\<rparr>" by (simp add: new_buffer_def)
  obtain w1 where seg: "attempt_loop wr_full None None 0 4 0 None (?w\<lparr>dw_buffer := ?b\<rparr>) = Some (Inr (), w1)"
    and log: "dw_exchanges w1 = map (Pair (range_request_for None None 0 4)) demo_answers"
    and rest: "dw_polls w1 = []" "dw_buffer w1 = ?b\<lparr>dl_file := [8, 9, 6, 5]\<rparr>"
    using demo_worker_segment [of ?b, folded idb] by blast
  have pol: "dw_polls ?w = []" and bw: "dw_buffer ?w = new_buffer 4 [0, 0, 0, 0] ''f''" by (simp_all add: demo_dl_def)
  have stop: "claim_range initial_segment_size (mark_ready 0 (dw_buffer w1))
      = (None, (mark_ready 0 (dw_buffer w1))\<lparr>all_assigned := True\<rparr>)"
    using rest(2) by (simp add: claim_range_def mark_ready_def new_buffer_def initial_segment_size_def)
  show ?thesis
    using pol bw demo_claim seg stop rest log
    by (simp add: is_cancelled_def mark_ready_def all_completed_def new_buffer_def)
qed

lemma demo_serves: "serves None None [8, 9, 6, 5] (map (Pair (range_request_for None None 0 4)) demo_answers)"
proof -
  let ?F = "[8, 9, 6, 5] :: bytes"
  have "take (e - s) (body_of (rr_stream resp)) = pread ?F s (e - s)"
    if ne: "s < e" and x: "(range_request_for None None s e, Inr resp) \<in> set (map (Pair (range_request_for None None 0 4)) demo_answers)"
      and good: "good_answer s e 4 resp" for s e resp
  proof -
    have "range_request_for None None s e = range_request_for None None 0 4"
      and r: "resp = \<lparr>rr_status = 206, rr_stream = [Chunk [7], Stream_timeout]\<rparr>
         \<or> resp = \<lparr>rr_status = 206, rr_stream = [Chunk [8], Chunk [9, 6, 5]]\<rparr>"
      using x by (simp_all add: demo_answers_def) metis+
    then have "s = 0" "e = 4" using range_request_inj [of None None s e 0 4] ne by simp_all
    then show ?thesis using r good by (elim disjE) (simp_all add: good_answer_def pread_def)
  qed
  then show ?thesis by (simp add: serves_def eval_nat_numeral)
qed

lemma worker_downloads_file_witness:
  "\<exists>w'. download_worker wr_full None None [None, None] initial_segment_size (demo_dl demo_answers) = Some (Inr (), w')
     \<and> all_completed (dw_buffer w') \<and> dl_file (dw_buffer w') = [8, 9, 6, 5]"
proof -
  let ?F = "[8, 9, 6, 5] :: bytes"
  obtain w' where run: "download_worker wr_full None None [None, None] initial_segment_size (demo_dl demo_answers) = Some (Inr (), w')"
    and w': "dw_exchanges w' = map (Pair (range_request_for None None 0 4)) demo_answers"
    using demo_worker_run by blast
  have "serves None None ?F (dw_exchanges w')" using demo_serves w' by simp
  moreover have "dw_buffer (demo_dl demo_answers) = new_buffer (length ?F) [0, 0, 0, 0] ''f''"
    by (simp add: demo_dl_def eval_nat_numeral)
  ultimately have "all_completed (dw_buffer w') \<and> dl_file (dw_buffer w') = ?F"
    by (intro worker_downloads_file [OF wr_full_ok(1) run, where f = "[0, 0, 0, 0]" and path = "''f''"])
      simp_all
  with run show ?thesis by blast
qed

end
