(* ===== verification/Worker_Steps.thy ===== *)
theory Worker_Steps
  imports Range_Download Claim_Interleaving
begin

text \<open>
  \<open>download_worker\<close> of \<open>src/src/downloader.rs\<close> taken apart into the steps between which other tasks
  can run: the polls of the cancellation token, the atomic operations of \<open>claim_range\<close>, the send of
  the request, each item of the response stream, each wait for tokens, each \<open>write_at\<close>, the two
  halves of \<open>mark_ready\<close> and the message to the supervisor. The theory Range\_Download has the worker
  as one function; the lemma \<open>worker_steps_refine\<close> shows that the steps of a worker nobody disturbs
  are that function.
\<close>

text \<open>The segment a worker is at, and the size it asks for next.\<close>

record segment_job =
  job_id :: nat
  job_start :: nat
  job_end :: nat
  job_pref :: nat

text \<open>
  Where a worker is. \<open>Writing\<close> is inside \<open>write_data\<close>: the bytes of this call that are still to be
  written, the rest of the chunk after them, and the position in the file.
\<close>

datatype worker_pc =
    Polling nat
  | Claiming nat claim_pc
  | Attempting segment_job nat "download_error option"
  | Sending segment_job nat "download_error option"
  | Reading segment_job nat "stream_event list" nat
  | Chunking segment_job nat "stream_event list" bytes nat
  | Writing segment_job nat "stream_event list" bytes bytes nat
  | Marking segment_job
  | Counting segment_job
  | Announcing segment_job
  | Ended "download_error + unit"
  | Panicked

text \<open>
  What a step may find: whether the token is cancelled, the answer of the upstream, whether the wait
  for tokens succeeds, what \<open>write_at\<close> returns, and the speed of the segment as \<open>next_segment_size\<close>
  reads it.
\<close>

record worker_obs =
  wo_cancelled :: bool
  wo_answer :: range_answer
  wo_consumed :: bool
  wo_written :: "nat option"
  wo_speed :: "nat option option"

definition on_poll :: "bool \<Rightarrow> nat \<Rightarrow> worker_pc" where
  "on_poll cancelled p = (if cancelled then Ended (Inl Dl_cancelled) else Claiming p (Start p))"

definition on_claim :: "nat \<Rightarrow> claim_pc \<Rightarrow> segments_buffer \<Rightarrow> worker_pc \<times> segments_buffer" where
  "on_claim p c b =
     (case claim_step c b of
        (Returned (Some (i, s, e)), b') \<Rightarrow>
          (Attempting \<lparr>job_id = i, job_start = s, job_end = e, job_pref = p\<rparr> 0 None, b')
      | (Returned None, b') \<Rightarrow> (Ended (Inr ()), b')
      | (c', b') \<Rightarrow> (Claiming p c', b'))"

definition on_attempt :: "bool \<Rightarrow> segment_job \<Rightarrow> nat \<Rightarrow> download_error option \<Rightarrow> worker_pc" where
  "on_attempt cancelled j attempt last_err =
     (if attempt \<le> max_segment_retries then
        (if cancelled then Ended (Inl Dl_cancelled) else Sending j attempt last_err)
      else Ended (Inl (case last_err of Some e \<Rightarrow> e | None \<Rightarrow> Dl_buffer_failed)))"

definition retry_or_end :: "bool \<Rightarrow> segment_job \<Rightarrow> nat \<Rightarrow> download_error \<Rightarrow> worker_pc" where
  "retry_or_end transient j attempt e =
     (if transient \<and> attempt < max_segment_retries then Attempting j (attempt + 1) (Some e)
      else Ended (Inl e))"

definition on_response :: "range_answer \<Rightarrow> segment_job \<Rightarrow> nat \<Rightarrow> segments_buffer \<Rightarrow> worker_pc" where
  "on_response answer j attempt b =
     (case answer of
        Inl e \<Rightarrow> retry_or_end (is_transient_error e) j attempt (Dl_reqwest e)
      | Inr resp \<Rightarrow>
          (case check_status (rr_status resp) (job_start j) (job_end j) (total_size b) of
             Some e \<Rightarrow> Ended (Inl e)
           | None \<Rightarrow> Reading j attempt (rr_stream resp) (job_start j)))"

definition after_body :: "segment_job \<Rightarrow> nat \<Rightarrow> nat \<Rightarrow> worker_pc" where
  "after_body j attempt off =
     (if off - job_start j \<noteq> job_end j - job_start j
      then retry_or_end True j attempt (Dl_io Unexpected_eof)
      else Marking j)"

definition on_item :: "bool \<Rightarrow> segment_job \<Rightarrow> nat \<Rightarrow> stream_event list \<Rightarrow> nat \<Rightarrow> worker_pc" where
  "on_item cancelled j attempt evs off =
     (case evs of
        [] \<Rightarrow> after_body j attempt off
      | Stream_error e # _ \<Rightarrow> retry_or_end (is_transient_error e) j attempt (Dl_reqwest e)
      | Stream_timeout # _ \<Rightarrow> retry_or_end True j attempt (Dl_io Timed_out)
      | Chunk c # evs' \<Rightarrow>
          if cancelled then Ended (Inl Dl_cancelled) else Chunking j attempt evs' c off)"

definition on_chunk ::
    "bool \<Rightarrow> segment_job \<Rightarrow> nat \<Rightarrow> stream_event list \<Rightarrow> bytes \<Rightarrow> nat \<Rightarrow> worker_pc" where
  "on_chunk consumed j attempt evs rest off =
     (if rest = [] \<or> job_end j - off = 0 then
        (if off \<ge> job_end j then after_body j attempt off else Reading j attempt evs off)
      else if \<not> consumed then Ended (Inl Dl_cancelled)
      else
        let to_write = min (length rest) (job_end j - off)
        in Writing j attempt evs (take to_write rest) (drop to_write rest) off)"

definition on_write ::
    "nat option \<Rightarrow> segment_job \<Rightarrow> nat \<Rightarrow> stream_event list \<Rightarrow> bytes \<Rightarrow> bytes \<Rightarrow> nat \<Rightarrow> segments_buffer
       \<Rightarrow> worker_pc \<times> segments_buffer" where
  "on_write written j attempt evs data rest off b =
     (if data = [] then (Chunking j attempt evs rest off, b)
      else
        case written of
          None \<Rightarrow> (Ended (Inl (Dl_io Os_error)), b)
        | Some n \<Rightarrow>
            if n = 0 then (Ended (Inl (Dl_io Write_zero)), b)
            else (Writing j attempt evs (drop n data) rest (off + n),
                  b\<lparr>dl_file := pwrite (dl_file b) off (take n data)\<rparr>))"

text \<open>\<open>mark_ready\<close>: the state under the lock, then the counter and the notification.\<close>

definition mark_state :: "nat \<Rightarrow> segments_buffer \<Rightarrow> segments_buffer" where
  "mark_state i b = b\<lparr>segments := (segments b)[i := (segments b ! i)\<lparr>sg_state := Ready\<rparr>]\<rparr>"

definition mark_count :: "nat \<Rightarrow> segments_buffer \<Rightarrow> segments_buffer" where
  "mark_count i b = b\<lparr>ready_count := ready_count b + 1, notify := notify b @ [i]\<rparr>"

lemma mark_halves: "i < length (segments b) \<Longrightarrow> mark_ready i b = mark_count i (mark_state i b)"
  by (simp add: mark_ready_def mark_count_def mark_state_def)

definition on_mark :: "segment_job \<Rightarrow> segments_buffer \<Rightarrow> worker_pc \<times> segments_buffer" where
  "on_mark j b =
     (if job_id j < length (segments b) then (Counting j, mark_state (job_id j) b)
      else (Announcing j, b))"

definition on_announce :: "nat option option \<Rightarrow> segment_job \<Rightarrow> worker_pc" where
  "on_announce speed j =
     Polling (case speed of None \<Rightarrow> job_pref j | Some sp \<Rightarrow> next_segment_size sp)"

fun worker_step :: "worker_obs \<Rightarrow> worker_pc \<Rightarrow> segments_buffer \<Rightarrow> worker_pc \<times> segments_buffer" where
  "worker_step ob (Polling p) b = (on_poll (wo_cancelled ob) p, b)"
| "worker_step ob (Claiming p c) b = on_claim p c b"
| "worker_step ob (Attempting j attempt l) b = (on_attempt (wo_cancelled ob) j attempt l, b)"
| "worker_step ob (Sending j attempt l) b = (on_response (wo_answer ob) j attempt b, b)"
| "worker_step ob (Reading j attempt evs off) b = (on_item (wo_cancelled ob) j attempt evs off, b)"
| "worker_step ob (Chunking j attempt evs rest off) b = (on_chunk (wo_consumed ob) j attempt evs rest off, b)"
| "worker_step ob (Writing j attempt evs data rest off) b = on_write (wo_written ob) j attempt evs data rest off b"
| "worker_step ob (Marking j) b = on_mark j b"
| "worker_step ob (Counting j) b = (Announcing j, mark_count (job_id j) b)"
| "worker_step ob (Announcing j) b = (on_announce (wo_speed ob) j, b)"
| "worker_step ob (Ended r) b = (Ended r, b)"
| "worker_step ob Panicked b = (Panicked, b)"

subsection \<open>A worker that nobody disturbs\<close>

text \<open>
  What is said of the observations: the answers are among those the upstream may give to the request,
  and \<open>write_at\<close> reports at most the bytes it was given.
\<close>

definition obs_ok ::
    "string option \<Rightarrow> string option \<Rightarrow> (range_request \<Rightarrow> range_answer \<Rightarrow> bool) \<Rightarrow> worker_pc \<Rightarrow> worker_obs \<Rightarrow> bool" where
  "obs_ok ua etag up pc ob \<longleftrightarrow>
     (case pc of
        Sending j attempt l \<Rightarrow> up (range_request_for ua etag (job_start j) (job_end j)) (wo_answer ob)
      | Writing j attempt evs data rest off \<Rightarrow> (\<forall>n. wo_written ob = Some n \<longrightarrow> n \<le> length data)
      | _ \<Rightarrow> True)"

definition solo ::
    "string option \<Rightarrow> string option \<Rightarrow> (range_request \<Rightarrow> range_answer \<Rightarrow> bool)
       \<Rightarrow> worker_pc \<times> segments_buffer \<Rightarrow> worker_pc \<times> segments_buffer \<Rightarrow> bool" where
  "solo ua etag up s s' \<longleftrightarrow> (\<exists>ob. obs_ok ua etag up (fst s) ob \<and> worker_step ob (fst s) (snd s) = s')"

abbreviation goes ::
    "string option \<Rightarrow> string option \<Rightarrow> (range_request \<Rightarrow> range_answer \<Rightarrow> bool)
       \<Rightarrow> worker_pc \<times> segments_buffer \<Rightarrow> worker_pc \<times> segments_buffer \<Rightarrow> bool" where
  "goes ua etag up \<equiv> (solo ua etag up)\<^sup>*\<^sup>*"

definition demo_obs :: worker_obs where
  "demo_obs = \<lparr>wo_cancelled = False, wo_answer = Inr \<lparr>rr_status = 206, rr_stream = []\<rparr>, wo_consumed = True,
     wo_written = None, wo_speed = None\<rparr>"

lemma solo_obs: "obs_ok ua etag up pc ob \<Longrightarrow> worker_step ob pc b = s' \<Longrightarrow> goes ua etag up (pc, b) s'"
  by (intro r_into_rtranclp) (auto simp: solo_def)

lemma goes_poll: "on_poll c p = pc' \<Longrightarrow> goes ua etag up (Polling p, b) (pc', b)"
  by (rule solo_obs [of _ _ _ _ "demo_obs\<lparr>wo_cancelled := c\<rparr>"]) (simp_all add: obs_ok_def)

lemma goes_attempt: "on_attempt c j n l = pc' \<Longrightarrow> goes ua etag up (Attempting j n l, b) (pc', b)"
  by (rule solo_obs [of _ _ _ _ "demo_obs\<lparr>wo_cancelled := c\<rparr>"]) (simp_all add: obs_ok_def)

lemma goes_send:
  "up (range_request_for ua etag (job_start j) (job_end j)) a \<Longrightarrow> on_response a j n b = pc' \<Longrightarrow>
     goes ua etag up (Sending j n l, b) (pc', b)"
  by (rule solo_obs [of _ _ _ _ "demo_obs\<lparr>wo_answer := a\<rparr>"]) (simp_all add: obs_ok_def)

lemma goes_item: "on_item c j n evs off = pc' \<Longrightarrow> goes ua etag up (Reading j n evs off, b) (pc', b)"
  by (rule solo_obs [of _ _ _ _ "demo_obs\<lparr>wo_cancelled := c\<rparr>"]) (simp_all add: obs_ok_def)

lemma goes_chunk:
  "on_chunk c j n evs rest off = pc' \<Longrightarrow> goes ua etag up (Chunking j n evs rest off, b) (pc', b)"
  by (rule solo_obs [of _ _ _ _ "demo_obs\<lparr>wo_consumed := c\<rparr>"]) (simp_all add: obs_ok_def)

lemma goes_write:
  "\<forall>k. x = Some k \<longrightarrow> k \<le> length data \<Longrightarrow> on_write x j n evs data rest off b = s' \<Longrightarrow>
     goes ua etag up (Writing j n evs data rest off, b) s'"
  by (rule solo_obs [of _ _ _ _ "demo_obs\<lparr>wo_written := x\<rparr>"]) (simp_all add: obs_ok_def)

lemma goes_announce: "on_announce x j = pc' \<Longrightarrow> goes ua etag up (Announcing j, b) (pc', b)"
  by (rule solo_obs [of _ _ _ _ "demo_obs\<lparr>wo_speed := x\<rparr>"]) (simp_all add: obs_ok_def)

lemma goes_mark:
  assumes "job_id j < length (segments b)"
  shows "goes ua etag up (Marking j, b) (Announcing j, mark_ready (job_id j) b)"
proof -
  have "goes ua etag up (Marking j, b) (Counting j, mark_state (job_id j) b)"
    by (rule solo_obs [of _ _ _ _ demo_obs]) (simp_all add: obs_ok_def on_mark_def assms)
  also have "goes ua etag up (Counting j, mark_state (job_id j) b) (Announcing j, mark_ready (job_id j) b)"
    by (rule solo_obs [of _ _ _ _ demo_obs]) (simp_all add: obs_ok_def mark_halves assms)
  finally show ?thesis .
qed

lemma goes_claim:
  assumes "0 < p"
  shows "goes ua etag up (Claiming p (Start p), b)
    (case claim_range p b of
       (Some (i, s, e), b') \<Rightarrow> (Attempting \<lparr>job_id = i, job_start = s, job_end = e, job_pref = p\<rparr> 0 None, b')
     | (None, b') \<Rightarrow> (Ended (Inr ()), b'))"
proof -
  have one: "goes ua etag up (Claiming p c, b0) (on_claim p c b0)" for c b0
    by (rule solo_obs [of _ _ _ _ demo_obs]) (simp_all add: obs_ok_def)
  show ?thesis
  proof (cases "total_size b \<le> next_unassigned b")
    case True
    then show ?thesis using one [of "Start p" b] assms
      by (simp add: claim_range_def on_claim_def claim_load_def Let_def)
  next
    case False
    let ?c = "next_unassigned b" and ?e = "next_unassigned b + min p (total_size b - next_unassigned b)"
    let ?b = "b\<lparr>next_unassigned := ?e\<rparr>"
    have 1: "goes ua etag up (Claiming p (Start p), b) (Claiming p (Loaded p ?c), b)"
      using one [of "Start p" b] assms False by (simp add: on_claim_def claim_load_def Let_def)
    have 2: "goes ua etag up (Claiming p (Loaded p ?c), b) (Claiming p (Won ?c ?e), ?b)"
      using one [of "Loaded p ?c" b] by (simp add: on_claim_def claim_cas_def Let_def)
    have "goes ua etag up (Claiming p (Start p), b) (on_claim p (Won ?c ?e) ?b)"
      by (rule rtranclp_trans [OF rtranclp_trans [OF 1 2] one])
    then show ?thesis using assms False
      by (simp add: on_claim_def claim_push_def claim_range_def Let_def)
  qed
qed

text \<open>The layers of the worker, from the inside out.\<close>

lemma goes_write_loop:
  "wr_ok wr \<Longrightarrow> write_loop wr off d k f = (r, f') \<Longrightarrow> k \<le> length d \<Longrightarrow>
     goes ua etag up (Writing j n evs (drop k d) rest (off + k), b\<lparr>dl_file := f\<rparr>)
       (case r of Inl e \<Rightarrow> Ended (Inl (Dl_io e)) | Inr _ \<Rightarrow> Writing j n evs [] rest (off + length d), b\<lparr>dl_file := f'\<rparr>)"
proof (induction wr off d k f rule: write_loop.induct)
  case (1 wr off d k f)
  note run = "1.prems"(2) [unfolded write_loop.simps [of wr off d k f]]
  show ?case
  proof (cases "k < length d")
    case False
    then show ?thesis using run "1.prems"(3) by auto
  next
    case True
    let ?x = "wr (off + k) (length d - k)"
    show ?thesis
    proof (cases "\<exists>m. ?x = Some m \<and> m \<noteq> 0")
      case False
      then show ?thesis using run True
          goes_write [of ?x "drop k d" j n evs rest "off + k" "b\<lparr>dl_file := f\<rparr>"]
        by (auto simp: on_write_def split: option.splits if_splits)
    next
      case 2: True
      then obtain m where m: "?x = Some m" "m \<noteq> 0" by blast
      have le: "m \<le> length d - k" using "1.prems"(1) m(1) by (auto simp: wr_ok_def)
      let ?g = "pwrite f (off + k) (take m (drop k d))"
      have one: "goes ua etag up (Writing j n evs (drop k d) rest (off + k), b\<lparr>dl_file := f\<rparr>)
          (Writing j n evs (drop (k + m) d) rest (off + (k + m)), b\<lparr>dl_file := ?g\<rparr>)"
        using goes_write [of ?x "drop k d" j n evs rest "off + k" "b\<lparr>dl_file := f\<rparr>"] m le True
        by (simp add: on_write_def add.commute add.left_commute)
      have "write_loop wr off d (k + m) ?g = (r, f')" using run m True by simp
      from rtranclp_trans [OF one "1.IH" [OF True m "1.prems"(1) this]] show ?thesis using le True by simp
    qed
  qed
qed

definition after_write :: "segment_job \<Rightarrow> nat \<Rightarrow> stream_event list \<Rightarrow> download_error + nat \<Rightarrow> worker_pc \<Rightarrow> bool" where
  "after_write j n evs r pc \<longleftrightarrow>
     (case r of
        Inl x \<Rightarrow> pc = Ended (Inl x)
      | Inr off \<Rightarrow> \<exists>rest. pc = Chunking j n evs rest off \<and> (rest = [] \<or> job_end j \<le> off))"

lemma goes_write_chunk:
  assumes wr: "wr_ok wr" and run: "write_chunk wr (job_end j) rest off w = Some (r, w')"
  shows "\<exists>pc. after_write j n evs r pc \<and> goes ua etag up (Chunking j n evs rest off, dw_buffer w) (pc, dw_buffer w')"
proof (cases "rest = [] \<or> job_end j \<le> off")
  case True
  then have "r = Inr off" "w' = w" using run write_chunk_stop [OF True, of wr w] by simp_all
  then show ?thesis using True
    by (intro exI [of _ "Chunking j n evs rest off"]) (auto simp: after_write_def)
next
  case False
  define k where "k = min (length rest) (job_end j - off)"
  note once = write_chunk_once [OF _ _ k_def, of wr w]
  obtain ok w1 where c: "consume_upstream k w = Some (ok, w1)"
    using run once False by (auto split: option.splits)
  note fr = consume_frame [OF c]
  show ?thesis
  proof (cases ok)
    case no: False
    have "goes ua etag up (Chunking j n evs rest off, dw_buffer w) (Ended (Inl Dl_cancelled), dw_buffer w)"
      by (rule goes_chunk [of False]) (use False in \<open>simp add: on_chunk_def\<close>)
    then show ?thesis using run once False c no fr by (auto simp: after_write_def)
  next
    case True
    let ?b = "dw_buffer w"
    have start: "goes ua etag up (Chunking j n evs rest off, ?b) (Writing j n evs (take k rest) (drop k rest) off, ?b)"
      by (rule goes_chunk [of True]) (use False in \<open>simp add: on_chunk_def k_def Let_def\<close>)
    obtain q f where loop: "write_loop wr off (take k rest) 0 (dl_file ?b) = (q, f)" by fastforce
    have wd: "write_data wr off (take k rest) (dw_buffer w1) = (q, ?b\<lparr>dl_file := f\<rparr>)"
      using loop fr by (simp add: write_data_def)
    have go: "goes ua etag up (Chunking j n evs rest off, ?b)
        (case q of Inl e \<Rightarrow> Ended (Inl (Dl_io e)) | Inr _ \<Rightarrow> Writing j n evs [] (drop k rest) (off + length (take k rest)),
         ?b\<lparr>dl_file := f\<rparr>)"
      using rtranclp_trans [OF start] goes_write_loop [OF wr loop, of ua etag up j n evs "drop k rest" ?b] by simp
    show ?thesis
    proof (cases q)
      case (Inl x)
      then show ?thesis using go run once False c True wd by (auto simp: after_write_def)
    next
      case (Inr u)
      have k: "length (take k rest) = k" "drop k rest = [] \<or> job_end j \<le> off + k" by (auto simp: k_def)
      have "goes ua etag up (Writing j n evs [] (drop k rest) (off + k), ?b\<lparr>dl_file := f\<rparr>)
          (Chunking j n evs (drop k rest) (off + k), ?b\<lparr>dl_file := f\<rparr>)"
        by (rule goes_write [of None]) (simp_all add: on_write_def)
      then have "goes ua etag up (Chunking j n evs rest off, ?b) (Chunking j n evs (drop k rest) (off + k), ?b\<lparr>dl_file := f\<rparr>)"
        using rtranclp_trans [OF go] Inr k(1) by simp
      then show ?thesis using run once False c True wd Inr k(2) by (auto simp: after_write_def)
    qed
  qed
qed

definition after_read :: "segment_job \<Rightarrow> nat \<Rightarrow> download_error + body_end \<Rightarrow> worker_pc" where
  "after_read j n r =
     (case r of
        Inl x \<Rightarrow> Ended (Inl x)
      | Inr (Body_retry x) \<Rightarrow> Attempting j (n + 1) (Some x)
      | Inr (Body_at off) \<Rightarrow> after_body j n off)"

lemma goes_read_body:
  assumes wr: "wr_ok wr"
  shows "read_body wr n (job_end j) evs off w = Some (r, w') \<Longrightarrow>
     goes ua etag up (Reading j n evs off, dw_buffer w) (after_read j n r, dw_buffer w')"
proof (induction evs arbitrary: off w)
  case Nil
  then show ?case by (auto intro!: goes_item [of False] simp: on_item_def after_read_def)
next
  case (Cons ev evs)
  show ?case
  proof (cases ev)
    case (Stream_error x)
    then show ?thesis using Cons.prems
      by (auto intro!: goes_item [of False] simp: on_item_def after_read_def retry_or_end_def split: if_splits)
  next
    case Stream_timeout
    then show ?thesis using Cons.prems
      by (auto intro!: goes_item [of False] simp: on_item_def after_read_def retry_or_end_def split: if_splits)
  next
    case (Chunk c)
    obtain x w1 where c: "is_cancelled w = (x, w1)" by fastforce
    note fr = is_cancelled_frame [OF c]
    show ?thesis
    proof (cases x)
      case True
      then show ?thesis using Cons.prems Chunk c fr
        by (auto intro!: goes_item [of True] simp: on_item_def after_read_def)
    next
      case False
      have start: "goes ua etag up (Reading j n (ev # evs) off, dw_buffer w) (Chunking j n evs c off, dw_buffer w1)"
        using fr Chunk by (auto intro!: goes_item [of False] simp: on_item_def)
      obtain q w2 where wd: "write_chunk wr (job_end j) c off w1 = Some (q, w2)"
        using Cons.prems Chunk c False by (auto split: option.splits)
      obtain pc where pc: "after_write j n evs q pc"
        "goes ua etag up (Reading j n (ev # evs) off, dw_buffer w) (pc, dw_buffer w2)"
        using goes_write_chunk [OF wr wd] rtranclp_trans [OF start] by blast
      show ?thesis
      proof (cases q)
        case (Inl e)
        then show ?thesis using pc Cons.prems Chunk c False wd by (auto simp: after_write_def after_read_def)
      next
        case (Inr off2)
        then obtain rest where rest: "pc = Chunking j n evs rest off2" "rest = [] \<or> job_end j \<le> off2"
          using pc(1) by (auto simp: after_write_def)
        have moved: "goes ua etag up (pc, dw_buffer w2)
            (if off2 \<ge> job_end j then after_body j n off2 else Reading j n evs off2, dw_buffer w2)"
          unfolding rest(1) by (rule goes_chunk [of True]) (use rest(2) in \<open>auto simp: on_chunk_def\<close>)
        show ?thesis
        proof (cases "off2 \<ge> job_end j")
          case True
          then show ?thesis using rtranclp_trans [OF pc(2) moved] Cons.prems Chunk c False wd Inr
            by (auto simp: after_read_def)
        next
          case go: False
          then have "read_body wr n (job_end j) evs off2 w2 = Some (r, w')"
            using Cons.prems Chunk c False wd Inr by simp
          from rtranclp_trans [OF rtranclp_trans [OF pc(2) moved]] Cons.IH [OF this] go
          show ?thesis by simp
        qed
      qed
    qed
  qed
qed

text \<open>Every answer a call has used is in the log at its end.\<close>

lemma logged_write_chunk: "write_chunk wr e rest off w = Some (r, w') \<Longrightarrow> dw_exchanges w' = dw_exchanges w"
  using write_chunk_once [OF _ _ refl, of rest off e wr w] write_chunk_stop [of rest e off wr w]
  by (cases "rest = [] \<or> e \<le> off") (auto split: option.splits bool.splits sum.splits prod.splits dest: consume_frame)

lemma logged_read_body: "read_body wr n e evs off w = Some (r, w') \<Longrightarrow> dw_exchanges w' = dw_exchanges w"
proof (induction evs arbitrary: off w)
  case Nil
  then show ?case by simp
next
  case (Cons ev evs)
  then show ?case
    by (cases ev) (auto split: if_splits option.splits prod.splits bool.splits sum.splits
        dest!: is_cancelled_frame logged_write_chunk)
qed

lemma logged_try_segment:
  assumes "try_segment wr ua etag s e n w = Some (r, w')"
  obtains a w1 where "send_request (range_request_for ua etag s e) w = Some (a, w1)"
    "dw_exchanges w' = dw_exchanges w @ [(range_request_for ua etag s e, a)]"
proof -
  obtain a w1 where sent: "send_request (range_request_for ua etag s e) w = Some (a, w1)"
    using assms by (auto simp: try_segment_def split: option.splits)
  moreover have "dw_exchanges w' = dw_exchanges w @ [(range_request_for ua etag s e, a)]"
    using assms sent send_frame [OF sent]
    by (auto simp: try_segment_def split: sum.splits option.splits prod.splits body_end.splits if_splits
        dest!: logged_read_body)
  ultimately show ?thesis by (rule that)
qed

lemma logged_attempt_loop:
  "attempt_loop wr ua etag s e n l w = Some (r, w') \<Longrightarrow> set (dw_exchanges w) \<subseteq> set (dw_exchanges w')"
proof (induction wr ua etag s e n l w rule: attempt_loop.induct)
  case (1 wr ua etag s e n l w)
  note run = "1.prems" [unfolded attempt_loop.simps [of wr ua etag s e n l w]]
  obtain c w1 where c: "is_cancelled w = (c, w1)" by fastforce
  note fr = is_cancelled_frame [OF c]
  show ?case
  proof (cases "n \<le> max_segment_retries \<and> \<not> c")
    case False
    then show ?thesis using run c fr by (auto split: if_splits)
  next
    case True
    then obtain x w2 where t: "try_segment wr ua etag s e n w1 = Some (x, w2)"
      using run c by (auto split: option.splits)
    have sub: "set (dw_exchanges w) \<subseteq> set (dw_exchanges w2)"
      using logged_try_segment [OF t] fr by (metis UnCI set_append subsetI)
    show ?thesis
    proof (cases "\<exists>err. x = Inr (Segment_retry err)")
      case False
      then show ?thesis using run True c t sub
        by (cases x rule: sum.exhaust; cases "projr x") auto
    next
      case again: True
      then obtain err where err: "x = Inr (Segment_retry err)" by blast
      then have "attempt_loop wr ua etag s e (n + 1) (Some err) w2 = Some (r, w')" using run True c t by simp
      from "1.IH" [OF _ c [symmetric] _ t _ _ _ this] True err sub show ?thesis by auto
    qed
  qed
qed

lemma goes_try_segment:
  assumes wr: "wr_ok wr" and run: "try_segment wr ua etag (job_start j) (job_end j) n w = Some (r, w')"
    and up: "\<forall>x \<in> set (dw_exchanges w'). up (fst x) (snd x)"
  shows "goes ua etag up (Sending j n l, dw_buffer w)
    (case r of Inl x \<Rightarrow> Ended (Inl x) | Inr (Segment_retry x) \<Rightarrow> Attempting j (n + 1) (Some x) | Inr Segment_done \<Rightarrow> Marking j,
     dw_buffer w')"
proof -
  obtain a w1 where sent: "send_request (range_request_for ua etag (job_start j) (job_end j)) w = Some (a, w1)"
    and logged: "dw_exchanges w' = dw_exchanges w @ [(range_request_for ua etag (job_start j) (job_end j), a)]"
    by (rule logged_try_segment [OF run])
  note fr = send_frame [OF sent]
  have step: "goes ua etag up (Sending j n l, dw_buffer w) (on_response a j n (dw_buffer w), dw_buffer w)"
    by (rule goes_send [of _ _ _ _ a]) (use up logged in auto)
  show ?thesis
  proof (cases a)
    case (Inl e)
    then show ?thesis using step run sent fr
      by (auto simp: try_segment_def on_response_def retry_or_end_def split: if_splits)
  next
    case (Inr resp)
    show ?thesis
    proof (cases "check_status (rr_status resp) (job_start j) (job_end j) (total_size (dw_buffer w))")
      case (Some e)
      then show ?thesis using step run sent fr Inr by (auto simp: try_segment_def on_response_def)
    next
      case None
      then obtain q w2 where body: "read_body wr n (job_end j) (rr_stream resp) (job_start j) w1 = Some (q, w2)"
        using run sent fr Inr by (auto simp: try_segment_def split: option.splits)
      have "goes ua etag up (Sending j n l, dw_buffer w) (after_read j n q, dw_buffer w2)"
        using rtranclp_trans [OF step] goes_read_body [OF wr body] None Inr fr by (simp add: on_response_def)
      then show ?thesis using run sent fr Inr None body
        by (auto simp: try_segment_def after_read_def after_body_def retry_or_end_def
            split: sum.splits body_end.splits if_splits)
    qed
  qed
qed

lemma goes_attempt_loop:
  assumes wr: "wr_ok wr"
  shows "attempt_loop wr ua etag s e n l w = Some (r, w') \<Longrightarrow> s = job_start j \<Longrightarrow> e = job_end j \<Longrightarrow>
     \<forall>x \<in> set (dw_exchanges w'). up (fst x) (snd x) \<Longrightarrow>
     goes ua etag up (Attempting j n l, dw_buffer w)
       (case r of Inl x \<Rightarrow> Ended (Inl x) | Inr _ \<Rightarrow> Marking j, dw_buffer w')"
  using wr
proof (induction wr ua etag s e n l w rule: attempt_loop.induct)
  case (1 wr ua etag s e n l w)
  note run = "1.prems"(1) [unfolded attempt_loop.simps [of wr ua etag s e n l w]]
  obtain c w1 where c: "is_cancelled w = (c, w1)" by fastforce
  note fr = is_cancelled_frame [OF c]
  have step: "goes ua etag up (Attempting j n l, dw_buffer w) (on_attempt c j n l, dw_buffer w)"
    by (rule goes_attempt [OF refl])
  show ?case
  proof (cases "n \<le> max_segment_retries \<and> \<not> c")
    case False
    then show ?thesis using run c fr step by (auto simp: on_attempt_def split: if_splits)
  next
    case True
    then obtain x w2 where t: "try_segment wr ua etag s e n w1 = Some (x, w2)"
      using run c by (auto split: option.splits)
    have "set (dw_exchanges w2) \<subseteq> set (dw_exchanges w')"
      using run True c t logged_attempt_loop [of wr ua etag s e "n + 1" _ w2 r w']
      by (auto split: sum.splits attempt_end.splits)
    then have up: "\<forall>x \<in> set (dw_exchanges w2). up (fst x) (snd x)" using "1.prems"(4) by blast
    note try_steps = goes_try_segment [OF "1.prems"(5) t [unfolded "1.prems"(2,3)] up, of l]
    have go: "goes ua etag up (Attempting j n l, dw_buffer w)
        (case x of Inl y \<Rightarrow> Ended (Inl y) | Inr (Segment_retry y) \<Rightarrow> Attempting j (n + 1) (Some y) | Inr Segment_done \<Rightarrow> Marking j,
         dw_buffer w2)"
      using rtranclp_trans [OF step] try_steps fr True by (simp add: on_attempt_def)
    show ?thesis
    proof (cases "\<exists>err. x = Inr (Segment_retry err)")
      case False
      then show ?thesis using run True c t go
        by (cases x rule: sum.exhaust; cases "projr x") auto
    next
      case again: True
      then obtain err where err: "x = Inr (Segment_retry err)" by blast
      then have rest: "attempt_loop wr ua etag s e (n + 1) (Some err) w2 = Some (r, w')" using run True c t by simp
      from rtranclp_trans [OF go] "1.IH" [OF _ c [symmetric] _ t _ _ _ rest "1.prems"(2-5)] True err
      show ?thesis by simp
    qed
  qed
qed

lemma logged_worker:
  "download_worker wr ua etag turns p w = Some (r, w') \<Longrightarrow> set (dw_exchanges w) \<subseteq> set (dw_exchanges w')"
proof (induction turns arbitrary: p w)
  case Nil
  then show ?case by simp
next
  case (Cons el turns)
  obtain c w1 where c: "is_cancelled w = (c, w1)" by fastforce
  note fr = is_cancelled_frame [OF c]
  show ?case
  proof (cases "c \<or> fst (claim_range p (dw_buffer w1)) = None")
    case True
    then show ?thesis using Cons.prems c fr by (cases c) (auto split: prod.splits)
  next
    case False
    then obtain i s e b where cl: "claim_range p (dw_buffer w1) = (Some (i, s, e), b)"
      by (cases "claim_range p (dw_buffer w1)") auto
    obtain x w2 where at: "attempt_loop wr ua etag s e 0 None (w1\<lparr>dw_buffer := b\<rparr>) = Some (x, w2)"
      using Cons.prems c False cl by (auto split: option.splits)
    have "set (dw_exchanges w) \<subseteq> set (dw_exchanges w2)" using logged_attempt_loop [OF at] fr by simp
    moreover have "set (dw_exchanges w2) \<subseteq> set (dw_exchanges w')"
      using Cons.prems c False cl at
        Cons.IH [of _ "w2\<lparr>dw_buffer := mark_ready i (dw_buffer w2), dw_ready := dw_ready w2 + 1\<rparr>"]
      by (cases x) auto
    ultimately show ?thesis by blast
  qed
qed

text \<open>A segment that is fetched: from its claim to the next turn of the loop.\<close>

lemma next_size_pos: "0 < next_segment_size speed"
  by (simp add: next_segment_size_def min_segment_size_def initial_segment_size_def less_max_iff_disj
      split: option.split)

lemma goes_segment:
  assumes wr: "wr_ok wr" and cl: "claim_range p b0 = (Some (i, s, e), b)"
    and at: "attempt_loop wr ua etag s e 0 None (w1\<lparr>dw_buffer := b\<rparr>) = Some (Inr u, w2)"
    and size: "total_size b0 \<le> length (dl_file b0)"
    and up: "\<forall>x \<in> set (dw_exchanges w2). up (fst x) (snd x)"
    and q: "q = (case el of None \<Rightarrow> p | Some speed \<Rightarrow> next_segment_size speed)"
    and b2: "b2 = mark_ready i (dw_buffer w2)"
  shows "goes ua etag up (Attempting \<lparr>job_id = i, job_start = s, job_end = e, job_pref = p\<rparr> 0 None, b) (Polling q, b2)"
    and "total_size b2 \<le> length (dl_file b2)"
proof -
  define j where "j = \<lparr>job_id = i, job_start = s, job_end = e, job_pref = p\<rparr>"
  have j: "s = job_start j" "e = job_end j" "job_id j = i" "job_pref j = p" by (simp_all add: j_def)
  have "retries_frame ua etag s e 0 (w1\<lparr>dw_buffer := b\<rparr>) w2"
    by (rule attempt_loop_frame [OF wr at]) (use claim_range_Some(6,8,10) [OF cl] size in auto)
  then have t: "touched s e (w1\<lparr>dw_buffer := b\<rparr>) w2" by (simp add: retries_frame_def)
  show "total_size b2 \<le> length (dl_file b2)"
    using touched_fits [OF t] touched_total [OF t] claim_range_Some(8,10) [OF cl] size b2 by simp
  have "(dw_buffer w2)\<lparr>dl_file := []\<rparr> = b\<lparr>dl_file := []\<rparr>" using t by (simp add: touched_def)
  from arg_cong [OF this, of segments] have "segments (dw_buffer w2) = segments b" by simp
  then have i: "job_id j < length (segments (dw_buffer w2))" using claim_range_Some(2,9) [OF cl] j(3) by simp
  have "goes ua etag up (Attempting j 0 None, b) (Marking j, dw_buffer w2)"
    using goes_attempt_loop [OF wr at j(1,2) up] by simp
  from rtranclp_trans [OF this goes_mark [OF i]]
  have marked: "goes ua etag up (Attempting j 0 None, b) (Announcing j, b2)" by (simp add: b2 j(3))
  have "goes ua etag up (Announcing j, b2) (Polling q, b2)"
    by (rule goes_announce [of el]) (simp add: on_announce_def q j(4) split: option.split)
  from rtranclp_trans [OF marked this]
  show "goes ua etag up (Attempting \<lparr>job_id = i, job_start = s, job_end = e, job_pref = p\<rparr> 0 None, b) (Polling q, b2)"
    by (simp add: j_def)
qed

lemma worker_goes:
  assumes wr: "wr_ok wr"
  shows "download_worker wr ua etag turns p w = Some (r, w') \<Longrightarrow> 0 < p \<Longrightarrow>
     total_size (dw_buffer w) \<le> length (dl_file (dw_buffer w)) \<Longrightarrow>
     \<forall>x \<in> set (dw_exchanges w'). up (fst x) (snd x) \<Longrightarrow>
     goes ua etag up (Polling p, dw_buffer w) (Ended r, dw_buffer w')"
proof (induction turns arbitrary: p w)
  case Nil
  then show ?case by simp
next
  case (Cons el turns)
  obtain c w1 where c: "is_cancelled w = (c, w1)" by fastforce
  note fr = is_cancelled_frame [OF c]
  have poll: "goes ua etag up (Polling p, dw_buffer w) (on_poll c p, dw_buffer w)" by (rule goes_poll [OF refl])
  show ?case
  proof (cases c)
    case True
    then show ?thesis using poll Cons.prems(1) c fr by (auto simp: on_poll_def)
  next
    case False
    note claim = rtranclp_trans [OF poll [unfolded on_poll_def], simplified False if_False, OF goes_claim [OF Cons.prems(2)]]
    show ?thesis
    proof (cases "fst (claim_range p (dw_buffer w))")
      case None
      then show ?thesis using claim Cons.prems(1) c fr False
        by (cases "claim_range p (dw_buffer w)") auto
    next
      case (Some ise)
      then obtain i s e b where cl: "claim_range p (dw_buffer w) = (Some (i, s, e), b)"
        by (cases "claim_range p (dw_buffer w)"; cases ise) auto
      let ?j = "\<lparr>job_id = i, job_start = s, job_end = e, job_pref = p\<rparr>"
      obtain x w2 where at: "attempt_loop wr ua etag s e 0 None (w1\<lparr>dw_buffer := b\<rparr>) = Some (x, w2)"
        using Cons.prems(1) c False cl fr by (auto split: option.splits)
      have start: "goes ua etag up (Polling p, dw_buffer w) (Attempting ?j 0 None, b)" using claim cl by simp
      show ?thesis
      proof (cases x)
        case (Inl err)
        then have "w' = w2" "r = Inl err" using Cons.prems(1) c False cl fr at by auto
        then show ?thesis
          using rtranclp_trans [OF start] goes_attempt_loop [OF wr at, of ?j] Cons.prems(4) Inl by simp
      next
        case (Inr u)
        define q where "q = (case el of None \<Rightarrow> p | Some speed \<Rightarrow> next_segment_size speed)"
        define w3 where "w3 = w2\<lparr>dw_buffer := mark_ready i (dw_buffer w2), dw_ready := dw_ready w2 + 1\<rparr>"
        have rest: "download_worker wr ua etag turns q w3 = Some (r, w')"
          using Cons.prems(1) c False cl fr at Inr by (simp add: q_def w3_def)
        have "\<forall>x \<in> set (dw_exchanges w2). up (fst x) (snd x)"
          using logged_worker [OF rest] Cons.prems(4) by (auto simp: w3_def)
        note seg = goes_segment [OF wr cl at [unfolded Inr] Cons.prems(3) this q_def, of "dw_buffer w3"]
        have "0 < q" using Cons.prems(2) next_size_pos by (simp add: q_def split: option.split)
        then have "goes ua etag up (Polling q, dw_buffer w3) (Ended r, dw_buffer w')"
          using Cons.IH [OF rest] seg(2) Cons.prems(4) by (simp add: w3_def)
        then show ?thesis using rtranclp_trans [OF start rtranclp_trans [OF seg(1)]] by (simp add: w3_def)
      qed
    qed
  qed
qed



end
