(* ===== verification/Download_Supervisor.thy ===== *)
theory Download_Supervisor
  imports Range_Download Buffer_Protocol
begin

text \<open>
  \<open>download_multithreaded\<close> of \<open>src/src/downloader.rs\<close> as a state machine: the supervisor that
  spawns the workers, reads the channel of finished segments and joins the tasks. The handlers
  are the branches of its \<open>select!\<close> and of the loop after it; the steps interleave them with what
  the tasks do meanwhile: change the buffer, announce a segment, end with a result, or panic. A
  task counts itself out of \<open>active\<close> before it ends, but not when it panics.
\<close>

datatype task_end = Task_returned "download_error + unit" | Task_panicked

datatype supervisor_phase = Selecting | Draining | Returned "download_error + unit"

record supervisor =
  sv_spawned :: nat
  sv_active :: nat
  sv_running :: nat
  sv_ended :: "task_end list"
  sv_signals :: nat
  sv_phase :: supervisor_phase
  sv_buffer :: segments_buffer

definition initial_worker_count :: nat where "initial_worker_count = 1"

definition spawn_one_worker :: "supervisor \<Rightarrow> supervisor" where
  "spawn_one_worker s =
     s\<lparr>sv_spawned := sv_spawned s + 1, sv_active := sv_active s + 1, sv_running := sv_running s + 1\<rparr>"

definition start_download :: "nat \<Rightarrow> segments_buffer \<Rightarrow> supervisor" where
  "start_download num_connections b =
     (spawn_one_worker ^^ min num_connections initial_worker_count)
       \<lparr>sv_spawned = 0, sv_active = 0, sv_running = 0, sv_ended = [], sv_signals = 0,
        sv_phase = Selecting, sv_buffer = b\<rparr>"

text \<open>The branch of the channel: a segment is ready, so there is room for one more worker.\<close>

definition on_signal :: "nat \<Rightarrow> supervisor \<Rightarrow> supervisor" where
  "on_signal num_connections s =
     (let s1 = s\<lparr>sv_signals := sv_signals s - 1\<rparr> in
      if sv_spawned s1 < num_connections then spawn_one_worker s1 else s1)"

text \<open>The branch of \<open>join_next\<close>: \<open>None\<close> when no task is left.\<close>

definition on_join :: "task_end option \<Rightarrow> supervisor \<Rightarrow> supervisor" where
  "on_join result s =
     (case result of
        Some (Task_returned (Inl e)) \<Rightarrow>
          if is_fatal e then s\<lparr>sv_phase := Returned (Inl e)\<rparr>
          else if sv_active s = 0 then s\<lparr>sv_phase := Draining\<rparr> else s
      | Some _ \<Rightarrow> if sv_active s = 0 then s\<lparr>sv_phase := Draining\<rparr> else s
      | None \<Rightarrow> s\<lparr>sv_phase := Draining\<rparr>)"

text \<open>The loop after the \<open>select!\<close>: every outcome is only logged; then the buffer decides.\<close>

definition on_drain :: "task_end option \<Rightarrow> supervisor \<Rightarrow> supervisor" where
  "on_drain result s =
     (case result of
        Some _ \<Rightarrow> s
      | None \<Rightarrow>
          s\<lparr>sv_phase := Returned (if all_completed (sv_buffer s) then Inr () else Inl Dl_buffer_failed)\<rparr>)"

text \<open>What a task does.\<close>

definition task_returns :: "download_error + unit \<Rightarrow> supervisor \<Rightarrow> supervisor" where
  "task_returns r s =
     s\<lparr>sv_running := sv_running s - 1, sv_active := sv_active s - 1,
       sv_ended := sv_ended s @ [Task_returned r]\<rparr>"

definition task_panics :: "supervisor \<Rightarrow> supervisor" where
  "task_panics s = s\<lparr>sv_running := sv_running s - 1, sv_ended := sv_ended s @ [Task_panicked]\<rparr>"

definition join_one :: "task_end list \<Rightarrow> task_end list \<Rightarrow> supervisor \<Rightarrow> supervisor" where
  "join_one xs ys s = s\<lparr>sv_ended := xs @ ys\<rparr>"

definition no_tasks :: "supervisor \<Rightarrow> bool" where
  "no_tasks s \<longleftrightarrow> sv_running s = 0 \<and> sv_ended s = []"

inductive sup_step :: "nat \<Rightarrow> supervisor \<Rightarrow> supervisor \<Rightarrow> bool" for num :: nat where
  sup_signal: "sv_phase s = Selecting \<Longrightarrow> 0 < sv_signals s \<Longrightarrow> sup_step num s (on_signal num s)"
| sup_join: "sv_phase s = Selecting \<Longrightarrow> sv_ended s = xs @ t # ys \<Longrightarrow>
    sup_step num s (on_join (Some t) (join_one xs ys s))"
| sup_join_none: "sv_phase s = Selecting \<Longrightarrow> no_tasks s \<Longrightarrow> sup_step num s (on_join None s)"
| sup_drain: "sv_phase s = Draining \<Longrightarrow> sv_ended s = xs @ t # ys \<Longrightarrow>
    sup_step num s (on_drain (Some t) (join_one xs ys s))"
| sup_drain_none: "sv_phase s = Draining \<Longrightarrow> no_tasks s \<Longrightarrow> sup_step num s (on_drain None s)"
| task_buffer: "sv_phase s \<in> {Selecting, Draining} \<Longrightarrow> 0 < sv_running s \<Longrightarrow> buf_step (sv_buffer s) b \<Longrightarrow>
    sup_step num s (s\<lparr>sv_buffer := b\<rparr>)"
| task_signal: "sv_phase s \<in> {Selecting, Draining} \<Longrightarrow> 0 < sv_running s \<Longrightarrow>
    sup_step num s (s\<lparr>sv_signals := sv_signals s + 1\<rparr>)"
| task_end: "sv_phase s \<in> {Selecting, Draining} \<Longrightarrow> 0 < sv_running s \<Longrightarrow> sup_step num s (task_returns r s)"
| task_panic: "sv_phase s \<in> {Selecting, Draining} \<Longrightarrow> 0 < sv_running s \<Longrightarrow> sup_step num s (task_panics s)"

inductive_cases sup_stepE: "sup_step num s s'"
inductive_simps sup_step_simps: "sup_step num s s'"

inductive sup_reach :: "nat \<Rightarrow> nat \<Rightarrow> supervisor \<Rightarrow> bool" for num :: nat and n :: nat where
  sup_start: "sup_reach num n (start_download num (new_buffer n f path))"
| sup_next: "sup_reach num n s \<Longrightarrow> sup_step num s s' \<Longrightarrow> sup_reach num n s'"

subsection \<open>Invariants\<close>

lemmas sup_handlers = on_signal_def on_join_def on_drain_def task_returns_def task_panics_def
  join_one_def spawn_one_worker_def no_tasks_def Let_def

text \<open>
  The count of workers is kept, \<open>active\<close> counts at least the running ones, and the way the
  supervisor has returned fits the tasks and the buffer.
\<close>

definition outcome_ok :: "supervisor \<Rightarrow> bool" where
  "outcome_ok s \<longleftrightarrow>
     (case sv_phase s of
        Returned (Inr _) \<Rightarrow> no_tasks s \<and> all_completed (sv_buffer s)
      | Returned (Inl e) \<Rightarrow>
          is_fatal e \<or> e = Dl_buffer_failed \<and> no_tasks s \<and> \<not> all_completed (sv_buffer s)
      | _ \<Rightarrow> True)"

definition sup_inv :: "nat \<Rightarrow> nat \<Rightarrow> supervisor \<Rightarrow> bool" where
  "sup_inv num n s \<longleftrightarrow>
     sv_spawned s \<le> num \<and> sv_running s + length (sv_ended s) \<le> sv_spawned s \<and>
     sv_running s \<le> sv_active s \<and> sv_active s \<le> sv_spawned s \<and>
     buf_reach n (sv_buffer s) \<and> outcome_ok s"

lemma start_inv: "sup_inv num n (start_download num (new_buffer n f path))"
  by (cases num)
    (simp_all add: start_download_def sup_inv_def outcome_ok_def initial_worker_count_def
      spawn_one_worker_def reach_new)

lemma sup_step_inv: "sup_step num s s' \<Longrightarrow> sup_inv num n s \<Longrightarrow> sup_inv num n s'"
proof (induction rule: sup_step.induct)
  case (sup_join s xs t ys)
  then show ?case
    by (auto simp: sup_inv_def outcome_ok_def sup_handlers split: task_end.split sum.split)
next
  case (task_buffer s b)
  then show ?case by (auto simp: sup_inv_def outcome_ok_def intro: reach_step)
qed (auto simp: sup_inv_def outcome_ok_def sup_handlers)

lemma sup_reach_inv: "sup_reach num n s \<Longrightarrow> sup_inv num n s"
  by (induction rule: sup_reach.induct) (auto intro: start_inv sup_step_inv)

subsection \<open>What the result means\<close>

text \<open>
  \<open>download_multithreaded\<close> says \<open>Ok\<close> only when every worker has ended and every byte of the
  file lies in a ready segment; it says \<open>BufferFailed\<close> only when every worker has ended and the
  buffer is not complete; any other error is one that aborts the download. It never spawns more
  workers than there are connections. All this in every interleaving of the workers with it.
\<close>

lemma download_outcome:
  assumes "sup_reach num n s" and "sv_phase s = Returned r"
  shows "sv_spawned s \<le> num
     \<and> (r = Inr () \<longrightarrow> no_tasks s \<and> (\<forall>x < n. \<exists>i. segment_start i (sv_buffer s) \<le> x
          \<and> x < segment_end i (sv_buffer s) \<and> is_ready i (sv_buffer s)))
     \<and> (\<forall>e. r = Inl e \<longrightarrow> is_fatal e \<or> e = Dl_buffer_failed \<and> no_tasks s \<and> \<not> all_completed (sv_buffer s))"
proof -
  have inv: "sup_inv num n s" by (rule sup_reach_inv [OF assms(1)])
  let ?b = "sv_buffer s"
  have "\<exists>i. segment_start i ?b \<le> x \<and> x < segment_end i ?b \<and> is_ready i ?b"
    if cmp: "all_completed ?b" and lt: "x < n" for x
  proof -
    have b: "buf_inv ?b" "total_size ?b = n" using inv buf_reach_inv by (auto simp: sup_inv_def)
    then have t: "tiles 0 (segments ?b) n" using that(1) by (auto simp: buf_inv_def all_completed_def)
    have "count_ready (segments ?b) = length (segments ?b)"
      using b cmp count_ready_le [of "segments ?b"] by (simp add: buf_inv_def all_completed_def)
    then have rdy: "\<forall>sg \<in> set (segments ?b). sg_state sg = Ready" using count_ready_all by blast
    obtain sg where "sg \<in> set (segments ?b)" "sg_start sg \<le> x" "x < sg_end sg"
      using tiles_covers [OF t _ lt] by auto
    then obtain i where i: "i < length (segments ?b)" "sg_start (segments ?b ! i) \<le> x"
      "x < sg_end (segments ?b ! i)" by (auto simp: in_set_conv_nth)
    then have "sg_state (segments ?b ! i) = Ready" using rdy by simp
    then show ?thesis
      using i by (intro exI [of _ i]) (simp add: segment_start_def segment_end_def is_ready_def)
  qed
  then show ?thesis using inv assms(2) by (auto simp: sup_inv_def outcome_ok_def split: sum.splits)
qed

text \<open>Two workers, both failing; the second because the file changed.\<close>

definition demo_start :: supervisor where
  "demo_start = start_download 2 (new_buffer 4 [0, 0, 0, 0] ''f'')"

definition demo_both_failed :: supervisor where
  "demo_both_failed =
     task_returns (Inl Dl_etag_changed) (task_returns (Inl (Dl_http_status 500))
       (on_signal 2 (demo_start\<lparr>sv_signals := 1\<rparr>)))"

lemmas demo_sup = demo_both_failed_def demo_start_def start_download_def initial_worker_count_def sup_handlers

lemma demo_reach: "sup_reach 2 4 demo_both_failed"
proof -
  have "sup_reach 2 4 demo_start" unfolding demo_start_def by (rule sup_start)
  moreover have "sup_step 2 demo_start (demo_start\<lparr>sv_signals := 1\<rparr>)"
    using task_signal [of demo_start 2] by (simp add: demo_sup)
  moreover have "sup_step 2 (demo_start\<lparr>sv_signals := 1\<rparr>) (on_signal 2 (demo_start\<lparr>sv_signals := 1\<rparr>))"
    by (rule sup_signal) (simp_all add: demo_sup)
  moreover have "sup_step 2 (on_signal 2 (demo_start\<lparr>sv_signals := 1\<rparr>))
      (task_returns (Inl (Dl_http_status 500)) (on_signal 2 (demo_start\<lparr>sv_signals := 1\<rparr>)))"
    by (rule task_end) (simp_all add: demo_sup)
  moreover have "sup_step 2 (task_returns (Inl (Dl_http_status 500)) (on_signal 2 (demo_start\<lparr>sv_signals := 1\<rparr>)))
      demo_both_failed"
    unfolding demo_both_failed_def by (rule task_end) (simp_all add: demo_sup)
  ultimately show ?thesis by (meson sup_next)
qed

text \<open>
  A change of the upstream file can be reported as an ordinary failure: when the task that
  met it ends while the last other worker is being joined, the supervisor has no active worker
  left, leaves the \<open>select!\<close> and only logs the outcome of the task; the caller is told
  \<open>BufferFailed\<close> and not \<open>EtagChanged\<close>.
\<close>

lemma fatal_error_masked:
  "\<exists>s s'. sup_reach 2 4 s \<and> Task_returned (Inl Dl_etag_changed) \<in> set (sv_ended s)
     \<and> sv_phase s = Selecting \<and> (sup_step 2)\<^sup>*\<^sup>* s s' \<and> sv_phase s' = Returned (Inl Dl_buffer_failed)"
proof -
  let ?t1 = "Task_returned (Inl (Dl_http_status 500))" and ?t2 = "Task_returned (Inl Dl_etag_changed)"
  let ?s1 = "on_join (Some ?t1) (join_one [] [?t2] demo_both_failed)"
  let ?s2 = "on_drain (Some ?t2) (join_one [] [] ?s1)"
  have "sup_step 2 demo_both_failed ?s1"
    by (rule sup_join) (simp_all add: demo_sup)
  moreover have "sup_step 2 ?s1 ?s2"
    by (rule sup_drain) (simp_all add: demo_sup is_fatal_def)
  moreover have "sup_step 2 ?s2 (on_drain None ?s2)"
    by (rule sup_drain_none) (simp_all add: demo_sup is_fatal_def)
  ultimately have "(sup_step 2)\<^sup>*\<^sup>* demo_both_failed (on_drain None ?s2)"
    by (meson rtranclp.rtrancl_into_rtrancl rtranclp.rtrancl_refl)
  moreover have "sv_phase (on_drain None ?s2) = Returned (Inl Dl_buffer_failed)"
    by (simp add: demo_sup new_buffer_def all_completed_def)
  ultimately show ?thesis using demo_reach
    by (intro exI [of _ demo_both_failed] exI [of _ "on_drain None ?s2"]) (simp add: demo_sup)
qed

lemma download_outcome_witness:
  "\<exists>s. sup_reach 2 4 s \<and> sv_phase s = Returned (Inl Dl_etag_changed) \<and> sv_spawned s \<le> 2"
proof -
  let ?t1 = "Task_returned (Inl (Dl_http_status 500))" and ?t2 = "Task_returned (Inl Dl_etag_changed)"
  let ?s = "on_join (Some ?t2) (join_one [?t1] [] demo_both_failed)"
  have "sup_step 2 demo_both_failed ?s" by (rule sup_join) (simp_all add: demo_sup)
  then have r: "sup_reach 2 4 ?s" by (rule sup_next [OF demo_reach])
  have p: "sv_phase ?s = Returned (Inl Dl_etag_changed)" by (simp add: demo_sup is_fatal_def)
  show ?thesis using download_outcome [OF r p] r p by blast
qed

subsection \<open>The supervisor can always return\<close>

fun phase_rank :: "supervisor_phase \<Rightarrow> nat" where
  "phase_rank Selecting = 2"
| "phase_rank Draining = 1"
| "phase_rank (Returned r) = 0"

definition left_to_do :: "supervisor \<Rightarrow> nat" where
  "left_to_do s = 2 * sv_running s + length (sv_ended s) + phase_rank (sv_phase s)"

lemma progress_step:
  assumes "sv_phase s \<in> {Selecting, Draining}"
  shows "\<exists>s'. sup_step num s s' \<and> left_to_do s' < left_to_do s"
proof (cases "0 < sv_running s")
  case True
  then have "sup_step num s (task_returns (Inr ()) s)" by (rule task_end [OF assms])
  moreover have "left_to_do (task_returns (Inr ()) s) < left_to_do s"
    using True by (simp add: left_to_do_def task_returns_def)
  ultimately show ?thesis by blast
next
  case False
  show ?thesis
  proof (cases "sv_ended s")
    case Nil
    then have "no_tasks s" using False by (simp add: no_tasks_def)
    then show ?thesis
      using assms sup_join_none [of s num] sup_drain_none [of s num]
      by (elim insertE)
        (force simp: left_to_do_def sup_handlers)+
  next
    case (Cons t ts)
    then have "sv_ended s = [] @ t # ts" by simp
    then show ?thesis
      using assms sup_join [of s "[]" t ts num] sup_drain [of s "[]" t ts num] Cons
      by (elim insertE)
        (force simp: left_to_do_def sup_handlers split: task_end.split sum.split)+
  qed
qed

text \<open>
  The download never gets stuck: from every state it can reach, however many tasks have
  panicked and whatever signals are queued, there are steps to a state in which
  \<open>download_multithreaded\<close> has returned.
\<close>

lemma supervisor_can_return:
  "\<exists>s' r. (sup_step num)\<^sup>*\<^sup>* s s' \<and> sv_phase s' = Returned r"
proof (induction "left_to_do s" arbitrary: s rule: less_induct)
  case less
  show ?case
  proof (cases "sv_phase s")
    case (Returned r)
    then show ?thesis by blast
  next
    case Selecting
    then obtain s1 where "sup_step num s s1" "left_to_do s1 < left_to_do s" using progress_step by blast
    then show ?thesis using less by (meson converse_rtranclp_into_rtranclp)
  next
    case Draining
    then obtain s1 where "sup_step num s s1" "left_to_do s1 < left_to_do s" using progress_step by blast
    then show ?thesis using less by (meson converse_rtranclp_into_rtranclp)
  qed
qed

end
