(* ===== verification/Parallel_Download.thy ===== *)
theory Parallel_Download
  imports Worker_Steps Download_Supervisor
begin

text \<open>
  The whole of \<open>download_multithreaded\<close> of \<open>src/src/downloader.rs\<close>: the supervisor of the theory
  Download\_Supervisor together with its tasks, each a worker of the theory Worker\_Steps, all on one
  buffer. A step is a handler of the supervisor or one step of one task, in any order. What the upstream
  may answer to a request is the relation \<open>up\<close>; what the clock, the disk and the token of cancellation
  say is chosen anew in every step. A task can panic where it calls other code.
\<close>

record parallel_download =
  pd_sup :: supervisor
  pd_tasks :: "worker_pc list"

abbreviation pd_buffer :: "parallel_download \<Rightarrow> segments_buffer" where
  "pd_buffer d \<equiv> sv_buffer (pd_sup d)"

fun live :: "worker_pc \<Rightarrow> bool" where
  "live (Ended r) = False"
| "live Panicked = False"
| "live _ = True"

fun may_panic :: "worker_pc \<Rightarrow> bool" where
  "may_panic (Sending j attempt l) = True"
| "may_panic (Reading j attempt evs off) = True"
| "may_panic (Chunking j attempt evs rest off) = True"
| "may_panic (Writing j attempt evs data rest off) = True"
| "may_panic _ = False"

text \<open>The moves of the supervisor, as in the theory Download\_Supervisor.\<close>

inductive supervise :: "nat \<Rightarrow> supervisor \<Rightarrow> supervisor \<Rightarrow> bool" for num :: nat where
  sv_signal: "sv_phase s = Selecting \<Longrightarrow> 0 < sv_signals s \<Longrightarrow> supervise num s (on_signal num s)"
| sv_join: "sv_phase s = Selecting \<Longrightarrow> sv_ended s = xs @ t # ys \<Longrightarrow>
    supervise num s (on_join (Some t) (join_one xs ys s))"
| sv_join_none: "sv_phase s = Selecting \<Longrightarrow> no_tasks s \<Longrightarrow> supervise num s (on_join None s)"
| sv_drain: "sv_phase s = Draining \<Longrightarrow> sv_ended s = xs @ t # ys \<Longrightarrow>
    supervise num s (on_drain (Some t) (join_one xs ys s))"
| sv_drain_none: "sv_phase s = Draining \<Longrightarrow> no_tasks s \<Longrightarrow> supervise num s (on_drain None s)"

inductive_cases superviseE: "supervise num s s'"

lemma supervise_sup_step: "supervise num s s' \<Longrightarrow> sup_step num s s'"
  by (erule superviseE) (auto intro: sup_step.intros)

text \<open>A spawned task begins with a poll of the token; what a step of a task does to the supervisor.\<close>

definition first_poll :: worker_pc where
  "first_poll = Polling initial_segment_size"

definition pd_supervised :: "supervisor \<Rightarrow> parallel_download \<Rightarrow> parallel_download" where
  "pd_supervised s d =
     \<lparr>pd_sup = s, pd_tasks = pd_tasks d @ replicate (sv_spawned s - sv_spawned (pd_sup d)) first_poll\<rparr>"

definition tell :: "worker_pc \<Rightarrow> worker_pc \<Rightarrow> supervisor \<Rightarrow> supervisor" where
  "tell pc pc' s =
     (let s1 = (case pc of Announcing j \<Rightarrow> s\<lparr>sv_signals := sv_signals s + 1\<rparr> | _ \<Rightarrow> s)
      in case pc' of Ended r \<Rightarrow> task_returns r s1 | Panicked \<Rightarrow> task_panics s1 | _ \<Rightarrow> s1)"

definition pd_worked :: "nat \<Rightarrow> worker_pc \<Rightarrow> segments_buffer \<Rightarrow> parallel_download \<Rightarrow> parallel_download" where
  "pd_worked i pc b d =
     \<lparr>pd_sup = tell (pd_tasks d ! i) pc ((pd_sup d)\<lparr>sv_buffer := b\<rparr>), pd_tasks = (pd_tasks d)[i := pc]\<rparr>"

definition pd_start :: "nat \<Rightarrow> segments_buffer \<Rightarrow> parallel_download" where
  "pd_start num b =
     (let s = start_download num b in \<lparr>pd_sup = s, pd_tasks = replicate (sv_spawned s) first_poll\<rparr>)"

inductive par_step ::
    "string option \<Rightarrow> string option \<Rightarrow> (range_request \<Rightarrow> range_answer \<Rightarrow> bool) \<Rightarrow> nat
       \<Rightarrow> parallel_download \<Rightarrow> parallel_download \<Rightarrow> bool"
  for ua :: "string option" and etag :: "string option"
    and up :: "range_request \<Rightarrow> range_answer \<Rightarrow> bool" and num :: nat where
  par_supervise: "supervise num (pd_sup d) s \<Longrightarrow> par_step ua etag up num d (pd_supervised s d)"
| par_work: "i < length (pd_tasks d) \<Longrightarrow> live (pd_tasks d ! i) \<Longrightarrow> obs_ok ua etag up (pd_tasks d ! i) ob \<Longrightarrow>
    worker_step ob (pd_tasks d ! i) (pd_buffer d) = (pc, b) \<Longrightarrow> par_step ua etag up num d (pd_worked i pc b d)"
| par_panic: "i < length (pd_tasks d) \<Longrightarrow> may_panic (pd_tasks d ! i) \<Longrightarrow>
    par_step ua etag up num d (pd_worked i Panicked (pd_buffer d) d)"

inductive_cases par_stepE: "par_step ua etag up num d d'"

inductive par_reach ::
    "string option \<Rightarrow> string option \<Rightarrow> (range_request \<Rightarrow> range_answer \<Rightarrow> bool) \<Rightarrow> nat \<Rightarrow> nat
       \<Rightarrow> parallel_download \<Rightarrow> bool"
  for ua :: "string option" and etag :: "string option"
    and up :: "range_request \<Rightarrow> range_answer \<Rightarrow> bool" and num :: nat and n :: nat where
  par_init: "length f = n \<Longrightarrow> par_reach ua etag up num n (pd_start num ((new_buffer n f path)\<lparr>meta := m\<rparr>))"
| par_next: "par_reach ua etag up num n d \<Longrightarrow> par_step ua etag up num d d' \<Longrightarrow> par_reach ua etag up num n d'"

lemma par_plain: "length f = n \<Longrightarrow> par_reach ua etag up num n (pd_start num (new_buffer n f path))"
  using par_init [where path = path and m = None, of f n] by (simp add: new_buffer_def)

subsection \<open>What one step of a worker does to the buffer\<close>

text \<open>The job of a worker, and the job whose segment is not ready yet.\<close>

fun job_of :: "worker_pc \<Rightarrow> segment_job option" where
  "job_of (Attempting j attempt l) = Some j"
| "job_of (Sending j attempt l) = Some j"
| "job_of (Reading j attempt evs off) = Some j"
| "job_of (Chunking j attempt evs rest off) = Some j"
| "job_of (Writing j attempt evs data rest off) = Some j"
| "job_of (Marking j) = Some j"
| "job_of (Counting j) = Some j"
| "job_of (Announcing j) = Some j"
| "job_of _ = None"

definition counts :: "worker_pc \<Rightarrow> bool" where
  "counts pc \<longleftrightarrow> (case pc of Counting j \<Rightarrow> True | _ \<Rightarrow> False)"

fun holds :: "worker_pc \<Rightarrow> segment_job option" where
  "holds (Counting j) = None"
| "holds (Announcing j) = None"
| "holds pc = job_of pc"

lemmas worker_handlers = on_poll_def on_claim_def on_attempt_def retry_or_end_def on_response_def
  after_body_def on_item_def on_chunk_def on_write_def on_mark_def on_announce_def Let_def

text \<open>The sizes asked for are positive, and a worker leaves \<open>claim_range\<close> when it returns.\<close>

definition size_ok :: "worker_pc \<Rightarrow> bool" where
  "size_ok pc \<longleftrightarrow>
     (case pc of
        Polling p \<Rightarrow> 0 < p
      | Claiming p c \<Rightarrow>
          0 < p \<and> (case c of Start q \<Rightarrow> 0 < q | Loaded q x \<Rightarrow> 0 < q | Won s e \<Rightarrow> True | claim_pc.Returned r \<Rightarrow> False)
      | _ \<Rightarrow> (case job_of pc of Some j \<Rightarrow> 0 < job_pref j | None \<Rightarrow> True))"

lemma worker_step_size: "worker_step ob pc b = (pc', b') \<Longrightarrow> size_ok pc \<Longrightarrow> size_ok pc'"
proof (cases pc)
  case (Claiming p c)
  then show "worker_step ob pc b = (pc', b') \<Longrightarrow> size_ok pc \<Longrightarrow> size_ok pc'"
    by (cases c) (auto simp: size_ok_def on_claim_def claim_load_def claim_cas_def claim_push_def Let_def split: if_splits)
next
  case (Reading j attempt evs off)
  then show "worker_step ob pc b = (pc', b') \<Longrightarrow> size_ok pc \<Longrightarrow> size_ok pc'"
    by (cases evs rule: list.exhaust; cases "hd evs") (auto simp: size_ok_def worker_handlers split: if_splits)
qed (auto simp: size_ok_def worker_handlers next_size_pos split: option.splits sum.splits if_splits)

lemma worker_step_total: "worker_step ob pc b = (pc', b') \<Longrightarrow> total_size b' = total_size b"
proof (cases pc)
  case (Claiming p c)
  then show "worker_step ob pc b = (pc', b') \<Longrightarrow> total_size b' = total_size b"
    using claim_step_total [of c b]
    by (auto simp: on_claim_def simp del: claim_step_total split: claim_pc.splits option.splits prod.splits)
qed (auto simp: worker_handlers mark_state_def mark_count_def split: option.splits if_splits)

text \<open>The steps that change the list of segments are the push of a claim and the mark.\<close>

lemma worker_step_segments:
  assumes "worker_step ob pc b = (pc', b')"
  shows "(\<exists>p s e. pc = Claiming p (Won s e)) \<or> (\<exists>j. pc = Marking j) \<or> segments b' = segments b"
proof (cases pc)
  case (Claiming p c)
  then show ?thesis using assms
    by (cases c) (auto simp: on_claim_def claim_load_def claim_cas_def Let_def split: if_splits option.splits)
qed (use assms in \<open>auto simp: worker_handlers mark_count_def split: option.splits if_splits\<close>)

lemma worker_step_push:
  "worker_step ob (Claiming p (Won s e)) b = (pc', b') \<Longrightarrow>
     pc' = Attempting \<lparr>job_id = length (segments b), job_start = s, job_end = e, job_pref = p\<rparr> 0 None
     \<and> b' = b\<lparr>segments := segments b @ [\<lparr>sg_start = s, sg_end = e, sg_state = Downloading\<rparr>]\<rparr>"
  by (auto simp: on_claim_def claim_push_def)

text \<open>Only the push of a claim gives a worker a job.\<close>

lemma worker_step_holds:
  assumes "worker_step ob pc b = (pc', b')" "size_ok pc"
  shows "(\<exists>p s e. pc = Claiming p (Won s e)) \<or> holds pc' = None \<or> holds pc' = holds pc"
proof (cases pc)
  case (Claiming p c)
  then show ?thesis using assms
    by (cases c) (auto simp: size_ok_def on_claim_def claim_load_def claim_cas_def Let_def split: if_splits)
next
  case (Reading j attempt evs off)
  then show ?thesis using assms
    by (cases evs rule: list.exhaust; cases "hd evs") (auto simp: worker_handlers split: if_splits)
qed (use assms in \<open>auto simp: worker_handlers split: option.splits sum.splits if_splits\<close>)

subsection \<open>The ranges\<close>

definition claim_view :: "worker_pc \<Rightarrow> claim_pc" where
  "claim_view pc = (case pc of Claiming p c \<Rightarrow> c | _ \<Rightarrow> claim_pc.Returned None)"

text \<open>Seen as workers that claim, the tasks keep the invariant of the theory Claim\_Interleaving.\<close>

definition ranges_ok :: "segments_buffer \<Rightarrow> worker_pc list \<Rightarrow> bool" where
  "ranges_ok b ts \<longleftrightarrow>
     sys_inv \<lparr>shared = b, workers = map claim_view ts\<rparr>
     \<and> (all_assigned b \<longrightarrow> next_unassigned b = total_size b) \<and> (\<forall>pc \<in> set ts. size_ok pc)"

lemma sys_inv_update:
  assumes "sys_inv \<lparr>shared = b, workers = ws\<rparr>" "i < length ws" "won_range c = won_range (ws ! i)" "loaded_ok b c"
    and same: "map sg_range (segments b') = map sg_range (segments b)" "next_unassigned b' = next_unassigned b"
      "total_size b' = total_size b"
  shows "sys_inv \<lparr>shared = b', workers = ws[i := c]\<rparr>"
proof -
  have "held_ranges \<lparr>shared = b', workers = ws[i := c]\<rparr> = held_ranges \<lparr>shared = b, workers = ws\<rparr>"
    using sum_mset_update [OF assms(2), of c] assms(3) by (simp add: held_ranges_def same)
  moreover have "loaded_ok b' = loaded_ok b" by (rule ext) (simp add: loaded_ok_def same split: claim_pc.split)
  moreover have "\<forall>pc \<in> set (ws[i := c]). loaded_ok b pc"
    using assms(1,4) set_update_subset_insert [of ws i c] by (auto simp: sys_inv_def)
  ultimately show ?thesis using assms(1) by (simp add: sys_inv_def same)
qed

lemma worker_step_keeps:
  assumes "worker_step ob pc b = (pc', b')" "\<And>p c. pc \<noteq> Claiming p c"
  shows "map sg_range (segments b') = map sg_range (segments b)" "next_unassigned b' = next_unassigned b"
    "all_assigned b' = all_assigned b"
proof -
  have mark: "map sg_range (segments (mark_state i b)) = map sg_range (segments b)" for i
  proof -
    have "map sg_range (segments (mark_state i b)) = (map sg_range (segments b))[i := sg_range (segments b ! i)]"
      by (simp add: mark_state_def map_update sg_range_def)
    also have "\<dots> = map sg_range ((segments b)[i := segments b ! i])" by (simp only: map_update)
    finally show ?thesis by (simp only: list_update_id)
  qed
  show "map sg_range (segments b') = map sg_range (segments b)"
  proof (cases "\<exists>j. pc = Marking j")
    case True
    then show ?thesis using assms(1) mark by (auto simp: on_mark_def split: if_splits)
  next
    case False
    then show ?thesis using worker_step_segments [OF assms(1)] assms(2) by simp
  qed
  show "next_unassigned b' = next_unassigned b" "all_assigned b' = all_assigned b"
    using assms by (cases pc; auto simp: worker_handlers mark_state_def mark_count_def split: option.splits if_splits)+
qed

lemma worker_step_view:
  assumes "worker_step ob pc b = (pc', b')" "\<And>p c. pc \<noteq> Claiming p c"
  shows "won_range (claim_view pc') = {#} \<and> loaded_ok b'' (claim_view pc')"
proof (cases pc)
  case (Reading j attempt evs off)
  then show ?thesis using assms(1)
    by (cases evs rule: list.exhaust; cases "hd evs")
      (auto simp: worker_handlers claim_view_def loaded_ok_def split: if_splits)
qed (use assms in \<open>auto simp: worker_handlers claim_view_def loaded_ok_def split: option.splits sum.splits if_splits\<close>)

lemma worker_step_ranges:
  assumes "ranges_ok b ts" "i < length ts" "worker_step ob (ts ! i) b = (pc, b')"
  shows "ranges_ok b' (ts[i := pc])"
proof -
  let ?ws = "map claim_view ts"
  have inv: "sys_inv \<lparr>shared = b, workers = ?ws\<rparr>" and sz: "\<forall>pc \<in> set ts. size_ok pc"
    using assms(1) by (simp_all add: ranges_ok_def)
  have "size_ok pc" using worker_step_size [OF assms(3)] sz assms(2) by simp
  then have size: "\<forall>pc \<in> set (ts[i := pc]). size_ok pc" using sz set_update_subset_insert [of ts i pc] by auto
  show ?thesis
  proof (cases "\<exists>p c. ts ! i = Claiming p c")
    case True
    then obtain p c where c: "ts ! i = Claiming p c" by blast
    obtain c' b1 where step: "claim_step c b = (c', b1)" by fastforce
    have "claim_view (ts ! i) \<in> set ?ws" using assms(2) by simp
    then have lok: "loaded_ok b c" using inv c by (auto simp: sys_inv_def claim_view_def)
    have "sys_step i \<lparr>shared = b, workers = ?ws\<rparr> = \<lparr>shared = b1, workers = ?ws[i := c']\<rparr>"
      using assms(2) c step by (simp add: sys_step_def claim_view_def)
    with sys_step_inv [OF inv, of i] have inv1: "sys_inv \<lparr>shared = b1, workers = ?ws[i := c']\<rparr>" by simp
    have pc: "b' = b1" "won_range (claim_view pc) = won_range c'" "loaded_ok b1 (claim_view pc)"
      using assms(3) c step claim_step_loaded_ok [OF lok step]
      by (auto simp: on_claim_def claim_view_def loaded_ok_def split: claim_pc.splits option.splits)
    have "sys_inv \<lparr>shared = b', workers = ?ws[i := claim_view pc]\<rparr>"
      using sys_inv_update [OF inv1, of i "claim_view pc" b1] pc assms(2) by simp
    moreover have "all_assigned b' \<longrightarrow> next_unassigned b' = total_size b'"
      using assms(1) step pc(1) lok inv
      by (cases c) (auto simp: ranges_ok_def sys_inv_def claim_load_def claim_cas_def claim_push_def loaded_ok_def Let_def
          split: if_splits)
    ultimately show ?thesis using size by (simp add: ranges_ok_def map_update)
  next
    case False
    have same: "map sg_range (segments b') = map sg_range (segments b)" "next_unassigned b' = next_unassigned b"
      "total_size b' = total_size b" "all_assigned b' = all_assigned b"
      using worker_step_keeps [OF assms(3)] worker_step_total [OF assms(3)] False by blast+
    have "claim_view (ts ! i) = claim_pc.Returned None" using False by (auto simp: claim_view_def split: worker_pc.splits)
    moreover have "won_range (claim_view pc) = {#} \<and> loaded_ok b (claim_view pc)"
      using worker_step_view [OF assms(3)] False by blast
    ultimately have "sys_inv \<lparr>shared = b', workers = ?ws[i := claim_view pc]\<rparr>"
      using sys_inv_update [OF inv, of i "claim_view pc" b'] same assms(2) by simp
    then show ?thesis using size same assms(1) by (simp add: ranges_ok_def map_update)
  qed
qed

text \<open>Two different segments have no byte in common, and each lies in the file.\<close>

lemma two_of_filter:
  assumes "i < length xs" "k < length xs" "i \<noteq> k" "P (xs ! i)" "P (xs ! k)"
  shows "2 \<le> length (filter P xs)"
proof -
  have "{i, k} \<subseteq> {n. n < length xs \<and> P (xs ! n)}" using assms by auto
  from card_mono [OF _ this] show ?thesis using assms(3) by (simp add: length_filter_conv_card)
qed

lemma segments_apart:
  assumes "ranges_ok b ts" "i < length (segments b)"
  shows "sg_start (segments b ! i) < sg_end (segments b ! i)" "sg_end (segments b ! i) \<le> total_size b"
    and "k < length (segments b) \<Longrightarrow> i \<noteq> k \<Longrightarrow>
      sg_end (segments b ! i) \<le> sg_start (segments b ! k) \<or> sg_end (segments b ! k) \<le> sg_start (segments b ! i)"
proof -
  let ?rng = "map sg_range (segments b)"
  obtain rs where rs: "chain 0 rs (next_unassigned b)" "next_unassigned b \<le> total_size b"
    and held: "mset rs = mset ?rng + \<Sum>\<^sub># (mset (map won_range (map claim_view ts)))"
    using assms(1) by (auto simp: ranges_ok_def sys_inv_def held_ranges_def)
  have bounds: "sg_start (segments b ! m) < sg_end (segments b ! m) \<and> sg_end (segments b ! m) \<le> next_unassigned b"
    if "m < length (segments b)" for m
  proof -
    have "sg_range (segments b ! m) \<in># mset rs" using that unfolding held by simp
    then show ?thesis using chain_bounds [OF rs(1)] by (simp add: sg_range_def)
  qed
  then show "sg_start (segments b ! i) < sg_end (segments b ! i)" "sg_end (segments b ! i) \<le> total_size b"
    using assms(2) rs(2) by fastforce+
  show "sg_end (segments b ! i) \<le> sg_start (segments b ! k) \<or> sg_end (segments b ! k) \<le> sg_start (segments b ! i)"
    if k: "k < length (segments b)" "i \<noteq> k"
  proof (rule ccontr)
    assume overlap: "\<not> ?thesis"
    define x where "x = max (sg_start (segments b ! i)) (sg_start (segments b ! k))"
    let ?P = "\<lambda>r. fst r \<le> x \<and> x < snd r"
    have x: "?P (?rng ! i)" "?P (?rng ! k)" "x < next_unassigned b"
      using bounds [OF assms(2)] bounds [OF k(1)] overlap assms(2) k(1) by (auto simp: x_def sg_range_def)
    have "2 \<le> length (filter ?P ?rng)" using two_of_filter [of i ?rng k ?P] x assms(2) k by simp
    moreover have "size (filter_mset ?P (mset rs)) = 1" using chain_covers [OF rs(1) _ x(3)] by simp
    moreover have "size (filter_mset ?P (mset ?rng)) \<le> size (filter_mset ?P (mset rs))"
      unfolding held by (simp only: filter_union_mset size_union le_add1)
    moreover have "size (filter_mset ?P (mset ?rng)) = length (filter ?P ?rng)"
      by (simp only: mset_filter [symmetric] size_mset)
    ultimately show False by linarith
  qed
qed

subsection \<open>The jobs\<close>

text \<open>
  A worker holds the segment of its job, which is not ready, and no two workers hold the same. The
  counter of ready segments lags behind by the workers between the two halves of \<open>mark_ready\<close>.
\<close>

definition jobs_ok :: "segments_buffer \<Rightarrow> worker_pc list \<Rightarrow> bool" where
  "jobs_ok b ts \<longleftrightarrow>
     (\<forall>i < length ts. \<forall>j. holds (ts ! i) = Some j \<longrightarrow>
        job_id j < length (segments b)
        \<and> segments b ! job_id j = \<lparr>sg_start = job_start j, sg_end = job_end j, sg_state = Downloading\<rparr>)
     \<and> (\<forall>i < length ts. \<forall>k < length ts. \<forall>j l. i \<noteq> k \<longrightarrow> holds (ts ! i) = Some j \<longrightarrow> holds (ts ! k) = Some l \<longrightarrow>
        job_id j \<noteq> job_id l)
     \<and> ready_count b + length (filter counts ts) = count_ready (segments b)"

lemma worker_step_count:
  assumes "worker_step ob pc b = (pc', b')" "size_ok pc"
    and "\<And>j. holds pc = Some j \<Longrightarrow> job_id j < length (segments b) \<and> sg_state (segments b ! job_id j) \<noteq> Ready"
  shows "ready_count b' + (if counts pc' then 1 else 0) + count_ready (segments b)
    = ready_count b + (if counts pc then 1 else 0) + count_ready (segments b')"
proof (cases pc)
  case (Claiming p c)
  then show ?thesis using assms(1,2)
    by (cases c) (auto simp: counts_def size_ok_def on_claim_def claim_load_def claim_cas_def claim_push_def Let_def
        count_ready_append count_ready_def split: if_splits)
next
  case (Reading j attempt evs off)
  then show ?thesis using assms(1)
    by (cases evs rule: list.exhaust; cases "hd evs") (auto simp: counts_def worker_handlers split: if_splits)
next
  case (Marking l)
  then show ?thesis using assms(1,3) by (auto simp: counts_def worker_handlers mark_state_def count_ready_update split: if_splits)
qed (use assms(1) in \<open>auto simp: counts_def worker_handlers mark_count_def split: option.splits sum.splits if_splits\<close>)

lemma jobs_okD:
  assumes "jobs_ok b ts" "i < length ts" "holds (ts ! i) = Some j"
  shows "job_id j < length (segments b)"
    and "segments b ! job_id j = \<lparr>sg_start = job_start j, sg_end = job_end j, sg_state = Downloading\<rparr>"
    and "k < length ts \<Longrightarrow> i \<noteq> k \<Longrightarrow> holds (ts ! k) = Some l \<Longrightarrow> job_id j \<noteq> job_id l"
  using assms by (auto simp: jobs_ok_def)

lemma worker_step_jobs:
  assumes jobs: "jobs_ok b ts" and i: "i < length ts" and size: "size_ok (ts ! i)"
    and step: "worker_step ob (ts ! i) b = (pc, b')"
  shows "jobs_ok b' (ts[i := pc])"
proof -
  have "ready_count b' + (if counts pc then 1 else 0) + count_ready (segments b)
      = ready_count b + (if counts (ts ! i) then 1 else 0) + count_ready (segments b')"
    by (rule worker_step_count [OF step size]) (use jobs_okD [OF jobs i] in auto)
  then have count: "ready_count b' + length (filter counts (ts[i := pc])) = count_ready (segments b')"
    using filter_update [OF i, of counts pc] jobs by (simp add: jobs_ok_def)
  have keep: "jobs_ok b' (ts[i := pc])"
    if still: "\<And>k l. k < length ts \<Longrightarrow> holds (ts[i := pc] ! k) = Some l \<Longrightarrow>
      holds (ts ! k) = Some l \<and> length (segments b') = length (segments b) \<and> segments b' ! job_id l = segments b ! job_id l"
    unfolding jobs_ok_def
  proof (intro conjI allI impI)
    fix k j assume "k < length (ts[i := pc])" "holds (ts[i := pc] ! k) = Some j"
    then have k: "k < length ts" "holds (ts[i := pc] ! k) = Some j" by simp_all
    show "job_id j < length (segments b')"
      "segments b' ! job_id j = \<lparr>sg_start = job_start j, sg_end = job_end j, sg_state = Downloading\<rparr>"
      using still [OF k] jobs_okD(1,2) [OF jobs k(1)] by simp_all
    fix m l assume "m < length (ts[i := pc])" "k \<noteq> m" "holds (ts[i := pc] ! m) = Some l"
    then show "job_id j \<noteq> job_id l"
      using still [OF k] still [of m l] jobs_okD(3) [OF jobs k(1), of j m l] by simp
  qed (rule count)
  consider (push) p s e where "ts ! i = Claiming p (Won s e)" | (mark) j where "ts ! i = Marking j"
    | (same) "segments b' = segments b" "holds pc = None \<or> holds pc = holds (ts ! i)" "\<And>p s e. ts ! i \<noteq> Claiming p (Won s e)"
    using worker_step_segments [OF step] worker_step_holds [OF step size] by blast
  then show ?thesis
  proof cases
    case push
    note w = worker_step_push [OF step [unfolded push]]
    let ?ts = "ts[i := pc]" and ?n = "length (segments b)"
    have new: "job_id l < Suc ?n \<and> segments b' ! job_id l = \<lparr>sg_start = job_start l, sg_end = job_end l, sg_state = Downloading\<rparr>
        \<and> (k = i \<longleftrightarrow> job_id l = ?n)" if "k < length ts" "holds (?ts ! k) = Some l" for k l
    proof (cases "k = i")
      case True
      then show ?thesis using that w i by auto
    next
      case False
      then show ?thesis using that w jobs_okD(1,2) [OF jobs that(1), of l] by (auto simp: nth_append)
    qed
    have "job_id j \<noteq> job_id l"
      if "k < length ts" "m < length ts" "k \<noteq> m" "holds (?ts ! k) = Some j" "holds (?ts ! m) = Some l" for k m j l
    proof (cases "k = i \<or> m = i")
      case True
      then show ?thesis using new [OF that(1,4)] new [OF that(2,5)] that(3) by auto
    next
      case False
      then show ?thesis using jobs_okD(3) [OF jobs that(1) _ that(2,3)] that(4,5) by simp
    qed
    then show ?thesis using new count w unfolding jobs_ok_def by auto
  next
    case mark
    then have pc: "holds pc = None" "b' = mark_state (job_id j) b \<or> b' = b"
      using step by (auto simp: on_mark_def split: if_splits)
    have apart: "job_id l \<noteq> job_id j" if "k < length ts" "k \<noteq> i" "holds (ts ! k) = Some l" for k l
      using jobs_okD(3) [OF jobs that(1,3) i that(2)] mark by simp
    show ?thesis
    proof (rule keep)
      fix k l assume k: "k < length ts" "holds (ts[i := pc] ! k) = Some l"
      then have "k \<noteq> i" using pc(1) by auto
      then show "holds (ts ! k) = Some l \<and> length (segments b') = length (segments b) \<and> segments b' ! job_id l = segments b ! job_id l"
        using k apart [of k l] pc(2) by (auto simp: mark_state_def)
    qed
  next
    case same
    show ?thesis
      by (rule keep) (use same i in \<open>auto simp: nth_list_update split: if_splits\<close>)
  qed
qed

subsection \<open>The bytes\<close>

text \<open>
  An upstream that serves \<open>F\<close>: every good answer it may give to a request for a range starts with
  the bytes of \<open>F\<close> in that range.
\<close>

definition upstream_serves ::
    "string option \<Rightarrow> string option \<Rightarrow> bytes \<Rightarrow> (range_request \<Rightarrow> range_answer \<Rightarrow> bool) \<Rightarrow> bool" where
  "upstream_serves ua etag F up \<longleftrightarrow>
     (\<forall>s e resp. s < e \<longrightarrow> up (range_request_for ua etag s e) (Inr resp) \<longrightarrow> good_answer s e (length F) resp \<longrightarrow>
        take (e - s) (body_of (rr_stream resp)) = pread F s (e - s))"

text \<open>
  \<open>received\<close>: what is on disk from the start of the segment to \<open>off\<close>, with \<open>todo\<close> after it, is the
  body of an accepted answer to the request for this segment.
\<close>

definition received ::
    "string option \<Rightarrow> string option \<Rightarrow> (range_request \<Rightarrow> range_answer \<Rightarrow> bool) \<Rightarrow> segments_buffer
       \<Rightarrow> segment_job \<Rightarrow> nat \<Rightarrow> bytes \<Rightarrow> bool" where
  "received ua etag up b j off todo \<longleftrightarrow>
     job_start j \<le> off \<and> off \<le> job_end j \<and>
     (\<exists>resp. up (range_request_for ua etag (job_start j) (job_end j)) (Inr resp)
        \<and> check_status (rr_status resp) (job_start j) (job_end j) (total_size b) = None
        \<and> body_of (rr_stream resp) = pread (dl_file b) (job_start j) (off - job_start j) @ todo)"

definition task_bytes ::
    "string option \<Rightarrow> string option \<Rightarrow> (range_request \<Rightarrow> range_answer \<Rightarrow> bool) \<Rightarrow> bytes \<Rightarrow> segments_buffer
       \<Rightarrow> worker_pc \<Rightarrow> bool" where
  "task_bytes ua etag up F b pc \<longleftrightarrow>
     (case pc of
        Reading j attempt evs off \<Rightarrow> received ua etag up b j off (body_of evs)
      | Chunking j attempt evs rest off \<Rightarrow> received ua etag up b j off (rest @ body_of evs)
      | Writing j attempt evs data rest off \<Rightarrow>
          received ua etag up b j off (data @ rest @ body_of evs) \<and> off + length data \<le> job_end j
      | Marking j \<Rightarrow> pread (dl_file b) (job_start j) (job_end j - job_start j) = pread F (job_start j) (job_end j - job_start j)
      | _ \<Rightarrow> True)"

definition bytes_ok ::
    "string option \<Rightarrow> string option \<Rightarrow> (range_request \<Rightarrow> range_answer \<Rightarrow> bool) \<Rightarrow> bytes \<Rightarrow> segments_buffer
       \<Rightarrow> worker_pc list \<Rightarrow> bool" where
  "bytes_ok ua etag up F b ts \<longleftrightarrow>
     length (dl_file b) = length F \<and> total_size b = length F
     \<and> (\<forall>pc \<in> set ts. task_bytes ua etag up F b pc)
     \<and> (\<forall>sg \<in> set (segments b). sg_state sg = Ready \<longrightarrow>
          pread (dl_file b) (sg_start sg) (sg_end sg - sg_start sg) = pread F (sg_start sg) (sg_end sg - sg_start sg))"

lemma task_bytes_reading:
  "task_bytes ua etag up F b (Reading j attempt evs off) = received ua etag up b j off (body_of evs)"
  by (simp add: task_bytes_def)

text \<open>Whether what a task knows holds is decided by the bytes of its segment.\<close>

lemma task_bytes_local:
  assumes "task_bytes ua etag up F b pc" "total_size b' = total_size b"
    and "\<And>j n. holds pc = Some j \<Longrightarrow> n \<le> job_end j - job_start j \<Longrightarrow>
      pread (dl_file b') (job_start j) n = pread (dl_file b) (job_start j) n"
  shows "task_bytes ua etag up F b' pc"
proof (cases pc)
  case (Reading j attempt evs off)
  then show ?thesis using assms assms(3) [of j "off - job_start j"] by (auto simp: task_bytes_def received_def)
next
  case (Chunking j attempt evs rest off)
  then show ?thesis using assms assms(3) [of j "off - job_start j"] by (auto simp: task_bytes_def received_def)
next
  case (Writing j attempt evs data rest off)
  then show ?thesis using assms assms(3) [of j "off - job_start j"] by (auto simp: task_bytes_def received_def)
next
  case (Marking j)
  then show ?thesis using assms assms(3) [of j "job_end j - job_start j"] by (auto simp: task_bytes_def)
qed (simp_all add: task_bytes_def)

text \<open>The check of the length of a body leaves only bodies that hold the segment.\<close>

lemma received_whole:
  assumes "upstream_serves ua etag F up" "received ua etag up b j off todo" "job_start j < job_end j"
    and "off - job_start j = job_end j - job_start j" "total_size b = length F" "length (dl_file b) = length F"
    and "job_end j \<le> length F"
  shows "pread (dl_file b) (job_start j) (job_end j - job_start j) = pread F (job_start j) (job_end j - job_start j)"
proof -
  let ?n = "job_end j - job_start j"
  obtain resp where r: "up (range_request_for ua etag (job_start j) (job_end j)) (Inr resp)"
    "check_status (rr_status resp) (job_start j) (job_end j) (length F) = None"
    "body_of (rr_stream resp) = pread (dl_file b) (job_start j) ?n @ todo"
    using assms(2,4,5) by (auto simp: received_def)
  have n: "length (pread (dl_file b) (job_start j) ?n) = ?n" using assms(3,6,7) by (simp add: pread_length)
  then have "good_answer (job_start j) (job_end j) (length F) resp"
    using r(2,3) by (auto simp: good_answer_def check_status_def split: if_splits)
  then have "take ?n (body_of (rr_stream resp)) = pread F (job_start j) ?n"
    using assms(1,3) r(1) by (simp add: upstream_serves_def)
  then show ?thesis using r(3) n by simp
qed

lemma worker_step_file:
  assumes "worker_step ob pc b = (pc', b')" "\<And>j attempt evs data rest off. pc \<noteq> Writing j attempt evs data rest off"
  shows "dl_file b' = dl_file b"
proof (cases pc)
  case (Claiming p c)
  then show ?thesis using assms(1)
    by (cases c) (auto simp: on_claim_def claim_load_def claim_cas_def claim_push_def Let_def split: if_splits option.splits)
qed (use assms in \<open>auto simp: worker_handlers mark_state_def mark_count_def split: option.splits if_splits\<close>)

text \<open>The bytes of a worker after its own step.\<close>

lemma received_written:
  assumes "received ua etag up b j off (data @ todo)" "off + length data \<le> length (dl_file b)"
    and "off + length data \<le> job_end j" "n \<le> length data"
  shows "received ua etag up (b\<lparr>dl_file := pwrite (dl_file b) off (take n data)\<rparr>) j (off + n) (drop n data @ todo)"
proof -
  let ?f = "pwrite (dl_file b) off (take n data)"
  have off: "job_start j \<le> off" using assms(1) by (simp add: received_def)
  have "pread ?f (job_start j) (off - job_start j + n) = pread ?f (job_start j) (off - job_start j) @ pread ?f off n"
    unfolding pread_add using off by simp
  moreover have "pread ?f off n = take n data" using pread_pwrite_same [of "dl_file b" off "take n data"] assms(4) by simp
  moreover have "pread ?f (job_start j) (off - job_start j) = pread (dl_file b) (job_start j) (off - job_start j)"
    using assms(2) off by (intro pread_pwrite_outside) auto
  ultimately have "pread ?f (job_start j) (off + n - job_start j) @ drop n data @ todo
      = pread (dl_file b) (job_start j) (off - job_start j) @ data @ todo"
    using off by simp
  then show ?thesis using assms off by (auto simp: received_def)
qed

lemma worker_step_own:
  assumes serves: "upstream_serves ua etag F up" and obs: "obs_ok ua etag up pc ob"
    and step: "worker_step ob pc b = (pc', b')" and own: "task_bytes ua etag up F b pc"
    and len: "total_size b = length F" "length (dl_file b) = length F"
    and job: "\<And>j. holds pc = Some j \<Longrightarrow> job_start j < job_end j \<and> job_end j \<le> length F"
  shows "task_bytes ua etag up F b' pc'"
proof -
  have after: "task_bytes ua etag up F b (after_body j attempt off)"
    if "received ua etag up b j off todo" "holds pc = Some j" for j attempt off todo
    using received_whole [OF serves that(1)] job [OF that(2)] len
    by (auto simp: after_body_def retry_or_end_def task_bytes_def)
  show ?thesis
  proof (cases pc)
    case (Claiming p c)
    then show ?thesis using step by (auto simp: on_claim_def task_bytes_def split: claim_pc.splits option.splits prod.splits)
  next
    case (Sending j attempt l)
    then show ?thesis using step obs job [of j]
      by (auto simp: obs_ok_def on_response_def retry_or_end_def task_bytes_def received_def pread_def
          split: sum.splits option.splits)
  next
    case (Reading j attempt evs off)
    then have r: "received ua etag up b j off (body_of evs)" using own by (simp add: task_bytes_def)
    show ?thesis
    proof (cases evs)
      case Nil
      then show ?thesis using after [OF r, of attempt] step Reading by (auto simp: on_item_def)
    next
      case (Cons ev rest)
      then show ?thesis using r step Reading
        by (cases ev) (auto simp: on_item_def retry_or_end_def task_bytes_def split: if_splits)
    qed
  next
    case (Chunking j attempt evs rest off)
    then have r: "received ua etag up b j off (rest @ body_of evs)" using own by (simp add: task_bytes_def)
    have whole: "take k rest @ drop k rest @ body_of evs = rest @ body_of evs" for k
      by (metis append_assoc append_take_drop_id)
    show ?thesis
    proof (cases "rest = [] \<or> job_end j - off = 0")
      case True
      then show ?thesis using after [OF r, of attempt] r step Chunking
        by (auto simp: on_chunk_def task_bytes_reading split: if_splits)
    next
      case False
      then show ?thesis using r step Chunking
        by (auto simp: on_chunk_def Let_def task_bytes_def whole split: if_splits)
    qed
  next
    case (Writing j attempt evs data rest off)
    then have r: "received ua etag up b j off (data @ rest @ body_of evs)" "off + length data \<le> job_end j"
      using own by (simp_all add: task_bytes_def)
    then have "off + length data \<le> length (dl_file b)" using job [of j] Writing len by simp
    then show ?thesis using received_written [OF r(1) _ r(2)] r step obs Writing
      by (auto simp: on_write_def obs_ok_def task_bytes_def split: option.splits if_splits)
  qed (use step in \<open>auto simp: worker_handlers task_bytes_def split: if_splits option.splits\<close>)
qed

text \<open>No other task and no ready segment notices a step of a worker.\<close>

lemma worker_step_elsewhere:
  assumes step: "worker_step ob pc b = (pc', b')" and obs: "obs_ok ua etag up pc ob"
    and own: "task_bytes ua etag up F b pc" and len: "length (dl_file b) = length F"
    and job: "\<And>j. holds pc = Some j \<Longrightarrow> job_end j \<le> length F \<and> (s + n \<le> job_start j \<or> job_end j \<le> s)"
  shows "pread (dl_file b') s n = pread (dl_file b) s n"
proof (cases "\<exists>j attempt evs data rest off. pc = Writing j attempt evs data rest off")
  case False
  then show ?thesis using worker_step_file [OF step] by simp
next
  case True
  then obtain j attempt evs data rest off where pc: "pc = Writing j attempt evs data rest off" by blast
  then have j: "job_start j \<le> off" "off + length data \<le> job_end j"
    using own by (simp_all add: task_bytes_def received_def)
  have "pread (pwrite (dl_file b) off (take k data)) s n = pread (dl_file b) s n" for k
    using j job [of j] pc len by (intro pread_pwrite_outside) auto
  then show ?thesis using step pc by (auto simp: on_write_def split: option.splits if_splits)
qed

lemma worker_step_length:
  assumes "worker_step ob pc b = (pc', b')" "task_bytes ua etag up F b pc" "length (dl_file b) = length F"
    and "\<And>j. holds pc = Some j \<Longrightarrow> job_end j \<le> length F"
  shows "length (dl_file b') = length F"
proof (cases "\<exists>j attempt evs data rest off. pc = Writing j attempt evs data rest off")
  case False
  then show ?thesis using worker_step_file [OF assms(1)] assms(3) by simp
next
  case True
  then obtain j attempt evs data rest off where pc: "pc = Writing j attempt evs data rest off" by blast
  then have "off + length data \<le> length F" using assms(2,4) by (fastforce simp: task_bytes_def)
  then have "length (pwrite (dl_file b) off (take k data)) = length F" for k using assms(3) by auto
  then show ?thesis using assms(1,3) pc by (auto simp: on_write_def simp del: length_pwrite split: option.splits if_splits)
qed

lemma worker_step_bytes:
  assumes serves: "upstream_serves ua etag F up" and ranges: "ranges_ok b ts" and jobs: "jobs_ok b ts"
    and bytes: "bytes_ok ua etag up F b ts" and i: "i < length ts" and obs: "obs_ok ua etag up (ts ! i) ob"
    and step: "worker_step ob (ts ! i) b = (pc, b')"
  shows "bytes_ok ua etag up F b' (ts[i := pc])"
proof -
  have len: "length (dl_file b) = length F" "total_size b = length F"
    and own: "task_bytes ua etag up F b (ts ! i)"
    using bytes i by (simp_all add: bytes_ok_def)
  have job: "job_start j < job_end j \<and> job_end j \<le> length F" if "k < length ts" "holds (ts ! k) = Some j" for k j
    using segments_apart(1,2) [OF ranges jobs_okD(1) [OF jobs that]] jobs_okD(2) [OF jobs that] len(2) by simp
  note same = worker_step_elsewhere [OF step obs own len(1)]
  have "task_bytes ua etag up F b' (ts ! k)" if k: "k < length ts" "k \<noteq> i" for k
  proof (rule task_bytes_local [OF _ worker_step_total [OF step]])
    show "task_bytes ua etag up F b (ts ! k)" using bytes k by (simp add: bytes_ok_def)
    fix l n assume l: "holds (ts ! k) = Some l" "n \<le> job_end l - job_start l"
    show "pread (dl_file b') (job_start l) n = pread (dl_file b) (job_start l) n"
    proof (rule same)
      fix j assume j: "holds (ts ! i) = Some j"
      have "job_id j \<noteq> job_id l" using jobs_okD(3) [OF jobs i j k(1)] k(2) l(1) by auto
      then have "job_end j \<le> job_start l \<or> job_end l \<le> job_start j"
        using segments_apart(3) [OF ranges jobs_okD(1) [OF jobs i j] jobs_okD(1) [OF jobs k(1) l(1)]]
          jobs_okD(2) [OF jobs i j] jobs_okD(2) [OF jobs k(1) l(1)] by simp
      then show "job_end j \<le> length F \<and> (job_start l + n \<le> job_start j \<or> job_end j \<le> job_start l)"
        using job [OF i j] job [OF k(1) l(1)] l(2) by auto
    qed
  qed
  moreover have "task_bytes ua etag up F b' pc"
    using worker_step_own [OF serves obs step own len(2,1)] job [OF i] by blast
  ultimately have tasks: "\<forall>pc' \<in> set (ts[i := pc]). task_bytes ua etag up F b' pc'"
    using i by (auto simp: set_conv_nth nth_list_update)
  have old: "pread (dl_file b') (sg_start sg) (sg_end sg - sg_start sg) = pread F (sg_start sg) (sg_end sg - sg_start sg)"
    if sg: "sg \<in> set (segments b)" "sg_state sg = Ready" for sg
  proof -
    obtain m where m: "m < length (segments b)" "sg = segments b ! m" using sg(1) by (auto simp: in_set_conv_nth)
    have "pread (dl_file b') (sg_start sg) (sg_end sg - sg_start sg) = pread (dl_file b) (sg_start sg) (sg_end sg - sg_start sg)"
    proof (rule same)
      fix j assume j: "holds (ts ! i) = Some j"
      have "job_id j \<noteq> m" using jobs_okD(2) [OF jobs i j] m sg(2) by auto
      then have "job_end j \<le> sg_start sg \<or> sg_end sg \<le> job_start j"
        using segments_apart(3) [OF ranges jobs_okD(1) [OF jobs i j] m(1)] jobs_okD(2) [OF jobs i j] m(2) by simp
      then show "job_end j \<le> length F \<and> (sg_start sg + (sg_end sg - sg_start sg) \<le> job_start j \<or> job_end j \<le> sg_start sg)"
        using job [OF i j] segments_apart(1) [OF ranges m(1)] m(2) by auto
    qed
    then show ?thesis using bytes sg by (simp add: bytes_ok_def)
  qed
  have "pread (dl_file b') (sg_start sg) (sg_end sg - sg_start sg) = pread F (sg_start sg) (sg_end sg - sg_start sg)"
    if sg: "sg \<in> set (segments b')" "sg_state sg = Ready" for sg
    using worker_step_segments [OF step]
  proof (elim disjE exE)
    fix p s e assume "ts ! i = Claiming p (Won s e)"
    then show ?thesis using worker_step_push [of ob p s e b pc b'] step sg old by auto
  next
    fix j assume j: "ts ! i = Marking j"
    have f: "dl_file b' = dl_file b" using worker_step_file [OF step] j by simp
    have id: "job_id j < length (segments b)" "sg_start (segments b ! job_id j) = job_start j" "sg_end (segments b ! job_id j) = job_end j"
      using jobs_okD(1,2) [OF jobs i, of j] j by auto
    then have "sg \<in> set (segments b) \<or> sg = (segments b ! job_id j)\<lparr>sg_state := Ready\<rparr>"
      using sg(1) j step set_update_subset_insert by (fastforce simp: on_mark_def mark_state_def)
    then show ?thesis using old sg(2) own j id f by (auto simp: task_bytes_def)
  next
    assume "segments b' = segments b"
    then show ?thesis using old sg by simp
  qed
  then show ?thesis
    using tasks worker_step_length [OF step own len(1)] job [OF i] worker_step_total [OF step] len(2)
    by (auto simp: bytes_ok_def)
qed

subsection \<open>The supervisor and its tasks\<close>

definition failed_task :: "worker_pc \<Rightarrow> bool" where
  "failed_task pc \<longleftrightarrow> (case pc of Panicked \<Rightarrow> True | Ended (Inl e) \<Rightarrow> True | _ \<Rightarrow> False)"

lemma failed_task_iff: "failed_task pc \<longleftrightarrow> pc = Panicked \<or> (\<exists>e. pc = Ended (Inl e))"
  by (simp add: failed_task_def split: worker_pc.split sum.split)

text \<open>The supervisor counts its tasks, and knows of each end that it has not joined yet.\<close>

definition end_known :: "worker_pc list \<Rightarrow> task_end \<Rightarrow> bool" where
  "end_known ts t \<longleftrightarrow> (case t of Task_returned r \<Rightarrow> Ended r \<in> set ts | Task_panicked \<Rightarrow> Panicked \<in> set ts)"

lemma end_known_simps [simp]:
  "end_known ts (Task_returned r) = (Ended r \<in> set ts)" "end_known ts Task_panicked = (Panicked \<in> set ts)"
  by (simp_all add: end_known_def)

lemma end_known_append: "end_known ts t \<Longrightarrow> end_known (ts @ us) t"
  by (auto simp: end_known_def split: task_end.splits)

definition tasks_ok :: "nat \<Rightarrow> supervisor \<Rightarrow> worker_pc list \<Rightarrow> bool" where
  "tasks_ok num s ts \<longleftrightarrow>
     sv_spawned s = length ts \<and> length ts \<le> num \<and> (0 < num \<longrightarrow> ts \<noteq> [])
     \<and> sv_running s = length (filter live ts)
     \<and> (\<forall>t \<in> set (sv_ended s). end_known ts t)
     \<and> outcome_ok s
     \<and> (\<forall>e. sv_phase s = supervisor_phase.Returned (Inl e) \<longrightarrow> e = Dl_buffer_failed \<or> Ended (Inl e) \<in> set ts)"

text \<open>A segment that is not ready is held by a worker, unless one has failed; a worker that has ended
  without an error has seen the end of the file.\<close>

definition work_ok :: "segments_buffer \<Rightarrow> worker_pc list \<Rightarrow> bool" where
  "work_ok b ts \<longleftrightarrow>
     (\<forall>m < length (segments b). sg_state (segments b ! m) = Downloading \<longrightarrow>
        (\<exists>pc \<in> set ts. \<exists>j. holds pc = Some j \<and> job_id j = m) \<or> (\<exists>pc \<in> set ts. failed_task pc))
     \<and> (Ended (Inr ()) \<in> set ts \<longrightarrow> all_assigned b)"

text \<open>A worker keeps its job, marks its segment, or fails.\<close>

lemma worker_step_progress:
  assumes "worker_step ob pc b = (pc', b')" "size_ok pc" "live pc"
    and job: "\<And>j. holds pc = Some j \<Longrightarrow> job_id j < length (segments b)"
  shows "failed_task pc' \<or> holds pc' = holds pc \<or> holds pc = None
      \<or> (\<exists>j. holds pc = Some j \<and> sg_state (segments b' ! job_id j) = Ready)"
    and "all_assigned b \<longrightarrow> all_assigned b'" "pc' = Ended (Inr ()) \<Longrightarrow> all_assigned b'"
proof -
  show "failed_task pc' \<or> holds pc' = holds pc \<or> holds pc = None
      \<or> (\<exists>j. holds pc = Some j \<and> sg_state (segments b' ! job_id j) = Ready)"
  proof (cases pc)
    case (Reading j attempt evs off)
    then show ?thesis using assms(1)
      by (cases evs rule: list.exhaust; cases "hd evs") (auto simp: failed_task_def worker_handlers split: if_splits)
  next
    case (Marking j)
    then show ?thesis using assms(1) job [of j] by (auto simp: on_mark_def mark_state_def split: if_splits)
  qed (use assms(1) in \<open>auto simp: failed_task_def worker_handlers split: option.splits sum.splits if_splits\<close>)
  show "all_assigned b \<longrightarrow> all_assigned b'"
  proof (cases pc)
    case (Claiming p c)
    then show ?thesis using assms(1)
      by (cases c) (auto simp: on_claim_def claim_load_def claim_cas_def claim_push_def Let_def split: if_splits option.splits)
  qed (use worker_step_keeps(3) [OF assms(1)] in auto)
  show "pc' = Ended (Inr ()) \<Longrightarrow> all_assigned b'"
  proof (cases pc)
    case (Claiming p c)
    then show "pc' = Ended (Inr ()) \<Longrightarrow> all_assigned b'" using assms(1,2)
      by (cases c) (auto simp: size_ok_def on_claim_def claim_load_def claim_cas_def claim_push_def Let_def split: if_splits)
  next
    case (Reading j attempt evs off)
    then show "pc' = Ended (Inr ()) \<Longrightarrow> all_assigned b'" using assms(1)
      by (cases evs rule: list.exhaust; cases "hd evs") (auto simp: worker_handlers split: if_splits)
  qed (use assms(1,3) in \<open>auto simp: worker_handlers split: option.splits sum.splits if_splits\<close>)
qed

lemma worker_step_work:
  assumes work: "work_ok b ts" and jobs: "jobs_ok b ts" and i: "i < length ts" and "size_ok (ts ! i)" "live (ts ! i)"
    and step: "worker_step ob (ts ! i) b = (pc, b')"
  shows "work_ok b' (ts[i := pc])"
proof -
  have id: "job_id j < length (segments b)" if "holds (ts ! i) = Some j" for j using jobs_okD(1) [OF jobs i that] .
  note p = worker_step_progress [OF step assms(4,5) id]
  have others: "ts ! k \<in> set (ts[i := pc])" if "k < length ts" "k \<noteq> i" for k
    using that by (metis length_list_update nth_list_update_neq nth_mem)
  have me: "pc \<in> set (ts[i := pc])" using i by (simp add: set_update_memI)
  have fail: "\<exists>x \<in> set (ts[i := pc]). failed_task x" if x: "x \<in> set ts" "failed_task x" for x
  proof -
    obtain k where k: "k < length ts" "ts ! k = x" using x(1) by (auto simp: in_set_conv_nth)
    then have "k \<noteq> i" using x(2) assms(5) by (auto simp: failed_task_def split: worker_pc.splits)
    then show ?thesis using others [OF k(1)] k(2) x(2) by blast
  qed
  have held: "(\<exists>x \<in> set (ts[i := pc]). \<exists>j. holds x = Some j \<and> job_id j = m) \<or> (\<exists>x \<in> set (ts[i := pc]). failed_task x)"
    if m: "m < length (segments b)" "sg_state (segments b ! m) = Downloading" "sg_state (segments b' ! m) \<noteq> Ready" for m
  proof -
    consider (failed) x where "x \<in> set ts" "failed_task x" | (at_work) x j where "x \<in> set ts" "holds x = Some j" "job_id j = m"
      using work m(1,2) by (auto simp: work_ok_def)
    then show ?thesis
    proof cases
      case failed
      then show ?thesis using fail by blast
    next
      case at_work
      obtain k where k: "k < length ts" "ts ! k = x" using at_work(1) by (auto simp: in_set_conv_nth)
      show ?thesis
      proof (cases "k = i")
        case True
        then show ?thesis using p(1) k at_work m(3) me by auto
      next
        case False
        then show ?thesis using others [OF k(1)] k at_work by auto
      qed
    qed
  qed
  have "(\<exists>x \<in> set (ts[i := pc]). \<exists>j. holds x = Some j \<and> job_id j = m) \<or> (\<exists>x \<in> set (ts[i := pc]). failed_task x)"
    if m: "m < length (segments b')" "sg_state (segments b' ! m) = Downloading" for m
    using worker_step_segments [OF step]
  proof (elim disjE exE)
    fix q s e assume q: "ts ! i = Claiming q (Won s e)"
    note w = worker_step_push [OF step [unfolded q]]
    show ?thesis
    proof (cases "m < length (segments b)")
      case True
      then show ?thesis using held [OF True] m(2) w by (simp add: nth_append)
    next
      case False
      then have "holds pc = Some \<lparr>job_id = m, job_start = s, job_end = e, job_pref = q\<rparr>" using m(1) w by simp
      then show ?thesis using me 
        by (intro disjI1 bexI [of _ pc] exI [of _ "\<lparr>job_id = m, job_start = s, job_end = e, job_pref = q\<rparr>"] conjI) simp_all
    qed
  next
    fix j assume "ts ! i = Marking j"
    then have "b' = mark_state (job_id j) b \<or> b' = b" using step by (auto simp: on_mark_def split: if_splits)
    then show ?thesis
    proof
      assume b': "b' = mark_state (job_id j) b"
      then have "m < length (segments b)" "m \<noteq> job_id j" using m by (auto simp: mark_state_def)
      then show ?thesis using held [of m] m(2) b' by (simp add: mark_state_def)
    qed (use held [of m] m in simp)
  next
    assume "segments b' = segments b"
    then show ?thesis using held [of m] m by simp
  qed
  moreover have "all_assigned b'" if "Ended (Inr ()) \<in> set (ts[i := pc])"
    using that p(2,3) work set_update_subset_insert [of ts i pc] by (auto simp: work_ok_def)
  ultimately show ?thesis by (simp add: work_ok_def)
qed

lemma worker_step_tasks:
  assumes tasks: "tasks_ok num (pd_sup d) (pd_tasks d)" and i: "i < length (pd_tasks d)" and alive: "live (pd_tasks d ! i)"
    and phase: "\<And>r. sv_phase (pd_sup d) = supervisor_phase.Returned r \<Longrightarrow> no_tasks (pd_sup d) \<or> (\<exists>e. r = Inl e \<and> is_fatal e)"
  shows "tasks_ok num (pd_sup (pd_worked i pc b d)) (pd_tasks (pd_worked i pc b d))"
proof -
  let ?s = "pd_sup d" and ?ts = "pd_tasks d" and ?ts' = "(pd_tasks d)[i := pc]"
  have run: "sv_running ?s = length (filter live ?ts)" using tasks by (simp add: tasks_ok_def)
  have "0 < length (filter live ?ts)" using nth_mem [OF i] alive by (auto simp: filter_empty_conv)
  then have busy: "\<not> no_tasks ?s" using run by (simp add: no_tasks_def)
  let ?s' = "tell (?ts ! i) pc (?s\<lparr>sv_buffer := b\<rparr>)"
  have fields: "sv_spawned ?s' = sv_spawned ?s" "sv_phase ?s' = sv_phase ?s"
    "sv_running ?s' = (if live pc then sv_running ?s else sv_running ?s - 1)"
    "set (sv_ended ?s') \<subseteq> set (sv_ended ?s) \<union> (case pc of Ended r \<Rightarrow> {Task_returned r} | Panicked \<Rightarrow> {Task_panicked} | _ \<Rightarrow> {})"
    by (auto simp: tell_def task_returns_def task_panics_def Let_def split: worker_pc.splits)
  have "sv_running ?s' = length (filter live ?ts')"
    using filter_update [OF i, of live pc] fields(3) run alive by (cases "live pc") auto
  moreover have "outcome_ok ?s'"
    using tasks phase busy fields(2) by (fastforce simp: tasks_ok_def outcome_ok_def split: supervisor_phase.splits sum.splits)
  moreover have keep: "x \<in> set ?ts'" if x: "x \<in> set ?ts" "\<not> live x" for x
  proof -
    obtain k where k: "k < length ?ts" "?ts ! k = x" using x(1) by (auto simp: in_set_conv_nth)
    then have "k \<noteq> i" using x(2) alive by auto
    then show ?thesis using k by (metis length_list_update nth_list_update_neq nth_mem)
  qed
  moreover have "end_known ?ts' t"
    if "t \<in> set (sv_ended ?s')" for t
  proof (cases "t \<in> set (sv_ended ?s)")
    case True
    then show ?thesis using tasks keep by (auto simp: tasks_ok_def end_known_def split: task_end.splits)
  next
    case False
    then have "t \<in> (case pc of Ended r \<Rightarrow> {Task_returned r} | Panicked \<Rightarrow> {Task_panicked} | _ \<Rightarrow> {})"
      using that fields(4) by blast
    then show ?thesis using set_update_memI [OF i, of pc] by (auto simp: end_known_def split: worker_pc.splits)
  qed
  moreover have "e = Dl_buffer_failed \<or> Ended (Inl e) \<in> set ?ts'" if "sv_phase ?s = supervisor_phase.Returned (Inl e)" for e
    using tasks keep that by (auto simp: tasks_ok_def)
  ultimately show ?thesis using tasks fields i by (auto simp: tasks_ok_def pd_worked_def)
qed

text \<open>A move of the supervisor adds tasks at their first poll, or returns for a reason.\<close>

lemma supervise_tasks:
  assumes "supervise num (pd_sup d) s" "tasks_ok num (pd_sup d) (pd_tasks d)"
  shows "tasks_ok num s (pd_tasks (pd_supervised s d))" "sv_buffer s = pd_buffer d"
    "\<exists>k. pd_tasks (pd_supervised s d) = pd_tasks d @ replicate k first_poll"
proof -
  show "sv_buffer s = pd_buffer d" using assms(1)
    by (elim superviseE) (auto simp: sup_handlers split: task_end.split sum.split)
  show "\<exists>k. pd_tasks (pd_supervised s d) = pd_tasks d @ replicate k first_poll" by (auto simp: pd_supervised_def)
  show "tasks_ok num s (pd_tasks (pd_supervised s d))" using assms(1)
  proof (cases rule: supervise.cases)
    case sv_signal
    then show ?thesis using assms(2)
      by (auto simp: tasks_ok_def outcome_ok_def pd_supervised_def sup_handlers first_poll_def end_known_append)
  next
    case (sv_join xs t ys)
    then show ?thesis using assms(2)
      by (auto simp: tasks_ok_def outcome_ok_def pd_supervised_def sup_handlers split: task_end.splits sum.splits)
  next
    case sv_join_none
    then show ?thesis using assms(2) by (auto simp: tasks_ok_def outcome_ok_def pd_supervised_def sup_handlers)
  next
    case (sv_drain xs t ys)
    then show ?thesis using assms(2)
      by (auto simp: tasks_ok_def outcome_ok_def pd_supervised_def sup_handlers split: task_end.splits sum.splits)
  next
    case sv_drain_none
    then show ?thesis using assms(2) by (auto simp: tasks_ok_def outcome_ok_def pd_supervised_def sup_handlers)
  qed
qed

subsection \<open>Every reachable state\<close>

definition par_inv ::
    "string option \<Rightarrow> string option \<Rightarrow> (range_request \<Rightarrow> range_answer \<Rightarrow> bool) \<Rightarrow> nat \<Rightarrow> nat \<Rightarrow> parallel_download
       \<Rightarrow> bool" where
  "par_inv ua etag up num n d \<longleftrightarrow>
     ranges_ok (pd_buffer d) (pd_tasks d) \<and> jobs_ok (pd_buffer d) (pd_tasks d)
     \<and> work_ok (pd_buffer d) (pd_tasks d) \<and> tasks_ok num (pd_sup d) (pd_tasks d) \<and> total_size (pd_buffer d) = n
     \<and> (\<forall>F. length F = n \<longrightarrow> upstream_serves ua etag F up \<longrightarrow> bytes_ok ua etag up F (pd_buffer d) (pd_tasks d))"

lemma first_poll_simps [simp]:
  "holds first_poll = None" "counts first_poll = False" "live first_poll" "size_ok first_poll"
  "claim_view first_poll = claim_pc.Returned None" "\<not> failed_task first_poll"
  "task_bytes ua etag up F b first_poll"
  by (simp_all add: first_poll_def counts_def size_ok_def claim_view_def failed_task_def task_bytes_def
      initial_segment_size_def)

text \<open>Tasks at their first poll, or a task that stops where it is, change nothing for the others.\<close>

lemma inv_spawn:
  "ranges_ok b ts \<Longrightarrow> ranges_ok b (ts @ replicate k first_poll)"
  "jobs_ok b ts \<Longrightarrow> jobs_ok b (ts @ replicate k first_poll)"
  "work_ok b ts \<Longrightarrow> work_ok b (ts @ replicate k first_poll)"
  "bytes_ok ua etag up F b ts \<Longrightarrow> bytes_ok ua etag up F b (ts @ replicate k first_poll)"
proof -
  show "ranges_ok b ts \<Longrightarrow> ranges_ok b (ts @ replicate k first_poll)"
    by (auto simp: ranges_ok_def sys_inv_def held_ranges_def loaded_ok_def map_replicate_const)
  show "jobs_ok b (ts @ replicate k first_poll)" if "jobs_ok b ts"
  proof -
    have "holds ((ts @ replicate k first_poll) ! m) = Some j \<longleftrightarrow> m < length ts \<and> holds (ts ! m) = Some j"
      if "m < length (ts @ replicate k first_poll)" for m j
      using that by (auto simp: nth_append)
    then show ?thesis using that unfolding jobs_ok_def by auto
  qed
  show "work_ok b ts \<Longrightarrow> work_ok b (ts @ replicate k first_poll)"
    by (auto simp: work_ok_def first_poll_def bex_Un)
  show "bytes_ok ua etag up F b ts \<Longrightarrow> bytes_ok ua etag up F b (ts @ replicate k first_poll)"
    by (auto simp: bytes_ok_def)
qed

lemma inv_panic:
  assumes "may_panic (ts ! i)" "i < length ts"
  shows "ranges_ok b ts \<Longrightarrow> ranges_ok b (ts[i := Panicked])"
    and "jobs_ok b ts \<Longrightarrow> jobs_ok b (ts[i := Panicked])"
    and "work_ok b ts \<Longrightarrow> work_ok b (ts[i := Panicked])"
    and "bytes_ok ua etag up F b ts \<Longrightarrow> bytes_ok ua etag up F b (ts[i := Panicked])"
proof -
  have pc: "claim_view (ts ! i) = claim_pc.Returned None" "\<not> counts (ts ! i)"
    using assms(1) by (cases "ts ! i"; simp add: claim_view_def counts_def)+
  have sub: "set (ts[i := Panicked]) \<subseteq> insert Panicked (set ts)" by (rule set_update_subset_insert)
  show "ranges_ok b (ts[i := Panicked])" if r: "ranges_ok b ts"
  proof -
    have "size_ok Panicked" by (simp add: size_ok_def)
    moreover have "sys_inv \<lparr>shared = b, workers = (map claim_view ts)[i := claim_pc.Returned None]\<rparr>"
      using r assms(2) pc(1) by (intro sys_inv_update) (auto simp: ranges_ok_def loaded_ok_def)
    ultimately show ?thesis using r sub by (auto simp: ranges_ok_def map_update claim_view_def)
  qed
  show "jobs_ok b (ts[i := Panicked])" if "jobs_ok b ts"
  proof -
    have "length (filter counts (ts[i := Panicked])) = length (filter counts ts)"
      using filter_update [OF assms(2), of counts Panicked] pc(2) by (simp add: counts_def)
    moreover have "holds (ts[i := Panicked] ! m) = Some j \<longleftrightarrow> m \<noteq> i \<and> holds (ts ! m) = Some j" if "m < length ts" for m j
      using that assms(2) by (cases "m = i") simp_all
    ultimately show ?thesis using that unfolding jobs_ok_def by auto
  qed
  have "Panicked \<in> set (ts[i := Panicked])" "failed_task Panicked"
    using assms(2) by (simp_all add: set_update_memI failed_task_def)
  then show "work_ok b ts \<Longrightarrow> work_ok b (ts[i := Panicked])" using sub by (auto simp: work_ok_def)
  show "bytes_ok ua etag up F b ts \<Longrightarrow> bytes_ok ua etag up F b (ts[i := Panicked])"
    using sub by (auto simp: bytes_ok_def task_bytes_def)
qed

lemma par_init_inv:
  assumes "length f = n"
  shows "par_inv ua etag up num n (pd_start num ((new_buffer n f path)\<lparr>meta := m\<rparr>))"
proof -
  let ?b = "(new_buffer n f path)\<lparr>meta := m\<rparr>"
  have empty: "ranges_ok ?b []" "jobs_ok ?b []" "work_ok ?b []"
    by (auto simp: ranges_ok_def jobs_ok_def work_ok_def sys_inv_def held_ranges_def new_buffer_def count_ready_def
        intro!: exI [of _ "[]"])
  note inv = inv_spawn(1) [OF empty(1)] inv_spawn(2) [OF empty(2)] inv_spawn(3) [OF empty(3)]
  have bytes: "bytes_ok ua etag up F ?b []" if "length F = n" for F
    using that assms by (simp add: bytes_ok_def new_buffer_def)
  have s: "sv_buffer (start_download num ?b) = ?b" "total_size ?b = n"
    by (cases num; simp add: start_download_def initial_worker_count_def spawn_one_worker_def) (simp add: new_buffer_def)
  have "tasks_ok num (start_download num ?b) (replicate (sv_spawned (start_download num ?b)) first_poll)"
    by (cases num) (auto simp: tasks_ok_def outcome_ok_def start_download_def initial_worker_count_def spawn_one_worker_def)
  then show ?thesis
    using inv inv_spawn(4) [OF bytes] s by (simp add: par_inv_def pd_start_def Let_def)
qed

lemma tell_buffer [simp]: "sv_buffer (tell pc pc' s) = sv_buffer s"
  by (simp add: tell_def task_returns_def task_panics_def Let_def split: worker_pc.split)

lemma par_step_inv:
  assumes "par_step ua etag up num d d'" "par_inv ua etag up num n d"
  shows "par_inv ua etag up num n d'"
proof -
  let ?b = "pd_buffer d" and ?ts = "pd_tasks d"
  have inv: "ranges_ok ?b ?ts" "jobs_ok ?b ?ts" "work_ok ?b ?ts" "tasks_ok num (pd_sup d) ?ts" "total_size ?b = n"
    and bytes: "\<And>F. length F = n \<Longrightarrow> upstream_serves ua etag F up \<Longrightarrow> bytes_ok ua etag up F ?b ?ts"
    using assms(2) by (auto simp: par_inv_def)
  have phase: "no_tasks (pd_sup d) \<or> (\<exists>e. r = Inl e \<and> is_fatal e)"
    if "sv_phase (pd_sup d) = supervisor_phase.Returned r" for r
    using inv(4) that by (auto simp: tasks_ok_def outcome_ok_def split: sum.splits)
  have worked: "tasks_ok num (pd_sup (pd_worked i pc b d)) (?ts[i := pc])" if "i < length ?ts" "live (?ts ! i)" for i pc b
    using worker_step_tasks [OF inv(4) that phase] by (simp add: pd_worked_def)
  from assms(1) show ?thesis
  proof (cases rule: par_step.cases)
    case (par_supervise s)
    note sv = supervise_tasks [OF par_supervise(2) inv(4)]
    obtain k where k: "pd_tasks (pd_supervised s d) = ?ts @ replicate k first_poll" using sv(3) by blast
    have "pd_sup (pd_supervised s d) = s" by (simp add: pd_supervised_def)
    then show ?thesis
      using sv(1,2) inv inv_spawn(1-3) [of ?b ?ts k] inv_spawn(4) [OF bytes, of _ k] k par_supervise(1) by (simp add: par_inv_def)
  next
    case (par_work i ob pc b)
    have size: "size_ok (?ts ! i)" using inv(1) par_work(2) by (simp add: ranges_ok_def)
    have "pd_buffer d' = b" "pd_tasks d' = ?ts[i := pc]" using par_work(1) by (simp_all add: pd_worked_def)
    moreover have "bytes_ok ua etag up F b (?ts[i := pc])" if "length F = n" "upstream_serves ua etag F up" for F
      by (rule worker_step_bytes [OF that(2) inv(1,2) bytes [OF that] par_work(2,4,5)])
    ultimately show ?thesis
      using worker_step_ranges [OF inv(1) par_work(2,5)] worker_step_jobs [OF inv(2) par_work(2) size par_work(5)]
        worker_step_work [OF inv(3,2) par_work(2) size par_work(3,5)] worked [OF par_work(2,3), of pc b]
        worker_step_total [OF par_work(5)] inv(5) par_work(1)
      by (simp add: par_inv_def)
  next
    case (par_panic i)
    have "live (?ts ! i)" using par_panic(3) by (cases "?ts ! i") simp_all
    note w = worked [OF par_panic(2) this, of Panicked ?b]
    have "pd_buffer d' = ?b" "pd_tasks d' = ?ts[i := Panicked]" using par_panic(1) by (simp_all add: pd_worked_def)
    then show ?thesis using inv_panic(1-3) [OF par_panic(3,2)] inv_panic(4) [OF par_panic(3,2) bytes] inv w par_panic(1)
      by (simp add: par_inv_def)
  qed
qed

lemma par_reach_inv: "par_reach ua etag up num n d \<Longrightarrow> par_inv ua etag up num n d"
  by (induction rule: par_reach.induct) (auto intro: par_init_inv par_step_inv)

text \<open>When no task is left, the segments are the whole of what has been given out.\<close>

lemma all_ended:
  assumes "par_inv ua etag up num n d" "no_tasks (pd_sup d)"
  shows "\<forall>pc \<in> set (pd_tasks d). \<not> live pc" "ready_count (pd_buffer d) = count_ready (segments (pd_buffer d))"
    and "\<exists>rs. chain 0 rs (next_unassigned (pd_buffer d)) \<and> mset rs = mset (map sg_range (segments (pd_buffer d)))"
proof -
  let ?b = "pd_buffer d" and ?ts = "pd_tasks d"
  show dead: "\<forall>pc \<in> set ?ts. \<not> live pc"
    using assms by (auto simp: par_inv_def tasks_ok_def no_tasks_def filter_empty_conv)
  then have "\<forall>pc \<in> set ?ts. \<not> counts pc \<and> claim_view pc = claim_pc.Returned None"
    by (force simp: counts_def claim_view_def split: worker_pc.splits)
  then have "filter counts ?ts = []" and "\<Sum>\<^sub># (mset (map won_range (map claim_view ?ts))) = {#}"
    by (auto simp: filter_empty_conv intro!: sum_mset.neutral)
  then show "ready_count ?b = count_ready (segments ?b)"
    and "\<exists>rs. chain 0 rs (next_unassigned ?b) \<and> mset rs = mset (map sg_range (segments ?b))"
    using assms(1) by (auto simp: par_inv_def jobs_ok_def ranges_ok_def sys_inv_def held_ranges_def)
qed

lemma complete_file:
  assumes inv: "par_inv ua etag up num (length F) d" and serves: "upstream_serves ua etag F up"
    and none: "no_tasks (pd_sup d)" and fin: "all_completed (pd_buffer d)"
  shows "dl_file (pd_buffer d) = F"
proof -
  let ?b = "pd_buffer d"
  note e = all_ended [OF inv none]
  have bytes: "bytes_ok ua etag up F ?b (pd_tasks d)" using inv serves by (simp add: par_inv_def)
  obtain rs where rs: "chain 0 rs (next_unassigned ?b)" "mset rs = mset (map sg_range (segments ?b))" using e(3) by blast
  have full: "next_unassigned ?b = length F" using inv fin by (auto simp: par_inv_def ranges_ok_def all_completed_def)
  have "count_ready (segments ?b) = length (segments ?b)"
    using e(2) fin count_ready_le [of "segments ?b"] by (simp add: all_completed_def)
  then have ready: "\<forall>sg \<in> set (segments ?b). sg_state sg = Ready" using count_ready_all by blast
  show ?thesis
  proof (rule nth_equalityI)
    show "length (dl_file ?b) = length F" using bytes by (simp add: bytes_ok_def)
    fix x assume "x < length (dl_file ?b)"
    then have x: "x < length F" using bytes by (simp add: bytes_ok_def)
    have "size {#r \<in># mset rs. fst r \<le> x \<and> x < snd r#} = 1" using chain_covers [OF rs(1)] x full by simp
    then have "\<exists>r \<in># mset rs. fst r \<le> x \<and> x < snd r"
      by (metis (no_types, lifting) filter_mset_eq_mempty_iff size_empty zero_neq_one)
    then obtain sg where sg: "sg \<in> set (segments ?b)" "sg_start sg \<le> x" "x < sg_end sg"
      using rs(2) by (auto simp: sg_range_def)
    then have "pread (dl_file ?b) (sg_start sg) (sg_end sg - sg_start sg) = pread F (sg_start sg) (sg_end sg - sg_start sg)"
      using bytes ready by (simp add: bytes_ok_def)
    then have "pread (dl_file ?b) (sg_start sg) (sg_end sg - sg_start sg) ! (x - sg_start sg)
        = pread F (sg_start sg) (sg_end sg - sg_start sg) ! (x - sg_start sg)" by simp
    then show "dl_file ?b ! x = F ! x" using sg x bytes by (simp add: pread_def bytes_ok_def)
  qed
qed

end
