(* ===== verification/Parallel_Results.thy ===== *)
theory Parallel_Results
  imports Parallel_Download
begin

text \<open>
  What the invariant of the theory Parallel\_Download says of a download: what the result of
  \<open>download_multithreaded\<close> means for the file, why it fails, and that one worker alone can bring
  it to its end.
\<close>

subsection \<open>One worker of many\<close>

text \<open>What a worker does alone it can do as a task, while all others wait; its end reaches the supervisor.\<close>

lemma task_goes:
  assumes "goes ua etag up (pc, b) s" "i < length (pd_tasks d)" "pd_tasks d ! i = pc" "pd_buffer d = b" "live pc"
  shows "\<exists>d'. (par_step ua etag up num)\<^sup>*\<^sup>* d d' \<and> pd_tasks d' = (pd_tasks d)[i := fst s] \<and> pd_buffer d' = snd s
    \<and> sv_phase (pd_sup d') = sv_phase (pd_sup d) \<and> sv_spawned (pd_sup d') = sv_spawned (pd_sup d)
    \<and> (if live (fst s)
       then sv_running (pd_sup d') = sv_running (pd_sup d) \<and> sv_active (pd_sup d') = sv_active (pd_sup d)
         \<and> sv_ended (pd_sup d') = sv_ended (pd_sup d)
       else \<exists>t. sv_running (pd_sup d') = sv_running (pd_sup d) - 1 \<and> sv_active (pd_sup d') \<le> sv_active (pd_sup d)
         \<and> sv_ended (pd_sup d') = sv_ended (pd_sup d) @ [t]
         \<and> (\<forall>r. fst s = Ended r \<longrightarrow> t = Task_returned r \<and> sv_active (pd_sup d') = sv_active (pd_sup d) - 1))"
  using assms(1)
proof (induction rule: rtranclp_induct)
  case base
  have "(pd_tasks d)[i := pc] = pd_tasks d" using assms(3) by auto
  then show ?case using assms(4,5) by auto
next
  case (step s1 s2)
  then obtain d1 where d1: "(par_step ua etag up num)\<^sup>*\<^sup>* d d1" "pd_tasks d1 = (pd_tasks d)[i := fst s1]" "pd_buffer d1 = snd s1"
    "sv_phase (pd_sup d1) = sv_phase (pd_sup d)" "sv_spawned (pd_sup d1) = sv_spawned (pd_sup d)"
    "live (fst s1) \<Longrightarrow> sv_running (pd_sup d1) = sv_running (pd_sup d) \<and> sv_active (pd_sup d1) = sv_active (pd_sup d)
         \<and> sv_ended (pd_sup d1) = sv_ended (pd_sup d)" by auto
  obtain ob where ob: "obs_ok ua etag up (fst s1) ob" "worker_step ob (fst s1) (snd s1) = s2"
    using step.hyps(2) by (auto simp: solo_def)
  show ?case
  proof (cases "live (fst s1)")
    case False
    then have same: "s2 = s1" using ob(2) by (cases s1; cases "fst s1") auto
    show ?thesis unfolding same by (rule step.IH)
  next
    case True
    let ?d2 = "pd_worked i (fst s2) (snd s2) d1"
    have at: "pd_tasks d1 ! i = fst s1" "i < length (pd_tasks d1)" using d1(2) assms(2) by simp_all
    have "par_step ua etag up num d1 ?d2"
      by (rule par_work [of i d1 _ _ _ ob]) (use at True ob d1(3) in simp_all)
    then have "(par_step ua etag up num)\<^sup>*\<^sup>* d ?d2" using d1(1) by simp
    moreover have "pd_tasks ?d2 = (pd_tasks d)[i := fst s2]" by (simp add: pd_worked_def d1(2))
    moreover have "pd_buffer ?d2 = snd s2" by (simp add: pd_worked_def)
    ultimately show ?thesis using d1(4,5) d1(6) [OF True]
      by (intro exI [of _ ?d2])
        (auto simp: pd_worked_def tell_def task_returns_def task_panics_def Let_def split: worker_pc.split)
  qed
qed

lemma par_reach_steps: "(par_step ua etag up num)\<^sup>*\<^sup>* d e \<Longrightarrow> par_reach ua etag up num n d \<Longrightarrow> par_reach ua etag up num n e"
  by (induction rule: rtranclp_induct) (auto intro: par_next)

text \<open>With one connection, a worker that succeeds alone makes the download succeed.\<close>

lemma lone_run:
  assumes "goes ua etag up (first_poll, b0) (Ended (Inr ()), b)" "all_completed b"
  shows "\<exists>d. (par_step ua etag up 1)\<^sup>*\<^sup>* (pd_start 1 b0) d \<and> sv_phase (pd_sup d) = supervisor_phase.Returned (Inr ())
    \<and> pd_buffer d = b"
proof -
  let ?d0 = "pd_start 1 b0"
  have start: "pd_tasks ?d0 = [first_poll]" "pd_buffer ?d0 = b0" "sv_phase (pd_sup ?d0) = Selecting"
    "sv_running (pd_sup ?d0) = 1" "sv_active (pd_sup ?d0) = 1" "sv_ended (pd_sup ?d0) = []" "sv_spawned (pd_sup ?d0) = 1"
    by (simp_all add: pd_start_def start_download_def initial_worker_count_def spawn_one_worker_def Let_def)
  obtain d1 where d1: "(par_step ua etag up 1)\<^sup>*\<^sup>* ?d0 d1" "pd_buffer d1 = b" "sv_phase (pd_sup d1) = Selecting"
    "sv_running (pd_sup d1) = 0" "sv_active (pd_sup d1) = 0" "sv_ended (pd_sup d1) = [Task_returned (Inr ())]"
    using task_goes [OF assms(1), of 0 ?d0 1] start by auto
  let ?s1 = "on_join (Some (Task_returned (Inr ()))) (join_one [] [] (pd_sup d1))"
  let ?d2 = "pd_supervised ?s1 d1"
  have s1: "sv_phase ?s1 = Draining" "no_tasks ?s1" "sv_buffer ?s1 = b"
    using d1 by (simp_all add: sup_handlers)
  have 1: "par_step ua etag up 1 d1 ?d2"
    by (rule par_supervise, rule sv_join) (use d1 in simp_all)
  have sup2: "pd_sup ?d2 = ?s1" by (simp add: pd_supervised_def)
  have 2: "par_step ua etag up 1 ?d2 (pd_supervised (on_drain None ?s1) ?d2)"
    by (rule par_supervise, unfold sup2, rule sv_drain_none) (use s1 in simp_all)
  have "(par_step ua etag up 1)\<^sup>*\<^sup>* ?d0 (pd_supervised (on_drain None ?s1) ?d2)"
    using d1(1) 1 2 by (meson rtranclp.rtrancl_into_rtrancl)
  moreover have "pd_sup (pd_supervised (on_drain None ?s1) ?d2) = on_drain None ?s1" by (simp add: pd_supervised_def)
  ultimately show ?thesis using s1 assms(2) by (intro exI [of _ "pd_supervised (on_drain None ?s1) ?d2"]) (simp add: on_drain_def)
qed

lemma lone_download:
  assumes "goes ua etag up (first_poll, new_buffer n f path) (Ended (Inr ()), b)" "length f = n" "all_completed b"
  shows "\<exists>d. par_reach ua etag up 1 n d \<and> sv_phase (pd_sup d) = supervisor_phase.Returned (Inr ()) \<and> pd_buffer d = b"
  using lone_run [OF assms(1,3)] par_reach_steps [OF _ par_plain [OF assms(2)]] by blast

text \<open>Where the file lies and what the response's headers are makes no difference to a worker.\<close>

definition placed :: "(nat \<times> header_map) option \<Rightarrow> string \<Rightarrow> segments_buffer \<Rightarrow> segments_buffer" where
  "placed m path b = b\<lparr>meta := m, file_path := path\<rparr>"

lemma placed_fields [simp]:
  "total_size (placed m path b) = total_size b" "next_unassigned (placed m path b) = next_unassigned b"
  "segments (placed m path b) = segments b" "all_assigned (placed m path b) = all_assigned b"
  "dl_file (placed m path b) = dl_file b" "all_completed (placed m path b) = all_completed b"
  by (simp_all add: placed_def all_completed_def)

lemma worker_step_placed:
  "worker_step ob pc b = (pc', b') \<Longrightarrow> worker_step ob pc (placed m path b) = (pc', placed m path b')"
proof (cases pc)
  case (Claiming p c)
  then show "worker_step ob pc b = (pc', b') \<Longrightarrow> worker_step ob pc (placed m path b) = (pc', placed m path b')"
    by (cases c) (auto simp: on_claim_def claim_load_def claim_cas_def claim_push_def placed_def Let_def split: if_splits option.splits)
qed (auto simp: worker_handlers mark_state_def mark_count_def placed_def split: option.splits sum.splits if_splits)

lemma goes_placed:
  assumes "goes ua etag up (pc, b) (pc', b')"
  shows "goes ua etag up (pc, placed m path b) (pc', placed m path b')"
proof -
  have "goes ua etag up (fst s, placed m path (snd s)) (fst s', placed m path (snd s'))"
    if "goes ua etag up s s'" for s s'
    using that
  proof (induction rule: rtranclp_induct)
    case (step s1 s2)
    from step.hyps(2) have "solo ua etag up (fst s1, placed m path (snd s1)) (fst s2, placed m path (snd s2))"
      using worker_step_placed [of _ "fst s1" "snd s1" "fst s2" "snd s2"] by (fastforce simp: solo_def)
    then show ?case using step.IH by (rule rtranclp.rtrancl_into_rtrancl [rotated])
  qed simp
  from this [OF assms] show ?thesis by simp
qed

subsection \<open>What the result means\<close>

lemma ready_bytes:
  assumes "par_reach ua etag up num (length F) d" "upstream_serves ua etag F up" "is_ready i (pd_buffer d)"
  shows "pread (dl_file (pd_buffer d)) (segment_start i (pd_buffer d)) (segment_end i (pd_buffer d) - segment_start i (pd_buffer d))
    = pread F (segment_start i (pd_buffer d)) (segment_end i (pd_buffer d) - segment_start i (pd_buffer d))"
proof -
  have "par_inv ua etag up num (length F) d" by (rule par_reach_inv [OF assms(1)])
  then have "bytes_ok ua etag up F (pd_buffer d) (pd_tasks d)" using assms(2) by (simp add: par_inv_def)
  then show ?thesis using assms(3) by (auto simp: bytes_ok_def is_ready_def segment_start_def segment_end_def)
qed

lemma returned_file:
  assumes "par_reach ua etag up num (length F) d" "upstream_serves ua etag F up"
    and "sv_phase (pd_sup d) = supervisor_phase.Returned (Inr ())"
  shows "no_tasks (pd_sup d) \<and> dl_file (pd_buffer d) = F"
proof -
  have inv: "par_inv ua etag up num (length F) d" by (rule par_reach_inv [OF assms(1)])
  then have "no_tasks (pd_sup d) \<and> all_completed (pd_buffer d)"
    using assms(3) by (simp add: par_inv_def tasks_ok_def outcome_ok_def)
  then show ?thesis using complete_file [OF inv assms(2)] by blast
qed

text \<open>
  C6. However many workers download a file at the same time, however their steps are interleaved
  with each other and with the supervisor, and whatever of the requests fails: with an upstream that
  serves \<open>F\<close> every ready segment has the bytes of \<open>F\<close> at every moment, and when
  \<open>download_multithreaded\<close> says \<open>Ok\<close>, no task is running and the file is \<open>F\<close>, byte for byte.
\<close>

theorem parallel_download_correct:
  assumes "par_reach ua etag up num (length F) d" and "upstream_serves ua etag F up"
  shows "(\<forall>i. is_ready i (pd_buffer d) \<longrightarrow>
        pread (dl_file (pd_buffer d)) (segment_start i (pd_buffer d)) (segment_end i (pd_buffer d) - segment_start i (pd_buffer d))
        = pread F (segment_start i (pd_buffer d)) (segment_end i (pd_buffer d) - segment_start i (pd_buffer d)))
    \<and> (sv_phase (pd_sup d) = supervisor_phase.Returned (Inr ()) \<longrightarrow> no_tasks (pd_sup d) \<and> dl_file (pd_buffer d) = F)"
  using ready_bytes [OF assms] returned_file [OF assms] by blast

definition demo_upstream :: "range_request \<Rightarrow> range_answer \<Rightarrow> bool" where
  "demo_upstream rq a \<longleftrightarrow> (rq, a) \<in> set (map (Pair (range_request_for None None 0 4)) demo_answers)"

lemma demo_upstream_serves: "upstream_serves None None [8, 9, 6, 5] demo_upstream"
  using demo_serves by (simp add: upstream_serves_def serves_def demo_upstream_def)

lemma demo_goes:
  "\<exists>b. goes None None demo_upstream (first_poll, new_buffer 4 [0, 0, 0, 0] ''f'') (Ended (Inr ()), b) \<and> all_completed b"
proof -
  obtain w' :: dl_world where w': "download_worker wr_full None None [None, None] initial_segment_size (demo_dl demo_answers)
      = Some (Inr (), w')" "dw_exchanges w' = map (Pair (range_request_for None None 0 4)) demo_answers"
      "all_completed (dw_buffer w')"
    using demo_worker_run by blast
  have b: "dw_buffer (demo_dl demo_answers) = new_buffer 4 [0, 0, 0, 0] ''f''" by (simp add: demo_dl_def)
  have "0 < initial_segment_size" "total_size (dw_buffer (demo_dl demo_answers)) \<le> length (dl_file (dw_buffer (demo_dl demo_answers)))"
    by (simp_all add: initial_segment_size_def b) (simp add: new_buffer_def)
  from worker_goes [OF wr_full_ok(1) w'(1) this, of demo_upstream]
  have "goes None None demo_upstream (first_poll, new_buffer 4 [0, 0, 0, 0] ''f'') (Ended (Inr ()), dw_buffer w')"
    by (simp add: b first_poll_def w'(2) demo_upstream_def split_def)
  then show ?thesis using w'(3) by blast
qed

lemma demo_parallel:
  "\<exists>d. par_reach None None demo_upstream 1 4 d \<and> sv_phase (pd_sup d) = supervisor_phase.Returned (Inr ())"
  using demo_goes lone_download [of None None demo_upstream 4 "[0, 0, 0, 0]" "''f''"] by auto

theorem parallel_download_correct_witness:
  "\<exists>d. par_reach None None demo_upstream 1 4 d \<and> sv_phase (pd_sup d) = supervisor_phase.Returned (Inr ())
     \<and> dl_file (pd_buffer d) = [8, 9, 6, 5]"
proof -
  obtain d where d: "par_reach None None demo_upstream 1 (length ([8, 9, 6, 5] :: bytes)) d"
      "sv_phase (pd_sup d) = supervisor_phase.Returned (Inr ())"
    using demo_parallel by (auto simp: eval_nat_numeral)
  from parallel_download_correct [OF d(1) demo_upstream_serves] d show ?thesis by (auto simp: eval_nat_numeral)
qed

text \<open>
  C14. A download with at least one connection does not fail for nothing: when
  \<open>download_multithreaded\<close> returns an error, a worker has ended with an error or has panicked, and an
  error other than \<open>BufferFailed\<close> is the error of a worker.
\<close>

theorem failure_has_a_cause:
  assumes "par_reach ua etag up num n d" and "sv_phase (pd_sup d) = supervisor_phase.Returned (Inl e)" and "0 < num"
  shows "(Panicked \<in> set (pd_tasks d) \<or> (\<exists>e'. Ended (Inl e') \<in> set (pd_tasks d)))
    \<and> (e \<noteq> Dl_buffer_failed \<longrightarrow> Ended (Inl e) \<in> set (pd_tasks d))"
proof -
  let ?b = "pd_buffer d" and ?ts = "pd_tasks d"
  have inv: "par_inv ua etag up num n d" by (rule par_reach_inv [OF assms(1)])
  then have t: "tasks_ok num (pd_sup d) ?ts" and w: "work_ok ?b ?ts" by (simp_all add: par_inv_def)
  have "\<exists>pc \<in> set ?ts. failed_task pc"
  proof (rule ccontr)
    assume none: "\<not> ?thesis"
    then have "\<not> (Ended (Inl e) \<in> set ?ts)" by (auto simp: failed_task_def)
    then have "no_tasks (pd_sup d)" "\<not> all_completed ?b"
      using t assms(2) by (auto simp: tasks_ok_def outcome_ok_def is_fatal_def)
    note e = all_ended [OF inv this(1)]
    have good: "pc = Ended (Inr ())" if "pc \<in> set ?ts" for pc
      using e(1) none that by (cases pc) (auto simp: failed_task_def split: sum.splits)
    have "?ts \<noteq> []" using t assms(3) by (simp add: tasks_ok_def)
    then have "Ended (Inr ()) \<in> set ?ts" using good by (metis list.set_sel(1))
    then have "all_assigned ?b" using w by (simp add: work_ok_def)
    moreover have "sg_state sg = Ready" if sg: "sg \<in> set (segments ?b)" for sg
    proof (rule ccontr)
      assume "sg_state sg \<noteq> Ready"
      then have "sg_state sg = Downloading" by (cases "sg_state sg") simp_all
      then obtain pc j where "pc \<in> set ?ts" "holds pc = Some j"
        using w sg none by (auto simp: work_ok_def in_set_conv_nth)
      then show False using good by fastforce
    qed
    then have "count_ready (segments ?b) = length (segments ?b)" using count_ready_all by blast
    ultimately show False using e(2) \<open>\<not> all_completed ?b\<close> by (simp add: all_completed_def)
  qed
  then show ?thesis using t assms(2) by (auto simp: tasks_ok_def failed_task_iff)
qed

theorem failure_has_a_cause_witness:
  "\<exists>d. par_reach None None demo_upstream 1 4 d \<and> sv_phase (pd_sup d) = supervisor_phase.Returned (Inl Dl_buffer_failed)
     \<and> (Panicked \<in> set (pd_tasks d) \<or> (\<exists>e. Ended (Inl e) \<in> set (pd_tasks d)))"
proof -
  define d0 where "d0 = pd_start 1 (new_buffer 4 [0, 0, 0, 0] ''f'')"
  have start: "pd_tasks d0 = [first_poll]" "pd_buffer d0 = new_buffer 4 [0, 0, 0, 0] ''f''" "sv_phase (pd_sup d0) = Selecting"
    "sv_running (pd_sup d0) = 1" "sv_active (pd_sup d0) = 1" "sv_ended (pd_sup d0) = []"
    by (simp_all add: d0_def pd_start_def start_download_def initial_worker_count_def spawn_one_worker_def Let_def)
  let ?d1 = "pd_worked 0 (Ended (Inl Dl_cancelled)) (pd_buffer d0) d0"
  have "par_step None None demo_upstream 1 d0 ?d1"
    by (rule par_work [of 0 _ _ _ _ "demo_obs\<lparr>wo_cancelled := True\<rparr>"])
      (simp_all add: start, simp_all add: first_poll_def obs_ok_def on_poll_def)
  moreover have s1: "sv_phase (pd_sup ?d1) = Selecting" "sv_running (pd_sup ?d1) = 0" "sv_active (pd_sup ?d1) = 0"
    "sv_ended (pd_sup ?d1) = [] @ Task_returned (Inl Dl_cancelled) # []" "pd_buffer ?d1 = new_buffer 4 [0, 0, 0, 0] ''f''"
    by (simp_all add: pd_worked_def tell_def task_returns_def start first_poll_def)
  let ?s2 = "on_join (Some (Task_returned (Inl Dl_cancelled))) (join_one [] [] (pd_sup ?d1))"
  let ?d2 = "pd_supervised ?s2 ?d1"
  have s2: "pd_sup ?d2 = ?s2" "sv_phase ?s2 = Draining" "no_tasks ?s2" "sv_buffer ?s2 = new_buffer 4 [0, 0, 0, 0] ''f''"
    using s1 by (simp_all add: sup_handlers is_fatal_def pd_supervised_def)
  have "par_step None None demo_upstream 1 ?d1 ?d2"
    by (rule par_supervise, rule sv_join) (use s1 in simp_all)
  moreover have "par_step None None demo_upstream 1 ?d2 (pd_supervised (on_drain None ?s2) ?d2)"
    by (rule par_supervise, unfold s2(1), rule sv_drain_none) (use s2 in simp_all)
  moreover have "par_reach None None demo_upstream 1 4 d0" unfolding d0_def by (rule par_plain) simp
  ultimately have reach: "par_reach None None demo_upstream 1 4 (pd_supervised (on_drain None ?s2) ?d2)"
    by (blast intro: par_next)
  have "sv_phase (pd_sup (pd_supervised (on_drain None ?s2) ?d2)) = supervisor_phase.Returned (Inl Dl_buffer_failed)"
    using s2(2-4) by (simp add: pd_supervised_def on_drain_def all_completed_def new_buffer_def)
  with failure_has_a_cause [OF reach this] reach show ?thesis by auto
qed

end
