(* ===== verification/Parallel_Stream.thy ===== *)
theory Parallel_Stream
  imports Parallel_Results Buffer_Stream
begin

text \<open>
  The client of a running download: \<open>make_buffer_stream\<close> of \<open>proxy.rs\<close> (theory Buffer\_Stream) over the
  buffer of \<open>download_multithreaded\<close> of \<open>downloader.rs\<close> (theory Parallel\_Download), one turn of the
  stream at a time, any number of steps of the download between two turns.
\<close>

text \<open>\<open>later step d ds\<close>: the states \<open>ds\<close> are reached one after the other from \<open>d\<close>.\<close>

fun later :: "('s \<Rightarrow> 's \<Rightarrow> bool) \<Rightarrow> 's \<Rightarrow> 's list \<Rightarrow> bool" where
  "later step d [] = True"
| "later step d (e # ds) = (step\<^sup>*\<^sup>* d e \<and> later step e ds)"

lemma later_last: "later step d ds \<Longrightarrow> step\<^sup>*\<^sup>* d (last (d # ds))"
  by (induction ds arbitrary: d) (auto intro: rtranclp_trans)

lemma later_between: "later step d ds \<Longrightarrow> e \<in> set ds \<Longrightarrow> step\<^sup>*\<^sup>* d e \<and> step\<^sup>*\<^sup>* e (last ds)"
proof (induction ds arbitrary: d)
  case (Cons x ds)
  then show ?case using later_last [of step x ds] by (fastforce intro: rtranclp_trans)
qed simp

abbreviation pd_ranges :: "parallel_download \<Rightarrow> (nat \<times> nat) list" where
  "pd_ranges d \<equiv> map sg_range (segments (pd_buffer d))"

text \<open>The list of segments only grows.\<close>

lemma par_step_grows:
  assumes "par_step ua etag up num d e" "tasks_ok num (pd_sup d) (pd_tasks d)"
  shows "prefix (pd_ranges d) (pd_ranges e)"
  using assms(1)
proof (cases rule: par_step.cases)
  case (par_supervise s)
  then show ?thesis using supervise_tasks(2) [OF par_supervise(2) assms(2)] by (simp add: pd_supervised_def)
next
  case (par_work i ob pc b)
  have "prefix (pd_ranges d) (map sg_range (segments b))"
  proof (cases "\<exists>p c. pd_tasks d ! i = Claiming p c")
    case True
    then obtain p c where "pd_tasks d ! i = Claiming p c" by blast
    then show ?thesis using par_work(5)
      by (cases c) (auto simp: on_claim_def claim_load_def claim_cas_def claim_push_def Let_def split: if_splits option.splits)
  next
    case False
    then show ?thesis using worker_step_keeps(1) [OF par_work(5)] by auto
  qed
  then show ?thesis using par_work(1) by (simp add: pd_worked_def)
next
  case (par_panic i)
  then show ?thesis by (simp add: pd_worked_def)
qed

lemma par_steps_grow:
  "(par_step ua etag up num)\<^sup>*\<^sup>* d e \<Longrightarrow> par_reach ua etag up num n d \<Longrightarrow> prefix (pd_ranges d) (pd_ranges e)"
proof (induction rule: rtranclp_induct)
  case (step e f)
  have "par_inv ua etag up num n e" using par_reach_inv [OF par_reach_steps [OF step.hyps(1) step.prems]] .
  then have "prefix (pd_ranges e) (pd_ranges f)" using par_step_grows [OF step.hyps(2)] by (simp add: par_inv_def)
  then show ?case using step by (meson prefix_order.order_trans)
qed simp

lemma never_failed:
  assumes "par_reach ua etag up num n d"
  shows "\<not> failed (pd_buffer d)"
  using assms
proof (induction rule: par_reach.induct)
  case (par_init f path m)
  then show ?case
    by (cases num; simp add: pd_start_def start_download_def initial_worker_count_def spawn_one_worker_def new_buffer_def)
next
  case (par_next d d')
  from par_next.hyps(2) show ?case
  proof (cases rule: par_step.cases)
    case (par_supervise s)
    have "tasks_ok num (pd_sup d) (pd_tasks d)" using par_reach_inv [OF par_next.hyps(1)] by (simp add: par_inv_def)
    then show ?thesis using supervise_tasks(2) [OF par_supervise(2)] par_supervise(1) par_next.IH by (simp add: pd_supervised_def)
  next
    case (par_work i ob pc b)
    have "failed b = failed (pd_buffer d)"
    proof (cases "pd_tasks d ! i")
      case (Claiming p c)
      then show ?thesis using par_work(5)
        by (cases c) (auto simp: on_claim_def claim_load_def claim_cas_def claim_push_def Let_def split: if_splits option.splits)
    qed (use par_work(5) in \<open>auto simp: worker_handlers mark_state_def mark_count_def split: option.splits if_splits\<close>)
    then show ?thesis using par_work(1) par_next.IH by (simp add: pd_worked_def)
  next
    case (par_panic i)
    then show ?thesis using par_next.IH by (simp add: pd_worked_def)
  qed
qed

subsection \<open>What the stream sees\<close>

text \<open>The ranges of \<open>ss\<close>, and what is left of the file after them, as a partition of the file.\<close>

definition plan_of :: "nat \<Rightarrow> segment list \<Rightarrow> nat \<Rightarrow> segment list" where
  "plan_of n ss m = ss @ (if m < n then [\<lparr>sg_start = m, sg_end = n, sg_state = Downloading\<rparr>] else [])"

lemma plan_tiles: "tiles 0 ss m \<Longrightarrow> m \<le> n \<Longrightarrow> tiles 0 (plan_of n ss m) n"
  by (auto simp: plan_of_def tiles_append)

lemma ordered_end:
  assumes "par_inv ua etag up num n d" "tiles 0 (segments (pd_buffer d)) m"
  shows "m \<le> n"
proof (cases "segments (pd_buffer d) = []")
  case True
  then show ?thesis using assms(2) by simp
next
  case False
  let ?ss = "segments (pd_buffer d)"
  obtain ys y where ss: "?ss = ys @ [y]" using False by (metis rev_exhaust)
  then have "m = sg_end (?ss ! length ys)" using assms(2) by (auto simp: tiles_append)
  moreover have "sg_end (?ss ! length ys) \<le> total_size (pd_buffer d)"
    using assms(1) ss by (intro segments_apart(2)) (auto simp: par_inv_def)
  ultimately show ?thesis using assms(1) by (simp add: par_inv_def)
qed

lemma snapshot_reached:
  assumes inv: "par_inv ua etag up num (length F) d" and serves: "upstream_serves ua etag F up"
    and grown: "prefix (pd_ranges d) (map sg_range plan)"
  shows "snapshot_ok F plan (pd_buffer d)"
proof -
  let ?b = "pd_buffer d"
  have bytes: "bytes_ok ua etag up F ?b (pd_tasks d)" using inv serves by (simp add: par_inv_def)
  have "dl_file ?b ! x = F ! x"
    if i: "i < length (segments ?b)" "is_ready i ?b" and x: "sg_start (segments ?b ! i) \<le> x" "x < sg_end (segments ?b ! i)" for i x
  proof -
    let ?s = "sg_start (segments ?b ! i)" and ?e = "sg_end (segments ?b ! i)"
    have "?e \<le> length F" using segments_apart(2) [of ?b "pd_tasks d" i] i(1) inv by (simp add: par_inv_def)
    moreover have "pread (dl_file ?b) ?s (?e - ?s) = pread F ?s (?e - ?s)" using bytes i by (simp add: bytes_ok_def is_ready_def)
    then have "pread (dl_file ?b) ?s (?e - ?s) ! (x - ?s) = pread F ?s (?e - ?s) ! (x - ?s)" by simp
    ultimately show ?thesis using x bytes by (simp add: pread_def bytes_ok_def)
  qed
  then show ?thesis using bytes grown by (auto simp: snapshot_ok_def bytes_ok_def prefix_def)
qed

lemma tiles_positive: "tiles a ss z \<Longrightarrow> ss \<noteq> [] \<Longrightarrow> a < z"
  by (cases ss) (auto dest: tiles_le)

lemma tiles_chain: "tiles a ss z = chain a (map sg_range ss) z"
  by (induction ss arbitrary: a) (auto simp: sg_range_def)

lemma tiles_functional: "tiles a ss y \<Longrightarrow> tiles a ss z \<Longrightarrow> y = z"
  by (induction ss arbitrary: a) auto

lemma tiles_same_end:
  assumes "tiles 0 ss z" "tiles 0 ts z" "prefix (map sg_range ss) (map sg_range ts)"
  shows "length ss = length ts"
proof -
  have same: "tiles a xs y = tiles a us y" if "map sg_range xs = map sg_range us" for a xs us y
    using that by (simp add: tiles_chain)
  let ?ss = "take (length ss) ts"
  obtain rest where "map sg_range ts = map sg_range ss @ rest" using assms(3) by (auto simp: prefix_def)
  from arg_cong [OF this, of "take (length ss)"] have "map sg_range ?ss = map sg_range ss" by (simp add: take_map)
  then have z: "tiles 0 ?ss z" using same assms(1) by blast
  obtain m where m: "tiles 0 ?ss m" "tiles m (drop (length ss) ts) z"
    using tiles_append [of 0 ?ss "drop (length ss) ts" z] assms(2) unfolding append_take_drop_id by blast
  then have "m = z" using tiles_functional z by blast
  then have "drop (length ss) ts = []" using m(2) tiles_positive by fastforce
  moreover have "length ss \<le> length ts" using prefix_length_le [OF assms(3)] by simp
  ultimately show ?thesis by simp
qed

subsection \<open>One connection\<close>

text \<open>A worker that is alone pushes its segments in file order, and nothing is complete before it ends.\<close>

definition lone_order :: "segments_buffer \<Rightarrow> worker_pc list \<Rightarrow> bool" where
  "lone_order b ts \<longleftrightarrow>
     length ts \<le> 1 \<and> (all_assigned b \<longrightarrow> ts = [Ended (Inr ())])
     \<and> (case ts of
          [Claiming p (Won s e)] \<Rightarrow> tiles 0 (segments b) s \<and> s < e \<and> next_unassigned b = e
        | _ \<Rightarrow> tiles 0 (segments b) (next_unassigned b))"

lemma lone_order_step:
  assumes "lone_order b [pc]" "worker_step ob pc b = (pc', b')" "live pc" "size_ok pc" "loaded_ok b (claim_view pc)"
    and "\<And>j. holds pc = Some j \<Longrightarrow> job_id j < length (segments b)"
  shows "lone_order b' [pc']"
proof (cases pc)
  case (Claiming p c)
  then show ?thesis using assms(1,2,4,5)
    by (cases c) (auto simp: lone_order_def size_ok_def claim_view_def loaded_ok_def on_claim_def claim_load_def
        claim_cas_def claim_push_def Let_def tiles_append split: if_splits)
next
  case (Reading j attempt evs off)
  then show ?thesis using assms(1,2)
    by (cases evs rule: list.exhaust; cases "hd evs") (auto simp: lone_order_def worker_handlers split: if_splits)
next
  case (Marking j)
  then show ?thesis using assms(1,2) assms(6) [of j]
    by (auto simp: lone_order_def on_mark_def mark_state_def tiles_state_update split: if_splits)
qed (use assms(1-3) in \<open>auto simp: lone_order_def worker_handlers mark_count_def split: option.splits sum.splits if_splits\<close>)

lemma lone_order_reached:
  assumes "par_reach ua etag up 1 n d"
  shows "lone_order (pd_buffer d) (pd_tasks d)"
  using assms
proof (induction rule: par_reach.induct)
  case (par_init f path m)
  then show ?case
    by (simp add: lone_order_def pd_start_def start_download_def initial_worker_count_def spawn_one_worker_def new_buffer_def
        first_poll_def)
next
  case (par_next d d')
  have inv: "par_inv ua etag up 1 n d" "par_inv ua etag up 1 n d'"
    using par_reach_inv par_next.hyps par_reach.par_next by blast+
  then have len: "length (pd_tasks d') \<le> 1" by (simp add: par_inv_def tasks_ok_def)
  from par_next.hyps(2) show ?case
  proof (cases rule: par_step.cases)
    case (par_supervise s)
    have "tasks_ok 1 (pd_sup d) (pd_tasks d)" using inv(1) by (simp add: par_inv_def)
    note sv = supervise_tasks(2,3) [OF par_supervise(2) this]
    have ne: "pd_tasks d \<noteq> []" using inv(1) by (simp add: par_inv_def tasks_ok_def)
    obtain k where "pd_tasks d' = pd_tasks d @ replicate k first_poll" using sv(2) par_supervise(1) by auto
    then have "pd_tasks d' = pd_tasks d" using len ne by (cases k) (auto simp: neq_Nil_conv)
    then show ?thesis using par_next.IH sv(1) par_supervise(1) by (simp add: pd_supervised_def)
  next
    case (par_work i ob pc b)
    then obtain pc0 where ts: "pd_tasks d = [pc0]" "i = 0"
      using par_next.IH by (cases "pd_tasks d"; cases "tl (pd_tasks d)") (auto simp: lone_order_def)
    have "lone_order b [pc]"
    proof (rule lone_order_step)
      show "lone_order (pd_buffer d) [pc0]" using par_next.IH ts by simp
      show "worker_step ob pc0 (pd_buffer d) = (pc, b)" "live pc0" using par_work ts by simp_all
      show "size_ok pc0" "loaded_ok (pd_buffer d) (claim_view pc0)"
        using inv(1) ts by (simp_all add: par_inv_def ranges_ok_def sys_inv_def)
      show "\<And>j. holds pc0 = Some j \<Longrightarrow> job_id j < length (segments (pd_buffer d))"
        using inv(1) ts by (simp add: par_inv_def jobs_ok_def)
    qed
    then show ?thesis using par_work(1) ts by (simp add: pd_worked_def)
  next
    case (par_panic i)
    then obtain pc0 where ts: "pd_tasks d = [pc0]" "i = 0"
      using par_next.IH by (cases "pd_tasks d"; cases "tl (pd_tasks d)") (auto simp: lone_order_def)
    then show ?thesis using par_panic par_next.IH
      by (cases pc0) (auto simp: lone_order_def pd_worked_def split: claim_pc.splits)
  qed
qed

lemma lone_tiles:
  assumes "par_reach ua etag up 1 n d"
  shows "\<exists>m. tiles 0 (segments (pd_buffer d)) m"
    and "all_assigned (pd_buffer d) \<Longrightarrow> tiles 0 (segments (pd_buffer d)) n"
proof -
  note o = lone_order_reached [OF assms] and inv = par_reach_inv [OF assms]
  show "\<exists>m. tiles 0 (segments (pd_buffer d)) m" using o
    by (auto simp: lone_order_def split: list.splits worker_pc.splits claim_pc.splits)
  show "tiles 0 (segments (pd_buffer d)) n" if "all_assigned (pd_buffer d)"
    using o inv that by (auto simp: lone_order_def par_inv_def ranges_ok_def)
qed

subsection \<open>What the client gets\<close>

text \<open>
  C7. While the download runs, with any number of workers and any interleaving, what the client has
  been sent is a prefix of the file, if at the last of the states that its stream has seen the segments
  lie in file order. (They need not: see the lemma \<open>stream_out_of_order\<close>.)
\<close>

theorem client_gets_prefix:
  assumes "par_reach ua etag up num (length F) d" and "later (par_step ua etag up num) d ds"
    and "upstream_serves ua etag F up" and "tiles 0 (segments (pd_buffer (last (d # ds)))) m"
    and "\<forall>e \<in> set ds. rd_ok (dl_file (pd_buffer e)) (rd (pd_buffer e))"
  shows "\<exists>n. body_bytes (stream_drive rd (map pd_buffer ds) stream_init) = take n F"
proof (rule stream_prefix_safe)
  let ?l = "last (d # ds)" and ?n = "length F"
  let ?plan = "plan_of ?n (segments (pd_buffer ?l)) m"
  have "par_inv ua etag up num ?n ?l"
    by (rule par_reach_inv [OF par_reach_steps [OF later_last [OF assms(2)] assms(1)]])
  then show "tiles 0 ?plan ?n" using ordered_end assms(4) by (intro plan_tiles) blast+
  show "\<forall>b \<in> set (map pd_buffer ds). snapshot_ok F ?plan b \<and> rd_ok (dl_file b) (rd b)"
  proof -
    have "snapshot_ok F ?plan (pd_buffer e)" if e: "e \<in> set ds" for e
    proof -
      note between = later_between [OF assms(2) e]
      have reach: "par_reach ua etag up num ?n e" using par_reach_steps between assms(1) by blast
      have "prefix (pd_ranges e) (pd_ranges ?l)" using par_steps_grow between reach e by (metis empty_iff last_ConsR list.set(1))
      then have "prefix (pd_ranges e) (map sg_range ?plan)" by (simp add: plan_of_def prefix_prefix)
      then show ?thesis by (rule snapshot_reached [OF par_reach_inv [OF reach] assms(3)])
    qed
    then show ?thesis using assms(5) by auto
  qed
qed

theorem client_gets_prefix_witness:
  "\<exists>d n. par_reach None None demo_upstream 1 4 d
     \<and> body_bytes (stream_drive (\<lambda>b. rd_full (dl_file b)) [pd_buffer d, pd_buffer d] stream_init) = take n [8, 9, 6, 5]"
proof -
  let ?F = "[8, 9, 6, 5] :: bytes"
  obtain d where d: "par_reach None None demo_upstream 1 4 d" "sv_phase (pd_sup d) = supervisor_phase.Returned (Inr ())"
    using demo_parallel by blast
  obtain m where m: "tiles 0 (segments (pd_buffer d)) m" using lone_tiles(1) [OF d(1)] by blast
  have reach: "par_reach None None demo_upstream 1 (length ?F) d" using d(1) by (simp add: eval_nat_numeral)
  have "\<exists>n. body_bytes (stream_drive (\<lambda>b. rd_full (dl_file b)) (map pd_buffer [d, d]) stream_init) = take n ?F"
    by (rule client_gets_prefix [OF reach _ demo_upstream_serves, of "[d, d]" m])
      (simp_all add: m rd_full_ok)
  then show ?thesis using d(1) by auto
qed

text \<open>A stream that has seen a running download and then sees it finished.\<close>

lemma stream_drive_through:
  assumes fin: "finished b" and plan: "tiles 0 (segments b) (length (dl_file b))" and rdb: "rd_ok (dl_file b) (rd b)"
    and k: "length (dl_file b) + length (segments b) < k"
  shows "\<forall>a \<in> set bs. snapshot_ok (dl_file b) (segments b) a \<and> rd_ok (dl_file a) (rd a) \<and> \<not> is_failed a
      \<and> (all_completed a \<longrightarrow> length (segments a) = length (segments b)) \<Longrightarrow>
    stream_at (length (dl_file b)) (segments b) st p \<Longrightarrow> p \<le> length (dl_file b) \<Longrightarrow>
    body_bytes (stream_drive rd (bs @ replicate k b) st) = drop p (dl_file b)
    \<and> last (stream_drive rd (bs @ replicate k b) st) = Stream_end \<and> stream_drive rd (bs @ replicate k b) st \<noteq> []"
proof (induction bs arbitrary: st p)
  case Nil
  have len: "total_size b = length (dl_file b)" using fin by (simp add: finished_def)
  show ?case using stream_drive_finished [OF fin, of rd st p k] rdb Nil.prems(2,3) k by (simp add: len)
next
  case (Cons a bs)
  obtain out st' where out: "stream_iter (rd a) a st = (out, st')" by (cases "stream_iter (rd a) a st")
  have a: "snapshot_ok (dl_file b) (segments b) a" "rd_ok (dl_file a) (rd a)" "\<not> is_failed a"
    "all_completed a \<longrightarrow> length (segments a) = length (segments b)" using Cons.prems(1) by simp_all
  obtain n where n: "chunk_bytes out = pread (dl_file b) p n" "stream_at (length (dl_file b)) (segments b) st' (p + n)"
    "p + n \<le> length (dl_file b)"
    using stream_iter_snapshot [OF plan a(1,2) Cons.prems(2) out] by blast
  show ?case
  proof (cases "out = Stream_end")
    case True
    have "current_segment st \<ge> length (segments a)" "all_completed a"
      using out a(3) True by (auto simp: stream_iter_def num_segments_def Let_def split: if_splits option.splits)
    then have "p = length (dl_file b)" using a(4) Cons.prems(2) by (simp add: stream_at_def split: if_splits)
    then show ?thesis using out True by simp
  next
    case False
    note ih = Cons.IH [OF _ n(2,3)]
    have err: "out \<noteq> Stream_error" using out a(3) by (auto simp: stream_iter_def Let_def split: if_splits option.splits)
    have "pread (dl_file b) p n @ drop (p + n) (dl_file b) = drop p (dl_file b)"
      by (metis add.commute append_take_drop_id drop_drop pread_def)
    moreover have "chunk_bytes out = []" if "out = Waiting \<or> out = Advance" using that by auto
    ultimately show ?thesis using ih Cons.prems(1) out n(1) False err by (cases out) auto
  qed
qed



end
