(* ===== verification/Proxy_Rules.thy ===== *)
theory Proxy_Rules
  imports Config_Parse Freshness
begin

text \<open>
  The decisions of \<open>src/src/proxy.rs\<close> that read only their arguments: the URL a request is
  for, the mapping of fake hosts, which upstream URLs are safe, which hosts bypass the
  upstream proxy, which headers are forwarded, and what the answer to a conditional HEAD says
  about a cached entry. The crate \<open>url\<close> is a parameter: \<open>url_of\<close> is its parser.
\<close>

subsection \<open>The URL of a request\<close>

datatype proxy_error =
    Bad_request string
  | Upstream_error
  | Bad_gateway string
  | Internal string
  | Service_unavailable string
  | Too_many_requests

definition error_response :: "proxy_error \<Rightarrow> nat \<times> string" where
  "error_response e =
     (case e of
        Bad_request s \<Rightarrow> (400, s)
      | Upstream_error \<Rightarrow> (502, ''upstream connection failed'')
      | Bad_gateway s \<Rightarrow> (502, s)
      | Internal s \<Rightarrow> (500, s)
      | Service_unavailable s \<Rightarrow> (503, s)
      | Too_many_requests \<Rightarrow> (429, ''rate limit exceeded''))"

text \<open>\<open>Display\<close> of an error; \<open>lib\<close> is the text of the error of reqwest, which no response shows.\<close>

definition show_proxy_error :: "string \<Rightarrow> proxy_error \<Rightarrow> string" where
  "show_proxy_error lib e =
     (case e of
        Bad_request s \<Rightarrow> ''bad request: '' @ s
      | Upstream_error \<Rightarrow> ''upstream error: '' @ lib
      | Bad_gateway s \<Rightarrow> ''bad gateway: '' @ s
      | Internal s \<Rightarrow> s
      | Service_unavailable s \<Rightarrow> s
      | Too_many_requests \<Rightarrow> ''too many requests'')"

definition request_url :: "string \<Rightarrow> header_map \<Rightarrow> proxy_error + string" where
  "request_url uri headers =
     (let original = (case strip_prefix ''/'' uri of Some r \<Rightarrow> r | None \<Rightarrow> uri) in
      if contains_str original ''://'' then Inr original
      else (case header_text ''host'' headers of
              None \<Rightarrow> Inl (Bad_request ''absolute URI or Host header required'')
            | Some hostname \<Rightarrow> Inr (''http://'' @ hostname @ ''/'' @ original)))"

definition resolve_prefix :: "string \<Rightarrow> url_map \<Rightarrow> string \<Rightarrow> string option" where
  "resolve_prefix url m pre =
     (case strip_prefix pre url of
        None \<Rightarrow> None
      | Some rest \<Rightarrow>
          if rest = [] \<or> starts_with rest ''/'' then
            Some (let base = trim_end_char (CHR ''/'') (real_base m) in
                  if rest = [] then base else base @ rest)
          else None)"

fun resolve_url :: "string \<Rightarrow> url_map list \<Rightarrow> string" where
  "resolve_url url [] = url"
| "resolve_url url (m # maps) =
     (case resolve_prefix url m (''http://'' @ fake_host m) of
        Some r \<Rightarrow> r
      | None \<Rightarrow> (case resolve_prefix url m (''ftp://'' @ fake_host m) of
            Some r \<Rightarrow> r
          | None \<Rightarrow> resolve_url url maps))"

record parsed_url =
  pu_scheme :: string
  pu_username :: string
  pu_password :: "string option"

definition is_safe_upstream_url :: "(string \<Rightarrow> parsed_url option) \<Rightarrow> string \<Rightarrow> string + unit" where
  "is_safe_upstream_url url_of url =
     (case url_of url of
        None \<Rightarrow> Inl ''invalid URL''
      | Some p \<Rightarrow>
          if pu_scheme p \<noteq> ''http'' \<and> pu_scheme p \<noteq> ''https'' then Inl (''unsupported scheme: '' @ pu_scheme p)
          else if pu_username p \<noteq> [] \<or> pu_password p \<noteq> None then Inl ''URL contains embedded credentials''
          else Inr ())"

definition is_xz_url :: "string \<Rightarrow> bool" where
  "is_xz_url url = ends_with (hd (split_on (CHR ''?'') url)) ''.xz''"

text \<open>
  What becomes of the run of \<open>xz --test\<close>: an exit code of 0 or another, a program that cannot be
  started, or a task that has panicked. Only the first accepts the file.
\<close>

datatype xz_run = Xz_exit bool | Xz_not_started | Xz_panicked

definition verify_xz_integrity :: "xz_run \<Rightarrow> bool" where
  "verify_xz_integrity r = (case r of Xz_exit success \<Rightarrow> success | Xz_not_started \<Rightarrow> False | Xz_panicked \<Rightarrow> False)"

subsection \<open>Bypassing the upstream proxy\<close>

definition rule_bits :: "string \<Rightarrow> nat" where
  "rule_bits rule =
     (case split_on (CHR ''/'') rule of
        _ # s # _ \<Rightarrow> (case parse_uint u8_max s of Some n \<Rightarrow> n | None \<Rightarrow> 32)
      | _ \<Rightarrow> 32)"

definition cidr_match :: "string \<Rightarrow> string \<Rightarrow> bool" where
  "cidr_match hostname rule =
     (let cidr_base = hd (split_on (CHR ''/'') rule) in
      if contains_char (CHR ''.'') cidr_base then
        let dotted = split_on (CHR ''.'') cidr_base;
            num_octets = (rule_bits rule + 7) div 8;
            pre = join ''.'' (take (min num_octets (length dotted)) dotted)
        in starts_with hostname pre
      else False)"

fun no_proxy_match :: "string \<Rightarrow> string list \<Rightarrow> bool" where
  "no_proxy_match hostname [] = False"
| "no_proxy_match hostname (r # rules) =
     (let rule = trim r in
      if rule = [] then no_proxy_match hostname rules
      else if rule = ''*'' then True
      else (case strip_prefix ''.'' rule of
              Some suf \<Rightarrow>
                if hostname = suf \<or> ends_with hostname (''.'' @ suf) then True else no_proxy_match hostname rules
            | None \<Rightarrow>
                if hostname = rule then True
                else if cidr_match hostname rule then True
                else no_proxy_match hostname rules))"

subsection \<open>Headers\<close>

definition forward_headers :: "string list" where
  "forward_headers =
     [''content-type'', ''content-length'', ''content-disposition'', ''accept-ranges'', ''last-modified'',
      ''etag'', ''cache-control'', ''expires'', ''location'']"

definition copy_header :: "header_map \<Rightarrow> string \<Rightarrow> header_map \<Rightarrow> header_map" where
  "copy_header src name dst = (case header_get name src of Some v \<Rightarrow> header_insert name v dst | None \<Rightarrow> dst)"

definition copy_forward_headers :: "header_map \<Rightarrow> header_map \<Rightarrow> header_map" where
  "copy_forward_headers src dst = fold (copy_header src) forward_headers dst"

definition can_multithread :: "nat option \<Rightarrow> string option \<Rightarrow> bool" where
  "can_multithread content_length accept_ranges \<longleftrightarrow>
     content_length \<noteq> None \<and> accept_ranges = Some ''bytes''"

datatype revalidate = Fresh header_map | Stale | Unreachable

definition decide_revalidate :: "nat \<Rightarrow> header_map \<Rightarrow> header_map \<Rightarrow> revalidate" where
  "decide_revalidate status resp cached =
     (if status = 304 then
        Fresh (fold (copy_header resp) [''etag'', ''last-modified'', ''cache-control'', ''expires''] cached)
      else if 200 \<le> status \<and> status < 300 \<and> etag_equals cached resp then Fresh cached
      else Stale)"

subsection \<open>Facts\<close>

lemma header_get_copy [simp]:
  "header_get k (copy_header src n dst) =
     (if k = n \<and> header_get n src \<noteq> None then header_get n src else header_get k dst)"
  by (auto simp: copy_header_def split: option.splits)

lemma header_get_copies:
  "header_get k (fold (copy_header src) ns dst) =
     (if k \<in> set ns \<and> header_get k src \<noteq> None then header_get k src else header_get k dst)"
  by (induction ns arbitrary: dst) auto

text \<open>
  Only the nine headers of the list pass from the upstream to the client, each with its
  first value; everything else of the answer is dropped.
\<close>

lemma forwarded_headers:
  "header_get k (copy_forward_headers src []) = (if k \<in> set forward_headers then header_get k src else None)"
  by (simp add: copy_forward_headers_def header_get_copies)



text \<open>A host followed by nothing or a path.\<close>

lemma host_unique:
  assumes "a @ x = b @ y" "CHR ''/'' \<notin> set a" "CHR ''/'' \<notin> set b"
    "x = [] \<or> starts_with x ''/''" "y = [] \<or> starts_with y ''/''"
  shows "a = b \<and> x = y"
  using assms
proof (induction a arbitrary: b)
  case Nil
  then show ?case by (cases b) (auto simp: starts_with_iff)
next
  case (Cons c a)
  then show ?case by (cases b) (auto simp: starts_with_iff)
qed

lemma resolve_prefix_host:
  assumes "CHR ''/'' \<notin> set hostname" "CHR ''/'' \<notin> set (fake_host m)" "rest = [] \<or> starts_with rest ''/''"
  shows "resolve_prefix (pre @ hostname @ rest) m (pre @ fake_host m)
    = (if fake_host m = hostname then Some (trim_end_char (CHR ''/'') (real_base m) @ rest) else None)"
proof (cases "fake_host m = hostname")
  case True
  have "strip_prefix (pre @ fake_host m) (pre @ fake_host m @ rest) = Some rest"
    using strip_prefix_append [of "pre @ fake_host m" rest] by simp
  then show ?thesis using assms(3) True by (auto simp: resolve_prefix_def Let_def)
next
  case False
  have "\<not> (r = [] \<or> starts_with r ''/'')" if "strip_prefix (pre @ fake_host m) (pre @ hostname @ rest) = Some r" for r
  proof
    assume "r = [] \<or> starts_with r ''/''"
    moreover have "fake_host m @ r = hostname @ rest" using that by (simp add: strip_prefix_Some_iff)
    ultimately show False using host_unique [of "fake_host m" r hostname rest] assms False by blast
  qed
  then show ?thesis using False by (auto simp: resolve_prefix_def split: option.split)
qed

lemma resolve_prefix_other:
  "pre \<noteq> pre' \<Longrightarrow> length pre = length pre' \<or> (pre, pre') \<in> {(''http://'', ''ftp://''), (''ftp://'', ''http://'')} \<Longrightarrow>
   resolve_prefix (pre @ x) m (pre' @ fake_host m) = None"
  by (auto simp: resolve_prefix_def strip_prefix_Some_iff split: option.split)

lemma resolve_url_host:
  assumes "CHR ''/'' \<notin> set hostname" and "\<forall>m \<in> set maps. CHR ''/'' \<notin> set (fake_host m)"
    and "rest = [] \<or> starts_with rest ''/''" and "pre \<in> {''http://'', ''ftp://''}"
  shows "resolve_url (pre @ hostname @ rest) maps =
     (case List.find (\<lambda>m. fake_host m = hostname) maps of
        Some m \<Rightarrow> trim_end_char (CHR ''/'') (real_base m) @ rest
      | None \<Rightarrow> pre @ hostname @ rest)"
  using assms(2)
proof (induction maps)
  case Nil
  then show ?case by simp
next
  case (Cons m maps)
  have m: "CHR ''/'' \<notin> set (fake_host m)" using Cons.prems by simp
  note own = resolve_prefix_host [OF assms(1) m assms(3)]
  have "resolve_prefix (''http://'' @ hostname @ rest) m (''ftp://'' @ fake_host m) = None"
    "resolve_prefix (''ftp://'' @ hostname @ rest) m (''http://'' @ fake_host m) = None"
    by (rule resolve_prefix_other; simp)+
  then show ?case
    using assms(4) own [of "''http://''"] own [of "''ftp://''"] Cons by (elim insertE emptyE) simp_all
qed

text \<open>
  C33. The mapping of fake hosts goes by whole host names: a URL of host \<open>hostname\<close> is rewritten by
  the first map whose fake host is exactly \<open>hostname\<close>, to the base of that map followed by the path
  and query unchanged, and is left alone when there is none; a host that only begins with a fake
  host is never rewritten.
\<close>

theorem resolve_url_by_host:
  assumes "CHR ''/'' \<notin> set hostname" and "\<forall>m \<in> set maps. CHR ''/'' \<notin> set (fake_host m)"
    and "rest = [] \<or> starts_with rest ''/''" and "pre \<in> {''http://'', ''ftp://''}"
  shows "resolve_url (pre @ hostname @ rest) maps =
     (case List.find (\<lambda>m. fake_host m = hostname) maps of
        Some m \<Rightarrow> trim_end_char (CHR ''/'') (real_base m) @ rest
      | None \<Rightarrow> pre @ hostname @ rest)"
  by (rule resolve_url_host [OF assms])

theorem resolve_url_by_host_witness:
  "resolve_url ''http://deb.local/pool/a.deb''
     [\<lparr>fake_host = ''deb'', real_base = ''http://a''\<rparr>, \<lparr>fake_host = ''deb.local'', real_base = ''http://b/c/''\<rparr>]
   = ''http://b/c/pool/a.deb''"
  using resolve_url_by_host [of "''deb.local''"
      "[\<lparr>fake_host = ''deb'', real_base = ''http://a''\<rparr>, \<lparr>fake_host = ''deb.local'', real_base = ''http://b/c/''\<rparr>]"
      "''/pool/a.deb''" "''http://''"]
  by (simp add: starts_with_def trim_end_char_def)

text \<open>No FTP URL passes the check, whatever the parser says of its other parts.\<close>

lemma ftp_never_safe:
  "(\<And>p. url_of url = Some p \<Longrightarrow> pu_scheme p \<in> {''ftp'', ''ftps''}) \<Longrightarrow> \<not> is_ok (is_safe_upstream_url url_of url)"
  by (cases "url_of url") (fastforce simp: is_safe_upstream_url_def)+

text \<open>The rules are a disjunction: their order and the empty ones do not matter.\<close>

definition rule_bypasses :: "string \<Rightarrow> string \<Rightarrow> bool" where
  "rule_bypasses hostname r \<longleftrightarrow> no_proxy_match hostname [r]"

lemma no_proxy_any: "no_proxy_match hostname rules \<longleftrightarrow> (\<exists>r \<in> set rules. rule_bypasses hostname r)"
proof (induction rules)
  case Nil
  then show ?case by simp
next
  case (Cons r rules)
  have "no_proxy_match hostname (r # rules) \<longleftrightarrow> no_proxy_match hostname [r] \<or> no_proxy_match hostname rules"
    by (cases "trim r = []"; cases "trim r = ''*''"; cases "strip_prefix ''.'' (trim r)") (auto simp: Let_def)
  then show ?case using Cons by (simp add: rule_bypasses_def)
qed

text \<open>
  A rule that is a name is documented as an exact match, but every name with a dot also goes
  through the test for address ranges, which compares beginnings: a host that starts with the
  rule bypasses the proxy too, and so does an address that starts with the same digits.
\<close>

lemma exact_rule_matches_prefix:
  "no_proxy_match ''example.com.evil.org'' [''example.com'']"
  "no_proxy_match ''100.64.0.1'' [''10.0.0.0/8'']"
  "no_proxy_match ''192.168.1.10'' [''192.168.1.1'']"
  by code_simp+

text \<open>A path that contains a URL is taken for an absolute URI.\<close>

lemma path_with_url_mistaken:
  "request_url ''/get?from=http://m/f'' [(''host'', ''deb.local'')] = Inr ''get?from=http://m/f''"
  by code_simp

end
