(* ===== verification/Connect_Tunnel.thy ===== *)
theory Connect_Tunnel
  imports Proxy_Rules
begin

text \<open>
  The CONNECT tunnel of \<open>src/src/proxy.rs\<close> (\<open>handle_connect_tunnel\<close>). What the client sends is the
  string of its bytes and what ends it; the network answers through \<open>tunnel_env\<close>: which
  connections can be made, what an HTTP proxy replies, and whether the client still takes a
  reply. Base64 is a parameter. The result says what the client and the proxy are sent before
  bytes are copied, and between whom they are copied then.
\<close>

datatype input_end = In_eof | In_error

datatype head_read = Head_eof | Head_failed | Head_too_long | Head string string

definition crlf2 :: string where
  "crlf2 = [CHR 0x0D, CHR 0x0A, CHR 0x0D, CHR 0x0A]"

text \<open>The loop that reads the head byte by byte; what it has not read stays in the stream.\<close>

fun read_head :: "string \<Rightarrow> string \<Rightarrow> input_end \<Rightarrow> head_read" where
  "read_head buf [] fin = (case fin of In_eof \<Rightarrow> Head_eof | In_error \<Rightarrow> Head_failed)"
| "read_head buf (c # cs) fin =
     (let b = buf @ [c] in
      if ends_with b crlf2 then Head b cs
      else if length b > 8192 then Head_too_long
      else read_head b cs fin)"

text \<open>The reply of a proxy is read in the same way, but every end of the loop goes on.\<close>

fun read_reply :: "string \<Rightarrow> string \<Rightarrow> string \<times> string" where
  "read_reply buf [] = (buf, [])"
| "read_reply buf (c # cs) =
     (let b = buf @ [c] in
      if ends_with b crlf2 \<or> length b > 4096 then (b, cs) else read_reply b cs)"

subsection \<open>The request line\<close>

text \<open>
  \<open>String::from_utf8_lossy\<close>: every longest beginning of a character that is not completed
  becomes the three bytes of U+FFFD. The first number is the length of a character at the head
  of the bytes, or 0; the second the length of what is replaced then.
\<close>

definition byte_at :: "nat \<Rightarrow> string \<Rightarrow> nat" where
  "byte_at i s = (if i < length s then of_char (s ! i) else 0)"

definition between :: "nat \<Rightarrow> nat \<Rightarrow> nat \<Rightarrow> bool" where
  "between lo hi b \<longleftrightarrow> lo \<le> b \<and> b \<le> hi"

definition utf8_char :: "string \<Rightarrow> nat \<times> nat" where
  "utf8_char s =
     (let b0 = byte_at 0 s; b1 = byte_at 1 s;
          more = (\<lambda>i. between 128 191 (byte_at i s)) in
      if b0 < 128 then (1, 1)
      else if between 194 223 b0 then (if more 1 then (2, 2) else (0, 1))
      else if between 224 239 b0 then
        (if between (if b0 = 224 then 160 else 128) (if b0 = 237 then 159 else 191) b1
         then (if more 2 then (3, 3) else (0, 2)) else (0, 1))
      else if between 240 244 b0 then
        (if between (if b0 = 240 then 144 else 128) (if b0 = 244 then 143 else 191) b1
         then (if more 2 then (if more 3 then (4, 4) else (0, 3)) else (0, 2)) else (0, 1))
      else (0, 1))"

lemma utf8_char_pos: "0 < snd (utf8_char s)"
  by (simp add: utf8_char_def Let_def)

function from_utf8_lossy :: "string \<Rightarrow> string" where
  "from_utf8_lossy s =
     (if s = [] then []
      else (if fst (utf8_char s) = 0 then [CHR 0xEF, CHR 0xBF, CHR 0xBD] else take (fst (utf8_char s)) s)
           @ from_utf8_lossy (drop (snd (utf8_char s)) s))"
  by pat_completeness auto

termination
  by (relation "measure length") (simp_all add: utf8_char_pos)

declare from_utf8_lossy.simps [simp del]

text \<open>\<open>lines().next()\<close> and \<open>split_whitespace\<close>.\<close>

definition first_line :: "string \<Rightarrow> string" where
  "first_line s =
     (case split_once (CHR 0x0A) s of
        None \<Rightarrow> s
      | Some (l, _) \<Rightarrow> if l \<noteq> [] \<and> last l = CHR 0x0D then butlast l else l)"

definition split_whitespace :: "string \<Rightarrow> string list" where
  "split_whitespace s =
     filter (\<lambda>w. w \<noteq> []) (split_on (CHR '' '') (map (\<lambda>c. if is_ws c then CHR '' '' else c) s))"

definition u16_max :: nat where
  "u16_max = 65535"

text \<open>Host and port of the request; \<open>None\<close> is the answer 400.\<close>

definition parse_authority :: "string \<Rightarrow> (string \<times> nat) option" where
  "parse_authority authority =
     (case rsplit_once (CHR '':'') authority of
        Some (h, p) \<Rightarrow> map_option (Pair h) (parse_uint u16_max p)
      | None \<Rightarrow> Some (authority, 443))"

definition parse_connect :: "string \<Rightarrow> (string \<times> nat) option" where
  "parse_connect buf =
     (case split_whitespace (first_line (from_utf8_lossy buf)) of
        verb # authority # _ \<Rightarrow> if verb = ''CONNECT'' then parse_authority authority else None
      | _ \<Rightarrow> None)"

subsection \<open>The tunnel\<close>

record tunnel_env =
  te_connect :: "string \<Rightarrow> nat \<Rightarrow> bool"
  te_socks :: "string \<Rightarrow> nat \<Rightarrow> string \<Rightarrow> nat \<Rightarrow> bool"
  te_connect_proxy :: "string \<Rightarrow> bool"
  te_proxy_write :: bool
  te_proxy_reply :: string
  te_client_write :: bool
  te_base64 :: "string \<Rightarrow> string"

datatype route = Direct string nat | Via_socks string nat | Via_http string nat

record tunnel =
  tn_answer :: string
  tn_to_proxy :: string
  tn_route :: "route option"
  tn_client_rest :: string
  tn_proxy_rest :: string

definition established :: string where
  "established = ''HTTP/1.1 200 Connection Established'' @ crlf2"

definition bad_gateway :: string where
  "bad_gateway = ''HTTP/1.1 502 Bad Gateway'' @ crlf2"

definition bad_request :: string where
  "bad_request = ''HTTP/1.1 400 Bad Request'' @ crlf2"

text \<open>The task ends without copying, after an answer or without one.\<close>

definition closed :: "string \<Rightarrow> tunnel" where
  "closed answer = \<lparr>tn_answer = answer, tn_to_proxy = [], tn_route = None, tn_client_rest = [], tn_proxy_rest = []\<rparr>"

text \<open>The reply 200 and, if the client takes it, the copying in both directions.\<close>

definition open_tunnel :: "tunnel_env \<Rightarrow> route \<Rightarrow> string \<Rightarrow> string \<Rightarrow> string \<Rightarrow> tunnel" where
  "open_tunnel env r sent client_rest proxy_rest =
     \<lparr>tn_answer = established, tn_to_proxy = sent,
      tn_route = (if te_client_write env then Some r else None),
      tn_client_rest = client_rest, tn_proxy_rest = proxy_rest\<rparr>"

definition connect_request :: "tunnel_env \<Rightarrow> upstream_proxy \<Rightarrow> string \<Rightarrow> nat \<Rightarrow> string" where
  "connect_request env up hostname portno =
     ''CONNECT '' @ hostname @ '':'' @ dec portno @ '' HTTP/1.1'' @ [CHR 0x0D, CHR 0x0A] @
     (case (username up, password up) of
        (Some user, Some pass) \<Rightarrow>
          ''Proxy-Authorization: Basic '' @ te_base64 env (user @ '':'' @ pass) @ crlf2
      | _ \<Rightarrow> [CHR 0x0D, CHR 0x0A])"

definition accepted_reply :: "string \<Rightarrow> bool" where
  "accepted_reply reply \<longleftrightarrow> starts_with reply ''HTTP/1.1 200'' \<or> starts_with reply ''HTTP/1.0 200''"

definition tunnel_via_http :: "tunnel_env \<Rightarrow> upstream_proxy \<Rightarrow> string \<Rightarrow> nat \<Rightarrow> string \<Rightarrow> tunnel" where
  "tunnel_via_http env up hostname portno rest =
     (if te_connect_proxy env (Config_Parse.host up @ '':'' @ dec (Config_Parse.port up)) then
        let sent = connect_request env up hostname portno in
        if \<not> te_proxy_write env then (closed bad_gateway)\<lparr>tn_to_proxy := sent\<rparr>
        else (let (reply, proxy_rest) = read_reply [] (te_proxy_reply env) in
              if accepted_reply (from_utf8_lossy reply)
              then open_tunnel env (Via_http hostname portno) sent rest proxy_rest
              else (closed bad_gateway)\<lparr>tn_to_proxy := sent\<rparr>)
      else closed bad_gateway)"

definition connect_upstream ::
    "tunnel_env \<Rightarrow> upstream_proxy option \<Rightarrow> string list \<Rightarrow> string \<Rightarrow> nat \<Rightarrow> string \<Rightarrow> tunnel" where
  "connect_upstream env upstream no_proxy hostname portno rest =
     (case (if no_proxy_match hostname no_proxy then None else upstream) of
        None \<Rightarrow>
          if te_connect env hostname portno then open_tunnel env (Direct hostname portno) [] rest []
          else closed bad_gateway
      | Some up \<Rightarrow>
          (case proxy_type up of
             Socks5 \<Rightarrow>
               if te_socks env (Config_Parse.host up) (Config_Parse.port up) hostname portno
               then open_tunnel env (Via_socks hostname portno) [] rest []
               else closed bad_gateway
           | _ \<Rightarrow> tunnel_via_http env up hostname portno rest))"

definition handle_connect_tunnel ::
    "tunnel_env \<Rightarrow> upstream_proxy option \<Rightarrow> string list \<Rightarrow> string \<Rightarrow> input_end \<Rightarrow> tunnel" where
  "handle_connect_tunnel env upstream no_proxy input fin =
     (case read_head [] input fin of
        Head_eof \<Rightarrow> closed []
      | Head_failed \<Rightarrow> closed []
      | Head_too_long \<Rightarrow> closed bad_request
      | Head buf rest \<Rightarrow>
          (case parse_connect buf of
             None \<Rightarrow> closed bad_request
           | Some (hostname, portno) \<Rightarrow> connect_upstream env upstream no_proxy hostname portno rest))"

subsection \<open>Reading the head\<close>

lemma read_head_Head:
  assumes "read_head buf s fin = Head b rest" "length buf \<le> 8192"
  shows "\<exists>p. s = p @ rest \<and> b = buf @ p \<and> ends_with b crlf2 \<and> length b \<le> 8193"
  using assms
proof (induction s arbitrary: buf)
  case Nil
  then show ?case by (simp split: input_end.splits)
next
  case (Cons c cs)
  show ?case
  proof (cases "ends_with (buf @ [c]) crlf2")
    case True
    then show ?thesis using Cons.prems by (intro exI [of _ "[c]"]) auto
  next
    case False
    then have "read_head (buf @ [c]) cs fin = Head b rest" "length (buf @ [c]) \<le> 8192"
      using Cons.prems by (auto simp: Let_def split: if_splits)
    from Cons.IH [OF this] show ?thesis by auto
  qed
qed

lemma no_lf_no_end: "CHR 0x0A \<notin> set b \<Longrightarrow> \<not> ends_with b crlf2"
  by (auto simp: ends_with_iff crlf2_def)

lemma read_head_line:
  assumes "CHR 0x0A \<notin> set (buf @ line)" "length (buf @ line) \<le> 8188"
  shows "read_head buf (line @ crlf2 @ rest) fin = Head (buf @ line @ crlf2) rest"
  using assms
proof (induction line arbitrary: buf)
  case Nil
  have "\<not> ends_with (buf @ t) crlf2" if "t \<in> {[CHR 0x0D], [CHR 0x0D, CHR 0x0A], [CHR 0x0D, CHR 0x0A, CHR 0x0D]}" for t
  proof
    assume "ends_with (buf @ t) crlf2"
    then obtain x where x: "buf @ t = x @ crlf2" by (auto simp: ends_with_iff)
    then have "length (filter ((=) (CHR 0x0A)) (buf @ t)) = length (filter ((=) (CHR 0x0A)) (x @ crlf2))" by simp
    moreover have "filter ((=) (CHR 0x0A)) buf = []" using Nil.prems(1) by (auto simp: filter_empty_conv)
    ultimately show False using that by (auto simp: crlf2_def)
  qed
  from this [of "[CHR 0x0D]"] this [of "[CHR 0x0D, CHR 0x0A]"] this [of "[CHR 0x0D, CHR 0x0A, CHR 0x0D]"]
  show ?case using Nil.prems(2) by (simp add: crlf2_def ends_with_iff)
next
  case (Cons c line)
  have "\<not> ends_with (buf @ [c]) crlf2" by (rule no_lf_no_end) (use Cons.prems in simp)
  then show ?case using Cons.IH [of "buf @ [c]"] Cons.prems by (simp add: Let_def)
qed

lemma lossy_ascii: "\<forall>c \<in> set s. of_char c < (128 :: nat) \<Longrightarrow> from_utf8_lossy s = s"
proof (induction s)
  case Nil
  then show ?case by (simp add: from_utf8_lossy.simps)
next
  case (Cons c s)
  then have "utf8_char (c # s) = (1, 1)" by (simp add: utf8_char_def byte_at_def)
  then show ?case using Cons by (simp add: from_utf8_lossy.simps [of "c # s"])
qed

subsection \<open>The request line\<close>

lemma words_no_ws:
  assumes "w \<in> set (split_whitespace s)" "c \<in> set w"
  shows "\<not> is_ws c"
proof
  let ?f = "\<lambda>c. if is_ws c then CHR '' '' else c"
  assume ws: "is_ws c"
  have w: "w \<in> set (split_on (CHR '' '') (map ?f s))" using assms(1) by (simp add: split_whitespace_def)
  have "set (split_on (CHR '' '') t) \<subseteq> {w. set w \<subseteq> set t}" for t :: string
    by (induction t) (auto split: list.splits)
  then have "c \<in> ?f ` set s" using w assms(2) by fastforce
  then have "c = CHR '' ''" using ws by (auto split: if_splits)
  then show False using split_on_no_sep [OF w] assms(2) by simp
qed

lemma parse_connect_no_ws:
  assumes "parse_connect buf = Some (hostname, portno)"
  shows "(\<forall>c \<in> set hostname. \<not> is_ws c) \<and> portno \<le> 65535"
proof -
  obtain verb authority more where w: "split_whitespace (first_line (from_utf8_lossy buf)) = verb # authority # more"
      "parse_authority authority = Some (hostname, portno)"
    using assms by (auto simp: parse_connect_def split: list.splits if_splits)
  have "\<not> is_ws c" if "c \<in> set authority" for c
    using words_no_ws [of authority "first_line (from_utf8_lossy buf)" c] w(1) that by simp
  moreover have "set hostname \<subseteq> set authority"
    using w(2) by (auto simp: parse_authority_def rsplit_once_Some split: option.splits)
  moreover have "portno \<le> 65535"
    using w(2) parse_uint_le by (fastforce simp: parse_authority_def u16_max_def split: option.splits)
  ultimately show ?thesis by blast
qed

lemma ws_chars: "is_ws (CHR '' '')" "is_ws (CHR 0x0A)" "is_ws (CHR 0x0D)"
  by (simp_all add: is_ws_def)

lemma split_words:
  assumes "\<forall>w \<in> {a, b, c}. w \<noteq> [] \<and> (\<forall>x \<in> set w. \<not> is_ws x)"
  shows "split_whitespace (a @ '' '' @ b @ '' '' @ c) = [a, b, c]"
proof -
  have keep: "map (\<lambda>x. if is_ws x then CHR '' '' else x) w = w" if "w \<in> {a, b, c}" for w
    using assms that by (auto intro!: map_idI)
  have "CHR '' '' \<notin> set w" if "w \<in> {a, b, c}" for w using assms that ws_chars(1) by blast
  then show ?thesis using assms keep
    by (simp add: split_whitespace_def ws_chars split_on_append split_on_single)
qed

definition connect_line :: "string \<Rightarrow> nat \<Rightarrow> string" where
  "connect_line hostname portno = ''CONNECT'' @ '' '' @ (hostname @ '':'' @ dec portno) @ '' '' @ ''HTTP/1.1''"

definition plain_host :: "string \<Rightarrow> bool" where
  "plain_host h \<longleftrightarrow> (\<forall>c \<in> set h. of_char c < (128 :: nat) \<and> \<not> is_ws c)"

lemma dec_chars: "c \<in> set (dec n) \<Longrightarrow> of_char c < (128 :: nat) \<and> \<not> is_ws c"
  using dec_digits [of c n] digit_not_ws [of c] by (auto simp: is_digit_def Let_def)

lemma connect_line_chars:
  assumes "plain_host hostname"
  shows "\<forall>c \<in> set (connect_line hostname portno). of_char c < (128 :: nat) \<and> c \<noteq> CHR 0x0A \<and> c \<noteq> CHR 0x0D"
  using assms dec_chars [of _ portno] ws_chars by (auto simp: connect_line_def plain_host_def)

lemma parse_connect_line:
  assumes "plain_host hostname" "portno \<le> 65535"
  shows "parse_connect (connect_line hostname portno @ crlf2) = Some (hostname, portno)"
proof -
  let ?line = "connect_line hostname portno"
  have line: "CHR 0x0A \<notin> set ?line" using connect_line_chars [OF assms(1)] by blast
  have "from_utf8_lossy (?line @ crlf2) = ?line @ crlf2"
    by (rule lossy_ascii) (use connect_line_chars [OF assms(1)] in \<open>auto simp: crlf2_def\<close>)
  moreover have "first_line (?line @ crlf2) = ?line"
    using split_once_append [of "CHR 0x0A" "?line @ [CHR 0x0D]" "[CHR 0x0D, CHR 0x0A]"] line
    by (simp add: first_line_def crlf2_def)
  moreover have "split_whitespace ?line = [''CONNECT'', hostname @ '':'' @ dec portno, ''HTTP/1.1'']"
    unfolding connect_line_def by (rule split_words)
      (use assms(1) dec_chars [of _ portno] in \<open>auto simp: plain_host_def is_ws_def\<close>)
  moreover have "rsplit_once (CHR '':'') (hostname @ '':'' @ dec portno) = Some (hostname, dec portno)"
    using dec_not_in [of "CHR '':''" portno] by (simp add: rsplit_once_Some)
  ultimately show ?thesis using assms(2)
    by (simp add: parse_connect_def parse_authority_def u16_max_def parse_uint_dec)
qed

lemma via_http_route:
  assumes "tn_route (tunnel_via_http env up hostname portno rest) = Some r"
  shows "tn_client_rest (tunnel_via_http env up hostname portno rest) = rest \<and> r = Via_http hostname portno
     \<and> accepted_reply (from_utf8_lossy (fst (read_reply [] (te_proxy_reply env))))
     \<and> tn_to_proxy (tunnel_via_http env up hostname portno rest) = connect_request env up hostname portno"
  using assms
  by (cases "read_reply [] (te_proxy_reply env)")
    (auto simp: tunnel_via_http_def closed_def open_tunnel_def Let_def split: if_splits)

lemma connect_upstream_route:
  assumes "tn_route (connect_upstream env upstream no_proxy hostname portno rest) = Some r"
  shows "tn_client_rest (connect_upstream env upstream no_proxy hostname portno rest) = rest
     \<and> (case (if no_proxy_match hostname no_proxy then None else upstream) of
          None \<Rightarrow> r = Direct hostname portno \<and> te_connect env hostname portno
        | Some up \<Rightarrow>
            if proxy_type up = Socks5
            then r = Via_socks hostname portno
                 \<and> te_socks env (Config_Parse.host up) (Config_Parse.port up) hostname portno
            else r = Via_http hostname portno
                 \<and> accepted_reply (from_utf8_lossy (fst (read_reply [] (te_proxy_reply env))))
                 \<and> tn_to_proxy (connect_upstream env upstream no_proxy hostname portno rest)
                     = connect_request env up hostname portno)"
proof (cases "if no_proxy_match hostname no_proxy then None else upstream")
  case None
  then show ?thesis using assms by (auto simp: connect_upstream_def open_tunnel_def closed_def split: if_splits)
next
  case (Some up)
  show ?thesis
  proof (cases "proxy_type up = Socks5")
    case True
    then show ?thesis using assms Some
      by (auto simp: connect_upstream_def open_tunnel_def closed_def split: if_splits)
  next
    case False
    then have c: "connect_upstream env upstream no_proxy hostname portno rest = tunnel_via_http env up hostname portno rest"
      using Some by (cases "proxy_type up") (simp_all add: connect_upstream_def)
    show ?thesis using via_http_route [OF assms [unfolded c]] Some False unfolding c by simp
  qed
qed

subsection \<open>Properties of the tunnel\<close>

text \<open>
  A well formed CONNECT request reaches the host and port it names: the head is read to its
  end and no further, both come out of the request line as they were written, and every byte the
  client sent after the head is left for the tunnel.
\<close>

lemma connect_request_reaches:
  assumes "plain_host hostname" and "portno \<le> 65535" and "length (connect_line hostname portno) \<le> 8188"
  shows "handle_connect_tunnel env upstream no_proxy (connect_line hostname portno @ crlf2 @ payload) fin
     = connect_upstream env upstream no_proxy hostname portno payload"
proof -
  have "CHR 0x0A \<notin> set ([] @ connect_line hostname portno)" using connect_line_chars [OF assms(1)] by force
  from read_head_line [OF this, of payload fin] show ?thesis
    using assms(3) parse_connect_line [OF assms(1,2)] by (simp add: handle_connect_tunnel_def)
qed

definition open_net :: tunnel_env where
  "open_net = \<lparr>te_connect = (\<lambda>h p. True), te_socks = (\<lambda>a b h p. False), te_connect_proxy = (\<lambda>a. True),
     te_proxy_write = True, te_proxy_reply = ''HTTP/1.1 200 OK'' @ crlf2, te_client_write = True, te_base64 = id\<rparr>"

lemma connect_request_reaches_witness:
  "tn_route (handle_connect_tunnel open_net None [] (connect_line ''deb.debian.org'' 443 @ crlf2 @ ''hello'') In_eof)
     = Some (Direct ''deb.debian.org'' 443)"
proof -
  have d: "length (dec 443) = 3" by (simp add: dec.simps)
  have h: "plain_host ''deb.debian.org''" by (simp add: plain_host_def is_ws_def)
  have "length (connect_line ''deb.debian.org'' 443) \<le> 8188" by (simp add: connect_line_def d)
  from connect_request_reaches [OF h _ this, of open_net None "[]" "''hello''" In_eof] show ?thesis
    by (simp add: connect_upstream_def open_net_def open_tunnel_def)
qed

text \<open>
  C19. A tunnel is opened only as it was asked for: bytes are copied only after a complete head
  of at most 8193 bytes whose request line names that host and port, to that host directly when
  a rule bypasses the upstream proxy or there is none, and else only through the upstream
  proxy once the proxy has said yes; the host has no white space in it, so it cannot smuggle a
  line into the request to the proxy. Everything after the head, and nothing else, is copied.
\<close>

theorem tunnel_opens_as_asked:
  assumes "tn_route (handle_connect_tunnel env upstream no_proxy input fin) = Some r"
  shows "\<exists>head hostname portno. input = head @ tn_client_rest (handle_connect_tunnel env upstream no_proxy input fin)
     \<and> ends_with head crlf2 \<and> length head \<le> 8193 \<and> parse_connect head = Some (hostname, portno)
     \<and> (\<forall>c \<in> set hostname. \<not> is_ws c) \<and> portno \<le> 65535
     \<and> (case (if no_proxy_match hostname no_proxy then None else upstream) of
          None \<Rightarrow> r = Direct hostname portno \<and> te_connect env hostname portno
        | Some up \<Rightarrow>
            if proxy_type up = Socks5
            then r = Via_socks hostname portno
                 \<and> te_socks env (Config_Parse.host up) (Config_Parse.port up) hostname portno
            else r = Via_http hostname portno
                 \<and> accepted_reply (from_utf8_lossy (fst (read_reply [] (te_proxy_reply env))))
                 \<and> tn_to_proxy (handle_connect_tunnel env upstream no_proxy input fin)
                     = connect_request env up hostname portno)"
proof -
  let ?t = "handle_connect_tunnel env upstream no_proxy input fin"
  obtain head rest where h: "read_head [] input fin = Head head rest"
    using assms by (cases "read_head [] input fin") (auto simp: handle_connect_tunnel_def closed_def)
  obtain hostname portno where p: "parse_connect head = Some (hostname, portno)"
    using assms h by (cases "parse_connect head") (auto simp: handle_connect_tunnel_def closed_def)
  have t: "?t = connect_upstream env upstream no_proxy hostname portno rest"
    using h p by (simp add: handle_connect_tunnel_def)
  have head: "input = head @ rest" "ends_with head crlf2" "length head \<le> 8193"
    using read_head_Head [OF h] by auto
  have r: "tn_route (connect_upstream env upstream no_proxy hostname portno rest) = Some r" using assms t by simp
  from connect_upstream_route [OF r] show ?thesis
    using p head parse_connect_no_ws [OF p] unfolding t
    by (intro exI [of _ head] exI [of _ hostname] exI [of _ portno] conjI; simp)
qed

theorem tunnel_opens_as_asked_witness:
  "let input = connect_line ''deb.debian.org'' 443 @ crlf2 @ ''hello'';
       t = handle_connect_tunnel open_net None [] input In_eof
   in tn_route t = Some (Direct ''deb.debian.org'' 443) \<and> (\<exists>head. input = head @ tn_client_rest t \<and> ends_with head crlf2)"
proof -
  let ?input = "connect_line ''deb.debian.org'' 443 @ crlf2 @ ''hello''"
  have h: "plain_host ''deb.debian.org''" by (simp add: plain_host_def is_ws_def)
  have "length (dec 443) = 3" by (simp add: dec.simps)
  then have len: "length (connect_line ''deb.debian.org'' 443) \<le> 8188" by (simp add: connect_line_def)
  have p: "parse_connect (connect_line ''deb.debian.org'' 443 @ crlf2) = Some (''deb.debian.org'', 443)"
    by (rule parse_connect_line [OF h]) simp
  have "read_head [] ?input In_eof = Head ([] @ connect_line ''deb.debian.org'' 443 @ crlf2) ''hello''"
    by (rule read_head_line) (use connect_line_chars [OF h, of 443] len in auto)
  then have r: "tn_route (handle_connect_tunnel open_net None [] ?input In_eof) = Some (Direct ''deb.debian.org'' 443)"
    using p by (simp add: handle_connect_tunnel_def connect_upstream_def open_net_def open_tunnel_def)
  from tunnel_opens_as_asked [OF r] show ?thesis using r by (auto simp: Let_def)
qed

text \<open>
  The reply of an HTTP proxy counts when its first twelve bytes say so: a reply that ends there,
  without the end of its head, is taken for a tunnel, and so is a status that only begins with 200.
\<close>

lemma read_reply_short:
  "CHR 0x0A \<notin> set (buf @ s) \<Longrightarrow> length (buf @ s) \<le> 4096 \<Longrightarrow> read_reply buf s = (buf @ s, [])"
proof (induction s arbitrary: buf)
  case Nil
  then show ?case by simp
next
  case (Cons c s)
  have "\<not> ends_with (buf @ [c]) crlf2" by (rule no_lf_no_end) (use Cons.prems(1) in simp)
  then show ?case using Cons.IH [of "buf @ [c]"] Cons.prems by (simp add: Let_def)
qed

lemma cut_reply_accepted:
  "accepted_reply (from_utf8_lossy (fst (read_reply [] ''HTTP/1.1 200'')))"
  "accepted_reply (from_utf8_lossy (fst (read_reply [] ''HTTP/1.1 2009 N'')))"
  by (simp_all add: read_reply_short lossy_ascii accepted_reply_def starts_with_def del: read_reply.simps)

text \<open>
  Of a reply whose head is longer than 4097 bytes the rest is not skipped: it is what the client
  receives first from its tunnel.
\<close>

lemma long_reply_leaks:
  assumes "CHR 0x0A \<notin> set (buf @ line)" "length (buf @ line) = 4097" "length buf \<le> 4096"
  shows "read_reply buf (line @ rest) = (buf @ line, rest)"
  using assms
proof (induction line arbitrary: buf)
  case Nil
  then show ?case by simp
next
  case (Cons c line)
  have "\<not> ends_with (buf @ [c]) crlf2" by (rule no_lf_no_end) (use Cons.prems(1) in simp)
  then show ?case using Cons.IH [of "buf @ [c]"] Cons.prems
    by (cases "length buf = 4096") (auto simp: Let_def)
qed

text \<open>An IPv6 address without a port is refused, or cut at its last colon.\<close>

lemma ipv6_authority:
  "parse_authority ''[::1]'' = None" "parse_authority ''fe80::1'' = Some (''fe80:'', 1)"
  by (simp_all add: parse_authority_def rsplit_once_def parse_uint_def is_digit_def digit_val_def u16_max_def)

end
