(* ===== verification/Failure_Cooldown.thy ===== *)
theory Failure_Cooldown
  imports Assoc_Map "HOL-Library.Multiset"
begin

text \<open>
  \<open>FailureTracker\<close> of \<open>src/src/proxy.rs\<close>: per URL the number of failures, up to four, and the time
  of the last one. An \<open>Instant\<close> is a number of nanoseconds; the mutex makes every method one step.
\<close>

definition FAILURE_COOLDOWN_SECS :: nat where "FAILURE_COOLDOWN_SECS = 60"
definition MAX_FAILURES_BEFORE_COOLDOWN :: nat where "MAX_FAILURES_BEFORE_COOLDOWN = 3"
definition MAX_FAILURE_ENTRIES :: nat where "MAX_FAILURE_ENTRIES = 10000"

type_synonym failures = "(string, nat \<times> nat) amap"

text \<open>The map without the entries that are older than the median.\<close>

definition drop_old_half :: "failures \<Rightarrow> failures" where
  "drop_old_half m =
     (let ages = map (\<lambda>(_, _, t). t) m; mid = length ages div 2; cutoff = sort ages ! mid
      in filter (\<lambda>(_, _, t). cutoff \<le> t) m)"

definition record_failure :: "nat \<Rightarrow> string \<Rightarrow> failures \<Rightarrow> failures" where
  "record_failure now url m =
     (let failed_times = (case am_get url m of Some (n, _) \<Rightarrow> n | None \<Rightarrow> 0);
          m1 = am_insert url (min (failed_times + 1) (MAX_FAILURES_BEFORE_COOLDOWN + 1), now) m
      in if length m1 > MAX_FAILURE_ENTRIES then drop_old_half m1 else m1)"

definition record_success :: "string \<Rightarrow> failures \<Rightarrow> failures" where
  "record_success url m = am_remove url m"

definition is_in_cooldown :: "nat \<Rightarrow> string \<Rightarrow> failures \<Rightarrow> bool" where
  "is_in_cooldown now url m =
     (case am_get url m of
        Some (failed_times, last_failure) \<Rightarrow>
          failed_times \<ge> MAX_FAILURES_BEFORE_COOLDOWN \<and> now - last_failure < FAILURE_COOLDOWN_SECS * 10 ^ 9
      | None \<Rightarrow> False)"

subsection \<open>What the tracker is for\<close>

datatype outcome_event = Failed_at nat string | Succeeded string

fun track :: "outcome_event \<Rightarrow> failures \<Rightarrow> failures" where
  "track (Failed_at t u) m = record_failure t u m"
| "track (Succeeded u) m = record_success u m"

definition track_all :: "outcome_event list \<Rightarrow> failures" where
  "track_all evs = fold track evs []"

text \<open>The failures of a URL since its last success, the latest first.\<close>

fun recent_failures :: "string \<Rightarrow> outcome_event list \<Rightarrow> nat list" where
  "recent_failures u [] = []"
| "recent_failures u (Failed_at t v # evs) = (if u = v then t # recent_failures u evs else recent_failures u evs)"
| "recent_failures u (Succeeded v # evs) = (if u = v then [] else recent_failures u evs)"

fun failed_urls :: "outcome_event list \<Rightarrow> string set" where
  "failed_urls [] = {}"
| "failed_urls (Failed_at t v # evs) = insert v (failed_urls evs)"
| "failed_urls (Succeeded v # evs) = failed_urls evs"

lemma failed_urls_finite: "finite (failed_urls evs)"
  by (induction evs rule: failed_urls.induct) auto

lemma am_length_keys: "am_ok m \<Longrightarrow> length m = card (fst ` set m)"
  by (metis am_ok_def distinct_card length_map set_map)

lemma fst_remove: "fst ` set (am_remove k m) \<subseteq> fst ` set m"
  by (auto simp: am_remove_def)

definition tracks :: "outcome_event list \<Rightarrow> failures \<Rightarrow> bool" where
  "tracks evs m \<longleftrightarrow>
     am_ok m \<and> fst ` set m \<subseteq> failed_urls evs \<and>
     (\<forall>u. am_get u m = (case recent_failures u evs of
            [] \<Rightarrow> None | t # ts \<Rightarrow> Some (min (length (t # ts)) (MAX_FAILURES_BEFORE_COOLDOWN + 1), t)))"

lemma tracks_fold:
  "card (failed_urls (rev evs)) \<le> MAX_FAILURE_ENTRIES \<Longrightarrow> tracks (rev evs) (fold track evs [])"
proof (induction evs rule: rev_induct)
  case Nil
  then show ?case by (simp add: tracks_def)
next
  case (snoc e evs)
  have sub: "failed_urls (rev evs) \<subseteq> failed_urls (rev (evs @ [e]))" by (cases e) auto
  then have "card (failed_urls (rev evs)) \<le> MAX_FAILURE_ENTRIES"
    using card_mono [OF failed_urls_finite sub] snoc.prems by linarith
  then have ih: "tracks (rev evs) (fold track evs [])" by (rule snoc.IH)
  let ?m = "fold track evs []"
  show ?case
  proof (cases e)
    case (Failed_at t u)
    define c where "c = (case am_get u ?m of Some (n, _) \<Rightarrow> n | None \<Rightarrow> 0)"
    let ?m1 = "am_insert u (min (c + 1) (MAX_FAILURES_BEFORE_COOLDOWN + 1), t) ?m"
    have ok: "am_ok ?m1" using ih by (simp add: tracks_def)
    have keys: "fst ` set ?m1 \<subseteq> failed_urls (rev (evs @ [e]))"
      using ih fst_am_insert [of u "(min (c + 1) (MAX_FAILURES_BEFORE_COOLDOWN + 1), t)" ?m] Failed_at
      by (auto simp: tracks_def)
    then have "length ?m1 \<le> MAX_FAILURE_ENTRIES"
      using card_mono [OF failed_urls_finite keys] snoc.prems am_length_keys [OF ok] by simp
    then have m1: "fold track (evs @ [e]) [] = ?m1"
      using Failed_at by (simp add: record_failure_def c_def Let_def)
    have "c = min (length (recent_failures u (rev evs))) (MAX_FAILURES_BEFORE_COOLDOWN + 1)"
      using ih by (auto simp: tracks_def c_def split: list.split)
    then show ?thesis
      unfolding m1 using ih ok keys Failed_at by (auto simp: tracks_def split: list.split)
  next
    case (Succeeded u)
    then show ?thesis
      using ih fst_remove [of u ?m] by (auto simp: tracks_def record_success_def)
  qed
qed



text \<open>
  When the map is cut, the URL that has just failed stays, and at least half of the entries do.
\<close>

lemma sorted_nth_count:
  fixes xs :: "nat list"
  assumes "i < length xs"
  shows "length xs - i \<le> length (filter (\<lambda>x. sort xs ! i \<le> x) xs)"
proof -
  have "mset (filter (\<lambda>x. sort xs ! i \<le> x) xs) = mset (filter (\<lambda>x. sort xs ! i \<le> x) (sort xs))"
    by (simp add: mset_filter)
  then have "length (filter (\<lambda>x. sort xs ! i \<le> x) xs) = length (filter (\<lambda>x. sort xs ! i \<le> x) (sort xs))"
    by (metis size_mset)
  also have "\<dots> \<ge> length (filter (\<lambda>x. sort xs ! i \<le> x) (drop i (sort xs)))"
    by (metis append_take_drop_id filter_append le_add2 length_append)
  moreover have "filter (\<lambda>x. sort xs ! i \<le> x) (drop i (sort xs)) = drop i (sort xs)"
    using assms by (auto simp: filter_id_conv in_set_conv_nth intro!: sorted_nth_mono)
  ultimately show ?thesis by simp
qed

lemma drop_old_half_keeps:
  assumes "m \<noteq> []"
  shows "length m - length m div 2 \<le> length (drop_old_half m)"
proof -
  let ?ages = "map (\<lambda>(_, _, t). t) m"
  have "length (drop_old_half m) = length (filter (\<lambda>t. sort ?ages ! (length m div 2) \<le> t) ?ages)"
    by (simp add: drop_old_half_def Let_def filter_map o_def case_prod_unfold)
  then show ?thesis using sorted_nth_count [of "length m div 2" ?ages] assms by simp
qed

lemma newest_is_kept:
  assumes "am_ok m" "\<forall>(u, n, t) \<in> set m. t \<le> now"
  shows "\<exists>n. am_get url (record_failure now url m) = Some (n, now)"
proof -
  define c where "c = (case am_get url m of Some (n, _) \<Rightarrow> n | None \<Rightarrow> 0)"
  let ?x = "min (c + 1) (MAX_FAILURES_BEFORE_COOLDOWN + 1)"
  let ?m1 = "am_insert url (?x, now) m"
  have ok: "am_ok ?m1" using assms(1) by simp
  have get: "am_get url ?m1 = Some (?x, now)" by simp
  then have mem: "(url, ?x, now) \<in> set ?m1" by (simp add: am_get_def map_of_SomeD)
  have old: "t \<le> now" if "(u, n, t) \<in> set ?m1" for u n t
  proof -
    have "(u, n, t) = (url, ?x, now) \<or> (u, n, t) \<in> set m"
      using that by (induction url "(?x, now)" m rule: am_insert.induct) (auto split: if_splits)
    then show ?thesis using assms(2) by auto
  qed
  have "am_get url (drop_old_half ?m1) = Some (?x, now)"
  proof -
    let ?ages = "map (\<lambda>(_, _, t). t) ?m1"
    have "length ?m1 div 2 < length ?m1" using mem by (cases ?m1) auto
    then have "sort ?ages ! (length ?m1 div 2) \<in> set ?ages" by (metis length_map length_sort nth_mem set_sort)
    then have "sort ?ages ! (length ?m1 div 2) \<le> now" using old by auto
    then have "(url, ?x, now) \<in> set (drop_old_half ?m1)" using mem by (simp add: drop_old_half_def Let_def)
    moreover have "am_ok (drop_old_half ?m1)" using ok by (simp add: drop_old_half_def Let_def)
    ultimately show ?thesis by (simp add: am_get_def am_ok_def)
  qed
  then show ?thesis using get by (auto simp: record_failure_def c_def Let_def)
qed

end
