(* ===== verification/Throttled_Stream.thy ===== *)
theory Throttled_Stream
  imports Token_Bucket
begin

text \<open>
  \<open>ThrottledPermitStream\<close> of \<open>src/src/proxy.rs\<close>: the body of a response cut into pieces that the
  bucket of the client's address can pay for. One call of \<open>poll_next\<close> is one step. The inner
  stream is the script of what its polls will say; the bucket is shared with the other responses
  to the same address, which is why a run lets anything happen to its tokens between two polls.
  The permit the stream holds is the subject of the theory Ip\_Limiter.
\<close>

datatype inner_poll = Inner_pending | Inner_end | Inner_error | Inner_chunk bytes

datatype poll_out = Poll_pending | Poll_item bytes | Poll_error | Poll_end

datatype throttle_state = Idle | Waiting

record throttle =
  th_inner :: "inner_poll list"
  th_bucket :: "token_bucket option"
  th_state :: throttle_state
  th_timer :: "nat option"
  th_pending :: "bytes list"

text \<open>What one poll finds: the token of cancellation, the clock, and whether the timer has run out.\<close>

record poll_env =
  pe_cancelled :: bool
  pe_now :: u64
  pe_timer_due :: bool

text \<open>The loop that cuts a chunk; with a bucket of size 0 it does not advance (\<open>None\<close>).\<close>

function slice_chunk :: "nat \<Rightarrow> bytes \<Rightarrow> bytes list option" where
  "slice_chunk mx rest =
     (if rest = [] then Some []
      else if mx = 0 then None
      else map_option (Cons (take mx rest)) (slice_chunk mx (drop mx rest)))"
  by pat_completeness auto

termination
  by (relation "measure (\<lambda>(mx, rest). length rest)") auto

declare slice_chunk.simps [simp del]

definition enqueue_chunk :: "bytes \<Rightarrow> throttle \<Rightarrow> throttle option" where
  "enqueue_chunk chunk s =
     (case th_bucket s of
        Some bk \<Rightarrow>
          if length chunk \<le> unat (max_tokens bk) then Some (s\<lparr>th_pending := th_pending s @ [chunk]\<rparr>)
          else map_option (\<lambda>ps. s\<lparr>th_pending := th_pending s @ ps\<rparr>)
                 (slice_chunk (unat (max_tokens bk)) chunk)
      | None \<Rightarrow> Some (s\<lparr>th_pending := th_pending s @ [chunk]\<rparr>))"

definition try_deliver :: "u64 \<Rightarrow> throttle \<Rightarrow> poll_out \<times> throttle" where
  "try_deliver now s =
     (case th_pending s of
        [] \<Rightarrow> (Poll_pending, s)
      | piece # rest \<Rightarrow>
          (case th_bucket s of
             Some bk \<Rightarrow>
               (case try_consume now (of_nat (length piece)) bk of
                  (True, bk1) \<Rightarrow> (Poll_item piece, s\<lparr>th_pending := rest, th_bucket := Some bk1\<rparr>)
                | (False, bk1) \<Rightarrow> (Poll_pending, s\<lparr>th_bucket := Some bk1\<rparr>))
           | None \<Rightarrow> (Poll_item piece, s\<lparr>th_pending := rest\<rparr>)))"

definition schedule_wake :: "u64 \<Rightarrow> throttle \<Rightarrow> throttle" where
  "schedule_wake now s =
     (case th_bucket s of
        None \<Rightarrow> s
      | Some bk \<Rightarrow>
          let remaining = sum_list (map length (th_pending s)) in
          if remaining = 0 then s
          else (let (wait_nanos, bk1) = wait_time_nanos now (of_nat remaining) bk;
                    ms = (if wait_nanos = 0 then 1 else max (unat wait_nanos div 1000000) 1)
                in s\<lparr>th_bucket := Some bk1, th_timer := Some ms\<rparr>))"

definition wait_for_tokens :: "u64 \<Rightarrow> throttle \<Rightarrow> poll_out \<times> throttle" where
  "wait_for_tokens now s = (Poll_pending, schedule_wake now (s\<lparr>th_state := Waiting\<rparr>))"

text \<open>Deliver from the pending pieces, else wait.\<close>

definition deliver_or_wait :: "u64 \<Rightarrow> throttle \<Rightarrow> poll_out \<times> throttle" where
  "deliver_or_wait now s =
     (case try_deliver now s of
        (Poll_pending, s1) \<Rightarrow> wait_for_tokens now s1
      | (item, s1) \<Rightarrow> (item, s1))"

definition poll_inner :: "throttle \<Rightarrow> inner_poll \<times> throttle" where
  "poll_inner s =
     (case th_inner s of [] \<Rightarrow> (Inner_end, s) | p # ps \<Rightarrow> (p, s\<lparr>th_inner := ps\<rparr>))"

definition poll_idle :: "u64 \<Rightarrow> throttle \<Rightarrow> (poll_out \<times> throttle) option" where
  "poll_idle now s =
     (if th_bucket s \<noteq> None \<and> th_pending s \<noteq> [] then Some (deliver_or_wait now s)
      else (case poll_inner s of
              (Inner_pending, s1) \<Rightarrow>
                if th_bucket s1 \<noteq> None \<and> th_pending s1 \<noteq> [] then Some (wait_for_tokens now s1)
                else Some (Poll_pending, s1)
            | (Inner_end, s1) \<Rightarrow>
                (case th_pending s1 of
                   [] \<Rightarrow> Some (Poll_end, s1)
                 | piece # rest \<Rightarrow>
                     if th_bucket s1 = None then Some (Poll_item piece, s1\<lparr>th_pending := rest\<rparr>)
                     else Some (wait_for_tokens now s1))
            | (Inner_error, s1) \<Rightarrow> Some (Poll_error, s1)
            | (Inner_chunk chunk, s1) \<Rightarrow>
                (case enqueue_chunk chunk s1 of
                   None \<Rightarrow> None
                 | Some s2 \<Rightarrow>
                     if th_bucket s2 = None then
                       Some (Poll_item (hd (th_pending s2)), s2\<lparr>th_pending := tl (th_pending s2)\<rparr>)
                     else Some (deliver_or_wait now s2))))"

definition poll_waiting :: "bool \<Rightarrow> u64 \<Rightarrow> throttle \<Rightarrow> poll_out \<times> throttle" where
  "poll_waiting timer_due now s =
     (if th_timer s \<noteq> None \<and> \<not> timer_due then (Poll_pending, s)
      else
        let s1 = s\<lparr>th_timer := None\<rparr> in
        case try_deliver now s1 of
          (Poll_pending, s2) \<Rightarrow>
            if th_pending s2 = [] then (Poll_pending, s2\<lparr>th_state := Idle\<rparr>)
            else (Poll_pending, schedule_wake now s2)
        | (item, s2) \<Rightarrow> (item, s2\<lparr>th_state := Idle\<rparr>))"

definition poll_next :: "poll_env \<Rightarrow> throttle \<Rightarrow> (poll_out \<times> throttle) option" where
  "poll_next env s =
     (if pe_cancelled env then Some (Poll_end, s)
      else (case th_state s of
              Idle \<Rightarrow> poll_idle (pe_now env) s
            | Waiting \<Rightarrow> Some (poll_waiting (pe_timer_due env) (pe_now env) s)))"

definition throttled :: "inner_poll list \<Rightarrow> token_bucket option \<Rightarrow> throttle" where
  "throttled body bk =
     \<lparr>th_inner = body, th_bucket = bk, th_state = Idle, th_timer = None, th_pending = []\<rparr>"

subsection \<open>A run of polls\<close>

text \<open>Between two polls other responses to the same address use the bucket; its size stays.\<close>

definition same_size :: "token_bucket option \<Rightarrow> token_bucket option \<Rightarrow> bool" where
  "same_size x y \<longleftrightarrow> map_option max_tokens x = map_option max_tokens y"

fun poll_all :: "(poll_env \<times> token_bucket option) list \<Rightarrow> throttle \<Rightarrow> (poll_out list \<times> throttle) option" where
  "poll_all [] s = Some ([], s)"
| "poll_all ((env, bk) # envs) s =
     (if \<not> same_size bk (th_bucket s) then poll_all envs s
      else (case poll_next env (s\<lparr>th_bucket := bk\<rparr>) of
              None \<Rightarrow> None
            | Some (out, s1) \<Rightarrow> map_option (\<lambda>(outs, s2). (out # outs, s2)) (poll_all envs s1)))"

fun item_bytes :: "poll_out \<Rightarrow> bytes" where
  "item_bytes (Poll_item p) = p"
| "item_bytes _ = []"

fun inner_bytes :: "inner_poll \<Rightarrow> bytes" where
  "inner_bytes (Inner_chunk c) = c"
| "inner_bytes _ = []"

definition bytes_in :: "inner_poll list \<Rightarrow> bytes" where
  "bytes_in ps = concat (map inner_bytes ps)"

definition bytes_out :: "poll_out list \<Rightarrow> bytes" where
  "bytes_out os = concat (map item_bytes os)"

text \<open>What is left to send: the pending pieces, then what the inner stream still holds.\<close>

definition left_over :: "throttle \<Rightarrow> bytes" where
  "left_over s = concat (th_pending s) @ bytes_in (th_inner s)"

definition throttle_inv :: "throttle \<Rightarrow> bool" where
  "throttle_inv s \<longleftrightarrow>
     (case th_bucket s of
        Some bk \<Rightarrow> \<forall>p \<in> set (th_pending s). length p \<le> unat (max_tokens bk)
      | None \<Rightarrow> th_pending s = [] \<and> th_state s = Idle) \<and>
     (th_state s = Waiting \<longrightarrow> th_pending s \<noteq> [])"

lemma slice_chunk_concat:
  "slice_chunk mx c = Some ps \<Longrightarrow> concat ps = c \<and> (\<forall>p \<in> set ps. length p \<le> mx)"
proof (induction mx c arbitrary: ps rule: slice_chunk.induct)
  case (1 mx rest)
  then show ?case
    by (cases "rest = [] \<or> mx = 0") (auto simp: slice_chunk.simps [of mx rest] split: if_splits)
qed

lemma slice_chunk_returns: "0 < mx \<Longrightarrow> \<exists>ps. slice_chunk mx c = Some ps"
  by (induction mx c rule: slice_chunk.induct) (subst slice_chunk.simps, auto)

lemma wait_time_frame: "max_tokens (snd (wait_time_nanos now a b)) = max_tokens b"
  by (simp add: wait_time_nanos_def available_def Let_def)

lemma schedule_wake_frame:
  "th_pending (schedule_wake now s) = th_pending s" "th_inner (schedule_wake now s) = th_inner s"
  "th_state (schedule_wake now s) = th_state s"
  "same_size (th_bucket (schedule_wake now s)) (th_bucket s)"
  using wait_time_frame
  by (auto simp: schedule_wake_def same_size_def Let_def split: option.split prod.split)
    (metis snd_conv)+

text \<open>What one step keeps: the invariant, the size of the bucket, and every byte in its place.\<close>

definition poll_ok :: "throttle \<Rightarrow> poll_out \<times> throttle \<Rightarrow> bool" where
  "poll_ok s r \<longleftrightarrow>
     throttle_inv (snd r) \<and> same_size (th_bucket (snd r)) (th_bucket s) \<and>
     left_over s = item_bytes (fst r) @ left_over (snd r) \<and>
     (\<forall>p bk. fst r = Poll_item p \<longrightarrow> th_bucket s = Some bk \<longrightarrow> length p \<le> unat (max_tokens bk))"

lemma same_size_refl [simp]: "same_size x x"
  by (simp add: same_size_def)

lemma same_size_Some: "same_size (Some a) (Some b) \<longleftrightarrow> max_tokens a = max_tokens b"
  by (simp add: same_size_def)

lemma same_size_cases:
  "same_size x (Some b) \<Longrightarrow> \<exists>a. x = Some a \<and> max_tokens a = max_tokens b"
  by (auto simp: same_size_def)

lemma try_deliver_cases:
  assumes "th_bucket s = Some bk" "th_pending s = p # rest"
  obtains (paid) bk1 where "try_deliver now s = (Poll_item p, s\<lparr>th_pending := rest, th_bucket := Some bk1\<rparr>)"
      "max_tokens bk1 = max_tokens bk" "try_consume now (of_nat (length p)) bk = (True, bk1)"
  | (unpaid) bk1 where "try_deliver now s = (Poll_pending, s\<lparr>th_bucket := Some bk1\<rparr>)"
      "max_tokens bk1 = max_tokens bk"
proof (cases "try_consume now (of_nat (length p)) bk")
  case (Pair ok bk1)
  moreover from this have "max_tokens bk1 = max_tokens bk"
    using try_consume_frame(1) [of now "of_nat (length p)" bk] by simp
  ultimately show ?thesis using that assms by (cases ok) (simp_all add: try_deliver_def)
qed

lemma wait_for_tokens_ok:
  assumes "throttle_inv s" "th_bucket s = Some bk" "th_pending s \<noteq> []"
  shows "poll_ok s (wait_for_tokens now s)"
proof -
  obtain bk1 where "th_bucket (schedule_wake now (s\<lparr>th_state := Waiting\<rparr>)) = Some bk1"
    "max_tokens bk1 = max_tokens bk"
    using schedule_wake_frame(4) [of now "s\<lparr>th_state := Waiting\<rparr>"] assms(2) same_size_cases by fastforce
  then show ?thesis
    using assms by (simp add: poll_ok_def wait_for_tokens_def throttle_inv_def left_over_def
        schedule_wake_frame same_size_Some)
qed

lemma deliver_or_wait_ok:
  assumes "throttle_inv s" "th_bucket s = Some bk" "th_pending s \<noteq> []" "th_state s = Idle"
  shows "poll_ok s (deliver_or_wait now s)"
proof -
  obtain p rest where pr: "th_pending s = p # rest" using assms(3) by (cases "th_pending s") auto
  show ?thesis
  proof (cases rule: try_deliver_cases [OF assms(2) pr, of now])
    case (1 bk1)
    then show ?thesis using assms pr
      by (auto simp: poll_ok_def deliver_or_wait_def throttle_inv_def left_over_def same_size_Some)
  next
    case (2 bk1)
    have "throttle_inv (s\<lparr>th_bucket := Some bk1\<rparr>)" using assms 2 by (simp add: throttle_inv_def)
    then have "poll_ok (s\<lparr>th_bucket := Some bk1\<rparr>) (wait_for_tokens now (s\<lparr>th_bucket := Some bk1\<rparr>))"
      by (rule wait_for_tokens_ok) (use assms in auto)
    then show ?thesis using 2 assms
      by (auto simp: poll_ok_def deliver_or_wait_def left_over_def same_size_def)
  qed
qed

lemma enqueue_ok:
  assumes "enqueue_chunk c s = Some s'" "throttle_inv s" "th_bucket s = Some bk"
  shows "th_bucket s' = Some bk \<and> th_inner s' = th_inner s \<and> th_state s' = th_state s \<and>
     concat (th_pending s') = concat (th_pending s) @ c \<and> throttle_inv s'
     \<and> (c \<noteq> [] \<or> length c \<le> unat (max_tokens bk) \<longrightarrow> th_pending s' \<noteq> [])"
  using assms slice_chunk_concat [of "unat (max_tokens bk)" c]
  by (fastforce simp: enqueue_chunk_def throttle_inv_def split: if_splits)

lemma poll_idle_ok:
  assumes "throttle_inv s" "th_state s = Idle" "poll_idle now s = Some r"
  shows "poll_ok s r"
proof (cases "th_bucket s")
  case None
  then have "th_pending s = []" using assms(1) by (simp add: throttle_inv_def)
  then show ?thesis using None assms(1,3)
    by (auto simp: poll_idle_def poll_inner_def poll_ok_def throttle_inv_def left_over_def bytes_in_def
        enqueue_chunk_def split: list.splits inner_poll.splits)
next
  case (Some bk)
  show ?thesis
  proof (cases "th_pending s = []")
    case False
    then show ?thesis
      using deliver_or_wait_ok [OF assms(1) Some False assms(2), of now] assms(3) Some
      by (auto simp: poll_idle_def)
  next
    case True
    obtain i s1 where pi: "poll_inner s = (i, s1)" by fastforce
    then have s1: "s1 = s \<and> i = Inner_end \<or> s1 = s\<lparr>th_inner := tl (th_inner s)\<rparr> \<and> th_inner s = i # tl (th_inner s)"
      by (auto simp: poll_inner_def split: list.splits)
    then have lo: "left_over s = concat (th_pending s) @ inner_bytes i @ bytes_in (th_inner s1)"
      by (elim disjE conjE)
        (simp_all add: left_over_def bytes_in_def, metis concat.simps(2) list.simps(9))
    have inv1: "throttle_inv s1" "th_bucket s1 = Some bk" "th_pending s1 = []" "th_state s1 = Idle"
      using s1 assms(1,2) Some True by (auto simp: throttle_inv_def)
    show ?thesis
    proof (cases i)
      case (Inner_chunk c)
      then obtain s2 where e: "enqueue_chunk c s1 = Some s2"
        using assms(3) Some True pi by (auto simp: poll_idle_def split: option.splits)
      note q = enqueue_ok [OF e inv1(1,2)]
      have r: "r = deliver_or_wait now s2" using assms(3) Some True pi Inner_chunk e q by (simp add: poll_idle_def)
      have ne: "th_pending s2 \<noteq> []" using q by (cases "c = []") auto
      have "poll_ok s2 r" unfolding r
        by (rule deliver_or_wait_ok) (use q ne inv1 in auto)
      then show ?thesis using q lo inv1 Inner_chunk True Some
        by (auto simp: poll_ok_def left_over_def)
    qed (use assms(3) Some True pi inv1 lo in
        \<open>auto simp: poll_idle_def poll_ok_def left_over_def\<close>)
  qed
qed

lemma poll_waiting_ok:
  assumes "throttle_inv s" "th_state s = Waiting"
  shows "poll_ok s (poll_waiting due now s)"
proof (cases "th_timer s \<noteq> None \<and> \<not> due")
  case True
  then show ?thesis using assms by (auto simp: poll_waiting_def poll_ok_def)
next
  case False
  obtain bk where bk: "th_bucket s = Some bk"
    using assms by (cases "th_bucket s") (auto simp: throttle_inv_def)
  obtain p rest where pr: "th_pending s = p # rest"
    using assms by (cases "th_pending s") (auto simp: throttle_inv_def)
  let ?s = "s\<lparr>th_timer := None\<rparr>"
  have b: "th_bucket ?s = Some bk" "th_pending ?s = p # rest" using bk pr by simp_all
  show ?thesis
  proof (cases rule: try_deliver_cases [OF b, of now])
    case (1 bk1)
    then show ?thesis using assms bk pr False
      by (auto simp: poll_waiting_def poll_ok_def throttle_inv_def left_over_def same_size_Some)
  next
    case (2 bk1)
    have "poll_waiting due now s = (Poll_pending, schedule_wake now (?s\<lparr>th_bucket := Some bk1\<rparr>))"
      using False 2 pr unfolding poll_waiting_def by auto
    moreover obtain bk2 where "th_bucket (schedule_wake now (?s\<lparr>th_bucket := Some bk1\<rparr>)) = Some bk2"
      "max_tokens bk2 = max_tokens bk1"
      using schedule_wake_frame(4) [of now "?s\<lparr>th_bucket := Some bk1\<rparr>"] same_size_cases by fastforce
    ultimately show ?thesis using assms bk pr 2
      by (simp add: poll_ok_def throttle_inv_def left_over_def schedule_wake_frame same_size_Some)
  qed
qed

lemma poll_next_ok:
  assumes "throttle_inv s" "poll_next env s = Some r"
  shows "poll_ok s r"
proof (cases "pe_cancelled env")
  case True
  then show ?thesis using assms by (auto simp: poll_next_def poll_ok_def)
next
  case False
  then show ?thesis
    using assms poll_idle_ok poll_waiting_ok
    by (cases "th_state s") (auto simp: poll_next_def)
qed

lemma throttle_inv_bucket:
  "throttle_inv s \<Longrightarrow> same_size bk (th_bucket s) \<Longrightarrow> throttle_inv (s\<lparr>th_bucket := bk\<rparr>)"
  by (cases bk; cases "th_bucket s") (auto simp: throttle_inv_def same_size_def)

lemma poll_all_ok:
  "poll_all envs s = Some (outs, s') \<Longrightarrow> throttle_inv s \<Longrightarrow>
     left_over s = bytes_out outs @ left_over s' \<and> throttle_inv s' \<and> same_size (th_bucket s') (th_bucket s)
     \<and> (\<forall>p bk. Poll_item p \<in> set outs \<longrightarrow> th_bucket s = Some bk \<longrightarrow> length p \<le> unat (max_tokens bk))"
proof (induction envs s arbitrary: outs rule: poll_all.induct)
  case (1 s)
  then show ?case by (simp add: bytes_out_def)
next
  case (2 env bk envs s)
  show ?case
  proof (cases "same_size bk (th_bucket s)")
    case False
    then show ?thesis using 2 by simp
  next
    case True
    let ?s = "s\<lparr>th_bucket := bk\<rparr>"
    obtain out s1 outs1 where st: "poll_next env ?s = Some (out, s1)"
      and rest: "poll_all envs s1 = Some (outs1, s')" and o: "outs = out # outs1"
      using "2.prems"(1) True by (auto split: option.splits)
    have ok: "poll_ok ?s (out, s1)"
      by (rule poll_next_ok [OF throttle_inv_bucket [OF "2.prems"(2) True] st])
    have inv1: "throttle_inv s1" using ok by (simp add: poll_ok_def)
    have "\<not> \<not> same_size bk (th_bucket s)" using True by simp
    note ih = "2.IH"(2) [OF this st refl rest inv1]
    have sz: "same_size (th_bucket s1) (th_bucket s)" using ok True by (simp add: poll_ok_def same_size_def)
    have l: "left_over ?s = left_over s" by (simp add: left_over_def)
    have "length p \<le> unat (max_tokens b)" if mem: "Poll_item p \<in> set outs" and tb: "th_bucket s = Some b" for p b
    proof -
      obtain b1 b2 where b: "bk = Some b1" "max_tokens b1 = max_tokens b"
        "th_bucket s1 = Some b2" "max_tokens b2 = max_tokens b"
        using True sz tb same_size_cases by metis
      show ?thesis using mem o ok ih b by (auto simp: poll_ok_def)
    qed
    then show ?thesis
      using ih ok l sz o by (simp add: poll_ok_def bytes_out_def same_size_def)
  qed
qed

text \<open>
  C23. The throttled body is the body: whatever the polls find (how the clock runs, when the
  timer fires, when the request is cancelled, what other responses take from the bucket), the
  pieces sent so far are the first bytes of the upstream body in order, none lost, repeated or
  invented, and the rest is still held; no piece is larger than the bucket.
\<close>

theorem throttle_keeps_bytes:
  assumes "poll_all envs (throttled body bk) = Some (outs, s')"
  shows "bytes_in body = bytes_out outs @ left_over s'
     \<and> (\<forall>p b. Poll_item p \<in> set outs \<longrightarrow> bk = Some b \<longrightarrow> length p \<le> unat (max_tokens b))"
proof -
  have "throttle_inv (throttled body bk)" by (simp add: throttle_inv_def throttled_def split: option.split)
  from poll_all_ok [OF assms this] show ?thesis by (simp add: throttled_def left_over_def)
qed

theorem throttle_keeps_bytes_witness:
  "\<exists>s'. poll_all [(\<lparr>pe_cancelled = False, pe_now = 0, pe_timer_due = False\<rparr>, Some (new_bucket 2 1 0)),
                  (\<lparr>pe_cancelled = False, pe_now = 1, pe_timer_due = False\<rparr>, Some (new_bucket 2 1 0))]
       (throttled [Inner_chunk [1, 2, 3], Inner_end] (Some (new_bucket 2 1 0)))
     = Some ([Poll_item [1, 2], Poll_item [3]], s')
     \<and> bytes_in [Inner_chunk [1, 2, 3], Inner_end] = bytes_out [Poll_item [1, 2], Poll_item [3]] @ left_over s'"
proof -
  obtain s' where r: "poll_all [(\<lparr>pe_cancelled = False, pe_now = 0, pe_timer_due = False\<rparr>, Some (new_bucket 2 1 0)),
                  (\<lparr>pe_cancelled = False, pe_now = 1, pe_timer_due = False\<rparr>, Some (new_bucket 2 1 0))]
       (throttled [Inner_chunk [1, 2, 3], Inner_end] (Some (new_bucket 2 1 0)))
     = Some ([Poll_item [1, 2], Poll_item [3]], s')"
    by (simp add: same_size_def throttled_def poll_next_def poll_idle_def poll_inner_def enqueue_chunk_def
        slice_chunk.simps deliver_or_wait_def try_deliver_def try_consume_def new_bucket_def NANOS_PER_SEC_def
        bucket_unlimited_def refilled_def refill_def Let_def)
  then show ?thesis using throttle_keeps_bytes [OF r] by blast
qed

text \<open>The stream ends only when everything is sent, unless the request is cancelled.\<close>

lemma throttle_end_complete:
  assumes "throttle_inv s" "poll_next env s = Some (Poll_end, s')" "\<not> pe_cancelled env"
  shows "th_pending s' = [] \<and> fst (poll_inner s) = Inner_end"
  using assms
  by (cases "th_state s")
    (auto simp: poll_next_def poll_idle_def poll_waiting_def deliver_or_wait_def wait_for_tokens_def try_deliver_def Let_def
      split: if_splits prod.splits poll_out.splits inner_poll.splits list.splits option.splits bool.splits)

text \<open>With a bucket that holds something a poll always returns.\<close>

lemma poll_next_returns:
  assumes "\<And>bk. th_bucket s = Some bk \<Longrightarrow> 0 < max_tokens bk"
  shows "\<exists>r. poll_next env s = Some r"
proof -
  obtain i s1 where pi: "poll_inner s = (i, s1)" by fastforce
  then have b: "th_bucket s1 = th_bucket s" by (auto simp: poll_inner_def split: list.splits)
  have "enqueue_chunk c s1 \<noteq> None" for c
  proof (cases "th_bucket s1")
    case None
    then show ?thesis by (simp add: enqueue_chunk_def)
  next
    case (Some bk)
    then have "0 < unat (max_tokens bk)" using assms b by (simp add: unat_gt_0 word_neq_0_conv)
    then obtain ps where "slice_chunk (unat (max_tokens bk)) c = Some ps" using slice_chunk_returns by blast
    then show ?thesis using Some by (simp add: enqueue_chunk_def)
  qed
  then show ?thesis using pi
    by (cases "th_state s"; cases i)
      (auto simp: poll_next_def poll_idle_def simp del: not_None_eq split: list.split option.split)
qed

end
