(* ===== verification/Proxy_Flight.thy ===== *)
theory Proxy_Flight
  imports Proxy_Rules Failure_Cooldown Coalescing Disk_Cache Segments_Buffer Range_Download
begin

text \<open>
  How \<open>src/src/proxy.rs\<close> finds out where the body of a request comes from
  (\<open>resolve_with_coalescing\<close>) and what becomes of a finished download (\<open>spawn_cache_persistence\<close>).
  The state the two share is the cache, the coalescer, the failure tracker and the buffers,
  which the coalescer names by their position. A buffer's file is also a file of the disk: before
  the cache looks at it, \<open>flush_file\<close> gives the disk the bytes of the buffer.

  A turn of the loop awaits other tasks, which change the state meanwhile: the observations of a
  turn say what the clock shows, what the upstream answers, and which changes other requests
  make before the URL is registered and during the wait of a follower. The result \<open>None\<close> of
  the loop is a wait that the observations do not end.
\<close>

record proxy_state =
  px_cache :: disk_cache
  px_coalescer :: "nat coalescer"
  px_failures :: failures
  px_buffers :: "segments_buffer list"

record flight_config =
  fc_max_retries :: nat
  fc_etag_max_retries :: nat
  fc_max_cache_age :: nat

datatype coalesce_outcome = Cached string header_map | From_buffer nat | Become_leader

record turn_obs =
  to_instant :: nat
  to_unix :: int
  to_head :: "(nat \<times> header_map) option"
  to_faults :: cache_faults
  to_meanwhile :: "proxy_state \<Rightarrow> proxy_state"
  to_waiting :: "proxy_state \<Rightarrow> proxy_state"

definition revalidate_with_conditional_head :: "(nat \<times> header_map) option \<Rightarrow> header_map \<Rightarrow> revalidate" where
  "revalidate_with_conditional_head answer cached =
     (case answer of None \<Rightarrow> Unreachable | Some (status, hs) \<Rightarrow> decide_revalidate status hs cached)"

text \<open>The first half of a turn: the cooldown and the cache. \<open>None\<close> goes on to the coalescer.\<close>

definition consult_cache ::
    "cache_env \<Rightarrow> (string \<Rightarrow> int option) \<Rightarrow> flight_config \<Rightarrow> string \<Rightarrow> turn_obs \<Rightarrow> proxy_state
       \<Rightarrow> (proxy_error + coalesce_outcome) option \<times> proxy_state" where
  "consult_cache env parse_date cfg url obs s =
     (if is_in_cooldown (to_instant obs) url (px_failures s) then
        (Some (Inl (Service_unavailable (''upstream in failure cooldown for '' @ url @ '', retry later''))), s)
      else
        (case lookup_entry env (to_unix obs) url (px_cache s) of
           (None, c1) \<Rightarrow> (None, s\<lparr>px_cache := c1\<rparr>)
         | (Some (path, hs, cached_at), c1) \<Rightarrow>
             let s1 = s\<lparr>px_cache := c1\<rparr> in
             if is_fresh parse_date (to_unix obs) cached_at hs (fc_max_cache_age cfg)
             then (Some (Inr (Cached path hs)), s1)
             else if starts_with url ''http://'' \<or> starts_with url ''https://'' then
               (case revalidate_with_conditional_head (to_head obs) hs of
                  Fresh new_hs \<Rightarrow>
                    (Some (Inr (Cached path new_hs)),
                     s1\<lparr>px_cache := snd (refresh env (to_faults obs) (to_unix obs) url new_hs c1)\<rparr>)
                | Stale \<Rightarrow> (None, s1)
                | Unreachable \<Rightarrow> (Some (Inr (Cached path hs)), s1))
             else (None, s1)))"

datatype turn_result = Turn_done "proxy_error + coalesce_outcome" | Turn_waits nat

definition resolve_turn ::
    "cache_env \<Rightarrow> (string \<Rightarrow> int option) \<Rightarrow> flight_config \<Rightarrow> string \<Rightarrow> turn_obs \<Rightarrow> proxy_state
       \<Rightarrow> turn_result \<times> proxy_state" where
  "resolve_turn env parse_date cfg url obs s =
     (case consult_cache env parse_date cfg url obs s of
        (Some r, s1) \<Rightarrow> (Turn_done r, s1)
      | (None, s1) \<Rightarrow>
          let s2 = to_meanwhile obs s1 in
          (case register url (px_coalescer s2) of
             (Leader, c) \<Rightarrow> (Turn_done (Inr Become_leader), s2\<lparr>px_coalescer := c\<rparr>)
           | (Follower_buffer b, c) \<Rightarrow> (Turn_done (Inr (From_buffer b)), s2\<lparr>px_coalescer := c\<rparr>)
           | (Follower rx, c) \<Rightarrow> (Turn_waits rx, s2\<lparr>px_coalescer := c\<rparr>)))"

text \<open>
  The loop: after the wait the receiver has the buffer, has seen the sender dropped, or nothing
  has come in time.
\<close>

fun resolve_with_coalescing ::
    "cache_env \<Rightarrow> (string \<Rightarrow> int option) \<Rightarrow> flight_config \<Rightarrow> string \<Rightarrow> turn_obs list \<Rightarrow> nat \<Rightarrow> proxy_state
       \<Rightarrow> ((proxy_error + coalesce_outcome) \<times> proxy_state) option" where
  "resolve_with_coalescing env parse_date cfg url [] retries s = None"
| "resolve_with_coalescing env parse_date cfg url (obs # turns) retries s =
     (case resolve_turn env parse_date cfg url obs s of
        (Turn_done r, s1) \<Rightarrow> Some (r, s1)
      | (Turn_waits rx, s1) \<Rightarrow>
          let s2 = to_waiting obs s1 in
          (case channels (px_coalescer s2) rx of
             Sent b \<Rightarrow> Some (Inr (From_buffer b), s2)
           | Open \<Rightarrow> Some (Inl (Internal (''timed out waiting for in-flight download of '' @ url)), s2)
           | Dropped \<Rightarrow>
               let etag_changed = etag_failed_for url (px_coalescer s2);
                   budget = (if etag_changed then fc_etag_max_retries cfg else fc_max_retries cfg)
               in if retries + 1 > budget then
                    Some (Inl (if etag_changed
                               then Service_unavailable (''upstream file kept changing for '' @ url @ '', retry later'')
                               else Internal (''leader failed '' @ dec (retries + 1) @ '' times for '' @ url @ '', giving up'')), s2)
                  else resolve_with_coalescing env parse_date cfg url turns (retries + 1) s2))"

subsection \<open>After the download\<close>

definition flush_file :: "segments_buffer \<Rightarrow> disk_files \<Rightarrow> disk_files" where
  "flush_file b d =
     (let p = resolve_path (file_path b) in
      case am_get p d of None \<Rightarrow> d | Some _ \<Rightarrow> am_insert p (dl_file b) d)"

definition remove_file :: "cache_faults \<Rightarrow> string \<Rightarrow> disk_files \<Rightarrow> disk_files" where
  "remove_file flt path d = (if f_unlink flt then d else am_remove (resolve_path path) d)"

definition on_disk :: "(disk_files \<Rightarrow> disk_files) \<Rightarrow> proxy_state \<Rightarrow> proxy_state" where
  "on_disk f s = s\<lparr>px_cache := (px_cache s)\<lparr>c_disk := f (c_disk (px_cache s))\<rparr>\<rparr>"

definition note_failure :: "nat \<Rightarrow> string \<Rightarrow> proxy_state \<Rightarrow> proxy_state" where
  "note_failure instant url s = s\<lparr>px_failures := record_failure instant url (px_failures s)\<rparr>"

definition fail_buffer :: "nat \<Rightarrow> proxy_state \<Rightarrow> proxy_state" where
  "fail_buffer h s = s\<lparr>px_buffers := (px_buffers s)[h := set_failed (px_buffers s ! h)]\<rparr>"

definition fail_flight :: "string \<Rightarrow> bool \<Rightarrow> proxy_state \<Rightarrow> proxy_state" where
  "fail_flight url etag_changed s = s\<lparr>px_coalescer := fail url etag_changed (px_coalescer s)\<rparr>"

definition drop_download :: "cache_faults \<Rightarrow> string \<Rightarrow> nat \<Rightarrow> bool \<Rightarrow> proxy_state \<Rightarrow> proxy_state" where
  "drop_download flt url h etag_changed s =
     fail_flight url etag_changed (on_disk (remove_file flt (file_path (px_buffers s ! h))) s)"

record persist_obs =
  po_instant :: nat
  po_unix :: int
  po_faults :: cache_faults
  po_sync_ok :: bool
  po_xz_test :: "bytes \<Rightarrow> bool"

text \<open>
  The task of \<open>spawn_cache_persistence\<close>; \<open>joined\<close> is what the download task ended with (\<open>None\<close>: it
  panicked). The result \<open>None\<close> is an eviction that does not return.
\<close>

definition persist_download ::
    "cache_env \<Rightarrow> ('e \<Rightarrow> bool) \<Rightarrow> persist_obs \<Rightarrow> string \<Rightarrow> nat \<Rightarrow> header_map \<Rightarrow> ('e + unit) option \<Rightarrow> proxy_state
       \<Rightarrow> proxy_state option" where
  "persist_download env etag_changed_for obs url h headers joined s =
     (let flt = po_faults obs; b = px_buffers s ! h in
      case joined of
        Some (Inr _) \<Rightarrow>
          let s1 = s\<lparr>px_failures := record_success url (px_failures s)\<rparr> in
          if po_sync_ok obs then
            (let s2 = on_disk (flush_file b) s1 in
             if is_xz_url url \<and> \<not> po_xz_test obs (dl_file b) then
               Some (drop_download flt url h False (fail_buffer h (note_failure (po_instant obs) url s2)))
             else (case store env flt (po_unix obs) url (file_path b) headers (px_cache s2) of
                     None \<Rightarrow> None
                   | Some (Inl _, c) \<Rightarrow> Some (drop_download flt url h False (s2\<lparr>px_cache := c\<rparr>))
                   | Some (Inr _, c) \<Rightarrow>
                       Some (s2\<lparr>px_cache := c, px_coalescer := complete url (px_coalescer s2)\<rparr>)))
          else Some (drop_download flt url h False s1)
      | Some (Inl e) \<Rightarrow>
          let etag_changed = etag_changed_for e;
              s1 = (if etag_changed then s else note_failure (po_instant obs) url s)
          in Some (drop_download flt url h etag_changed (fail_buffer h s1))
      | None \<Rightarrow>
          Some (drop_download flt url h False (fail_buffer h (note_failure (po_instant obs) url s))))"

definition http_etag_changed :: "download_error \<Rightarrow> bool" where
  "http_etag_changed e \<longleftrightarrow> e = Dl_etag_changed"

subsection \<open>The loop ends\<close>

lemma resolve_ends:
  assumes "max (fc_max_retries cfg) (fc_etag_max_retries cfg) < length turns"
  shows "\<exists>r s'. resolve_with_coalescing env parse_date cfg url turns 0 s = Some (r, s')"
proof -
  let ?mx = "max (fc_max_retries cfg) (fc_etag_max_retries cfg)"
  have "\<exists>r s'. resolve_with_coalescing env parse_date cfg url turns retries s = Some (r, s')"
    if "retries \<le> ?mx" "?mx - retries < length turns" for retries
    using that
  proof (induction turns arbitrary: retries s)
    case Nil
    then show ?case by simp
  next
    case (Cons obs turns)
    show ?case
    proof (cases "resolve_turn env parse_date cfg url obs s")
      case (Pair t s1)
      show ?thesis
      proof (cases t)
        case (Turn_done r)
        then show ?thesis using Pair by simp
      next
        case (Turn_waits rx)
        let ?s2 = "to_waiting obs s1"
        let ?budget = "if etag_failed_for url (px_coalescer ?s2) then fc_etag_max_retries cfg else fc_max_retries cfg"
        have again: "\<exists>r s'. resolve_with_coalescing env parse_date cfg url turns (retries + 1) ?s2 = Some (r, s')"
          if "\<not> retries + 1 > ?budget"
          by (rule Cons.IH) (use that Cons.prems in \<open>auto split: if_splits\<close>)
        show ?thesis
          using again Pair Turn_waits by (cases "channels (px_coalescer ?s2) rx") (auto simp: Let_def)
      qed
    qed
  qed
  from this [of 0] show ?thesis using assms by simp
qed

text \<open>
  A request does not wait for ever: every wait of a follower is bounded by the timeout, and
  after at most the larger of the two retry limits and one more turn the loop has returned,
  whatever other requests do in between.
\<close>

lemma resolve_returns:
  assumes "max (fc_max_retries cfg) (fc_etag_max_retries cfg) < length turns"
  shows "\<exists>r s'. resolve_with_coalescing env parse_date cfg url turns 0 s = Some (r, s')"
  using resolve_ends [OF assms] by blast

definition demo_cfg :: flight_config where
  "demo_cfg = \<lparr>fc_max_retries = 1, fc_etag_max_retries = 0, fc_max_cache_age = 60\<rparr>"

definition demo_obs :: turn_obs where
  "demo_obs = \<lparr>to_instant = 0, to_unix = 100, to_head = None, to_faults = no_faults, to_meanwhile = id,
     to_waiting = (\<lambda>s. s\<lparr>px_coalescer := fail ''u'' False (px_coalescer s)\<rparr>)\<rparr>"

definition idle_proxy :: proxy_state where
  "idle_proxy = \<lparr>px_cache = new_cache ''/c'' 1000 None [], px_coalescer = new_coalescer, px_failures = [],
     px_buffers = []\<rparr>"

definition one_entry_env :: cache_env where
  "one_entry_env = \<lparr>hash_of = id, to_json = (\<lambda>_. []), of_json = (\<lambda>_. Some []), pick_oldest = (\<lambda>_. None)\<rparr>"

lemma resolve_returns_witness:
  "\<exists>r s'. resolve_with_coalescing one_entry_env (\<lambda>_. None) demo_cfg ''u'' [demo_obs, demo_obs] 0 idle_proxy = Some (r, s')"
  by (rule resolve_returns) (simp add: demo_cfg_def)

subsection \<open>Where a body may come from\<close>

text \<open>The reasons for which a cached entry is served.\<close>

definition may_serve ::
    "cache_env \<Rightarrow> (string \<Rightarrow> int option) \<Rightarrow> flight_config \<Rightarrow> string \<Rightarrow> turn_obs \<Rightarrow> proxy_state
       \<Rightarrow> string \<Rightarrow> header_map \<Rightarrow> bool" where
  "may_serve env parse_date cfg url obs s path hs \<longleftrightarrow>
     \<not> is_in_cooldown (to_instant obs) url (px_failures s) \<and>
     (\<exists>cached at c. lookup_entry env (to_unix obs) url (px_cache s) = (Some (path, cached, at), c) \<and>
        (is_fresh parse_date (to_unix obs) at cached (fc_max_cache_age cfg) \<and> hs = cached
         \<or> (starts_with url ''http://'' \<or> starts_with url ''https://'') \<and>
           (case to_head obs of
              None \<Rightarrow> hs = cached
            | Some (status, resp) \<Rightarrow> decide_revalidate status resp cached = Fresh hs)))"

lemma decide_reachable: "decide_revalidate status resp cached \<noteq> Unreachable"
  by (simp add: decide_revalidate_def)

lemma consult_cache_cached:
  "consult_cache env parse_date cfg url obs s = (Some (Inr (Cached path hs)), s') \<Longrightarrow>
     may_serve env parse_date cfg url obs s path hs"
  by (auto simp: consult_cache_def may_serve_def revalidate_with_conditional_head_def Let_def
        decide_reachable split: if_splits option.splits prod.splits revalidate.splits)

lemma resolve_turn_cached:
  "resolve_turn env parse_date cfg url obs s = (Turn_done (Inr (Cached path hs)), s') \<Longrightarrow>
     may_serve env parse_date cfg url obs s path hs"
  by (rule consult_cache_cached)
    (auto simp: resolve_turn_def Let_def split: option.splits prod.splits register_result.splits)


definition one_entry :: proxy_state where
  "one_entry = idle_proxy\<lparr>px_cache := (px_cache idle_proxy)
     \<lparr>c_rows := [\<lparr>row_hash = ''u'', row_url = ''u'', row_size = 1, row_last_access = 90, row_path = ''f'',
        row_headers = [], row_cached_at = 90\<rparr>], c_disk := [([''c'', ''f''], [7])]\<rparr>\<rparr>"


text \<open>A leader is what the coalescer has made one, at that very moment.\<close>

lemma leader_registered:
  assumes "resolve_with_coalescing env parse_date cfg url turns retries s = Some (Inr Become_leader, s')"
  shows "\<exists>c. register url c = (Leader, px_coalescer s')"
  using assms
proof (induction turns arbitrary: retries s)
  case Nil
  then show ?case by simp
next
  case (Cons obs turns)
  show ?case
  proof (cases "resolve_turn env parse_date cfg url obs s")
    case (Pair t s1)
    show ?thesis
    proof (cases t)
      case (Turn_done r)
      then show ?thesis using Pair Cons.prems
        by (auto simp: resolve_turn_def consult_cache_def Let_def
            split: option.splits prod.splits register_result.splits if_splits revalidate.splits)
    next
      case (Turn_waits rx)
      then obtain k s2 where "resolve_with_coalescing env parse_date cfg url turns k s2 = Some (Inr Become_leader, s')"
        using Pair Cons.prems by (auto simp: Let_def split: channel.splits if_splits)
      then show ?thesis by (rule Cons.IH)
    qed
  qed
qed

text \<open>During the cooldown nothing is asked and nothing changes.\<close>

lemma cooldown_rejects:
  "is_in_cooldown (to_instant obs) url (px_failures s) \<Longrightarrow>
     resolve_turn env parse_date cfg url obs s =
       (Turn_done (Inl (Service_unavailable (''upstream in failure cooldown for '' @ url @ '', retry later''))), s)"
  by (simp add: resolve_turn_def consult_cache_def)

subsection \<open>What a finished download leaves\<close>

lemma take_entry_get [simp]: "am_get url (inflight (take_entry url c)) = None"
  by (simp add: take_entry_def)

lemma flight_gone [simp]:
  "am_get url (inflight (fail url e c)) = None" "am_get url (inflight (complete url c)) = None"
  "etag_failed_for url (fail url e c) = e" "etag_failed_for url (complete url c) = False"
  by (simp_all add: fail_def complete_def etag_failed_for_def take_entry_def)

lemma persist_frames [simp]:
  "px_coalescer (on_disk f s) = px_coalescer s" "px_failures (on_disk f s) = px_failures s"
  "px_buffers (on_disk f s) = px_buffers s" "c_rows (px_cache (on_disk f s)) = c_rows (px_cache s)"
  "px_coalescer (fail_buffer h s) = px_coalescer s" "px_failures (fail_buffer h s) = px_failures s"
  "px_cache (fail_buffer h s) = px_cache s"
  "px_coalescer (note_failure t url s) = px_coalescer s" "px_buffers (note_failure t url s) = px_buffers s"
  "px_cache (note_failure t url s) = px_cache s"
  "px_failures (fail_flight url e s) = px_failures s" "px_buffers (fail_flight url e s) = px_buffers s"
  "px_cache (fail_flight url e s) = px_cache s" "px_coalescer (fail_flight url e s) = fail url e (px_coalescer s)"
  by (simp_all add: on_disk_def fail_buffer_def note_failure_def fail_flight_def)

lemma drop_frames [simp]:
  "px_coalescer (drop_download flt url h e s) = fail url e (px_coalescer s)"
  "px_failures (drop_download flt url h e s) = px_failures s"
  "px_buffers (drop_download flt url h e s) = px_buffers s"
  "c_rows (px_cache (drop_download flt url h e s)) = c_rows (px_cache s)"
  by (simp_all add: drop_download_def)

lemma fail_buffer_failed [simp]:
  "h < length (px_buffers s) \<Longrightarrow> failed (px_buffers (fail_buffer h s) ! h)"
  by (simp add: fail_buffer_def set_failed_def)

text \<open>
  Every download that ends settles its URL, however it ends: the coalescer holds it no longer,
  so the next request can lead. A download that failed leaves its buffer failed, so that no
  reader waits on it, and the table of the cache as it was; one that failed because the
  upstream file changed is remembered as such and is not counted as a failure of the upstream;
  an xz file that does not pass the test never enters the cache.
\<close>

lemma persistence_settles:
  assumes "persist_download env etag_changed_for obs url h headers joined s = Some s'"
    and "h < length (px_buffers s)"
  shows "am_get url (inflight (px_coalescer s')) = None
     \<and> (etag_failed_for url (px_coalescer s') \<longleftrightarrow> (\<exists>e. joined = Some (Inl e) \<and> etag_changed_for e))
     \<and> (joined \<noteq> Some (Inr ()) \<or> is_xz_url url \<and> po_sync_ok obs \<and> \<not> po_xz_test obs (dl_file (px_buffers s ! h)) \<longrightarrow>
          failed (px_buffers s' ! h) \<and> c_rows (px_cache s') = c_rows (px_cache s))
     \<and> (\<forall>e. joined = Some (Inl e) \<longrightarrow>
          px_failures s' = (if etag_changed_for e then px_failures s
                            else record_failure (po_instant obs) url (px_failures s)))"
proof (cases joined)
  case None
  then show ?thesis using assms by (auto simp: persist_download_def Let_def note_failure_def)
next
  case (Some r)
  show ?thesis
  proof (cases r)
    case (Inl e)
    then show ?thesis using assms Some by (auto simp: persist_download_def Let_def note_failure_def)
  next
    case (Inr u)
    then show ?thesis using assms Some
      by (auto simp: persist_download_def Let_def note_failure_def on_disk_def
          split: if_splits option.splits sum.splits)
  qed
qed

lemma persistence_settles_witness:
  "\<exists>s'. persist_download one_entry_env http_etag_changed
       \<lparr>po_instant = 5, po_unix = 9, po_faults = no_faults, po_sync_ok = True, po_xz_test = (\<lambda>_. True)\<rparr>
       ''u'' 0 [] (Some (Inl Dl_etag_changed))
       (idle_proxy\<lparr>px_buffers := [new_buffer 2 [0, 0] ''/c/tmp/a.download'']\<rparr>) = Some s'
     \<and> px_failures s' = [] \<and> failed (px_buffers s' ! 0)"
proof -
  let ?s = "idle_proxy\<lparr>px_buffers := [new_buffer 2 [0, 0] ''/c/tmp/a.download'']\<rparr>"
  let ?o = "\<lparr>po_instant = 5, po_unix = 9, po_faults = no_faults, po_sync_ok = True, po_xz_test = (\<lambda>_. True)\<rparr>"
  obtain s' where r: "persist_download one_entry_env http_etag_changed ?o ''u'' 0 [] (Some (Inl Dl_etag_changed)) ?s = Some s'"
    by (simp add: persist_download_def Let_def)
  from persistence_settles [OF r] show ?thesis using r by (simp add: http_etag_changed_def idle_proxy_def)
qed

end
