(* ===== verification/Proxy_Handler.thy ===== *)
theory Proxy_Handler
  imports Proxy_Flight Ip_Limiter Ftp_Download Config_Load
begin

text \<open>
  The request handlers of \<open>src/src/proxy.rs\<close>: \<open>handle_proxy\<close>, \<open>handle_proxy_inner\<close>,
  \<open>handle_ftp_proxy\<close> and what they call to make a response. The state is the one of the theory
  Proxy\_Flight with the limiter and the tasks that are running; what the outside answers (the
  client for HTTP, the FTP client, the disk) are the observations of a request. A response
  names where its body comes from; the streams themselves are the theories Buffer\_Stream and
  Throttled\_Stream. \<open>None\<close> is a request that has not been answered.
\<close>

record download_task =
  tk_url :: string
  tk_buffer :: nat
  tk_headers :: header_map
  tk_ftp :: bool

record app_state =
  ap_maps :: "url_map list"
  ap_flight :: flight_config
  ap_temp_dir :: string
  ap_proxy :: proxy_state
  ap_limiter :: ip_limiter
  ap_workers :: worker_limiter
  ap_upstream :: token_bucket
  ap_tasks :: "download_task list"

definition from_config :: "config \<Rightarrow> cache_db option \<Rightarrow> disk_files \<Rightarrow> u64 \<Rightarrow> app_state" where
  "from_config cfg db disk clock =
     \<lparr>ap_maps = cfg_url_maps cfg,
      ap_flight = \<lparr>fc_max_retries = cfg_coalesce_max_retries cfg,
                   fc_etag_max_retries = cfg_coalesce_etag_max_retries cfg,
                   fc_max_cache_age = cfg_max_cache_age cfg\<rparr>,
      ap_temp_dir = join_path (cfg_cache_dir cfg) ''tmp'',
      ap_proxy = \<lparr>px_cache = new_cache (cfg_cache_dir cfg) (cfg_max_cache_size cfg) db disk,
                  px_coalescer = new_coalescer, px_failures = [], px_buffers = []\<rparr>,
      ap_limiter = new_limiter (cfg_max_connections_per_ip cfg) (cfg_max_total_connections cfg)
                     (of_nat (cfg_per_ip_bandwidth cfg)),
      ap_workers = new_worker_limiter (cfg_max_workers cfg),
      ap_upstream = (if cfg_upstream_bandwidth cfg = 0 then unlimited_bucket
                     else new_bucket (of_nat (cfg_upstream_bandwidth cfg)) (of_nat (cfg_upstream_bandwidth cfg)) clock),
      ap_tasks = []\<rparr>"

datatype body = Body_empty | Body_file bytes | Body_buffer nat | Body_upstream

record response =
  rs_status :: nat
  rs_headers :: header_map
  rs_body :: body
  rs_permit :: "ip_permit option"

record request_obs =
  rq_ip :: string
  rq_now :: nat
  rq_clock :: u64
  rq_turns :: "turn_obs list"
  rq_head :: "(nat \<times> header_map) option"
  rq_get :: "(nat \<times> header_map) option"
  rq_ftp_size :: "ftp_failure + nat"
  rq_uuid :: string
  rq_create_ok :: bool
  rq_alloc_ok :: bool

definition plain_response :: "nat \<Rightarrow> header_map \<Rightarrow> body \<Rightarrow> response" where
  "plain_response status hs b = \<lparr>rs_status = status, rs_headers = hs, rs_body = b, rs_permit = None\<rparr>"

subsection \<open>Making a response\<close>

definition serve_file :: "string \<Rightarrow> header_map \<Rightarrow> disk_files \<Rightarrow> proxy_error + response" where
  "serve_file path hs d =
     (case am_get (resolve_path path) d of
        None \<Rightarrow> Inl (Internal ''failed to open cache file'')
      | Some content \<Rightarrow>
          Inr (plain_response 200
                 (header_append ''accept-ranges'' ''bytes''
                    (header_append ''content-length'' (dec (length content)) hs))
                 (Body_file content)))"

definition serve_from_buffer :: "nat \<Rightarrow> proxy_state \<Rightarrow> response option" where
  "serve_from_buffer h s =
     (case meta (px_buffers s ! h) of
        None \<Rightarrow> None
      | Some (status, hs) \<Rightarrow> Some (plain_response status hs (Body_buffer h)))"

definition plain_proxy :: "(nat \<times> header_map) option \<Rightarrow> proxy_error + response" where
  "plain_proxy answer =
     (case answer of
        None \<Rightarrow> Inl Upstream_error
      | Some (status, hs) \<Rightarrow> Inr (plain_response status (copy_forward_headers hs []) Body_upstream))"

text \<open>
  The stream of \<open>plain_proxy\<close>: a chunk passes when the upstream bucket has the tokens for it,
  and is otherwise replaced by an error.
\<close>

fun plain_chunks :: "(u64 \<times> (unit + bytes)) list \<Rightarrow> token_bucket \<Rightarrow> (unit + bytes) list \<times> token_bucket" where
  "plain_chunks [] bk = ([], bk)"
| "plain_chunks ((now, Inl e) # items) bk = (let (out, bk1) = plain_chunks items bk in (Inl e # out, bk1))"
| "plain_chunks ((now, Inr chunk) # items) bk =
     (let (ok, bk1) = try_consume now (of_nat (length chunk)) bk;
          (out, bk2) = plain_chunks items bk1
      in ((if ok then Inr chunk else Inl ()) # out, bk2))"

subsection \<open>Leading a download\<close>

definition settle :: "string \<Rightarrow> app_state \<Rightarrow> app_state" where
  "settle url a =
     a\<lparr>ap_proxy := (ap_proxy a)\<lparr>px_coalescer := complete url (px_coalescer (ap_proxy a))\<rparr>\<rparr>"

text \<open>The temporary file, its buffer, and the two tasks that fill and keep it.\<close>

definition begin_download ::
    "request_obs \<Rightarrow> string \<Rightarrow> nat \<Rightarrow> header_map \<Rightarrow> bool \<Rightarrow> app_state \<Rightarrow> (proxy_error + response) \<times> app_state" where
  "begin_download obs url sz hs ftp a =
     (let path = join_path (ap_temp_dir a) (rq_uuid obs @ ''.download'') in
      if \<not> rq_create_ok obs then (Inl (Internal ''failed to create temp file''), a)
      else if \<not> rq_alloc_ok obs then
        (Inl (Internal ''failed to allocate temp file''),
         a\<lparr>ap_proxy := on_disk (am_insert (resolve_path path) []) (ap_proxy a)\<rparr>)
      else
        let content = replicate sz 0;
            s = on_disk (am_insert (resolve_path path) content) (ap_proxy a);
            h = length (px_buffers s);
            s1 = s\<lparr>px_buffers := px_buffers s @ [set_meta 200 hs (new_buffer sz content path)],
                   px_coalescer := attach_buffer url h (px_coalescer s)\<rparr>
        in (Inr (plain_response 200 hs (Body_buffer h)),
            a\<lparr>ap_proxy := s1,
              ap_tasks := ap_tasks a @ [\<lparr>tk_url = url, tk_buffer = h, tk_headers = hs, tk_ftp = ftp\<rparr>]\<rparr>))"

definition header_length :: "header_map \<Rightarrow> nat option" where
  "header_length hs =
     (case header_text ''content-length'' hs of None \<Rightarrow> None | Some s \<Rightarrow> parse_uint u64_max s)"

definition lead_download :: "request_obs \<Rightarrow> string \<Rightarrow> app_state \<Rightarrow> (proxy_error + response) \<times> app_state" where
  "lead_download obs url a =
     (case rq_head obs of
        None \<Rightarrow> (Inl Upstream_error, a)
      | Some (status, hs) \<Rightarrow>
          if \<not> (200 \<le> status \<and> status < 300) then
            (if status = 405 \<or> status = 501 then (plain_proxy (rq_get obs), settle url a)
             else (Inr (plain_response status (copy_forward_headers hs []) Body_empty), settle url a))
          else if \<not> can_multithread (header_length hs) (header_get ''accept-ranges'' hs)
          then (plain_proxy (rq_get obs), settle url a)
          else begin_download obs url (the (header_length hs)) (copy_forward_headers hs []) False a)"

definition lead_ftp_download :: "request_obs \<Rightarrow> string \<Rightarrow> app_state \<Rightarrow> (proxy_error + response) \<times> app_state" where
  "lead_ftp_download obs url a =
     (case parse_ftp_url url of
        Inl e \<Rightarrow> (Inl (Bad_request ''FTP URL''), a)
      | Inr u \<Rightarrow>
          (case rq_ftp_size obs of
             Inl e \<Rightarrow> (Inl (Bad_gateway ''FTP SIZE failed''), a)
           | Inr sz \<Rightarrow>
               begin_download obs url sz
                 [(''content-type'', ''application/octet-stream''), (''content-length'', dec sz),
                  (''accept-ranges'', ''bytes'')] True a))"

subsection \<open>The handlers\<close>

text \<open>From the outcome of the coalescer to a response.\<close>

definition serve_outcome ::
    "(app_state \<Rightarrow> (proxy_error + response) \<times> app_state) \<Rightarrow> (proxy_error + coalesce_outcome) \<Rightarrow> app_state
       \<Rightarrow> ((proxy_error + response) \<times> app_state) option" where
  "serve_outcome lead outcome a =
     (case outcome of
        Inl e \<Rightarrow> Some (Inl e, a)
      | Inr (Cached path hs) \<Rightarrow> Some (serve_file path hs (c_disk (px_cache (ap_proxy a))), a)
      | Inr (From_buffer h) \<Rightarrow> map_option (\<lambda>r. (Inr r, a)) (serve_from_buffer h (ap_proxy a))
      | Inr Become_leader \<Rightarrow> Some (lead a))"

definition coalesced ::
    "cache_env \<Rightarrow> (string \<Rightarrow> int option) \<Rightarrow> request_obs \<Rightarrow> string
       \<Rightarrow> (app_state \<Rightarrow> (proxy_error + response) \<times> app_state) \<Rightarrow> app_state
       \<Rightarrow> ((proxy_error + response) \<times> app_state) option" where
  "coalesced env parse_date obs url lead a =
     (case resolve_with_coalescing env parse_date (ap_flight a) url (rq_turns obs) 0 (ap_proxy a) of
        None \<Rightarrow> None
      | Some (outcome, s) \<Rightarrow> serve_outcome lead outcome (a\<lparr>ap_proxy := s\<rparr>))"

definition handle_ftp_proxy ::
    "cache_env \<Rightarrow> (string \<Rightarrow> int option) \<Rightarrow> request_obs \<Rightarrow> string \<Rightarrow> app_state
       \<Rightarrow> ((proxy_error + response) \<times> app_state) option" where
  "handle_ftp_proxy env parse_date obs url a =
     coalesced env parse_date obs url (lead_ftp_download obs url) a"

text \<open>A response that takes the permit along, or one that goes without it.\<close>

definition wrap_response_with_permit :: "response \<Rightarrow> ip_permit \<Rightarrow> response" where
  "wrap_response_with_permit r p = r\<lparr>rs_permit := Some p\<rparr>"

definition forward_head :: "(nat \<times> header_map) option \<Rightarrow> proxy_error + response" where
  "forward_head answer =
     (case answer of
        None \<Rightarrow> Inl Upstream_error
      | Some (status, hs) \<Rightarrow> Inr (plain_response status (copy_forward_headers hs []) Body_empty))"

definition drop_permit :: "ip_permit \<Rightarrow> app_state \<Rightarrow> app_state" where
  "drop_permit p a = a\<lparr>ap_limiter := release p (ap_limiter a)\<rparr>"

text \<open>The end of a request that was to take its permit along: an error drops it.\<close>

definition with_permit :: "ip_permit \<Rightarrow> (proxy_error + response) \<times> app_state \<Rightarrow> (proxy_error + response) \<times> app_state" where
  "with_permit p = (\<lambda>(r, a).
     case r of Inl e \<Rightarrow> (Inl e, drop_permit p a) | Inr resp \<Rightarrow> (Inr (wrap_response_with_permit resp p), a))"

definition handle_proxy_inner ::
    "cache_env \<Rightarrow> (string \<Rightarrow> int option) \<Rightarrow> (string \<Rightarrow> parsed_url option) \<Rightarrow> request_obs \<Rightarrow> bool \<Rightarrow> string
       \<Rightarrow> app_state \<Rightarrow> ((proxy_error + response) \<times> app_state) option" where
  "handle_proxy_inner env parse_date url_of obs is_head url0 a0 =
     (case acquire (rq_ip obs) (rq_now obs) (rq_clock obs) (ap_limiter a0) of
        (None, l) \<Rightarrow> Some (Inl Too_many_requests, a0\<lparr>ap_limiter := l\<rparr>)
      | (Some p, l) \<Rightarrow>
          let a = a0\<lparr>ap_limiter := l\<rparr>; url = resolve_url url0 (ap_maps a) in
          (case is_safe_upstream_url url_of url of
             Inl e \<Rightarrow> Some (Inl (Bad_request e), drop_permit p a)
           | Inr _ \<Rightarrow>
               if is_head then Some (forward_head (rq_head obs), drop_permit p a)
               else if starts_with url ''ftp://'' \<or> starts_with url ''ftps://''
               then map_option (with_permit p) (handle_ftp_proxy env parse_date obs url a)
               else map_option (with_permit p)
                      (coalesced env parse_date obs url (lead_download obs url) a)))"

definition handle_proxy ::
    "cache_env \<Rightarrow> (string \<Rightarrow> int option) \<Rightarrow> (string \<Rightarrow> parsed_url option) \<Rightarrow> request_obs \<Rightarrow> bool \<Rightarrow> string
       \<Rightarrow> header_map \<Rightarrow> app_state \<Rightarrow> ((proxy_error + response) \<times> app_state) option" where
  "handle_proxy env parse_date url_of obs is_head uri headers a =
     (case request_url uri headers of
        Inl e \<Rightarrow> Some (Inl e, a)
      | Inr url \<Rightarrow> handle_proxy_inner env parse_date url_of obs is_head url a)"

end
