(* ===== verification/Proxy_Properties.thy ===== *)
theory Proxy_Properties
  imports Proxy_Handler Cache_Properties
begin

text \<open>
  What the request handlers of the theory Proxy\_Handler keep: the accounts of the limiter, the
  handles of the buffers, the flights of the coalescer; and what a download leaves for the next
  request of its URL.
\<close>

subsection \<open>What the parts of a request change\<close>

lemma settle_frames [simp]:
  "ap_limiter (settle url a) = ap_limiter a" "ap_tasks (settle url a) = ap_tasks a"
  "px_buffers (ap_proxy (settle url a)) = px_buffers (ap_proxy a)"
  "px_coalescer (ap_proxy (settle url a)) = complete url (px_coalescer (ap_proxy a))"
  by (simp_all add: settle_def)

lemma begin_limiter: "ap_limiter (snd (begin_download obs url sz hs ftp a)) = ap_limiter a"
  by (simp add: begin_download_def Let_def)

lemma lead_limiter:
  "ap_limiter (snd (lead_download obs url a)) = ap_limiter a"
  "ap_limiter (snd (lead_ftp_download obs url a)) = ap_limiter a"
  by (simp_all add: lead_download_def lead_ftp_download_def begin_limiter split: option.split prod.split sum.split)

lemma serve_outcome_limiter:
  assumes "serve_outcome lead x a = Some (r, a')" "\<And>b. ap_limiter (snd (lead b)) = ap_limiter b"
  shows "ap_limiter a' = ap_limiter a"
  using assms(1) assms(2) [of a]
  by (auto simp: serve_outcome_def split: sum.splits coalesce_outcome.splits)

lemma coalesced_limiter:
  assumes "coalesced env parse_date obs url lead a = Some (r, a')"
    and "\<And>b. ap_limiter (snd (lead b)) = ap_limiter b"
  shows "ap_limiter a' = ap_limiter a"
proof -
  obtain x s where "serve_outcome lead x (a\<lparr>ap_proxy := s\<rparr>) = Some (r, a')"
    using assms(1) by (auto simp: coalesced_def split: option.splits prod.splits)
  from serve_outcome_limiter [OF this assms(2)] show ?thesis by simp
qed

subsection \<open>The accounts of the limiter\<close>

text \<open>The permits that are out because of a response.\<close>

definition taken_along :: "string \<Rightarrow> proxy_error + response \<Rightarrow> (string \<times> ip_permit) list" where
  "taken_along ip r =
     (case r of Inl _ \<Rightarrow> []
      | Inr resp \<Rightarrow> (case rs_permit resp of None \<Rightarrow> [] | Some p \<Rightarrow> [(ip, p)]))"

definition accounts_ok :: "nat \<Rightarrow> nat \<Rightarrow> (string \<times> ip_permit) list \<Rightarrow> ip_limiter \<Rightarrow> bool" where
  "accounts_ok k cap held l \<longleftrightarrow>
     lim_inv held l \<and> per_ip_limit l = k \<and> global_free l + length held = cap"

lemma accounts_acquire:
  assumes "accounts_ok k cap held l" "0 < k" "acquire ip now clock l = (r, l')"
  shows "accounts_ok k cap (held @ (case r of None \<Rightarrow> [] | Some p \<Rightarrow> [(ip, p)])) l'"
proof -
  have inv: "lim_inv held l" "per_ip_limit l = k" and sum: "global_free l + length held = cap"
    using assms(1) by (simp_all add: accounts_ok_def)
  have "lim_inv (held @ (case r of None \<Rightarrow> [] | Some p \<Rightarrow> [(ip, p)])) l'" "per_ip_limit l' = k"
    using acquire_decides [OF inv(1) _ assms(3)] assms(2) inv(2) by simp_all
  then show ?thesis
    using acquire_global [OF assms(3)] sum by (cases r) (simp_all add: accounts_ok_def)
qed

lemma accounts_release:
  assumes "accounts_ok k cap (held @ [(ip, p)]) l"
  shows "accounts_ok k cap held (release p l)"
proof -
  have "per_ip_limit (release p l) = per_ip_limit l" by (simp add: release_def split: option.split)
  moreover have "drop_nth (length held) (held @ [(ip, p)]) = held" by (simp add: drop_nth_def)
  ultimately show ?thesis
    using assms lim_inv_release [of "held @ [(ip, p)]" l "length held"]
    by (auto simp: accounts_ok_def release_global)
qed

lemma with_permit_accounts:
  assumes "accounts_ok k cap (held @ [(ip, p)]) (ap_limiter a)" "with_permit p (r, a) = (r', a')"
  shows "accounts_ok k cap (held @ taken_along ip r') (ap_limiter a')"
  using assms accounts_release [OF assms(1)]
  by (auto simp: with_permit_def taken_along_def drop_permit_def wrap_response_with_permit_def split: sum.splits)

text \<open>A request that is past the limiter gives its permit to the response or gives it back.\<close>

lemma inner_accounts:
  assumes "handle_proxy_inner env parse_date url_of obs is_head url0 a0 = Some (r, a')"
    and "accounts_ok k cap held (ap_limiter a0)" "0 < k"
  shows "accounts_ok k cap (held @ taken_along (rq_ip obs) r) (ap_limiter a')
     \<and> (\<forall>resp. r = Inr resp \<longrightarrow> (rs_permit resp = None \<longleftrightarrow> is_head))"
proof -
  obtain q l where acq: "acquire (rq_ip obs) (rq_now obs) (rq_clock obs) (ap_limiter a0) = (q, l)" by fastforce
  note acc = accounts_acquire [OF assms(2,3) acq]
  show ?thesis
  proof (cases q)
    case None
    then show ?thesis using assms(1) acq acc by (auto simp: handle_proxy_inner_def taken_along_def)
  next
    case (Some p)
    let ?a = "a0\<lparr>ap_limiter := l\<rparr>"
    let ?url = "resolve_url url0 (ap_maps ?a)"
    have acc: "accounts_ok k cap (held @ [(rq_ip obs, p)]) (ap_limiter ?a)" using acc Some by simp
    have dropped: ?thesis if "r = Inl e \<or> is_head \<and> r = forward_head (rq_head obs)" "a' = drop_permit p ?a" for e
      using that accounts_release [OF acc]
      by (auto simp: drop_permit_def taken_along_def forward_head_def plain_response_def split: option.splits)
    have along: ?thesis
      if m: "map_option (with_permit p) x = Some (r, a')"
        and keep: "\<And>r b. x = Some (r, b) \<Longrightarrow> ap_limiter b = l" and get: "\<not> is_head" for x
    proof -
      obtain r1 b where x: "x = Some (r1, b)" "with_permit p (r1, b) = (r, a')" using m by auto
      then show ?thesis using keep [OF x(1)] acc get with_permit_accounts [of k cap held "rq_ip obs" p b r1 r a']
        by (auto simp: with_permit_def wrap_response_with_permit_def split: sum.splits)
    qed
    have lim: "ap_limiter b = l"
      if "coalesced env parse_date obs ?url lead ?a = Some (r1, b)" "\<And>b. ap_limiter (snd (lead b)) = ap_limiter b"
      for lead r1 b
      using coalesced_limiter [OF that] by simp
    show ?thesis
    proof (cases "is_safe_upstream_url url_of ?url")
      case (Inl e)
      then show ?thesis using dropped [of "Bad_request e"] assms(1) acq Some
        by (simp add: handle_proxy_inner_def Let_def)
    next
      case safe: (Inr u)
      show ?thesis
      proof (cases is_head)
        case True
        then show ?thesis using dropped assms(1) acq Some safe by (simp add: handle_proxy_inner_def Let_def)
      next
        case False
        then obtain lead where "map_option (with_permit p) (coalesced env parse_date obs ?url lead ?a) = Some (r, a')"
          "\<And>b. ap_limiter (snd (lead b)) = ap_limiter b"
          using assms(1) acq Some safe lead_limiter
          by (auto simp: handle_proxy_inner_def handle_ftp_proxy_def Let_def split: if_splits)
        then show ?thesis using along [of "coalesced env parse_date obs ?url lead ?a"] lim False by blast
      qed
    qed
  qed
qed

text \<open>
  C17. The permits are accounted for whatever a request runs into: when it is answered, the limiter
  is as if exactly the permit that the response carries had been taken. An error of any kind and
  the answer to a HEAD leave no permit behind; every other response holds one until it is dropped.
\<close>

theorem permit_accounted:
  assumes "handle_proxy env parse_date url_of obs is_head uri headers a = Some (r, a')"
    and "accounts_ok k cap held (ap_limiter a)" "0 < k"
  shows "accounts_ok k cap (held @ taken_along (rq_ip obs) r) (ap_limiter a')
     \<and> (\<forall>resp. r = Inr resp \<longrightarrow> (rs_permit resp = None \<longleftrightarrow> is_head))"
proof (cases "request_url uri headers")
  case (Inl e)
  then show ?thesis using assms by (auto simp: handle_proxy_def taken_along_def)
next
  case (Inr url)
  then show ?thesis using inner_accounts assms by (simp add: handle_proxy_def)
qed

definition demo_app :: app_state where
  "demo_app = \<lparr>ap_maps = [], ap_flight = demo_cfg, ap_temp_dir = ''/c/tmp'', ap_proxy = idle_proxy,
     ap_limiter = new_limiter 1 3 0, ap_workers = new_worker_limiter 4, ap_upstream = unlimited_bucket,
     ap_tasks = []\<rparr>"

definition demo_req :: "(nat \<times> header_map) option \<Rightarrow> request_obs" where
  "demo_req answer = \<lparr>rq_ip = ''10.0.0.7'', rq_now = 0, rq_clock = 0, rq_turns = [demo_obs], rq_head = answer,
     rq_get = None, rq_ftp_size = Inr 4, rq_uuid = ''1-2'', rq_create_ok = True, rq_alloc_ok = True\<rparr>"

definition any_http :: "string \<Rightarrow> parsed_url option" where
  "any_http url = Some \<lparr>pu_scheme = ''http'', pu_username = [], pu_password = None\<rparr>"

lemma demo_req_simps [simp]:
  "rq_ip (demo_req answer) = ''10.0.0.7''" "rq_head (demo_req answer) = answer"
  "rq_create_ok (demo_req answer)" "rq_alloc_ok (demo_req answer)"
  by (simp_all add: demo_req_def)

text \<open>A request for an unknown URL of an idle proxy leads the download.\<close>

lemma demo_leads:
  "resolve_with_coalescing env parse_date demo_cfg url [demo_obs] 0 idle_proxy
     = Some (Inr Become_leader, idle_proxy\<lparr>px_coalescer := snd (register url new_coalescer)\<rparr>)"
  by (simp add: resolve_turn_def consult_cache_def lookup_entry_def idle_proxy_def new_cache_def
      migrate_schema_def find_row_def is_in_cooldown_def demo_obs_def register_def new_coalescer_def MAX_INFLIGHT_def)

lemma demo_handle:
  "handle_proxy env parse_date any_http (demo_req answer) False ''http://h/u'' [] demo_app
     = (let a = demo_app\<lparr>ap_proxy := idle_proxy\<lparr>px_coalescer := snd (register ''http://h/u'' new_coalescer)\<rparr>,
                         ap_limiter := snd (acquire ''10.0.0.7'' 0 0 (new_limiter 1 3 0))\<rparr>
        in Some (with_permit (the (fst (acquire ''10.0.0.7'' 0 0 (new_limiter 1 3 0))))
             (lead_download (demo_req answer) ''http://h/u'' a)))"
proof -
  have "request_url ''http://h/u'' [] = Inr ''http://h/u''" by code_simp
  moreover obtain p l where "acquire ''10.0.0.7'' 0 0 (new_limiter 1 3 0) = (Some p, l)"
    by (simp add: acquire_def new_limiter_def touch_semaphore_def try_acquire_sem_def get_or_create_bucket_def Let_def)
  moreover have "is_safe_upstream_url any_http u = Inr ()" for u
    by (simp add: is_safe_upstream_url_def any_http_def)
  moreover have "\<not> starts_with ''http://h/u'' ''ftp://''" "\<not> starts_with ''http://h/u'' ''ftps://''" by code_simp+
  ultimately show ?thesis
    using demo_leads [of env parse_date "''http://h/u''"]
    by (simp add: handle_proxy_def handle_proxy_inner_def coalesced_def serve_outcome_def demo_req_def demo_app_def
        Let_def)
qed

theorem permit_accounted_witness:
  "\<exists>r a'. handle_proxy demo_env (\<lambda>_. None) any_http (demo_req (Some (404, []))) False ''http://h/u'' [] demo_app = Some (r, a')
     \<and> accounts_ok 1 3 (taken_along ''10.0.0.7'' r) (ap_limiter a') \<and> taken_along ''10.0.0.7'' r \<noteq> []"
proof -
  let ?x = "handle_proxy demo_env (\<lambda>_. None) any_http (demo_req (Some (404, []))) False ''http://h/u'' [] demo_app"
  obtain resp a' where x: "?x = Some (Inr resp, a')"
    by (simp add: demo_handle Let_def lead_download_def with_permit_def)
  have "accounts_ok 1 3 [] (ap_limiter demo_app)"
    by (simp add: accounts_ok_def demo_app_def lim_inv_new) (simp add: new_limiter_def)
  from permit_accounted [OF x this] show ?thesis
    using x by (auto simp: taken_along_def split: option.splits)
qed

subsection \<open>The flight of a leader\<close>

text \<open>What the flight of \<open>url\<close> is after its leader, whose followers \<open>txs\<close> are waiting, has answered.\<close>

definition flight_after ::
    "string \<Rightarrow> nat list \<Rightarrow> bool \<Rightarrow> app_state \<Rightarrow> (proxy_error + response) \<times> app_state \<Rightarrow> bool" where
  "flight_after url txs may_abandon a = (\<lambda>(r, a').
     let co = px_coalescer (ap_proxy a'); h = length (px_buffers (ap_proxy a)) in
     case am_get url (inflight co) of
       None \<Rightarrow> ap_tasks a' = ap_tasks a \<and> (\<forall>tx \<in> set txs. channels co tx = Dropped)
     | Some (In_download b) \<Rightarrow>
         b = h \<and> (\<exists>tk. ap_tasks a' = ap_tasks a @ [tk] \<and> tk_url tk = url \<and> tk_buffer tk = h) \<and>
         (\<exists>resp. r = Inr resp \<and> rs_body resp = Body_buffer h \<and> serve_from_buffer h (ap_proxy a') = Some resp) \<and>
         (\<forall>tx \<in> set txs. channels co tx = Sent h)
     | Some (Pending txs') \<Rightarrow> txs' = txs \<and> ap_tasks a' = ap_tasks a \<and> \<not> is_ok r \<and> may_abandon)"

lemma flight_of_begin:
  assumes "am_get url (inflight (px_coalescer (ap_proxy a))) = Some (Pending txs)"
    and "\<not> rq_create_ok obs \<or> \<not> rq_alloc_ok obs \<Longrightarrow> may_abandon"
  shows "flight_after url txs may_abandon a (begin_download obs url sz hs ftp a)"
  using assms
  by (auto simp: flight_after_def begin_download_def Let_def attach_buffer_def send_all_def on_disk_def
      serve_from_buffer_def plain_response_def set_meta_def nth_append is_ok_def)

lemma flight_of_settle:
  assumes "am_get url (inflight (px_coalescer (ap_proxy a))) = Some (Pending txs)"
  shows "flight_after url txs may_abandon a (r, settle url a)"
  using assms by (simp add: flight_after_def complete_def take_entry_def send_all_def)

lemma flight_of_error:
  assumes "am_get url (inflight (px_coalescer (ap_proxy a))) = Some (Pending txs)" "may_abandon"
  shows "flight_after url txs may_abandon a (Inl e, a)"
  using assms by (simp add: flight_after_def is_ok_def)

lemma http_leader_flight:
  assumes "am_get url (inflight (px_coalescer (ap_proxy a))) = Some (Pending txs)"
  shows "flight_after url txs (rq_head obs = None \<or> \<not> rq_create_ok obs \<or> \<not> rq_alloc_ok obs) a
     (lead_download obs url a)"
proof -
  let ?may = "rq_head obs = None \<or> \<not> rq_create_ok obs \<or> \<not> rq_alloc_ok obs"
  show ?thesis
    using flight_of_error [OF assms, of ?may] flight_of_settle [OF assms, of ?may]
      flight_of_begin [OF assms, of obs ?may]
    unfolding lead_download_def by (auto simp: Let_def split: option.splits prod.splits)
qed

text \<open>
  C18. What a leader leaves of its flight: either the download runs, its task and the followers that
  were waiting all have the buffer the response reads from, and the URL is held under that buffer;
  or the URL is released, every follower has been told to try again, and no task is left; or the
  answer is an error and the flight is abandoned, pending with nobody to settle it, which happens
  only when the HEAD request got no answer or the temporary file could not be made.
\<close>

theorem leader_settles_flight:
  assumes "am_get url (inflight (px_coalescer (ap_proxy a))) = Some (Pending txs)"
  shows "flight_after url txs (rq_head obs = None \<or> \<not> rq_create_ok obs \<or> \<not> rq_alloc_ok obs) a
     (lead_download obs url a)"
  by (rule http_leader_flight [OF assms])

theorem leader_settles_flight_witness:
  "let a = demo_app\<lparr>ap_proxy := idle_proxy\<lparr>px_coalescer := snd (register ''u'' new_coalescer)\<rparr>\<rparr>
   in flight_after ''u'' [] False a
        (lead_download (demo_req (Some (200, [(''content-length'', ''4''), (''accept-ranges'', ''bytes'')]))) ''u'' a)"
proof -
  let ?a = "demo_app\<lparr>ap_proxy := idle_proxy\<lparr>px_coalescer := snd (register ''u'' new_coalescer)\<rparr>\<rparr>"
  have "am_get ''u'' (inflight (px_coalescer (ap_proxy ?a))) = Some (Pending [])"
    by (simp add: register_def new_coalescer_def MAX_INFLIGHT_def)
  from leader_settles_flight [OF this,
      of "demo_req (Some (200, [(''content-length'', ''4''), (''accept-ranges'', ''bytes'')]))"]
  show ?thesis by (simp add: Let_def)
qed

text \<open>The FTP handler abandons its flight on the errors of the URL and of the SIZE command as well.\<close>

lemma ftp_leader_flight:
  assumes "am_get url (inflight (px_coalescer (ap_proxy a))) = Some (Pending txs)"
  shows "flight_after url txs (\<not> is_ok (parse_ftp_url url) \<or> \<not> is_ok (rq_ftp_size obs) \<or> \<not> rq_create_ok obs
       \<or> \<not> rq_alloc_ok obs) a (lead_ftp_download obs url a)"
proof -
  let ?may = "\<not> is_ok (parse_ftp_url url) \<or> \<not> is_ok (rq_ftp_size obs) \<or> \<not> rq_create_ok obs \<or> \<not> rq_alloc_ok obs"
  show ?thesis
    using flight_of_error [OF assms, of ?may] flight_of_begin [OF assms, of obs ?may]
    unfolding lead_ftp_download_def by (auto split: sum.splits)
qed

text \<open>
  One HEAD request that gets no answer is enough to block a URL: the leader returns an error
  without settling its flight, and from then on, whatever is done for other URLs, every request
  for this one becomes a follower of nobody and waits out its timeout.
\<close>

lemma failed_head_blocks_url:
  assumes "am_get url (inflight (px_coalescer (ap_proxy a))) = None"
    and "length (inflight (px_coalescer (ap_proxy a))) < MAX_INFLIGHT"
    and "a1 = a\<lparr>ap_proxy := (ap_proxy a)\<lparr>px_coalescer := snd (register url (px_coalescer (ap_proxy a)))\<rparr>\<rparr>"
    and "lead_download obs url a1 = (r, a2)" "rq_head obs = None"
    and "\<forall>op \<in> set ops. \<not> touches url op"
    and "length (inflight (co_run ops (px_coalescer (ap_proxy a2)))) < MAX_INFLIGHT"
  shows "\<exists>tx. fst (register url (co_run ops (px_coalescer (ap_proxy a2)))) = Follower tx"
proof (rule abandoned_flight_blocks_url [OF _ assms(6,7)])
  show "am_get url (inflight (px_coalescer (ap_proxy a2))) = Some (Pending [])"
    using assms(1-5) by (auto simp: lead_download_def register_def)
qed

subsection \<open>Every handle names a buffer\<close>

text \<open>A buffer a request can be sent to: it exists and its status and headers are set.\<close>

definition served :: "nat \<Rightarrow> segments_buffer list \<Rightarrow> bool" where
  "served h bs \<longleftrightarrow> h < length bs \<and> meta (bs ! h) \<noteq> None"

definition handles_ok :: "segments_buffer list \<Rightarrow> nat coalescer \<Rightarrow> bool" where
  "handles_ok bs c \<longleftrightarrow> co_inv c
     \<and> (\<forall>u b. am_get u (inflight c) = Some (In_download b) \<longrightarrow> served b bs)
     \<and> (\<forall>tx b. channels c tx = Sent b \<longrightarrow> served b bs)"

definition proxy_ok :: "proxy_state \<Rightarrow> bool" where
  "proxy_ok s \<longleftrightarrow> handles_ok (px_buffers s) (px_coalescer s)"

text \<open>What the other tasks may do meanwhile: anything that keeps the handles and forgets no buffer.\<close>

definition buffers_grow :: "proxy_state \<Rightarrow> proxy_state \<Rightarrow> bool" where
  "buffers_grow s s' \<longleftrightarrow> length (px_buffers s) \<le> length (px_buffers s')"

definition turn_ok :: "turn_obs \<Rightarrow> bool" where
  "turn_ok obs \<longleftrightarrow>
     (\<forall>s. proxy_ok s \<longrightarrow> proxy_ok (to_meanwhile obs s) \<and> proxy_ok (to_waiting obs s)
          \<and> buffers_grow s (to_meanwhile obs s) \<and> buffers_grow s (to_waiting obs s))"

definition app_ok :: "app_state \<Rightarrow> bool" where
  "app_ok a \<longleftrightarrow> proxy_ok (ap_proxy a)
     \<and> (\<forall>tk \<in> set (ap_tasks a). tk_buffer tk < length (px_buffers (ap_proxy a)))
     \<and> distinct (map tk_buffer (ap_tasks a))"

lemma handles_take: "handles_ok bs c \<Longrightarrow> handles_ok bs (take_entry url c)"
  using co_inv_take [of c url]
  by (auto simp: handles_ok_def take_entry_def send_all_def split: option.splits inflight.splits if_splits)

lemma handles_settle:
  "handles_ok bs c \<Longrightarrow> handles_ok bs (complete url c)" "handles_ok bs c \<Longrightarrow> handles_ok bs (fail url e c)"
  using handles_take [of bs c url] by (auto simp: handles_ok_def complete_def fail_def)

lemma handles_register: "handles_ok bs c \<Longrightarrow> handles_ok bs (snd (register url c))"
  using co_inv_register [of c url]
  by (auto simp: handles_ok_def register_def Let_def split: option.splits inflight.splits if_splits)

lemma handles_attach: "handles_ok bs c \<Longrightarrow> served b bs \<Longrightarrow> handles_ok bs (attach_buffer url b c)"
  using co_inv_attach [of c url b]
  by (auto simp: handles_ok_def attach_buffer_def send_all_def split: option.splits inflight.splits if_splits)

lemma handles_more: "handles_ok bs c \<Longrightarrow> handles_ok (bs @ added) c"
  by (force simp: handles_ok_def served_def nth_append)

lemma handles_follow: "handles_ok bs c \<Longrightarrow> fst (register url c) = Follower_buffer b \<Longrightarrow> served b bs"
  by (auto simp: handles_ok_def register_def Let_def split: option.splits inflight.splits if_splits)

lemma proxy_ok_cache [simp]: "proxy_ok (s\<lparr>px_cache := c\<rparr>) = proxy_ok s"
  by (simp add: proxy_ok_def)

lemma consult_frames:
  "consult_cache env parse_date cfg url obs s = (r, s') \<Longrightarrow>
     px_coalescer s' = px_coalescer s \<and> px_buffers s' = px_buffers s \<and> r \<noteq> Some (Inr (From_buffer h))"
  by (auto simp: consult_cache_def Let_def split: if_splits option.splits prod.splits revalidate.splits)

lemma buffers_grow_trans: "buffers_grow s t \<Longrightarrow> buffers_grow t u \<Longrightarrow> buffers_grow s u"
  by (simp add: buffers_grow_def)

definition outcome_ok :: "proxy_error + coalesce_outcome \<Rightarrow> proxy_state \<Rightarrow> bool" where
  "outcome_ok r s \<longleftrightarrow> (\<forall>h. r = Inr (From_buffer h) \<longrightarrow> served h (px_buffers s))"

lemma turn_keeps_ok:
  assumes "resolve_turn env parse_date cfg url obs s = (t, s')" "proxy_ok s" "turn_ok obs"
  shows "proxy_ok s' \<and> buffers_grow s s' \<and> (\<forall>r. t = Turn_done r \<longrightarrow> outcome_ok r s')"
proof -
  obtain x s1 where c: "consult_cache env parse_date cfg url obs s = (x, s1)" by fastforce
  have s1: "proxy_ok s1" "buffers_grow s s1"
    using consult_frames [OF c] assms(2) by (auto simp: proxy_ok_def buffers_grow_def)
  show ?thesis
  proof (cases x)
    case (Some r)
    then show ?thesis using consult_frames [OF c] c s1 assms(1) by (auto simp: resolve_turn_def outcome_ok_def)
  next
    case None
    let ?s2 = "to_meanwhile obs s1"
    have s2: "proxy_ok ?s2" "buffers_grow s ?s2"
      using assms(3) s1 buffers_grow_trans unfolding turn_ok_def by blast+
    obtain rr c2 where reg: "register url (px_coalescer ?s2) = (rr, c2)" by fastforce
    have "handles_ok (px_buffers ?s2) c2"
      using handles_register [of "px_buffers ?s2" "px_coalescer ?s2" url] s2 reg by (simp add: proxy_ok_def)
    moreover have "served b (px_buffers ?s2)" if "rr = Follower_buffer b" for b
      using handles_follow [of "px_buffers ?s2" "px_coalescer ?s2" url b] s2 reg that by (simp add: proxy_ok_def)
    ultimately show ?thesis
      using assms(1) c None reg s2
      by (cases rr) (auto simp: resolve_turn_def Let_def proxy_ok_def outcome_ok_def buffers_grow_def)
  qed
qed

lemma resolve_keeps_ok:
  assumes "resolve_with_coalescing env parse_date cfg url turns retries s = Some (r, s')"
    and "proxy_ok s" "\<forall>obs \<in> set turns. turn_ok obs"
  shows "proxy_ok s' \<and> buffers_grow s s' \<and> outcome_ok r s'"
  using assms
proof (induction turns arbitrary: retries s)
  case Nil
  then show ?case by simp
next
  case (Cons obs turns)
  obtain t s1 where t: "resolve_turn env parse_date cfg url obs s = (t, s1)" by fastforce
  have ok: "turn_ok obs" and oks: "\<forall>obs \<in> set turns. turn_ok obs" using Cons.prems(3) by simp_all
  note s1 = turn_keeps_ok [OF t Cons.prems(2) ok]
  show ?case
  proof (cases t)
    case (Turn_done x)
    then show ?thesis using t s1 Cons.prems by auto
  next
    case (Turn_waits rx)
    let ?s2 = "to_waiting obs s1"
    have s2: "proxy_ok ?s2" "buffers_grow s ?s2"
      using ok s1 buffers_grow_trans unfolding turn_ok_def by blast+
    show ?thesis
    proof (cases "channels (px_coalescer ?s2) rx")
      case Open
      then show ?thesis using t Turn_waits Cons.prems(1) s2 by (auto simp: Let_def outcome_ok_def)
    next
      case (Sent b)
      then show ?thesis using t Turn_waits Cons.prems(1) s2
        by (auto simp: Let_def outcome_ok_def proxy_ok_def handles_ok_def)
    next
      case Dropped
      then consider "\<exists>e. r = Inl e" "s' = ?s2"
        | k where "resolve_with_coalescing env parse_date cfg url turns k ?s2 = Some (r, s')"
        using t Turn_waits Cons.prems(1) by (auto simp: Let_def split: if_splits)
      then show ?thesis
      proof cases
        case 1
        then show ?thesis using s2 by (auto simp: outcome_ok_def)
      next
        case (2 k)
        from Cons.IH [OF this s2(1) oks] show ?thesis using s2(2) buffers_grow_trans by blast
      qed
    qed
  qed
qed

text \<open>An answer that reads from a buffer reads from one that is there.\<close>

definition answer_ok :: "(proxy_error + response) \<times> app_state \<Rightarrow> bool" where
  "answer_ok = (\<lambda>(r, a). app_ok a \<and>
     (\<forall>resp h. r = Inr resp \<longrightarrow> rs_body resp = Body_buffer h \<longrightarrow> served h (px_buffers (ap_proxy a))))"

lemma app_ok_settle: "app_ok a \<Longrightarrow> app_ok (settle url a)"
  by (simp add: app_ok_def settle_def proxy_ok_def handles_settle)

lemma app_ok_disk: "app_ok a \<Longrightarrow> app_ok (a\<lparr>ap_proxy := on_disk f (ap_proxy a)\<rparr>)"
  by (simp add: app_ok_def on_disk_def)

lemma answer_begin: "app_ok a \<Longrightarrow> answer_ok (begin_download obs url sz hs ftp a)"
proof (cases "rq_create_ok obs \<and> rq_alloc_ok obs")
  case False
  assume "app_ok a"
  then show ?thesis using False app_ok_disk by (simp add: answer_ok_def begin_download_def Let_def)
next
  case True
  assume ok: "app_ok a"
  let ?path = "join_path (ap_temp_dir a) (rq_uuid obs @ ''.download'')"
  let ?s = "on_disk (am_insert (resolve_path ?path) (replicate sz 0)) (ap_proxy a)"
  let ?bs = "px_buffers ?s @ [set_meta 200 hs (new_buffer sz (replicate sz 0) ?path)]"
  let ?h = "length (px_buffers (ap_proxy a))"
  have new: "served ?h ?bs" by (simp add: served_def set_meta_def)
  have "handles_ok ?bs (attach_buffer url ?h (px_coalescer ?s))"
    by (rule handles_attach [OF handles_more new]) (use ok in \<open>simp add: app_ok_def proxy_ok_def\<close>)
  moreover have "tk_buffer tk < ?h" if "tk \<in> set (ap_tasks a)" for tk using ok that by (simp add: app_ok_def)
  ultimately have "app_ok (snd (begin_download obs url sz hs ftp a))"
    using ok True by (force simp: app_ok_def begin_download_def Let_def proxy_ok_def)
  then show ?thesis using True new
    by (auto simp: answer_ok_def begin_download_def Let_def plain_response_def)
qed

lemma plain_body: "plain_proxy x = Inr resp \<Longrightarrow> rs_body resp \<noteq> Body_buffer h"
  by (auto simp: plain_proxy_def plain_response_def split: option.splits)

lemma answer_lead:
  assumes "app_ok a"
  shows "answer_ok (lead_download obs url a)" "answer_ok (lead_ftp_download obs url a)"
proof -
  show "answer_ok (lead_download obs url a)"
    using answer_begin [OF assms] app_ok_settle [OF assms, of url] assms
    unfolding lead_download_def
    by (auto simp: answer_ok_def plain_response_def Let_def plain_body split: option.splits prod.splits)
  show "answer_ok (lead_ftp_download obs url a)"
    using answer_begin [OF assms] assms
    unfolding lead_ftp_download_def by (auto simp: answer_ok_def split: sum.splits)
qed

text \<open>A request that goes through the coalescer is answered, and keeps the state well formed.\<close>

lemma coalesced_answers:
  assumes "app_ok a" "\<forall>obs \<in> set (rq_turns obs). turn_ok obs"
    and "max (fc_max_retries (ap_flight a)) (fc_etag_max_retries (ap_flight a)) < length (rq_turns obs)"
    and "\<And>b. app_ok b \<Longrightarrow> answer_ok (lead b)"
  shows "\<exists>x. coalesced env parse_date obs url lead a = Some x \<and> answer_ok x"
proof -
  obtain r s where r: "resolve_with_coalescing env parse_date (ap_flight a) url (rq_turns obs) 0 (ap_proxy a) = Some (r, s)"
    using resolve_ends [OF assms(3)] by blast
  let ?a = "a\<lparr>ap_proxy := s\<rparr>"
  have "proxy_ok (ap_proxy a)" using assms(1) by (simp add: app_ok_def)
  from resolve_keeps_ok [OF r this assms(2)]
  have s: "proxy_ok s" "buffers_grow (ap_proxy a) s" "outcome_ok r s" by blast+
  then have ok: "app_ok ?a" using assms(1) by (auto simp: app_ok_def buffers_grow_def)
  have serves: "\<exists>resp. serve_from_buffer h s = Some resp \<and> rs_body resp = Body_buffer h"
    if "served h (px_buffers s)" for h
    using that by (auto simp: served_def serve_from_buffer_def plain_response_def)
  show ?thesis
    using r ok s(3) serves assms(4) [OF ok]
    by (cases r; cases "projr r")
      (fastforce simp: coalesced_def serve_outcome_def answer_ok_def outcome_ok_def serve_file_def
        plain_response_def split: option.splits)+
qed

text \<open>
  Every request is answered, and every answer can be served: while the other tasks keep the
  state well formed, a request that has one more turn than the larger retry limit returns, error
  or response, and leaves the state well formed: each flight, each channel and each running task
  names a buffer that exists and whose status and headers are set, no two tasks fill the same
  buffer, and a response that reads from a buffer names such a one.
\<close>

lemma request_answered:
  assumes "app_ok a" and "\<forall>obs \<in> set (rq_turns obs). turn_ok obs"
    and "max (fc_max_retries (ap_flight a)) (fc_etag_max_retries (ap_flight a)) < length (rq_turns obs)"
  shows "\<exists>x. handle_proxy env parse_date url_of obs is_head uri headers a = Some x \<and> answer_ok x"
proof -
  have lim [simp]: "app_ok (b\<lparr>ap_limiter := l\<rparr>) = app_ok b" for b :: app_state and l by (simp add: app_ok_def)
  have permit: "answer_ok (with_permit p x)" if "answer_ok x" for p x
    using that by (auto simp: answer_ok_def with_permit_def drop_permit_def wrap_response_with_permit_def
        split: prod.splits sum.splits)
  have "\<exists>x. handle_proxy_inner env parse_date url_of obs is_head url0 a = Some x \<and> answer_ok x" for url0
  proof -
    obtain q l where acq: "acquire (rq_ip obs) (rq_now obs) (rq_clock obs) (ap_limiter a) = (q, l)" by fastforce
    let ?a = "a\<lparr>ap_limiter := l\<rparr>"
    let ?url = "resolve_url url0 (ap_maps ?a)"
    have co: "\<exists>x. coalesced env parse_date obs ?url lead ?a = Some x \<and> answer_ok x"
      if "lead = lead_download obs ?url \<or> lead = lead_ftp_download obs ?url" for lead
      by (rule coalesced_answers) (use assms that answer_lead in auto)
    have "answer_ok (Inl e, drop_permit p ?a)" "answer_ok (forward_head x, drop_permit p ?a)"
      "answer_ok (Inl e, ?a)" for e p x
      using assms(1) by (auto simp: answer_ok_def drop_permit_def forward_head_def plain_response_def split: option.splits)
    then show ?thesis
      using acq co [of "lead_download obs ?url"] co [of "lead_ftp_download obs ?url"] permit
      by (cases q; cases "is_safe_upstream_url url_of ?url")
        (auto simp: handle_proxy_inner_def handle_ftp_proxy_def Let_def simp del: split_paired_Ex)
  qed
  then show ?thesis using assms(1)
    by (cases "request_url uri headers") (auto simp: handle_proxy_def answer_ok_def)
qed

lemma turn_ok_demo: "turn_ok demo_obs"
  by (simp add: turn_ok_def demo_obs_def proxy_ok_def handles_settle buffers_grow_def)

lemma request_answered_witness:
  "\<exists>x. handle_proxy demo_env (\<lambda>_. None) any_http
     ((demo_req (Some (200, [(''content-length'', ''4''), (''accept-ranges'', ''bytes'')])))
        \<lparr>rq_turns := [demo_obs, demo_obs]\<rparr>) False ''http://h/u'' [] demo_app = Some x \<and> answer_ok x"
proof (rule request_answered)
  show "app_ok demo_app"
    by (simp add: app_ok_def demo_app_def idle_proxy_def proxy_ok_def handles_ok_def co_inv_new)
      (simp add: new_coalescer_def)
qed (simp_all add: turn_ok_demo demo_app_def demo_cfg_def)

subsection \<open>From a download to the next request\<close>

lemma is_fresh_headers:
  assumes "header_text ''cache-control'' h = header_text ''cache-control'' g"
    and "header_text ''expires'' h = header_text ''expires'' g"
  shows "is_fresh parse_date now at h age = is_fresh parse_date now at g age"
proof -
  have "expires_secs parse_date h = expires_secs parse_date g" using assms(2) by (simp add: expires_secs_def)
  then show ?thesis unfolding is_fresh_def assms(1) by (simp only:)
qed

lemma header_text_twice: "header_get k h = header_text k g \<Longrightarrow> header_text k h = header_text k g"
  by (auto simp: header_text_def to_str_def split: option.splits)

lemma lookup_disk [simp]: "c_disk (snd (lookup_entry env now url c)) = c_disk c"
  by (auto simp: lookup_entry_def Let_def split: option.splits)

lemma not_cooling_down: "\<not> is_in_cooldown now url (record_success url m)"
  by (simp add: is_in_cooldown_def record_success_def)

text \<open>The answer that \<open>serve_file\<close> makes of a file.\<close>

lemma serve_file_answer:
  assumes "am_get (resolve_path path) d = Some content"
  shows "\<exists>resp. serve_file path hs d = Inr resp \<and> rs_status resp = 200 \<and> rs_body resp = Body_file content
     \<and> (header_get ''content-length'' hs = None \<longrightarrow>
          header_get ''content-length'' (rs_headers resp) = Some (dec (length content)))
     \<and> (\<forall>k. k \<noteq> ''content-length'' \<longrightarrow> k \<noteq> ''accept-ranges'' \<longrightarrow>
          header_get k (rs_headers resp) = header_get k hs)"
  using assms by (auto simp: serve_file_def plain_response_def header_append_def header_get_append split: option.split)

text \<open>A finished download that passes its checks is in the cache afterwards.\<close>

lemma persisted_found:
  assumes env: "sound_env env" and ok: "cache_ok env (px_cache s)"
    and tmp: "temp_free env (c_dir (px_cache s)) (resolve_path (file_path (px_buffers s ! h)))"
    and there: "am_get (resolve_path (file_path (px_buffers s ! h))) (c_disk (px_cache s)) \<noteq> None"
    and obs: "po_faults obs = no_faults" "po_sync_ok obs" "is_xz_url url \<longrightarrow> po_xz_test obs (dl_file (px_buffers s ! h))"
    and fits: "total_size_of (insert_or_replace (new_row env (po_unix obs) url (dl_file (px_buffers s ! h)) hs)
       (c_rows (px_cache s))) \<le> c_max_size (px_cache s)"
  shows "\<exists>s' path hs'. persist_download env etag_changed_for obs url h hs (Some (Inr ())) s = Some s'
     \<and> px_failures s' = record_success url (px_failures s)
     \<and> fst (lookup_entry env later url (px_cache s')) = Some (path, hs', po_unix obs)
     \<and> am_get (resolve_path path) (c_disk (px_cache s')) = Some (dl_file (px_buffers s ! h))
     \<and> (\<forall>k. header_get k hs' = (if k \<in> set stored_header_names then header_text k hs else None))"
proof -
  let ?b = "px_buffers s ! h"
  let ?c = "(px_cache s)\<lparr>c_disk := am_insert (resolve_path (file_path ?b)) (dl_file ?b) (c_disk (px_cache s))\<rparr>"
  let ?s1 = "s\<lparr>px_failures := record_success url (px_failures s)\<rparr>"
  have flush: "px_cache (on_disk (flush_file ?b) ?s1) = ?c"
    using there by (auto simp: on_disk_def flush_file_def Let_def)
  have ok: "cache_ok env ?c" using cache_ok_temp [OF ok tmp] .
  have "\<exists>path c' hs'. store env no_faults (po_unix obs) url (file_path ?b) hs ?c = Some (Inr path, c')
      \<and> fst (lookup_entry env later url c') = Some (path, hs', po_unix obs)
      \<and> am_get (resolve_path path) (c_disk c') = Some (dl_file ?b)
      \<and> (\<forall>k. header_get k hs' = (if k \<in> set stored_header_names then header_text k hs else None))"
    by (rule stored_found [OF env ok]) (use tmp fits in simp_all)
  then obtain path c' hs' where st: "store env no_faults (po_unix obs) url (file_path ?b) hs ?c = Some (Inr path, c')"
      "fst (lookup_entry env later url c') = Some (path, hs', po_unix obs)"
      "am_get (resolve_path path) (c_disk c') = Some (dl_file ?b)"
      "\<forall>k. header_get k hs' = (if k \<in> set stored_header_names then header_text k hs else None)"
    by blast
  let ?s' = "(on_disk (flush_file ?b) ?s1)\<lparr>px_cache := c', px_coalescer := complete url (px_coalescer s)\<rparr>"
  have "persist_download env etag_changed_for obs url h hs (Some (Inr ())) s = Some ?s'"
    using st(1) flush obs by (auto simp: persist_download_def Let_def)
  then show ?thesis using st by (intro exI [of _ ?s'] exI [of _ path] exI [of _ hs']) simp
qed


definition demo_done :: proxy_state where
  "demo_done = idle_proxy\<lparr>px_cache := (new_cache ''/c'' 1000 None [])\<lparr>c_disk := am_insert [''c'', ''tmp'', ''x''] [0, 0] []\<rparr>,
     px_buffers := [new_buffer 2 [7, 8] ''/c/tmp/x'']\<rparr>"

definition demo_persist :: persist_obs where
  "demo_persist = \<lparr>po_instant = 5, po_unix = 90, po_faults = no_faults, po_sync_ok = True, po_xz_test = (\<lambda>_. True)\<rparr>"


subsection \<open>What the handlers do not do\<close>

text \<open>
  No FTP URL is ever fetched: the check of the upstream URL lets HTTP and HTTPS pass only, so
  the branch for FTP is not reached, and the request is an error that changes nothing.
\<close>

lemma ftp_requests_rejected:
  assumes "\<And>p. url_of (resolve_url url0 (ap_maps a)) = Some p \<Longrightarrow> pu_scheme p \<in> {''ftp'', ''ftps''}"
    and "handle_proxy_inner env parse_date url_of obs is_head url0 a = Some (r, a')"
  shows "(\<exists>e. r = Inl (Bad_request e) \<or> r = Inl Too_many_requests) \<and> ap_proxy a' = ap_proxy a \<and> ap_tasks a' = ap_tasks a"
proof -
  obtain e where "is_safe_upstream_url url_of (resolve_url url0 (ap_maps a)) = Inl e"
    using ftp_never_safe [of url_of "resolve_url url0 (ap_maps a)"] assms(1)
    by (cases "is_safe_upstream_url url_of (resolve_url url0 (ap_maps a))") auto
  then show ?thesis using assms(2)
    by (auto simp: handle_proxy_inner_def drop_permit_def Let_def split: prod.splits option.splits)
qed

text \<open>A temporary file that cannot be given its size stays on the disk, empty.\<close>

lemma allocation_failure_leaves_file:
  assumes "rq_create_ok obs" "\<not> rq_alloc_ok obs" "begin_download obs url sz hs ftp a = (r, a')"
  shows "\<not> is_ok r \<and> am_get (resolve_path (join_path (ap_temp_dir a) (rq_uuid obs @ ''.download'')))
     (c_disk (px_cache (ap_proxy a'))) = Some []"
  using assms by (auto simp: begin_download_def on_disk_def Let_def)

text \<open>A stored entry keeps \<open>accept-ranges\<close>, and serving it adds the header once more.\<close>

lemma accept_ranges_twice:
  assumes "serve_file path [(''accept-ranges'', ''bytes'')] d = Inr resp"
  shows "length (filter (\<lambda>(k, v). k = ''accept-ranges'') (rs_headers resp)) = 2"
  using assms by (auto simp: serve_file_def plain_response_def header_append_def split: option.splits)

text \<open>
  In plain mode a chunk for which there are no tokens is not delayed but lost: the client is
  sent an error in its place and, when it reads on, the chunks after it.
\<close>

lemma plain_chunk_lost:
  assumes "try_consume now (of_nat (length chunk)) bk = (False, bk1)"
  shows "fst (plain_chunks ((now, Inr chunk) # items) bk) = Inl () # fst (plain_chunks items bk1)"
  using assms by (simp split: prod.split)

end
