(* ===== verification/Proxy_System.thy ===== *)
theory Proxy_System
  imports Proxy_Properties Ranked_Steps
begin

text \<open>
  The proxy of \<open>src/src/proxy.rs\<close> with any number of requests at once. A request is a process that
  goes through the points at which \<open>resolve_with_coalescing\<close> and the code of a leader wait for
  something: the upstream's answer to a conditional HEAD, a lock, the channel of a follower, the
  HEAD of a leader. Between two such points it is one step; the steps of all requests, the ends of
  the downloads, the workers that fill the buffers, clients that go away and the sweep of the
  limiter come in any order. The theory Proxy\_Handler has the same handlers as seen by one
  request; the lemma \<open>turn_in_steps\<close> connects the two.

  A permit is released when its response is dropped, or when the future of the handler is dropped
  because the client has gone. \<open>ps_overflow\<close> is not in the code: it records that a URL was
  registered while the registry was full.
\<close>

datatype request_pc =
    Consulting nat
  | Registering nat
  | Awaiting nat nat
  | Leading
  | Answered "proxy_error + response"
  | Gone

record request_proc =
  rp_ip :: string
  rp_url :: string
  rp_permit :: ip_permit
  rp_pc :: request_pc

record proxy_system =
  ps_app :: app_state
  ps_requests :: "request_proc list"
  ps_overflow :: bool

definition start_system :: "app_state \<Rightarrow> proxy_system" where
  "start_system a = \<lparr>ps_app = a, ps_requests = [], ps_overflow = False\<rparr>"

subsection \<open>The steps of a request\<close>

definition set_pc :: "nat \<Rightarrow> request_pc \<Rightarrow> proxy_system \<Rightarrow> proxy_system" where
  "set_pc i pc s = s\<lparr>ps_requests := (ps_requests s)[i := (ps_requests s ! i)\<lparr>rp_pc := pc\<rparr>]\<rparr>"

definition set_app :: "app_state \<Rightarrow> proxy_system \<Rightarrow> proxy_system" where
  "set_app a s = s\<lparr>ps_app := a\<rparr>"

text \<open>
  A request that is past the checks of its URL asks for a permit and begins its first turn. A HEAD
  request and a URL that is refused give the permit back at once: that is an arrival and a
  departure.
\<close>

definition on_arrival :: "string \<Rightarrow> nat \<Rightarrow> u64 \<Rightarrow> string \<Rightarrow> proxy_system \<Rightarrow> proxy_system" where
  "on_arrival ip now clock url s =
     (let a = ps_app s in
      case acquire ip now clock (ap_limiter a) of
        (None, l) \<Rightarrow> set_app (a\<lparr>ap_limiter := l\<rparr>) s
      | (Some p, l) \<Rightarrow>
          s\<lparr>ps_app := a\<lparr>ap_limiter := l\<rparr>,
            ps_requests := ps_requests s @ [\<lparr>rp_ip = ip, rp_url = url, rp_permit = p, rp_pc = Consulting 0\<rparr>]\<rparr>)"

definition answer_request :: "nat \<Rightarrow> (proxy_error + response) \<times> app_state \<Rightarrow> proxy_system \<Rightarrow> proxy_system" where
  "answer_request i x s =
     (case with_permit (rp_permit (ps_requests s ! i)) x of (r, a) \<Rightarrow> set_pc i (Answered r) (set_app a s))"

text \<open>What the loop has found out becomes the answer, or the request goes on as a leader.\<close>

definition deliver :: "nat \<Rightarrow> proxy_error + coalesce_outcome \<Rightarrow> proxy_system \<Rightarrow> proxy_system" where
  "deliver i r s =
     (case r of
        Inl e \<Rightarrow> answer_request i (Inl e, ps_app s) s
      | Inr (Cached path hs) \<Rightarrow>
          answer_request i (serve_file path hs (c_disk (px_cache (ap_proxy (ps_app s)))), ps_app s) s
      | Inr (From_buffer h) \<Rightarrow>
          (case serve_from_buffer h (ap_proxy (ps_app s)) of
             Some resp \<Rightarrow> answer_request i (Inr resp, ps_app s) s | None \<Rightarrow> s)
      | Inr Become_leader \<Rightarrow> set_pc i Leading s)"

definition set_proxy :: "proxy_state \<Rightarrow> proxy_system \<Rightarrow> proxy_system" where
  "set_proxy p s = s\<lparr>ps_app := (ps_app s)\<lparr>ap_proxy := p\<rparr>\<rparr>"

definition on_consult ::
    "cache_env \<Rightarrow> (string \<Rightarrow> int option) \<Rightarrow> turn_obs \<Rightarrow> nat \<Rightarrow> nat \<Rightarrow> proxy_system \<Rightarrow> proxy_system" where
  "on_consult env parse_date obs i n s =
     (let a = ps_app s in
      case consult_cache env parse_date (ap_flight a) (rp_url (ps_requests s ! i)) obs (ap_proxy a) of
        (Some r, p) \<Rightarrow> deliver i r (set_proxy p s)
      | (None, p) \<Rightarrow> set_pc i (Registering n) (set_proxy p s))"

definition on_register :: "nat \<Rightarrow> nat \<Rightarrow> proxy_system \<Rightarrow> proxy_system" where
  "on_register i n s =
     (let p = ap_proxy (ps_app s);
          s1 = s\<lparr>ps_overflow := ps_overflow s \<or> MAX_INFLIGHT \<le> length (inflight (px_coalescer p))\<rparr>
      in case register (rp_url (ps_requests s ! i)) (px_coalescer p) of
           (Leader, c) \<Rightarrow> deliver i (Inr Become_leader) (set_proxy (p\<lparr>px_coalescer := c\<rparr>) s1)
         | (Follower_buffer b, c) \<Rightarrow> deliver i (Inr (From_buffer b)) (set_proxy (p\<lparr>px_coalescer := c\<rparr>) s1)
         | (Follower rx, c) \<Rightarrow> set_pc i (Awaiting rx n) (set_proxy (p\<lparr>px_coalescer := c\<rparr>) s1))"

text \<open>The end of a follower's wait; while the channel is open that is the timeout.\<close>

definition on_wake :: "nat \<Rightarrow> nat \<Rightarrow> nat \<Rightarrow> proxy_system \<Rightarrow> proxy_system" where
  "on_wake i rx n s =
     (let a = ps_app s; co = px_coalescer (ap_proxy a); url = rp_url (ps_requests s ! i) in
      case channels co rx of
        Sent b \<Rightarrow> deliver i (Inr (From_buffer b)) s
      | Open \<Rightarrow> deliver i (Inl (Internal (''timed out waiting for in-flight download of '' @ url))) s
      | Dropped \<Rightarrow>
          let etag_changed = etag_failed_for url co;
              budget = (if etag_changed then fc_etag_max_retries (ap_flight a) else fc_max_retries (ap_flight a))
          in if n + 1 > budget then
               deliver i (Inl (if etag_changed
                 then Service_unavailable (''upstream file kept changing for '' @ url @ '', retry later'')
                 else Internal (''leader failed '' @ dec (n + 1) @ '' times for '' @ url @ '', giving up''))) s
             else set_pc i (Consulting (n + 1)) s)"

definition lead_for :: "request_obs \<Rightarrow> string \<Rightarrow> app_state \<Rightarrow> (proxy_error + response) \<times> app_state" where
  "lead_for obs url =
     (if starts_with url ''ftp://'' \<or> starts_with url ''ftps://'' then lead_ftp_download obs url else lead_download obs url)"

definition on_lead :: "request_obs \<Rightarrow> nat \<Rightarrow> proxy_system \<Rightarrow> proxy_system" where
  "on_lead obs i s = answer_request i (lead_for obs (rp_url (ps_requests s ! i)) (ps_app s)) s"

text \<open>The response is dropped, or the client goes away before there is one.\<close>

definition on_drop :: "nat \<Rightarrow> proxy_system \<Rightarrow> proxy_system" where
  "on_drop i s = set_pc i Gone (set_app (drop_permit (rp_permit (ps_requests s ! i)) (ps_app s)) s)"

subsection \<open>The steps of the other tasks\<close>

text \<open>What a download task ends with: the error of either downloader.\<close>

definition task_etag_changed :: "(download_error + ftp_failure) \<Rightarrow> bool" where
  "task_etag_changed e = (case e of Inl h \<Rightarrow> http_etag_changed h | Inr _ \<Rightarrow> False)"

definition on_task_end ::
    "cache_env \<Rightarrow> persist_obs \<Rightarrow> nat \<Rightarrow> ((download_error + ftp_failure) + unit) option \<Rightarrow> proxy_system \<Rightarrow> proxy_system option" where
  "on_task_end env obs j ended s =
     (let a = ps_app s; tk = ap_tasks a ! j in
      map_option (\<lambda>p. set_app (a\<lparr>ap_proxy := p, ap_tasks := drop_nth j (ap_tasks a)\<rparr>) s)
        (persist_download env task_etag_changed obs (tk_url tk) (tk_buffer tk) (tk_headers tk) ended (ap_proxy a)))"

text \<open>A worker changes a buffer, but not the status and headers that were set when it was made.\<close>

definition on_fill :: "nat \<Rightarrow> segments_buffer \<Rightarrow> proxy_system \<Rightarrow> proxy_system" where
  "on_fill h b s = set_proxy ((ap_proxy (ps_app s))\<lparr>px_buffers := (px_buffers (ap_proxy (ps_app s)))[h := b]\<rparr>) s"

definition on_sweep :: "nat \<Rightarrow> proxy_system \<Rightarrow> proxy_system" where
  "on_sweep now s = set_app ((ps_app s)\<lparr>ap_limiter := sweep_stale_entries_at now (ap_limiter (ps_app s))\<rparr>) s"

text \<open>
  blitzctl on the directory of a running proxy: another process with its own connection to the same
  database, so the poisoned lock of the proxy does not stop it. Its commands only remove.
\<close>

definition on_tool :: "(disk_cache \<Rightarrow> disk_cache) \<Rightarrow> proxy_system \<Rightarrow> proxy_system" where
  "on_tool f s =
     (let p = ap_proxy (ps_app s); c = px_cache p
      in set_proxy (p\<lparr>px_cache := (f (c\<lparr>c_poisoned := False\<rparr>))\<lparr>c_poisoned := c_poisoned c\<rparr>\<rparr>) s)"

subsection \<open>All interleavings\<close>

definition pc_of :: "nat \<Rightarrow> proxy_system \<Rightarrow> request_pc option" where
  "pc_of i s = (if i < length (ps_requests s) then Some (rp_pc (ps_requests s ! i)) else None)"

text \<open>A step of request \<open>i\<close>.\<close>

inductive request_step ::
    "cache_env \<Rightarrow> (string \<Rightarrow> int option) \<Rightarrow> nat \<Rightarrow> proxy_system \<Rightarrow> proxy_system \<Rightarrow> bool"
  for env :: cache_env and parse_date :: "string \<Rightarrow> int option" and i :: nat where
  rq_consult: "pc_of i s = Some (Consulting n) \<Longrightarrow> request_step env parse_date i s (on_consult env parse_date obs i n s)"
| rq_register: "pc_of i s = Some (Registering n) \<Longrightarrow> request_step env parse_date i s (on_register i n s)"
| rq_wake: "pc_of i s = Some (Awaiting rx n) \<Longrightarrow> request_step env parse_date i s (on_wake i rx n s)"
| rq_lead: "pc_of i s = Some Leading \<Longrightarrow> request_step env parse_date i s (on_lead obs i s)"

inductive other_step :: "cache_env \<Rightarrow> proxy_system \<Rightarrow> proxy_system \<Rightarrow> bool" for env :: cache_env where
  ot_arrival: "other_step env s (on_arrival ip now clock url s)"
| ot_finish: "pc_of i s = Some (Answered (Inr resp)) \<Longrightarrow> other_step env s (on_drop i s)"
| ot_cancel: "pc_of i s = Some pc \<Longrightarrow> (\<forall>r. pc \<noteq> Answered r) \<Longrightarrow> pc \<noteq> Gone \<Longrightarrow> other_step env s (on_drop i s)"
| ot_task_end: "j < length (ap_tasks (ps_app s)) \<Longrightarrow> on_task_end env obs j ended s = Some s' \<Longrightarrow> other_step env s s'"
| ot_fill: "meta b = meta (px_buffers (ap_proxy (ps_app s)) ! h) \<Longrightarrow> other_step env s (on_fill h b s)"
| ot_sweep: "other_step env s (on_sweep now s)"
| ot_tool_rm: "other_step env s (on_tool (\<lambda>c. snd (delete_by_urls env flt urls c)) s)"
| ot_tool_clear: "other_step env s (on_tool (\<lambda>c. snd (clear_all flt c)) s)"

inductive system_reach :: "cache_env \<Rightarrow> (string \<Rightarrow> int option) \<Rightarrow> app_state \<Rightarrow> proxy_system \<Rightarrow> bool"
  for env :: cache_env and parse_date :: "string \<Rightarrow> int option" and a0 :: app_state where
  sys_start: "system_reach env parse_date a0 (start_system a0)"
| sys_request: "system_reach env parse_date a0 s \<Longrightarrow> request_step env parse_date i s s' \<Longrightarrow> system_reach env parse_date a0 s'"
| sys_other: "system_reach env parse_date a0 s \<Longrightarrow> other_step env s s' \<Longrightarrow> system_reach env parse_date a0 s'"

inductive_cases request_stepE: "request_step env parse_date i s s'"

subsection \<open>What every reachable state satisfies\<close>

text \<open>A request has its permit until its response or its future is dropped; an error gives it back at once.\<close>

definition holds_permit :: "request_proc \<Rightarrow> bool" where
  "holds_permit rq \<longleftrightarrow> (case rp_pc rq of Gone \<Rightarrow> False | Answered (Inl _) \<Rightarrow> False | _ \<Rightarrow> True)"

definition permits_out :: "proxy_system \<Rightarrow> nat" where
  "permits_out s = length (filter holds_permit (ps_requests s))"

definition leaders :: "string \<Rightarrow> proxy_system \<Rightarrow> nat" where
  "leaders u s = length (filter (\<lambda>rq. rp_pc rq = Leading \<and> rp_url rq = u) (ps_requests s))"

definition fetching :: "string \<Rightarrow> proxy_system \<Rightarrow> nat list" where
  "fetching u s = map tk_buffer (filter (\<lambda>tk. tk_url tk = u) (ap_tasks (ps_app s)))"

definition entry_of :: "string \<Rightarrow> proxy_system \<Rightarrow> nat inflight option" where
  "entry_of u s = am_get u (inflight (px_coalescer (ap_proxy (ps_app s))))"

text \<open>
  A URL that nobody registered has no leader and no download; while it is pending it has at most
  one leader and no download; and while it is held under a buffer it has no leader and exactly
  the download that fills this buffer.
\<close>

definition one_flight :: "string \<Rightarrow> proxy_system \<Rightarrow> bool" where
  "one_flight u s \<longleftrightarrow>
     (case entry_of u s of
        None \<Rightarrow> leaders u s = 0 \<and> fetching u s = []
      | Some (Pending txs) \<Rightarrow> leaders u s \<le> 1 \<and> fetching u s = []
      | Some (In_download b) \<Rightarrow> leaders u s = 0 \<and> fetching u s = [b])"

definition answers_served :: "proxy_system \<Rightarrow> bool" where
  "answers_served s \<longleftrightarrow>
     (\<forall>rq \<in> set (ps_requests s). \<forall>resp h. rp_pc rq = Answered (Inr resp) \<longrightarrow> rs_body resp = Body_buffer h \<longrightarrow>
        served h (px_buffers (ap_proxy (ps_app s))))"

definition system_ok :: "nat \<Rightarrow> proxy_system \<Rightarrow> bool" where
  "system_ok cap s \<longleftrightarrow> app_ok (ps_app s) \<and> answers_served s
     \<and> global_free (ap_limiter (ps_app s)) + permits_out s = cap
     \<and> (\<not> ps_overflow s \<longrightarrow> (\<forall>u. one_flight u s))"

lemma set_pc_views [simp]:
  "ps_app (set_pc i pc s) = ps_app s" "ps_overflow (set_pc i pc s) = ps_overflow s"
  "entry_of u (set_pc i pc s) = entry_of u s" "fetching u (set_pc i pc s) = fetching u s"
  "length (ps_requests (set_pc i pc s)) = length (ps_requests s)"
  by (simp_all add: set_pc_def entry_of_def fetching_def)

lemma set_app_views [simp]:
  "ps_app (set_app a s) = a" "ps_requests (set_app a s) = ps_requests s" "ps_overflow (set_app a s) = ps_overflow s"
  "leaders u (set_app a s) = leaders u s" "permits_out (set_app a s) = permits_out s"
  by (simp_all add: set_app_def leaders_def permits_out_def)

lemma set_proxy_alt: "set_proxy p s = set_app ((ps_app s)\<lparr>ap_proxy := p\<rparr>) s"
  by (simp add: set_proxy_def set_app_def)

lemma leaders_set_pc:
  assumes "i < length (ps_requests s)"
  shows "leaders u (set_pc i pc s) + (if rp_pc (ps_requests s ! i) = Leading \<and> rp_url (ps_requests s ! i) = u then 1 else 0)
     = leaders u s + (if pc = Leading \<and> rp_url (ps_requests s ! i) = u then 1 else 0)"
  using filter_update [OF assms, of "\<lambda>rq. rp_pc rq = Leading \<and> rp_url rq = u" "(ps_requests s ! i)\<lparr>rp_pc := pc\<rparr>"]
  by (simp add: leaders_def set_pc_def)

lemma permits_set_pc:
  assumes "i < length (ps_requests s)"
  shows "permits_out (set_pc i pc s) + (if holds_permit (ps_requests s ! i) then 1 else 0)
     = permits_out s + (if holds_permit ((ps_requests s ! i)\<lparr>rp_pc := pc\<rparr>) then 1 else 0)"
  using filter_update [OF assms, of holds_permit "(ps_requests s ! i)\<lparr>rp_pc := pc\<rparr>"]
  by (simp add: permits_out_def set_pc_def)

lemma leader_counted:
  assumes "i < length (ps_requests s)" "rp_pc (ps_requests s ! i) = Leading"
  shows "0 < leaders (rp_url (ps_requests s ! i)) s"
proof -
  have "ps_requests s ! i \<in> set (filter (\<lambda>rq. rp_pc rq = Leading \<and> rp_url rq = rp_url (ps_requests s ! i)) (ps_requests s))"
    using assms by simp
  then show ?thesis unfolding leaders_def by (rule length_pos_if_in_set)
qed

subsection \<open>The steps keep it\<close>

lemma one_flight_cong:
  "entry_of u s' = entry_of u s \<Longrightarrow> leaders u s' = leaders u s \<Longrightarrow> fetching u s' = fetching u s \<Longrightarrow>
     one_flight u s' = one_flight u s"
  by (simp add: one_flight_def split: option.split inflight.split)

lemma one_flight_overflow [simp]: "one_flight u (s\<lparr>ps_overflow := x\<rparr>) = one_flight u s"
  by (intro one_flight_cong) (simp_all add: entry_of_def leaders_def fetching_def)

lemma move_ok:
  assumes "system_ok cap s" "i < length (ps_requests s)" "holds_permit (ps_requests s ! i)" "app_ok a"
    and "\<And>h. served h (px_buffers (ap_proxy (ps_app s))) \<Longrightarrow> served h (px_buffers (ap_proxy a))"
    and "\<And>resp h. pc = Answered (Inr resp) \<Longrightarrow> rs_body resp = Body_buffer h \<Longrightarrow> served h (px_buffers (ap_proxy a))"
    and "global_free (ap_limiter a) = global_free (ap_limiter (ps_app s))
           + (if holds_permit ((ps_requests s ! i)\<lparr>rp_pc := pc\<rparr>) then 0 else 1)"
    and "\<And>u. \<not> ps_overflow s \<Longrightarrow> one_flight u (set_pc i pc (set_app a s))"
  shows "system_ok cap (set_pc i pc (set_app a s))"
proof -
  have "answers_served (set_pc i pc (set_app a s))"
    unfolding answers_served_def
  proof (intro ballI allI impI)
    fix rq resp h assume "rq \<in> set (ps_requests (set_pc i pc (set_app a s)))"
      and rq: "rp_pc rq = Answered (Inr resp)" "rs_body resp = Body_buffer h"
    then consider "rq = (ps_requests s ! i)\<lparr>rp_pc := pc\<rparr>" | "rq \<in> set (ps_requests s)"
      by (auto simp: set_pc_def dest: set_update_subset_insert [THEN subsetD])
    then show "served h (px_buffers (ap_proxy (ps_app (set_pc i pc (set_app a s)))))"
    proof cases
      case 1
      then show ?thesis using rq assms(6) by simp
    next
      case 2
      then show ?thesis using rq assms(1,5) unfolding system_ok_def answers_served_def by simp
    qed
  qed
  moreover have "global_free (ap_limiter a) + permits_out (set_pc i pc (set_app a s)) = cap"
    using permits_set_pc [of i "set_app a s" pc] assms(1,2,3,7) by (simp add: system_ok_def split: if_splits)
  ultimately show ?thesis using assms(4,8) by (simp add: system_ok_def)
qed

text \<open>A request that is no leader and does not become one, and leaves flights and tasks alone.\<close>

lemma flights_same:
  assumes "one_flight u s" "i < length (ps_requests s)" "rp_pc (ps_requests s ! i) \<noteq> Leading" "pc \<noteq> Leading"
    and "inflight (px_coalescer (ap_proxy a)) = inflight (px_coalescer (ap_proxy (ps_app s)))"
    and "ap_tasks a = ap_tasks (ps_app s)"
  shows "one_flight u (set_pc i pc (set_app a s))"
  using assms(1) leaders_set_pc [of i "set_app a s" u pc] assms(2-6)
  by (simp add: one_flight_def entry_of_def fetching_def split: option.splits inflight.splits)

lemma answer_keeps:
  assumes "system_ok cap s" "i < length (ps_requests s)" "holds_permit (ps_requests s ! i)" "answer_ok (r, a)"
    and "\<And>h. served h (px_buffers (ap_proxy (ps_app s))) \<Longrightarrow> served h (px_buffers (ap_proxy a))"
    and "ap_limiter a = ap_limiter (ps_app s)"
    and "\<And>u b pc. \<not> ps_overflow s \<Longrightarrow> pc \<noteq> Leading \<Longrightarrow> ap_proxy b = ap_proxy a \<Longrightarrow> ap_tasks b = ap_tasks a \<Longrightarrow>
           one_flight u (set_pc i pc (set_app b s))"
  shows "system_ok cap (answer_request i (r, a) s)"
proof (cases r)
  case (Inl e)
  let ?b = "drop_permit (rp_permit (ps_requests s ! i)) a"
  have "system_ok cap (set_pc i (Answered (Inl e)) (set_app ?b s))"
    using assms(4,5,6,7) Inl
    by (intro move_ok [OF assms(1-3)])
      (auto simp: drop_permit_def answer_ok_def app_ok_def holds_permit_def release_global)
  then show ?thesis using Inl by (simp add: answer_request_def with_permit_def)
next
  case (Inr resp)
  have "system_ok cap (set_pc i (Answered (Inr (wrap_response_with_permit resp (rp_permit (ps_requests s ! i))))) (set_app a s))"
    using assms(4,5,6,7) Inr
    by (intro move_ok [OF assms(1-3)])
      (auto simp: answer_ok_def holds_permit_def wrap_response_with_permit_def)
  then show ?thesis using Inr by (simp add: answer_request_def with_permit_def)
qed

lemma answer_same_state:
  assumes "system_ok cap s" "i < length (ps_requests s)" "holds_permit (ps_requests s ! i)"
    "rp_pc (ps_requests s ! i) \<noteq> Leading" "answer_ok (r, ps_app s)"
  shows "system_ok cap (answer_request i (r, ps_app s) s)"
  using assms flights_same [of _ s i]
  by (intro answer_keeps) (auto simp: system_ok_def)

lemma deliver_ok:
  assumes "system_ok cap s" "i < length (ps_requests s)" "holds_permit (ps_requests s ! i)"
    "rp_pc (ps_requests s ! i) \<noteq> Leading" "r \<noteq> Inr Become_leader" "outcome_ok r (ap_proxy (ps_app s))"
  shows "system_ok cap (deliver i r s)"
proof -
  have ok: "app_ok (ps_app s)" using assms(1) by (simp add: system_ok_def)
  note answer = answer_same_state [OF assms(1-4)]
  show ?thesis
  proof (cases r)
    case (Inl e)
    then show ?thesis using answer ok by (simp add: deliver_def answer_ok_def)
  next
    case (Inr x)
    show ?thesis
    proof (cases x)
      case (Cached path hs)
      then show ?thesis using answer [of "serve_file path hs (c_disk (px_cache (ap_proxy (ps_app s))))"] ok Inr
        by (auto simp: deliver_def answer_ok_def serve_file_def plain_response_def split: option.splits)
    next
      case (From_buffer h)
      then show ?thesis using answer ok Inr assms(1,6)
        by (auto simp: deliver_def answer_ok_def outcome_ok_def serve_from_buffer_def plain_response_def
            split: option.splits)
    next
      case Become_leader
      then show ?thesis using assms(5) Inr by simp
    qed
  qed
qed

lemma proxy_move_ok:
  assumes "system_ok cap s" "i < length (ps_requests s)" "holds_permit (ps_requests s ! i)"
    "rp_pc (ps_requests s ! i) \<noteq> Leading" "proxy_ok p" "px_buffers p = px_buffers (ap_proxy (ps_app s))"
    "inflight (px_coalescer p) = inflight (px_coalescer (ap_proxy (ps_app s)))"
  shows "system_ok cap (set_proxy p s)"
proof -
  have "one_flight u (set_proxy p s) = one_flight u s" for u
    using assms(7) by (intro one_flight_cong) (simp_all add: entry_of_def fetching_def set_proxy_alt)
  then show ?thesis using assms(1,5,6) by (auto simp: system_ok_def set_proxy_alt app_ok_def answers_served_def)
qed

lemma consult_ok:
  assumes "system_ok cap s" "pc_of i s = Some (Consulting n)"
  shows "system_ok cap (on_consult env parse_date obs i n s)"
proof -
  have i: "i < length (ps_requests s)" "rp_pc (ps_requests s ! i) = Consulting n"
    using assms(2) by (auto simp: pc_of_def split: if_splits)
  obtain x p where c: "consult_cache env parse_date (ap_flight (ps_app s)) (rp_url (ps_requests s ! i)) obs
      (ap_proxy (ps_app s)) = (x, p)" by fastforce
  have p: "px_coalescer p = px_coalescer (ap_proxy (ps_app s))" "px_buffers p = px_buffers (ap_proxy (ps_app s))"
    and buf: "x \<noteq> Some (Inr (From_buffer h))" for h
    using consult_frames [OF c] by blast+
  have "proxy_ok p" using assms(1) p by (simp add: system_ok_def app_ok_def proxy_ok_def)
  then have ok: "system_ok cap (set_proxy p s)"
    using proxy_move_ok [OF assms(1) i(1)] i(2) p by (simp add: holds_permit_def)
  have i': "i < length (ps_requests (set_proxy p s))" "rp_pc (ps_requests (set_proxy p s) ! i) = Consulting n"
    "holds_permit (ps_requests (set_proxy p s) ! i)"
    using i by (simp_all add: set_proxy_alt holds_permit_def)
  show ?thesis
  proof (cases x)
    case None
    have "system_ok cap (set_pc i (Registering n) (set_app (ps_app (set_proxy p s)) (set_proxy p s)))"
      using ok i' flights_same [of _ "set_proxy p s" i]
      by (intro move_ok) (auto simp: system_ok_def holds_permit_def)
    then show ?thesis using None c by (simp add: on_consult_def Let_def set_app_def)
  next
    case (Some r)
    have "r \<noteq> Inr Become_leader"
      using c Some by (auto simp: consult_cache_def Let_def split: if_splits option.splits prod.splits revalidate.splits)
    moreover have "outcome_ok r (ap_proxy (ps_app (set_proxy p s)))" using buf Some by (auto simp: outcome_ok_def)
    ultimately show ?thesis using deliver_ok [OF ok i'(1,3)] i'(2) c Some by (simp add: on_consult_def Let_def)
  qed
qed

text \<open>Registering: the only step that makes a leader.\<close>

lemma register_cases:
  assumes "register u c = (r, c')" "length (inflight c) < MAX_INFLIGHT"
  shows "(case r of
        Leader \<Rightarrow> am_get u (inflight c) = None \<and> am_get u (inflight c') = Some (Pending [])
      | Follower rx \<Rightarrow> (\<exists>txs. am_get u (inflight c) = Some (Pending txs) \<and> am_get u (inflight c') = Some (Pending (txs @ [rx])))
      | Follower_buffer b \<Rightarrow> c' = c)
     \<and> (\<forall>v. v \<noteq> u \<longrightarrow> am_get v (inflight c') = am_get v (inflight c))"
  using assms by (auto simp: register_def Let_def split: option.splits inflight.splits)

lemma register_flight:
  assumes "register (rp_url (ps_requests s ! i)) (px_coalescer (ap_proxy (ps_app s))) = (r, c)"
    and "length (inflight (px_coalescer (ap_proxy (ps_app s)))) < MAX_INFLIGHT"
    and "i < length (ps_requests s)" "rp_pc (ps_requests s ! i) = Registering n" "one_flight u s"
    and "pc = Leading \<longleftrightarrow> r = Leader"
  shows "one_flight u (set_pc i pc (set_app ((ps_app s)\<lparr>ap_proxy := (ap_proxy (ps_app s))\<lparr>px_coalescer := c\<rparr>\<rparr>) s))"
proof -
  let ?u = "rp_url (ps_requests s ! i)"
  let ?a = "(ps_app s)\<lparr>ap_proxy := (ap_proxy (ps_app s))\<lparr>px_coalescer := c\<rparr>\<rparr>"
  note c = register_cases [OF assms(1,2)]
  define s' where "s' = set_pc i pc (set_app ?a s)"
  have views: "leaders u s' = leaders u s + (if r = Leader \<and> ?u = u then 1 else 0)"
    "entry_of u s' = am_get u (inflight c)" "fetching u s' = fetching u s"
    using leaders_set_pc [of i "set_app ?a s" u pc] assms(3,4,6)
    by (simp_all add: s'_def entry_of_def fetching_def)
  have "one_flight u s'"
  proof (cases "u = ?u")
    case True
    then show ?thesis using assms(5) c views
      by (cases r) (auto simp: one_flight_def entry_of_def split: option.splits inflight.splits)
  next
    case False
    then show ?thesis using assms(5) c views
      by (auto simp: one_flight_def entry_of_def split: option.splits inflight.splits)
  qed
  then show ?thesis by (simp add: s'_def)
qed

lemma flight_ignores_overflow:
  "one_flight u (set_pc i pc (set_app a (s\<lparr>ps_overflow := x\<rparr>))) = one_flight u (set_pc i pc (set_app a s))"
  by (rule one_flight_cong) (simp_all add: leaders_def entry_of_def fetching_def set_pc_def set_app_def)

lemma register_ok:
  assumes "system_ok cap s" "pc_of i s = Some (Registering n)"
  shows "system_ok cap (on_register i n s)"
proof -
  have i: "i < length (ps_requests s)" "rp_pc (ps_requests s ! i) = Registering n"
    using assms(2) by (auto simp: pc_of_def split: if_splits)
  let ?u = "rp_url (ps_requests s ! i)" and ?p = "ap_proxy (ps_app s)"
  let ?co = "px_coalescer ?p"
  let ?s1 = "s\<lparr>ps_overflow := ps_overflow s \<or> MAX_INFLIGHT \<le> length (inflight ?co)\<rparr>"
  obtain r c where reg: "register ?u ?co = (r, c)" by fastforce
  let ?q = "?p\<lparr>px_coalescer := c\<rparr>"
  have app: "app_ok (ps_app s)" using assms(1) by (simp add: system_ok_def)
  then have "handles_ok (px_buffers ?p) c"
    using handles_register [of "px_buffers ?p" ?co ?u] reg by (simp add: app_ok_def proxy_ok_def)
  then have app': "app_ok ((ps_app s)\<lparr>ap_proxy := ?q\<rparr>)" using app by (simp add: app_ok_def proxy_ok_def)
  have s1: "system_ok cap ?s1" using assms(1) by (auto simp: system_ok_def answers_served_def permits_out_def)
  have flights: "one_flight u (set_pc i pc (set_app ((ps_app s)\<lparr>ap_proxy := ?q\<rparr>) ?s1))"
    if "\<not> ps_overflow ?s1" "pc = Leading \<longleftrightarrow> r = Leader" for u pc
    using register_flight [of s i r c n u pc] that reg i assms(1)
    by (simp add: system_ok_def flight_ignores_overflow)
  have i1: "i < length (ps_requests ?s1)" "holds_permit (ps_requests ?s1 ! i)"
    using i by (simp_all add: holds_permit_def)
  have moved: "system_ok cap (set_pc i pc (set_app ((ps_app s)\<lparr>ap_proxy := ?q\<rparr>) ?s1))"
    if "pc = (case r of Leader \<Rightarrow> Leading | Follower rx \<Rightarrow> Awaiting rx n | Follower_buffer b \<Rightarrow> Registering n)" for pc
    by (rule move_ok [OF s1 i1 app']) (use that flights in \<open>auto simp: holds_permit_def split: register_result.splits\<close>)
  have set: "set_proxy ?q ?s1 = set_app ((ps_app s)\<lparr>ap_proxy := ?q\<rparr>) ?s1" by (simp add: set_proxy_alt)
  show ?thesis
  proof (cases r)
    case Leader
    then show ?thesis using moved [of Leading] reg set by (simp add: on_register_def deliver_def Let_def)
  next
    case (Follower rx)
    then show ?thesis using moved [of "Awaiting rx n"] reg set by (simp add: on_register_def Let_def)
  next
    case (Follower_buffer b)
    have "set_pc i (Registering n) (set_app ((ps_app s)\<lparr>ap_proxy := ?q\<rparr>) ?s1) = set_app ((ps_app s)\<lparr>ap_proxy := ?q\<rparr>) ?s1"
      using i by (simp add: set_pc_def set_app_def list_update_same_conv)
    then have ok: "system_ok cap (set_proxy ?q ?s1)" using moved [of "Registering n"] Follower_buffer set by simp
    have "served b (px_buffers ?p)"
      using handles_follow [of "px_buffers ?p" ?co ?u b] reg Follower_buffer app by (simp add: app_ok_def proxy_ok_def)
    then have "system_ok cap (deliver i (Inr (From_buffer b)) (set_proxy ?q ?s1))"
      using i1 i(2) by (intro deliver_ok [OF ok]) (auto simp: set outcome_ok_def)
    then show ?thesis using reg Follower_buffer by (simp add: on_register_def Let_def)
  qed
qed

lemma wake_ok:
  assumes "system_ok cap s" "pc_of i s = Some (Awaiting rx n)"
  shows "system_ok cap (on_wake i rx n s)"
proof -
  have i: "i < length (ps_requests s)" "rp_pc (ps_requests s ! i) = Awaiting rx n" "holds_permit (ps_requests s ! i)"
    using assms(2) by (auto simp: pc_of_def holds_permit_def split: if_splits)
  have sent: "served b (px_buffers (ap_proxy (ps_app s)))" if "channels (px_coalescer (ap_proxy (ps_app s))) rx = Sent b" for b
    using assms(1) that by (auto simp: system_ok_def app_ok_def proxy_ok_def handles_ok_def)
  have d: "system_ok cap (deliver i r s)" if "\<exists>e. r = Inl e \<or> (\<exists>b. r = Inr (From_buffer b) \<and> served b (px_buffers (ap_proxy (ps_app s))))" for r
    using that i by (intro deliver_ok [OF assms(1)]) (auto simp: outcome_ok_def)
  have "system_ok cap (set_pc i (Consulting (n + 1)) (set_app (ps_app s) s))"
    using assms(1) i flights_same [of _ s i] by (intro move_ok) (auto simp: system_ok_def holds_permit_def)
  moreover have "set_app (ps_app s) s = s" by (simp add: set_app_def)
  ultimately show ?thesis using d sent by (simp add: on_wake_def Let_def split: channel.split)
qed

text \<open>Leading: what a leader changes besides its own flight.\<close>

lemma begin_frames:
  assumes "begin_download obs url sz hs ftp a = (r, a')"
  shows "\<forall>v. v \<noteq> url \<longrightarrow> am_get v (inflight (px_coalescer (ap_proxy a'))) = am_get v (inflight (px_coalescer (ap_proxy a)))"
    and "ap_tasks a' = ap_tasks a \<or> (\<exists>tk. tk_url tk = url \<and> ap_tasks a' = ap_tasks a @ [tk])"
    and "\<exists>added. px_buffers (ap_proxy a') = px_buffers (ap_proxy a) @ added"
    and "ap_limiter a' = ap_limiter a" and "ap_flight a' = ap_flight a"
  using assms
  by (auto simp: begin_download_def Let_def on_disk_def attach_buffer_def split: if_splits option.splits inflight.splits)

lemma lead_frames:
  assumes "lead_for obs url a = (r, a')"
  shows "\<forall>v. v \<noteq> url \<longrightarrow> am_get v (inflight (px_coalescer (ap_proxy a'))) = am_get v (inflight (px_coalescer (ap_proxy a)))"
    and "ap_tasks a' = ap_tasks a \<or> (\<exists>tk. tk_url tk = url \<and> ap_tasks a' = ap_tasks a @ [tk])"
    and "\<exists>added. px_buffers (ap_proxy a') = px_buffers (ap_proxy a) @ added"
    and "ap_limiter a' = ap_limiter a" and "ap_flight a' = ap_flight a"
proof -
  consider "a' = a" | "a' = settle url a" | sz hs ftp where "begin_download obs url sz hs ftp a = (r, a')"
    using assms
    by (auto simp: lead_for_def lead_download_def lead_ftp_download_def Let_def
        split: if_splits option.splits sum.splits prod.splits)
  then have "(\<forall>v. v \<noteq> url \<longrightarrow> am_get v (inflight (px_coalescer (ap_proxy a'))) = am_get v (inflight (px_coalescer (ap_proxy a))))
      \<and> (ap_tasks a' = ap_tasks a \<or> (\<exists>tk. tk_url tk = url \<and> ap_tasks a' = ap_tasks a @ [tk]))
      \<and> (\<exists>added. px_buffers (ap_proxy a') = px_buffers (ap_proxy a) @ added)
      \<and> ap_limiter a' = ap_limiter a \<and> ap_flight a' = ap_flight a"
  proof cases
    case 2
    then show ?thesis by (simp add: settle_def complete_def take_entry_def)
  next
    case 3
    then show ?thesis using begin_frames [OF 3] by blast
  qed simp
  then show "\<forall>v. v \<noteq> url \<longrightarrow> am_get v (inflight (px_coalescer (ap_proxy a'))) = am_get v (inflight (px_coalescer (ap_proxy a)))"
    "ap_tasks a' = ap_tasks a \<or> (\<exists>tk. tk_url tk = url \<and> ap_tasks a' = ap_tasks a @ [tk])"
    "\<exists>added. px_buffers (ap_proxy a') = px_buffers (ap_proxy a) @ added"
    "ap_limiter a' = ap_limiter a" "ap_flight a' = ap_flight a"
    by blast+
qed

lemma lead_flight:
  assumes "am_get url (inflight (px_coalescer (ap_proxy a))) = Some (Pending txs)"
  obtains may where "flight_after url txs may a (lead_for obs url a)"
proof (cases "starts_with url ''ftp://'' \<or> starts_with url ''ftps://''")
  case True
  then show thesis using that ftp_leader_flight [OF assms, of obs] by (simp add: lead_for_def)
next
  case False
  then show thesis using that http_leader_flight [OF assms, of obs] by (simp add: lead_for_def)
qed

lemma lead_ok:
  assumes "system_ok cap s" "pc_of i s = Some Leading"
  shows "system_ok cap (on_lead obs i s)"
proof -
  have i: "i < length (ps_requests s)" "rp_pc (ps_requests s ! i) = Leading" "holds_permit (ps_requests s ! i)"
    using assms(2) by (auto simp: pc_of_def holds_permit_def split: if_splits)
  let ?u = "rp_url (ps_requests s ! i)" and ?a = "ps_app s"
  obtain r a where l: "lead_for obs ?u ?a = (r, a)" by fastforce
  note frames = lead_frames [OF l]
  have app: "app_ok ?a" using assms(1) by (simp add: system_ok_def)
  have ans: "answer_ok (r, a)" using answer_lead [OF app, of obs ?u] l by (simp add: lead_for_def split: if_splits)
  have "served h (px_buffers (ap_proxy a))" if "served h (px_buffers (ap_proxy ?a))" for h
    using frames(3) that by (auto simp: served_def nth_append)
  moreover have "one_flight u (set_pc i pc (set_app b s))"
    if no: "\<not> ps_overflow s" and pc: "pc \<noteq> Leading" and b: "ap_proxy b = ap_proxy a" "ap_tasks b = ap_tasks a" for u b pc
  proof -
    define s' where "s' = set_pc i pc (set_app b s)"
    have f: "one_flight v s" for v using assms(1) no by (simp add: system_ok_def)
    have lead: "leaders v s' + (if ?u = v then 1 else 0) = leaders v s" for v
      using leaders_set_pc [of i "set_app b s" v pc] i pc by (simp add: s'_def)
    have entry: "entry_of v s' = am_get v (inflight (px_coalescer (ap_proxy a)))" for v
      using b by (simp add: s'_def entry_of_def)
    have fetch: "fetching v s' = map tk_buffer (filter (\<lambda>tk. tk_url tk = v) (ap_tasks a))" for v
      using b by (simp add: s'_def fetching_def)
    have "one_flight u s'"
    proof (cases "u = ?u")
      case False
      then have "fetching u s' = fetching u s" "entry_of u s' = entry_of u s"
        using frames(1,2) fetch entry by (auto simp: fetching_def entry_of_def)
      then show ?thesis using one_flight_cong [of u s' s] f [of u] lead [of u] False by simp
    next
      case True
      have "0 < leaders ?u s" by (rule leader_counted [OF i(1,2)])
      then obtain txs where p: "entry_of ?u s = Some (Pending txs)" "leaders ?u s = 1" "fetching ?u s = []"
        using f [of ?u] by (auto simp: one_flight_def split: option.splits inflight.splits)
      then obtain may where "flight_after ?u txs may ?a (r, a)" using lead_flight [of ?u ?a txs obs] l by (auto simp: entry_of_def)
      moreover have "filter (\<lambda>tk. tk_url tk = ?u) (ap_tasks ?a) = []" using p(3) by (simp add: fetching_def)
      ultimately show ?thesis using True p(2) lead [of ?u] entry [of ?u] fetch [of ?u]
        by (auto simp: one_flight_def flight_after_def Let_def split: option.splits inflight.splits)
    qed
    then show ?thesis by (simp add: s'_def)
  qed
  ultimately have "system_ok cap (answer_request i (r, a) s)"
    using i frames(4) by (intro answer_keeps [OF assms(1) _ _ ans]) auto
  then show ?thesis using l by (simp add: on_lead_def)
qed

text \<open>The end of a download.\<close>

lemma persist_changes:
  assumes "persist_download env etag_changed_for obs url h headers ended s = Some s'"
  shows "(px_coalescer s' = complete url (px_coalescer s) \<or> (\<exists>e. px_coalescer s' = fail url e (px_coalescer s)))
     \<and> (px_buffers s' = px_buffers s \<or> px_buffers s' = px_buffers (fail_buffer h s))"
  using assms
  by (auto simp: persist_download_def Let_def fail_buffer_def
      split: option.splits sum.splits if_splits prod.splits)

lemma handles_mono:
  "handles_ok bs c \<Longrightarrow> (\<And>h. served h bs \<Longrightarrow> served h bs') \<Longrightarrow> handles_ok bs' c"
  by (auto simp: handles_ok_def)

lemma served_update: "served h bs \<Longrightarrow> meta b = meta (bs ! k) \<Longrightarrow> served h (bs[k := b])"
  by (cases "h = k") (auto simp: served_def)

lemma filter_drop_other:
  assumes "j < length xs" "\<not> P (xs ! j)"
  shows "filter P (drop_nth j xs) = filter P xs"
  using assms by (subst (2) id_take_nth_drop [OF assms(1)]) (simp add: drop_nth_def)

lemma filter_drop_only:
  assumes "j < length xs" "P (xs ! j)" "length (filter P xs) \<le> 1"
  shows "filter P (drop_nth j xs) = []"
  using filter_drop_nth [OF assms(1), of P] assms(2,3) by simp

lemma tasks_drop:
  assumes "app_ok a" "j < length (ap_tasks a)" "length (px_buffers (ap_proxy a)) \<le> length (px_buffers p)" "proxy_ok p"
  shows "app_ok (a\<lparr>ap_proxy := p, ap_tasks := drop_nth j (ap_tasks a)\<rparr>)"
proof -
  have "map tk_buffer (ap_tasks a) = map tk_buffer (take j (ap_tasks a)) @ tk_buffer (ap_tasks a ! j) # map tk_buffer (drop (Suc j) (ap_tasks a))"
    by (subst id_take_nth_drop [OF assms(2)]) simp
  then have "distinct (map tk_buffer (drop_nth j (ap_tasks a)))"
    using assms(1) by (simp add: app_ok_def drop_nth_def)
  then show ?thesis using assms set_drop_nth [of j "ap_tasks a"] by (fastforce simp: app_ok_def)
qed

lemma task_end_ok:
  assumes "system_ok cap s" "j < length (ap_tasks (ps_app s))" "on_task_end env obs j ended s = Some s'"
  shows "system_ok cap s'"
proof -
  let ?a = "ps_app s" and ?tk = "ap_tasks (ps_app s) ! j"
  let ?p0 = "ap_proxy ?a"
  have app: "app_ok ?a" using assms(1) by (simp add: system_ok_def)
  obtain p where p: "persist_download env task_etag_changed obs (tk_url ?tk) (tk_buffer ?tk) (tk_headers ?tk) ended ?p0 = Some p"
      and s': "s' = set_app (?a\<lparr>ap_proxy := p, ap_tasks := drop_nth j (ap_tasks ?a)\<rparr>) s"
    using assms(3) by (auto simp: on_task_end_def Let_def)
  note ch = persist_changes [OF p]
  have mono: "served h (px_buffers p)" if "served h (px_buffers ?p0)" for h
    using ch that served_update [of h "px_buffers ?p0" "set_failed (px_buffers ?p0 ! tk_buffer ?tk)" "tk_buffer ?tk"]
    by (auto simp: fail_buffer_def set_failed_def)
  have len: "length (px_buffers p) = length (px_buffers ?p0)" using ch by (auto simp: fail_buffer_def)
  have entry: "am_get v (inflight (px_coalescer p)) = (if v = tk_url ?tk then None else am_get v (inflight (px_coalescer ?p0)))" for v
    using ch by (auto simp: complete_def fail_def take_entry_def)
  have "handles_ok (px_buffers ?p0) (px_coalescer p)"
    using ch handles_settle [of "px_buffers ?p0" "px_coalescer ?p0" "tk_url ?tk"] app by (auto simp: app_ok_def proxy_ok_def)
  then have "proxy_ok p" using handles_mono mono unfolding proxy_ok_def by blast
  then have "app_ok (ps_app s')" using tasks_drop [OF app assms(2)] len s' by simp
  moreover have "answers_served s'" using assms(1) mono s' unfolding system_ok_def answers_served_def by auto
  moreover have "one_flight v s'" if "\<not> ps_overflow s" for v
  proof -
    have f: "one_flight v s" using assms(1) that by (simp add: system_ok_def)
    have lead: "leaders v s' = leaders v s" by (simp add: s')
    have e: "entry_of v s' = (if v = tk_url ?tk then None else entry_of v s)" using entry [of v] by (simp add: s' entry_of_def)
    show ?thesis
    proof (cases "v = tk_url ?tk")
      case False
      then have "fetching v s' = fetching v s" using filter_drop_other [OF assms(2), of "\<lambda>tk. tk_url tk = v"]
        by (simp add: s' fetching_def)
      then show ?thesis using one_flight_cong [of v s' s] f lead e False by simp
    next
      case True
      have "?tk \<in> set (filter (\<lambda>tk. tk_url tk = v) (ap_tasks ?a))" using True assms(2) by simp
      then have ne: "fetching v s \<noteq> []" by (auto simp: fetching_def filter_empty_conv)
      then obtain b where "leaders v s = 0" "fetching v s = [b]"
        using f by (auto simp: one_flight_def split: option.splits inflight.splits)
      then have "leaders v s' = 0" "fetching v s' = []"
        using lead filter_drop_only [OF assms(2), of "\<lambda>tk. tk_url tk = v"] True by (auto simp: s' fetching_def)
      then show ?thesis using e True by (simp add: one_flight_def)
    qed
  qed
  ultimately show ?thesis using assms(1) s' by (simp add: system_ok_def)
qed

lemma drop_ok:
  assumes "system_ok cap s" "i < length (ps_requests s)" "holds_permit (ps_requests s ! i)"
  shows "system_ok cap (on_drop i s)"
proof -
  let ?a = "drop_permit (rp_permit (ps_requests s ! i)) (ps_app s)"
  have "one_flight u (set_pc i Gone (set_app ?a s))" if "\<not> ps_overflow s" for u
  proof -
    define s' where "s' = set_pc i Gone (set_app ?a s)"
    have "one_flight u s" using assms(1) that by (simp add: system_ok_def)
    moreover have "leaders u s' \<le> leaders u s"
      using leaders_set_pc [of i "set_app ?a s" u Gone] assms(2) by (simp add: s'_def split: if_splits)
    moreover have "entry_of u s' = entry_of u s" "fetching u s' = fetching u s"
      by (simp_all add: s'_def entry_of_def fetching_def drop_permit_def)
    ultimately have "one_flight u s'" by (auto simp: one_flight_def split: option.splits inflight.splits)
    then show ?thesis by (simp add: s'_def)
  qed
  then have "system_ok cap (set_pc i Gone (set_app ?a s))"
    using assms(1) by (intro move_ok [OF assms]) (auto simp: system_ok_def drop_permit_def app_ok_def holds_permit_def release_global)
  then show ?thesis by (simp add: on_drop_def)
qed

lemma arrival_ok:
  assumes "system_ok cap s"
  shows "system_ok cap (on_arrival ip now clock url s)"
proof -
  obtain r l where acq: "acquire ip now clock (ap_limiter (ps_app s)) = (r, l)" by fastforce
  note g = acquire_global [OF acq]
  let ?rq = "\<lambda>p. \<lparr>rp_ip = ip, rp_url = url, rp_permit = p, rp_pc = Consulting 0\<rparr>"
  have same: "one_flight u (s\<lparr>ps_app := (ps_app s)\<lparr>ap_limiter := l\<rparr>\<rparr>) = one_flight u s"
    "one_flight u (s\<lparr>ps_app := (ps_app s)\<lparr>ap_limiter := l\<rparr>, ps_requests := ps_requests s @ [?rq p]\<rparr>) = one_flight u s" for u p
    by (intro one_flight_cong; simp add: entry_of_def leaders_def fetching_def)+
  show ?thesis
    using assms g acq same
    by (cases r) (auto simp: on_arrival_def Let_def system_ok_def app_ok_def answers_served_def permits_out_def
        set_app_def holds_permit_def)
qed

lemma fill_ok:
  assumes "system_ok cap s" "meta b = meta (px_buffers (ap_proxy (ps_app s)) ! h)"
  shows "system_ok cap (on_fill h b s)"
proof -
  let ?old = "ap_proxy (ps_app s)"
  let ?new = "?old\<lparr>px_buffers := (px_buffers ?old)[h := b]\<rparr>"
  have mono: "served k (px_buffers ?new)" if "served k (px_buffers ?old)" for k
    using that assms(2) by (simp add: served_update)
  have app: "app_ok (ps_app s)" using assms(1) by (simp add: system_ok_def)
  then have "handles_ok (px_buffers ?old) (px_coalescer ?old)" by (simp add: app_ok_def proxy_ok_def)
  then have "handles_ok (px_buffers ?new) (px_coalescer ?old)" by (rule handles_mono) (use mono in simp)
  then have "app_ok ((ps_app s)\<lparr>ap_proxy := ?new\<rparr>)" using app by (simp add: app_ok_def proxy_ok_def)
  moreover have "one_flight u (set_proxy ?new s) = one_flight u s" for u
    by (intro one_flight_cong) (simp_all add: set_proxy_alt entry_of_def fetching_def)
  moreover have "answers_served (set_proxy ?new s)"
    using assms(1) mono unfolding system_ok_def answers_served_def by (auto simp: set_proxy_alt)
  ultimately show ?thesis using assms(1) by (auto simp: on_fill_def system_ok_def set_proxy_alt)
qed

lemma sweep_ok: "system_ok cap s \<Longrightarrow> system_ok cap (on_sweep now s)"
proof -
  assume ok: "system_ok cap s"
  have "one_flight u (on_sweep now s) = one_flight u s" for u
    by (intro one_flight_cong) (simp_all add: on_sweep_def entry_of_def fetching_def)
  then show ?thesis using ok
    by (auto simp: system_ok_def on_sweep_def app_ok_def answers_served_def sweep_stale_entries_at_def)
qed

lemma tool_ok: "system_ok cap s \<Longrightarrow> system_ok cap (on_tool f s)"
proof -
  assume ok: "system_ok cap s"
  have "one_flight u (on_tool f s) = one_flight u s" for u
    by (intro one_flight_cong) (simp_all add: on_tool_def Let_def set_proxy_alt entry_of_def fetching_def)
  then show ?thesis using ok
    by (auto simp: system_ok_def on_tool_def Let_def set_proxy_alt app_ok_def answers_served_def)
qed

lemma step_ok:
  assumes "system_ok cap s"
  shows "request_step env parse_date i s s' \<Longrightarrow> system_ok cap s'" and "other_step env s s' \<Longrightarrow> system_ok cap s'"
proof -
  show "system_ok cap s'" if "request_step env parse_date i s s'"
    using that assms by (auto elim!: request_stepE intro: consult_ok register_ok wake_ok lead_ok)
  show "system_ok cap s'" if "other_step env s s'"
    using that
  proof (cases rule: other_step.cases)
    case (ot_finish i resp)
    then show ?thesis using drop_ok [OF assms, of i] by (auto simp: pc_of_def holds_permit_def split: if_splits)
  next
    case (ot_cancel i pc)
    then show ?thesis using drop_ok [OF assms, of i]
      by (auto simp: pc_of_def holds_permit_def split: if_splits request_pc.splits)
  qed (use assms arrival_ok task_end_ok fill_ok sweep_ok tool_ok in auto)
qed

lemma reach_ok:
  assumes "app_ok a0" "inflight (px_coalescer (ap_proxy a0)) = []" "ap_tasks a0 = []"
    and "system_reach env parse_date a0 s"
  shows "system_ok (global_free (ap_limiter a0)) s"
  using assms(4)
proof (induction rule: system_reach.induct)
  case sys_start
  then show ?case using assms(1-3)
    by (simp add: system_ok_def start_system_def answers_served_def permits_out_def one_flight_def entry_of_def
        leaders_def fetching_def am_get_def)
qed (use step_ok in blast)+

subsection \<open>Progress\<close>

text \<open>The number of steps a request can still take of its own before it is answered.\<close>

definition steps_left :: "nat \<Rightarrow> request_pc \<Rightarrow> nat" where
  "steps_left limit pc =
     (case pc of
        Consulting n \<Rightarrow> 3 * (limit - n) + 4
      | Registering n \<Rightarrow> 3 * (limit - n) + 3
      | Awaiting rx n \<Rightarrow> 3 * (limit - n) + 2
      | Leading \<Rightarrow> 1
      | Answered r \<Rightarrow> 0
      | Gone \<Rightarrow> 0)"

definition retry_limit :: "proxy_system \<Rightarrow> nat" where
  "retry_limit s = max (fc_max_retries (ap_flight (ps_app s))) (fc_etag_max_retries (ap_flight (ps_app s)))"

text \<open>Request \<open>i\<close> alone has moved, to a point with at most \<open>k\<close> steps left.\<close>

definition moved :: "nat \<Rightarrow> nat \<Rightarrow> proxy_system \<Rightarrow> proxy_system \<Rightarrow> bool" where
  "moved i k s s' \<longleftrightarrow> ap_flight (ps_app s') = ap_flight (ps_app s)
     \<and> (\<forall>j. j \<noteq> i \<longrightarrow> pc_of j s' = pc_of j s)
     \<and> (\<exists>pc. pc_of i s' = Some pc \<and> steps_left (retry_limit s) pc \<le> k)"

lemma pc_of_set_pc:
  "pc_of j (set_pc i pc s) = (if j = i \<and> i < length (ps_requests s) then Some pc else pc_of j s)"
  by (simp add: pc_of_def set_pc_def)

lemma pc_of_set_app [simp]: "pc_of j (set_app a s) = pc_of j s"
  by (simp add: pc_of_def)

lemma moved_set_pc:
  "i < length (ps_requests s) \<Longrightarrow> ap_flight a = ap_flight (ps_app s) \<Longrightarrow> steps_left (retry_limit s) pc \<le> k \<Longrightarrow>
     moved i k s (set_pc i pc (set_app a s))"
  by (simp add: moved_def pc_of_set_pc)

lemma moved_answer:
  assumes "i < length (ps_requests s)" "ap_flight a = ap_flight (ps_app s)"
  shows "moved i 0 s (answer_request i (r, a) s)"
  using assms moved_set_pc [of i s]
  by (auto simp: answer_request_def with_permit_def drop_permit_def steps_left_def split: sum.split)

lemma moved_less: "moved i k s s' \<Longrightarrow> k \<le> l \<Longrightarrow> moved i l s s'"
  by (auto simp: moved_def)

lemma moved_deliver:
  assumes "i < length (ps_requests s)" "outcome_ok r (ap_proxy (ps_app s))"
  shows "moved i 1 s (deliver i r s)"
proof -
  have "moved i 1 s (set_pc i Leading (set_app (ps_app s) s))"
    by (rule moved_set_pc) (simp_all add: assms(1) steps_left_def)
  moreover have "set_app (ps_app s) s = s" by (simp add: set_app_def)
  ultimately show ?thesis
    using moved_less [OF moved_answer [OF assms(1) refl], of 1] assms(2)
    by (auto simp: deliver_def outcome_ok_def served_def serve_from_buffer_def
        split: sum.split coalesce_outcome.split option.split)
qed

lemma moved_same:
  assumes "moved i k s s'" "ps_requests s = ps_requests s0" "ap_flight (ps_app s) = ap_flight (ps_app s0)"
  shows "moved i k s0 s'"
  using assms by (simp add: moved_def pc_of_def retry_limit_def)

lemma consult_moves:
  assumes "pc_of i s = Some (Consulting n)"
  shows "moved i (3 + 3 * (retry_limit s - n)) s (on_consult env parse_date obs i n s)"
proof -
  have i: "i < length (ps_requests s)" using assms by (simp add: pc_of_def split: if_splits)
  obtain x p where c: "consult_cache env parse_date (ap_flight (ps_app s)) (rp_url (ps_requests s ! i)) obs
      (ap_proxy (ps_app s)) = (x, p)" by fastforce
  let ?s1 = "set_proxy p s"
  have same: "ps_requests ?s1 = ps_requests s" "ap_flight (ps_app ?s1) = ap_flight (ps_app s)"
    by (simp_all add: set_proxy_alt)
  show ?thesis
  proof (cases x)
    case (Some r)
    have "outcome_ok r (ap_proxy (ps_app ?s1))" using consult_frames [OF c] Some by (auto simp: outcome_ok_def)
    then have "moved i 1 s (deliver i r ?s1)" using moved_deliver [of i ?s1 r] moved_same [OF _ same] i same(1) by simp
    then show ?thesis using c Some by (simp add: on_consult_def Let_def moved_less)
  next
    case None
    then show ?thesis using c moved_set_pc [of i s "(ps_app s)\<lparr>ap_proxy := p\<rparr>" "Registering n"] i
      by (simp add: on_consult_def Let_def set_proxy_alt steps_left_def)
  qed
qed

lemma register_moves:
  assumes "app_ok (ps_app s)" "pc_of i s = Some (Registering n)"
  shows "moved i (3 * (retry_limit s - n) + 2) s (on_register i n s)"
proof -
  have i: "i < length (ps_requests s)" using assms(2) by (simp add: pc_of_def split: if_splits)
  let ?p = "ap_proxy (ps_app s)" and ?u = "rp_url (ps_requests s ! i)"
  obtain r c where reg: "register ?u (px_coalescer ?p) = (r, c)" by fastforce
  let ?s1 = "set_proxy (?p\<lparr>px_coalescer := c\<rparr>)
    (s\<lparr>ps_overflow := ps_overflow s \<or> MAX_INFLIGHT \<le> length (inflight (px_coalescer ?p))\<rparr>)"
  have same: "ps_requests ?s1 = ps_requests s" "ap_flight (ps_app ?s1) = ap_flight (ps_app s)"
    by (simp_all add: set_proxy_alt)
  have d: "moved i 1 s (deliver i x ?s1)" if "outcome_ok x (ap_proxy (ps_app ?s1))" for x
    using moved_deliver [of i ?s1 x] moved_same [OF _ same] that i same(1) by simp
  show ?thesis
  proof (cases r)
    case Leader
    then show ?thesis using d [of "Inr Become_leader"] reg
      by (simp add: on_register_def Let_def outcome_ok_def moved_less)
  next
    case (Follower rx)
    have "moved i (3 * (retry_limit s - n) + 2) ?s1 (set_pc i (Awaiting rx n) (set_app (ps_app ?s1) ?s1))"
      using i same by (intro moved_set_pc) (simp_all add: steps_left_def retry_limit_def)
    then show ?thesis using moved_same [OF _ same] reg Follower by (simp add: on_register_def Let_def set_app_def)
  next
    case (Follower_buffer b)
    have "served b (px_buffers ?p)"
      using handles_follow [of "px_buffers ?p" "px_coalescer ?p" ?u b] reg Follower_buffer assms(1)
      by (simp add: app_ok_def proxy_ok_def)
    then show ?thesis using d [of "Inr (From_buffer b)"] reg Follower_buffer
      by (simp add: on_register_def Let_def outcome_ok_def set_proxy_alt moved_less)
  qed
qed

lemma wake_moves:
  assumes "app_ok (ps_app s)" "pc_of i s = Some (Awaiting rx n)"
  shows "moved i (3 * (retry_limit s - n) + 1) s (on_wake i rx n s)"
proof -
  have i: "i < length (ps_requests s)" using assms(2) by (simp add: pc_of_def split: if_splits)
  let ?k = "3 * (retry_limit s - n) + 1"
  have d: "moved i ?k s (deliver i x s)" if "outcome_ok x (ap_proxy (ps_app s))" for x
    using moved_less [OF moved_deliver [OF i that], of ?k] by simp
  have e: "moved i ?k s (deliver i (Inl e) s)" for e by (rule d) (simp add: outcome_ok_def)
  have b: "moved i ?k s (deliver i (Inr (From_buffer b)) s)" if "channels (px_coalescer (ap_proxy (ps_app s))) rx = Sent b" for b
    using assms(1) that by (intro d) (auto simp: outcome_ok_def app_ok_def proxy_ok_def handles_ok_def)
  have "moved i ?k s (set_pc i (Consulting (n + 1)) (set_app (ps_app s) s))" if "n + 1 \<le> retry_limit s"
    using i that by (intro moved_set_pc) (simp_all add: steps_left_def)
  then have "moved i ?k s (set_pc i (Consulting (n + 1)) s)" if "n + 1 \<le> retry_limit s"
    using that by (simp add: set_app_def)
  then have r: "moved i ?k s (set_pc i (Consulting (n + 1)) s)"
    if "\<not> n + 1 > fc_max_retries (ap_flight (ps_app s)) \<or> \<not> n + 1 > fc_etag_max_retries (ap_flight (ps_app s))"
    using that by (force simp: retry_limit_def)
  show ?thesis unfolding on_wake_def Let_def using e b r by (auto split: channel.split if_splits)
qed

lemma lead_moves:
  assumes "pc_of i s = Some Leading"
  shows "moved i 0 s (on_lead obs i s)"
proof -
  have i: "i < length (ps_requests s)" using assms by (simp add: pc_of_def split: if_splits)
  obtain r a where l: "lead_for obs (rp_url (ps_requests s ! i)) (ps_app s) = (r, a)" by fastforce
  show ?thesis using moved_answer [OF i lead_frames(5) [OF l]] l by (simp add: on_lead_def)
qed

lemma request_moves:
  assumes "system_ok cap s" "request_step env parse_date i s s'" "pc_of i s = Some pc"
  shows "0 < steps_left (retry_limit s) pc \<and> moved i (steps_left (retry_limit s) pc - 1) s s'"
proof -
  have "app_ok (ps_app s)" using assms(1) by (simp add: system_ok_def)
  note moves = consult_moves register_moves [OF this] wake_moves [OF this] lead_moves
  show ?thesis using assms(2)
    by (rule request_stepE) (use moves assms(3) in \<open>auto simp: steps_left_def\<close>)
qed

lemma other_moves:
  assumes "other_step env s s'" "pc_of i s = Some pc"
  shows "ap_flight (ps_app s') = ap_flight (ps_app s)
     \<and> (\<exists>pc'. pc_of i s' = Some pc' \<and> steps_left limit pc' \<le> steps_left limit pc)"
proof -
  have dropped: "ap_flight (ps_app (on_drop j s)) = ap_flight (ps_app s)
      \<and> (\<exists>pc'. pc_of i (on_drop j s) = Some pc' \<and> steps_left limit pc' \<le> steps_left limit pc)" for j
    using assms(2) by (auto simp: on_drop_def pc_of_set_pc drop_permit_def steps_left_def)
  from assms(1) show ?thesis
  proof (cases rule: other_step.cases)
    case (ot_arrival ip now clock url)
    then show ?thesis using assms(2)
      by (auto simp: on_arrival_def Let_def pc_of_def nth_append set_app_def split: option.splits prod.splits if_splits)
  next
    case (ot_task_end j obs ended)
    then show ?thesis using assms(2) by (auto simp: on_task_end_def Let_def)
  next
    case (ot_fill b h)
    then show ?thesis using assms(2) by (simp add: on_fill_def set_proxy_alt)
  next
    case (ot_sweep now)
    then show ?thesis using assms(2) by (simp add: on_sweep_def)
  qed (use dropped assms(2) in \<open>auto simp: on_tool_def Let_def set_proxy_alt\<close>)
qed

lemma request_enabled:
  assumes "pc_of i s = Some pc" "0 < steps_left limit pc"
  shows "\<exists>s'. request_step env parse_date i s s'"
  using assms rq_consult [of i s] rq_register [of i s] rq_wake [of i s] rq_lead [of i s]
  by (cases pc) (auto simp: steps_left_def, blast+)

text \<open>So a request left alone can always be brought to its answer, whatever the others have done before.\<close>

definition steps_of_request :: "nat \<Rightarrow> proxy_system \<Rightarrow> nat" where
  "steps_of_request i s = (case pc_of i s of None \<Rightarrow> 0 | Some pc \<Rightarrow> steps_left (retry_limit s) pc)"

definition request_live :: "nat \<Rightarrow> proxy_system \<Rightarrow> bool" where
  "request_live i s \<longleftrightarrow> (\<exists>cap. system_ok cap s) \<and> 0 < steps_of_request i s"

lemma request_ranks:
  assumes "request_live i s" "request_step env parse_date i s s'"
  shows "steps_of_request i s' < steps_of_request i s"
proof -
  obtain cap pc where s: "system_ok cap s" "pc_of i s = Some pc"
    using assms(1) by (auto simp: request_live_def steps_of_request_def split: option.splits)
  from request_moves [OF s(1) assms(2) s(2)] show ?thesis
    using s(2) by (auto simp: moved_def steps_of_request_def retry_limit_def)
qed

interpretation req: ranked_steps "request_step env parse_date i" "request_live i" "steps_of_request i"
proof unfold_locales
  show "\<exists>s'. request_step env parse_date i s s'" if "request_live i s" for s
    using that request_enabled [of i s _ "retry_limit s"]
    by (auto simp: request_live_def steps_of_request_def split: option.splits)
qed (rule request_ranks)

lemma request_can_finish:
  assumes "system_ok cap s" "i < length (ps_requests s)"
  shows "\<exists>s'. (request_step env parse_date i)\<^sup>*\<^sup>* s s' \<and> steps_of_request i s' = 0"
proof -
  obtain s' where s': "(request_step env parse_date i)\<^sup>*\<^sup>* s s'" "\<not> request_live i s'"
    using req.can_end by blast
  from s'(1) have "system_ok cap s'"
    by (induction rule: rtranclp_induct) (use assms(1) step_ok(1) in blast)+
  then show ?thesis using s' by (auto simp: request_live_def)
qed

text \<open>A run in which request \<open>i\<close> takes \<open>k\<close> steps of its own.\<close>

inductive own_run ::
    "cache_env \<Rightarrow> (string \<Rightarrow> int option) \<Rightarrow> nat \<Rightarrow> proxy_system \<Rightarrow> nat \<Rightarrow> proxy_system \<Rightarrow> bool"
  for env :: cache_env and parse_date :: "string \<Rightarrow> int option" and i :: nat and s :: proxy_system where
  run_here: "own_run env parse_date i s 0 s"
| run_own: "own_run env parse_date i s k s1 \<Longrightarrow> request_step env parse_date i s1 s2 \<Longrightarrow>
     own_run env parse_date i s (Suc k) s2"
| run_request: "own_run env parse_date i s k s1 \<Longrightarrow> j \<noteq> i \<Longrightarrow> request_step env parse_date j s1 s2 \<Longrightarrow>
     own_run env parse_date i s k s2"
| run_other: "own_run env parse_date i s k s1 \<Longrightarrow> other_step env s1 s2 \<Longrightarrow> own_run env parse_date i s k s2"

lemma step_pc:
  assumes "request_step env parse_date j s s'"
  shows "\<exists>pc. pc_of j s = Some pc"
  using assms by (auto elim: request_stepE)

lemma run_bounded:
  assumes "own_run env parse_date i s k s'" "system_ok cap s" "pc_of i s = Some pc"
  shows "system_ok cap s' \<and> retry_limit s' = retry_limit s
     \<and> (\<exists>pc'. pc_of i s' = Some pc' \<and> k + steps_left (retry_limit s) pc' \<le> steps_left (retry_limit s) pc)"
  using assms(1)
proof (induction rule: own_run.induct)
  case run_here
  then show ?case using assms by simp
next
  case (run_own k s1 s2)
  then obtain pc1 where pc1: "pc_of i s1 = Some pc1" "k + steps_left (retry_limit s) pc1 \<le> steps_left (retry_limit s) pc"
      "retry_limit s1 = retry_limit s" "system_ok cap s1" by blast
  from request_moves [OF pc1(4) run_own.hyps(2) pc1(1)] obtain pc2 where
    pc2: "pc_of i s2 = Some pc2" "steps_left (retry_limit s1) pc2 \<le> steps_left (retry_limit s1) pc1 - 1"
      "0 < steps_left (retry_limit s1) pc1" "ap_flight (ps_app s2) = ap_flight (ps_app s1)"
    by (auto simp: moved_def)
  have "Suc k + steps_left (retry_limit s) pc2 \<le> steps_left (retry_limit s) pc"
    using pc1(2) pc2(2,3) unfolding pc1(3) by linarith
  moreover have "retry_limit s2 = retry_limit s" using pc1(3) pc2(4) by (simp add: retry_limit_def)
  ultimately show ?case using pc2(1) step_ok(1) [OF pc1(4) run_own.hyps(2)] by blast
next
  case (run_request k s1 j s2)
  then obtain pc1 where pc1: "pc_of i s1 = Some pc1" "k + steps_left (retry_limit s) pc1 \<le> steps_left (retry_limit s) pc"
      "retry_limit s1 = retry_limit s" "system_ok cap s1" by blast
  obtain pcj where "pc_of j s1 = Some pcj" using step_pc [OF run_request.hyps(3)] by blast
  from request_moves [OF pc1(4) run_request.hyps(3) this]
  show ?case using pc1 step_ok(1) [OF pc1(4) run_request.hyps(3)] run_request.hyps(2)
    by (auto simp: moved_def retry_limit_def)
next
  case (run_other k s1 s2)
  then obtain pc1 where pc1: "pc_of i s1 = Some pc1" "k + steps_left (retry_limit s) pc1 \<le> steps_left (retry_limit s) pc"
      "retry_limit s1 = retry_limit s" "system_ok cap s1" by blast
  from other_moves [OF run_other.hyps(2) pc1(1), of "retry_limit s"]
  show ?case using pc1 step_ok(2) [OF pc1(4) run_other.hyps(2)] by (auto simp: retry_limit_def)
qed

subsection \<open>Clients that go away\<close>

text \<open>
  When the client of a leader goes away before there is a response, its flight stays pending with
  nobody to settle it, as after a HEAD that gets no answer (lemma \<open>failed_head_blocks_url\<close>).
\<close>

lemma departed_leader_blocks:
  assumes "system_ok cap s" "\<not> ps_overflow s" "pc_of i s = Some Leading" "u = rp_url (ps_requests s ! i)"
  shows "\<exists>txs. entry_of u (on_drop i s) = Some (Pending txs)" "leaders u (on_drop i s) = 0" "fetching u (on_drop i s) = []"
proof -
  have i: "i < length (ps_requests s)" "rp_pc (ps_requests s ! i) = Leading"
    using assms(3) by (auto simp: pc_of_def split: if_splits)
  have f: "one_flight u s" using assms(1,2) by (simp add: system_ok_def)
  have "0 < leaders u s" using leader_counted [OF i] assms(4) by simp
  then obtain txs where p: "entry_of u s = Some (Pending txs)" "leaders u s = 1" "fetching u s = []"
    using f by (auto simp: one_flight_def split: option.splits inflight.splits)
  have same: "entry_of u (on_drop i s) = entry_of u s" "fetching u (on_drop i s) = fetching u s"
    by (simp_all add: on_drop_def entry_of_def fetching_def drop_permit_def)
  have "leaders u (on_drop i s) + 1 = leaders u s"
    using leaders_set_pc [of i "set_app (drop_permit (rp_permit (ps_requests s ! i)) (ps_app s)) s" u Gone] i assms(4)
    by (simp add: on_drop_def)
  then show "\<exists>txs. entry_of u (on_drop i s) = Some (Pending txs)" "leaders u (on_drop i s) = 0" "fetching u (on_drop i s) = []"
    using p same by simp_all
qed

subsection \<open>The view of one request\<close>

lemma deliver_result:
  assumes "i < length (ps_requests s)" "outcome_ok r (ap_proxy (ps_app s))"
  shows "ap_proxy (ps_app (deliver i r s)) = ap_proxy (ps_app s)"
    and "if r = Inr Become_leader then pc_of i (deliver i r s) = Some Leading else \<exists>x. pc_of i (deliver i r s) = Some (Answered x)"
proof -
  have a: "ap_proxy (ps_app (answer_request i (x, ps_app s) s)) = ap_proxy (ps_app s)
      \<and> (\<exists>y. pc_of i (answer_request i (x, ps_app s) s) = Some (Answered y))" for x
    using assms(1) by (auto simp: answer_request_def with_permit_def drop_permit_def pc_of_set_pc split: sum.split)
  have "\<exists>resp. serve_from_buffer h (ap_proxy (ps_app s)) = Some resp" if "r = Inr (From_buffer h)" for h
    using assms(2) that by (auto simp: outcome_ok_def served_def serve_from_buffer_def)
  then show "ap_proxy (ps_app (deliver i r s)) = ap_proxy (ps_app s)"
    "if r = Inr Become_leader then pc_of i (deliver i r s) = Some Leading else \<exists>x. pc_of i (deliver i r s) = Some (Answered x)"
    using a assms(1)
    by (cases r; cases "projr r"; force simp: deliver_def pc_of_set_pc)+
qed

text \<open>
  A turn of \<open>resolve_with_coalescing\<close> during which nobody else does anything is one or two steps
  here, with the same outcome and the same state.
\<close>

lemma turn_in_steps:
  assumes "system_ok cap s" "pc_of i s = Some (Consulting n)" "to_meanwhile obs = id"
    and "resolve_turn env parse_date (ap_flight (ps_app s)) (rp_url (ps_requests s ! i)) obs (ap_proxy (ps_app s)) = (t, p)"
  shows "\<exists>s'. s' \<in> {on_consult env parse_date obs i n s, on_register i n (on_consult env parse_date obs i n s)}
     \<and> ap_proxy (ps_app s') = p
     \<and> (case t of
          Turn_waits rx \<Rightarrow> pc_of i s' = Some (Awaiting rx n)
        | Turn_done r \<Rightarrow> if r = Inr Become_leader then pc_of i s' = Some Leading else \<exists>x. pc_of i s' = Some (Answered x))"
proof -
  let ?u = "rp_url (ps_requests s ! i)"
  have i: "i < length (ps_requests s)" using assms(2) by (simp add: pc_of_def split: if_splits)
  obtain x q where c: "consult_cache env parse_date (ap_flight (ps_app s)) ?u obs (ap_proxy (ps_app s)) = (x, q)" by fastforce
  note f = consult_frames [OF c]
  show ?thesis
  proof (cases x)
    case (Some r)
    have "outcome_ok r (ap_proxy (ps_app (set_proxy q s)))" using f Some by (auto simp: outcome_ok_def)
    from deliver_result [OF _ this, of i] have
      "ap_proxy (ps_app (on_consult env parse_date obs i n s)) = q"
      "if r = Inr Become_leader then pc_of i (on_consult env parse_date obs i n s) = Some Leading
       else \<exists>x. pc_of i (on_consult env parse_date obs i n s) = Some (Answered x)"
      using i c Some by (auto simp: on_consult_def Let_def set_proxy_alt split: if_splits)
    moreover have "t = Turn_done r" "p = q" using assms(4) c Some by (simp_all add: resolve_turn_def)
    ultimately show ?thesis by (intro exI [of _ "on_consult env parse_date obs i n s"]) simp
  next
    case None
    let ?s1 = "on_consult env parse_date obs i n s"
    have s1: "?s1 = set_pc i (Registering n) (set_app ((ps_app s)\<lparr>ap_proxy := q\<rparr>) s)"
      using c None by (simp add: on_consult_def set_proxy_alt Let_def)
    have i1: "i < length (ps_requests ?s1)" "rp_url (ps_requests ?s1 ! i) = ?u" "ap_proxy (ps_app ?s1) = q"
      using i by (simp_all add: s1) (simp add: set_pc_def)
    have ok1: "system_ok cap ?s1" by (rule consult_ok [OF assms(1,2)])
    obtain r co where reg: "register ?u (px_coalescer q) = (r, co)" by fastforce
    let ?s2 = "set_proxy (q\<lparr>px_coalescer := co\<rparr>)
      (?s1\<lparr>ps_overflow := ps_overflow ?s1 \<or> MAX_INFLIGHT \<le> length (inflight (px_coalescer q))\<rparr>)"
    have i2: "i < length (ps_requests ?s2)" using i1(1) by (simp add: set_proxy_alt)
    have served: "served b (px_buffers q)" if "r = Follower_buffer b" for b
      using handles_follow [of "px_buffers q" "px_coalescer q" ?u b] ok1 i1(3) reg that
      by (simp add: system_ok_def app_ok_def proxy_ok_def)
    have tp: "p = q\<lparr>px_coalescer := co\<rparr>"
      "t = (case r of Leader \<Rightarrow> Turn_done (Inr Become_leader) | Follower_buffer b \<Rightarrow> Turn_done (Inr (From_buffer b))
              | Follower rx \<Rightarrow> Turn_waits rx)"
      using assms(3,4) c None reg by (auto simp: resolve_turn_def split: register_result.splits)
    have "ap_proxy (ps_app (on_register i n ?s1)) = p \<and>
       (case t of Turn_waits rx \<Rightarrow> pc_of i (on_register i n ?s1) = Some (Awaiting rx n)
        | Turn_done r \<Rightarrow> if r = Inr Become_leader then pc_of i (on_register i n ?s1) = Some Leading
            else \<exists>x. pc_of i (on_register i n ?s1) = Some (Answered x))"
    proof (cases r)
      case Leader
      have "outcome_ok (Inr Become_leader) (ap_proxy (ps_app ?s2))" by (simp add: outcome_ok_def)
      from deliver_result [OF i2 this] show ?thesis
        using Leader reg tp i1 by (simp add: on_register_def Let_def set_proxy_alt)
    next
      case (Follower rx)
      then show ?thesis using reg tp i1 i2 by (simp add: on_register_def Let_def set_proxy_alt pc_of_set_pc)
    next
      case (Follower_buffer b)
      have "outcome_ok (Inr (From_buffer b)) (ap_proxy (ps_app ?s2))"
        using served Follower_buffer by (simp add: outcome_ok_def set_proxy_alt)
      from deliver_result [OF i2 this] show ?thesis
        using Follower_buffer reg tp i1 by (simp add: on_register_def Let_def set_proxy_alt)
    qed
    then show ?thesis by (intro exI [of _ "on_register i n ?s1"]) simp
  qed
qed

subsection \<open>Properties\<close>

definition permit_cap :: "config \<Rightarrow> nat" where
  "permit_cap cfg = (if cfg_max_total_connections cfg = 0 then UNLIMITED else cfg_max_total_connections cfg)"

lemma configured_ok:
  assumes "system_reach env parse_date (from_config cfg db disk clock) s"
  shows "system_ok (permit_cap cfg) s \<and> retry_limit s = max (cfg_coalesce_max_retries cfg) (cfg_coalesce_etag_max_retries cfg)"
proof -
  let ?a = "from_config cfg db disk clock"
  have "app_ok ?a" "inflight (px_coalescer (ap_proxy ?a)) = []" "ap_tasks ?a = []"
    "global_free (ap_limiter ?a) = permit_cap cfg"
    by (simp_all add: from_config_def app_ok_def proxy_ok_def handles_ok_def co_inv_new permit_cap_def)
      (simp_all add: new_coalescer_def new_limiter_def)
  then have ok: "system_ok (permit_cap cfg) t" if "system_reach env parse_date ?a t" for t
    using reach_ok [OF _ _ _ that] by simp
  have "ap_flight (ps_app s) = ap_flight ?a"
    using assms
  proof (induction rule: system_reach.induct)
    case sys_start
    then show ?case by (simp add: start_system_def)
  next
    case (sys_request s i s')
    obtain pc where "pc_of i s = Some pc" using step_pc [OF sys_request.hyps(2)] by blast
    from request_moves [OF ok [OF sys_request.hyps(1)] sys_request.hyps(2) this] show ?case
      using sys_request.IH by (simp add: moved_def)
  next
    case (sys_other s s')
    from sys_other(2) show ?case
      by (cases rule: other_step.cases)
        (use sys_other.IH in \<open>auto simp: on_arrival_def on_drop_def on_task_end_def on_fill_def on_sweep_def on_tool_def
          set_proxy_def set_app_def set_pc_def drop_permit_def Let_def split: option.splits prod.splits\<close>)
  qed
  then show ?thesis using ok [OF assms] by (simp add: retry_limit_def from_config_def)
qed


text \<open>
  C4. In every state the proxy can reach, every flight, channel, task and response names a buffer
  that exists and whose status and headers are set, no two tasks fill the same buffer, and the
  permits that are out and those that are left make up the global limit: none is lost or
  doubled by an error, a client that goes away, or the sweep of the limiter.
\<close>

theorem system_state_ok:
  assumes "system_reach env parse_date (from_config cfg db disk clock) s"
  shows "app_ok (ps_app s) \<and> answers_served s
     \<and> global_free (ap_limiter (ps_app s)) + permits_out s = permit_cap cfg"
  using configured_ok [OF assms] by (simp add: system_ok_def)

text \<open>
  C5. Every request is answered: until it is, it can always take a step, no other request and no
  other task sets it back, and after at most four steps of its own and three more for every
  retry it is allowed it has its answer, unless its client has gone away.
\<close>

theorem request_steps_bounded:
  assumes "system_reach env parse_date (from_config cfg db disk clock) s" and "pc_of i s = Some pc"
    and "own_run env parse_date i s k s'"
    and "limit = max (cfg_coalesce_max_retries cfg) (cfg_coalesce_etag_max_retries cfg)"
  shows "\<exists>pc'. pc_of i s' = Some pc' \<and> k + steps_left limit pc' \<le> 3 * limit + 4
     \<and> ((\<exists>r. pc' = Answered r) \<or> pc' = Gone \<or> (\<exists>s''. request_step env parse_date i s' s''))"
proof -
  have ok: "system_ok (permit_cap cfg) s" "retry_limit s = limit" using configured_ok [OF assms(1)] assms(4) by auto
  obtain pc' where pc': "pc_of i s' = Some pc'" "k + steps_left limit pc' \<le> steps_left limit pc"
    using run_bounded [OF assms(3) ok(1) assms(2)] ok(2) by auto
  have "steps_left limit pc \<le> 3 * limit + 4"
    by (cases pc) (auto simp: steps_left_def intro: le_trans [of _ "3 * limit"])
  then have "k + steps_left limit pc' \<le> 3 * limit + 4" using pc'(2) by linarith
  moreover have "(\<exists>r. pc' = Answered r) \<or> pc' = Gone \<or> (\<exists>s''. request_step env parse_date i s' s'')"
    using request_enabled [OF pc'(1), of limit] by (cases pc') (simp_all add: steps_left_def)
  ultimately show ?thesis using pc'(1) by blast
qed

subsection \<open>A small run\<close>

definition demo_config :: config where
  "demo_config = \<lparr>cfg_port = 8080, cfg_bind = ''127.0.0.1'', cfg_connections = 4, cfg_cache_dir = ''/c'',
     cfg_max_cache_size = 1000, cfg_max_cache_age = 60, cfg_url_maps = [], cfg_upstream_proxy = None, cfg_no_proxy = [],
     cfg_max_connections_per_ip = 1, cfg_max_total_connections = 3, cfg_max_workers = 4, cfg_upstream_bandwidth = 0,
     cfg_per_ip_bandwidth = 0, cfg_coalesce_follower_timeout_secs = 30, cfg_coalesce_max_retries = 2,
     cfg_coalesce_etag_max_retries = 1\<rparr>"

definition demo_start :: proxy_system where
  "demo_start = start_system (from_config demo_config None [] 0)"

definition demo_arrived :: proxy_system where
  "demo_arrived = on_arrival ''10.0.0.7'' 0 0 ''http://h/u'' demo_start"

definition demo_consulted :: proxy_system where
  "demo_consulted = on_consult demo_env (\<lambda>_. None) demo_obs 0 0 demo_arrived"

definition demo_registered :: proxy_system where
  "demo_registered = on_register 0 0 demo_consulted"

lemma demo_pcs:
  "pc_of 0 demo_arrived = Some (Consulting 0)" "pc_of 0 demo_consulted = Some (Registering 0)"
  "pc_of 0 demo_registered = Some Leading" "leaders ''http://h/u'' demo_registered = 1" "\<not> ps_overflow demo_registered"
  "permits_out demo_registered = 1"
proof -
  obtain p l where acq: "acquire ''10.0.0.7'' 0 0 (new_limiter 1 3 0) = (Some p, l)"
    by (simp add: acquire_def new_limiter_def touch_semaphore_def try_acquire_sem_def get_or_create_bucket_def Let_def)
  let ?rq = "\<lambda>pc. \<lparr>rp_ip = ''10.0.0.7'', rp_url = ''http://h/u'', rp_permit = p, rp_pc = pc\<rparr>"
  have a: "ps_requests demo_arrived = [?rq (Consulting 0)]" "\<not> ps_overflow demo_arrived"
    "ap_proxy (ps_app demo_arrived) = ap_proxy (ps_app demo_start)"
    using acq by (simp_all add: demo_arrived_def demo_start_def start_system_def on_arrival_def from_config_def
        demo_config_def Let_def)
  have px: "ap_proxy (ps_app demo_start) = idle_proxy"
    by (simp add: demo_start_def start_system_def from_config_def demo_config_def idle_proxy_def)
  have c: "demo_consulted = set_pc 0 (Registering 0) (set_proxy idle_proxy demo_arrived)"
    using a px by (simp add: demo_consulted_def on_consult_def consult_cache_def lookup_entry_def idle_proxy_def
        new_cache_def migrate_schema_def find_row_def is_in_cooldown_def Let_def)
  have r: "demo_registered = set_pc 0 Leading (set_proxy (idle_proxy\<lparr>px_coalescer := snd (register ''http://h/u'' new_coalescer)\<rparr>)
      (demo_consulted\<lparr>ps_overflow := False\<rparr>))"
    using a px by (simp add: demo_registered_def on_register_def c set_pc_def set_proxy_def idle_proxy_def
        register_def new_coalescer_def MAX_INFLIGHT_def deliver_def Let_def)
  show "pc_of 0 demo_arrived = Some (Consulting 0)" "pc_of 0 demo_consulted = Some (Registering 0)"
    "pc_of 0 demo_registered = Some Leading" "leaders ''http://h/u'' demo_registered = 1" "\<not> ps_overflow demo_registered"
    "permits_out demo_registered = 1"
    using a by (simp_all add: r c pc_of_def set_pc_def set_proxy_def leaders_def permits_out_def holds_permit_def)
qed

lemma demo_steps:
  "request_step demo_env (\<lambda>_. None) 0 demo_arrived demo_consulted"
  "request_step demo_env (\<lambda>_. None) 0 demo_consulted demo_registered"
proof -
  show "request_step demo_env (\<lambda>_. None) 0 demo_arrived demo_consulted"
    unfolding demo_consulted_def by (rule rq_consult [OF demo_pcs(1)])
  show "request_step demo_env (\<lambda>_. None) 0 demo_consulted demo_registered"
    unfolding demo_registered_def by (rule rq_register [OF demo_pcs(2)])
qed

lemma demo_reached:
  "system_reach demo_env (\<lambda>_. None) (from_config demo_config None [] 0) demo_arrived"
  "system_reach demo_env (\<lambda>_. None) (from_config demo_config None [] 0) demo_registered"
proof -
  show a: "system_reach demo_env (\<lambda>_. None) (from_config demo_config None [] 0) demo_arrived"
    unfolding demo_arrived_def demo_start_def by (rule sys_other [OF sys_start ot_arrival])
  show "system_reach demo_env (\<lambda>_. None) (from_config demo_config None [] 0) demo_registered"
    by (rule sys_request [OF sys_request [OF a demo_steps(1)] demo_steps(2)])
qed


theorem system_state_ok_witness:
  "app_ok (ps_app demo_registered) \<and> global_free (ap_limiter (ps_app demo_registered)) = 2"
  using system_state_ok [OF demo_reached(2)] demo_pcs(6) by (simp add: permit_cap_def demo_config_def)

theorem request_steps_bounded_witness:
  "\<exists>s''. request_step demo_env (\<lambda>_. None) 0 demo_registered s''"
  using request_steps_bounded [OF demo_reached(1) demo_pcs(1)
      run_own [OF run_own [OF run_here demo_steps(1)] demo_steps(2)] refl] demo_pcs(3) by auto

end
