(* ===== verification/Cache_Contents.thy ===== *)
theory Cache_Contents
  imports Cache_Properties
begin

text \<open>
  What the files of the cache can hold. Of all operations of \<open>src/src/cache.rs\<close> only \<open>store\<close> puts
  a file where an entry lives; every other operation only removes rows and files, or changes columns of a
  row that do not say where its file is. This holds whatever fails on the way, and so
  does not need the invariant of the theory Cache\_Safety, which faults can break.
\<close>

subsection \<open>Operations that only remove\<close>

definition row_key :: "cache_row \<Rightarrow> string \<times> string" where
  "row_key r = (row_hash r, row_path r)"

definition fewer_files :: "disk_files \<Rightarrow> disk_files \<Rightarrow> bool" where
  "fewer_files d' d \<longleftrightarrow> (\<forall>p x. am_get p d' = Some x \<longrightarrow> am_get p d = Some x)"

definition reduced :: "disk_cache \<Rightarrow> disk_cache \<Rightarrow> bool" where
  "reduced c' c \<longleftrightarrow> c_dir c' = c_dir c \<and> row_key ` set (c_rows c') \<subseteq> row_key ` set (c_rows c)
     \<and> fewer_files (c_disk c') (c_disk c)"

lemma fewer_refl [simp]: "fewer_files d d"
  by (simp add: fewer_files_def)

lemma fewer_trans: "fewer_files a b \<Longrightarrow> fewer_files b c \<Longrightarrow> fewer_files a c"
  by (simp add: fewer_files_def)

lemma fewer_remove [simp]: "fewer_files (am_remove p d) d"
  by (auto simp: fewer_files_def split: if_splits)

lemma fewer_unlink: "fewer_files (guarded_unlink flt dir fp d) d"
  by (simp add: guarded_unlink_def Let_def)

lemma fewer_fold: "(\<And>x d. fewer_files (f x d) d) \<Longrightarrow> fewer_files (fold f xs d) d"
  by (induction xs arbitrary: d) (auto intro: fewer_trans)

lemma reduced_refl [simp]: "reduced c c"
  by (simp add: reduced_def)

lemma reduced_trans: "reduced a b \<Longrightarrow> reduced b c \<Longrightarrow> reduced a c"
  by (auto simp: reduced_def intro: fewer_trans)

lemma row_key_simps [simp]:
  "row_key (r\<lparr>row_last_access := x\<rparr>) = row_key r"
  "row_key (r\<lparr>row_headers := hs, row_cached_at := x\<rparr>) = row_key r"
  by (simp_all add: row_key_def)

lemma keys_update: "(\<And>r. row_key (f r) = row_key r) \<Longrightarrow> row_key ` set (update_row h f rs) \<subseteq> row_key ` set rs"
  by (auto simp: update_row_def)

lemma keys_delete: "row_key ` set (delete_row h rs) \<subseteq> row_key ` set rs"
  by auto

lemma evict_shrinks:
  "evict_loop env flt dir mx fuel rs d = Some (rs', d') \<Longrightarrow> set rs' \<subseteq> set rs \<and> fewer_files d' d"
proof (induction fuel arbitrary: rs d)
  case (Suc fuel)
  show ?case
  proof (cases "total_size_of rs \<le> mx \<or> pick_oldest env rs = None")
    case True
    then show ?thesis using Suc.prems by (auto split: if_splits)
  next
    case False
    then obtain r where r: "pick_oldest env rs = Some r" by auto
    let ?d = "if f_unlink flt then d else am_remove (row_file dir r) d"
    from Suc.IH [of "if f_delete flt then rs else delete_row (row_hash r) rs" ?d] Suc.prems False r
    have "set rs' \<subseteq> set (if f_delete flt then rs else delete_row (row_hash r) rs)" "fewer_files d' ?d" by simp_all
    then show ?thesis using fewer_trans [of d' ?d d] by (auto split: if_splits)
  qed
qed simp

lemma lookup_shrinks: "lookup_entry env now url c = (r, c') \<Longrightarrow> reduced c' c \<and> c_disk c' = c_disk c"
  using keys_update [of "\<lambda>r. r\<lparr>row_last_access := now\<rparr>" "hash_of env url" "c_rows c"] keys_delete [of _ "c_rows c"]
  by (simp add: lookup_entry_def Let_def split: if_splits option.splits) (simp_all add: reduced_def split: prod.splits, auto)

lemma refresh_shrinks: "reduced (snd (refresh env flt now url hs c)) c"
  by (simp add: refresh_def reduced_def keys_update)

lemma delete_urls_shrinks: "delete_urls env flt urls n c = (r, c') \<Longrightarrow> reduced c' c"
proof (induction urls arbitrary: n c)
  case (Cons url urls)
  show ?case
  proof (cases "find_row (hash_of env url) (c_rows c)")
    case None
    then show ?thesis using Cons by simp
  next
    case (Some q)
    let ?c1 = "c\<lparr>c_disk := guarded_unlink flt (c_dir c) (row_path q) (c_disk c)\<rparr>"
    have 1: "reduced ?c1 c" by (simp add: reduced_def fewer_unlink)
    let ?c2 = "?c1\<lparr>c_rows := delete_row (hash_of env url) (c_rows ?c1)\<rparr>"
    have 2: "reduced ?c2 c" using 1 by (auto simp: reduced_def)
    show ?thesis
    proof (cases "f_delete flt")
      case True
      then show ?thesis using Cons.prems Some 1 by (simp add: Let_def)
    next
      case False
      then have "reduced c' ?c2" using Cons.IH [of "n + 1" ?c2] Cons.prems Some by (simp add: Let_def)
      then show ?thesis using reduced_trans 2 by blast
    qed
  qed
qed simp

lemma tool_shrinks: "reduced (snd (delete_by_urls env flt urls c)) c" "reduced (snd (clear_all flt c)) c"
proof -
  show "reduced (snd (delete_by_urls env flt urls c)) c"
    using delete_urls_shrinks [of env flt urls 0 c] by (cases "delete_urls env flt urls 0 c") (simp add: delete_by_urls_def)
  let ?d = "fold (\<lambda>r. guarded_unlink flt (c_dir c) (row_path r)) (c_rows c) (c_disk c)"
  have d: "fewer_files ?d (c_disk c)" by (rule fewer_fold) (rule fewer_unlink)
  have "fewer_files (filter (\<lambda>p. \<not> P (fst p)) ?d) ?d" for P :: "string list \<Rightarrow> bool"
    by (simp add: fewer_files_def am_get_filter_keys [where P = "\<lambda>x. \<not> P x"])
  then show "reduced (snd (clear_all flt c)) c"
    using d fewer_trans [OF _ d] by (simp add: clear_all_def Let_def reduced_def)
qed

subsection \<open>What the entries hold\<close>

text \<open>
  \<open>holds_only env good c\<close>: every row leads to the file of its hash, and every such file has bytes that are
  \<open>good\<close> for the hash.
\<close>

definition keys_ok :: "cache_env \<Rightarrow> disk_cache \<Rightarrow> bool" where
  "keys_ok env c \<longleftrightarrow>
     (\<forall>r \<in> set (c_rows c). \<exists>u. row_hash r = hash_of env u \<and> row_path r = entry_file_name (hash_of env u))"

definition holds_only :: "cache_env \<Rightarrow> (string \<Rightarrow> bytes \<Rightarrow> bool) \<Rightarrow> disk_cache \<Rightarrow> bool" where
  "holds_only env good c \<longleftrightarrow> keys_ok env c
     \<and> (\<forall>u content. am_get (efile env (c_dir c) u) (c_disk c) = Some content \<longrightarrow> good (hash_of env u) content)"

lemma keys_ok_alt: "keys_ok env c \<longleftrightarrow> (\<forall>k \<in> row_key ` set (c_rows c). \<exists>u. k = (hash_of env u, entry_file_name (hash_of env u)))"
  by (auto simp: keys_ok_def row_key_def)

lemma keys_reduced: "reduced c' c \<Longrightarrow> keys_ok env c \<Longrightarrow> keys_ok env c'"
  unfolding keys_ok_alt reduced_def by blast

lemma holds_reduced: "reduced c' c \<Longrightarrow> holds_only env good c \<Longrightarrow> holds_only env good c'"
  using keys_reduced unfolding holds_only_def reduced_def fewer_files_def by metis

lemma holds_mono:
  "holds_only env good c \<Longrightarrow> (\<And>h x. good h x \<Longrightarrow> better h x) \<Longrightarrow> holds_only env better c"
  by (simp add: holds_only_def)

lemma holds_temp:
  "temp_free env (c_dir c) p \<Longrightarrow> holds_only env good c \<Longrightarrow> holds_only env good (c\<lparr>c_disk := am_insert p x (c_disk c)\<rparr>)"
  by (auto simp: holds_only_def keys_ok_def temp_free_def)

lemma holds_dropped:
  "fewer_files d (c_disk c) \<Longrightarrow> holds_only env good c \<Longrightarrow> holds_only env good (c\<lparr>c_disk := d\<rparr>)"
  by (erule holds_reduced [rotated]) (simp add: reduced_def)

lemma holds_poison [simp]: "holds_only env good (c\<lparr>c_poisoned := x\<rparr>) = holds_only env good c"
  by (simp add: holds_only_def keys_ok_def)

text \<open>What a lookup finds is the file of the hash.\<close>

lemma lookup_path:
  assumes "lookup_entry env now url c = (Some (path, hs, at), c')" "hex_hash (hash_of env)" "keys_ok env c"
  shows "resolve_path path = efile env (c_dir c) url"
proof -
  obtain r where r: "find_row (hash_of env url) (c_rows c) = Some r" "path = join_path (c_dir c) (row_path r)"
    using assms(1) by (auto simp: lookup_entry_def Let_def split: if_splits option.splits)
  then have "r \<in> set (c_rows c)" "row_hash r = hash_of env url" using find_row_Some by blast+
  then have "row_path r = entry_file_name (hash_of env url)" using assms(3) by (auto simp: keys_ok_def)
  then show ?thesis using resolve_entry [OF assms(2), of "c_dir c" url] r(2) by simp
qed

text \<open>
  \<open>store\<close>, with any faults: it leaves the bytes of the temporary file under the hash of the URL, or
  nothing new.
\<close>

lemma store_holds:
  assumes "store env flt now url tmp hs c = Some (r, c')" "hex_hash (hash_of env)" "holds_only env good c"
    and "\<And>x. am_get (resolve_path tmp) (c_disk c) = Some x \<Longrightarrow> good (hash_of env url) x"
  shows "holds_only env good c' \<and> c_dir c' = c_dir c"
proof -
  let ?name = "entry_file_name (hash_of env url)"
  have final: "resolve_path (join_path (c_dir c) ?name) = efile env (c_dir c) url" by (rule resolve_entry [OF assms(2)])
  define moved where "moved x = c\<lparr>c_disk := am_insert (efile env (c_dir c) url) x
      (am_remove (resolve_path tmp) (c_disk c))\<rparr>" for x
  have moved: "holds_only env good (moved x)" if "am_get (resolve_path tmp) (c_disk c) = Some x" for x
    using assms(3) assms(4) [OF that] by (auto simp: moved_def holds_only_def keys_ok_def efile_eq)
  define row where "row x = \<lparr>row_hash = hash_of env url, row_url = url, row_size = int (length (x :: bytes)),
      row_last_access = now, row_path = ?name, row_headers = to_json env (headers_to_map hs), row_cached_at = now\<rparr>" for x
  have "c' = c \<or> (\<exists>x. am_get (resolve_path tmp) (c_disk c) = Some x \<and> (c' = moved x
      \<or> (\<exists>rs d. evict_inner env flt (c_dir c) (c_max_size c) (insert_or_replace (row x) (c_rows c)) (c_disk (moved x)) = Some (rs, d)
          \<and> c' = (moved x)\<lparr>c_rows := rs, c_disk := d\<rparr>)))"
  proof (cases "f_mkdir flt \<or> f_rename flt \<or> am_get (resolve_path tmp) (c_disk c) = None")
    case True
    then show ?thesis using assms(1) by (auto simp: store_def Let_def split: if_splits)
  next
    case False
    then obtain x where x: "am_get (resolve_path tmp) (c_disk c) = Some x" by auto
    let ?ev = "evict_inner env flt (c_dir c) (c_max_size c) (insert_or_replace (row x) (c_rows c)) (c_disk (moved x))"
    have run: "store env flt now url tmp hs c =
      (if f_metadata flt then Some (Inl Cache_io, moved x)
       else if c_poisoned c then Some (Inl Cache_panicked, moved x)
       else if f_insert flt then Some (Inl Cache_db, moved x)
       else case ?ev of None \<Rightarrow> None
            | Some (rs, d) \<Rightarrow> Some (Inr (join_path (c_dir c) ?name), (moved x)\<lparr>c_rows := rs, c_disk := d\<rparr>))"
      using False x unfolding store_def Let_def by (simp only: final moved_def row_def) simp
    show ?thesis
    proof (cases "?ev")
      case None
      then show ?thesis using assms(1) x unfolding run by (auto split: if_splits)
    next
      case (Some p)
      then show ?thesis using assms(1) x unfolding run by (cases p) (auto split: if_splits)
    qed
  qed
  then consider "c' = c" | x where "am_get (resolve_path tmp) (c_disk c) = Some x" "c' = moved x"
    | x rs d where "am_get (resolve_path tmp) (c_disk c) = Some x"
        "evict_inner env flt (c_dir c) (c_max_size c) (insert_or_replace (row x) (c_rows c)) (c_disk (moved x)) = Some (rs, d)"
        "c' = (moved x)\<lparr>c_rows := rs, c_disk := d\<rparr>" by blast
  then show ?thesis
  proof cases
    case 1
    then show ?thesis using assms(3) by simp
  next
    case (2 x)
    then show ?thesis using moved by (simp add: moved_def)
  next
    case (3 x rs d)
    let ?c = "(moved x)\<lparr>c_rows := insert_or_replace (row x) (c_rows c)\<rparr>"
    have "keys_ok env ?c" using assms(3) by (auto simp: holds_only_def keys_ok_def insert_or_replace_def row_def)
    then have "holds_only env good ?c" using moved [OF 3(1)] by (simp add: holds_only_def)
    moreover have "reduced c' ?c"
      using evict_shrinks [OF 3(2) [unfolded evict_inner_def]] 3(3) by (auto simp: reduced_def)
    ultimately show ?thesis using holds_reduced 3(3) by (auto simp: moved_def)
  qed
qed

end
