(* ===== verification/Whole_Proxy.thy ===== *)
theory Whole_Proxy
  imports Proxy_System Parallel_Results Cache_Contents
begin

text \<open>
  The proxy with its downloads: the requests and tasks of the theory Proxy\_System, where every task that
  fetches over HTTP is a run of \<open>download_multithreaded\<close> with its workers (theory Parallel\_Download) on the
  buffer it was given. There the workers could leave anything in a buffer and a download could end in any
  way; here both are what \<open>src/src/downloader.rs\<close> does with the answers of the upstream. The upstream of each
  download is a relation of its own, so it may change from one download to the next.
  Downloads over FTP stay as they are in Proxy\_System.
\<close>

record running =
  rn_url :: string
  rn_agent :: "string option"
  rn_etag :: "string option"
  rn_upstream :: "range_request \<Rightarrow> range_answer \<Rightarrow> bool"
  rn_size :: nat
  rn_run :: parallel_download

record whole_proxy =
  wp_system :: proxy_system
  wp_runs :: "nat \<Rightarrow> running option"

abbreviation proxy_of :: "proxy_system \<Rightarrow> proxy_state" where
  "proxy_of s \<equiv> ap_proxy (ps_app s)"

definition is_ftp :: "string \<Rightarrow> bool" where
  "is_ftp url \<longleftrightarrow> starts_with url ''ftp://'' \<or> starts_with url ''ftps://''"

definition start_whole :: "app_state \<Rightarrow> whole_proxy" where
  "start_whole a = \<lparr>wp_system = start_system a, wp_runs = Map.empty\<rparr>"

subsection \<open>The steps\<close>

text \<open>A leader: when it makes a buffer for a URL that is not FTP, it spawns \<open>download_multithreaded\<close> on it.\<close>

definition etag_of_head :: "request_obs \<Rightarrow> string option" where
  "etag_of_head obs = (case rq_head obs of Some (status, hs) \<Rightarrow> header_get ''etag'' hs | None \<Rightarrow> None)"

definition on_launch ::
    "nat \<Rightarrow> request_obs \<Rightarrow> string option \<Rightarrow> (range_request \<Rightarrow> range_answer \<Rightarrow> bool) \<Rightarrow> nat \<Rightarrow> whole_proxy \<Rightarrow> whole_proxy" where
  "on_launch num obs ua up i w =
     (let s = wp_system w; s' = on_lead obs i s; url = rp_url (ps_requests s ! i);
          h = length (px_buffers (proxy_of s)); bs = px_buffers (proxy_of s')
      in if length bs = h \<or> is_ftp url then w\<lparr>wp_system := s'\<rparr>
         else w\<lparr>wp_system := s',
                wp_runs := (wp_runs w)(h \<mapsto> \<lparr>rn_url = url, rn_agent = ua, rn_etag = etag_of_head obs, rn_upstream = up,
                                            rn_size = total_size (bs ! h), rn_run = pd_start num (bs ! h)\<rparr>)\<rparr>)"

text \<open>
  A step of a download in the buffer that the proxy sees. The persistence task alone sets the flag \<open>failed\<close>,
  and notifies of that; what the step notifies of comes after what was sent before.
\<close>

definition seen_by_proxy :: "segments_buffer \<Rightarrow> segments_buffer \<Rightarrow> segments_buffer \<Rightarrow> segments_buffer" where
  "seen_by_proxy b before after =
     after\<lparr>failed := failed b, notify := notify b @ drop (length (notify before)) (notify after)\<rparr>"

definition on_download :: "nat \<Rightarrow> running \<Rightarrow> parallel_download \<Rightarrow> whole_proxy \<Rightarrow> whole_proxy" where
  "on_download h d r w =
     w\<lparr>wp_system := on_fill h (seen_by_proxy (px_buffers (proxy_of (wp_system w)) ! h) (pd_buffer (rn_run d)) (pd_buffer r))
                      (wp_system w),
       wp_runs := (wp_runs w)(h \<mapsto> d\<lparr>rn_run := r\<rparr>)\<rparr>"

text \<open>What the handle of a download is joined with: its result, or that it panicked.\<close>

definition joins_with :: "running option \<Rightarrow> ((download_error + ftp_failure) + unit) option \<Rightarrow> bool" where
  "joins_with run ended \<longleftrightarrow>
     (case run of
        None \<Rightarrow> True
      | Some d \<Rightarrow> ended = None
          \<or> (\<exists>r. sv_phase (pd_sup (rn_run d)) = supervisor_phase.Returned r \<and> ended = Some (map_sum Inl id r)))"

text \<open>
  Steps that touch no download: arrivals, clients that go, the sweep and blitzctl. The name of a temporary
  file is a UUID, which has no slash in it.
\<close>

inductive whole_step :: "cache_env \<Rightarrow> (string \<Rightarrow> int option) \<Rightarrow> nat \<Rightarrow> whole_proxy \<Rightarrow> whole_proxy \<Rightarrow> bool"
  for env :: cache_env and parse_date :: "string \<Rightarrow> int option" and num :: nat where
  wp_request: "request_step env parse_date i (wp_system w) s \<Longrightarrow> pc_of i (wp_system w) \<noteq> Some Leading \<Longrightarrow>
     whole_step env parse_date num w (w\<lparr>wp_system := s\<rparr>)"
| wp_lead: "pc_of i (wp_system w) = Some Leading \<Longrightarrow> CHR ''/'' \<notin> set (rq_uuid obs) \<Longrightarrow>
     whole_step env parse_date num w (on_launch num obs ua up i w)"
| wp_download: "wp_runs w h = Some d \<Longrightarrow> par_step (rn_agent d) (rn_etag d) (rn_upstream d) num (rn_run d) r \<Longrightarrow>
     whole_step env parse_date num w (on_download h d r w)"
| wp_ftp: "wp_runs w h = None \<Longrightarrow> meta b = meta (px_buffers (proxy_of (wp_system w)) ! h) \<Longrightarrow>
     file_path b = file_path (px_buffers (proxy_of (wp_system w)) ! h) \<Longrightarrow>
     whole_step env parse_date num w (w\<lparr>wp_system := on_fill h b (wp_system w)\<rparr>)"
| wp_end: "j < length (ap_tasks (ps_app (wp_system w))) \<Longrightarrow>
     joins_with (wp_runs w (tk_buffer (ap_tasks (ps_app (wp_system w)) ! j))) ended \<Longrightarrow>
     on_task_end env obs j ended (wp_system w) = Some s \<Longrightarrow>
     whole_step env parse_date num w (w\<lparr>wp_system := s\<rparr>)"
| wp_rest: "other_step env (wp_system w) s \<Longrightarrow> ap_tasks (ps_app s) = ap_tasks (ps_app (wp_system w)) \<Longrightarrow>
     px_buffers (proxy_of s) = px_buffers (proxy_of (wp_system w)) \<Longrightarrow>
     whole_step env parse_date num w (w\<lparr>wp_system := s\<rparr>)"

inductive whole_reach :: "cache_env \<Rightarrow> (string \<Rightarrow> int option) \<Rightarrow> nat \<Rightarrow> app_state \<Rightarrow> whole_proxy \<Rightarrow> bool"
  for env :: cache_env and parse_date :: "string \<Rightarrow> int option" and num :: nat and a0 :: app_state where
  whole_init: "whole_reach env parse_date num a0 (start_whole a0)"
| whole_next: "whole_reach env parse_date num a0 w \<Longrightarrow> whole_step env parse_date num w w' \<Longrightarrow>
     whole_reach env parse_date num a0 w'"

subsection \<open>A download keeps its place\<close>

lemma worker_step_place:
  "worker_step ob pc b = (pc', b') \<Longrightarrow> meta b' = meta b \<and> file_path b' = file_path b \<and> failed b' = failed b"
proof (cases pc)
  case (Claiming p c)
  then show "worker_step ob pc b = (pc', b') \<Longrightarrow> meta b' = meta b \<and> file_path b' = file_path b \<and> failed b' = failed b"
    by (cases c) (auto simp: on_claim_def claim_load_def claim_cas_def claim_push_def Let_def split: if_splits option.splits)
qed (auto simp: worker_handlers mark_state_def mark_count_def split: option.splits if_splits)

lemma par_step_place:
  assumes "par_step ua etag up num d d'" "par_inv ua etag up num n d"
  shows "meta (pd_buffer d') = meta (pd_buffer d) \<and> file_path (pd_buffer d') = file_path (pd_buffer d)
    \<and> failed (pd_buffer d') = failed (pd_buffer d)"
  using assms(1)
proof (cases rule: par_step.cases)
  case (par_supervise s)
  have "tasks_ok num (pd_sup d) (pd_tasks d)" using assms(2) by (simp add: par_inv_def)
  then show ?thesis using supervise_tasks(2) [OF par_supervise(2)] par_supervise(1) by (simp add: pd_supervised_def)
next
  case (par_work i ob pc b)
  then show ?thesis using worker_step_place [OF par_work(5)] by (simp add: pd_worked_def)
next
  case (par_panic i)
  then show ?thesis by (simp add: pd_worked_def)
qed

text \<open>A download that has returned \<open>Ok\<close> does nothing more.\<close>

definition fetched :: "parallel_download \<Rightarrow> bytes \<Rightarrow> bool" where
  "fetched r x \<longleftrightarrow> sv_phase (pd_sup r) = supervisor_phase.Returned (Inr ()) \<and> dl_file (pd_buffer r) = x"

lemma fetched_rests:
  assumes "par_inv ua etag up num n d" "fetched d x"
  shows "\<not> par_step ua etag up num d d'"
proof
  assume "par_step ua etag up num d d'"
  moreover have "no_tasks (pd_sup d)"
    using assms by (auto simp: par_inv_def tasks_ok_def outcome_ok_def fetched_def)
  then have "\<forall>pc \<in> set (pd_tasks d). \<not> live pc" by (rule all_ended(1) [OF assms(1)])
  moreover have "\<not> may_panic pc" if "\<not> live pc" for pc using that by (cases pc) simp_all
  ultimately show False
    using assms(2) by (auto elim!: par_stepE superviseE simp: fetched_def)
qed

subsection \<open>Whose buffer, whose bytes\<close>

definition owns :: "(nat \<Rightarrow> running option) \<Rightarrow> nat \<Rightarrow> string \<Rightarrow> bool" where
  "owns runs h u \<longleftrightarrow> is_ftp u \<or> (\<exists>d. runs h = Some d \<and> rn_url d = u)"

text \<open>
  Bytes that may lie under a hash: those that the cache had there at the start, or those of a download that
  has succeeded, for a URL with this hash; of FTP nothing is said.
\<close>

definition good :: "cache_env \<Rightarrow> disk_cache \<Rightarrow> (nat \<Rightarrow> running option) \<Rightarrow> string \<Rightarrow> bytes \<Rightarrow> bool" where
  "good env c0 runs h x \<longleftrightarrow>
     (\<exists>u. hash_of env u = h \<and>
       (am_get (efile env (c_dir c0) u) (c_disk c0) = Some x \<or> is_ftp u
        \<or> (\<exists>k d. runs k = Some d \<and> rn_url d = u \<and> fetched (rn_run d) x)))"

definition runs_grow :: "(nat \<Rightarrow> running option) \<Rightarrow> (nat \<Rightarrow> running option) \<Rightarrow> bool" where
  "runs_grow runs runs' \<longleftrightarrow>
     (\<forall>h d. runs h = Some d \<longrightarrow> (\<exists>d'. runs' h = Some d' \<and> rn_url d' = rn_url d
        \<and> (\<forall>x. fetched (rn_run d) x \<longrightarrow> fetched (rn_run d') x)))"

lemma runs_refl [simp]: "runs_grow runs runs"
  by (simp add: runs_grow_def)

lemma runs_add: "runs h = None \<Longrightarrow> runs_grow runs (runs(h \<mapsto> d))"
  by (simp add: runs_grow_def)

lemma owns_mono: "owns runs h u \<Longrightarrow> runs_grow runs runs' \<Longrightarrow> owns runs' h u"
  unfolding owns_def runs_grow_def by blast

lemma good_mono: "good env c0 runs h x \<Longrightarrow> runs_grow runs runs' \<Longrightarrow> good env c0 runs' h x"
  unfolding good_def runs_grow_def by metis

text \<open>What a follower will be given: only a buffer of the URL that it waits for.\<close>

definition follows :: "(nat \<Rightarrow> running option) \<Rightarrow> nat coalescer \<Rightarrow> nat \<Rightarrow> string \<Rightarrow> bool" where
  "follows runs co rx u \<longleftrightarrow> rx < next_channel co
     \<and> (\<forall>v txs. am_get v (inflight co) = Some (Pending txs) \<longrightarrow> rx \<in> set txs \<longrightarrow> v = u)
     \<and> (\<forall>b. channels co rx = Sent b \<longrightarrow> owns runs b u)"

definition entries_owned :: "(nat \<Rightarrow> running option) \<Rightarrow> nat coalescer \<Rightarrow> bool" where
  "entries_owned runs co \<longleftrightarrow>
     co_inv co \<and> (\<forall>u b. am_get u (inflight co) = Some (In_download b) \<longrightarrow> owns runs b u)"

lemma follows_mono: "follows runs co rx u \<Longrightarrow> runs_grow runs runs' \<Longrightarrow> follows runs' co rx u"
  using owns_mono unfolding follows_def by blast

lemma entries_mono: "entries_owned runs co \<Longrightarrow> runs_grow runs runs' \<Longrightarrow> entries_owned runs' co"
  using owns_mono unfolding entries_owned_def by blast

lemma register_keeps:
  assumes "register v co = (r, co')" "entries_owned runs co"
  shows "entries_owned runs co'" and "follows runs co rx u \<Longrightarrow> follows runs co' rx u"
    and "r = Follower rx \<Longrightarrow> follows runs co' rx v" and "r = Follower_buffer b \<Longrightarrow> owns runs b v"
proof -
  have inv: "co_inv co'" using co_inv_register [of co v] assms by (simp add: entries_owned_def)
  show "entries_owned runs co'" using assms inv
    by (auto simp: register_def entries_owned_def Let_def split: if_splits option.splits inflight.splits)
  show "follows runs co rx u \<Longrightarrow> follows runs co' rx u" using assms(1)
    by (auto simp: register_def follows_def Let_def split: if_splits option.splits inflight.splits)
  show "r = Follower_buffer b \<Longrightarrow> owns runs b v" using assms
    by (auto simp: register_def entries_owned_def Let_def split: if_splits option.splits inflight.splits)
  show "follows runs co' rx v" if r: "r = Follower rx"
  proof -
    have rx: "rx = next_channel co" "next_channel co' = rx + 1" "channels co' rx = Open"
      "\<exists>txs. am_get v (inflight co') = Some (Pending txs) \<and> rx \<in> set txs"
      using assms(1) r by (auto simp: register_def Let_def split: if_splits option.splits inflight.splits)
    then have "w = v" if "am_get w (inflight co') = Some (Pending txs)" "rx \<in> set txs" for w txs
      using inv that unfolding co_inv_def by (metis pending_of.simps(1))
    then show ?thesis using rx by (auto simp: follows_def)
  qed
qed

lemma settle_keeps:
  assumes "co' = complete v co \<or> co' = fail v e co"
  shows "entries_owned runs co \<Longrightarrow> entries_owned runs co'" and "follows runs co rx u \<Longrightarrow> follows runs co' rx u"
proof -
  show "entries_owned runs co \<Longrightarrow> entries_owned runs co'"
    using assms co_inv_take [of co v]
    by (auto simp: entries_owned_def complete_def fail_def) (auto simp: take_entry_def split: if_splits)
  show "follows runs co rx u \<Longrightarrow> follows runs co' rx u"
    using assms by (auto simp: follows_def complete_def fail_def)
      (auto simp: take_entry_def send_all_def split: if_splits option.splits inflight.splits)
qed

lemma attach_keeps:
  assumes "entries_owned runs co" "owns runs h v"
  shows "entries_owned runs (attach_buffer v h co)" and "follows runs co rx u \<Longrightarrow> follows runs (attach_buffer v h co) rx u"
proof -
  show "entries_owned runs (attach_buffer v h co)"
    using assms co_inv_attach [of co v h]
    by (auto simp: entries_owned_def) (auto simp: attach_buffer_def split: if_splits option.splits inflight.splits)
  show "follows runs co rx u \<Longrightarrow> follows runs (attach_buffer v h co) rx u"
    using assms(2)
    by (auto simp: follows_def attach_buffer_def send_all_def split: if_splits option.splits inflight.splits) metis
qed

subsection \<open>The invariant\<close>

text \<open>A request: what it waits for, or what it was answered with.\<close>

definition request_true ::
    "cache_env \<Rightarrow> disk_cache \<Rightarrow> (nat \<Rightarrow> running option) \<Rightarrow> nat coalescer \<Rightarrow> request_proc \<Rightarrow> bool" where
  "request_true env c0 runs co rq \<longleftrightarrow>
     (case rp_pc rq of
        Awaiting rx n \<Rightarrow> follows runs co rx (rp_url rq)
      | Answered (Inr resp) \<Rightarrow>
          (case rs_body resp of
             Body_file x \<Rightarrow> good env c0 runs (hash_of env (rp_url rq)) x
           | Body_buffer h \<Rightarrow> owns runs h (rp_url rq)
           | _ \<Rightarrow> True)
      | _ \<Rightarrow> True)"

definition mirrors :: "segments_buffer \<Rightarrow> segments_buffer \<Rightarrow> bool" where
  "mirrors b r \<longleftrightarrow> b\<lparr>failed := failed r, notify := notify r\<rparr> = r"

lemma mirrors_fields:
  assumes "mirrors b r"
  shows "dl_file b = dl_file r" "segments b = segments r" "file_path b = file_path r" "meta b = meta r"
    "total_size b = total_size r"
proof -
  have r: "r = b\<lparr>failed := failed r, notify := notify r\<rparr>" using assms by (simp add: mirrors_def)
  show "dl_file b = dl_file r" "segments b = segments r" "file_path b = file_path r" "meta b = meta r"
    "total_size b = total_size r"
    by (subst r, simp)+
qed

lemma mirrors_simps [simp]:
  "mirrors b b" "mirrors (seen_by_proxy b before after) after" "mirrors (set_failed b) r = mirrors b r"
  by (simp_all add: mirrors_def seen_by_proxy_def set_failed_def)

definition run_true :: "nat \<Rightarrow> segments_buffer list \<Rightarrow> nat \<Rightarrow> running \<Rightarrow> bool" where
  "run_true num bs h d \<longleftrightarrow> h < length bs \<and> mirrors (bs ! h) (pd_buffer (rn_run d))
     \<and> par_reach (rn_agent d) (rn_etag d) (rn_upstream d) num (rn_size d) (rn_run d)"

definition app_true ::
    "cache_env \<Rightarrow> disk_cache \<Rightarrow> nat \<Rightarrow> (nat \<Rightarrow> running option) \<Rightarrow> app_state \<Rightarrow> bool" where
  "app_true env c0 num runs a \<longleftrightarrow>
     c_dir (px_cache (ap_proxy a)) = c_dir c0 \<and> ap_temp_dir a = join_path (c_dir c0) ''tmp''
     \<and> holds_only env (good env c0 runs) (px_cache (ap_proxy a))
     \<and> entries_owned runs (px_coalescer (ap_proxy a))
     \<and> (\<forall>b \<in> set (px_buffers (ap_proxy a)). temp_free env (c_dir c0) (resolve_path (file_path b)))
     \<and> (\<forall>h d. runs h = Some d \<longrightarrow> run_true num (px_buffers (ap_proxy a)) h d)
     \<and> (\<forall>tk \<in> set (ap_tasks a). owns runs (tk_buffer tk) (tk_url tk) \<and> tk_buffer tk < length (px_buffers (ap_proxy a)))"

definition whole_true :: "cache_env \<Rightarrow> disk_cache \<Rightarrow> nat \<Rightarrow> whole_proxy \<Rightarrow> bool" where
  "whole_true env c0 num w \<longleftrightarrow> app_true env c0 num (wp_runs w) (ps_app (wp_system w))
     \<and> (\<forall>rq \<in> set (ps_requests (wp_system w)). request_true env c0 (wp_runs w) (px_coalescer (proxy_of (wp_system w))) rq)"

text \<open>One request moves, or none; the others need what they wait for to be still theirs.\<close>

definition keeps_followers :: "(nat \<Rightarrow> running option) \<Rightarrow> nat coalescer \<Rightarrow> (nat \<Rightarrow> running option) \<Rightarrow> nat coalescer \<Rightarrow> bool" where
  "keeps_followers runs co runs' co' \<longleftrightarrow> runs_grow runs runs'
     \<and> (\<forall>rx u. follows runs co rx u \<longrightarrow> follows runs' co' rx u)"

lemma keeps_grow: "runs_grow runs runs' \<Longrightarrow> keeps_followers runs co runs' co"
  using follows_mono unfolding keeps_followers_def by blast

lemma keeps_refl [simp]: "keeps_followers runs co runs co"
  by (simp add: keeps_followers_def)

lemma request_true_mono:
  assumes "request_true env c0 runs co rq" "keeps_followers runs co runs' co'"
  shows "request_true env c0 runs' co' rq"
  using assms good_mono [of env c0 runs _ _ runs'] owns_mono [of runs _ _ runs']
  unfolding request_true_def keeps_followers_def
  by (auto split: request_pc.split sum.split body.split)

lemma whole_trueI:
  assumes "\<forall>rq \<in> set (ps_requests s). request_true env c0 runs (px_coalescer (proxy_of s)) rq"
    and "keeps_followers runs (px_coalescer (proxy_of s)) runs' (px_coalescer (proxy_of s'))"
    and "app_true env c0 num runs' (ps_app s')"
    and "\<And>rq. rq \<in> set (ps_requests s') \<Longrightarrow>
       rq \<in> set (ps_requests s) \<or> request_true env c0 runs' (px_coalescer (proxy_of s')) rq"
  shows "whole_true env c0 num \<lparr>wp_system = s', wp_runs = runs'\<rparr>"
proof -
  have "request_true env c0 runs' (px_coalescer (proxy_of s')) rq" if "rq \<in> set (ps_requests s')" for rq
    using assms(4) [OF that] assms(1) request_true_mono [OF _ assms(2)] by blast
  then show ?thesis using assms(3) by (simp add: whole_true_def)
qed

lemma set_app_same [simp]: "set_app (ps_app s) s = s"
  by (simp add: set_app_def)

lemma set_pc_requests: "rq \<in> set (ps_requests (set_pc i pc s)) \<Longrightarrow>
    rq \<in> set (ps_requests s) \<or> i < length (ps_requests s) \<and> rq = (ps_requests s ! i)\<lparr>rp_pc := pc\<rparr>"
  by (cases "i < length (ps_requests s)")
    (auto simp: set_pc_def list_update_beyond dest: set_update_subset_insert [THEN subsetD])

lemma true_limiter [simp]:
  "app_true env c0 num runs (a\<lparr>ap_limiter := l\<rparr>) = app_true env c0 num runs a"
  "app_true env c0 num runs (drop_permit p a) = app_true env c0 num runs a"
  by (simp_all add: app_true_def drop_permit_def)

lemma drop_permit_proxy [simp]: "ap_proxy (drop_permit p a) = ap_proxy a"
  by (simp add: drop_permit_def)

subsection \<open>The steps of a request keep it\<close>

text \<open>What an answer must be for request \<open>i\<close>, which then moves.\<close>

lemma moved_true:
  assumes "whole_true env c0 num \<lparr>wp_system = s, wp_runs = runs\<rparr>" "i < length (ps_requests s)"
    and "keeps_followers runs (px_coalescer (proxy_of s)) runs' (px_coalescer (ap_proxy a))" "app_true env c0 num runs' a"
    and "request_true env c0 runs' (px_coalescer (ap_proxy a)) ((ps_requests s ! i)\<lparr>rp_pc := pc\<rparr>)"
  shows "whole_true env c0 num \<lparr>wp_system = set_pc i pc (set_app a s), wp_runs = runs'\<rparr>"
proof (rule whole_trueI)
  show "\<forall>rq \<in> set (ps_requests s). request_true env c0 runs (px_coalescer (proxy_of s)) rq"
    using assms(1) by (simp add: whole_true_def)
  fix rq assume "rq \<in> set (ps_requests (set_pc i pc (set_app a s)))"
  then show "rq \<in> set (ps_requests s) \<or> request_true env c0 runs' (px_coalescer (proxy_of (set_pc i pc (set_app a s)))) rq"
    using set_pc_requests [of rq i pc "set_app a s"] assms(5) by auto
qed (use assms(3,4) in simp_all)

lemma answered_true:
  assumes "whole_true env c0 num \<lparr>wp_system = s, wp_runs = runs\<rparr>" "i < length (ps_requests s)"
    and "keeps_followers runs (px_coalescer (proxy_of s)) runs' (px_coalescer (ap_proxy a))" "app_true env c0 num runs' a"
    and "\<And>resp x. r = Inr resp \<Longrightarrow> rs_body resp = Body_file x \<Longrightarrow> good env c0 runs' (hash_of env (rp_url (ps_requests s ! i))) x"
    and "\<And>resp h. r = Inr resp \<Longrightarrow> rs_body resp = Body_buffer h \<Longrightarrow> owns runs' h (rp_url (ps_requests s ! i))"
  shows "whole_true env c0 num \<lparr>wp_system = answer_request i (r, a) s, wp_runs = runs'\<rparr>"
proof (cases r)
  case (Inl e)
  let ?a = "drop_permit (rp_permit (ps_requests s ! i)) a"
  have "whole_true env c0 num \<lparr>wp_system = set_pc i (Answered (Inl e)) (set_app ?a s), wp_runs = runs'\<rparr>"
    by (rule moved_true [OF assms(1,2)]) (use assms(3,4) in \<open>simp_all add: request_true_def\<close>)
  then show ?thesis using Inl by (simp add: answer_request_def with_permit_def)
next
  case (Inr resp)
  let ?r = "wrap_response_with_permit resp (rp_permit (ps_requests s ! i))"
  have "whole_true env c0 num \<lparr>wp_system = set_pc i (Answered (Inr ?r)) (set_app a s), wp_runs = runs'\<rparr>"
    by (rule moved_true [OF assms(1,2)])
      (use assms(3-6) Inr in \<open>simp_all add: request_true_def wrap_response_with_permit_def split: body.split\<close>)
  then show ?thesis using Inr by (simp add: answer_request_def with_permit_def)
qed

text \<open>The outcomes of the loop.\<close>

definition outcome_true :: "cache_env \<Rightarrow> disk_cache \<Rightarrow> (nat \<Rightarrow> running option) \<Rightarrow> string \<Rightarrow> disk_files
    \<Rightarrow> proxy_error + coalesce_outcome \<Rightarrow> bool" where
  "outcome_true env c0 runs url d r \<longleftrightarrow>
     (case r of
        Inr (Cached path hs) \<Rightarrow> (\<forall>x. am_get (resolve_path path) d = Some x \<longrightarrow> good env c0 runs (hash_of env url) x)
      | Inr (From_buffer h) \<Rightarrow> owns runs h url
      | _ \<Rightarrow> True)"

lemma delivered_true:
  assumes "whole_true env c0 num \<lparr>wp_system = s, wp_runs = runs\<rparr>" "i < length (ps_requests s)"
    and "outcome_true env c0 runs (rp_url (ps_requests s ! i)) (c_disk (px_cache (proxy_of s))) r"
  shows "whole_true env c0 num \<lparr>wp_system = deliver i r s, wp_runs = runs\<rparr>"
proof -
  have app: "app_true env c0 num runs (ps_app s)" using assms(1) by (simp add: whole_true_def)
  note ans = answered_true [OF assms(1,2) keeps_refl app]
  have 1: "whole_true env c0 num \<lparr>wp_system = answer_request i (Inl e, ps_app s) s, wp_runs = runs\<rparr>" for e
    by (rule ans) simp_all
  have "whole_true env c0 num \<lparr>wp_system = set_pc i Leading (set_app (ps_app s) s), wp_runs = runs\<rparr>"
    by (rule moved_true [OF assms(1,2)]) (simp_all add: app request_true_def)
  then have 2: "whole_true env c0 num \<lparr>wp_system = set_pc i Leading s, wp_runs = runs\<rparr>" by simp
  have 3: "whole_true env c0 num \<lparr>wp_system = answer_request i (serve_file path hs (c_disk (px_cache (proxy_of s))), ps_app s) s,
      wp_runs = runs\<rparr>" if "r = Inr (Cached path hs)" for path hs
    by (rule ans) (use assms(3) that in \<open>auto simp: outcome_true_def serve_file_def plain_response_def split: option.splits\<close>)
  have 4: "whole_true env c0 num \<lparr>wp_system = answer_request i (Inr resp, ps_app s) s, wp_runs = runs\<rparr>"
    if "r = Inr (From_buffer h)" "serve_from_buffer h (proxy_of s) = Some resp" for h resp
    by (rule ans) (use assms(3) that in \<open>auto simp: outcome_true_def serve_from_buffer_def plain_response_def split: option.splits\<close>)
  show ?thesis using assms(1) 1 2 3 4
    by (auto simp: deliver_def split: sum.split coalesce_outcome.split option.split)
qed

text \<open>The same request in another state of the cache or the registry.\<close>

lemma proxy_true:
  assumes "whole_true env c0 num \<lparr>wp_system = s, wp_runs = runs\<rparr>"
    and "keeps_followers runs (px_coalescer (proxy_of s)) runs (px_coalescer p)"
    and "app_true env c0 num runs ((ps_app s)\<lparr>ap_proxy := p\<rparr>)"
  shows "whole_true env c0 num \<lparr>wp_system = set_proxy p s, wp_runs = runs\<rparr>"
  by (rule whole_trueI [where s = s and runs = runs]) (use assms in \<open>simp_all add: whole_true_def set_proxy_alt\<close>)

lemma app_true_cache:
  assumes "app_true env c0 num runs a" "c_dir c = c_dir (px_cache (ap_proxy a))" "holds_only env (good env c0 runs) c"
  shows "app_true env c0 num runs (a\<lparr>ap_proxy := (ap_proxy a)\<lparr>px_cache := c\<rparr>\<rparr>)"
  using assms by (simp add: app_true_def)

lemma app_true_coalescer:
  assumes "app_true env c0 num runs a" "entries_owned runs co"
  shows "app_true env c0 num runs (a\<lparr>ap_proxy := (ap_proxy a)\<lparr>px_coalescer := co\<rparr>\<rparr>)"
  using assms by (simp add: app_true_def)

text \<open>What the first half of a turn does to the cache, and the path it may come back with.\<close>

lemma consult_shrinks:
  assumes "consult_cache env parse_date cfg url obs p = (r, p')"
  shows "\<exists>c. p' = p\<lparr>px_cache := c\<rparr> \<and> reduced c (px_cache p)
    \<and> (\<forall>path hs. r = Some (Inr (Cached path hs)) \<longrightarrow> c_disk c = c_disk (px_cache p)
        \<and> (\<exists>hs' at c1. lookup_entry env (to_unix obs) url (px_cache p) = (Some (path, hs', at), c1)))"
proof (cases "is_in_cooldown (to_instant obs) url (px_failures p)")
  case True
  then show ?thesis using assms by (intro exI [of _ "px_cache p"]) (auto simp: consult_cache_def)
next
  case False
  obtain f c1 where l: "lookup_entry env (to_unix obs) url (px_cache p) = (f, c1)" by fastforce
  note sh = lookup_shrinks [OF l]
  let ?fl = "to_faults obs"
  have ref: "reduced (snd (refresh env ?fl (to_unix obs) url hs c1)) (px_cache p)"
    "c_disk (snd (refresh env ?fl (to_unix obs) url hs c1)) = c_disk (px_cache p)" for hs
    using reduced_trans [OF refresh_shrinks] sh by (auto simp: refresh_def)
  show ?thesis
    using assms False l sh ref
    by (auto simp: consult_cache_def Let_def split: if_splits option.splits prod.splits revalidate.splits)
qed

lemma consult_true:
  assumes "whole_true env c0 num \<lparr>wp_system = s, wp_runs = runs\<rparr>" "pc_of i s = Some (Consulting n)" "hex_hash (hash_of env)"
  shows "whole_true env c0 num \<lparr>wp_system = on_consult env parse_date obs i n s, wp_runs = runs\<rparr>"
proof -
  have i: "i < length (ps_requests s)" using assms(2) by (simp add: pc_of_def split: if_splits)
  let ?p = "proxy_of s" and ?url = "rp_url (ps_requests s ! i)"
  have app: "app_true env c0 num runs (ps_app s)" using assms(1) by (simp add: whole_true_def)
  obtain x p where c: "consult_cache env parse_date (ap_flight (ps_app s)) ?url obs ?p = (x, p)" by fastforce
  obtain c1 where c1: "p = ?p\<lparr>px_cache := c1\<rparr>" "reduced c1 (px_cache ?p)"
    and found: "\<And>path hs. x = Some (Inr (Cached path hs)) \<Longrightarrow> c_disk c1 = c_disk (px_cache ?p)
        \<and> (\<exists>hs' at c2. lookup_entry env (to_unix obs) ?url (px_cache ?p) = (Some (path, hs', at), c2))"
    using consult_shrinks [OF c] by blast
  have holds: "holds_only env (good env c0 runs) (px_cache ?p)" "c_dir (px_cache ?p) = c_dir c0"
    using app by (simp_all add: app_true_def)
  have app': "app_true env c0 num runs ((ps_app s)\<lparr>ap_proxy := p\<rparr>)"
    unfolding c1(1) using app_true_cache [OF app] c1(2) holds_reduced [OF c1(2) holds(1)] by (simp add: reduced_def)
  have w: "whole_true env c0 num \<lparr>wp_system = set_proxy p s, wp_runs = runs\<rparr>"
    by (rule proxy_true [OF assms(1) _ app']) (simp add: c1(1))
  show ?thesis
  proof (cases x)
    case None
    have "whole_true env c0 num \<lparr>wp_system = set_pc i (Registering n) (set_app (ps_app (set_proxy p s)) (set_proxy p s)), wp_runs = runs\<rparr>"
      by (rule moved_true [OF w]) (use i app' in \<open>simp_all add: set_proxy_alt request_true_def\<close>)
    then show ?thesis using c None by (simp add: on_consult_def Let_def set_proxy_alt set_app_def)
  next
    case (Some r)
    have "outcome_true env c0 runs ?url (c_disk c1) r"
    proof (cases "\<exists>path hs. r = Inr (Cached path hs)")
      case True
      then obtain path hs where r: "r = Inr (Cached path hs)" by blast
      from found [of path hs] obtain hs' at c2 where disk: "c_disk c1 = c_disk (px_cache ?p)"
        and l: "lookup_entry env (to_unix obs) ?url (px_cache ?p) = (Some (path, hs', at), c2)" using Some r by blast
      have "keys_ok env (px_cache ?p)" using holds(1) by (simp add: holds_only_def)
      then have "resolve_path path = efile env (c_dir (px_cache ?p)) ?url" by (rule lookup_path [OF l assms(3)])
      then show ?thesis using holds r disk by (simp add: outcome_true_def holds_only_def)
    next
      case False
      then show ?thesis using consult_frames [OF c] Some
        by (auto simp: outcome_true_def split: sum.split coalesce_outcome.split)
    qed
    then have "whole_true env c0 num \<lparr>wp_system = deliver i r (set_proxy p s), wp_runs = runs\<rparr>"
      by (intro delivered_true [OF w]) (use i c1(1) in \<open>simp_all add: set_proxy_alt\<close>)
    then show ?thesis using c Some by (simp add: on_consult_def Let_def)
  qed
qed

lemma whole_overflow: "whole_true env c0 num \<lparr>wp_system = s\<lparr>ps_overflow := x\<rparr>, wp_runs = runs\<rparr>
    = whole_true env c0 num \<lparr>wp_system = s, wp_runs = runs\<rparr>"
  by (simp add: whole_true_def)

lemma register_true:
  assumes "whole_true env c0 num \<lparr>wp_system = s, wp_runs = runs\<rparr>" "pc_of i s = Some (Registering n)"
  shows "whole_true env c0 num \<lparr>wp_system = on_register i n s, wp_runs = runs\<rparr>"
proof -
  have i: "i < length (ps_requests s)" using assms(2) by (simp add: pc_of_def split: if_splits)
  let ?p = "proxy_of s" and ?url = "rp_url (ps_requests s ! i)"
  have app: "app_true env c0 num runs (ps_app s)" using assms(1) by (simp add: whole_true_def)
  obtain r co where reg: "register ?url (px_coalescer ?p) = (r, co)" by fastforce
  have ent: "entries_owned runs (px_coalescer ?p)" using app by (simp add: app_true_def)
  note k = register_keeps [OF reg ent]
  define s1 where "s1 = set_proxy (?p\<lparr>px_coalescer := co\<rparr>)
    (s\<lparr>ps_overflow := ps_overflow s \<or> MAX_INFLIGHT \<le> length (inflight (px_coalescer ?p))\<rparr>)"
  have same: "ps_requests s1 = ps_requests s" "ps_app s1 = (ps_app s)\<lparr>ap_proxy := ?p\<lparr>px_coalescer := co\<rparr>\<rparr>"
    by (simp_all add: s1_def set_proxy_alt)
  have app': "app_true env c0 num runs (ps_app s1)" unfolding same(2) by (rule app_true_coalescer [OF app k(1)])
  have w: "whole_true env c0 num \<lparr>wp_system = s1, wp_runs = runs\<rparr>"
    unfolding s1_def using whole_overflow assms(1) app' k(2)
    by (intro proxy_true) (simp_all add: keeps_followers_def same(2))
  have d: "whole_true env c0 num \<lparr>wp_system = deliver i x s1, wp_runs = runs\<rparr>"
    if "outcome_true env c0 runs ?url (c_disk (px_cache (proxy_of s1))) x" for x
    by (rule delivered_true [OF w]) (use i that same(1) in simp_all)
  show ?thesis
  proof (cases r)
    case Leader
    then show ?thesis using d [of "Inr Become_leader"] reg
      by (simp add: on_register_def Let_def s1_def outcome_true_def)
  next
    case (Follower_buffer b)
    then show ?thesis using d [of "Inr (From_buffer b)"] reg k(4)
      by (simp add: on_register_def Let_def s1_def outcome_true_def)
  next
    case (Follower rx)
    have "whole_true env c0 num \<lparr>wp_system = set_pc i (Awaiting rx n) (set_app (ps_app s1) s1), wp_runs = runs\<rparr>"
      by (rule moved_true [OF w]) (use i same app' k(3) Follower in \<open>simp_all add: request_true_def\<close>)
    then show ?thesis using Follower reg by (simp add: on_register_def Let_def s1_def)
  qed
qed

lemma wake_true:
  assumes "whole_true env c0 num \<lparr>wp_system = s, wp_runs = runs\<rparr>" "pc_of i s = Some (Awaiting rx n)"
  shows "whole_true env c0 num \<lparr>wp_system = on_wake i rx n s, wp_runs = runs\<rparr>"
proof -
  have i: "i < length (ps_requests s)" "rp_pc (ps_requests s ! i) = Awaiting rx n"
    using assms(2) by (auto simp: pc_of_def split: if_splits)
  have app: "app_true env c0 num runs (ps_app s)" using assms(1) by (simp add: whole_true_def)
  have "request_true env c0 runs (px_coalescer (proxy_of s)) (ps_requests s ! i)"
    using assms(1) i(1) by (simp add: whole_true_def)
  then have f: "follows runs (px_coalescer (proxy_of s)) rx (rp_url (ps_requests s ! i))" by (simp add: request_true_def i(2))
  note d = delivered_true [OF assms(1) i(1)]
  have e: "whole_true env c0 num \<lparr>wp_system = deliver i (Inl e) s, wp_runs = runs\<rparr>" for e
    by (rule d) (simp add: outcome_true_def)
  have b: "whole_true env c0 num \<lparr>wp_system = deliver i (Inr (From_buffer b)) s, wp_runs = runs\<rparr>"
    if "channels (px_coalescer (proxy_of s)) rx = Sent b" for b
    by (rule d) (use f that in \<open>simp add: outcome_true_def follows_def\<close>)
  have "whole_true env c0 num \<lparr>wp_system = set_pc i (Consulting (n + 1)) (set_app (ps_app s) s), wp_runs = runs\<rparr>"
    by (rule moved_true [OF assms(1) i(1) keeps_refl app]) (simp add: request_true_def)
  then show ?thesis using e b by (simp add: on_wake_def Let_def split: channel.split)
qed

subsection \<open>A leader keeps it\<close>

definition temp_name :: "app_state \<Rightarrow> request_obs \<Rightarrow> string" where
  "temp_name a obs = join_path (ap_temp_dir a) (rq_uuid obs @ ''.download'')"

lemma temp_name_free:
  assumes "CHR ''/'' \<notin> set (rq_uuid obs)" "ap_temp_dir a = join_path dir ''tmp''"
  shows "temp_free env dir (resolve_path (temp_name a obs))"
proof -
  let ?n = "rq_uuid obs @ ''.download''"
  have "length ?n > 2" by simp
  then have "?n \<noteq> []" "?n \<noteq> ''.''" "?n \<noteq> ''..''" by fastforce+
  moreover have "CHR ''/'' \<notin> set ?n" using assms(1) by simp
  ultimately have plain: "plain_name ?n" "plain_name ''tmp''" unfolding plain_name_def by auto
  have "\<not> starts_with ?n ''/''" "\<not> starts_with ''tmp'' ''/''"
    using plain_not_abs [OF plain(1), of "[]"] plain_not_abs [OF plain(2), of "[]"] by simp_all
  then have path: "resolve_path (temp_name a obs) = resolve_path dir @ [''tmp'', ?n]"
    using walk_plain [OF plain(1)] walk_plain [OF plain(2)] by (simp add: temp_name_def assms(2) resolve_join)
  have "take 2 h \<noteq> ''tmp''" for h :: string
  proof
    assume "take 2 h = ''tmp''"
    then have "length (take 2 h) = 3" by simp
    then show False by simp
  qed
  then show ?thesis unfolding path temp_free_def efile_def by (auto simp: eq_commute [of "''tmp''"])
qed

lemma lead_shape:
  assumes "lead_for obs url a = (r, a')"
  shows "(a' = a \<or> a' = settle url a \<or> a' = a\<lparr>ap_proxy := on_disk (am_insert (resolve_path (temp_name a obs)) []) (ap_proxy a)\<rparr>)
      \<and> (\<forall>resp. r = Inr resp \<longrightarrow> rs_body resp = Body_empty \<or> rs_body resp = Body_upstream)
    \<or> (\<exists>sz hs ftp. begin_download obs url sz hs ftp a = (r, a') \<and> rq_create_ok obs \<and> rq_alloc_ok obs)"
proof -
  consider "a' = a" "\<exists>e. r = Inl e"
    | "a' = settle url a" "\<forall>resp. r = Inr resp \<longrightarrow> rs_body resp = Body_empty \<or> rs_body resp = Body_upstream"
    | sz hs ftp where "begin_download obs url sz hs ftp a = (r, a')"
    using assms
    by (auto simp: lead_for_def lead_download_def lead_ftp_download_def plain_proxy_def plain_response_def Let_def
        split: if_splits option.splits sum.splits prod.splits)
  then show ?thesis
  proof cases
    case (3 sz hs ftp)
    then consider "rq_create_ok obs" "rq_alloc_ok obs" | "a' = a" "\<exists>e. r = Inl e"
      | "a' = a\<lparr>ap_proxy := on_disk (am_insert (resolve_path (temp_name a obs)) []) (ap_proxy a)\<rparr>" "\<exists>e. r = Inl e"
      by (auto simp: begin_download_def temp_name_def Let_def split: if_splits)
    then show ?thesis using 3 by cases auto
  qed auto
qed

lemma app_true_temp:
  assumes "app_true env c0 num runs a" "temp_free env (c_dir c0) p"
  shows "app_true env c0 num runs (a\<lparr>ap_proxy := on_disk (am_insert p x) (ap_proxy a)\<rparr>)"
  using assms holds_temp [of env "px_cache (ap_proxy a)" "p" "good env c0 runs" x] by (simp add: app_true_def on_disk_def)

lemma app_true_settle:
  assumes "app_true env c0 num runs a"
  shows "app_true env c0 num runs (settle url a)"
  using app_true_coalescer [OF assms, of "complete url (px_coalescer (ap_proxy a))"] settle_keeps(1) [of _ url _ _ runs] assms
  by (auto simp: settle_def app_true_def)

lemma pd_start_buffer [simp]: "pd_buffer (pd_start num b) = b"
  by (cases num) (simp_all add: pd_start_def start_download_def initial_worker_count_def spawn_one_worker_def)

lemma begin_true:
  assumes app: "app_true env c0 num runs a" and b: "begin_download obs url sz hs ftp a = (r, a')" "rq_create_ok obs" "rq_alloc_ok obs"
    and uuid: "CHR ''/'' \<notin> set (rq_uuid obs)"
    and h: "h = length (px_buffers (ap_proxy a))"
    and runs': "runs' = (if is_ftp url then runs else runs(h \<mapsto> d))"
    and d: "rn_url d = url" "rn_size d = total_size (px_buffers (ap_proxy a') ! h)"
      "rn_run d = pd_start num (px_buffers (ap_proxy a') ! h)"
  shows "app_true env c0 num runs' a'" and "keeps_followers runs (px_coalescer (ap_proxy a)) runs' (px_coalescer (ap_proxy a'))"
    and "r = Inr (plain_response 200 hs (Body_buffer h))" and "owns runs' h url" and "length (px_buffers (ap_proxy a')) \<noteq> h"
proof -
  let ?new = "set_meta 200 hs (new_buffer sz (replicate sz 0) (temp_name a obs))"
  let ?disk = "on_disk (am_insert (resolve_path (temp_name a obs)) (replicate sz 0)) (ap_proxy a)"
  let ?co = "px_coalescer (ap_proxy a)" and ?bs = "px_buffers (ap_proxy a)"
  have a': "a' = a\<lparr>ap_proxy := ?disk\<lparr>px_buffers := ?bs @ [?new], px_coalescer := attach_buffer url h ?co\<rparr>,
      ap_tasks := ap_tasks a @ [\<lparr>tk_url = url, tk_buffer = h, tk_headers = hs, tk_ftp = ftp\<rparr>]\<rparr>"
    and r: "r = Inr (plain_response 200 hs (Body_buffer h))"
    using b h by (auto simp: begin_download_def temp_name_def Let_def on_disk_def)
  then show "r = Inr (plain_response 200 hs (Body_buffer h))" "length (px_buffers (ap_proxy a')) \<noteq> h" by (simp_all add: h)
  have new: "px_buffers (ap_proxy a') ! h = ?new" by (simp add: a' h)
  have free: "temp_free env (c_dir c0) (resolve_path (temp_name a obs))"
    by (rule temp_name_free [OF uuid]) (use app in \<open>simp add: app_true_def\<close>)
  have none: "runs h = None" using app h by (cases "runs h") (auto simp: app_true_def run_true_def)
  have grow: "runs_grow runs runs'" using runs_add [of runs h d] none by (simp add: runs')
  show own: "owns runs' h url" by (simp add: runs' owns_def d)
  note temp = app_true_temp [OF app free, of "replicate sz 0"]
  have old: "entries_owned runs' ?co" using app entries_mono [OF _ grow] by (simp add: app_true_def)
  have co: "keeps_followers runs ?co runs' (attach_buffer url h ?co)" "entries_owned runs' (attach_buffer url h ?co)"
    using attach_keeps [OF old own] keeps_grow [OF grow, of ?co] by (auto simp: keeps_followers_def)
  then show "keeps_followers runs ?co runs' (px_coalescer (ap_proxy a'))" by (simp add: a')
  have "run_true num (?bs @ [?new]) h d'" if "runs' h = Some d'" for h d'
  proof (cases "runs h = Some d'")
    case True
    then have "run_true num ?bs h d'" using app by (simp add: app_true_def)
    then show ?thesis by (auto simp: run_true_def nth_append)
  next
    case False
    then have e: "h = length ?bs" "d' = d" using that h by (auto simp: runs' split: if_splits)
    have "par_reach (rn_agent d) (rn_etag d) (rn_upstream d) num sz (pd_start num ?new)"
      unfolding set_meta_def by (rule par_init) simp
    moreover have "total_size ?new = sz" by (simp add: set_meta_def new_buffer_def)
    ultimately show ?thesis using new h by (simp add: run_true_def e d)
  qed
  moreover have "holds_only env (good env c0 runs') (px_cache ?disk)"
    using temp holds_mono [of env "good env c0 runs" "px_cache ?disk" "good env c0 runs'"] good_mono [OF _ grow]
    by (simp add: app_true_def)
  moreover have "owns runs' (tk_buffer tk) (tk_url tk) \<and> tk_buffer tk < length ?bs + 1" if "tk \<in> set (ap_tasks a)" for tk
    using app owns_mono [OF _ grow] that by (auto simp: app_true_def)
  ultimately show "app_true env c0 num runs' a'"
    using temp app own co(2) free h
    by (auto simp: app_true_def a' on_disk_def) (simp add: set_meta_def new_buffer_def)
qed

lemma answer_proxy [simp]: "proxy_of (answer_request i (r, a) s) = ap_proxy a"
  by (simp add: answer_request_def with_permit_def split: sum.split)

lemma launch_true:
  assumes "whole_true env c0 num \<lparr>wp_system = s, wp_runs = runs\<rparr>" "pc_of i s = Some Leading"
    and uuid: "CHR ''/'' \<notin> set (rq_uuid obs)"
  shows "whole_true env c0 num (on_launch num obs ua up i \<lparr>wp_system = s, wp_runs = runs\<rparr>)"
proof -
  have i: "i < length (ps_requests s)" using assms(2) by (simp add: pc_of_def split: if_splits)
  let ?url = "rp_url (ps_requests s ! i)" and ?a = "ps_app s" and ?h = "length (px_buffers (proxy_of s))"
  have app: "app_true env c0 num runs ?a" using assms(1) by (simp add: whole_true_def)
  obtain r a where l: "lead_for obs ?url ?a = (r, a)" by fastforce
  then have on: "on_lead obs i s = answer_request i (r, a) s" by (simp add: on_lead_def)
  note ans = answered_true [OF assms(1) i]
  consider (quiet) "a = ?a \<or> a = settle ?url ?a \<or> a = ?a\<lparr>ap_proxy := on_disk (am_insert (resolve_path (temp_name ?a obs)) []) (proxy_of s)\<rparr>"
      "\<forall>resp. r = Inr resp \<longrightarrow> rs_body resp = Body_empty \<or> rs_body resp = Body_upstream"
    | (begins) sz hs ftp where "begin_download obs ?url sz hs ftp ?a = (r, a)" "rq_create_ok obs" "rq_alloc_ok obs"
    using lead_shape [OF l] by blast
  then show ?thesis
  proof cases
    case quiet
    have free: "temp_free env (c_dir c0) (resolve_path (temp_name ?a obs))"
      by (rule temp_name_free [OF uuid]) (use app in \<open>simp add: app_true_def\<close>)
    have "app_true env c0 num runs a" and bs: "px_buffers (ap_proxy a) = px_buffers (proxy_of s)"
      using quiet(1) app app_true_settle [OF app] app_true_temp [OF app free]
      by (auto simp: settle_def on_disk_def)
    moreover have "keeps_followers runs (px_coalescer (proxy_of s)) runs (px_coalescer (ap_proxy a))"
      using quiet(1) settle_keeps(2) [of "px_coalescer (ap_proxy a)" ?url "px_coalescer (proxy_of s)"]
      by (auto simp: keeps_followers_def settle_def on_disk_def)
    ultimately have "whole_true env c0 num \<lparr>wp_system = answer_request i (r, a) s, wp_runs = runs\<rparr>"
      by (intro ans) (use quiet(2) in force)+
    then show ?thesis using bs on by (simp add: on_launch_def Let_def)
  next
    case (begins sz hs ftp)
    let ?b = "px_buffers (ap_proxy a) ! ?h"
    let ?d = "\<lparr>rn_url = ?url, rn_agent = ua, rn_etag = etag_of_head obs, rn_upstream = up, rn_size = total_size ?b,
        rn_run = pd_start num ?b\<rparr>"
    let ?runs = "if is_ftp ?url then runs else runs(?h \<mapsto> ?d)"
    note t = begin_true [OF app begins uuid refl refl, of ?d]
    have "whole_true env c0 num \<lparr>wp_system = answer_request i (r, a) s, wp_runs = ?runs\<rparr>"
      by (rule ans) (use t in \<open>auto simp: plain_response_def\<close>)
    then show ?thesis using t(5) on by (cases "is_ftp ?url") (simp_all add: on_launch_def Let_def)
  qed
qed

subsection \<open>The downloads keep it\<close>

lemma buffers_true:
  assumes "whole_true env c0 num \<lparr>wp_system = s, wp_runs = runs\<rparr>" "runs_grow runs runs'"
    and "file_path b = file_path (px_buffers (proxy_of s) ! h)"
    and "\<And>k d. runs' k = Some d \<Longrightarrow> run_true num ((px_buffers (proxy_of s))[h := b]) k d"
  shows "whole_true env c0 num \<lparr>wp_system = on_fill h b s, wp_runs = runs'\<rparr>"
proof -
  let ?bs = "px_buffers (proxy_of s)"
  have app: "app_true env c0 num runs (ps_app s)" using assms(1) by (simp add: whole_true_def)
  have paths: "temp_free env (c_dir c0) (resolve_path (file_path b'))" if "b' \<in> set (?bs[h := b])" for b'
  proof (cases "h < length ?bs")
    case True
    then have "b' = b \<or> b' \<in> set ?bs" "?bs ! h \<in> set ?bs" using that set_update_subset_insert [of ?bs h b] by auto
    then show ?thesis using app assms(3) by (auto simp: app_true_def)
  next
    case False
    then show ?thesis using app that by (simp add: app_true_def list_update_beyond)
  qed
  have "holds_only env (good env c0 runs') (px_cache (proxy_of s))"
    using app holds_mono [of env "good env c0 runs" _ "good env c0 runs'"] good_mono [OF _ assms(2)] by (simp add: app_true_def)
  moreover have "entries_owned runs' (px_coalescer (proxy_of s))" using app entries_mono assms(2) by (auto simp: app_true_def)
  moreover have "owns runs' (tk_buffer tk) (tk_url tk)" if "tk \<in> set (ap_tasks (ps_app s))" for tk
    using app that owns_mono [OF _ assms(2)] by (auto simp: app_true_def)
  ultimately have "app_true env c0 num runs' (ps_app (on_fill h b s))"
    using app assms(4) paths by (simp add: app_true_def on_fill_def set_proxy_alt)
  then show ?thesis
    using assms(1) keeps_grow [OF assms(2)]
    by (intro whole_trueI [where s = s and runs = runs]) (auto simp: whole_true_def on_fill_def set_proxy_alt)
qed

lemma download_true:
  assumes "whole_true env c0 num \<lparr>wp_system = s, wp_runs = runs\<rparr>" "runs h = Some d"
    and step: "par_step (rn_agent d) (rn_etag d) (rn_upstream d) num (rn_run d) r"
  shows "whole_true env c0 num (on_download h d r \<lparr>wp_system = s, wp_runs = runs\<rparr>)"
proof -
  let ?bs = "px_buffers (proxy_of s)" and ?d = "d\<lparr>rn_run := r\<rparr>"
  have all: "run_true num ?bs k e" if "runs k = Some e" for k e
    using assms(1) that by (simp add: whole_true_def app_true_def)
  note d = all [OF assms(2), unfolded run_true_def]
  have inv: "par_inv (rn_agent d) (rn_etag d) (rn_upstream d) num (rn_size d) (rn_run d)" using d par_reach_inv by blast
  have reach: "par_reach (rn_agent d) (rn_etag d) (rn_upstream d) num (rn_size d) r" using d step par_next by blast
  have x: "file_path (?bs ! h) = file_path (pd_buffer (rn_run d))" using d mirrors_fields by blast
  let ?b = "seen_by_proxy (?bs ! h) (pd_buffer (rn_run d)) (pd_buffer r)"
  have "\<not> fetched (rn_run d) y" for y using fetched_rests [OF inv] step by blast
  then have "runs_grow runs (runs(h \<mapsto> ?d))" using assms(2) by (auto simp: runs_grow_def)
  then have "whole_true env c0 num \<lparr>wp_system = on_fill h ?b s, wp_runs = runs(h \<mapsto> ?d)\<rparr>"
  proof (rule buffers_true [OF assms(1)])
    show "file_path ?b = file_path (?bs ! h)"
      using par_step_place [OF step inv] x by (simp add: seen_by_proxy_def)
    fix k e assume "(runs(h \<mapsto> ?d)) k = Some e"
    then show "run_true num (?bs[h := ?b]) k e"
      using all [of k e] d reach by (cases "k = h") (auto simp: run_true_def)
  qed
  then show ?thesis by (simp add: on_download_def)
qed

lemma ftp_true:
  assumes "whole_true env c0 num \<lparr>wp_system = s, wp_runs = runs\<rparr>" "runs h = None"
    and "file_path b = file_path (px_buffers (proxy_of s) ! h)"
  shows "whole_true env c0 num \<lparr>wp_system = on_fill h b s, wp_runs = runs\<rparr>"
proof (rule buffers_true [OF assms(1) runs_refl assms(3)])
  fix k d assume "runs k = Some d"
  then show "run_true num ((px_buffers (proxy_of s))[h := b]) k d"
    using assms(1,2) by (cases "k = h") (auto simp: whole_true_def app_true_def run_true_def)
qed

subsection \<open>The end of a download keeps it\<close>

text \<open>Of a successful download the temporary file goes to the cache; in all other cases it is removed.\<close>

lemma persist_holds:
  assumes "persist_download env etag_changed_for obs url h headers ended p = Some p'" "hex_hash (hash_of env)"
    and "holds_only env gd (px_cache p)" "temp_free env (c_dir (px_cache p)) (resolve_path (file_path (px_buffers p ! h)))"
    and "\<And>u. ended = Some (Inr u) \<Longrightarrow> gd (hash_of env url) (dl_file (px_buffers p ! h))"
  shows "holds_only env gd (px_cache p') \<and> c_dir (px_cache p') = c_dir (px_cache p)"
proof -
  let ?c = "px_cache p" and ?b = "px_buffers p ! h" and ?flt = "po_faults obs"
  define ok where "ok c \<longleftrightarrow> holds_only env gd c \<and> c_dir c = c_dir ?c" for c
  have gone: "ok (c\<lparr>c_disk := remove_file ?flt path (c_disk c)\<rparr>)" if "ok c" for c path
    using that holds_dropped [of "remove_file ?flt path (c_disk c)" c] by (simp add: ok_def remove_file_def)
  have start: "ok ?c" using assms(3) by (simp add: ok_def)
  show ?thesis
  proof (cases "\<exists>u. ended = Some (Inr u) \<and> po_sync_ok obs")
    case False
    then have "ok (px_cache p')"
      using assms(1) gone [OF start]
      by (auto simp: persist_download_def Let_def drop_download_def fail_flight_def on_disk_def note_failure_def
          fail_buffer_def split: option.splits sum.splits if_splits)
    then show ?thesis by (simp add: ok_def)
  next
    case True
    then obtain u where u: "ended = Some (Inr u)" "po_sync_ok obs" by blast
    let ?d = "flush_file ?b (c_disk ?c)" and ?p = "resolve_path (file_path ?b)"
    let ?c2 = "?c\<lparr>c_disk := ?d\<rparr>"
    have "holds_only env gd ?c2"
      using holds_temp [OF assms(4,3)] assms(3) by (simp add: flush_file_def Let_def split: option.split)
    then have flushed: "ok ?c2" by (simp add: ok_def)
    have temp: "gd (hash_of env url) x" if "am_get ?p (c_disk ?c2) = Some x" for x
      using assms(5) [OF u(1)] that by (auto simp: flush_file_def Let_def split: option.splits)
    have stored: "ok c" if "store env ?flt (po_unix obs) url (file_path ?b) headers ?c2 = Some (r, c)" for r c
    proof -
      have "holds_only env gd c \<and> c_dir c = c_dir ?c2"
        by (rule store_holds [OF that assms(2)]) (use flushed temp in \<open>simp_all add: ok_def\<close>)
      then show ?thesis by (simp add: ok_def)
    qed
    have "ok (px_cache p')"
    proof (cases "is_xz_url url \<and> \<not> po_xz_test obs (dl_file ?b)")
      case True
      then show ?thesis using assms(1) u gone [OF flushed]
        by (auto simp: persist_download_def Let_def drop_download_def fail_flight_def on_disk_def note_failure_def fail_buffer_def)
    next
      case False
      have run: "(case store env ?flt (po_unix obs) url (file_path ?b) headers ?c2 of
            None \<Rightarrow> None
          | Some (Inl _, c) \<Rightarrow> Some (px_cache (drop_download ?flt url h False (p\<lparr>px_cache := c\<rparr>)))
          | Some (Inr _, c) \<Rightarrow> Some c) = Some (px_cache p')"
        using assms(1) u False
        by (auto simp: persist_download_def Let_def drop_download_def fail_flight_def on_disk_def
            split: option.splits prod.splits sum.splits)
      then show ?thesis using stored gone
        by (auto simp: drop_download_def fail_flight_def on_disk_def split: option.splits prod.splits sum.splits) metis
    qed
    then show ?thesis by (simp add: ok_def)
  qed
qed

lemma end_true:
  assumes w: "whole_true env c0 num \<lparr>wp_system = s, wp_runs = runs\<rparr>" and hex: "hex_hash (hash_of env)"
    and j: "j < length (ap_tasks (ps_app s))" and joins: "joins_with (runs (tk_buffer (ap_tasks (ps_app s) ! j))) ended"
    and run: "on_task_end env obs j ended s = Some s'"
  shows "whole_true env c0 num \<lparr>wp_system = s', wp_runs = runs\<rparr>"
proof -
  let ?p = "proxy_of s" and ?a = "ps_app s"
  define tk where "tk = ap_tasks ?a ! j"
  have app: "app_true env c0 num runs ?a" using w by (simp add: whole_true_def)
  have "tk \<in> set (ap_tasks ?a)" using j by (simp add: tk_def)
  then have own: "owns runs (tk_buffer tk) (tk_url tk)" "tk_buffer tk < length (px_buffers ?p)"
    using app by (auto simp: app_true_def)
  obtain p where p: "persist_download env task_etag_changed obs (tk_url tk) (tk_buffer tk) (tk_headers tk) ended ?p = Some p"
    and s': "s' = set_app (?a\<lparr>ap_proxy := p, ap_tasks := drop_nth j (ap_tasks ?a)\<rparr>) s"
    using run by (auto simp: on_task_end_def Let_def tk_def)
  have holds: "holds_only env (good env c0 runs) (px_cache p) \<and> c_dir (px_cache p) = c_dir (px_cache ?p)"
  proof (rule persist_holds [OF p hex])
    show "holds_only env (good env c0 runs) (px_cache ?p)"
      "temp_free env (c_dir (px_cache ?p)) (resolve_path (file_path (px_buffers ?p ! tk_buffer tk)))"
      using app own(2) by (simp_all add: app_true_def)
    fix u assume e: "ended = Some (Inr u)"
    show "good env c0 runs (hash_of env (tk_url tk)) (dl_file (px_buffers ?p ! tk_buffer tk))"
    proof (cases "is_ftp (tk_url tk)")
      case True
      then show ?thesis by (auto simp: good_def)
    next
      case False
      then obtain d where d: "runs (tk_buffer tk) = Some d" "rn_url d = tk_url tk" using own(1) by (auto simp: owns_def)
      obtain r where "sv_phase (pd_sup (rn_run d)) = supervisor_phase.Returned r" "ended = Some (map_sum Inl id r)"
        using joins d(1) e by (auto simp: joins_with_def tk_def)
      then have "sv_phase (pd_sup (rn_run d)) = supervisor_phase.Returned (Inr ())" using e by (cases r) simp_all
      moreover have "run_true num (px_buffers ?p) (tk_buffer tk) d" using app d(1) by (simp add: app_true_def)
      ultimately have "fetched (rn_run d) (dl_file (px_buffers ?p ! tk_buffer tk))"
        by (auto simp: run_true_def fetched_def mirrors_fields(1))
      then show ?thesis using d by (auto simp: good_def)
    qed
  qed
  have keeps: "entries_owned runs (px_coalescer p)" "keeps_followers runs (px_coalescer ?p) runs (px_coalescer p)"
    using persist_changes [OF p] settle_keeps [of "px_coalescer p" "tk_url tk" "px_coalescer ?p" _ runs] app
    by (auto simp: app_true_def keeps_followers_def)
  have bufs: "px_buffers p = px_buffers ?p \<or> px_buffers p = (px_buffers ?p)[tk_buffer tk := set_failed (px_buffers ?p ! tk_buffer tk)]"
    using persist_changes [OF p] by (simp add: fail_buffer_def)
  have "b \<in> set (px_buffers ?p) \<or> b = set_failed (px_buffers ?p ! tk_buffer tk)" if "b \<in> set (px_buffers p)" for b
    using bufs that by (auto dest: set_update_subset_insert [THEN subsetD])
  moreover have "file_path (set_failed (px_buffers ?p ! tk_buffer tk)) = file_path (px_buffers ?p ! tk_buffer tk)"
    "px_buffers ?p ! tk_buffer tk \<in> set (px_buffers ?p)" using own(2) by (simp_all add: set_failed_def)
  ultimately have "\<forall>b \<in> set (px_buffers p). temp_free env (c_dir c0) (resolve_path (file_path b))"
    using app unfolding app_true_def by metis
  moreover have "run_true num (px_buffers p) h d" if "runs h = Some d" for h d
  proof -
    have "run_true num (px_buffers ?p) h d" using app that by (simp add: app_true_def)
    then show ?thesis using bufs by (cases "h = tk_buffer tk") (auto simp: run_true_def)
  qed
  moreover have "length (px_buffers p) = length (px_buffers ?p)" using bufs by auto
  moreover have "set (drop_nth j (ap_tasks ?a)) \<subseteq> set (ap_tasks ?a)"
    using set_take_subset set_drop_subset by (fastforce simp: drop_nth_def)
  ultimately have "app_true env c0 num runs (?a\<lparr>ap_proxy := p, ap_tasks := drop_nth j (ap_tasks ?a)\<rparr>)"
    using app holds keeps(1) by (auto simp: app_true_def)
  then show ?thesis using w keeps(2)
    by (intro whole_trueI [where s = s and runs = runs]) (simp_all add: s' whole_true_def)
qed

lemma rest_true:
  assumes w: "whole_true env c0 num \<lparr>wp_system = s, wp_runs = runs\<rparr>" and step: "other_step env s s'"
    and same: "ap_tasks (ps_app s') = ap_tasks (ps_app s)" "px_buffers (proxy_of s') = px_buffers (proxy_of s)"
  shows "whole_true env c0 num \<lparr>wp_system = s', wp_runs = runs\<rparr>"
proof -
  have app: "app_true env c0 num runs (ps_app s)" using w by (simp add: whole_true_def)
  have tool: "whole_true env c0 num \<lparr>wp_system = on_tool f s, wp_runs = runs\<rparr>" if "\<And>c. reduced (f c) c" for f
  proof -
    let ?c = "px_cache (proxy_of s)"
    let ?c' = "(f (?c\<lparr>c_poisoned := False\<rparr>))\<lparr>c_poisoned := c_poisoned ?c\<rparr>"
    have sh: "reduced ?c' ?c" using that [of "?c\<lparr>c_poisoned := False\<rparr>"] by (simp add: reduced_def)
    have "holds_only env (good env c0 runs) ?c'"
      by (rule holds_reduced [OF sh]) (use app in \<open>simp add: app_true_def\<close>)
    then have "app_true env c0 num runs ((ps_app s)\<lparr>ap_proxy := (proxy_of s)\<lparr>px_cache := ?c'\<rparr>\<rparr>)"
      using sh by (intro app_true_cache [OF app]) (simp_all add: reduced_def)
    then show ?thesis unfolding on_tool_def Let_def by (intro proxy_true [OF w]) simp_all
  qed
  have drop: "whole_true env c0 num \<lparr>wp_system = on_drop i s, wp_runs = runs\<rparr>" if "pc_of i s = Some pc" for i pc
    unfolding on_drop_def
    using app that by (intro moved_true [OF w]) (simp_all add: pc_of_def request_true_def split: if_splits)
  from step show ?thesis
  proof (cases rule: other_step.cases)
    case (ot_arrival ip now clock url)
    obtain r l where "acquire ip now clock (ap_limiter (ps_app s)) = (r, l)" by fastforce
    then show ?thesis using w app ot_arrival
      by (intro whole_trueI [where s = s and runs = runs])
        (auto simp: whole_true_def on_arrival_def Let_def request_true_def split: option.splits)
  next
    case (ot_task_end j obs ended)
    then have "length (ap_tasks (ps_app s')) = length (ap_tasks (ps_app s)) - 1"
      by (auto simp: on_task_end_def Let_def drop_nth_def)
    then show ?thesis using same(1) ot_task_end(1) by simp
  next
    case (ot_fill b h)
    then have "s' = s" using same(2) by (simp add: on_fill_def set_proxy_alt set_app_def)
    then show ?thesis using w by simp
  next
    case (ot_sweep now)
    then show ?thesis using w app
      by (intro whole_trueI [where s = s and runs = runs]) (auto simp: whole_true_def on_sweep_def)
  qed (use tool tool_shrinks drop in auto)
qed

text \<open>The start: nothing registered, no buffer and no task, and rows that lead to the files of their hashes.\<close>

definition fresh_app :: "cache_env \<Rightarrow> app_state \<Rightarrow> bool" where
  "fresh_app env a \<longleftrightarrow> keys_ok env (px_cache (ap_proxy a)) \<and> ap_temp_dir a = join_path (c_dir (px_cache (ap_proxy a))) ''tmp''
     \<and> px_coalescer (ap_proxy a) = new_coalescer \<and> px_buffers (ap_proxy a) = [] \<and> ap_tasks a = []"

lemma configured_fresh:
  "keys_ok env (new_cache (cfg_cache_dir cfg) (cfg_max_cache_size cfg) db disk) \<Longrightarrow> fresh_app env (from_config cfg db disk clock)"
  by (simp add: fresh_app_def from_config_def new_cache_def Let_def)

lemma start_true: "fresh_app env a \<Longrightarrow> whole_true env (px_cache (ap_proxy a)) num (start_whole a)"
  using co_inv_new
  by (auto simp: fresh_app_def whole_true_def start_whole_def start_system_def app_true_def holds_only_def good_def
      entries_owned_def new_coalescer_def)

lemma whole_step_true:
  assumes "whole_step env parse_date num w w'" "whole_true env c0 num w" "hex_hash (hash_of env)"
  shows "whole_true env c0 num w'"
proof -
  obtain s runs where w: "w = \<lparr>wp_system = s, wp_runs = runs\<rparr>" by (cases w) auto
  note t = assms(2) [unfolded w]
  from assms(1) show ?thesis
  proof (cases rule: whole_step.cases)
    case (wp_request i s')
    from wp_request(2) show ?thesis
      by (rule request_stepE)
        (use t wp_request(1,3) assms(3) consult_true register_true wake_true in \<open>auto simp: w\<close>)
  next
    case (wp_lead i obs ua up)
    then show ?thesis using launch_true [OF t] by (simp add: w)
  next
    case (wp_download h d r)
    then show ?thesis using download_true [OF t] by (simp add: w)
  next
    case (wp_ftp h b)
    then show ?thesis using ftp_true [OF t] by (simp add: w)
  next
    case (wp_end j ended obs s')
    then show ?thesis using end_true [OF t assms(3)] by (simp add: w)
  next
    case (wp_rest s')
    then show ?thesis using rest_true [OF t] by (simp add: w)
  qed
qed

lemma whole_reach_true:
  assumes "whole_reach env parse_date num a0 w" "fresh_app env a0" "hex_hash (hash_of env)"
  shows "whole_true env (px_cache (ap_proxy a0)) num w"
  using assms(1) by (induction rule: whole_reach.induct) (use start_true [OF assms(2)] whole_step_true assms(3) in blast)+

text \<open>So the proxy with its downloads is one of the systems of the theory Proxy\_System.\<close>

lemma whole_step_system:
  assumes "whole_step env parse_date num w w'" "whole_true env c0 num w"
  shows "(\<exists>i. request_step env parse_date i (wp_system w) (wp_system w')) \<or> other_step env (wp_system w) (wp_system w')"
  using assms(1)
proof (cases rule: whole_step.cases)
  case (wp_lead i obs ua up)
  then show ?thesis using rq_lead [of i "wp_system w" env parse_date obs] by (auto simp: on_launch_def Let_def)
next
  case (wp_download h d r)
  then have "run_true num (px_buffers (proxy_of (wp_system w))) h d" using assms(2) by (simp add: whole_true_def app_true_def)
  then have "meta (pd_buffer r) = meta (px_buffers (proxy_of (wp_system w)) ! h)"
    using par_step_place [OF wp_download(3) par_reach_inv] by (auto simp: run_true_def mirrors_fields(4))
  then show ?thesis using wp_download(1) ot_fill by (simp add: on_download_def seen_by_proxy_def)
qed (auto intro: ot_fill ot_task_end)

lemma whole_reach_system:
  assumes "whole_reach env parse_date num a0 w" "fresh_app env a0" "hex_hash (hash_of env)"
  shows "system_reach env parse_date a0 (wp_system w)"
  using assms(1)
proof (induction rule: whole_reach.induct)
  case whole_init
  then show ?case by (simp add: start_whole_def sys_start)
next
  case (whole_next w w')
  then show ?case
    using whole_step_system [OF whole_next.hyps(2) whole_reach_true [OF whole_next.hyps(1) assms(2,3)]]
      sys_request sys_other by blast
qed

end
