(* ===== verification/End_To_End.thy ===== *)
theory End_To_End
  imports Whole_Proxy Parallel_Stream
begin

text \<open>
  What a client of the whole proxy is given: the results of the theory Whole\_Proxy on the requests and
  those of Parallel\_Results on the downloads, put together.
\<close>

text \<open>All accepted answers to a download come from one version of the file, the bytes \<open>F\<close>.\<close>

definition version_served :: "running \<Rightarrow> bytes \<Rightarrow> bool" where
  "version_served d F \<longleftrightarrow> length F = rn_size d \<and> upstream_serves (rn_agent d) (rn_etag d) F (rn_upstream d)"

lemma run_reached: "run_true num bs h d \<Longrightarrow> version_served d F \<Longrightarrow>
    par_reach (rn_agent d) (rn_etag d) (rn_upstream d) num (length F) (rn_run d)"
  by (simp add: run_true_def version_served_def)

text \<open>
  C1. A body that is read from the cache is the file of the upstream: whatever requests, downloads with
  their workers, departing clients, faults of the disk and of the database, and commands of blitzctl have come
  in whatever order, the bytes of a request that is answered from the cache are those that the cache
  had for this URL when the proxy started, or all the bytes of the version that the upstream served to
  a download of this URL, never a part of them and never those of another URL; as far as URLs with the
  same hash are the same.
\<close>

theorem cached_answers_genuine:
  assumes "whole_reach env parse_date num a0 w" and "fresh_app env a0" and "hex_hash (hash_of env)"
    and "rq \<in> set (ps_requests (wp_system w))" and "rp_pc rq = Answered (Inr resp)" and "rs_body resp = Body_file x"
    and "\<forall>u. hash_of env u = hash_of env (rp_url rq) \<longrightarrow> \<not> is_ftp u"
  shows "am_get (efile env (c_dir (px_cache (ap_proxy a0))) (rp_url rq)) (c_disk (px_cache (ap_proxy a0))) = Some x
    \<or> (\<exists>h d. wp_runs w h = Some d \<and> hash_of env (rn_url d) = hash_of env (rp_url rq)
        \<and> (\<forall>F. version_served d F \<longrightarrow> x = F))"
proof -
  let ?c = "px_cache (ap_proxy a0)"
  have t: "whole_true env ?c num w" by (rule whole_reach_true [OF assms(1-3)])
  then have "request_true env ?c (wp_runs w) (px_coalescer (proxy_of (wp_system w))) rq"
    using assms(4) by (simp add: whole_true_def)
  then have "good env ?c (wp_runs w) (hash_of env (rp_url rq)) x" by (simp add: request_true_def assms(5,6))
  then obtain u where u: "hash_of env u = hash_of env (rp_url rq)"
    and from_where: "am_get (efile env (c_dir ?c) u) (c_disk ?c) = Some x
      \<or> (\<exists>h d. wp_runs w h = Some d \<and> rn_url d = u \<and> fetched (rn_run d) x)"
    using assms(7) by (auto simp: good_def)
  have "x = F" if d: "wp_runs w h = Some d" "fetched (rn_run d) x" and F: "version_served d F" for h d F
  proof -
    have "run_true num (px_buffers (proxy_of (wp_system w))) h d" using t d(1) by (simp add: whole_true_def app_true_def)
    from returned_file [OF run_reached [OF this F]] show ?thesis
      using F d(2) by (simp add: version_served_def fetched_def)
  qed
  moreover have "efile env (c_dir ?c) u = efile env (c_dir ?c) (rp_url rq)" using u by (simp add: efile_eq)
  ultimately show ?thesis using from_where u by metis
qed

text \<open>
  C2. A body that is streamed from a buffer is that of the right download: in every such run, the buffer
  that a leader or follower was given is filled by a download of the URL of the request, and each of its
  ready segments has the bytes of the version that the upstream serves to this download.
\<close>

theorem streamed_answers_genuine:
  assumes "whole_reach env parse_date num a0 w" and "fresh_app env a0" and "hex_hash (hash_of env)"
    and "rq \<in> set (ps_requests (wp_system w))" and "rp_pc rq = Answered (Inr resp)" and "rs_body resp = Body_buffer h"
    and "\<not> is_ftp (rp_url rq)" and "b = px_buffers (proxy_of (wp_system w)) ! h"
  shows "\<exists>d. wp_runs w h = Some d \<and> rn_url d = rp_url rq
    \<and> (\<forall>F i. version_served d F \<longrightarrow> is_ready i b \<longrightarrow>
         pread (dl_file b) (segment_start i b) (segment_end i b - segment_start i b)
         = pread F (segment_start i b) (segment_end i b - segment_start i b))"
proof -
  let ?c = "px_cache (ap_proxy a0)"
  have t: "whole_true env ?c num w" by (rule whole_reach_true [OF assms(1-3)])
  then have "request_true env ?c (wp_runs w) (px_coalescer (proxy_of (wp_system w))) rq"
    using assms(4) by (simp add: whole_true_def)
  then have "owns (wp_runs w) h (rp_url rq)" by (simp add: request_true_def assms(5,6))
  then obtain d where d: "wp_runs w h = Some d" "rn_url d = rp_url rq" using assms(7) by (auto simp: owns_def)
  have run: "run_true num (px_buffers (proxy_of (wp_system w))) h d" using t d(1) by (simp add: whole_true_def app_true_def)
  then have "mirrors b (pd_buffer (rn_run d))" by (simp add: run_true_def assms(8))
  note same = mirrors_fields(1,2,5) [OF this]
  have seg: "is_ready i b = is_ready i (pd_buffer (rn_run d))" "segment_start i b = segment_start i (pd_buffer (rn_run d))"
    "segment_end i b = segment_end i (pd_buffer (rn_run d))" for i
    by (simp_all add: is_ready_def segment_start_def segment_end_def same)
  have "pread (dl_file b) (segment_start i b) (segment_end i b - segment_start i b)
      = pread F (segment_start i b) (segment_end i b - segment_start i b)" if "version_served d F" "is_ready i b" for F i
    using ready_bytes [OF run_reached [OF run that(1)]] that unfolding seg same(1) by (simp add: version_served_def)
  then show ?thesis using d by blast
qed

subsection \<open>A run from the first request to the answer from the cache\<close>

text \<open>The steps of one download as steps of the whole proxy, in which nothing but its buffer changes.\<close>

lemma download_runs:
  assumes "(par_step (rn_agent d) (rn_etag d) (rn_upstream d) num)\<^sup>*\<^sup>* (rn_run d) r" "wp_runs w h = Some d"
  shows "\<exists>bs. (whole_step env parse_date num)\<^sup>*\<^sup>* w
      \<lparr>wp_system = set_proxy ((proxy_of (wp_system w))\<lparr>px_buffers := bs\<rparr>) (wp_system w), wp_runs = (wp_runs w)(h \<mapsto> d\<lparr>rn_run := r\<rparr>)\<rparr>"
  using assms(1)
proof (induction rule: rtranclp_induct)
  case base
  have "(wp_runs w)(h \<mapsto> d) = wp_runs w" using assms(2) by auto
  then show ?case
    by (intro exI [of _ "px_buffers (proxy_of (wp_system w))"], cases w) (simp add: set_proxy_alt)
next
  case (step r1 r2)
  then obtain bs where bs: "(whole_step env parse_date num)\<^sup>*\<^sup>* w
      \<lparr>wp_system = set_proxy ((proxy_of (wp_system w))\<lparr>px_buffers := bs\<rparr>) (wp_system w), wp_runs = (wp_runs w)(h \<mapsto> d\<lparr>rn_run := r1\<rparr>)\<rparr>"
    (is "_\<^sup>*\<^sup>* w ?w1") by blast
  have "whole_step env parse_date num ?w1 (on_download h (d\<lparr>rn_run := r1\<rparr>) r2 ?w1)"
    by (rule wp_download) (use step.hyps(2) in simp_all)
  moreover have "\<exists>bs'. on_download h (d\<lparr>rn_run := r1\<rparr>) r2 ?w1
      = \<lparr>wp_system = set_proxy ((proxy_of (wp_system w))\<lparr>px_buffers := bs'\<rparr>) (wp_system w), wp_runs = (wp_runs w)(h \<mapsto> d\<lparr>rn_run := r2\<rparr>)\<rparr>"
    by (intro exI [of _ "bs[h := seen_by_proxy (bs ! h) (pd_buffer r1) (pd_buffer r2)]"])
      (simp add: on_download_def on_fill_def set_proxy_alt set_app_def)
  ultimately show ?case using bs by (metis (no_types, lifting) rtranclp.rtrancl_into_rtrancl)
qed

lemma whole_reach_steps: "(whole_step env parse_date num)\<^sup>*\<^sup>* w w' \<Longrightarrow> whole_reach env parse_date num a0 w \<Longrightarrow>
    whole_reach env parse_date num a0 w'"
  by (induction rule: rtranclp_induct) (auto intro: whole_next)

definition demo_app0 :: app_state where
  "demo_app0 = from_config demo_config None [] 0"

definition demo_head :: request_obs where
  "demo_head = demo_req (Some (200, [(''content-length'', ''4''), (''accept-ranges'', ''bytes'')]))"

definition demo_led :: whole_proxy where
  "demo_led = on_launch 1 demo_head None demo_upstream 0
     ((start_whole demo_app0)\<lparr>wp_system := on_register 0 0 (on_consult demo_env (\<lambda>_. None) Proxy_Flight.demo_obs 0 0
       (on_arrival ''10.0.0.7'' 0 0 ''u'' (start_system demo_app0)))\<rparr>)"

lemma demo_fresh: "fresh_app demo_env demo_app0"
  unfolding demo_app0_def by (rule configured_fresh) (simp add: keys_ok_def new_cache_def migrate_schema_def)

text \<open>The state after the first request has become a leader and has been answered with its buffer.\<close>

lemma demo_led_state:
  obtains p l hs co where "wp_system demo_led =
      \<lparr>ps_app = demo_app0\<lparr>ap_proxy := idle_proxy\<lparr>px_cache := (new_cache ''/c'' 1000 None [])\<lparr>c_disk := [([''c'', ''tmp'', ''1-2.download''], [0, 0, 0, 0])]\<rparr>,
           px_coalescer := co, px_buffers := [placed (Some (200, hs)) ''/c/tmp/1-2.download'' (new_buffer 4 [0, 0, 0, 0] ''f'')]\<rparr>,
         ap_limiter := l, ap_tasks := [\<lparr>tk_url = ''u'', tk_buffer = 0, tk_headers = hs, tk_ftp = False\<rparr>]\<rparr>,
       ps_requests = [\<lparr>rp_ip = ''10.0.0.7'', rp_url = ''u'', rp_permit = p,
         rp_pc = Answered (Inr (wrap_response_with_permit (plain_response 200 hs (Body_buffer 0)) p))\<rparr>],
       ps_overflow = False\<rparr>"
    and "wp_runs demo_led = [0 \<mapsto> \<lparr>rn_url = ''u'', rn_agent = None, rn_etag = None, rn_upstream = demo_upstream, rn_size = 4,
       rn_run = pd_start 1 (placed (Some (200, hs)) ''/c/tmp/1-2.download'' (new_buffer 4 [0, 0, 0, 0] ''f''))\<rparr>]"
    and "whole_reach demo_env (\<lambda>_. None) 1 demo_app0 demo_led"
    and "\<exists>q l'. acquire ''10.0.0.8'' 0 0 l = (Some q, l')"
    and "\<forall>k \<in> {''cache-control'', ''expires''}. header_text k hs = None"
proof -
  obtain p l where acq: "acquire ''10.0.0.7'' 0 0 (new_limiter 1 3 0) = (Some p, l)" "\<exists>q l'. acquire ''10.0.0.8'' 0 0 l = (Some q, l')"
    by (simp add: acquire_def new_limiter_def touch_semaphore_def try_acquire_sem_def get_or_create_bucket_def Let_def)
  let ?rq = "\<lambda>pc. \<lparr>rp_ip = ''10.0.0.7'', rp_url = ''u'', rp_permit = p, rp_pc = pc\<rparr>"
  let ?app = "\<lambda>x. demo_app0\<lparr>ap_proxy := x, ap_limiter := l\<rparr>"
  let ?s = "\<lambda>x pc. \<lparr>ps_app = ?app x, ps_requests = [?rq pc], ps_overflow = False\<rparr>"
  let ?co = "snd (register ''u'' new_coalescer)"
  have px: "ap_proxy demo_app0 = idle_proxy" "ap_limiter demo_app0 = new_limiter 1 3 0" "ap_temp_dir demo_app0 = join_path ''/c'' ''tmp''"
    "ap_tasks demo_app0 = []"
    by (simp_all add: demo_app0_def from_config_def demo_config_def idle_proxy_def)
  have s1: "on_arrival ''10.0.0.7'' 0 0 ''u'' (start_system demo_app0) = ?s idle_proxy (Consulting 0)"
    using acq(1) px(1,2) by (simp add: on_arrival_def start_system_def Let_def)
  have s2: "on_consult demo_env (\<lambda>_. None) Proxy_Flight.demo_obs 0 0 (?s idle_proxy (Consulting 0)) = ?s idle_proxy (Registering 0)"
    by (simp add: on_consult_def consult_cache_def lookup_entry_def idle_proxy_def set_pc_def set_proxy_def
        new_cache_def migrate_schema_def find_row_def is_in_cooldown_def Let_def)
  have s3: "on_register 0 0 (?s idle_proxy (Registering 0)) = ?s (idle_proxy\<lparr>px_coalescer := ?co\<rparr>) Leading"
    by (simp add: on_register_def set_pc_def set_proxy_def idle_proxy_def
        register_def new_coalescer_def MAX_INFLIGHT_def deliver_def Let_def)
  let ?head = "[(''content-length'', ''4''), (''accept-ranges'', ''bytes'')]"
  define hs where "hs = copy_forward_headers ?head []"
  have head: "header_length ?head = Some 4" "header_get ''accept-ranges'' ?head = Some ''bytes''" "header_get ''etag'' ?head = None"
    by (simp_all add: header_length_def header_text_def to_str_def visible_char_def header_get_def parse_uint_def is_digit_def digit_val_def Let_def)
  have hs: "\<forall>k \<in> {''cache-control'', ''expires''}. header_text k hs = None"
    by (simp add: hs_def copy_forward_headers_def forward_headers_def copy_header_def header_text_def header_get_def header_insert_def)
  have path: "join_path (join_path ''/c'' ''tmp'') (rq_uuid demo_head @ ''.download'') = ''/c/tmp/1-2.download''"
    by (simp add: demo_head_def demo_req_def join_path_def starts_with_iff ends_with_iff)
  have res: "resolve_path ''/c/tmp/1-2.download'' = [''c'', ''tmp'', ''1-2.download'']"
    by (simp add: resolve_path_def walk_def walk_step_def)
  let ?b = "placed (Some (200, hs)) ''/c/tmp/1-2.download'' (new_buffer 4 [0, 0, 0, 0] ''f'')"
  have b: "set_meta 200 hs (new_buffer 4 (replicate 4 0) ''/c/tmp/1-2.download'') = ?b"
    by (simp add: set_meta_def placed_def new_buffer_def numeral_eq_Suc)
  let ?px = "idle_proxy\<lparr>px_cache := (new_cache ''/c'' 1000 None [])\<lparr>c_disk := [([''c'', ''tmp'', ''1-2.download''], [0, 0, 0, 0])]\<rparr>,
      px_coalescer := attach_buffer ''u'' 0 ?co, px_buffers := [?b]\<rparr>"
  let ?a = "(?app ?px)\<lparr>ap_tasks := [\<lparr>tk_url = ''u'', tk_buffer = 0, tk_headers = hs, tk_ftp = False\<rparr>]\<rparr>"
  have lead: "lead_for demo_head ''u'' (?app (idle_proxy\<lparr>px_coalescer := ?co\<rparr>)) = (Inr (plain_response 200 hs (Body_buffer 0)), ?a)"
  proof -
    have "lead_for demo_head ''u'' (?app (idle_proxy\<lparr>px_coalescer := ?co\<rparr>))
        = begin_download demo_head ''u'' 4 hs False (?app (idle_proxy\<lparr>px_coalescer := ?co\<rparr>))"
      using head by (simp add: lead_for_def lead_download_def demo_head_def can_multithread_def hs_def starts_with_iff)
    also have "\<dots> = (Inr (plain_response 200 hs (Body_buffer 0)), ?a)"
      using path res b px
      by (simp add: begin_download_def Let_def on_disk_def idle_proxy_def demo_head_def)
        (simp add: new_cache_def numeral_eq_Suc)
    finally show ?thesis .
  qed
  let ?s3 = "?s (idle_proxy\<lparr>px_coalescer := ?co\<rparr>) Leading"
  let ?w3 = "(start_whole demo_app0)\<lparr>wp_system := ?s3\<rparr>"
  have led: "demo_led = on_launch 1 demo_head None demo_upstream 0 ?w3" by (simp only: demo_led_def s1 s2 s3)
  have on: "on_lead demo_head 0 ?s3 = \<lparr>ps_app = ?a, ps_requests =
      [?rq (Answered (Inr (wrap_response_with_permit (plain_response 200 hs (Body_buffer 0)) p)))], ps_overflow = False\<rparr>"
    using lead by (simp add: on_lead_def answer_request_def with_permit_def set_pc_def set_app_def)
  have state: "wp_system demo_led = \<lparr>ps_app = ?a, ps_requests =
      [?rq (Answered (Inr (wrap_response_with_permit (plain_response 200 hs (Body_buffer 0)) p)))], ps_overflow = False\<rparr>"
    "wp_runs demo_led = [0 \<mapsto> \<lparr>rn_url = ''u'', rn_agent = None, rn_etag = None, rn_upstream = demo_upstream, rn_size = 4,
       rn_run = pd_start 1 ?b\<rparr>]"
  proof -
    have "etag_of_head demo_head = None" using head(3) by (simp add: etag_of_head_def demo_head_def demo_req_def)
    moreover have "total_size ?b = 4" by (simp add: new_buffer_def)
    moreover have idle: "px_buffers idle_proxy = []" by (simp add: idle_proxy_def)
    ultimately show "wp_system demo_led = \<lparr>ps_app = ?a, ps_requests =
        [?rq (Answered (Inr (wrap_response_with_permit (plain_response 200 hs (Body_buffer 0)) p)))], ps_overflow = False\<rparr>"
      "wp_runs demo_led = [0 \<mapsto> \<lparr>rn_url = ''u'', rn_agent = None, rn_etag = None, rn_upstream = demo_upstream, rn_size = 4,
         rn_run = pd_start 1 ?b\<rparr>]"
      by (simp_all add: led on_launch_def start_whole_def Let_def on idle is_ftp_def starts_with_iff)
  qed
  have reach: "whole_reach demo_env (\<lambda>_. None) 1 demo_app0 demo_led"
  proof -
    let ?w = "\<lambda>s. (start_whole demo_app0)\<lparr>wp_system := s\<rparr>"
    have 0: "whole_reach demo_env (\<lambda>_. None) 1 demo_app0 (?w (start_system demo_app0))"
      using whole_init [of demo_env "\<lambda>_. None" 1 demo_app0] by (simp add: start_whole_def)
    have 1: "whole_step demo_env (\<lambda>_. None) 1 (?w (start_system demo_app0)) (?w (?s idle_proxy (Consulting 0)))"
      using wp_rest [of demo_env "?w (start_system demo_app0)" "?s idle_proxy (Consulting 0)" "\<lambda>_. None" 1]
        ot_arrival [of demo_env "start_system demo_app0" "''10.0.0.7''" 0 0 "''u''"] s1 px
      by (simp add: start_system_def)
    have 2: "whole_step demo_env (\<lambda>_. None) 1 (?w (?s idle_proxy (Consulting 0))) (?w (?s idle_proxy (Registering 0)))"
      using wp_request [of demo_env "\<lambda>_. None" 0 "?w (?s idle_proxy (Consulting 0))" "?s idle_proxy (Registering 0)" 1]
        rq_consult [of 0 "?s idle_proxy (Consulting 0)" 0 demo_env "\<lambda>_. None" Proxy_Flight.demo_obs] s2
      by (simp add: pc_of_def)
    have 3: "whole_step demo_env (\<lambda>_. None) 1 (?w (?s idle_proxy (Registering 0))) ?w3"
      using wp_request [of demo_env "\<lambda>_. None" 0 "?w (?s idle_proxy (Registering 0))" ?s3 1]
        rq_register [of 0 "?s idle_proxy (Registering 0)" 0 demo_env "\<lambda>_. None"] s3
      by (simp add: pc_of_def)
    have 4: "whole_step demo_env (\<lambda>_. None) 1 ?w3 demo_led"
      unfolding led by (rule wp_lead) (simp_all add: pc_of_def demo_head_def demo_req_def)
    show ?thesis by (rule whole_next [OF whole_next [OF whole_next [OF whole_next [OF 0 1] 2] 3] 4])
  qed
  show thesis by (rule that [OF state reach acq(2) hs])
qed

text \<open>Then its download runs to its end.\<close>

lemma par_steps_place:
  "(par_step ua etag up num)\<^sup>*\<^sup>* d r \<Longrightarrow> par_reach ua etag up num n d \<Longrightarrow> file_path (pd_buffer r) = file_path (pd_buffer d)"
proof (induction rule: rtranclp_induct)
  case (step r1 r2)
  then show ?case using par_step_place [OF step.hyps(2) par_reach_inv [OF par_reach_steps [OF step.hyps(1) step.prems]]] by simp
qed simp

lemma fetched_ready:
  assumes "par_reach ua etag up num n d" "fetched d x" "0 < n"
  shows "is_ready 0 (pd_buffer d)"
proof -
  let ?b = "pd_buffer d"
  have inv: "par_inv ua etag up num n d" by (rule par_reach_inv [OF assms(1)])
  have fin: "no_tasks (pd_sup d)" "all_completed ?b"
    using inv assms(2) by (auto simp: par_inv_def tasks_ok_def outcome_ok_def fetched_def)
  note e = all_ended [OF inv fin(1)]
  obtain rs where rs: "chain 0 rs (next_unassigned ?b)" "mset rs = mset (map sg_range (segments ?b))" using e(3) by blast
  have "next_unassigned ?b = n" using inv fin(2) by (auto simp: par_inv_def ranges_ok_def all_completed_def)
  then have "rs \<noteq> []" using rs(1) assms(3) by auto
  then have "segments ?b \<noteq> []" using rs(2) by auto
  moreover have "count_ready (segments ?b) = length (segments ?b)"
    using e(2) fin(2) count_ready_le [of "segments ?b"] by (simp add: all_completed_def)
  ultimately show ?thesis using count_ready_all [of "segments ?b"] by (auto simp: is_ready_def)
qed

lemma demo_fetched:
  obtains w d bs where "whole_reach demo_env (\<lambda>_. None) 1 demo_app0 w" "wp_runs w = [0 \<mapsto> d]" "rn_url d = ''u''" "rn_size d = 4"
    "fetched (rn_run d) [8, 9, 6, 5]" "version_served d [8, 9, 6, 5]"
    "wp_system w = set_proxy ((proxy_of (wp_system demo_led))\<lparr>px_buffers := bs\<rparr>) (wp_system demo_led)"
    "run_true 1 bs 0 d" "file_path (bs ! 0) = ''/c/tmp/1-2.download''" "dl_file (bs ! 0) = [8, 9, 6, 5]"
proof -
  obtain p l hs co where st: "wp_runs demo_led = [0 \<mapsto> \<lparr>rn_url = ''u'', rn_agent = None, rn_etag = None,
      rn_upstream = demo_upstream, rn_size = 4,
      rn_run = pd_start 1 (placed (Some (200, hs)) ''/c/tmp/1-2.download'' (new_buffer 4 [0, 0, 0, 0] ''f''))\<rparr>]"
    and reach: "whole_reach demo_env (\<lambda>_. None) 1 demo_app0 demo_led"
    by (rule demo_led_state)
  let ?b = "placed (Some (200, hs)) ''/c/tmp/1-2.download'' (new_buffer 4 [0, 0, 0, 0] ''f'')"
  let ?d = "\<lparr>rn_url = ''u'', rn_agent = None, rn_etag = None, rn_upstream = demo_upstream, rn_size = 4, rn_run = pd_start 1 ?b\<rparr>"
  obtain b where "goes None None demo_upstream (first_poll, new_buffer 4 [0, 0, 0, 0] ''f'') (Ended (Inr ()), b)" "all_completed b"
    using demo_goes by blast
  then obtain r where r: "(par_step None None demo_upstream 1)\<^sup>*\<^sup>* (pd_start 1 ?b) r" "sv_phase (pd_sup r) = supervisor_phase.Returned (Inr ())"
    using lone_run [OF goes_placed] by (metis placed_fields(6))
  have "wp_runs demo_led 0 = Some ?d" by (simp add: st)
  then obtain bs where bs: "(whole_step demo_env (\<lambda>_. None) 1)\<^sup>*\<^sup>* demo_led
      \<lparr>wp_system = set_proxy ((proxy_of (wp_system demo_led))\<lparr>px_buffers := bs\<rparr>) (wp_system demo_led),
       wp_runs = (wp_runs demo_led)(0 \<mapsto> ?d\<lparr>rn_run := r\<rparr>)\<rparr>" (is "_\<^sup>*\<^sup>* demo_led ?w")
    using download_runs [of ?d 1 r demo_led 0 demo_env "\<lambda>_. None"] r(1) by auto
  have w: "whole_reach demo_env (\<lambda>_. None) 1 demo_app0 ?w" by (rule whole_reach_steps [OF bs reach])
  have "hex_hash (hash_of demo_env)" using sound_demo by (simp add: sound_env_def)
  from whole_reach_true [OF w demo_fresh this] have run: "run_true 1 bs 0 (?d\<lparr>rn_run := r\<rparr>)"
    by (simp add: whole_true_def app_true_def set_proxy_alt)
  have v: "version_served (?d\<lparr>rn_run := r\<rparr>) [8, 9, 6, 5]" using demo_upstream_serves by (simp add: version_served_def)
  from returned_file [OF run_reached [OF run v]] r(2) v have "fetched r [8, 9, 6, 5]"
    by (simp add: fetched_def version_served_def)
  moreover have "mirrors (bs ! 0) (pd_buffer r)" using run by (simp add: run_true_def)
  note same = mirrors_fields(1,3) [OF this]
  have "par_reach None None demo_upstream 1 4 (pd_start 1 ?b)"
    using par_init [of "[0, 0, 0, 0]" 4 None None demo_upstream 1 "Some (200, hs)" "''/c/tmp/1-2.download''"]
    by (simp add: placed_def new_buffer_def)
  from par_steps_place [OF r(1) this] have "file_path (bs ! 0) = ''/c/tmp/1-2.download''" by (simp add: same) (simp add: placed_def)
  moreover note same(1)
  ultimately show thesis using that [OF w, of "?d\<lparr>rn_run := r\<rparr>" bs] run v by (simp add: st fetched_def)
qed

theorem streamed_answers_genuine_witness:
  "\<exists>w rq resp b. whole_reach demo_env (\<lambda>_. None) 1 demo_app0 w \<and> rq \<in> set (ps_requests (wp_system w)) \<and> rp_url rq = ''u''
     \<and> rp_pc rq = Answered (Inr resp) \<and> rs_body resp = Body_buffer 0 \<and> b = px_buffers (proxy_of (wp_system w)) ! 0 \<and> is_ready 0 b
     \<and> pread (dl_file b) (segment_start 0 b) (segment_end 0 b - segment_start 0 b)
        = pread [8, 9, 6, 5] (segment_start 0 b) (segment_end 0 b - segment_start 0 b)"
proof -
  obtain w d bs where w: "whole_reach demo_env (\<lambda>_. None) 1 demo_app0 w" "wp_runs w = [0 \<mapsto> d]" "rn_url d = ''u''" "rn_size d = 4"
    "fetched (rn_run d) [8, 9, 6, 5]" "version_served d [8, 9, 6, 5]"
    "wp_system w = set_proxy ((proxy_of (wp_system demo_led))\<lparr>px_buffers := bs\<rparr>) (wp_system demo_led)" "run_true 1 bs 0 d"
    by (rule demo_fetched) simp
  obtain p hs where rq: "ps_requests (wp_system demo_led) = [\<lparr>rp_ip = ''10.0.0.7'', rp_url = ''u'', rp_permit = p,
         rp_pc = Answered (Inr (wrap_response_with_permit (plain_response 200 hs (Body_buffer 0)) p))\<rparr>]"
    by (rule demo_led_state) simp
  let ?resp = "wrap_response_with_permit (plain_response 200 hs (Body_buffer 0)) p"
  let ?rq = "\<lparr>rp_ip = ''10.0.0.7'', rp_url = ''u'', rp_permit = p, rp_pc = Answered (Inr ?resp)\<rparr>"
  have in_w: "?rq \<in> set (ps_requests (wp_system w))" using rq w(7) by (simp add: set_proxy_alt)
  have body: "rs_body ?resp = Body_buffer 0" by (simp add: wrap_response_with_permit_def plain_response_def)
  have bs: "px_buffers (proxy_of (wp_system w)) = bs" using w(7) by (simp add: set_proxy_alt)
  have "is_ready 0 (pd_buffer (rn_run d))" using w(4,5,8) fetched_ready by (auto simp: run_true_def)
  moreover have "segments (bs ! 0) = segments (pd_buffer (rn_run d))" using w(8) mirrors_fields(2) by (simp add: run_true_def)
  ultimately have ready: "is_ready 0 (bs ! 0)" by (simp add: is_ready_def)
  have "hex_hash (hash_of demo_env)" using sound_demo by (simp add: sound_env_def)
  from streamed_answers_genuine [OF w(1) demo_fresh this in_w _ body _ refl] ready w(2,6)
  have "pread (dl_file (bs ! 0)) (segment_start 0 (bs ! 0)) (segment_end 0 (bs ! 0) - segment_start 0 (bs ! 0))
     = pread [8, 9, 6, 5] (segment_start 0 (bs ! 0)) (segment_end 0 (bs ! 0) - segment_start 0 (bs ! 0))"
    by (simp add: bs is_ftp_def starts_with_iff)
  then show ?thesis using w(1) in_w body ready bs
    by (intro exI [of _ w] exI [of _ ?rq] exI [of _ ?resp] exI [of _ "bs ! 0"]) simp
qed

text \<open>The persistence puts the file into the cache, and a second client asks for it.\<close>

lemma answered_in:
  assumes "i < length (ps_requests s)" "ps_requests s ! i = rq"
  shows "rq\<lparr>rp_pc := Answered (Inr (wrap_response_with_permit resp (rp_permit rq)))\<rparr>
    \<in> set (ps_requests (answer_request i (Inr resp, a) s))"
  using set_update_memI [OF assms(1)] assms(2) by (simp add: answer_request_def with_permit_def set_pc_def set_app_def)

lemma demo_cached:
  "\<exists>w rq resp d. whole_reach demo_env (\<lambda>_. None) 1 demo_app0 w \<and> rq \<in> set (ps_requests (wp_system w)) \<and> rp_url rq = ''u''
     \<and> rp_pc rq = Answered (Inr resp) \<and> rs_body resp = Body_file [8, 9, 6, 5]
     \<and> wp_runs w = [0 \<mapsto> d] \<and> rn_url d = ''u'' \<and> version_served d [8, 9, 6, 5]"
proof -
  obtain w d bs where w: "whole_reach demo_env (\<lambda>_. None) 1 demo_app0 w" "wp_runs w = [0 \<mapsto> d]" "rn_url d = ''u''"
    "fetched (rn_run d) [8, 9, 6, 5]" "version_served d [8, 9, 6, 5]"
    "wp_system w = set_proxy ((proxy_of (wp_system demo_led))\<lparr>px_buffers := bs\<rparr>) (wp_system demo_led)"
    "file_path (bs ! 0) = ''/c/tmp/1-2.download''" "dl_file (bs ! 0) = [8, 9, 6, 5]"
    by (rule demo_fetched) simp
  obtain p l hs co where led: "wp_system demo_led =
      \<lparr>ps_app = demo_app0\<lparr>ap_proxy := idle_proxy\<lparr>px_cache := (new_cache ''/c'' 1000 None [])\<lparr>c_disk := [([''c'', ''tmp'', ''1-2.download''], [0, 0, 0, 0])]\<rparr>,
           px_coalescer := co, px_buffers := [placed (Some (200, hs)) ''/c/tmp/1-2.download'' (new_buffer 4 [0, 0, 0, 0] ''f'')]\<rparr>,
         ap_limiter := l, ap_tasks := [\<lparr>tk_url = ''u'', tk_buffer = 0, tk_headers = hs, tk_ftp = False\<rparr>]\<rparr>,
       ps_requests = [\<lparr>rp_ip = ''10.0.0.7'', rp_url = ''u'', rp_permit = p,
         rp_pc = Answered (Inr (wrap_response_with_permit (plain_response 200 hs (Body_buffer 0)) p))\<rparr>],
       ps_overflow = False\<rparr>"
    and acq: "\<exists>q l'. acquire ''10.0.0.8'' 0 0 l = (Some q, l')"
    and hs: "\<forall>k \<in> {''cache-control'', ''expires''}. header_text k hs = None"
    by (rule demo_led_state)
  obtain q l' where q: "acquire ''10.0.0.8'' 0 0 l = (Some q, l')" using acq by blast
  let ?c = "(new_cache ''/c'' 1000 None [])\<lparr>c_disk := [([''c'', ''tmp'', ''1-2.download''], [0, 0, 0, 0])]\<rparr>"
  let ?px = "proxy_of (wp_system w)"
  have px: "px_cache ?px = ?c" "px_buffers ?px = bs"
    "ap_tasks (ps_app (wp_system w)) = [\<lparr>tk_url = ''u'', tk_buffer = 0, tk_headers = hs, tk_ftp = False\<rparr>]"
    "ap_limiter (ps_app (wp_system w)) = l" "ap_flight (ps_app (wp_system w)) = ap_flight demo_app0"
    by (simp_all add: w(6) led set_proxy_alt)
  have reqs: "length (ps_requests (wp_system w)) = 1" by (simp add: w(6) led set_proxy_alt)
  have res: "resolve_path ''/c/tmp/1-2.download'' = [''c'', ''tmp'', ''1-2.download'']" "resolve_path ''/c'' = [''c'']"
    by (simp_all add: resolve_path_def walk_def walk_step_def)
  have free: "temp_free demo_env ''/c'' [''c'', ''tmp'', ''1-2.download'']"
    by (auto simp: temp_free_def efile_def res demo_env_def numeral_2_eq_2)
  have ok: "cache_ok demo_env ?c"
    using cache_ok_temp [OF cache_ok_new, of demo_env "''/c''" 1000 "[''c'', ''tmp'', ''1-2.download'']" "[0, 0, 0, 0]"] free
    by (simp add: new_cache_def)
  have "\<exists>s' path hs'. persist_download demo_env task_etag_changed demo_persist ''u'' 0 hs (Some (Inr ())) ?px = Some s'
     \<and> px_failures s' = record_success ''u'' (px_failures ?px)
     \<and> fst (lookup_entry demo_env 100 ''u'' (px_cache s')) = Some (path, hs', po_unix demo_persist)
     \<and> am_get (resolve_path path) (c_disk (px_cache s')) = Some (dl_file (px_buffers ?px ! 0))
     \<and> (\<forall>k. header_get k hs' = (if k \<in> set stored_header_names then header_text k hs else None))"
    by (rule persisted_found [OF sound_demo])
      (use ok free in \<open>simp_all add: px w(7,8) res demo_persist_def new_cache_def migrate_schema_def insert_or_replace_def
        delete_row_def new_row_def total_size_of_def to_u64_def is_xz_url_def\<close>)
  then obtain s' path hs' where s': "persist_download demo_env task_etag_changed demo_persist ''u'' 0 hs (Some (Inr ())) ?px = Some s'"
    "px_failures s' = record_success ''u'' (px_failures ?px)"
    "fst (lookup_entry demo_env 100 ''u'' (px_cache s')) = Some (path, hs', 90)"
    "am_get (resolve_path path) (c_disk (px_cache s')) = Some [8, 9, 6, 5]"
    "\<forall>k. header_get k hs' = (if k \<in> set stored_header_names then header_text k hs else None)"
    by (auto simp: px(2) w(8) demo_persist_def)
  let ?a1 = "(ps_app (wp_system w))\<lparr>ap_proxy := s', ap_tasks := []\<rparr>"
  let ?s1 = "set_app ?a1 (wp_system w)"
  have 1: "whole_step demo_env (\<lambda>_. None) 1 w (w\<lparr>wp_system := ?s1\<rparr>)"
  proof (rule wp_end [where j = 0 and ended = "Some (Inr ())" and obs = demo_persist])
    show "on_task_end demo_env demo_persist 0 (Some (Inr ())) (wp_system w) = Some ?s1"
      using s'(1) by (simp add: on_task_end_def Let_def px drop_nth_def)
    show "joins_with (wp_runs w (tk_buffer (ap_tasks (ps_app (wp_system w)) ! 0))) (Some (Inr ()))"
      using w(4) by (auto simp: px w(2) joins_with_def fetched_def intro!: exI [of _ "Inr ()"])
  qed (simp add: px)
  let ?rq = "\<lambda>pc. \<lparr>rp_ip = ''10.0.0.8'', rp_url = ''u'', rp_permit = q, rp_pc = pc\<rparr>"
  let ?s2 = "?s1\<lparr>ps_app := ?a1\<lparr>ap_limiter := l'\<rparr>, ps_requests := ps_requests (wp_system w) @ [?rq (Consulting 0)]\<rparr>"
  have 2: "whole_step demo_env (\<lambda>_. None) 1 (w\<lparr>wp_system := ?s1\<rparr>) (w\<lparr>wp_system := ?s2\<rparr>)"
  proof -
    have "on_arrival ''10.0.0.8'' 0 0 ''u'' ?s1 = ?s2" using q by (simp add: on_arrival_def Let_def px)
    then have "other_step demo_env ?s1 ?s2" using ot_arrival [of demo_env ?s1 "''10.0.0.8''" 0 0 "''u''"] by simp
    then show ?thesis using wp_rest [of demo_env "w\<lparr>wp_system := ?s1\<rparr>" ?s2 "\<lambda>_. None" 1] by simp
  qed
  obtain c1 where look: "lookup_entry demo_env 100 ''u'' (px_cache s') = (Some (path, hs', 90), c1)"
    using s'(3) by (cases "lookup_entry demo_env 100 ''u'' (px_cache s')") simp
  have disk: "c_disk c1 = c_disk (px_cache s')" using lookup_disk [of demo_env 100 "''u''" "px_cache s'"] look by simp
  obtain resp where resp: "serve_file path hs' (c_disk c1) = Inr resp" "rs_body resp = Body_file [8, 9, 6, 5]"
    using serve_file_answer [of path "c_disk c1" "[8, 9, 6, 5]" hs'] s'(4) disk by auto
  have "header_text k hs' = None" if "k \<in> {''cache-control'', ''expires''}" for k
  proof -
    have "k \<in> set stored_header_names" using that by (auto simp: stored_header_names_def)
    then have "header_get k hs' = None" using s'(5) hs that by auto
    then show ?thesis by (simp add: header_text_def)
  qed
  then have fresh: "is_fresh (\<lambda>_. None) 100 90 hs' (fc_max_cache_age (ap_flight demo_app0))"
    by (simp add: is_fresh_def expires_secs_def demo_app0_def from_config_def demo_config_def)
  have len: "1 < length (ps_requests ?s2)" and new: "ps_requests ?s2 ! 1 = ?rq (Consulting 0)"
    by (simp_all add: reqs nth_append)
  let ?s3 = "on_consult demo_env (\<lambda>_. None) Proxy_Flight.demo_obs 1 0 ?s2"
  have "consult_cache demo_env (\<lambda>_. None) (ap_flight demo_app0) ''u'' Proxy_Flight.demo_obs s'
      = (Some (Inr (Cached path hs')), s'\<lparr>px_cache := c1\<rparr>)"
    using look fresh s'(2) not_cooling_down by (simp add: consult_cache_def Proxy_Flight.demo_obs_def)
  then have s3: "?s3 = answer_request 1 (Inr resp, (ps_app ?s2)\<lparr>ap_proxy := s'\<lparr>px_cache := c1\<rparr>\<rparr>)
      (set_proxy (s'\<lparr>px_cache := c1\<rparr>) ?s2)"
    using new resp(1) by (simp add: on_consult_def Let_def deliver_def set_proxy_alt px)
  have 3: "whole_step demo_env (\<lambda>_. None) 1 (w\<lparr>wp_system := ?s2\<rparr>) (w\<lparr>wp_system := ?s3\<rparr>)"
  proof -
    have "pc_of 1 ?s2 = Some (Consulting 0)" using len new by (simp add: pc_of_def)
    then show ?thesis
      using wp_request [of demo_env "\<lambda>_. None" 1 "w\<lparr>wp_system := ?s2\<rparr>" ?s3 1]
        rq_consult [of 1 ?s2 0 demo_env "\<lambda>_. None" Proxy_Flight.demo_obs] by simp
  qed
  let ?resp = "wrap_response_with_permit resp q"
  have "?rq (Answered (Inr ?resp)) \<in> set (ps_requests ?s3)"
  proof -
    let ?s = "set_proxy (s'\<lparr>px_cache := c1\<rparr>) ?s2"
    have "1 < length (ps_requests ?s)" "ps_requests ?s ! 1 = ?rq (Consulting 0)" using len new by (simp_all add: set_proxy_alt)
    from answered_in [OF this, of resp "(ps_app ?s2)\<lparr>ap_proxy := s'\<lparr>px_cache := c1\<rparr>\<rparr>"] show ?thesis unfolding s3 by simp
  qed
  moreover have "whole_reach demo_env (\<lambda>_. None) 1 demo_app0 (w\<lparr>wp_system := ?s3\<rparr>)"
    by (rule whole_next [OF whole_next [OF whole_next [OF w(1) 1] 2] 3])
  moreover have "rs_body ?resp = Body_file [8, 9, 6, 5]" using resp(2) by (simp add: wrap_response_with_permit_def)
  ultimately show ?thesis using w(2,3,5)
    by (intro exI [of _ "w\<lparr>wp_system := ?s3\<rparr>"] exI [of _ "?rq (Answered (Inr ?resp))"] exI [of _ ?resp] exI [of _ d]) simp
qed

theorem cached_answers_genuine_witness:
  "\<exists>w rq resp x h d. whole_reach demo_env (\<lambda>_. None) 1 demo_app0 w \<and> rq \<in> set (ps_requests (wp_system w))
     \<and> rp_pc rq = Answered (Inr resp) \<and> rs_body resp = Body_file x \<and> wp_runs w h = Some d
     \<and> version_served d [8, 9, 6, 5] \<and> x = [8, 9, 6, 5]"
proof -
  obtain w rq resp d where w: "whole_reach demo_env (\<lambda>_. None) 1 demo_app0 w" "rq \<in> set (ps_requests (wp_system w))" "rp_url rq = ''u''"
     "rp_pc rq = Answered (Inr resp)" "rs_body resp = Body_file [8, 9, 6, 5]"
     "wp_runs w = [0 \<mapsto> d]" "rn_url d = ''u''" "version_served d [8, 9, 6, 5]"
    using demo_cached by blast
  have hex: "hex_hash (hash_of demo_env)" using sound_demo by (simp add: sound_env_def)
  have "\<not> is_ftp u" if "hash_of demo_env u = hash_of demo_env (rp_url rq)" for u
    using that by (auto simp: w(3) demo_env_def is_ftp_def starts_with_iff split: if_splits)
  then have "\<forall>u. hash_of demo_env u = hash_of demo_env (rp_url rq) \<longrightarrow> \<not> is_ftp u" by blast
  from cached_answers_genuine [OF w(1) demo_fresh hex w(2,4,5) this]
  have "\<exists>h d. wp_runs w h = Some d \<and> version_served d [8, 9, 6, 5]"
    using w(6,8) by (auto simp: demo_app0_def from_config_def new_cache_def)
  then show ?thesis using w(1,2,4,5) by blast
qed

end
