(* ===== verification/Server.thy ===== *)
theory Server
  imports Connect_Tunnel Proxy_Properties Ranked_Steps
begin

text \<open>
  \<open>src/src/lib.rs\<close>: what \<open>run_proxy\<close> sets up before it accepts connections, and how
  \<open>handle_connection\<close> tells a CONNECT tunnel from an HTTP request, and the loop that accepts
  connections until it is told to stop. The HTTP server and the routing of methods are calls
  of hyper and axum.
\<close>

subsection \<open>Starting\<close>

text \<open>The URL of the upstream proxy that the client for HTTP is given.\<close>

definition client_proxy_url :: "upstream_proxy \<Rightarrow> string" where
  "client_proxy_url up =
     (case proxy_type up of Socks5 \<Rightarrow> ''socks5://'' | _ \<Rightarrow> ''http://'')
     @ Config_Parse.host up @ '':'' @ dec (Config_Parse.port up)"

text \<open>The downloads an earlier run has left in the temporary directory are removed.\<close>

definition clean_temp_dir :: "bool \<Rightarrow> string \<Rightarrow> disk_files \<Rightarrow> disk_files" where
  "clean_temp_dir unlink_fails dir d =
     (if unlink_fails then d
      else filter (\<lambda>p. \<not> stale_download (resolve_path (join_path dir ''tmp'')) (fst p)) d)"

definition start_proxy :: "config \<Rightarrow> cache_db option \<Rightarrow> bool \<Rightarrow> disk_files \<Rightarrow> u64 \<Rightarrow> app_state" where
  "start_proxy cfg db unlink_fails disk clock =
     (let a = from_config cfg db disk clock in
      a\<lparr>ap_proxy := on_disk (clean_temp_dir unlink_fails (cfg_cache_dir cfg)) (ap_proxy a)\<rparr>)"

subsection \<open>Connections\<close>

definition is_connect :: "string \<Rightarrow> bool" where
  "is_connect peeked \<longleftrightarrow> 7 \<le> length peeked \<and> take 7 peeked = ''CONNECT''"

datatype connection = Tunnel tunnel | Http_request

text \<open>\<open>peeked\<close> is what has arrived at the time of the peek, a beginning of what the client sends.\<close>

definition handle_connection ::
    "tunnel_env \<Rightarrow> config \<Rightarrow> string \<Rightarrow> string \<Rightarrow> input_end \<Rightarrow> connection" where
  "handle_connection env cfg peeked input fin =
     (if is_connect (take 7 peeked)
      then Tunnel (handle_connect_tunnel env (cfg_upstream_proxy cfg) (cfg_no_proxy cfg) input fin)
      else Http_request)"

subsection \<open>Properties\<close>


text \<open>A CONNECT request of which less than seven bytes have arrived at the peek is not taken for one.\<close>

lemma short_peek_is_http: "length peeked < 7 \<Longrightarrow> handle_connection env cfg peeked input fin = Http_request"
  by (simp add: handle_connection_def is_connect_def)

subsection \<open>The accept loop\<close>

text \<open>
  The tasks of the \<open>JoinSet\<close> are counted: those that still serve a connection, and those that
  have ended and have not been joined. \<open>al_accepted\<close> and \<open>al_joined\<close> are not in the code; they
  count what has happened.
\<close>

datatype accept_phase = Accepting | Closing | Closed

record accept_loop =
  al_phase :: accept_phase
  al_open :: nat
  al_ended :: nat
  al_accepted :: nat
  al_joined :: nat

definition accept_start :: accept_loop where
  "accept_start = \<lparr>al_phase = Accepting, al_open = 0, al_ended = 0, al_accepted = 0, al_joined = 0\<rparr>"

definition on_accept :: "accept_loop \<Rightarrow> accept_loop" where
  "on_accept s = s\<lparr>al_open := al_open s + 1, al_accepted := al_accepted s + 1\<rparr>"

definition on_ctrl_c :: "accept_loop \<Rightarrow> accept_loop" where
  "on_ctrl_c s = s\<lparr>al_phase := Closing\<rparr>"

definition on_connection_end :: "accept_loop \<Rightarrow> accept_loop" where
  "on_connection_end s = s\<lparr>al_open := al_open s - 1, al_ended := al_ended s + 1\<rparr>"

definition on_join_next :: "accept_loop \<Rightarrow> accept_loop" where
  "on_join_next s =
     (if al_ended s = 0 then s\<lparr>al_phase := Closed\<rparr>
      else s\<lparr>al_ended := al_ended s - 1, al_joined := al_joined s + 1\<rparr>)"

text \<open>
  While it accepts the loop waits for a signal or a connection; then it joins until nothing is
  left. A connection can end at any time; \<open>join_next\<close> waits while all tasks still run.
\<close>

inductive accept_step :: "accept_loop \<Rightarrow> accept_loop \<Rightarrow> bool" where
  step_accept: "al_phase s = Accepting \<Longrightarrow> accept_step s (on_accept s)"
| step_accept_error: "al_phase s = Accepting \<Longrightarrow> accept_step s s"
| step_ctrl_c: "al_phase s = Accepting \<Longrightarrow> accept_step s (on_ctrl_c s)"
| step_end: "0 < al_open s \<Longrightarrow> accept_step s (on_connection_end s)"
| step_join: "al_phase s = Closing \<Longrightarrow> 0 < al_ended s \<or> al_open s = 0 \<Longrightarrow> accept_step s (on_join_next s)"

inductive accept_reach :: "accept_loop \<Rightarrow> bool" where
  reach_start: "accept_reach accept_start"
| reach_step: "accept_reach s \<Longrightarrow> accept_step s s' \<Longrightarrow> accept_reach s'"

inductive_cases accept_stepE: "accept_step s s'"

lemma accept_counts:
  assumes "accept_reach s"
  shows "al_accepted s = al_open s + al_ended s + al_joined s
     \<and> (al_phase s = Accepting \<longrightarrow> al_joined s = 0)
     \<and> (al_phase s = Closed \<longrightarrow> al_open s = 0 \<and> al_ended s = 0)"
  using assms
proof (induction rule: accept_reach.induct)
  case reach_start
  then show ?case by (simp add: accept_start_def)
next
  case (reach_step s s')
  from reach_step(2) show ?case
    by (cases rule: accept_step.cases)
      (use reach_step.IH in \<open>auto simp: on_accept_def on_ctrl_c_def on_connection_end_def on_join_next_def\<close>)
qed

text \<open>The program ends only after every connection it has accepted has ended.\<close>

lemma shutdown_waits:
  assumes "accept_reach s" "al_phase s = Closed"
  shows "al_joined s = al_accepted s"
  using accept_counts [OF assms(1)] assms(2) by simp

text \<open>After the signal no connection is accepted, and every step brings the end nearer.\<close>

definition closing_rank :: "accept_loop \<Rightarrow> nat" where
  "closing_rank s = (if al_phase s = Closed then 0 else 2 * al_open s + al_ended s + 1)"

lemma closing_progress:
  assumes "al_phase s = Closing" "accept_step s s'"
  shows "al_accepted s' = al_accepted s \<and> al_phase s' \<noteq> Accepting \<and> closing_rank s' < closing_rank s"
  using assms(2)
  by (rule accept_stepE)
    (use assms(1) in \<open>auto simp: closing_rank_def on_connection_end_def on_join_next_def\<close>)

lemma closing_not_stuck:
  assumes "al_phase s = Closing"
  shows "\<exists>s'. accept_step s s'"
  using assms step_end [of s] step_join [of s] by blast

interpretation closing: ranked_steps accept_step "\<lambda>s. al_phase s = Closing" closing_rank
  by unfold_locales (use closing_progress closing_not_stuck in blast)+

text \<open>So after the signal the loop ends, within two steps for every open connection and one for every ended one.\<close>

lemma shutdown_ends:
  assumes "al_phase s = Closing"
  shows "\<exists>s'. accept_step\<^sup>*\<^sup>* s s' \<and> al_phase s' \<noteq> Closing"
    and "step_chain accept_step s ts \<Longrightarrow> \<forall>t \<in> set (butlast ts). al_phase t = Closing \<Longrightarrow> length ts \<le> closing_rank s"
  using closing.can_end closing.chain_bounded assms by blast+

text \<open>
  Tasks are joined after the signal only: as long as the proxy runs, what it keeps of the
  connections that have ended grows with every connection, and the number in its last message
  counts them as active.
\<close>

lemma ended_tasks_pile_up:
  assumes "accept_reach s" "al_phase s = Accepting"
  shows "al_open s + al_ended s = al_accepted s"
  using accept_counts [OF assms(1)] assms(2) by simp

end
