(* ===== verification/Startup.thy ===== *)
theory Startup
  imports Server
begin

text \<open>
  The whole start of the proxy, from \<open>main\<close> of \<open>src/src/main.rs\<close> to the first connection
  \<open>run_proxy\<close> of \<open>src/src/lib.rs\<close> accepts: the settings of the HTTP client, every early return with
  what it leaves on the disk, and the loop that removes old downloads. Server has the same start
  when nothing fails (\<open>start_proxy\<close>).
\<close>

subsection \<open>The HTTP client\<close>

text \<open>
  The crate reqwest is a parameter: \<open>'p\<close> is its \<open>Proxy\<close> and \<open>'x\<close> its \<open>NoProxy\<close>. Times are in
  seconds.
\<close>

record 'p client_settings =
  cs_user_agent :: string
  cs_connect_timeout :: nat
  cs_timeout :: nat
  cs_proxy :: "'p option"

record ('p, 'x) client_lib =
  cl_proxy_all :: "string \<Rightarrow> 'p option"
  cl_basic_auth :: "string \<Rightarrow> string \<Rightarrow> 'p \<Rightarrow> 'p"
  cl_exclusion :: "string \<Rightarrow> 'x option"
  cl_no_proxy :: "'x option \<Rightarrow> 'p \<Rightarrow> 'p"
  cl_build :: "'p client_settings \<Rightarrow> bool"

definition add_exclusion :: "('p, 'x) client_lib \<Rightarrow> string \<Rightarrow> 'p \<Rightarrow> 'p" where
  "add_exclusion lib h p =
     (case cl_exclusion lib h of Some x \<Rightarrow> cl_no_proxy lib (Some x) p | None \<Rightarrow> p)"

datatype start_error =
    Config_failed config_error
  | Bad_proxy_url
  | Client_failed
  | Cache_not_opened
  | Temp_dir_failed
  | Bind_failed

definition client_proxy ::
    "('p, 'x) client_lib \<Rightarrow> upstream_proxy option \<Rightarrow> string list \<Rightarrow> start_error + 'p option" where
  "client_proxy lib up exclusions =
     (case up of
        None \<Rightarrow> Inr None
      | Some u \<Rightarrow>
          (case cl_proxy_all lib (client_proxy_url u) of
             None \<Rightarrow> Inl Bad_proxy_url
           | Some p \<Rightarrow>
               (let p1 = (case (username u, password u) of
                            (Some user, Some pass) \<Rightarrow> cl_basic_auth lib user pass p
                          | _ \<Rightarrow> p)
                in Inr (Some (fold (add_exclusion lib) exclusions p1)))))"

definition http_client :: "('p, 'x) client_lib \<Rightarrow> config \<Rightarrow> start_error + 'p client_settings" where
  "http_client lib cfg =
     bind_res (client_proxy lib (cfg_upstream_proxy cfg) (cfg_no_proxy cfg)) (\<lambda>p.
       let s = \<lparr>cs_user_agent = ''apt-blitz/0.1.0'', cs_connect_timeout = 10, cs_timeout = 300,
                cs_proxy = p\<rparr>
       in if cl_build lib s then Inr s else Inl Client_failed)"

text \<open>
  \<open>Proxy::no_proxy\<close> of reqwest takes the whole list of exclusions. Where it replaces the list it
  was given before, the loop keeps the last host only; the tunnel for CONNECT reads all of them.
\<close>

lemma last_exclusion_counts:
  assumes replaces: "\<And>x y p. cl_no_proxy lib (Some x) (cl_no_proxy lib (Some y) p) = cl_no_proxy lib (Some x) p"
    and each: "\<forall>h \<in> set hs. cl_exclusion lib h \<noteq> None" and some: "hs \<noteq> []"
  shows "fold (add_exclusion lib) hs p = cl_no_proxy lib (cl_exclusion lib (last hs)) p"
  using each some
proof (induction hs rule: rev_induct)
  case Nil
  then show ?case by simp
next
  case (snoc h hs)
  show ?case
  proof (cases "hs = []")
    case True
    then show ?thesis using snoc.prems by (auto simp: add_exclusion_def)
  next
    case False
    then obtain y where "cl_exclusion lib (last hs) = Some y" using snoc.prems(1) by fastforce
    then show ?thesis using snoc False by (auto simp: add_exclusion_def replaces)
  qed
qed

subsection \<open>Old downloads\<close>

text \<open>
  What \<open>next_entry\<close> gives one after the other: an entry of the directory, or the error that ends
  the start. A file that cannot be removed is passed over.
\<close>

fun remove_downloads ::
    "(string list \<Rightarrow> bool) \<Rightarrow> (unit + string list) list \<Rightarrow> disk_files \<Rightarrow> bool \<times> disk_files" where
  "remove_downloads unlink_fails [] d = (True, d)"
| "remove_downloads unlink_fails (Inl e # es) d = (False, d)"
| "remove_downloads unlink_fails (Inr p # es) d =
     remove_downloads unlink_fails es
       (if extension (last p) = Some ''download'' \<and> \<not> unlink_fails p then am_remove p d else d)"

text \<open>The entries of a directory, all of them readable, in some order.\<close>

definition lists_dir :: "string list \<Rightarrow> (unit + string list) list \<Rightarrow> disk_files \<Rightarrow> bool" where
  "lists_dir dir es d \<longleftrightarrow>
     (\<exists>ps. es = map Inr ps \<and> set ps \<inter> fst ` set d = {p \<in> fst ` set d. p \<noteq> [] \<and> butlast p = dir}
        \<and> (\<forall>p \<in> set ps. p \<noteq> [] \<and> butlast p = dir))"

lemma remove_downloads_filter:
  "remove_downloads (\<lambda>_. False) (map Inr ps) d
     = (True, filter (\<lambda>q. \<not> (fst q \<in> set ps \<and> extension (last (fst q)) = Some ''download'')) d)"
proof (induction ps arbitrary: d)
  case Nil
  then show ?case by simp
next
  case (Cons p ps)
  show ?case
    by (simp add: Cons.IH am_remove_def) (auto intro: filter_cong)
qed

lemma remove_downloads_clean:
  assumes "lists_dir (resolve_path (join_path dir ''tmp'')) es d"
  shows "remove_downloads (\<lambda>_. False) es d = (True, clean_temp_dir False dir d)"
proof -
  obtain ps where ps: "es = map Inr ps"
    "set ps \<inter> fst ` set d = {p \<in> fst ` set d. p \<noteq> [] \<and> butlast p = resolve_path (join_path dir ''tmp'')}"
    using assms unfolding lists_dir_def by blast
  have "fst q \<in> set ps \<longleftrightarrow> fst q \<noteq> [] \<and> butlast (fst q) = resolve_path (join_path dir ''tmp'')"
    if "q \<in> set d" for q
    using ps(2) that by blast
  then have "filter (\<lambda>q. \<not> (fst q \<in> set ps \<and> extension (last (fst q)) = Some ''download'')) d
      = filter (\<lambda>q. \<not> stale_download (resolve_path (join_path dir ''tmp'')) (fst q)) d"
    by (intro filter_cong) (auto simp: stale_download_def)
  then show ?thesis by (simp add: ps(1) remove_downloads_filter clean_temp_dir_def)
qed

subsection \<open>The start\<close>

text \<open>What the start sees of the system: \<open>so_cache\<close> is \<open>None\<close> where the cache cannot be opened.\<close>

record start_obs =
  so_cache :: "cache_db option option"
  so_temp_made :: bool
  so_temp_opened :: bool
  so_entries :: "(unit + string list) list"
  so_unlink_fails :: "string list \<Rightarrow> bool"
  so_bound :: bool
  so_clock :: u64

definition run_proxy ::
    "('p, 'x) client_lib \<Rightarrow> start_obs \<Rightarrow> config \<Rightarrow> disk_files
       \<Rightarrow> (start_error + 'p client_settings \<times> app_state) \<times> disk_files" where
  "run_proxy lib obs cfg d =
     (case http_client lib cfg of
        Inl e \<Rightarrow> (Inl e, d)
      | Inr client \<Rightarrow>
          (case so_cache obs of
             None \<Rightarrow> (Inl Cache_not_opened, d)
           | Some db \<Rightarrow>
               if \<not> so_temp_made obs \<or> \<not> so_temp_opened obs then (Inl Temp_dir_failed, d)
               else
                 (case remove_downloads (so_unlink_fails obs) (so_entries obs) d of
                    (False, d1) \<Rightarrow> (Inl Temp_dir_failed, d1)
                  | (True, d1) \<Rightarrow>
                      (if so_bound obs then Inr (client, from_config cfg db d1 (so_clock obs))
                       else Inl Bind_failed, d1))))"

definition proxy_main ::
    "(string \<Rightarrow> yaml_config option) \<Rightarrow> os_view \<Rightarrow> string list \<Rightarrow> cli_options \<Rightarrow> env
       \<Rightarrow> ('p, 'x) client_lib \<Rightarrow> start_obs \<Rightarrow> disk_files
       \<Rightarrow> (start_error + 'p client_settings \<times> app_state) \<times> disk_files" where
  "proxy_main yaml_of os argv opts e lib obs d =
     (case load_config yaml_of os argv opts e of
        Inl err \<Rightarrow> (Inl (Config_failed err), d)
      | Inr cfg \<Rightarrow> run_proxy lib obs cfg d)"

text \<open>When nothing fails the state is that of \<open>start_proxy\<close>, for which \<open>startup_clean\<close> is proved.\<close>

lemma run_proxy_starts:
  assumes "http_client lib cfg = Inr client" "so_cache obs = Some db" "so_temp_made obs" "so_temp_opened obs"
    and "lists_dir (resolve_path (join_path (cfg_cache_dir cfg) ''tmp'')) (so_entries obs) d"
    and "so_unlink_fails obs = (\<lambda>_. False)" "so_bound obs"
  shows "fst (run_proxy lib obs cfg d) = Inr (client, start_proxy cfg db False d (so_clock obs))"
  using assms
  by (simp add: run_proxy_def remove_downloads_clean start_proxy_def from_config_def on_disk_def new_cache_def
      Let_def)

text \<open>Every error before the listing leaves the files as they are, and no error starts the proxy.\<close>

lemma failed_start_keeps_files:
  assumes "fst (run_proxy lib obs cfg d) = Inl e" "e \<notin> {Temp_dir_failed, Bind_failed}"
  shows "snd (run_proxy lib obs cfg d) = d"
  using assms by (auto simp: run_proxy_def split: sum.splits option.splits if_splits prod.splits bool.splits)

text \<open>
  The directory is cleaned before the address is bound. A second proxy started by mistake beside a
  running one, for the same directory and address, removes the files of all running downloads and
  only then fails.
\<close>

lemma second_start_removes_downloads:
  assumes "http_client lib cfg = Inr client" "so_cache obs = Some db" "so_temp_made obs" "so_temp_opened obs"
    and "lists_dir (resolve_path (join_path (cfg_cache_dir cfg) ''tmp'')) (so_entries obs) d"
    and "so_unlink_fails obs = (\<lambda>_. False)" "\<not> so_bound obs"
    and "stale_download (resolve_path (join_path (cfg_cache_dir cfg) ''tmp'')) p"
  shows "fst (run_proxy lib obs cfg d) = Inl Bind_failed \<and> am_get p (snd (run_proxy lib obs cfg d)) = None"
  using assms am_get_filter_keys [of p "\<lambda>k. \<not> stale_download (resolve_path (join_path (cfg_cache_dir cfg) ''tmp'')) k" d]
  by (simp add: run_proxy_def remove_downloads_clean clean_temp_dir_def)

end
