(* ===== verification/Ctl_Values.thy ===== *)
theory Ctl_Values
  imports Freshness Disk_Cache
begin

text \<open>
  The values of \<open>src/src/bin/blitzctl/cache_cli.rs\<close>: sizes and durations on the command line,
  times in a listing, and the size and age constraints of \<open>find\<close>. A file of a listing is the
  \<open>cached_file\<close> of the theory Disk\_Cache.
\<close>

subsection \<open>Sizes and durations\<close>

definition checked_mul :: "nat \<Rightarrow> nat \<Rightarrow> nat option" where
  "checked_mul n m = (if n * m \<le> u64_max then Some (n * m) else None)"

definition size_suffix :: "char \<Rightarrow> nat option" where
  "size_suffix c =
     (if c = CHR ''k'' \<or> c = CHR ''K'' then Some 1024
      else if c = CHR ''m'' \<or> c = CHR ''M'' then Some (1024 * 1024)
      else if c = CHR ''g'' \<or> c = CHR ''G'' then Some (1024 * 1024 * 1024)
      else if c = CHR ''t'' \<or> c = CHR ''T'' then Some (1024 * 1024 * 1024 * 1024)
      else None)"

definition duration_suffix :: "char \<Rightarrow> nat option" where
  "duration_suffix c =
     (if c = CHR ''s'' \<or> c = CHR ''S'' then Some 1
      else if c = CHR ''m'' \<or> c = CHR ''M'' then Some 60
      else if c = CHR ''h'' \<or> c = CHR ''H'' then Some 3600
      else if c = CHR ''d'' \<or> c = CHR ''D'' then Some 86400
      else if c = CHR ''w'' \<or> c = CHR ''W'' then Some 604800
      else None)"

text \<open>The two parsers differ in their suffixes only.\<close>

definition parse_scaled :: "(char \<Rightarrow> nat option) \<Rightarrow> string \<Rightarrow> nat option" where
  "parse_scaled scale s =
     (let arg = trim s in
      if arg = [] then None
      else
        let (digits, mult) = (case scale (last arg) of Some m \<Rightarrow> (butlast arg, m) | None \<Rightarrow> (arg, 1)) in
        case parse_uint u64_max (trim digits) of None \<Rightarrow> None | Some n \<Rightarrow> checked_mul n mult)"

definition parse_size :: "string \<Rightarrow> nat option" where
  "parse_size = parse_scaled size_suffix"

definition parse_duration :: "string \<Rightarrow> nat option" where
  "parse_duration = parse_scaled duration_suffix"

definition quoted :: "string \<Rightarrow> string" where
  "quoted s = [CHR 0x27] @ s @ [CHR 0x27]"

definition parse_size_arg :: "string \<Rightarrow> string + nat" where
  "parse_size_arg arg =
     (case parse_size arg of
        Some n \<Rightarrow> Inr n
      | None \<Rightarrow> Inl (''invalid size '' @ quoted arg @
          '' (expected bytes or a k/m/g/t suffix, e.g. 1024, 1k, 2M, 1G)''))"

definition parse_duration_arg :: "string \<Rightarrow> string + nat" where
  "parse_duration_arg arg =
     (case parse_duration arg of
        Some n \<Rightarrow> Inr n
      | None \<Rightarrow> Inl (''invalid duration '' @ quoted arg @
          '' (expected a number with an s/m/h/d/w suffix, e.g. 30m, 6h, 2d, 1w)''))"

subsection \<open>Times\<close>

definition pad2 :: "nat \<Rightarrow> string" where
  "pad2 n = (if n < 10 then CHR ''0'' # dec n else dec n)"

definition human_duration :: "nat \<Rightarrow> string" where
  "human_duration secs =
     pad2 (secs div 3600) @ '':'' @ pad2 (secs mod 3600 div 60) @ '':'' @ pad2 (secs mod 60)"

definition SIX_MONTHS_SECS :: int where
  "SIX_MONTHS_SECS = 31556952 div 2"

definition is_ls_recent :: "int \<Rightarrow> int \<Rightarrow> bool" where
  "is_ls_recent secs now \<longleftrightarrow> now - SIX_MONTHS_SECS < secs \<and> secs < now"

definition ls_ts_format :: "bool \<Rightarrow> string" where
  "ls_ts_format recent = (if recent then ''%b %e %H:%M'' else ''%b %e  %Y'')"

definition expiry_str :: "nat option \<Rightarrow> string" where
  "expiry_str expiry =
     (case expiry of Some s \<Rightarrow> if s > 0 then human_duration s else ''expired'' | None \<Rightarrow> ''expired'')"

definition freshness_str :: "nat option \<Rightarrow> string" where
  "freshness_str fresh =
     (case fresh of
        Some s \<Rightarrow> if s > 0 then human_duration s else ''expired / not cacheable''
      | None \<Rightarrow> ''expired / not cacheable'')"

subsection \<open>The constraints of \<open>find\<close>\<close>

record find_filter =
  ff_min_size :: "nat option"
  ff_max_size :: "nat option"
  ff_cached_min_age :: "nat option"
  ff_cached_max_age :: "nat option"
  ff_access_min_age :: "nat option"
  ff_access_max_age :: "nat option"

text \<open>The ages are compared as \<open>i64\<close>; the difference of two times saturates.\<close>

definition age_of :: "int \<Rightarrow> int \<Rightarrow> int" where
  "age_of now t = sat_i64 (now - t)"

definition passes :: "find_filter \<Rightarrow> int \<Rightarrow> cached_file \<Rightarrow> bool" where
  "passes f now e =
     (if (case ff_min_size f of Some m \<Rightarrow> cf_size e < m | None \<Rightarrow> False) then False
      else if (case ff_max_size f of Some m \<Rightarrow> cf_size e > m | None \<Rightarrow> False) then False
      else if (case ff_cached_min_age f of Some a \<Rightarrow> age_of now (cf_cached_at e) < wrap_i64 (int a) | None \<Rightarrow> False)
      then False
      else if (case ff_cached_max_age f of Some a \<Rightarrow> age_of now (cf_cached_at e) > wrap_i64 (int a) | None \<Rightarrow> False)
      then False
      else if (case ff_access_min_age f of Some a \<Rightarrow> age_of now (cf_last_access e) < wrap_i64 (int a) | None \<Rightarrow> False)
      then False
      else if (case ff_access_max_age f of Some a \<Rightarrow> age_of now (cf_last_access e) > wrap_i64 (int a) | None \<Rightarrow> False)
      then False
      else True)"

subsection \<open>Facts\<close>

lemma is_digit_suffix: "is_digit c \<Longrightarrow> size_suffix c = None \<and> duration_suffix c = None"
proof -
  assume d: "is_digit c"
  have "\<not> is_digit x" if "x \<in> set ''kKmMgGtTsShHdDwW''" for x
    using that by (auto simp: is_digit_def)
  then have "c \<notin> set ''kKmMgGtTsShHdDwW''" using d by blast
  then show ?thesis by (simp add: size_suffix_def duration_suffix_def)
qed

lemma not_ws_suffix: "size_suffix c \<noteq> None \<or> duration_suffix c \<noteq> None \<Longrightarrow> \<not> is_ws c"
proof -
  assume s: "size_suffix c \<noteq> None \<or> duration_suffix c \<noteq> None"
  have "c \<in> set ''kKmMgGtTsShHdDwW''"
  proof (rule ccontr)
    assume "c \<notin> set ''kKmMgGtTsShHdDwW''"
    then show False using s by (simp add: size_suffix_def duration_suffix_def)
  qed
  moreover have "\<not> is_ws x" if "x \<in> set ''kKmMgGtTsShHdDwW''" for x
    using that by (auto simp: is_ws_def)
  ultimately show ?thesis by blast
qed

text \<open>A number with a suffix counts that many units, or is refused when that is more than a u64 holds.\<close>

lemma parse_scaled_suffix:
  assumes "scale c = Some m" "\<not> is_ws c" "n \<le> u64_max"
  shows "parse_scaled scale (dec n @ [c]) = checked_mul n m"
proof -
  have "trim (dec n @ [c]) = dec n @ [c]" by (rule trim_id) (use assms(2) in simp)
  then show ?thesis using assms by (simp add: parse_scaled_def parse_uint_dec)
qed

lemma parse_scaled_plain:
  assumes "\<And>c. is_digit c \<Longrightarrow> scale c = None" "n \<le> u64_max"
  shows "parse_scaled scale (dec n) = Some n"
proof -
  have "scale (last (dec n)) = None" using assms(1) dec_digits [of "last (dec n)" n] by simp
  then show ?thesis using assms(2) by (simp add: parse_scaled_def parse_uint_dec checked_mul_def)
qed

lemma sizes_and_durations:
  assumes "n \<le> u64_max"
  shows "parse_size (dec n) = Some n" "parse_duration (dec n) = Some n"
    "size_suffix c = Some m \<Longrightarrow> parse_size (dec n @ [c]) = checked_mul n m"
    "duration_suffix c = Some m \<Longrightarrow> parse_duration (dec n @ [c]) = checked_mul n m"
  using assms parse_scaled_plain [of size_suffix n] parse_scaled_plain [of duration_suffix n]
    parse_scaled_suffix [of size_suffix c m n] parse_scaled_suffix [of duration_suffix c m n]
    is_digit_suffix not_ws_suffix [of c]
  by (auto simp: parse_size_def parse_duration_def)

text \<open>Hours, minutes and seconds add up, and minutes and seconds have two digits.\<close>

lemma human_duration_parts:
  fixes secs :: nat
  shows "secs = secs div 3600 * 3600 + secs mod 3600 div 60 * 60 + secs mod 60"
    and "n < 60 \<Longrightarrow> length (pad2 n) = 2"
proof -
  have "secs mod 3600 mod 60 = secs mod 60" by (rule mod_mod_cancel) simp
  then show "secs = secs div 3600 * 3600 + secs mod 3600 div 60 * 60 + secs mod 60"
    by (metis add.assoc div_mult_mod_eq)
  show "length (pad2 n) = 2" if "n < 60"
  proof -
    have "n div 10 \<le> 59 div 10" by (rule div_le_mono) (use that in simp)
    then show ?thesis by (simp add: pad2_def dec.simps)
  qed
qed

text \<open>
  An age of 2^63 seconds or more is negative as an \<open>i64\<close>: as a least age it lets everything
  pass that is not younger, as a greatest age it keeps out what is of this very moment.
\<close>

lemma huge_age_wraps:
  assumes "cf_cached_at e = now"
  shows "passes \<lparr>ff_min_size = None, ff_max_size = None, ff_cached_min_age = Some (2 ^ 63), ff_cached_max_age = None,
      ff_access_min_age = None, ff_access_max_age = None\<rparr> now e"
    "\<not> passes \<lparr>ff_min_size = None, ff_max_size = None, ff_cached_min_age = None, ff_cached_max_age = Some (2 ^ 63),
      ff_access_min_age = None, ff_access_max_age = None\<rparr> now e"
  using assms by (simp_all add: passes_def age_of_def sat_i64_def wrap_i64_def)

end
