(* ===== verification/Ctl_Select.thy ===== *)
theory Ctl_Select
  imports Proxy_Rules Disk_Cache
begin

text \<open>
  How \<open>src/src/bin/blitzctl/cache_cli.rs\<close> names cached entries: host and path of a URL, the alias
  a \<open>url_map\<close> gives it, the selectors of the commands and the entries they select. The crate
  \<open>url\<close> is a parameter: \<open>url_parts\<close> gives the host, when there is one, and the path.
\<close>

type_synonym url_parser = "string \<Rightarrow> (string option \<times> string) option"

definition host_and_path :: "url_parser \<Rightarrow> string \<Rightarrow> string \<times> string" where
  "host_and_path url_parts url =
     (case url_parts url of
        Some (h, p) \<Rightarrow> (case h of Some x \<Rightarrow> x | None \<Rightarrow> ''(unknown)'', p)
      | None \<Rightarrow> (''(unknown)'', url))"

definition normalize_target :: "string \<Rightarrow> string" where
  "normalize_target s = (case find_str ''://'' s of Some i \<Rightarrow> drop (i + 3) s | None \<Rightarrow> s)"

datatype perspective = Alias | Real

definition perspective_for :: "string \<Rightarrow> url_map list \<Rightarrow> perspective" where
  "perspective_for hostname maps = (if \<exists>m \<in> set maps. fake_host m = hostname then Alias else Real)"

text \<open>The reverse of \<open>resolve_url\<close>.\<close>

definition reverse_prefix :: "string \<Rightarrow> url_map \<Rightarrow> string option" where
  "reverse_prefix url m =
     (case strip_prefix (trim_end_char (CHR ''/'') (real_base m)) url of
        Some rest \<Rightarrow> if rest = [] \<or> starts_with rest ''/'' then Some rest else None
      | None \<Rightarrow> None)"

fun reverse_resolve :: "url_parser \<Rightarrow> string \<Rightarrow> url_map list \<Rightarrow> string \<times> string" where
  "reverse_resolve url_parts url [] = host_and_path url_parts url"
| "reverse_resolve url_parts url (m # maps) =
     (case reverse_prefix url m of
        Some rest \<Rightarrow> (fake_host m, rest)
      | None \<Rightarrow> reverse_resolve url_parts url maps)"

record resolved =
  rv_real_host :: string
  rv_real_path :: string
  rv_disp_host :: string
  rv_disp_path :: string

definition resolved_new :: "url_parser \<Rightarrow> string \<Rightarrow> url_map list \<Rightarrow> resolved" where
  "resolved_new url_parts url maps =
     (let (rh, rp) = host_and_path url_parts url; (dh, dp) = reverse_resolve url_parts url maps in
      \<lparr>rv_real_host = rh, rv_real_path = rp, rv_disp_host = dh, rv_disp_path = dp\<rparr>)"

definition host_matches :: "string \<Rightarrow> resolved \<Rightarrow> bool" where
  "host_matches hostname r \<longleftrightarrow> rv_disp_host r = hostname \<or> rv_real_host r = hostname"

definition rv_host :: "perspective \<Rightarrow> resolved \<Rightarrow> string" where
  "rv_host p r = (case p of Alias \<Rightarrow> rv_disp_host r | Real \<Rightarrow> rv_real_host r)"

definition rv_path :: "perspective \<Rightarrow> resolved \<Rightarrow> string" where
  "rv_path p r = (case p of Alias \<Rightarrow> rv_disp_path r | Real \<Rightarrow> rv_real_path r)"

record target =
  tg_host :: string
  tg_prefix :: "string option"

definition parse_target :: "string \<Rightarrow> target" where
  "parse_target s =
     (case find_char (\<lambda>c. c = CHR ''/'') s of
        Some i \<Rightarrow> \<lparr>tg_host = take i s, tg_prefix = Some (drop i s)\<rparr>
      | None \<Rightarrow> \<lparr>tg_host = s, tg_prefix = None\<rparr>)"

text \<open>\<open>Inl\<close> is the error; its text names the host.\<close>

definition validate_host :: "string \<Rightarrow> string + unit" where
  "validate_host hostname =
     (if contains_char (CHR ''/'') hostname
      then Inl (''host '' @ [CHR 0x27] @ hostname @ [CHR 0x27] @
        '' must be a plain hostname; use `blitzctl cache <cmd> HOST [PATH]`'')
      else Inr ())"

definition join_host_path :: "string \<Rightarrow> string \<Rightarrow> string" where
  "join_host_path hostname path =
     (let p = trim_char (CHR ''/'') path in if p = [] then hostname else hostname @ ''/'' @ p)"

definition basename :: "string \<Rightarrow> string" where
  "basename path = last (split_on (CHR ''/'') path)"

definition is_glob_char :: "char \<Rightarrow> bool" where
  "is_glob_char c \<longleftrightarrow> c = CHR ''*'' \<or> c = CHR ''?''"

definition glob_base :: "string \<Rightarrow> string" where
  "glob_base tgt =
     (case find_char is_glob_char tgt of
        None \<Rightarrow> []
      | Some i \<Rightarrow> (case rfind_char (\<lambda>c. c = CHR ''/'') (take i tgt) of
            Some k \<Rightarrow> take (k + 1) tgt
          | None \<Rightarrow> []))"

subsection \<open>Selecting entries\<close>

text \<open>The entries of a host, and those of a host below a prefix of the path (\<open>tree\<close>, \<open>rm\<close>).\<close>

definition in_target :: "url_parser \<Rightarrow> url_map list \<Rightarrow> target \<Rightarrow> string \<Rightarrow> bool" where
  "in_target url_parts maps t url \<longleftrightarrow>
     (let r = resolved_new url_parts url maps; p = perspective_for (tg_host t) maps in
      host_matches (tg_host t) r \<and>
      (case tg_prefix t of None \<Rightarrow> True | Some pre \<Rightarrow> starts_with (rv_path p r) pre))"

text \<open>\<open>info_matches\<close>: exactly this path.\<close>

definition info_matches ::
    "url_parser \<Rightarrow> string \<Rightarrow> string \<Rightarrow> url_map list \<Rightarrow> perspective \<Rightarrow> cache_entry_detail list \<Rightarrow> cache_entry_detail list" where
  "info_matches url_parts hostname path maps p details =
     (let want = trim_char (CHR ''/'') path in
      filter (\<lambda>d. let r = resolved_new url_parts (ce_url d) maps in
        host_matches hostname r \<and> trim_start_char (CHR ''/'') (rv_path p r) = want) details)"

datatype select_error = No_entry string string | Ambiguous string string "string list"

text \<open>What a command fails with.\<close>

datatype ctl_error = Not_initialized | Bad_host string | Path_required | Cache_failed cache_error
  | Select_failed select_error | Stored_file_missing | No_file_name string | No_directory string
  | Destination_exists string | Create_failed | Bad_pattern

definition resolve_unique ::
    "url_parser \<Rightarrow> string \<Rightarrow> string \<Rightarrow> url_map list \<Rightarrow> perspective \<Rightarrow> cache_entry_detail list
       \<Rightarrow> select_error + cache_entry_detail" where
  "resolve_unique url_parts hostname path maps p details =
     (case info_matches url_parts hostname path maps p details of
        [only] \<Rightarrow> Inr only
      | [] \<Rightarrow> Inl (No_entry hostname path)
      | many \<Rightarrow> Inl (Ambiguous hostname path (map ce_url many)))"

subsection \<open>Aliases\<close>

lemma reverse_resolve_unique:
  assumes "m \<in> set maps" "reverse_prefix url m = Some rest"
    and "\<forall>m' \<in> set maps. reverse_prefix url m' \<noteq> None \<longrightarrow> m' = m"
  shows "reverse_resolve url_parts url maps = (fake_host m, rest)"
  using assms
proof (induction maps)
  case Nil
  then show ?case by simp
next
  case (Cons x maps)
  show ?case
  proof (cases "reverse_prefix url x")
    case None
    then have "x \<noteq> m" using Cons.prems(2) by auto
    then have "m \<in> set maps" using Cons.prems(1) by simp
    from Cons.IH [OF this Cons.prems(2)] show ?thesis using Cons.prems(3) None by simp
  next
    case (Some r)
    then have "x = m" using Cons.prems(3) by simp
    then show ?thesis using Some Cons.prems(2) by simp
  qed
qed

lemma find_fake_host:
  assumes "m \<in> set maps" "distinct (map fake_host maps)"
  shows "List.find (\<lambda>x. fake_host x = fake_host m) maps = Some m"
  using assms by (induction maps) auto


definition demo_maps :: "url_map list" where
  "demo_maps = [\<lparr>fake_host = ''deb'', real_base = ''http://a/debian/''\<rparr>, \<lparr>fake_host = ''sec'', real_base = ''http://b''\<rparr>]"

lemma demo_url: "resolve_url (''http://'' @ ''deb'' @ ''/pool/x'') demo_maps = ''http://a/debian/pool/x''"
  by (simp add: demo_maps_def resolve_prefix_def starts_with_def trim_end_char_def)


text \<open>
  Maps whose bases lie below each other are shown under the first of them: what is asked for
  under the fake host of the second is listed under that of the first.
\<close>

lemma nested_base_wrong_alias:
  "let maps = [\<lparr>fake_host = ''all'', real_base = ''http://a''\<rparr>, \<lparr>fake_host = ''deb'', real_base = ''http://a/debian''\<rparr>]
   in reverse_resolve url_parts (resolve_url ''http://deb/x'' maps) maps = (''all'', ''/debian/x'')"
  by (simp add: resolve_prefix_def reverse_prefix_def starts_with_def trim_end_char_def Let_def)

text \<open>A prefix is compared as text, not by whole names: a selector also takes what only begins like it.\<close>

lemma prefix_takes_siblings:
  assumes "url_parts url = Some (Some ''h'', ''/poolside/x'')"
  shows "in_target url_parts [] (parse_target ''h/pool'') url"
  using assms
  by (simp add: in_target_def parse_target_def resolved_new_def host_and_path_def host_matches_def
      perspective_for_def rv_path_def starts_with_def Let_def)

text \<open>\<open>cat\<close> and \<open>cp\<close> take an entry only when it is the only one of that host and path.\<close>

lemma resolve_unique_Inr:
  "resolve_unique url_parts hostname path maps p details = Inr d \<longleftrightarrow>
     info_matches url_parts hostname path maps p details = [d]"
  by (auto simp: resolve_unique_def split: list.splits)

end
