(* ===== verification/Ctl_Tree.thy ===== *)
theory Ctl_Tree
  imports Rust_Str "HOL-Library.List_Lexorder" "HOL-Library.Char_ord"
begin

text \<open>
  \<open>TreeNode\<close> of \<open>src/src/bin/blitzctl/cache_cli.rs\<close>: the tree of directories and files that
  \<open>cache tree\<close> prints. A \<open>BTreeMap\<close> is the list of its entries in the order of the keys. Sizes are
  added as natural numbers; the sum of a cache is far below the limit of a \<open>u64\<close>.
\<close>

datatype tree_node =
  Tree_node (nd_name: string) (nd_is_dir: bool) (nd_size: nat) (nd_count: nat)
    (nd_children: "(string \<times> tree_node) list")

definition new_node :: "string \<Rightarrow> bool \<Rightarrow> tree_node" where
  "new_node name is_dir = Tree_node name is_dir 0 0 []"

text \<open>\<open>entry(k).or_insert_with(..)\<close> and the change of the entry, in a map in the order of the keys.\<close>

fun upsert :: "string \<Rightarrow> 'a \<Rightarrow> ('a \<Rightarrow> 'a) \<Rightarrow> (string \<times> 'a) list \<Rightarrow> (string \<times> 'a) list" where
  "upsert k d f [] = [(k, f d)]"
| "upsert k d f ((k', v) # m) =
     (if k = k' then (k', f v) # m
      else if k < k' then (k, f d) # (k', v) # m
      else (k', v) # upsert k d f m)"

text \<open>The change of a child that is the file itself, and the totals on the way to it.\<close>

fun add_leaf :: "nat \<Rightarrow> tree_node \<Rightarrow> tree_node" where
  "add_leaf sz (Tree_node nm d s c ch) = Tree_node nm False (s + sz) (c + 1) ch"

fun add_total :: "nat \<Rightarrow> ((string \<times> tree_node) list \<Rightarrow> (string \<times> tree_node) list) \<Rightarrow> tree_node \<Rightarrow> tree_node" where
  "add_total sz f (Tree_node nm d s c ch) = Tree_node nm d (s + sz) (c + 1) (f ch)"

fun as_dir :: "tree_node \<Rightarrow> tree_node" where
  "as_dir (Tree_node nm d s c ch) = Tree_node nm True s c ch"

fun insert_comps :: "string list \<Rightarrow> nat \<Rightarrow> tree_node \<Rightarrow> tree_node" where
  "insert_comps [] sz node = add_total sz id node"
| "insert_comps [c] sz node = add_total sz (upsert c (new_node c False) (add_leaf sz)) node"
| "insert_comps (c # c' # rest) sz node =
     add_total sz (upsert c (new_node c True) (\<lambda>e. insert_comps (c' # rest) sz (as_dir e))) node"

definition path_comps :: "string \<Rightarrow> string list" where
  "path_comps path = filter (\<lambda>s. s \<noteq> []) (split_on (CHR ''/'') path)"

definition tree_insert :: "string \<Rightarrow> nat \<Rightarrow> tree_node \<Rightarrow> tree_node" where
  "tree_insert path sz node = insert_comps (path_comps path) sz node"

text \<open>
  The lines of \<open>print_tree\<close>: directories first, each group by name. The text for a size is a
  parameter, the two branch signs and the bar are the box characters.
\<close>

definition dirs_first :: "tree_node list \<Rightarrow> tree_node list" where
  "dirs_first ns = sort_key (\<lambda>n. (if nd_is_dir n then 0 else 1 :: nat)) (sort_key nd_name ns)"

definition branch_sign :: "bool \<Rightarrow> string" where
  "branch_sign last_one =
     (if last_one then [CHR 0xE2, CHR 0x94, CHR 0x94] else [CHR 0xE2, CHR 0x94, CHR 0x9C])
     @ [CHR 0xE2, CHR 0x94, CHR 0x80, CHR 0xE2, CHR 0x94, CHR 0x80, CHR '' '']"

definition bar_sign :: "bool \<Rightarrow> string" where
  "bar_sign last_one = (if last_one then '' '' else [CHR 0xE2, CHR 0x94, CHR 0x82]) @ ''    ''"

lemma child_smaller:
  "(k, n) \<in> set (nd_children node) \<Longrightarrow> size n < size node"
proof -
  have "(k, n) \<in> set ch \<Longrightarrow> size n < Suc (size_list (size_prod (\<lambda>x. 0) size) ch)" for ch :: "(string \<times> tree_node) list"
    by (induction ch) auto
  then show "(k, n) \<in> set (nd_children node) \<Longrightarrow> size n < size node" by (cases node) fastforce
qed

lemma in_dirs_first: "n \<in> set (dirs_first ns) \<longleftrightarrow> n \<in> set ns"
  by (simp add: dirs_first_def)

function tree_lines :: "(nat \<Rightarrow> string) \<Rightarrow> bool \<Rightarrow> string \<Rightarrow> tree_node \<Rightarrow> string list" where
  "tree_lines human files pre node =
     (let ns = dirs_first (map snd (nd_children node)) in
      concat (map (\<lambda>(i, child).
        let last_one = (i = length ns - 1) in
        if nd_is_dir child then
          (pre @ branch_sign last_one @ nd_name child @ ''/  ('' @ human (nd_size child) @ '' , ''
             @ dec (nd_count child) @ '' files)'')
          # tree_lines human files (pre @ bar_sign last_one) child
        else if files then [pre @ branch_sign last_one @ nd_name child @ ''  ('' @ human (nd_size child) @ '')'']
        else []) (enumerate 0 ns)))"
  by pat_completeness auto

termination
proof (relation "measure (\<lambda>(human, files, pre, node). size node)", goal_cases)
  case 1
  then show ?case by simp
next
  case (2 human files pre node ns x i child last_one)
  then have "child \<in> set (dirs_first (map snd (nd_children node)))" by (auto simp: in_set_enumerate_eq dest: nth_mem)
  then show ?case using child_smaller [of _ child node] by (auto simp: in_dirs_first)
qed

declare tree_lines.simps [simp del]

subsection \<open>The totals of a directory\<close>

fun node_at :: "string list \<Rightarrow> tree_node \<Rightarrow> tree_node option" where
  "node_at [] n = Some n"
| "node_at (c # cs) n = (case map_of (nd_children n) c of None \<Rightarrow> None | Some m \<Rightarrow> node_at cs m)"

definition totals_at :: "string list \<Rightarrow> tree_node \<Rightarrow> nat \<times> nat" where
  "totals_at cs n = (case node_at cs n of None \<Rightarrow> (0, 0) | Some m \<Rightarrow> (nd_size m, nd_count m))"

inductive tree_ok :: "tree_node \<Rightarrow> bool" where
  "sorted_wrt (<) (map fst ch) \<Longrightarrow> (\<And>k n. (k, n) \<in> set ch \<Longrightarrow> tree_ok n) \<Longrightarrow> tree_ok (Tree_node nm d s c ch)"

inductive_simps tree_ok_node [simp]: "tree_ok (Tree_node nm d s c ch)"

lemma fst_upsert: "fst ` set (upsert k d f m) = insert k (fst ` set m)"
  by (induction k d f m rule: upsert.induct) auto

lemma upsert_sorted: "sorted_wrt (<) (map fst m) \<Longrightarrow> sorted_wrt (<) (map fst (upsert k d f m))"
proof (induction k d f m rule: upsert.induct)
  case (1 k d f)
  then show ?case by simp
next
  case (2 k d f k' v m)
  have "\<forall>x \<in> fst ` set (upsert k d f m). k' < x" if "k' < k"
    unfolding fst_upsert using that 2(2) by auto
  then show ?case using 2 by (auto simp: not_less_iff_gr_or_eq)
qed

lemma map_of_upsert:
  "sorted_wrt (<) (map fst m) \<Longrightarrow>
     map_of (upsert k d f m) x =
       (if x = k then Some (f (case map_of m k of Some v \<Rightarrow> v | None \<Rightarrow> d)) else map_of m x)"
proof (induction k d f m rule: upsert.induct)
  case (1 k d f)
  then show ?case by simp
next
  case (2 k d f k' v m)
  have "map_of m k = None" if "k < k'"
    using that 2(2) by (fastforce simp: map_of_eq_None_iff)
  then show ?case using 2 by auto
qed

lemma set_upsert:
  "(x, n) \<in> set (upsert k d f m) \<Longrightarrow> (x, n) \<in> set m \<or> x = k \<and> (n = f d \<or> (\<exists>v. (x, v) \<in> set m \<and> n = f v))"
  by (induction k d f m rule: upsert.induct) (auto split: if_splits)

lemma as_dir_simps [simp]:
  "nd_children (as_dir e) = nd_children e" "nd_size (as_dir e) = nd_size e" "nd_count (as_dir e) = nd_count e"
  "tree_ok (as_dir e) = tree_ok e"
  by (cases e; simp)+

lemma add_leaf_simps [simp]:
  "nd_children (add_leaf sz e) = nd_children e" "nd_size (add_leaf sz e) = nd_size e + sz"
  "nd_count (add_leaf sz e) = nd_count e + 1" "tree_ok (add_leaf sz e) = tree_ok e"
  by (cases e; simp)+

lemma add_total_simps [simp]:
  "nd_children (add_total sz f e) = f (nd_children e)" "nd_size (add_total sz f e) = nd_size e + sz"
  "nd_count (add_total sz f e) = nd_count e + 1"
  by (cases e; simp)+

lemma tree_ok_alt:
  "tree_ok e \<longleftrightarrow> sorted_wrt (<) (map fst (nd_children e)) \<and> (\<forall>(k, n) \<in> set (nd_children e). tree_ok n)"
  by (cases e) auto

lemma tree_ok_new [simp]: "tree_ok (new_node c b)"
  by (simp add: new_node_def)

lemma tree_ok_upsert:
  assumes "tree_ok e" "tree_ok (f d)" "\<And>n. tree_ok n \<Longrightarrow> tree_ok (f n)"
  shows "tree_ok (add_total sz (upsert k d f) e)"
proof -
  have e: "sorted_wrt (<) (map fst (nd_children e))" "\<And>k n. (k, n) \<in> set (nd_children e) \<Longrightarrow> tree_ok n"
    using assms(1) unfolding tree_ok_alt [of e] by auto
  have "tree_ok n" if "(x, n) \<in> set (upsert k d f (nd_children e))" for x n
    using set_upsert [OF that] e(2) assms(2,3) by blast
  then show ?thesis
    unfolding tree_ok_alt [of "add_total sz (upsert k d f) e"] using upsert_sorted [OF e(1)] by auto
qed

lemma tree_ok_insert: "tree_ok n \<Longrightarrow> tree_ok (insert_comps cs sz n)"
proof (induction cs sz n rule: insert_comps.induct)
  case (1 sz node)
  then show ?case unfolding tree_ok_alt [of node] tree_ok_alt [of "insert_comps [] sz node"] by simp
next
  case (2 c sz node)
  then show ?case by (simp add: tree_ok_upsert)
next
  case (3 c c' rest sz node)
  have "tree_ok (insert_comps (c' # rest) sz (as_dir e))" if "tree_ok e" for e using 3(1) that by simp
  then show ?case using 3(2) by (simp add: tree_ok_upsert)
qed

text \<open>An insertion adds to the totals of the nodes on its path and to no others.\<close>

lemma totals_new: "totals_at cs (new_node c b) = (0, 0)"
  by (cases cs) (simp_all add: totals_at_def new_node_def)

lemma totals_Nil: "totals_at [] n = (nd_size n, nd_count n)"
  by (simp add: totals_at_def)

lemma totals_Cons:
  "totals_at (x # xs) n = (case map_of (nd_children n) x of None \<Rightarrow> (0, 0) | Some m \<Rightarrow> totals_at xs m)"
  by (simp add: totals_at_def split: option.split)

lemma totals_upsert:
  assumes "tree_ok n"
  shows "totals_at (x # xs) (add_total sz (upsert c d f) n) =
     (if x = c then totals_at xs (f (case map_of (nd_children n) c of Some v \<Rightarrow> v | None \<Rightarrow> d))
      else totals_at (x # xs) n)"
  using assms by (simp add: totals_Cons map_of_upsert tree_ok_alt [of n])

definition credit :: "string list \<Rightarrow> string list \<times> nat \<Rightarrow> nat \<times> nat" where
  "credit pre e = (if take (length pre) (fst e) = pre then (snd e, 1) else (0, 0))"

definition plus2 :: "nat \<times> nat \<Rightarrow> nat \<times> nat \<Rightarrow> nat \<times> nat" where
  "plus2 a b = (fst a + fst b, snd a + snd b)"

lemma credit_simps [simp]:
  "credit [] (cs, sz) = (sz, 1)" "credit (x # xs) ([], sz) = (0, 0)"
  "credit (x # xs) (c # cs, sz) = (if x = c then credit xs (cs, sz) else (0, 0))"
  by (auto simp: credit_def)

lemma plus2_zero [simp]: "plus2 a (0, 0) = a" "plus2 (0, 0) a = a"
  by (simp_all add: plus2_def)

lemma totals_as_dir [simp]: "totals_at cs (as_dir n) = totals_at cs n"
  by (cases cs) (simp_all add: totals_Nil totals_Cons)

lemma totals_insert:
  "tree_ok n \<Longrightarrow> totals_at pre (insert_comps cs sz n) = plus2 (totals_at pre n) (credit pre (cs, sz))"
proof (induction cs sz n arbitrary: pre rule: insert_comps.induct)
  case (1 sz node)
  then show ?case by (cases pre) (simp_all add: totals_Nil totals_Cons plus2_def)
next
  case (2 c sz node)
  show ?case
  proof (cases pre)
    case Nil
    then show ?thesis by (simp add: totals_Nil plus2_def)
  next
    case (Cons x xs)
    have leaf: "totals_at xs (add_leaf sz e) = plus2 (totals_at xs e) (credit xs ([], sz))" for e
      by (cases xs) (simp_all add: totals_Nil totals_Cons plus2_def)
    show ?thesis using 2 Cons leaf
      by (auto simp: totals_upsert totals_new totals_Cons [of x xs node] split: option.split)
  qed
next
  case (3 c c' rest sz node)
  show ?case
  proof (cases pre)
    case Nil
    then show ?thesis by (simp add: totals_Nil plus2_def)
  next
    case (Cons x xs)
    have sub: "totals_at xs (insert_comps (c' # rest) sz (as_dir e)) = plus2 (totals_at xs e) (credit xs (c' # rest, sz))"
      if "tree_ok e" for e using 3(1) that by simp
    have "tree_ok m" if "map_of (nd_children node) c = Some m" for m
      using 3(2) that by (auto simp: tree_ok_alt [of node] dest: map_of_SomeD)
    then show ?thesis using 3(2) Cons sub
      by (auto simp: totals_upsert totals_new totals_Cons [of x xs node] split: option.split)
  qed
qed

subsection \<open>Properties of the tree\<close>

definition tree_of :: "string \<Rightarrow> (string \<times> nat) list \<Rightarrow> tree_node" where
  "tree_of name entries = fold (\<lambda>(path, sz). tree_insert path sz) entries (new_node name True)"

definition below :: "string list \<Rightarrow> string \<times> nat \<Rightarrow> bool" where
  "below pre e \<longleftrightarrow> take (length pre) (path_comps (fst e)) = pre"

lemma totals_fold:
  "tree_ok n \<Longrightarrow>
     totals_at pre (fold (\<lambda>(path, sz). tree_insert path sz) entries n) =
       plus2 (totals_at pre n) (sum_list (map snd (filter (below pre) entries)), length (filter (below pre) entries))"
proof (induction entries arbitrary: n)
  case Nil
  then show ?case by (simp add: plus2_def)
next
  case (Cons e entries)
  obtain path sz where e: "e = (path, sz)" by (cases e)
  have "tree_ok (tree_insert path sz n)" using Cons.prems by (simp add: tree_insert_def tree_ok_insert)
  from Cons.IH [OF this] show ?case
    using totals_insert [OF Cons.prems, of pre "path_comps path" sz] e
    by (simp add: tree_insert_def plus2_def below_def credit_def)
qed

text \<open>
  C36. The totals a tree shows are those of the entries: for every directory or file, and for the
  host itself, the size is the sum of the sizes of the entries at and below it and the count
  is their number; a name that no entry has is not in the tree.
\<close>

theorem tree_totals:
  "totals_at pre (tree_of name entries) =
     (sum_list (map snd (filter (below pre) entries)), length (filter (below pre) entries))"
  unfolding tree_of_def using totals_fold [OF tree_ok_new] by (simp add: totals_new plus2_def)

text \<open>
  A name that is a file and a directory is what the last of its entries made it: when that is the
  file, the directory is not printed as one and what is below it is not printed at all.
\<close>

lemma file_hides_directory:
  "let t = tree_of ''h'' [(''/a/b'', 1), (''/a'', 2)] in
     map (\<lambda>(k, n). (k, nd_is_dir n)) (nd_children t) = [(''a'', False)] \<and> totals_at [''a'', ''b''] t = (1, 1)
     \<and> length (tree_lines (\<lambda>_. []) True [] t) = 1"
  by (simp add: tree_of_def tree_insert_def path_comps_def new_node_def totals_at_def tree_lines.simps dirs_first_def)

end
