(* ===== verification/Ctl_Listing.thy ===== *)
theory Ctl_Listing
  imports Ctl_Tree Ctl_Select Freshness "HOL-Library.Multiset"
begin

text \<open>
  \<open>cache ls\<close> of \<open>src/src/bin/blitzctl/cache_cli.rs\<close>: the children of a directory with their
  totals, their order, and the levels of a recursive listing. What is printed is a list of
  \<open>ls_out\<close>; the theory Ctl\_Output lays out its lines. How long an entry stays fresh is the parameter
  \<open>expiry\<close>, which \<open>entry_expiry\<close> gives.
\<close>

datatype sort_key = By_name | By_time | By_cached | By_size

record ls_opts =
  ls_long :: bool
  ls_human :: bool
  ls_recursive :: bool
  ls_oneline :: bool
  ls_sort :: sort_key
  ls_reverse :: bool

record ls_item =
  it_name :: string
  it_is_dir :: bool
  it_size :: nat
  it_cached_at :: int
  it_last_access :: int
  it_expiry :: "nat option"
  it_file_count :: nat

text \<open>\<open>time_until_expiry_map\<close>; \<open>None\<close> is the panic on a stored name that is not a header name.\<close>

definition entry_expiry ::
    "(string \<Rightarrow> int option) \<Rightarrow> int \<Rightarrow> nat \<Rightarrow> cache_entry_detail \<Rightarrow> nat option option" where
  "entry_expiry parse_date now max_age d =
     map_option (\<lambda>h. time_until_expiry parse_date now (ce_cached_at d) h max_age) (map_to_headers (ce_headers d) [])"

subsection \<open>The children of a directory\<close>

definition new_item :: "string \<Rightarrow> ls_item" where
  "new_item name = \<lparr>it_name = name, it_is_dir = False, it_size = 0, it_cached_at = 0, it_last_access = 0,
     it_expiry = None, it_file_count = 0\<rparr>"

definition add_entry :: "(cache_entry_detail \<Rightarrow> nat option) \<Rightarrow> bool \<times> cache_entry_detail \<Rightarrow> ls_item \<Rightarrow> ls_item" where
  "add_entry expiry = (\<lambda>(is_dir, d) it.
     if is_dir then
       it\<lparr>it_is_dir := True, it_size := it_size it + ce_size d, it_file_count := it_file_count it + 1,
          it_last_access := max (it_last_access it) (ce_last_access d),
          it_cached_at := max (it_cached_at it) (ce_cached_at d)\<rparr>
     else
       it\<lparr>it_size := ce_size d, it_file_count := 1, it_last_access := ce_last_access d,
          it_cached_at := ce_cached_at d, it_expiry := expiry d\<rparr>)"

text \<open>The name of the child an entry belongs to and whether it lies deeper; \<open>None\<close> is the base itself.\<close>

definition child_of :: "string \<Rightarrow> string \<Rightarrow> (string \<times> bool) option" where
  "child_of base root =
     (let rel = trim_start_char (CHR ''/'') (drop (length base) root) in
      if rel = [] then None else Some (hd (split_on (CHR ''/'') rel), contains_char (CHR ''/'') rel))"

fun collect_children ::
    "(cache_entry_detail \<Rightarrow> nat option) \<Rightarrow> string \<Rightarrow> (string \<times> cache_entry_detail) list
       \<Rightarrow> (string \<times> ls_item) list \<times> cache_entry_detail option
       \<Rightarrow> (string \<times> ls_item) list \<times> cache_entry_detail option" where
  "collect_children expiry base [] acc = acc"
| "collect_children expiry base ((root, d) # matched) (children, exact) =
     (if \<not> starts_with root base then collect_children expiry base matched (children, exact)
      else (case child_of base root of
              None \<Rightarrow> collect_children expiry base matched (children, Some d)
            | Some (name, is_dir) \<Rightarrow>
                collect_children expiry base matched
                  (upsert name (new_item name) (add_entry expiry (is_dir, d)) children, exact)))"

text \<open>The entries that belong to a child, in the order of the list.\<close>

fun entries_of :: "string \<Rightarrow> string \<Rightarrow> (string \<times> cache_entry_detail) list \<Rightarrow> (bool \<times> cache_entry_detail) list" where
  "entries_of base k [] = []"
| "entries_of base k ((root, d) # matched) =
     (case (if starts_with root base then child_of base root else None) of
        Some (name, is_dir) \<Rightarrow> if name = k then (is_dir, d) # entries_of base k matched else entries_of base k matched
      | None \<Rightarrow> entries_of base k matched)"

lemma collect_sorted:
  "sorted_wrt (<) (map fst children) \<Longrightarrow>
     sorted_wrt (<) (map fst (fst (collect_children expiry base matched (children, exact))))"
  by (induction matched arbitrary: children exact)
    (auto simp: upsert_sorted split: option.split)

lemma collect_by_name:
  "sorted_wrt (<) (map fst children) \<Longrightarrow>
     map_of (fst (collect_children expiry base matched (children, exact))) k =
       (case (map_of children k, entries_of base k matched) of
          (None, []) \<Rightarrow> None
        | (None, es) \<Rightarrow> Some (fold (add_entry expiry) es (new_item k))
        | (Some it, es) \<Rightarrow> Some (fold (add_entry expiry) es it))"
proof (induction matched arbitrary: children exact)
  case Nil
  then show ?case by (simp split: option.split)
next
  case (Cons e matched)
  obtain root d where e: "e = (root, d)" by (cases e)
  show ?case
  proof (cases "starts_with root base \<and> child_of base root \<noteq> None")
    case False
    then show ?thesis using Cons e by (auto split: option.split)
  next
    case True
    then obtain name is_dir where c: "child_of base root = Some (name, is_dir)" by auto
    have s: "sorted_wrt (<) (map fst (upsert name (new_item name) (add_entry expiry (is_dir, d)) children))"
      using upsert_sorted [OF Cons.prems] .
    show ?thesis using Cons.IH [OF s] Cons.prems True c e
      by (auto simp: map_of_upsert split: option.split list.split)
  qed
qed

subsection \<open>The order of a listing\<close>

text \<open>What \<open>sort_by\<close> is given: \<open>item_le\<close> holds when the comparison is not \<open>Greater\<close>.\<close>

definition item_le :: "sort_key \<Rightarrow> bool \<Rightarrow> ls_item \<Rightarrow> ls_item \<Rightarrow> bool" where
  "item_le key reversed a b =
     (if it_is_dir a \<noteq> it_is_dir b then it_is_dir a
      else (case key of
              By_name \<Rightarrow> if reversed then it_name b \<le> it_name a else it_name a \<le> it_name b
            | By_time \<Rightarrow> if reversed then it_last_access a \<le> it_last_access b else it_last_access b \<le> it_last_access a
            | By_cached \<Rightarrow> if reversed then it_cached_at a \<le> it_cached_at b else it_cached_at b \<le> it_cached_at a
            | By_size \<Rightarrow> if reversed then it_size a \<le> it_size b else it_size b \<le> it_size a))"

fun insert_by :: "('a \<Rightarrow> 'a \<Rightarrow> bool) \<Rightarrow> 'a \<Rightarrow> 'a list \<Rightarrow> 'a list" where
  "insert_by le x [] = [x]"
| "insert_by le x (y # ys) = (if le x y then x # y # ys else y # insert_by le x ys)"

definition sort_by :: "('a \<Rightarrow> 'a \<Rightarrow> bool) \<Rightarrow> 'a list \<Rightarrow> 'a list" where
  "sort_by le xs = foldr (insert_by le) xs []"

definition sort_items :: "sort_key \<Rightarrow> bool \<Rightarrow> ls_item list \<Rightarrow> ls_item list" where
  "sort_items key reversed items = sort_by (item_le key reversed) items"

lemma mset_sort_by [simp]: "mset (sort_by le xs) = mset xs"
proof -
  have "mset (insert_by le x ys) = add_mset x (mset ys)" for x ys by (induction ys) auto
  then show ?thesis unfolding sort_by_def by (induction xs) simp_all
qed

lemma set_sort_by [simp]: "set (sort_by le xs) = set xs"
  using mset_sort_by by (metis set_mset_mset)

lemma sort_by_sorted:
  assumes "\<And>x y. le x y \<or> le y x" "\<And>x y z. le x y \<Longrightarrow> le y z \<Longrightarrow> le x z"
  shows "sorted_wrt le (sort_by le xs)"
proof -
  have set: "set (insert_by le x ys) = insert x (set ys)" for x ys by (induction ys) auto
  have "sorted_wrt le (insert_by le x ys)" if "sorted_wrt le ys" for x ys
    using that
  proof (induction ys)
    case Nil
    then show ?case by simp
  next
    case (Cons y ys)
    then show ?case using assms(1) [of x y] assms(2) [of x y] by (auto simp: set)
  qed
  then show ?thesis unfolding sort_by_def by (induction xs) simp_all
qed

lemma item_le_total: "item_le key reversed x y \<or> item_le key reversed y x"
  by (cases key) (auto simp: item_le_def)

lemma item_le_trans: "item_le key reversed x y \<Longrightarrow> item_le key reversed y z \<Longrightarrow> item_le key reversed x z"
  by (cases key; cases "it_is_dir x"; cases "it_is_dir y"; cases "it_is_dir z")
    (auto simp: item_le_def split: if_splits)

subsection \<open>The levels of a listing\<close>

datatype ls_out = Section string | Long_line ls_item | Text_line string | Names "string list"

definition file_item :: "(cache_entry_detail \<Rightarrow> nat option) \<Rightarrow> cache_entry_detail \<Rightarrow> ls_item" where
  "file_item expiry d =
     \<lparr>it_name = last (split_on (CHR ''/'') (ce_url d)), it_is_dir = False, it_size = ce_size d,
      it_cached_at = ce_cached_at d, it_last_access = ce_last_access d, it_expiry = expiry d, it_file_count = 1\<rparr>"

definition shown_name :: "ls_item \<Rightarrow> string" where
  "shown_name it = (if it_is_dir it then it_name it @ ''/'' else it_name it)"

definition section_of :: "ls_opts \<Rightarrow> string \<Rightarrow> ls_out list" where
  "section_of opts base =
     (if ls_recursive opts then [Section (if base = [] then ''cache'' else base)] else [])"

definition level_items ::
    "(cache_entry_detail \<Rightarrow> nat option) \<Rightarrow> ls_opts \<Rightarrow> (string \<times> cache_entry_detail) list \<Rightarrow> string \<Rightarrow> ls_item list" where
  "level_items expiry opts matched base =
     sort_items (ls_sort opts) (ls_reverse opts)
       (map snd (fst (collect_children expiry base matched ([], None))))"

definition child_base :: "string \<Rightarrow> string \<Rightarrow> string" where
  "child_base base name = (if base = [] then name else base @ ''/'' @ name)"

lemma child_of_name: "child_of base root = Some (name, is_dir) \<Longrightarrow> name \<noteq> []"
proof -
  assume "child_of base root = Some (name, is_dir)"
  then obtain rel where rel: "rel \<noteq> []" "rel = trim_start_char (CHR ''/'') (drop (length base) root)"
      "name = hd (split_on (CHR ''/'') rel)"
    by (auto simp: child_of_def Let_def split: if_splits)
  then have "hd rel \<noteq> CHR ''/''" using trim_start_char_no by blast
  then show ?thesis using rel(1,3) by (cases rel) (auto split: list.splits)
qed

lemma add_entry_name [simp]: "it_name (add_entry expiry e it) = it_name it"
  by (simp add: add_entry_def split: prod.split)

lemma collect_origin:
  "(k, it) \<in> set (fst (collect_children expiry base matched (children, exact))) \<Longrightarrow>
     (\<exists>it0. (k, it0) \<in> set children \<and> it_name it0 = it_name it)
     \<or> k \<noteq> [] \<and> it_name it = k \<and> (\<exists>(root, d) \<in> set matched. starts_with root base)"
proof (induction matched arbitrary: children exact)
  case Nil
  then show ?case by auto
next
  case (Cons e matched)
  obtain root d where e: "e = (root, d)" by (cases e)
  show ?case
  proof (cases "starts_with root base \<and> child_of base root \<noteq> None")
    case False
    then show ?thesis using Cons e by (fastforce split: option.splits if_splits)
  next
    case True
    then obtain name is_dir where c: "child_of base root = Some (name, is_dir)" by auto
    let ?ch = "upsert name (new_item name) (add_entry expiry (is_dir, d)) children"
    have "(k, it) \<in> set (fst (collect_children expiry base matched (?ch, exact)))"
      using Cons.prems True c e by simp
    from Cons.IH [OF this] consider it0 where "(k, it0) \<in> set ?ch" "it_name it0 = it_name it"
      | "k \<noteq> [] \<and> it_name it = k \<and> (\<exists>(root, d) \<in> set matched. starts_with root base)" by blast
    then show ?thesis
    proof cases
      case 1
      show ?thesis
        using set_upsert [OF 1(1)] 1(2) True e child_of_name [OF c] by (auto simp: new_item_def)
    next
      case 2
      then show ?thesis by auto
    qed
  qed
qed

lemma level_items_origin:
  assumes "it \<in> set (level_items expiry opts matched base)"
  shows "it_name it \<noteq> [] \<and> (\<exists>(root, d) \<in> set matched. starts_with root base)"
proof -
  obtain k where "(k, it) \<in> set (fst (collect_children expiry base matched ([], None)))"
    using assms by (auto simp: level_items_def sort_items_def)
  from collect_origin [OF this] show ?thesis by auto
qed

definition deepest :: "(string \<times> cache_entry_detail) list \<Rightarrow> nat" where
  "deepest matched = Max (insert 0 ((\<lambda>(root, d). length root) ` set matched))"

lemma base_not_deeper:
  assumes "(root, d) \<in> set matched" "starts_with root base"
  shows "length base \<le> deepest matched"
proof -
  have "length root \<le> deepest matched" unfolding deepest_def using assms(1) by (intro Max_ge) force+
  then show ?thesis using assms(2) by (auto simp: starts_with_iff)
qed

text \<open>
  A level, and below it the levels of its directories. Each base is longer than the one above,
  and below the longest root there is nothing, so the recursion ends.
\<close>

function render_level ::
    "(cache_entry_detail \<Rightarrow> nat option) \<Rightarrow> ls_opts \<Rightarrow> (string \<times> cache_entry_detail) list \<Rightarrow> string \<Rightarrow> ls_out list" where
  "render_level expiry opts matched base =
     (case snd (collect_children expiry base matched ([], None)) of
        Some d \<Rightarrow>
          let it = file_item expiry d in
          [if ls_long opts then Long_line it else Text_line (shown_name it)]
      | None \<Rightarrow>
          let items = level_items expiry opts matched base in
          section_of opts base @
          (if items = [] then []
           else if ls_long opts then map Long_line items else [Names (map shown_name items)]) @
          concat (map (\<lambda>it.
            if ls_recursive opts \<and> it_is_dir it
            then render_level expiry opts matched (child_base base (it_name it)) else []) items))"
  by pat_completeness auto

termination
proof (relation "measure (\<lambda>(expiry, opts, matched, base). Suc (deepest matched) - length base)", goal_cases)
  case 1
  then show ?case by simp
next
  case (2 expiry opts matched base items it)
  then obtain root d where "it_name it \<noteq> []" "(root, d) \<in> set matched" "starts_with root base"
    using level_items_origin by blast
  then show ?case using base_not_deeper by (fastforce simp: child_base_def)
qed

declare render_level.simps [simp del]

subsection \<open>What a listing shows of a directory\<close>

lemma fold_dirs:
  assumes "\<forall>(deep, d) \<in> set es. deep"
  shows "let it' = fold (add_entry expiry) es it in
     it_size it' = it_size it + sum_list (map (\<lambda>(_, d). ce_size d) es)
     \<and> it_file_count it' = it_file_count it + length es
     \<and> it_is_dir it' = (it_is_dir it \<or> es \<noteq> [])
     \<and> it_last_access it' = fold (\<lambda>(_, d). max (ce_last_access d)) es (it_last_access it)"
  using assms
proof (induction es arbitrary: it)
  case Nil
  then show ?case by simp
next
  case (Cons e es)
  then show ?case using Cons.IH [of "add_entry expiry e it"]
    by (auto simp: Let_def add_entry_def max.commute split: prod.splits)
qed

lemma collect_keys:
  "(k, it) \<in> set (fst (collect_children expiry base matched ([], None))) \<Longrightarrow> it_name it = k"
  using collect_origin by fastforce

lemma filter_by_name:
  assumes "distinct (map fst m)" "\<And>x it. (x, it) \<in> set m \<Longrightarrow> it_name it = x"
  shows "filter (\<lambda>it. it_name it = k) (map snd m) = (case map_of m k of None \<Rightarrow> [] | Some it \<Rightarrow> [it])"
  using assms
proof (induction m)
  case Nil
  then show ?case by simp
next
  case (Cons p m)
  obtain x it where p: "p = (x, it)" by (cases p)
  have nx: "it_name it = x" using Cons.prems(2) p by auto
  have rest: "filter (\<lambda>it. it_name it = k) (map snd m) = (case map_of m k of None \<Rightarrow> [] | Some it \<Rightarrow> [it])"
    by (rule Cons.IH) (use Cons.prems in auto)
  have "map_of m x = None" using Cons.prems(1) p by (auto simp: map_of_eq_None_iff)
  then show ?case using p nx rest by (cases "x = k") auto
qed


definition demo_detail :: "string \<Rightarrow> nat \<Rightarrow> int \<Rightarrow> cache_entry_detail" where
  "demo_detail url sz t = \<lparr>ce_url = url, ce_file_path = [], ce_size = sz, ce_last_access = t, ce_cached_at = 1, ce_headers = []\<rparr>"

definition demo_listing :: "(string \<times> cache_entry_detail) list" where
  "demo_listing = [(''h/pool/a'', demo_detail ''http://h/pool/a'' 3 7), (''h/top'', demo_detail ''http://h/top'' 1 2),
     (''h/pool/b/c'', demo_detail ''http://h/pool/b/c'' 4 5)]"

definition demo_opts :: ls_opts where
  "demo_opts = \<lparr>ls_long = False, ls_human = False, ls_recursive = True, ls_oneline = False, ls_sort = By_name, ls_reverse = False\<rparr>"


subsection \<open>Which entries are listed\<close>

text \<open>
  The crate \<open>regex\<close> is a parameter: its escape of a character, and its compiler, whose result
  says of a string whether it has a match.
\<close>

record regex_lib =
  re_escape :: "char \<Rightarrow> string"
  re_new :: "string \<Rightarrow> (string \<Rightarrow> bool) option"

definition glob_to_regex :: "regex_lib \<Rightarrow> string \<Rightarrow> (string \<Rightarrow> bool) option" where
  "glob_to_regex rl pattern =
     re_new rl (''(?i)'' @ concat (map (\<lambda>c.
       if c = CHR ''*'' then ''.*'' else if c = CHR ''?'' then ''.'' else re_escape rl c) pattern))"

definition ls_target :: "string option \<Rightarrow> string \<Rightarrow> ctl_error + string" where
  "ls_target host_arg path =
     (case host_arg of
        None \<Rightarrow> Inr []
      | Some h \<Rightarrow> (case validate_host h of Inl e \<Rightarrow> Inl (Bad_host e) | Inr _ \<Rightarrow> Inr (join_host_path h path)))"

definition root_of :: "perspective \<Rightarrow> resolved \<Rightarrow> string" where
  "root_of p r = rv_host p r @ rv_path p r"

definition match_plain ::
    "url_parser \<Rightarrow> url_map list \<Rightarrow> target \<Rightarrow> cache_entry_detail list \<Rightarrow> (string \<times> cache_entry_detail) list" where
  "match_plain url_parts maps t details =
     (let p = perspective_for (tg_host t) maps in
      List.map_filter (\<lambda>d.
        let r = resolved_new url_parts (ce_url d) maps; root = root_of p r in
        if \<not> host_matches (tg_host t) r then None
        else if (case tg_prefix t of None \<Rightarrow> True
                 | Some pre \<Rightarrow> root = tg_host t @ pre \<or> starts_with root (tg_host t @ pre @ ''/''))
        then Some (root, d) else None) details)"

definition glob_hits :: "(string \<Rightarrow> bool) \<Rightarrow> string \<Rightarrow> bool \<Rightarrow> string \<Rightarrow> string \<Rightarrow> bool" where
  "glob_hits hit pattern scoped root rel =
     (if contains_char (CHR ''/'') pattern then hit rel
      else if scoped then
        (let immediate = hd (split_on (CHR ''/'') rel) in immediate \<noteq> [] \<and> hit immediate)
      else (let comps = path_comps root in length comps = 2 \<and> hit (comps ! 1)))"

definition match_glob ::
    "url_parser \<Rightarrow> url_map list \<Rightarrow> (string \<Rightarrow> bool) \<Rightarrow> string \<Rightarrow> cache_entry_detail list
       \<Rightarrow> (string \<times> cache_entry_detail) list" where
  "match_glob url_parts maps hit normalized details =
     (let gb = glob_base normalized;
          scope = (case find_char (\<lambda>c. c = CHR ''/'') gb of
                     Some i \<Rightarrow> Some (take i gb) | None \<Rightarrow> if gb = [] then None else Some gb);
          p = (case scope of Some h \<Rightarrow> perspective_for h maps | None \<Rightarrow> Real);
          pattern = drop (length gb) normalized
      in List.map_filter (\<lambda>d.
        let r = resolved_new url_parts (ce_url d) maps;
            root = (case scope of Some h \<Rightarrow> root_of p r | None \<Rightarrow> root_of Alias r) in
        if (case scope of Some h \<Rightarrow> \<not> host_matches h r | None \<Rightarrow> False) then None
        else if \<not> starts_with root gb then None
        else if glob_hits hit pattern (scope \<noteq> None) root (trim_start_char (CHR ''/'') (drop (length gb) root))
        then Some (root, d) else None) details)"

text \<open>The command on a cache that exists; \<open>None\<close> in the result of the match is a pattern refused.\<close>

definition ls_match ::
    "url_parser \<Rightarrow> regex_lib \<Rightarrow> url_map list \<Rightarrow> string \<Rightarrow> cache_entry_detail list
       \<Rightarrow> (string \<times> (string \<times> cache_entry_detail) list) option" where
  "ls_match url_parts rl maps tgt details =
     (let normalized = normalize_target tgt in
      if tgt = [] then Some ([], map (\<lambda>d. (root_of Alias (resolved_new url_parts (ce_url d) maps), d)) details)
      else if \<not> (\<exists>c \<in> set normalized. is_glob_char c) then
        (let t = parse_target normalized in
         Some (tg_host t @ (case tg_prefix t of Some pre \<Rightarrow> pre | None \<Rightarrow> []), match_plain url_parts maps t details))
      else (let gb = glob_base normalized in
            case glob_to_regex rl (drop (length gb) normalized) of
              None \<Rightarrow> None
            | Some hit \<Rightarrow> Some (gb, match_glob url_parts maps hit normalized details)))"

definition cmd_ls ::
    "url_parser \<Rightarrow> regex_lib \<Rightarrow> (cache_entry_detail \<Rightarrow> nat option) \<Rightarrow> url_map list \<Rightarrow> string option \<Rightarrow> string \<Rightarrow> ls_opts
       \<Rightarrow> cache_entry_detail list \<Rightarrow> ctl_error + ls_out list" where
  "cmd_ls url_parts rl expiry maps host_arg path opts details =
     (if details = [] then Inr [Text_line ''(no cached entries)'']
      else (case ls_target host_arg path of
              Inl e \<Rightarrow> Inl e
            | Inr tgt \<Rightarrow>
                (case ls_match url_parts rl maps tgt details of
                   None \<Rightarrow> Inl Bad_pattern
                 | Some (base, matched) \<Rightarrow>
                     if matched = [] then
                       Inr [Text_line (if tgt = [] then ''(no cached entries)''
                         else (if \<exists>c \<in> set (normalize_target tgt). is_glob_char c
                               then ''no entries match '' else ''no entries for '')
                           @ [CHR 0x27] @ tgt @ [CHR 0x27])]
                     else Inr ((if ls_long opts
                         then [Text_line ''CACHED AT     LAST ACCESS   EXPIRES         SIZE  NAME''] else [])
                       @ render_level expiry opts matched base))))"

text \<open>
  Bases are compared as text: below a host \<open>h\<close> a recursive listing also shows what belongs to a
  host whose name begins with \<open>h\<close>.
\<close>

lemma sibling_host_listed:
  "child_of ''h'' ''h2/a'' = Some (''2'', True) \<and> starts_with ''h2/a'' ''h''"
  by (simp add: child_of_def starts_with_def trim_start_char_def contains_char_def)

text \<open>
  The base of a glob ends with a slash and a second one is put before the name of a directory:
  below a glob, a recursive listing finds every directory empty.
\<close>

lemma recursive_glob_empty:
  assumes "\<not> contains_str root ''//''" "name \<noteq> []"
  shows "\<not> starts_with root (child_base (base @ ''/'') name)"
proof
  assume "starts_with root (child_base (base @ ''/'') name)"
  then obtain x where x: "root = base @ ''//'' @ name @ x" by (auto simp: starts_with_iff child_base_def)
  have "find_str ''//'' (b @ ''//'' @ y) \<noteq> None" for b y
    by (induction b) (auto simp: starts_with_def)
  then show False using assms(1) x by (auto simp: contains_str_def)
qed

text \<open>A file over a directory of the same name hides the total of the directory, if it comes later.\<close>

lemma file_over_directory:
  "it_size (fold (add_entry expiry) [(True, d1), (False, d2)] (new_item k)) = ce_size d2"
  "it_size (fold (add_entry expiry) [(False, d2), (True, d1)] (new_item k)) = ce_size d2 + ce_size d1"
  by (simp_all add: add_entry_def new_item_def)

end
