(* ===== verification/Ctl_Commands.thy ===== *)
theory Ctl_Commands
  imports Ctl_Listing Ctl_Values Cache_Properties
begin

text \<open>
  The commands of \<open>src/src/bin/blitzctl/cache_cli.rs\<close> over an opened cache: \<open>hosts\<close>, \<open>tree\<close>,
  \<open>find\<close>, \<open>info\<close>, \<open>cat\<close>, \<open>cp\<close> and \<open>rm\<close>; \<open>ls\<close> is the theory Ctl\_Listing. Each starts by
  looking for \<open>cache.db\<close>, and \<open>exists\<close> says whether it is there. The result is what the command
  prints or does; the layout of the text is left out where it holds no decision.
\<close>

subsection \<open>hosts\<close>

record host_total =
  ht_size :: nat
  ht_count :: nat
  ht_reals :: "string list"

definition add_host :: "nat \<Rightarrow> string \<Rightarrow> host_total \<Rightarrow> host_total" where
  "add_host sz real t =
     \<lparr>ht_size = ht_size t + sz, ht_count = ht_count t + 1,
      ht_reals = map fst (upsert real () id (map (\<lambda>h. (h, ())) (ht_reals t)))\<rparr>"

definition host_totals :: "url_parser \<Rightarrow> url_map list \<Rightarrow> cached_file list \<Rightarrow> (string \<times> host_total) list" where
  "host_totals url_parts maps entries =
     fold (\<lambda>e m. let r = resolved_new url_parts (cf_url e) maps in
        upsert (rv_disp_host r) \<lparr>ht_size = 0, ht_count = 0, ht_reals = []\<rparr> (add_host (cf_size e) (rv_real_host r)) m)
       entries []"

definition real_column :: "string \<Rightarrow> host_total \<Rightarrow> string" where
  "real_column alias t = (if ht_reals t = [alias] then ''-'' else join '', '' (ht_reals t))"

text \<open>The table of \<open>hosts\<close>: alias, real hosts, size and number of files, and the sum of the sizes.\<close>

definition cmd_hosts ::
    "url_parser \<Rightarrow> url_map list \<Rightarrow> cached_file list \<Rightarrow> (string \<times> string \<times> nat \<times> nat) list \<times> nat" where
  "cmd_hosts url_parts maps entries =
     (let m = host_totals url_parts maps entries in
      (map (\<lambda>(alias, t). (alias, real_column alias t, ht_size t, ht_count t)) m,
       sum_list (map (\<lambda>(_, t). ht_size t) m)))"

subsection \<open>tree\<close>

definition cmd_tree ::
    "url_parser \<Rightarrow> (nat \<Rightarrow> string) \<Rightarrow> url_map list \<Rightarrow> string \<Rightarrow> string \<Rightarrow> bool \<Rightarrow> cached_file list \<Rightarrow> string list" where
  "cmd_tree url_parts human maps hostname path_filter files entries =
     (let t = \<lparr>tg_host = hostname, tg_prefix = (if path_filter = [] then None else Some path_filter)\<rparr>;
          p = perspective_for hostname maps;
          found = map (\<lambda>e. (resolved_new url_parts (cf_url e) maps, cf_size e))
                    (filter (\<lambda>e. in_target url_parts maps t (cf_url e)) entries)
      in case found of
           [] \<Rightarrow> [''no entries for host '' @ quoted hostname @
                  (if path_filter = [] then [] else '' under '' @ quoted path_filter)]
         | (r, _) # _ \<Rightarrow>
             let root = tree_of (rv_host p r) (map (\<lambda>(r, sz). (rv_path p r, sz)) found) in
             (rv_host p r @ ''  ('' @ dec (nd_count root) @ '' files, '' @ human (nd_size root) @ '')'')
             # tree_lines human files [] root)"

subsection \<open>find\<close>

text \<open>The folders on a path, with the path up to each of them.\<close>

fun folders_of :: "string \<Rightarrow> string list \<Rightarrow> (string \<times> string) list" where
  "folders_of acc [] = []"
| "folders_of acc [c] = []"
| "folders_of acc (c # c' # cs) = (c, acc @ ''/'' @ c) # folders_of (acc @ ''/'' @ c) (c' # cs)"

definition find_in_entry ::
    "(string \<Rightarrow> bool) \<Rightarrow> bool \<Rightarrow> perspective \<Rightarrow> resolved \<Rightarrow> string set \<times> string set" where
  "find_in_entry hit path_mode p r =
     ((\<lambda>(c, acc). rv_host p r @ acc @ ''/'') `
        set (filter (\<lambda>(c, acc). hit (if path_mode then acc else c) \<or> hit c) (folders_of [] (path_comps (rv_path p r)))),
      if hit (if path_mode then rv_path p r else basename (rv_path p r)) then {rv_host p r @ rv_path p r} else {})"

definition find_matches ::
    "regex_lib \<Rightarrow> string \<Rightarrow> string \<Rightarrow> resolved list \<Rightarrow> perspective \<Rightarrow> (string set \<times> string set) option" where
  "find_matches rl hostname query entries p =
     (case glob_to_regex rl query of
        None \<Rightarrow> None
      | Some hit \<Rightarrow>
          let found = map (find_in_entry hit (contains_char (CHR ''/'') query) p) (filter (host_matches hostname) entries)
          in Some (\<Union> (set (map fst found)), \<Union> (set (map snd found))))"

definition cmd_find ::
    "url_parser \<Rightarrow> regex_lib \<Rightarrow> url_map list \<Rightarrow> int \<Rightarrow> string \<Rightarrow> string \<Rightarrow> find_filter \<Rightarrow> cached_file list
       \<Rightarrow> (string set \<times> string set) option" where
  "cmd_find url_parts rl maps now hostname query f entries =
     find_matches rl hostname query
       (map (\<lambda>e. resolved_new url_parts (cf_url e) maps) (filter (passes f now) entries))
       (perspective_for hostname maps)"

subsection \<open>cat and cp\<close>

definition resolve_cached_entry ::
    "cache_env \<Rightarrow> url_parser \<Rightarrow> url_map list \<Rightarrow> bool \<Rightarrow> string \<Rightarrow> string \<Rightarrow> disk_cache
       \<Rightarrow> ctl_error + cache_entry_detail" where
  "resolve_cached_entry env url_parts maps exists hostname path c =
     (if \<not> exists then Inl Not_initialized
      else (case validate_host hostname of
              Inl e \<Rightarrow> Inl (Bad_host e)
            | Inr _ \<Rightarrow>
                if path = [] then Inl Path_required
                else (case list_all_detailed env c of
                        Inl e \<Rightarrow> Inl (Cache_failed e)
                      | Inr details \<Rightarrow>
                          (case resolve_unique url_parts hostname path maps (perspective_for hostname maps) details of
                             Inl e \<Rightarrow> Inl (Select_failed e) | Inr d \<Rightarrow> Inr d))))"

text \<open>
  What \<open>info\<close> shows of each entry: its fields, host and path as the user names them, and the
  bytes the four digests are made of, if the file can be read.
\<close>

datatype info_out = Info_no_cache | Info_none | Info_entries "(cache_entry_detail \<times> string \<times> string \<times> bytes option) list"

definition cmd_info ::
    "cache_env \<Rightarrow> url_parser \<Rightarrow> url_map list \<Rightarrow> bool \<Rightarrow> string \<Rightarrow> string \<Rightarrow> disk_cache \<Rightarrow> ctl_error + info_out" where
  "cmd_info env url_parts maps exists hostname path c =
     (if \<not> exists then Inr Info_no_cache
      else (case validate_host hostname of
              Inl e \<Rightarrow> Inl (Bad_host e)
            | Inr _ \<Rightarrow>
                if path = [] then Inl Path_required
                else (case list_all_detailed env c of
                        Inl e \<Rightarrow> Inl (Cache_failed e)
                      | Inr details \<Rightarrow>
                          let p = perspective_for hostname maps;
                              found = info_matches url_parts hostname path maps p details
                          in if found = [] then Inr Info_none
                             else Inr (Info_entries (map (\<lambda>d.
                               let r = resolved_new url_parts (ce_url d) maps in
                               (d, rv_host p r, rv_path p r,
                                am_get (resolve_path (join_path (c_dir c) (ce_file_path d))) (c_disk c))) found)))))"

text \<open>What \<open>cat\<close> writes, and whether it warns that the length is not the one of the entry.\<close>

definition cmd_cat ::
    "cache_env \<Rightarrow> url_parser \<Rightarrow> url_map list \<Rightarrow> bool \<Rightarrow> string \<Rightarrow> string \<Rightarrow> disk_cache \<Rightarrow> ctl_error + bytes \<times> bool" where
  "cmd_cat env url_parts maps exists hostname path c =
     (case resolve_cached_entry env url_parts maps exists hostname path c of
        Inl e \<Rightarrow> Inl e
      | Inr d \<Rightarrow>
          (case am_get (resolve_path (join_path (c_dir c) (ce_file_path d))) (c_disk c) of
             None \<Rightarrow> Inl Stored_file_missing
           | Some content \<Rightarrow> Inr (content, length content \<noteq> ce_size d)))"

definition file_name :: "string \<Rightarrow> string option" where
  "file_name p =
     (case rev (path_components p) of
        [] \<Rightarrow> None
      | c # _ \<Rightarrow> if c = ''..'' \<or> c = ''.'' \<or> c = ''/'' then None else Some c)"

text \<open>The parent of a path as its components, and the place they name.\<close>

definition parent_of :: "string \<Rightarrow> string list option" where
  "parent_of p =
     (let cs = path_components p in if cs = [] \<or> cs = [''/''] then None else Some (butlast cs))"

definition place_of :: "string list \<Rightarrow> string list" where
  "place_of cs = rev (fold walk_step (filter (\<lambda>c. c \<noteq> ''/'') cs) [])"

definition resolve_dest :: "(string list \<Rightarrow> bool) \<Rightarrow> string \<Rightarrow> string \<Rightarrow> ctl_error + string" where
  "resolve_dest is_dir dest path =
     (if is_dir (resolve_path dest) then
        (case file_name path of None \<Rightarrow> Inl (No_file_name path) | Some name \<Rightarrow> Inr (join_path dest name))
      else (case parent_of dest of
              Some cs \<Rightarrow> if cs \<noteq> [] \<and> \<not> is_dir (place_of cs) then Inl (No_directory dest) else Inr dest
            | None \<Rightarrow> Inr dest))"

text \<open>The destination is created, and so emptied, before the bytes are read.\<close>

definition copy_source ::
    "(string list \<Rightarrow> bool) \<Rightarrow> bool \<Rightarrow> string \<Rightarrow> string \<Rightarrow> bool \<Rightarrow> disk_files \<Rightarrow> (ctl_error + nat) \<times> disk_files" where
  "copy_source is_dir create_ok src dest force d =
     (let q = resolve_path dest in
      if (am_get q d \<noteq> None \<or> is_dir q) \<and> \<not> force then (Inl (Destination_exists dest), d)
      else if am_get (resolve_path src) d = None then (Inl Stored_file_missing, d)
      else if \<not> create_ok then (Inl Create_failed, d)
      else
        let d1 = am_insert q [] d; content = the (am_get (resolve_path src) d1)
        in (Inr (length content), am_insert q content d1))"

definition cmd_cp ::
    "cache_env \<Rightarrow> url_parser \<Rightarrow> (string list \<Rightarrow> bool) \<Rightarrow> bool \<Rightarrow> url_map list \<Rightarrow> bool \<Rightarrow> bool \<Rightarrow> string \<Rightarrow> string
       \<Rightarrow> string \<Rightarrow> disk_cache \<Rightarrow> (ctl_error + nat \<times> bool) \<times> disk_cache" where
  "cmd_cp env url_parts is_dir create_ok maps exists force hostname path dest c =
     (case resolve_cached_entry env url_parts maps exists hostname path c of
        Inl e \<Rightarrow> (Inl e, c)
      | Inr d \<Rightarrow>
          (case resolve_dest is_dir dest path of
             Inl e \<Rightarrow> (Inl e, c)
           | Inr dest_path \<Rightarrow>
               (case copy_source is_dir create_ok (join_path (c_dir c) (ce_file_path d)) dest_path force (c_disk c) of
                  (Inl e, disk) \<Rightarrow> (Inl e, c\<lparr>c_disk := disk\<rparr>)
                | (Inr n, disk) \<Rightarrow> (Inr (n, n \<noteq> ce_size d), c\<lparr>c_disk := disk\<rparr>))))"

subsection \<open>rm\<close>

datatype rm_outcome = Rm_no_cache | Rm_aborted | Rm_all nat | Rm_no_match string | Rm_removed nat nat

definition cmd_rm ::
    "cache_env \<Rightarrow> cache_faults \<Rightarrow> url_parser \<Rightarrow> url_map list \<Rightarrow> bool \<Rightarrow> string option \<Rightarrow> bool \<Rightarrow> string \<Rightarrow> disk_cache
       \<Rightarrow> (cache_error + rm_outcome) \<times> disk_cache" where
  "cmd_rm env flt url_parts maps exists tgt yes answer c =
     (if \<not> exists then (Inr Rm_no_cache, c)
      else (case tgt of
              None \<Rightarrow>
                if \<not> yes \<and> trim answer \<noteq> ''yes'' then (Inr Rm_aborted, c)
                else (case clear_all flt c of (Inl e, c1) \<Rightarrow> (Inl e, c1) | (Inr n, c1) \<Rightarrow> (Inr (Rm_all n), c1))
            | Some s \<Rightarrow>
                (case list_all_cached c of
                   Inl e \<Rightarrow> (Inl e, c)
                 | Inr entries \<Rightarrow>
                     let t = parse_target (normalize_target s);
                         chosen = filter (\<lambda>e. in_target url_parts maps t (cf_url e)) entries
                     in if chosen = [] then (Inr (Rm_no_match s), c)
                        else (case delete_by_urls env flt (map cf_url chosen) c of
                                (Inl e, c1) \<Rightarrow> (Inl e, c1)
                              | (Inr n, c1) \<Rightarrow> (Inr (Rm_removed n (sum_list (map cf_size chosen))), c1)))))"

subsection \<open>What \<open>rm\<close> removes\<close>

definition rows_named :: "cache_env \<Rightarrow> cache_row list \<Rightarrow> bool" where
  "rows_named env rs \<longleftrightarrow> distinct (hashes rs) \<and> (\<forall>r \<in> set rs. row_hash r = hash_of env (row_url r))"

lemma rows_named_url:
  assumes "rows_named env rs" "r \<in> set rs" "r' \<in> set rs" "row_hash r = row_hash r'"
  shows "r = r'"
  using assms by (auto simp: rows_named_def distinct_map inj_on_def)

lemma delete_named:
  assumes "rows_named env rs" "u \<in> row_url ` set rs"
  shows "delete_row (hash_of env u) rs = filter (\<lambda>r. row_url r \<noteq> u) rs"
proof -
  obtain r where r: "r \<in> set rs" "row_url r = u" using assms(2) by auto
  have "row_hash x \<noteq> hash_of env u \<longleftrightarrow> row_url x \<noteq> u" if "x \<in> set rs" for x
    using rows_named_url [OF assms(1) r(1) that] assms(1) r that unfolding rows_named_def by metis
  then show ?thesis by (auto simp: delete_row_def intro: filter_cong)
qed

lemma delete_urls_rows:
  assumes "rows_named env (c_rows c)" "distinct urls" "set urls \<subseteq> row_url ` set (c_rows c)"
  shows "\<exists>c'. delete_urls env no_faults urls n c = (Inr (n + length urls), c')
     \<and> c_rows c' = filter (\<lambda>r. row_url r \<notin> set urls) (c_rows c)"
  using assms
proof (induction urls arbitrary: n c)
  case Nil
  then show ?case by simp
next
  case (Cons url urls)
  obtain r where r: "r \<in> set (c_rows c)" "row_url r = url" using Cons.prems(3) by auto
  then have h: "row_hash r = hash_of env url" using Cons.prems(1) by (simp add: rows_named_def)
  have f: "find_row (hash_of env url) (c_rows c) = Some r"
    using find_row_unique [of "c_rows c" r] Cons.prems(1) r h by (simp add: rows_named_def)
  let ?c1 = "c\<lparr>c_disk := guarded_unlink no_faults (c_dir c) (row_path r) (c_disk c),
      c_rows := delete_row (hash_of env url) (c_rows c)\<rparr>"
  have rows: "c_rows ?c1 = filter (\<lambda>r. row_url r \<noteq> url) (c_rows c)"
    using delete_named [OF Cons.prems(1), of url] r by force
  have "rows_named env (c_rows ?c1)"
    using Cons.prems(1) distinct_delete_row [of "c_rows c" "hash_of env url"] by (auto simp: rows_named_def)
  moreover have "set urls \<subseteq> row_url ` set (c_rows ?c1)"
    using Cons.prems(2,3) unfolding rows by (auto simp: image_iff subset_iff) metis
  ultimately obtain c' where c': "delete_urls env no_faults urls (n + 1) ?c1 = (Inr (n + 1 + length urls), c')"
      "c_rows c' = filter (\<lambda>r. row_url r \<notin> set urls) (c_rows ?c1)"
    using Cons.IH [of ?c1 "n + 1"] Cons.prems(2) by auto
  have "delete_urls env no_faults (url # urls) n c = (Inr (n + length (url # urls)), c')"
    using f c'(1) by (simp add: Let_def no_faults_def)
  moreover have "c_rows c' = filter (\<lambda>r. row_url r \<notin> set (url # urls)) (c_rows c)"
    unfolding c'(2) rows by (simp add: conj_commute)
  ultimately show ?case by blast
qed

definition rm_choice :: "url_parser \<Rightarrow> url_map list \<Rightarrow> string \<Rightarrow> cache_row list \<Rightarrow> cache_row list" where
  "rm_choice url_parts maps tgt rs =
     filter (\<lambda>r. in_target url_parts maps (parse_target (normalize_target tgt)) (row_url r)) rs"

text \<open>
  C32. What \<open>cache rm\<close> removes is what it was asked for: after \<open>rm TARGET\<close> the table holds exactly
  the entries outside the target, in their order, the file of every entry of the target is gone
  and no other file has changed, and the number and size reported are those of the entries
  removed.
\<close>

theorem rm_removes_exactly:
  assumes "chosen = rm_choice url_parts maps tgt (c_rows c)" and "hex_hash (hash_of env)" and "cache_ok env c"
    and "sizes_fit (c_rows c)" and "rows_named env (c_rows c)" and "chosen \<noteq> []"
  shows "\<exists>c'. cmd_rm env no_faults url_parts maps True (Some tgt) yes answer c
      = (Inr (Rm_removed (length chosen) (sum_list (map (\<lambda>r. nat (row_size r)) chosen))), c')
     \<and> c_rows c' = filter (\<lambda>r. r \<notin> set chosen) (c_rows c)
     \<and> (\<forall>p. am_get p (c_disk c')
          = (if \<exists>r \<in> set chosen. p = row_file (c_dir c) r then None else am_get p (c_disk c)))"
proof -
  note chosen_def = assms(1) [unfolded rm_choice_def]
  let ?urls = "map row_url chosen"
  have t: "table_ok env (c_dir c) (c_rows c) (c_disk c)" and live: "\<not> c_poisoned c"
    using assms(3) by (simp_all add: cache_ok_def)
  have sub: "set chosen \<subseteq> set (c_rows c)" by (auto simp: chosen_def)
  have named: "row_hash r = hash_of env (row_url r)" if "r \<in> set (c_rows c)" for r
    using assms(5) that by (simp add: rows_named_def)
  have "inj_on row_url (set (c_rows c))"
    using rows_named_url [OF assms(5)] named by (metis inj_onI)
  moreover have "distinct (c_rows c)" using table_okD(1) [OF t] by (simp add: distinct_map)
  ultimately have urls: "distinct ?urls" "set ?urls \<subseteq> row_url ` set (c_rows c)"
    using sub by (auto simp: distinct_map chosen_def intro: inj_on_subset)
  obtain c' where c': "delete_urls env no_faults ?urls 0 c = (Inr (length chosen), c')"
      "c_rows c' = filter (\<lambda>r. row_url r \<notin> set ?urls) (c_rows c)"
    using delete_urls_rows [OF assms(5) urls, of 0] by auto
  have in_urls: "row_url r \<in> set ?urls \<longleftrightarrow> r \<in> set chosen" if "r \<in> set (c_rows c)" for r
    using that by (auto simp: chosen_def)
  have rows: "c_rows c' = filter (\<lambda>r. r \<notin> set chosen) (c_rows c)"
    unfolding c'(2) using in_urls by (auto intro: filter_cong)
  have files: "row_file (c_dir c) r = efile env (c_dir c) (row_url r)" if "r \<in> set (c_rows c)" for r
    by (rule row_file_efile [OF assms(2) t that named [OF that]])
  note del = delete_urls_ok [OF assms(2,3,4) c'(1)]
  have "am_get p (c_disk c') = (if \<exists>r \<in> set chosen. p = row_file (c_dir c) r then None else am_get p (c_disk c))" for p
    using del files sub by (cases "\<exists>r \<in> set chosen. p = row_file (c_dir c) r") (auto simp: subset_iff)
  moreover have "cmd_rm env no_faults url_parts maps True (Some tgt) yes answer c
      = (Inr (Rm_removed (length chosen) (sum_list (map (\<lambda>r. nat (row_size r)) chosen))), c')"
  proof -
    have "map cf_url (map cached_file_of chosen) = ?urls"
      "map cf_size (map cached_file_of chosen) = map (\<lambda>r. nat (row_size r)) chosen"
      by (simp_all add: cached_file_of_def max_def)
    moreover have "filter (\<lambda>e. in_target url_parts maps (parse_target (normalize_target tgt)) (cf_url e))
        (map cached_file_of (c_rows c)) = map cached_file_of chosen"
      by (simp add: chosen_def filter_map o_def cached_file_of_def)
    ultimately show ?thesis using c'(1) live assms(6)
      by (simp add: cmd_rm_def list_all_cached_def delete_by_urls_def Let_def del: map_map filter_map)
  qed
  ultimately show ?thesis using rows by blast
qed

definition demo_rows :: "cache_row list" where
  "demo_rows = insert_or_replace (new_row demo_env 6 ''v'' [3] [])
     (insert_or_replace (new_row demo_env 5 ''u'' [1, 2] []) [])"

definition named_cache :: disk_cache where
  "named_cache = \<lparr>c_dir = ''/c'', c_max_size = 100, c_rows = demo_rows,
     c_disk = am_insert (efile demo_env ''/c'' ''v'') [3] (am_remove [''c'', ''tmp'', ''x'']
       (am_insert (efile demo_env ''/c'' ''u'') [1, 2] (am_remove [''c'', ''tmp'', ''x''] []))),
     c_poisoned = False\<rparr>"

definition demo_parts :: url_parser where
  "demo_parts url = Some (Some ''h'', if url = ''u'' then ''/pool/x'' else ''/y'')"

lemma demo_rows_list: "demo_rows = [new_row demo_env 5 ''u'' [1, 2] [], new_row demo_env 6 ''v'' [3] []]"
  by (simp add: demo_rows_def insert_or_replace_def delete_row_def new_row_def demo_env_def)

lemma named_cache_ok: "cache_ok demo_env named_cache"
proof -
  have "resolve_path ''/c'' = [''c'']" by (simp add: resolve_path_def walk_def walk_step_def)
  then have free: "temp_free demo_env ''/c'' [''c'', ''tmp'', ''x'']"
    by (auto simp: temp_free_def efile_def demo_env_def numeral_2_eq_2)
  have "table_ok demo_env ''/c'' [] []"
    by (rule table_okI) (auto simp: entry_ok_def find_row_def)
  from table_ok_store [OF table_ok_store [OF this free] free]
  have "table_ok demo_env ''/c'' demo_rows (c_disk named_cache)"
    unfolding demo_rows_def named_cache_def by simp
  moreover have "total_size_of demo_rows \<le> 100"
    by (simp add: demo_rows_list new_row_def total_size_of_def to_u64_def)
  ultimately show ?thesis by (simp add: cache_ok_def named_cache_def)
qed

theorem rm_removes_exactly_witness:
  "\<exists>c'. cmd_rm demo_env no_faults demo_parts [] True (Some ''http://h/pool'') False [] named_cache
      = (Inr (Rm_removed 1 2), c') \<and> map row_url (c_rows c') = [''v'']"
proof -
  let ?u = "new_row demo_env 5 ''u'' [1, 2] []" and ?v = "new_row demo_env 6 ''v'' [3] []"
  have t: "parse_target (normalize_target ''http://h/pool'') = \<lparr>tg_host = ''h'', tg_prefix = Some ''/pool''\<rparr>"
    by (simp add: normalize_target_def parse_target_def starts_with_def)
  have "in_target demo_parts [] \<lparr>tg_host = ''h'', tg_prefix = Some ''/pool''\<rparr> ''u''"
    "\<not> in_target demo_parts [] \<lparr>tg_host = ''h'', tg_prefix = Some ''/pool''\<rparr> ''v''"
    by (simp_all add: in_target_def resolved_new_def host_and_path_def demo_parts_def host_matches_def
        perspective_for_def rv_path_def starts_with_def)
  then have c: "rm_choice demo_parts [] ''http://h/pool'' (c_rows named_cache) = [?u]"
    by (simp add: rm_choice_def t named_cache_def demo_rows_list new_row_def)
  have "hex_hash (hash_of demo_env)" using sound_demo by (simp add: sound_env_def)
  moreover have "sizes_fit (c_rows named_cache)"
    by (simp add: sizes_fit_def named_cache_def demo_rows_list new_row_def)
  moreover have "rows_named demo_env (c_rows named_cache)"
    by (simp add: rows_named_def named_cache_def demo_rows_list new_row_def demo_env_def)
  ultimately obtain c' where
    "cmd_rm demo_env no_faults demo_parts [] True (Some ''http://h/pool'') False [] named_cache
      = (Inr (Rm_removed (length [?u]) (sum_list (map (\<lambda>r. nat (row_size r)) [?u]))), c')"
    "c_rows c' = filter (\<lambda>r. r \<notin> set [?u]) (c_rows named_cache)"
    using rm_removes_exactly [OF c [symmetric] _ named_cache_ok, of False "[]"] by blast
  then show ?thesis by (simp add: named_cache_def demo_rows_list new_row_def)
qed

text \<open>
  A forced copy of a cached file onto itself loses it: the destination is emptied before the
  source is read.
\<close>

lemma self_copy_empties:
  assumes "am_get (resolve_path src) d \<noteq> None" "resolve_path dest = resolve_path src"
  shows "copy_source is_dir True src dest True d = (Inr 0, am_insert (resolve_path src) [] (am_insert (resolve_path src) [] d))"
  using assms by (simp add: copy_source_def Let_def)

text \<open>A copy to another place leaves the cached file and gives the new one its bytes.\<close>

lemma copy_copies:
  assumes "am_get (resolve_path src) d = Some content" "resolve_path dest \<noteq> resolve_path src"
    and "copy_source is_dir create_ok src dest force d = (Inr n, d')"
  shows "n = length content \<and> am_get (resolve_path dest) d' = Some content
     \<and> (\<forall>p. p \<noteq> resolve_path dest \<longrightarrow> am_get p d' = am_get p d)"
  using assms by (auto simp: copy_source_def Let_def split: if_splits)

text \<open>\<open>cat\<close> writes the bytes of the one entry of that name, and they are as many as the entry says.\<close>

lemma cat_prints_entry:
  assumes "sound_env env" "cache_ok env c"
    and "cmd_cat env url_parts maps exists hostname path c = Inr (content, warned)"
  shows "\<not> warned \<and> (\<exists>r \<in> set (c_rows c). am_get (row_file (c_dir c) r) (c_disk c) = Some content)"
proof -
  obtain d where d: "resolve_cached_entry env url_parts maps exists hostname path c = Inr d"
      "am_get (resolve_path (join_path (c_dir c) (ce_file_path d))) (c_disk c) = Some content"
      "warned = (length content \<noteq> ce_size d)"
    using assms(3) by (auto simp: cmd_cat_def split: sum.splits option.splits)
  have "d \<in> set (map (\<lambda>r. detail_of env (row_url r) r) (c_rows c))"
  proof -
    obtain details where "list_all_detailed env c = Inr details"
        "resolve_unique url_parts hostname path maps (perspective_for hostname maps) details = Inr d"
      using d(1) by (auto simp: resolve_cached_entry_def split: if_splits sum.splits)
    then have "d \<in> set (info_matches url_parts hostname path maps (perspective_for hostname maps) details)"
      "details = map (\<lambda>r. detail_of env (row_url r) r) (c_rows c)"
      by (auto simp: resolve_unique_Inr list_all_detailed_def split: if_splits)
    then show ?thesis by (simp add: info_matches_def Let_def)
  qed
  then obtain r where r: "r \<in> set (c_rows c)" "d = detail_of env (row_url r) r" by auto
  have t: "table_ok env (c_dir c) (c_rows c) (c_disk c)" using assms(2) by (simp add: cache_ok_def)
  have h: "hex_hash (hash_of env)" using assms(1) by (simp add: sound_env_def)
  obtain u where u: "row_hash r = hash_of env u" "find_row (hash_of env u) (c_rows c) = Some r"
    using row_of_url [OF t r(1)] by blast
  have "row_size r = int (length content)" "am_get (row_file (c_dir c) r) (c_disk c) = Some content"
    using table_okD(4) [OF t, of u] u d(2) r row_file_efile [OF h t r(1) u(1)]
    by (auto simp: entry_ok_def detail_of_def row_file_def)
  then show ?thesis using d(3) r by (auto simp: detail_of_def)
qed

subsection \<open>What \<open>hosts\<close> counts\<close>

lemma add_host_simps [simp]:
  "ht_size (add_host sz real t) = ht_size t + sz" "ht_count (add_host sz real t) = ht_count t + 1"
  by (simp_all add: add_host_def)

lemma host_totals_fold:
  assumes "sorted_wrt (<) (map fst m)"
  shows "let es = filter (\<lambda>e. rv_disp_host (resolved_new url_parts (cf_url e) maps) = h) entries;
       m' = fold (\<lambda>e m. let r = resolved_new url_parts (cf_url e) maps in
         upsert (rv_disp_host r) \<lparr>ht_size = 0, ht_count = 0, ht_reals = []\<rparr> (add_host (cf_size e) (rv_real_host r)) m)
         entries m
     in case map_of m' h of
          None \<Rightarrow> map_of m h = None \<and> es = []
        | Some t \<Rightarrow>
            ht_size t = (case map_of m h of Some u \<Rightarrow> ht_size u | None \<Rightarrow> 0) + sum_list (map cf_size es)
            \<and> ht_count t = (case map_of m h of Some u \<Rightarrow> ht_count u | None \<Rightarrow> 0) + length es"
  using assms
proof (induction entries arbitrary: m)
  case Nil
  then show ?case by (simp split: option.split)
next
  case (Cons e entries)
  let ?r = "resolved_new url_parts (cf_url e) maps"
  let ?m = "upsert (rv_disp_host ?r) \<lparr>ht_size = 0, ht_count = 0, ht_reals = []\<rparr> (add_host (cf_size e) (rv_real_host ?r)) m"
  have "sorted_wrt (<) (map fst ?m)" by (rule upsert_sorted [OF Cons.prems])
  from Cons.IH [OF this] show ?case
    using map_of_upsert [OF Cons.prems, of "rv_disp_host ?r" _ _ h]
    by (cases "rv_disp_host ?r = h") (auto simp: Let_def split: option.splits)
qed

text \<open>Of every host, the size is the sum of the sizes of its entries and the count their number.\<close>

lemma hosts_totals:
  "case map_of (host_totals url_parts maps entries) h of
     None \<Rightarrow> filter (\<lambda>e. rv_disp_host (resolved_new url_parts (cf_url e) maps) = h) entries = []
   | Some t \<Rightarrow>
       ht_size t = sum_list (map cf_size (filter (\<lambda>e. rv_disp_host (resolved_new url_parts (cf_url e) maps) = h) entries))
       \<and> ht_count t = length (filter (\<lambda>e. rv_disp_host (resolved_new url_parts (cf_url e) maps) = h) entries)"
  using host_totals_fold [of "[]" url_parts maps h entries]
  by (simp add: host_totals_def Let_def split: option.splits)

end
