(* ===== verification/Ctl_Output.thy ===== *)
theory Ctl_Output
  imports Ctl_Commands
begin

text \<open>
  What the commands of \<open>src/src/bin/blitzctl/cache_cli.rs\<close> print: sizes for people
  (\<open>human_size\<close>, with its \<open>f64\<close> arithmetic), times, the lines and columns of a listing, and the
  text of the other commands. The crate \<open>chrono\<close> is a parameter: \<open>local_time\<close> says of a Unix time
  whether it has one local time, and how that is written in a given format. The four digests
  of \<open>info\<close> are parameters too.
\<close>

subsection \<open>Sizes\<close>

text \<open>Division with the rounding of \<open>f64\<close> and of its decimal output: to the nearest, a tie to even.\<close>

definition div_even :: "nat \<Rightarrow> nat \<Rightarrow> nat" where
  "div_even a b =
     (let q = a div b; r = a mod b in if b < 2 * r \<or> 2 * r = b \<and> odd q then q + 1 else q)"

text \<open>A \<open>u64\<close> as \<open>f64\<close>: 53 bits are kept.\<close>

fun dropped_bits :: "nat \<Rightarrow> nat" where
  "dropped_bits n = (if n < 2 ^ 53 then 0 else dropped_bits (n div 2) + 1)"

definition as_f64 :: "nat \<Rightarrow> nat" where
  "as_f64 n = div_even n (2 ^ dropped_bits n) * 2 ^ dropped_bits n"

definition UNITS :: "string list" where
  "UNITS = [''B'', ''KiB'', ''MiB'', ''GiB'', ''TiB'', ''PiB'']"

text \<open>
  The loop of \<open>human_size\<close>. Its \<open>size\<close> is \<open>m\<close> divided by 1024 to the power \<open>unit\<close>, which is
  exact in binary floating point.
\<close>

function unit_loop :: "nat \<Rightarrow> nat \<Rightarrow> nat" where
  "unit_loop m unit =
     (if 1024 * 1024 ^ unit \<le> m \<and> unit < length UNITS - 1 then unit_loop m (unit + 1) else unit)"
  by pat_completeness auto

termination by (relation "measure (\<lambda>(m, unit). length UNITS - unit)") auto

declare unit_loop.simps [simp del] dropped_bits.simps [simp del]

text \<open>The number of tenths that \<open>{:.1}\<close> shows.\<close>

definition tenths :: "nat \<Rightarrow> nat \<Rightarrow> nat" where
  "tenths m unit = div_even (10 * m) (1024 ^ unit)"

definition human_size :: "nat \<Rightarrow> string" where
  "human_size n =
     (if n < 1024 then dec n @ '' B''
      else
        let m = as_f64 n; unit = unit_loop m 0; t = tenths m unit
        in dec (t div 10) @ ''.'' @ dec (t mod 10) @ '' '' @ UNITS ! unit)"

subsection \<open>Padding and lines\<close>

text \<open>The width of a text is its number of characters: the bytes that do not continue one.\<close>

definition chars_in :: "string \<Rightarrow> nat" where
  "chars_in s = length (filter (\<lambda>c. (of_char c :: nat) div 64 \<noteq> 2) s)"

definition pad_right :: "nat \<Rightarrow> string \<Rightarrow> string" where
  "pad_right w s = s @ replicate (w - chars_in s) (CHR '' '')"

definition pad_left :: "nat \<Rightarrow> string \<Rightarrow> string" where
  "pad_left w s = replicate (w - chars_in s) (CHR '' '') @ s"

definition println :: "string \<Rightarrow> string" where
  "println s = s @ [CHR 0x0A]"

subsection \<open>A listing\<close>

type_synonym local_time = "int \<Rightarrow> (string \<Rightarrow> string) option"

definition fmt_ts :: "local_time \<Rightarrow> int \<Rightarrow> int \<Rightarrow> string" where
  "fmt_ts local_time now secs =
     (if secs \<le> 0 then ''n/a''
      else (case local_time secs of
              Some format \<Rightarrow> format (ls_ts_format (is_ls_recent secs now))
            | None \<Rightarrow> ''n/a''))"

definition print_item :: "local_time \<Rightarrow> int \<Rightarrow> ls_item \<Rightarrow> bool \<Rightarrow> bool \<Rightarrow> string" where
  "print_item local_time now it long human =
     (if long then
        let sz = (if human then human_size (it_size it) else dec (it_size it)) in
        if it_is_dir it then
          println (pad_right 12 ''-'' @ ''  '' @ pad_right 12 ''-'' @ ''  '' @ pad_right 8 ''-'' @ ''  ''
            @ pad_left 10 sz @ ''  '' @ it_name it @ ''/'')
        else
          println (fmt_ts local_time now (it_cached_at it) @ ''  '' @ fmt_ts local_time now (it_last_access it)
            @ ''  '' @ pad_right 8 (expiry_str (it_expiry it)) @ ''  '' @ pad_left 10 sz @ ''  '' @ it_name it)
      else println (shown_name it))"

text \<open>The loop over the names, with a new line before every row but the first.\<close>

fun print_columns :: "nat \<Rightarrow> nat \<Rightarrow> nat \<Rightarrow> string list \<Rightarrow> string" where
  "print_columns cols width i [] = println []"
| "print_columns cols width i (n # names) =
     (if i > 0 \<and> i mod cols = 0 then println [] else []) @ pad_right width n
     @ print_columns cols width (i + 1) names"

text \<open>\<open>columns\<close> is the variable COLUMNS, \<open>tty\<close> whether the output is a terminal.\<close>

definition name_width :: "string list \<Rightarrow> nat" where
  "name_width names = max (foldr max (map length names) 0 + 2) 1"

definition term_width :: "string option \<Rightarrow> nat" where
  "term_width columns =
     (case columns of None \<Rightarrow> 80 | Some v \<Rightarrow> (case parse_uint u64_max v of None \<Rightarrow> 80 | Some n \<Rightarrow> n))"

definition print_names :: "bool \<Rightarrow> string option \<Rightarrow> string list \<Rightarrow> bool \<Rightarrow> string" where
  "print_names tty columns names oneline =
     (if oneline \<or> \<not> tty then concat (map println names)
      else print_columns (max 1 (term_width columns div name_width names)) (name_width names) 0 names)"

definition print_ls :: "local_time \<Rightarrow> int \<Rightarrow> bool \<Rightarrow> string option \<Rightarrow> ls_opts \<Rightarrow> ls_out \<Rightarrow> string" where
  "print_ls local_time now tty columns opts out =
     (case out of
        Section s \<Rightarrow> println (s @ '':'')
      | Long_line it \<Rightarrow> print_item local_time now it True (ls_human opts)
      | Text_line s \<Rightarrow> println s
      | Names names \<Rightarrow> print_names tty columns names (ls_oneline opts))"

subsection \<open>The other commands\<close>

definition print_hosts :: "nat \<Rightarrow> (string \<times> string \<times> nat \<times> nat) list \<times> nat \<Rightarrow> string" where
  "print_hosts files table =
     (case table of (rows, all_sizes) \<Rightarrow>
        println (''Cached hosts: '' @ dec (length rows) @ '' hosts, '' @ dec files @ '' files, ''
          @ human_size all_sizes @ '' total'')
        @ println (''  '' @ pad_right 32 ''ALIAS'' @ '' '' @ pad_right 32 ''REAL HOST'' @ '' '' @ pad_left 10 []
          @ ''  files'')
        @ concat (map (\<lambda>(alias, real, sz, n).
            println (''  '' @ pad_right 32 alias @ '' '' @ pad_right 32 real @ '' '' @ pad_left 10 (human_size sz)
              @ ''  '' @ dec n)) rows))"

definition print_find :: "string \<Rightarrow> string \<Rightarrow> string set \<times> string set \<Rightarrow> string" where
  "print_find hostname query found =
     (case found of (folders, files) \<Rightarrow>
        if folders = {} \<and> files = {} then
          println (''no matches for host '' @ quoted hostname @ '' query '' @ quoted query)
        else
          println (''Matches in '' @ hostname @ '' (query '' @ quoted query @ ''): '' @ dec (card folders)
            @ '' folders, '' @ dec (card files) @ '' files'')
          @ concat (map (\<lambda>f. println (''  '' @ f)) (sorted_list_of_set folders))
          @ concat (map (\<lambda>f. println (''  '' @ f)) (sorted_list_of_set files)))"

text \<open>The digests of \<open>compute_hashes\<close> with the names they are printed under.\<close>

type_synonym digests = "(string \<times> (bytes \<Rightarrow> string)) list"

definition print_digests :: "digests \<Rightarrow> bytes option \<Rightarrow> string" where
  "print_digests digests content =
     concat (map (\<lambda>(name, digest).
       println (pad_right 13 (name @ '':'')
         @ (case content of Some b \<Rightarrow> digest b | None \<Rightarrow> ''- (stored file missing or unreadable)''))) digests)"

definition print_info_entry ::
    "digests \<Rightarrow> local_time \<Rightarrow> int \<Rightarrow> (cache_entry_detail \<Rightarrow> nat option) \<Rightarrow> string
       \<Rightarrow> cache_entry_detail \<times> string \<times> string \<times> bytes option \<Rightarrow> string" where
  "print_info_entry digests local_time now expiry dir e =
     (case e of (d, hostname, path, content) \<Rightarrow>
        println (''URL:         '' @ ce_url d) @ println (''Host:        '' @ hostname)
        @ println (''Path:        '' @ path)
        @ println (''Size:        '' @ human_size (ce_size d) @ '' ('' @ dec (ce_size d) @ '' bytes)'')
        @ print_digests digests content
        @ println (''Cached at:   '' @ fmt_ts local_time now (ce_cached_at d))
        @ println (''Last access: '' @ fmt_ts local_time now (ce_last_access d))
        @ println (''Freshness:   '' @ freshness_str (expiry d))
        @ println (''Content-Type:'' @ (case map_of (ce_headers d) ''content-type'' of Some t \<Rightarrow> t | None \<Rightarrow> ''-''))
        @ println (''Stored file: '' @ dir @ ''/'' @ ce_file_path d))"

text \<open>An empty line before every entry whose URL is not that of the first.\<close>

definition print_info ::
    "digests \<Rightarrow> local_time \<Rightarrow> int \<Rightarrow> (cache_entry_detail \<Rightarrow> nat option) \<Rightarrow> string
       \<Rightarrow> (cache_entry_detail \<times> string \<times> string \<times> bytes option) list \<Rightarrow> string" where
  "print_info digests local_time now expiry dir found =
     concat (map (\<lambda>e. (if ce_url (fst e) \<noteq> ce_url (fst (hd found)) then println [] else [])
       @ print_info_entry digests local_time now expiry dir e) found)"

definition print_rm :: "string \<Rightarrow> string option \<Rightarrow> rm_outcome \<Rightarrow> string" where
  "print_rm dir tgt r =
     (case r of
        Rm_no_cache \<Rightarrow> println (''cache is empty or not initialized at '' @ dir @ ''; nothing to remove'')
      | Rm_aborted \<Rightarrow> println ''aborted''
      | Rm_all n \<Rightarrow> println (''removed all cached entries ('' @ dec n @ '' files removed)'')
      | Rm_no_match s \<Rightarrow> println (''no entries match target '' @ quoted s)
      | Rm_removed n sz \<Rightarrow>
          println (''removed '' @ dec n @ '' entries ('' @ human_size sz @ '') for target ''
            @ quoted (case tgt of Some s \<Rightarrow> s | None \<Rightarrow> [])))"

subsection \<open>What is printed\<close>

lemma div_even_close:
  assumes "0 < b"
  shows "2 * (div_even a b * b) \<le> 2 * a + b" "2 * a \<le> 2 * (div_even a b * b) + b"
proof -
  define p r where "p = a div b * b" and "r = a mod b"
  have "div_even a b * b = p + (if b < 2 * r \<or> 2 * r = b \<and> odd (a div b) then b else 0)"
    by (simp add: div_even_def Let_def p_def r_def)
  moreover have "a = p + r" "r < b" using assms by (simp_all add: p_def r_def)
  ultimately show "2 * (div_even a b * b) \<le> 2 * a + b" "2 * a \<le> 2 * (div_even a b * b) + b"
    by (auto split: if_splits)
qed

lemma div_even_exact [simp]: "div_even a (Suc 0) = a"
  by (simp add: div_even_def)

lemma as_f64_exact: "n < 2 ^ 53 \<Longrightarrow> as_f64 n = n"
  by (simp add: as_f64_def dropped_bits.simps)

lemma unit_loop_fits:
  "unit \<le> 5 \<Longrightarrow> 1024 ^ unit \<le> m \<Longrightarrow>
     unit_loop m unit \<le> 5 \<and> 1024 ^ unit_loop m unit \<le> m
     \<and> (unit_loop m unit < 5 \<longrightarrow> m < 1024 ^ (unit_loop m unit + 1))"
proof (induction m unit rule: unit_loop.induct)
  case (1 m unit)
  show ?case
  proof (cases "1024 * 1024 ^ unit \<le> m \<and> unit < 5")
    case True
    then show ?thesis using 1 by (subst (1 2 3 4) unit_loop.simps) (simp add: UNITS_def)
  next
    case False
    then show ?thesis using 1(2,3) by (subst (1 2 3 4) unit_loop.simps) (auto simp: UNITS_def)
  qed
qed

text \<open>
  The unit of \<open>human_size\<close> is the largest the size has, up to PiB, and what is shown is within
  half a tenth of it.
\<close>

lemma human_size_close:
  assumes "1024 \<le> n" "n < 2 ^ 53"
  obtains unit t where "human_size n = dec (t div 10) @ ''.'' @ dec (t mod 10) @ '' '' @ UNITS ! unit"
    "unit \<le> 5" "1024 ^ unit \<le> n" "unit < 5 \<longrightarrow> n < 1024 ^ (unit + 1)"
    "2 * (t * 1024 ^ unit) \<le> 20 * n + 1024 ^ unit" "20 * n \<le> 2 * (t * 1024 ^ unit) + 1024 ^ unit"
proof -
  let ?u = "unit_loop n 0"
  have "human_size n = dec (tenths n ?u div 10) @ ''.'' @ dec (tenths n ?u mod 10) @ '' '' @ UNITS ! ?u"
    using assms by (simp add: human_size_def as_f64_exact Let_def)
  moreover have "?u \<le> 5 \<and> 1024 ^ ?u \<le> n \<and> (?u < 5 \<longrightarrow> n < 1024 ^ (?u + 1))"
    using unit_loop_fits [of 0 n] assms(1) by simp
  moreover have "2 * (tenths n ?u * 1024 ^ ?u) \<le> 20 * n + 1024 ^ ?u"
    "20 * n \<le> 2 * (tenths n ?u * 1024 ^ ?u) + 1024 ^ ?u"
    using div_even_close [of "1024 ^ ?u" "10 * n"] by (simp_all add: tenths_def)
  ultimately show thesis using that by blast
qed

text \<open>Rounding can reach the next unit: one byte less than a MiB is shown as 1024.0 KiB.\<close>

lemma rounds_to_next_unit: "human_size 1048575 = ''1024.0 KiB''"
proof -
  have "unit_loop 1048575 0 = 1" by (simp add: unit_loop.simps UNITS_def)
  then show ?thesis
    by (simp add: human_size_def as_f64_exact UNITS_def tenths_def div_even_def dec.simps Let_def char_of_eq_iff)
qed

text \<open>In columns every name is shown, in order, and nothing else but blanks and new lines.\<close>

lemma columns_keep_names:
  assumes "\<forall>n \<in> set names. CHR 0x0A \<notin> set n"
  shows "filter (\<lambda>c. c \<noteq> CHR 0x0A) (print_columns cols width i names) = concat (map (pad_right width) names)"
  using assms
  by (induction names arbitrary: i) (auto simp: println_def pad_right_def filter_id_conv)

end
