(* ===== verification/Ctl_Hashes.thy ===== *)
theory Ctl_Hashes
  imports Ctl_Output
begin

text \<open>
  The four digests of \<open>blitzctl cache info\<close>: \<open>compute_hashes\<close> of
  \<open>src/src/bin/blitzctl/cache_cli.rs\<close> reads the file in blocks and feeds each block to four hashers,
  and \<open>cmd_info\<close> prints the result. The crates md-5, sha1 and sha2 are parameters. The lemmas show
  that the blocks make no difference, so that the printing of Ctl\_Output, which hashes the
  whole content, is that of the code.
\<close>

subsection \<open>Hashers\<close>

text \<open>\<open>da_hex\<close> is \<open>finalize\<close> with the format \<open>{:x}\<close>.\<close>

record 'h digest_algo =
  da_new :: 'h
  da_update :: "bytes \<Rightarrow> 'h \<Rightarrow> 'h"
  da_hex :: "'h \<Rightarrow> string"

record 'h digest_lib =
  dl_md5 :: "'h digest_algo"
  dl_sha1 :: "'h digest_algo"
  dl_sha256 :: "'h digest_algo"
  dl_sha512 :: "'h digest_algo"

text \<open>What the crates promise: feeding two blocks is feeding the one they make together.\<close>

definition streaming :: "'h digest_algo \<Rightarrow> bool" where
  "streaming a \<longleftrightarrow> (\<forall>h. da_update a [] h = h)
     \<and> (\<forall>x y h. da_update a y (da_update a x h) = da_update a (x @ y) h)"

definition hash_bytes :: "'h digest_algo \<Rightarrow> bytes \<Rightarrow> string" where
  "hash_bytes a b = da_hex a (da_update a b (da_new a))"

lemma update_blocks: "streaming a \<Longrightarrow> fold (da_update a) bs (da_update a b h) = da_update a (b @ concat bs) h"
  by (induction bs arbitrary: b) (simp_all add: streaming_def)

subsection \<open>The loop\<close>

record file_hashes =
  fh_md5 :: string
  fh_sha1 :: string
  fh_sha256 :: string
  fh_sha512 :: string

text \<open>
  What the reads give: a block, or an error. At the end of the file a read gives no bytes, with
  or without an empty block in the list.
\<close>

fun hash_loop :: "'h digest_lib \<Rightarrow> (unit + bytes) list \<Rightarrow> 'h \<times> 'h \<times> 'h \<times> 'h \<Rightarrow> unit + 'h \<times> 'h \<times> 'h \<times> 'h" where
  "hash_loop lib [] s = Inr s"
| "hash_loop lib (Inl e # rs) s = Inl e"
| "hash_loop lib (Inr b # rs) (h1, h2, h3, h4) =
     (if b = [] then Inr (h1, h2, h3, h4)
      else hash_loop lib rs
        (da_update (dl_md5 lib) b h1, da_update (dl_sha1 lib) b h2,
         da_update (dl_sha256 lib) b h3, da_update (dl_sha512 lib) b h4))"

text \<open>\<open>None\<close> is a file that cannot be opened.\<close>

definition compute_hashes :: "'h digest_lib \<Rightarrow> (unit + bytes) list option \<Rightarrow> unit + file_hashes" where
  "compute_hashes lib file =
     (case file of
        None \<Rightarrow> Inl ()
      | Some reads \<Rightarrow>
          bind_res (hash_loop lib reads
              (da_new (dl_md5 lib), da_new (dl_sha1 lib), da_new (dl_sha256 lib), da_new (dl_sha512 lib)))
            (\<lambda>(h1, h2, h3, h4).
              Inr \<lparr>fh_md5 = da_hex (dl_md5 lib) h1, fh_sha1 = da_hex (dl_sha1 lib) h2,
                   fh_sha256 = da_hex (dl_sha256 lib) h3, fh_sha512 = da_hex (dl_sha512 lib) h4\<rparr>))"

definition print_hashes :: "unit + file_hashes \<Rightarrow> string" where
  "print_hashes result =
     (case result of
        Inr h \<Rightarrow>
          println (''MD5:         '' @ fh_md5 h) @ println (''SHA1:        '' @ fh_sha1 h)
          @ println (''SHA256:      '' @ fh_sha256 h) @ println (''SHA512:      '' @ fh_sha512 h)
      | Inl _ \<Rightarrow>
          println ''MD5:         - (stored file missing or unreadable)''
          @ println ''SHA1:        - (stored file missing or unreadable)''
          @ println ''SHA256:      - (stored file missing or unreadable)''
          @ println ''SHA512:      - (stored file missing or unreadable)'')"

subsection \<open>The blocks make no difference\<close>

lemma hash_loop_blocks:
  assumes "\<forall>b \<in> set bs. b \<noteq> []"
  shows "hash_loop lib (map Inr bs) (h1, h2, h3, h4)
    = Inr (fold (da_update (dl_md5 lib)) bs h1, fold (da_update (dl_sha1 lib)) bs h2,
           fold (da_update (dl_sha256 lib)) bs h3, fold (da_update (dl_sha512 lib)) bs h4)"
  using assms by (induction bs arbitrary: h1 h2 h3 h4) simp_all

lemma fold_update_new: "streaming a \<Longrightarrow> da_hex a (fold (da_update a) bs (da_new a)) = hash_bytes a (concat bs)"
  using update_blocks [of a bs "[]" "da_new a"] by (simp add: hash_bytes_def streaming_def)

text \<open>
  However the reads cut the file, the digests are those of its content; an error of any read
  leaves no digest at all.
\<close>

lemma compute_hashes_whole:
  assumes "\<forall>b \<in> set bs. b \<noteq> []"
    and "streaming (dl_md5 lib)" "streaming (dl_sha1 lib)" "streaming (dl_sha256 lib)" "streaming (dl_sha512 lib)"
  shows "compute_hashes lib (Some (map Inr bs))
    = Inr \<lparr>fh_md5 = hash_bytes (dl_md5 lib) (concat bs), fh_sha1 = hash_bytes (dl_sha1 lib) (concat bs),
           fh_sha256 = hash_bytes (dl_sha256 lib) (concat bs), fh_sha512 = hash_bytes (dl_sha512 lib) (concat bs)\<rparr>"
  using assms by (simp add: compute_hashes_def hash_loop_blocks fold_update_new)

lemma compute_hashes_error:
  assumes "\<forall>b \<in> set bs. b \<noteq> []"
  shows "compute_hashes lib (Some (map Inr bs @ Inl e # rs)) = Inl ()"
proof -
  have "hash_loop lib (map Inr bs @ Inl e # rs) s = Inl ()" for s
    using assms by (induction bs arbitrary: s) (auto split: prod.splits)
  then show ?thesis by (simp add: compute_hashes_def)
qed

text \<open>The digests that Ctl\_Run hands to the printing of an entry.\<close>

definition digests_of :: "'h digest_lib \<Rightarrow> digests" where
  "digests_of lib =
     [(''MD5'', hash_bytes (dl_md5 lib)), (''SHA1'', hash_bytes (dl_sha1 lib)),
      (''SHA256'', hash_bytes (dl_sha256 lib)), (''SHA512'', hash_bytes (dl_sha512 lib))]"

lemma digest_labels:
  "pad_right 13 ''MD5:'' = ''MD5:         ''" "pad_right 13 ''SHA1:'' = ''SHA1:        ''"
  "pad_right 13 ''SHA256:'' = ''SHA256:      ''" "pad_right 13 ''SHA512:'' = ''SHA512:      ''"
  by code_simp+

lemma print_digests_of:
  assumes "case content of None \<Rightarrow> file = None
             | Some b \<Rightarrow> \<exists>bs. file = Some (map Inr bs) \<and> (\<forall>x \<in> set bs. x \<noteq> []) \<and> concat bs = b"
    and "streaming (dl_md5 lib)" "streaming (dl_sha1 lib)" "streaming (dl_sha256 lib)" "streaming (dl_sha512 lib)"
  shows "print_digests (digests_of lib) content = print_hashes (compute_hashes lib file)"
proof (cases content)
  case None
  then show ?thesis using assms(1)
    by (simp add: compute_hashes_def print_digests_def print_hashes_def digests_of_def digest_labels)
next
  case (Some b)
  then obtain bs where bs: "file = Some (map Inr bs)" "\<forall>x \<in> set bs. x \<noteq> []" "concat bs = b"
    using assms(1) by auto
  show ?thesis
    using compute_hashes_whole [OF bs(2) assms(2-5)] Some bs(1,3)
    by (simp add: print_digests_def print_hashes_def digests_of_def digest_labels)
qed

end
