(* ===== verification/Ctl_Run.thy ===== *)
theory Ctl_Run
  imports Ctl_Output Config_Load
begin

text \<open>
  The command line of \<open>src/src/bin/blitzctl/cache_cli.rs\<close>: the commands with their arguments,
  \<open>run\<close>, and what a session of commands does to the cache. The record \<open>ctl_world\<close> is what a
  command meets outside the cache: the crates that are parameters, the clock and the time zone,
  the terminal, the directories, and the answer to a question.
\<close>

datatype cache_cmd =
    Hosts
  | Tree string string bool
  | Info string string
  | Cat string string
  | Cp bool string string string
  | Find string string find_filter
  | Rm "string option" bool
  | Ls "string option" string bool bool bool bool bool bool bool bool

text \<open>The flags of \<open>ls\<close>, without the one for the order by name, which is not looked at.\<close>

definition ls_opts_of :: "bool \<Rightarrow> bool \<Rightarrow> bool \<Rightarrow> bool \<Rightarrow> bool \<Rightarrow> bool \<Rightarrow> bool \<Rightarrow> bool \<Rightarrow> ls_opts" where
  "ls_opts_of long human recursive oneline time cached by_size reversed =
     \<lparr>ls_long = long, ls_human = human, ls_recursive = recursive, ls_oneline = oneline,
      ls_sort = (if by_size then By_size else if time then By_time else if cached then By_cached else By_name),
      ls_reverse = reversed\<rparr>"

record ctl_world =
  cw_env :: cache_env
  cw_faults :: cache_faults
  cw_url_parts :: url_parser
  cw_regex :: regex_lib
  cw_digests :: digests
  cw_parse_date :: "string \<Rightarrow> int option"
  cw_now :: int
  cw_max_age :: nat
  cw_local_time :: local_time
  cw_tty :: bool
  cw_columns :: "string option"
  cw_is_dir :: "string list \<Rightarrow> bool"
  cw_create_ok :: bool
  cw_answer :: string
  cw_exists :: bool

text \<open>
  What a command ends with: text on the two outputs, the bytes of a file and a warning, exit
  code 1, or an error.
\<close>

datatype ctl_result =
    Printed string string
  | Wrote bytes string
  | Exit_one string
  | Bailed ctl_error

definition no_cache_text :: "string \<Rightarrow> string" where
  "no_cache_text dir = println (''cache is empty or not initialized at '' @ dir)"

text \<open>
  The time left of an entry. A stored header that is no header is a panic of the code; the
  table of a sound cache has none (lemma \<open>stored_headers_readable\<close>).
\<close>

definition expiry_of :: "ctl_world \<Rightarrow> cache_entry_detail \<Rightarrow> nat option" where
  "expiry_of w d = (case entry_expiry (cw_parse_date w) (cw_now w) (cw_max_age w) d of Some e \<Rightarrow> e | None \<Rightarrow> None)"

definition with_entries :: "ctl_world \<Rightarrow> disk_cache \<Rightarrow> (cached_file list \<Rightarrow> ctl_result) \<Rightarrow> ctl_result" where
  "with_entries w c f =
     (if \<not> cw_exists w then Printed (no_cache_text (c_dir c)) []
      else (case list_all_cached c of Inl e \<Rightarrow> Bailed (Cache_failed e) | Inr entries \<Rightarrow> f entries))"

definition length_warning :: "string \<Rightarrow> nat \<Rightarrow> nat \<Rightarrow> string" where
  "length_warning verb n m =
     (if n \<noteq> m then println (''warning: '' @ verb @ dec n @ '' bytes, cache entry reports '' @ dec m @ '' bytes'') else [])"

definition run_hosts :: "ctl_world \<Rightarrow> url_map list \<Rightarrow> disk_cache \<Rightarrow> ctl_result" where
  "run_hosts w maps c = with_entries w c (\<lambda>entries.
     if entries = [] then Printed (println ''(no cached entries)'') []
     else Printed (print_hosts (length entries) (cmd_hosts (cw_url_parts w) maps entries)) [])"

definition run_tree :: "ctl_world \<Rightarrow> url_map list \<Rightarrow> string \<Rightarrow> string \<Rightarrow> bool \<Rightarrow> disk_cache \<Rightarrow> ctl_result" where
  "run_tree w maps hostname path files c = with_entries w c (\<lambda>entries.
     Printed (concat (map println (cmd_tree (cw_url_parts w) human_size maps hostname path files entries))) [])"

definition run_find :: "ctl_world \<Rightarrow> url_map list \<Rightarrow> string \<Rightarrow> string \<Rightarrow> find_filter \<Rightarrow> disk_cache \<Rightarrow> ctl_result" where
  "run_find w maps hostname query f c = with_entries w c (\<lambda>entries.
     case cmd_find (cw_url_parts w) (cw_regex w) maps (cw_now w) hostname query f entries of
       None \<Rightarrow> Bailed Bad_pattern
     | Some found \<Rightarrow> Printed (print_find hostname query found) [])"

definition run_info :: "ctl_world \<Rightarrow> url_map list \<Rightarrow> string \<Rightarrow> string \<Rightarrow> disk_cache \<Rightarrow> ctl_result" where
  "run_info w maps hostname path c =
     (case cmd_info (cw_env w) (cw_url_parts w) maps (cw_exists w) hostname path c of
        Inl e \<Rightarrow> Bailed e
      | Inr Info_no_cache \<Rightarrow> Printed (no_cache_text (c_dir c)) []
      | Inr Info_none \<Rightarrow>
          Exit_one (println (''no cached entry for host '' @ quoted hostname @ '' path '' @ quoted path))
      | Inr (Info_entries found) \<Rightarrow>
          Printed (print_info (cw_digests w) (cw_local_time w) (cw_now w) (expiry_of w) (c_dir c) found) [])"

definition run_cat :: "ctl_world \<Rightarrow> url_map list \<Rightarrow> string \<Rightarrow> string \<Rightarrow> disk_cache \<Rightarrow> ctl_result" where
  "run_cat w maps hostname path c =
     (case resolve_cached_entry (cw_env w) (cw_url_parts w) maps (cw_exists w) hostname path c of
        Inl e \<Rightarrow> Bailed e
      | Inr d \<Rightarrow>
          (case cmd_cat (cw_env w) (cw_url_parts w) maps (cw_exists w) hostname path c of
             Inl e \<Rightarrow> Bailed e
           | Inr (content, _) \<Rightarrow> Wrote content (length_warning ''wrote '' (length content) (ce_size d))))"

definition run_cp ::
    "ctl_world \<Rightarrow> url_map list \<Rightarrow> bool \<Rightarrow> string \<Rightarrow> string \<Rightarrow> string \<Rightarrow> disk_cache \<Rightarrow> ctl_result \<times> disk_cache" where
  "run_cp w maps force hostname path dest c =
     (case cmd_cp (cw_env w) (cw_url_parts w) (cw_is_dir w) (cw_create_ok w) maps (cw_exists w) force hostname path dest c of
        (Inl e, c1) \<Rightarrow> (Bailed e, c1)
      | (Inr (n, _), c1) \<Rightarrow>
          (case (resolve_cached_entry (cw_env w) (cw_url_parts w) maps (cw_exists w) hostname path c,
                 resolve_dest (cw_is_dir w) dest path) of
             (Inr d, Inr dest_path) \<Rightarrow>
               (Printed (println (''copied '' @ join_path (c_dir c) (ce_file_path d) @ '' -> '' @ dest_path
                  @ '' ('' @ dec n @ '' bytes)'')) (length_warning ''copied '' n (ce_size d)), c1)
           | (Inl e, _) \<Rightarrow> (Bailed e, c1)
           | (_, Inl e) \<Rightarrow> (Bailed e, c1)))"

text \<open>The question is put when everything is to go and \<open>--yes\<close> is not given.\<close>

definition run_rm :: "ctl_world \<Rightarrow> url_map list \<Rightarrow> string option \<Rightarrow> bool \<Rightarrow> disk_cache \<Rightarrow> ctl_result \<times> disk_cache" where
  "run_rm w maps tgt yes c =
     (let question = (if cw_exists w \<and> tgt = None \<and> \<not> yes then
            ''This will DELETE ALL cached files in '' @ c_dir c @ ''. Type '' @ quoted ''yes'' @ '' to confirm: ''
          else [])
      in case cmd_rm (cw_env w) (cw_faults w) (cw_url_parts w) maps (cw_exists w) tgt yes (cw_answer w) c of
           (Inl e, c1) \<Rightarrow> (Bailed (Cache_failed e), c1)
         | (Inr r, c1) \<Rightarrow> (Printed (question @ print_rm (c_dir c) tgt r) [], c1))"

definition run_ls :: "ctl_world \<Rightarrow> url_map list \<Rightarrow> string option \<Rightarrow> string \<Rightarrow> ls_opts \<Rightarrow> disk_cache \<Rightarrow> ctl_result" where
  "run_ls w maps host_arg path opts c =
     (if \<not> cw_exists w then Printed (no_cache_text (c_dir c)) []
      else (case list_all_detailed (cw_env w) c of
              Inl e \<Rightarrow> Bailed (Cache_failed e)
            | Inr details \<Rightarrow>
                (case cmd_ls (cw_url_parts w) (cw_regex w) (expiry_of w) maps host_arg path opts details of
                   Inl e \<Rightarrow> Bailed e
                 | Inr outs \<Rightarrow>
                     Printed (concat (map (print_ls (cw_local_time w) (cw_now w) (cw_tty w) (cw_columns w) opts) outs))
                       [])))"

definition run :: "ctl_world \<Rightarrow> url_map list \<Rightarrow> cache_cmd \<Rightarrow> disk_cache \<Rightarrow> ctl_result \<times> disk_cache" where
  "run w maps cmd c =
     (case cmd of
        Hosts \<Rightarrow> (run_hosts w maps c, c)
      | Tree hostname path files \<Rightarrow> (run_tree w maps hostname path files c, c)
      | Info hostname path \<Rightarrow> (run_info w maps hostname path c, c)
      | Cat hostname path \<Rightarrow> (run_cat w maps hostname path c, c)
      | Cp force hostname path dest \<Rightarrow> run_cp w maps force hostname path dest c
      | Find hostname query f \<Rightarrow> (run_find w maps hostname query f c, c)
      | Rm tgt yes \<Rightarrow> run_rm w maps tgt yes c
      | Ls host_arg path long human recursive oneline time cached by_size reversed \<Rightarrow>
          (run_ls w maps host_arg path (ls_opts_of long human recursive oneline time cached by_size reversed) c, c))"

text \<open>
  \<open>main\<close> of \<open>src/src/bin/blitzctl/main.rs\<close>, with the opening of the cache that every command starts
  with: the directory, the URL maps and the age come from the configuration, and URL maps that
  cannot be read count as none.
\<close>

definition ctl_main ::
    "(string \<Rightarrow> yaml_config option) \<Rightarrow> os_view \<Rightarrow> env \<Rightarrow> string option \<Rightarrow> cache_db option \<Rightarrow> disk_files
       \<Rightarrow> ctl_world \<Rightarrow> cache_cmd \<Rightarrow> ctl_result \<times> disk_cache" where
  "ctl_main yaml_of os e cache_dir db disk w cmd =
     (let dir = (case cache_dir of Some d \<Rightarrow> d | None \<Rightarrow> cache_dir_only yaml_of os e);
          maps = (case load_url_maps yaml_of os e of Inl _ \<Rightarrow> [] | Inr m \<Rightarrow> m)
      in run (w\<lparr>cw_max_age := max_cache_age_only yaml_of os e\<rparr>) maps cmd (new_cache dir u64_max db disk))"

text \<open>URL maps that cannot be read are left out without a word: the tool then shows real hosts only.\<close>

lemma bad_url_maps_ignored:
  assumes "load_url_maps yaml_of os e = Inl err"
  shows "ctl_main yaml_of os e (Some dir) db disk w cmd
     = run (w\<lparr>cw_max_age := max_cache_age_only yaml_of os e\<rparr>) [] cmd (new_cache dir u64_max db disk)"
  using assms by (simp add: ctl_main_def)

subsection \<open>What a session of commands does to the cache\<close>

primrec run_session :: "url_map list \<Rightarrow> (ctl_world \<times> cache_cmd) list \<Rightarrow> disk_cache \<Rightarrow> disk_cache" where
  "run_session maps [] c = c"
| "run_session maps (x # xs) c = run_session maps xs (snd (run (fst x) maps (snd x) c))"

text \<open>A copy is not put where the cache keeps an entry.\<close>

definition copies_outside :: "ctl_world \<Rightarrow> string \<Rightarrow> cache_cmd \<Rightarrow> bool" where
  "copies_outside w dir cmd =
     (case cmd of
        Cp force hostname path dest \<Rightarrow>
          (case resolve_dest (cw_is_dir w) dest path of
             Inr p \<Rightarrow> temp_free (cw_env w) dir (resolve_path p) | Inl _ \<Rightarrow> True)
      | _ \<Rightarrow> True)"

definition is_rm :: "cache_cmd \<Rightarrow> bool" where
  "is_rm cmd \<longleftrightarrow> (case cmd of Rm _ _ \<Rightarrow> True | _ \<Rightarrow> False)"

definition is_cp :: "cache_cmd \<Rightarrow> bool" where
  "is_cp cmd \<longleftrightarrow> (case cmd of Cp _ _ _ _ \<Rightarrow> True | _ \<Rightarrow> False)"

text \<open>No entry is new, and the entries that are left have their files as they were.\<close>

definition shrunk :: "cache_env \<Rightarrow> disk_cache \<Rightarrow> disk_cache \<Rightarrow> bool" where
  "shrunk env c c' \<longleftrightarrow> c_dir c' = c_dir c \<and> set (c_rows c') \<subseteq> set (c_rows c)
     \<and> (\<forall>u. find_row (hash_of env u) (c_rows c') \<noteq> None \<longrightarrow>
          am_get (efile env (c_dir c) u) (c_disk c') = am_get (efile env (c_dir c) u) (c_disk c))"

lemma shrunk_refl [simp]: "shrunk env c c"
  by (simp add: shrunk_def)

lemma shrunk_trans: "shrunk env c c1 \<Longrightarrow> shrunk env c1 c2 \<Longrightarrow> shrunk env c c2"
proof -
  assume 1: "shrunk env c c1" and 2: "shrunk env c1 c2"
  have "find_row h (c_rows c2) \<noteq> None \<Longrightarrow> find_row h (c_rows c1) \<noteq> None" for h
    using 2 by (auto simp: shrunk_def find_row_None)
  then show ?thesis using 1 2 by (auto simp: shrunk_def)
qed

lemma delete_urls_rows_filter:
  "\<exists>P. c_rows (snd (delete_urls env flt urls n c)) = filter P (c_rows c)"
proof (induction urls arbitrary: n c)
  case Nil
  show ?case by (rule exI [of _ "\<lambda>_. True"]) simp
next
  case (Cons url urls)
  have keep: "\<exists>P. c_rows c = filter P (c_rows c)" by (rule exI [of _ "\<lambda>_. True"]) simp
  show ?case
  proof (cases "find_row (hash_of env url) (c_rows c)")
    case None
    then show ?thesis using Cons.IH by simp
  next
    case (Some r)
    let ?c1 = "c\<lparr>c_disk := guarded_unlink flt (c_dir c) (row_path r) (c_disk c),
      c_rows := delete_row (hash_of env url) (c_rows c)\<rparr>"
    obtain P where "c_rows (snd (delete_urls env flt urls (n + 1) ?c1)) = filter P (c_rows ?c1)"
      using Cons.IH by blast
    then show ?thesis using Some keep by (auto simp: Let_def delete_row_def)
  qed
qed

lemma sizes_fit_filter: "table_ok env dir rs d \<Longrightarrow> sizes_fit rs \<Longrightarrow> sizes_fit (filter P rs)"
proof -
  assume t: "table_ok env dir rs d" and "sizes_fit rs"
  moreover have "(\<Sum>r\<leftarrow>filter P rs. row_size r) \<le> (\<Sum>r\<leftarrow>rs. row_size r)"
    if "\<forall>r \<in> set rs. 0 \<le> row_size r" using that by (induction rs) auto
  ultimately show ?thesis using table_sizes_nonneg [OF t] by (force simp: sizes_fit_def)
qed

lemma entry_present:
  assumes "cache_ok env c" "find_row (hash_of env u) (c_rows c) \<noteq> None"
  shows "am_get (efile env (c_dir c) u) (c_disk c) \<noteq> None"
proof -
  have "entry_ok env (c_dir c) (c_rows c) (c_disk c) u"
    using assms(1) by (auto simp: cache_ok_def table_ok_def)
  then show ?thesis using assms(2) by (auto simp: entry_ok_def)
qed

lemma delete_shrinks:
  assumes "sound_env env" "cache_ok env c" "sizes_fit (c_rows c)" "delete_by_urls env no_faults urls c = (r, c')"
  shows "cache_ok env c' \<and> sizes_fit (c_rows c') \<and> shrunk env c c'"
proof -
  have h: "hex_hash (hash_of env)" using assms(1) by (simp add: sound_env_def)
  have d: "delete_urls env no_faults urls 0 c = (r, c')"
    using assms(2,4) by (simp add: cache_ok_def delete_by_urls_def)
  note ok = delete_urls_ok [OF h assms(2,3) d]
  obtain P where P: "c_rows c' = filter P (c_rows c)" using delete_urls_rows_filter [of env no_faults urls 0 c] d by auto
  have t: "table_ok env (c_dir c) (c_rows c) (c_disk c)" using assms(2) by (simp add: cache_ok_def)
  have "am_get (efile env (c_dir c) u) (c_disk c') = am_get (efile env (c_dir c) u) (c_disk c)"
    if "find_row (hash_of env u) (c_rows c') \<noteq> None" for u
    using entry_present [of env c' u] ok that by metis
  then show ?thesis using ok P sizes_fit_filter [OF t assms(3), of P] by (auto simp: shrunk_def)
qed

lemma rm_shrinks:
  assumes "sound_env env" "cache_ok env c" "sizes_fit (c_rows c)"
    and "cmd_rm env no_faults url_parts maps exists tgt yes answer c = (r, c')"
  shows "cache_ok env c' \<and> sizes_fit (c_rows c') \<and> shrunk env c c'"
proof -
  have h: "hex_hash (hash_of env)" using assms(1) by (simp add: sound_env_def)
  consider "c' = c" | "c' = snd (clear_all no_faults c)"
    | urls r' where "delete_by_urls env no_faults urls c = (r', c')"
    using assms(4) that by (auto simp: cmd_rm_def Let_def split: if_splits option.splits sum.splits prod.splits)
  then show ?thesis
  proof cases
    case 1
    then show ?thesis using assms(2,3) by simp
  next
    case 2
    have "c_dir (snd (clear_all no_faults c)) = c_dir c" by (simp add: clear_all_def Let_def)
    then show ?thesis using cache_ok_clear [OF h assms(2)] 2
      by (simp add: shrunk_def find_row_def sizes_fit_def)
  next
    case 3
    then show ?thesis using delete_shrinks [OF assms(1-3)] by blast
  qed
qed

lemma copy_source_disk:
  "copy_source is_dir create_ok src dest force d0 = (r, d) \<Longrightarrow>
     d = d0 \<or> (\<exists>content. d = am_insert (resolve_path dest) content (am_insert (resolve_path dest) [] d0))"
  by (auto simp: copy_source_def Let_def split: if_splits)

lemma cp_outside:
  assumes "cache_ok env c"
    and "\<And>p. resolve_dest is_dir dest path = Inr p \<Longrightarrow> temp_free env (c_dir c) (resolve_path p)"
    and "cmd_cp env url_parts is_dir create_ok maps exists force hostname path dest c = (r, c')"
  shows "cache_ok env c' \<and> c_rows c' = c_rows c \<and> shrunk env c c'"
proof -
  have "c' = c \<or> (\<exists>p content. resolve_dest is_dir dest path = Inr p
      \<and> c' = c\<lparr>c_disk := am_insert (resolve_path p) content (am_insert (resolve_path p) [] (c_disk c))\<rparr>)"
    using assms(3) by (auto simp: cmd_cp_def split: sum.splits prod.splits dest!: copy_source_disk)
  then show ?thesis
  proof
    assume "\<exists>p content. resolve_dest is_dir dest path = Inr p
      \<and> c' = c\<lparr>c_disk := am_insert (resolve_path p) content (am_insert (resolve_path p) [] (c_disk c))\<rparr>"
    then obtain p content where p: "resolve_dest is_dir dest path = Inr p"
      "c' = c\<lparr>c_disk := am_insert (resolve_path p) content (am_insert (resolve_path p) [] (c_disk c))\<rparr>" by blast
    note f = assms(2) [OF p(1)]
    have "cache_ok env c'"
      using cache_ok_temp [OF cache_ok_temp [OF assms(1) f, of "[]"], of "resolve_path p" content] f p(2) by simp
    moreover have "efile env (c_dir c) u \<noteq> resolve_path p" for u using f by (metis temp_free_def)
    ultimately show ?thesis using p(2) by (simp add: shrunk_def)
  qed (use assms(1) in simp)
qed

lemma run_step:
  assumes "sound_env (cw_env w)" "cw_faults w = no_faults" "copies_outside w (c_dir c) cmd"
    and "cache_ok (cw_env w) c" "sizes_fit (c_rows c)"
  shows "cache_ok (cw_env w) (snd (run w maps cmd c)) \<and> sizes_fit (c_rows (snd (run w maps cmd c)))
     \<and> shrunk (cw_env w) c (snd (run w maps cmd c))
     \<and> (\<not> is_rm cmd \<longrightarrow> c_rows (snd (run w maps cmd c)) = c_rows c)
     \<and> (\<not> is_rm cmd \<and> \<not> is_cp cmd \<longrightarrow> snd (run w maps cmd c) = c)"
proof (cases cmd)
  case (Cp force hostname path dest)
  obtain r c1 where cp: "cmd_cp (cw_env w) (cw_url_parts w) (cw_is_dir w) (cw_create_ok w) maps (cw_exists w)
      force hostname path dest c = (r, c1)" by fastforce
  have "snd (run w maps cmd c) = c1" using Cp cp by (simp add: run_def run_cp_def split: sum.split prod.split)
  moreover have "temp_free (cw_env w) (c_dir c) (resolve_path p)" if "resolve_dest (cw_is_dir w) dest path = Inr p" for p
    using assms(3) Cp that by (simp add: copies_outside_def)
  ultimately show ?thesis using cp_outside [OF assms(4) _ cp] assms(5) Cp by (simp add: is_rm_def is_cp_def)
next
  case (Rm tgt yes)
  obtain r c1 where rm: "cmd_rm (cw_env w) no_faults (cw_url_parts w) maps (cw_exists w) tgt yes (cw_answer w) c = (r, c1)"
    by fastforce
  have "snd (run w maps cmd c) = c1"
    using Rm rm assms(2) by (simp add: run_def run_rm_def Let_def split: sum.split prod.split)
  then show ?thesis using rm_shrinks [OF assms(1,4,5) rm] Rm by (simp add: is_rm_def)
qed (use assms(4,5) in \<open>simp_all add: run_def\<close>)


definition demo_world :: ctl_world where
  "demo_world = \<lparr>cw_env = demo_env, cw_faults = no_faults, cw_url_parts = demo_parts,
     cw_regex = \<lparr>re_escape = (\<lambda>c. [c]), re_new = (\<lambda>_. Some (\<lambda>_. True))\<rparr>, cw_digests = [],
     cw_parse_date = (\<lambda>_. None), cw_now = 9, cw_max_age = 0, cw_local_time = (\<lambda>_. None), cw_tty = False,
     cw_columns = None, cw_is_dir = (\<lambda>_. True), cw_create_ok = True, cw_answer = ''yes'', cw_exists = True\<rparr>"


text \<open>In a sound cache the time left of every entry can be computed.\<close>

lemma stored_headers_readable:
  assumes "sound_env env" "cache_ok env c" "list_all_detailed env c = Inr details" "d \<in> set details"
  shows "entry_expiry parse_date now max_age d \<noteq> None"
proof -
  obtain r where r: "r \<in> set (c_rows c)" "d = detail_of env (row_url r) r"
    using assms(3,4) by (auto simp: list_all_detailed_def split: if_splits)
  have t: "table_ok env (c_dir c) (c_rows c) (c_disk c)" using assms(2) by (simp add: cache_ok_def)
  obtain u where "find_row (hash_of env u) (c_rows c) = Some r" using row_of_url [OF t r(1)] by blast
  then obtain hs where "row_headers r = to_json env (headers_to_map hs)"
    using table_okD(4) [OF t, of u] by (auto simp: entry_ok_def)
  then have "ce_headers d = headers_to_map hs"
    using assms(1) r(2) by (simp add: detail_of_def sound_env_def json_ok_def)
  then show ?thesis using headers_survive [of hs] by (auto simp: entry_expiry_def)
qed

end
