(* ===== verification/Test_Kit.thy ===== *)
theory Test_Kit
  imports Rust_Str
begin

text \<open>
  What the theories Tests\_* share. Each of them takes the unit tests of one source file: a test is a
  definition that says what it asserts of the model, and a lemma that this holds. The inputs are
  those the authors chose; a server of a test is a script of what it answers, and its clock an
  argument. A test the model failed would be a place where the model is not the code.
\<close>

text \<open>\<open>unwrap\<close> with the assertions on its value.\<close>

fun holds_for :: "('a \<Rightarrow> bool) \<Rightarrow> 'e + 'a \<Rightarrow> bool" where
  "holds_for P (Inl e) = False"
| "holds_for P (Inr x) = P x"

fun holds_some :: "('a \<Rightarrow> bool) \<Rightarrow> 'a option \<Rightarrow> bool" where
  "holds_some P None = False"
| "holds_some P (Some x) = P x"

text \<open>The definitions that evaluate the operations of strings.\<close>

lemmas str_eval = trim_def trim_start_def trim_end_def is_ws_def is_digit_def digit_val_def parse_uint_def Let_def
  starts_with_def ends_with_def trim_end_char_def trim_start_char_def to_ascii_lowercase_def char_of_def bit_0 rfind_char_def
  rsplit_once_def contains_str_def dec.simps

end
