(* ===== verification/Tests_Freshness.thy ===== *)
theory Tests_Freshness
  imports Disk_Cache Freshness Test_Kit
begin

text \<open>
  The unit tests of \<open>src/src/cache.rs\<close> for stored headers and for the freshness of entries, on the
  definitions of Disk\_Cache and Freshness. The clock stands still in a test: \<open>now\<close> is what \<open>now_secs\<close> says, and
  the tests pass at any time between two hours and \<open>2 ^ 62\<close> seconds after the epoch.
\<close>

text \<open>A header map with one header, and the dates of the tests for Expires.\<close>

definition hdr :: "string \<Rightarrow> string \<Rightarrow> header_map" where
  "hdr name v = header_insert name v []"

definition hdr_cache_control :: "string \<Rightarrow> header_map" where
  "hdr_cache_control v = hdr ''cache-control'' v"

definition http_date :: "int \<Rightarrow> string \<Rightarrow> int option" where
  "http_date now s =
     (if s = ''future'' then Some (now + 3600) else if s = ''past'' then Some (now - 3600) else None)"

lemmas header_eval = hdr_def hdr_cache_control_def header_insert_def header_get_def header_text_def to_str_def
  visible_char_def

lemmas fresh_eval = is_fresh_def time_until_expiry_def expires_secs_def forbids_fresh_def parse_max_age_def
  http_date_def to_u64_def sat_i64_def wrap_i64_def header_eval str_eval

lemmas stored_eval = headers_to_map_def map_filter_def stored_header_names_def valid_value_def valid_name_def
  token_char_def header_eval str_eval

definition test_is_fresh_ttl_fallback :: "int \<Rightarrow> bool" where
  "test_is_fresh_ttl_fallback now \<longleftrightarrow>
     is_fresh (http_date now) now (now - 10) [] 3600
     \<and> \<not> is_fresh (http_date now) now (now - 7200) [] 3600"

lemma passes_test_is_fresh_ttl_fallback: "7200 < now \<Longrightarrow> now < 2 ^ 62 \<Longrightarrow> test_is_fresh_ttl_fallback now"
  by (simp add: test_is_fresh_ttl_fallback_def fresh_eval)

definition test_is_fresh_ttl_zero_never_fresh :: "int \<Rightarrow> bool" where
  "test_is_fresh_ttl_zero_never_fresh now \<longleftrightarrow>
     \<not> is_fresh (http_date now) now (now - 1) [] 0"

lemma passes_test_is_fresh_ttl_zero_never_fresh: "7200 < now \<Longrightarrow> now < 2 ^ 62 \<Longrightarrow> test_is_fresh_ttl_zero_never_fresh now"
  by (simp add: test_is_fresh_ttl_zero_never_fresh_def fresh_eval)

definition test_is_fresh_max_age_within_and_expired :: "int \<Rightarrow> bool" where
  "test_is_fresh_max_age_within_and_expired now \<longleftrightarrow>
     is_fresh (http_date now) now (now - 10) (hdr_cache_control ''public, max-age=60'') 0
     \<and> \<not> is_fresh (http_date now) now (now - 120) (hdr_cache_control ''public, max-age=60'') 0"

lemma passes_test_is_fresh_max_age_within_and_expired: "7200 < now \<Longrightarrow> now < 2 ^ 62 \<Longrightarrow> test_is_fresh_max_age_within_and_expired now"
  by (simp add: test_is_fresh_max_age_within_and_expired_def fresh_eval)

definition test_is_fresh_max_age_precedes_ttl :: "int \<Rightarrow> bool" where
  "test_is_fresh_max_age_precedes_ttl now \<longleftrightarrow>
     \<not> is_fresh (http_date now) now (now - 3600) (hdr_cache_control ''max-age=60'') 86400
     \<and> is_fresh (http_date now) now (now - 10) (hdr_cache_control ''max-age=60'') 86400"

lemma passes_test_is_fresh_max_age_precedes_ttl: "7200 < now \<Longrightarrow> now < 2 ^ 62 \<Longrightarrow> test_is_fresh_max_age_precedes_ttl now"
  by (simp add: test_is_fresh_max_age_precedes_ttl_def fresh_eval)

definition test_is_fresh_max_age_edge_value :: "int \<Rightarrow> bool" where
  "test_is_fresh_max_age_edge_value now \<longleftrightarrow>
     \<not> is_fresh (http_date now) now (now - 1) (hdr_cache_control ''max-age=0'') 86400
     \<and> is_fresh (http_date now) now (now - 5) (hdr_cache_control ''max-age=+30'') 0"

lemma passes_test_is_fresh_max_age_edge_value: "7200 < now \<Longrightarrow> now < 2 ^ 62 \<Longrightarrow> test_is_fresh_max_age_edge_value now"
  by (simp add: test_is_fresh_max_age_edge_value_def fresh_eval)

definition test_is_fresh_no_cache_forces_stale :: "int \<Rightarrow> bool" where
  "test_is_fresh_no_cache_forces_stale now \<longleftrightarrow>
     \<not> is_fresh (http_date now) now (now - 1) (hdr_cache_control ''no-cache'') 86400
     \<and> \<not> is_fresh (http_date now) now (now - 1) (hdr_cache_control ''no-store'') 86400
     \<and> \<not> is_fresh (http_date now) now (now - 1) (hdr_cache_control ''max-age=3600, no-store'') 86400"

lemma passes_test_is_fresh_no_cache_forces_stale: "7200 < now \<Longrightarrow> now < 2 ^ 62 \<Longrightarrow> test_is_fresh_no_cache_forces_stale now"
  by (simp add: test_is_fresh_no_cache_forces_stale_def fresh_eval)

definition test_is_fresh_expires_within_and_expired :: "int \<Rightarrow> bool" where
  "test_is_fresh_expires_within_and_expired now \<longleftrightarrow>
     is_fresh (http_date now) now (now - 10) (hdr ''expires'' ''future'') 0
     \<and> \<not> is_fresh (http_date now) now (now - 10) (hdr ''expires'' ''past'') 86400"

lemma passes_test_is_fresh_expires_within_and_expired: "7200 < now \<Longrightarrow> now < 2 ^ 62 \<Longrightarrow> test_is_fresh_expires_within_and_expired now"
  by (simp add: test_is_fresh_expires_within_and_expired_def fresh_eval)

definition test_is_fresh_cached_at_zero_or_future :: "int \<Rightarrow> bool" where
  "test_is_fresh_cached_at_zero_or_future now \<longleftrightarrow>
     \<not> is_fresh (http_date now) now (0) [] 86400
     \<and> \<not> is_fresh (http_date now) now (now + 1000) [] 86400"

lemma passes_test_is_fresh_cached_at_zero_or_future: "7200 < now \<Longrightarrow> now < 2 ^ 62 \<Longrightarrow> test_is_fresh_cached_at_zero_or_future now"
  by (simp add: test_is_fresh_cached_at_zero_or_future_def fresh_eval)

definition test_is_fresh_invalid_expires_ignored :: "int \<Rightarrow> bool" where
  "test_is_fresh_invalid_expires_ignored now \<longleftrightarrow>
     is_fresh (http_date now) now (now - 10) (hdr ''expires'' ''not-a-date'') 3600
     \<and> \<not> is_fresh (http_date now) now (now - 7200) (hdr ''expires'' ''not-a-date'') 3600"

lemma passes_test_is_fresh_invalid_expires_ignored: "7200 < now \<Longrightarrow> now < 2 ^ 62 \<Longrightarrow> test_is_fresh_invalid_expires_ignored now"
  by (simp add: test_is_fresh_invalid_expires_ignored_def fresh_eval)

definition test_etag_equals :: bool where
  "test_etag_equals \<longleftrightarrow>
     etag_equals (hdr ''etag'' ''\"abc\"'') (hdr ''etag'' ''\"abc\"'')
     \<and> \<not> etag_equals (hdr ''etag'' ''\"abc\"'') (hdr ''etag'' ''\"xyz\"'')
     \<and> \<not> etag_equals (hdr ''etag'' ''\"abc\"'') []
     \<and> \<not> etag_equals [] (hdr ''etag'' ''\"abc\"'')"

lemma passes_test_etag_equals: test_etag_equals
  by (simp add: test_etag_equals_def etag_equals_def header_eval)

definition test_parse_max_age_robustness :: bool where
  "test_parse_max_age_robustness \<longleftrightarrow>
     parse_max_age ''max-age=60'' = Some 60
     \<and> parse_max_age ''public, max-age=3600, s-maxage=7200'' = Some 3600
     \<and> parse_max_age ''max-age=abc'' = None
     \<and> parse_max_age ''max-age=+'' = None
     \<and> parse_max_age ''max-age = 60'' = None
     \<and> parse_max_age ''no-cache'' = None"

lemma passes_test_parse_max_age_robustness: test_parse_max_age_robustness
  by (simp add: test_parse_max_age_robustness_def fresh_eval)

definition test_time_until_expiry_ttl_fallback :: "int \<Rightarrow> bool" where
  "test_time_until_expiry_ttl_fallback now \<longleftrightarrow>
     holds_some (\<lambda>n. 3588 \<le> n \<and> n \<le> 3590) (time_until_expiry (http_date now) now (now - 10) [] 3600)
     \<and> holds_some (\<lambda>n. n = 0) (time_until_expiry (http_date now) now (now - 7200) [] 3600)"

lemma passes_test_time_until_expiry_ttl_fallback: "7200 < now \<Longrightarrow> now < 2 ^ 62 \<Longrightarrow> test_time_until_expiry_ttl_fallback now"
  by (simp add: test_time_until_expiry_ttl_fallback_def fresh_eval)

definition test_time_until_expiry_max_age :: "int \<Rightarrow> bool" where
  "test_time_until_expiry_max_age now \<longleftrightarrow>
     holds_some (\<lambda>n. 49 \<le> n \<and> n \<le> 50) (time_until_expiry (http_date now) now (now - 10) (hdr_cache_control ''public, max-age=60'') 0)
     \<and> holds_some (\<lambda>n. n = 0) (time_until_expiry (http_date now) now (now - 120) (hdr_cache_control ''public, max-age=60'') 0)"

lemma passes_test_time_until_expiry_max_age: "7200 < now \<Longrightarrow> now < 2 ^ 62 \<Longrightarrow> test_time_until_expiry_max_age now"
  by (simp add: test_time_until_expiry_max_age_def fresh_eval)

definition test_time_until_expiry_expires :: "int \<Rightarrow> bool" where
  "test_time_until_expiry_expires now \<longleftrightarrow>
     holds_some (\<lambda>n. 3598 \<le> n
       \<and> n \<le> 3600) (time_until_expiry (http_date now) now (now) (hdr ''expires'' ''future'') 0)
     \<and> holds_some (\<lambda>n. n = 0) (time_until_expiry (http_date now) now (now) (header_insert ''expires'' ''past'' (hdr ''expires'' ''future'')) 86400)"

lemma passes_test_time_until_expiry_expires: "7200 < now \<Longrightarrow> now < 2 ^ 62 \<Longrightarrow> test_time_until_expiry_expires now"
  by (simp add: test_time_until_expiry_expires_def fresh_eval)

definition test_time_until_expiry_no_cache_forces_none :: "int \<Rightarrow> bool" where
  "test_time_until_expiry_no_cache_forces_none now \<longleftrightarrow>
     time_until_expiry (http_date now) now (now - 1) (hdr_cache_control ''no-cache'') 86400 = None
     \<and> time_until_expiry (http_date now) now (now - 1) (hdr_cache_control ''no-store'') 86400 = None
     \<and> time_until_expiry (http_date now) now (now - 1) (hdr_cache_control ''max-age=3600, no-store'') 86400 = None"

lemma passes_test_time_until_expiry_no_cache_forces_none: "7200 < now \<Longrightarrow> now < 2 ^ 62 \<Longrightarrow> test_time_until_expiry_no_cache_forces_none now"
  by (simp add: test_time_until_expiry_no_cache_forces_none_def fresh_eval)

definition test_time_until_expiry_no_source_none :: "int \<Rightarrow> bool" where
  "test_time_until_expiry_no_source_none now \<longleftrightarrow>
     time_until_expiry (http_date now) now (now - 1) [] 0 = None"

lemma passes_test_time_until_expiry_no_source_none: "7200 < now \<Longrightarrow> now < 2 ^ 62 \<Longrightarrow> test_time_until_expiry_no_source_none now"
  by (simp add: test_time_until_expiry_no_source_none_def fresh_eval)

definition test_time_until_expiry_invalid_cached_at :: "int \<Rightarrow> bool" where
  "test_time_until_expiry_invalid_cached_at now \<longleftrightarrow>
     time_until_expiry (http_date now) now (0) [] 86400 = None
     \<and> time_until_expiry (http_date now) now (- 5) [] 86400 = None
     \<and> time_until_expiry (http_date now) now (now + 1000) [] 86400 = None"

lemma passes_test_time_until_expiry_invalid_cached_at: "7200 < now \<Longrightarrow> now < 2 ^ 62 \<Longrightarrow> test_time_until_expiry_invalid_cached_at now"
  by (simp add: test_time_until_expiry_invalid_cached_at_def fresh_eval)

definition test_headers_to_map_roundtrip :: bool where
  "test_headers_to_map_roundtrip \<longleftrightarrow>
     (let headers = header_insert ''x-ignored'' ''should-not-appear'' (header_insert ''cache-control'' ''max-age=3600''
           (header_insert ''etag'' ''\"abc123\"'' (hdr ''content-type'' ''application/json'')));
         m = headers_to_map headers
      in map_of m ''content-type'' = Some ''application/json'' \<and> map_of m ''etag'' = Some ''\"abc123\"''
       \<and> map_of m ''cache-control'' = Some ''max-age=3600'' \<and> map_of m ''x-ignored'' = None
       \<and> holds_some (\<lambda>r. header_text ''content-type'' r = Some ''application/json''
       \<and> header_text ''etag'' r = Some ''\"abc123\"''
             \<and> header_get ''x-ignored'' r = None) (map_to_headers m []))"

lemma passes_test_headers_to_map_roundtrip: test_headers_to_map_roundtrip
  by code_simp

definition test_headers_to_map_empty :: bool where
  "test_headers_to_map_empty \<longleftrightarrow>
     headers_to_map [] = []"

lemma passes_test_headers_to_map_empty: test_headers_to_map_empty
  by (simp add: test_headers_to_map_empty_def stored_eval)

definition test_headers_to_map_only_forwarded :: bool where
  "test_headers_to_map_only_forwarded \<longleftrightarrow>
     length (headers_to_map (header_insert ''last-modified'' ''Mon, 01 Jan 2024 00:00:00 GMT''
        (header_insert ''accept-ranges'' ''bytes'' (header_insert ''content-disposition'' ''inline''
          (hdr ''content-type'' ''text/plain''))))) = 4"

lemma passes_test_headers_to_map_only_forwarded: test_headers_to_map_only_forwarded
  by (simp add: test_headers_to_map_only_forwarded_def stored_eval)

definition test_map_to_headers_invalid_value :: bool where
  "test_map_to_headers_invalid_value \<longleftrightarrow>
     holds_some (\<lambda>h. header_get ''content-type'' h = None)
       (map_to_headers [(''content-type'', ''text'' @ [char_of (0 :: nat)] @ ''plain'')] [])"

lemma passes_test_map_to_headers_invalid_value: test_map_to_headers_invalid_value
  by (simp add: test_map_to_headers_invalid_value_def stored_eval)

end
