(* ===== verification/Tests_Buffer.thy ===== *)
theory Tests_Buffer
  imports Segments_Buffer Test_Kit
begin

text \<open>
  The unit tests of \<open>src/src/buffer.rs\<close>, on the definitions of Segments\_Buffer, with files whose reads and
  writes are complete. What a receiver of the broadcast gets after it has subscribed is what the
  operations append to \<open>notify\<close>. The tests with concurrent claims are instances of Claim\_Interleaving.
\<close>

text \<open>\<open>create_temp_file\<close> and \<open>SegmentsBuffer::new\<close>, and the operations on it in the order of a test.\<close>

definition temp_buffer :: "nat \<Rightarrow> segments_buffer" where
  "temp_buffer n = new_buffer n (replicate n 0) ''/tmp/b.download''"

definition claimed :: "nat \<Rightarrow> segments_buffer \<Rightarrow> segments_buffer" where
  "claimed preferred b = snd (claim_range preferred b)"

definition claims :: "nat \<Rightarrow> segments_buffer \<Rightarrow> (nat \<times> nat \<times> nat) option" where
  "claims preferred b = fst (claim_range preferred b)"

definition written :: "nat \<Rightarrow> bytes \<Rightarrow> segments_buffer \<Rightarrow> segments_buffer" where
  "written off d b = snd (write_data wr_full off d b)"

definition reads :: "nat \<Rightarrow> nat \<Rightarrow> segments_buffer \<Rightarrow> bytes option" where
  "reads off len b = read_data (rd_full (dl_file b)) off len b"

definition bytes_of :: "string \<Rightarrow> bytes" where
  "bytes_of s = map of_char s"

definition news :: "(segments_buffer \<Rightarrow> segments_buffer) \<Rightarrow> segments_buffer \<Rightarrow> nat list" where
  "news f b = drop (length (notify b)) (notify (f b))"

lemma written_full: "written off d b = b\<lparr>dl_file := pwrite (dl_file b) off d\<rparr>"
proof -
  have "snd (write_loop wr_full off d 0 f) = pwrite f off d" for f
  proof (cases "d = []")
    case True
    then show ?thesis by (simp add: write_loop.simps)
  next
    case False
    have "write_loop wr_full off d 0 f = write_loop wr_full off d (length d) (pwrite f off d)"
      using False by (subst write_loop.simps) (simp add: wr_full_def)
    then show ?thesis by (simp add: write_loop.simps [where written = "length d"])
  qed
  then show ?thesis by (simp add: written_def write_data_def split_beta)
qed

lemma write_full_ok: "fst (write_data wr_full off d b) = Inr ()"
proof -
  have "fst (write_loop wr_full off d 0 f) = Inr ()" for f
    by (cases "d = []") (simp_all add: write_loop.simps [where written = "length d"] write_loop.simps [where written = 0]
        wr_full_def)
  then show ?thesis by (simp add: write_data_def split_beta)
qed

lemmas buffer_eval = temp_buffer_def claimed_def claims_def reads_def bytes_of_def news_def written_full write_full_ok
  new_buffer_def claim_range_def mark_ready_def is_ready_def num_segments_def segment_start_def segment_end_def
  all_completed_def mark_all_ready_def set_failed_def is_failed_def read_data_def rd_full_def pwrite_def pread_def

definition test_new_buffer_empty_file :: bool where
  "test_new_buffer_empty_file \<longleftrightarrow>
     (let b0 = temp_buffer 0;
         b1 = claimed 1024 b0
      in total_size b0 = 0
       \<and> num_segments b0 = 0
       \<and> claims 1024 b0 = None
       \<and> all_completed b1)"

lemma passes_test_new_buffer_empty_file: test_new_buffer_empty_file
  unfolding test_new_buffer_empty_file_def Let_def by (simp add: buffer_eval Let_def)

definition test_new_buffer_nonempty :: bool where
  "test_new_buffer_nonempty \<longleftrightarrow>
     (let b0 = temp_buffer 4096
      in total_size b0 = 4096
       \<and> num_segments b0 = 0
       \<and> \<not> all_completed b0)"

lemma passes_test_new_buffer_nonempty: test_new_buffer_nonempty
  unfolding test_new_buffer_nonempty_def Let_def by (simp add: buffer_eval Let_def)

definition test_claim_range_exact :: bool where
  "test_claim_range_exact \<longleftrightarrow>
     (let b0 = temp_buffer 1024;
         b1 = claimed 1024 b0;
         b2 = claimed 1024 b1
      in claims 1024 b0 = Some (0, 0, 1024)
       \<and> num_segments b1 = 1
       \<and> claims 1024 b1 = None
       \<and> all_assigned b2)"

lemma passes_test_claim_range_exact: test_claim_range_exact
  unfolding test_claim_range_exact_def Let_def by (simp add: buffer_eval Let_def)

definition test_claim_range_partial :: bool where
  "test_claim_range_partial \<longleftrightarrow>
     (let b0 = temp_buffer 500;
         b1 = claimed 1024 b0
      in claims 1024 b0 = Some (0, 0, 500)
       \<and> claims 1024 b1 = None)"

lemma passes_test_claim_range_partial: test_claim_range_partial
  unfolding test_claim_range_partial_def Let_def by (simp add: buffer_eval Let_def)

definition test_claim_range_multiple :: bool where
  "test_claim_range_multiple \<longleftrightarrow>
     (let b0 = temp_buffer 1000;
         b1 = claimed 400 b0;
         b2 = claimed 400 b1;
         b3 = claimed 400 b2;
         b4 = claimed 400 b3
      in claims 400 b0 = Some (0, 0, 400)
       \<and> claims 400 b1 = Some (1, 400, 800)
       \<and> claims 400 b2 = Some (2, 800, 1000)
       \<and> claims 400 b3 = None
       \<and> num_segments b4 = 3)"

lemma passes_test_claim_range_multiple: test_claim_range_multiple
  unfolding test_claim_range_multiple_def Let_def by (simp add: buffer_eval Let_def)

definition test_segment_bounds :: bool where
  "test_segment_bounds \<longleftrightarrow>
     (let b0 = temp_buffer 100;
         b1 = claimed 37 b0
      in claims 37 b0 = Some (0, 0, 37)
       \<and> segment_start 0 b1 = 0
       \<and> segment_end 0 b1 = 37)"

lemma passes_test_segment_bounds: test_segment_bounds
  unfolding test_segment_bounds_def Let_def by (simp add: buffer_eval Let_def)

definition test_mark_ready_is_ready :: bool where
  "test_mark_ready_is_ready \<longleftrightarrow>
     (let b0 = temp_buffer 100;
         b1 = claimed 100 b0;
         b2 = mark_ready 0 b1
      in claims 100 b0 = Some (0, 0, 100)
       \<and> \<not> is_ready 0 b1
       \<and> is_ready 0 b2)"

lemma passes_test_mark_ready_is_ready: test_mark_ready_is_ready
  unfolding test_mark_ready_is_ready_def Let_def by (simp add: buffer_eval Let_def)

definition test_is_ready_invalid_id :: bool where
  "test_is_ready_invalid_id \<longleftrightarrow>
     (let b0 = temp_buffer 100
      in \<not> is_ready 999 b0)"

lemma passes_test_is_ready_invalid_id: test_is_ready_invalid_id
  unfolding test_is_ready_invalid_id_def Let_def by (simp add: buffer_eval Let_def)

definition test_all_completed_no_segments :: bool where
  "test_all_completed_no_segments \<longleftrightarrow>
     (let b0 = temp_buffer 0;
         b1 = claimed 1024 b0
      in claims 1024 b0 = None
       \<and> all_completed b1)"

lemma passes_test_all_completed_no_segments: test_all_completed_no_segments
  unfolding test_all_completed_no_segments_def Let_def by (simp add: buffer_eval Let_def)

definition test_all_completed_partial :: bool where
  "test_all_completed_partial \<longleftrightarrow>
     (let b0 = temp_buffer 200;
         b1 = claimed 100 b0;
         b2 = claimed 100 b1;
         b3 = claimed 100 b2;
         b4 = mark_ready 0 b3;
         b5 = mark_ready 1 b4
      in claims 100 b2 = None
       \<and> \<not> all_completed b3
       \<and> \<not> all_completed b4
       \<and> all_completed b5)"

lemma passes_test_all_completed_partial: test_all_completed_partial
  unfolding test_all_completed_partial_def Let_def by (simp add: buffer_eval Let_def)

definition test_all_completed_not_all_assigned :: bool where
  "test_all_completed_not_all_assigned \<longleftrightarrow>
     (let b0 = temp_buffer 100;
         b1 = claimed 50 b0
      in \<not> all_completed b1)"

lemma passes_test_all_completed_not_all_assigned: test_all_completed_not_all_assigned
  unfolding test_all_completed_not_all_assigned_def Let_def by (simp add: buffer_eval Let_def)

definition test_write_and_read_data :: bool where
  "test_write_and_read_data \<longleftrightarrow>
     (let b0 = temp_buffer 50;
         b1 = written 0 (bytes_of ''hello world'') b0
      in is_ok (fst (write_data wr_full 0 (bytes_of ''hello world'') b0))
       \<and> reads 0 11 b1 = Some (bytes_of ''hello world''))"

lemma passes_test_write_and_read_data: test_write_and_read_data
  unfolding test_write_and_read_data_def Let_def by (simp add: buffer_eval Let_def)

definition test_write_data_within_bounds :: bool where
  "test_write_data_within_bounds \<longleftrightarrow>
     (let b0 = temp_buffer 10;
         b1 = written 0 (bytes_of ''0123456789'') b0
      in is_ok (fst (write_data wr_full 0 (bytes_of ''0123456789'') b0))
       \<and> reads 0 10 b1 = Some (bytes_of ''0123456789''))"

lemma passes_test_write_data_within_bounds: test_write_data_within_bounds
  unfolding test_write_data_within_bounds_def Let_def by (simp add: buffer_eval Let_def)

definition test_write_data_beyond_file_extends_sparse :: bool where
  "test_write_data_beyond_file_extends_sparse \<longleftrightarrow>
     (let b0 = temp_buffer 10;
         b1 = written 0 (replicate 20 0xAB) b0
      in is_ok (fst (write_data wr_full 0 (replicate 20 0xAB) b0))
       \<and> reads 0 20 b1 = Some (replicate 20 0xAB))"

lemma passes_test_write_data_beyond_file_extends_sparse: test_write_data_beyond_file_extends_sparse
  unfolding test_write_data_beyond_file_extends_sparse_def Let_def by (simp add: buffer_eval Let_def)

definition test_read_data_empty_file :: bool where
  "test_read_data_empty_file \<longleftrightarrow>
     (let b0 = temp_buffer 0
      in (case reads 0 10 b0 of None \<Rightarrow> True | Some d \<Rightarrow> d = []))"

lemma passes_test_read_data_empty_file: test_read_data_empty_file
  unfolding test_read_data_empty_file_def Let_def by (simp add: buffer_eval Let_def)

definition test_read_data_beyond_file :: bool where
  "test_read_data_beyond_file \<longleftrightarrow>
     (let b0 = temp_buffer 10
      in (case reads 5 100 b0 of None \<Rightarrow> False | Some d \<Rightarrow> length d \<le> 5))"

lemma passes_test_read_data_beyond_file: test_read_data_beyond_file
  unfolding test_read_data_beyond_file_def Let_def by (simp add: buffer_eval Let_def)

definition test_set_failed_and_is_failed :: bool where
  "test_set_failed_and_is_failed \<longleftrightarrow>
     (let b0 = temp_buffer 100;
         b1 = set_failed b0
      in \<not> is_failed b0
       \<and> is_failed b1)"

lemma passes_test_set_failed_and_is_failed: test_set_failed_and_is_failed
  unfolding test_set_failed_and_is_failed_def Let_def by (simp add: buffer_eval Let_def)

definition test_set_meta_and_wait_meta :: bool where
  "test_set_meta_and_wait_meta \<longleftrightarrow>
     (let b0 = temp_buffer 100; b1 = set_meta 200 [(''content-type'', ''text/plain'')] b0
      in wait_meta [meta b0, meta b1] = Some (200, [(''content-type'', ''text/plain'')]))"

lemma passes_test_set_meta_and_wait_meta: test_set_meta_and_wait_meta
  unfolding test_set_meta_and_wait_meta_def Let_def by (simp add: buffer_eval Let_def set_meta_def)

definition test_wait_meta_block_then_set :: bool where
  "test_wait_meta_block_then_set \<longleftrightarrow>
     (let b0 = temp_buffer 100; b1 = set_meta 200 [(''x-custom'', ''val'')] b0
      in holds_some (\<lambda>m. fst m = 200) (wait_meta [meta b0, meta b1]))"

lemma passes_test_wait_meta_block_then_set: test_wait_meta_block_then_set
  unfolding test_wait_meta_block_then_set_def Let_def by (simp add: buffer_eval Let_def set_meta_def)

definition test_notify_broadcast_on_ready :: bool where
  "test_notify_broadcast_on_ready \<longleftrightarrow>
     (let b0 = temp_buffer 100;
         b1 = claimed 100 b0
      in claims 100 b0 = Some (0, 0, 100)
       \<and> news (mark_ready 0) b1 = [0])"

lemma passes_test_notify_broadcast_on_ready: test_notify_broadcast_on_ready
  unfolding test_notify_broadcast_on_ready_def Let_def by (simp add: buffer_eval Let_def)

definition test_notify_broadcast_on_failed :: bool where
  "test_notify_broadcast_on_failed \<longleftrightarrow>
     (let b0 = temp_buffer 100
      in news set_failed b0 \<noteq> [])"

lemma passes_test_notify_broadcast_on_failed: test_notify_broadcast_on_failed
  unfolding test_notify_broadcast_on_failed_def Let_def by (simp add: buffer_eval Let_def)

definition test_file_path_method :: "string \<Rightarrow> bool" where
  "test_file_path_method path \<longleftrightarrow>
     file_path (new_buffer 42 (replicate 42 0) path) = path"

lemma passes_test_file_path_method: "test_file_path_method path"
  by (simp add: test_file_path_method_def new_buffer_def)

definition test_double_mark_ready :: bool where
  "test_double_mark_ready \<longleftrightarrow>
     (let b0 = temp_buffer 100;
         b1 = claimed 100 b0;
         b2 = mark_ready 0 b1;
         b3 = mark_ready 0 b2
      in is_ready 0 b3)"

lemma passes_test_double_mark_ready: test_double_mark_ready
  unfolding test_double_mark_ready_def Let_def by (simp add: buffer_eval Let_def)

definition test_claim_range_preferred_size_zero_is_noop :: bool where
  "test_claim_range_preferred_size_zero_is_noop \<longleftrightarrow>
     (let b0 = temp_buffer 100;
         b1 = claimed 0 b0
      in claims 0 b0 = None
       \<and> \<not> all_assigned b1
       \<and> num_segments b1 = 0
       \<and> claims 50 b1 \<noteq> None)"

lemma passes_test_claim_range_preferred_size_zero_is_noop: test_claim_range_preferred_size_zero_is_noop
  unfolding test_claim_range_preferred_size_zero_is_noop_def Let_def by (simp add: buffer_eval Let_def)

definition test_read_data_zero_length :: bool where
  "test_read_data_zero_length \<longleftrightarrow>
     (let b0 = temp_buffer 50
      in reads 10 0 b0 = Some [])"

lemma passes_test_read_data_zero_length: test_read_data_zero_length
  unfolding test_read_data_zero_length_def Let_def by (simp add: buffer_eval Let_def)

definition test_read_data_at_zero_offset_zero_len :: bool where
  "test_read_data_at_zero_offset_zero_len \<longleftrightarrow>
     (let b0 = temp_buffer 1
      in holds_some (\<lambda>d. length d = 1) (reads 0 1 b0))"

lemma passes_test_read_data_at_zero_offset_zero_len: test_read_data_at_zero_offset_zero_len
  unfolding test_read_data_at_zero_offset_zero_len_def Let_def by (simp add: buffer_eval Let_def)

definition test_mark_ready_invalid_id_no_panic :: bool where
  "test_mark_ready_invalid_id_no_panic \<longleftrightarrow>
     (let b0 = temp_buffer 100;
         b1 = mark_ready 42 b0;
         b2 = mark_ready u64_max b1
      in ready_count b0 = ready_count b2)"

lemma passes_test_mark_ready_invalid_id_no_panic: test_mark_ready_invalid_id_no_panic
  unfolding test_mark_ready_invalid_id_no_panic_def Let_def by (simp add: buffer_eval Let_def)

definition test_num_segments_consistency :: bool where
  "test_num_segments_consistency \<longleftrightarrow>
     (let b0 = temp_buffer 1000;
         b1 = claimed 100 b0;
         b2 = claimed 200 b1;
         b3 = claimed 700 b2
      in num_segments b0 = 0
       \<and> num_segments b1 = 1
       \<and> num_segments b2 = 2
       \<and> num_segments b3 = 3)"

lemma passes_test_num_segments_consistency: test_num_segments_consistency
  unfolding test_num_segments_consistency_def Let_def by (simp add: buffer_eval Let_def)

definition test_all_completed_single_byte :: bool where
  "test_all_completed_single_byte \<longleftrightarrow>
     (let b0 = temp_buffer 1;
         b1 = claimed 1 b0;
         b2 = claimed 1 b1;
         b3 = mark_ready 0 b2
      in claims 1 b1 = None
       \<and> \<not> all_completed b2
       \<and> all_completed b3)"

lemma passes_test_all_completed_single_byte: test_all_completed_single_byte
  unfolding test_all_completed_single_byte_def Let_def by (simp add: buffer_eval Let_def)

definition test_claim_range_large_preferred_size :: bool where
  "test_claim_range_large_preferred_size \<longleftrightarrow>
     (let b0 = temp_buffer 10
      in claims u64_max b0 = Some (0, 0, 10))"

lemma passes_test_claim_range_large_preferred_size: test_claim_range_large_preferred_size
  unfolding test_claim_range_large_preferred_size_def Let_def by (simp add: buffer_eval Let_def)

definition test_write_data_sequential_chunks :: bool where
  "test_write_data_sequential_chunks \<longleftrightarrow>
     (let b0 = temp_buffer 20;
         b1 = written 0 (bytes_of ''AAAAA'') b0;
         b2 = written 5 (bytes_of ''BBBBB'') b1;
         b3 = written 10 (bytes_of ''CCCCC'') b2;
         b4 = written 15 (bytes_of ''DDDDD'') b3
      in reads 0 20 b4 = Some (bytes_of ''AAAAABBBBBCCCCCDDDDD''))"

lemma passes_test_write_data_sequential_chunks: test_write_data_sequential_chunks
  unfolding test_write_data_sequential_chunks_def Let_def by (simp add: buffer_eval Let_def)

definition test_write_data_overlapping :: bool where
  "test_write_data_overlapping \<longleftrightarrow>
     (let b0 = temp_buffer 10;
         b1 = written 0 (bytes_of ''xxxxxxxxx'') b0;
         b2 = written 2 (bytes_of ''YYY'') b1
      in holds_some (\<lambda>d. take 9 d = bytes_of ''xxYYYxxxx'' \<and> d ! 9 = 0) (reads 0 10 b2))"

lemma passes_test_write_data_overlapping: test_write_data_overlapping
  unfolding test_write_data_overlapping_def Let_def by (simp add: buffer_eval Let_def)

definition test_is_ready_after_mark_not_affecting_other_segments :: bool where
  "test_is_ready_after_mark_not_affecting_other_segments \<longleftrightarrow>
     (let b0 = temp_buffer 200;
         b1 = claimed 100 b0;
         b2 = claimed 100 b1;
         b3 = mark_ready 0 b2;
         b4 = mark_ready 1 b3
      in \<not> is_ready 0 b2
       \<and> \<not> is_ready 1 b2
       \<and> is_ready 0 b3
       \<and> \<not> is_ready 1 b3
       \<and> is_ready 0 b4
       \<and> is_ready 1 b4)"

lemma passes_test_is_ready_after_mark_not_affecting_other_segments: test_is_ready_after_mark_not_affecting_other_segments
  unfolding test_is_ready_after_mark_not_affecting_other_segments_def Let_def by (simp add: buffer_eval Let_def)

definition test_notify_multiple_ready :: bool where
  "test_notify_multiple_ready \<longleftrightarrow>
     (let b0 = temp_buffer 300;
         b1 = claimed 100 b0;
         b2 = claimed 100 b1;
         b3 = claimed 100 b2;
         b4 = claimed 1 b3
      in claims 1 b3 = None
       \<and> (let seen = set (take 3 (news (mark_ready 2 \<circ> mark_ready 1 \<circ> mark_ready 0) b4))
            in card seen = 3 \<and> 0 \<in> seen \<and> 1 \<in> seen \<and> 2 \<in> seen))"

lemma passes_test_notify_multiple_ready: test_notify_multiple_ready
  unfolding test_notify_multiple_ready_def Let_def by (simp add: buffer_eval Let_def)

definition test_all_completed_empty_after_claim :: bool where
  "test_all_completed_empty_after_claim \<longleftrightarrow>
     (let b0 = temp_buffer 0;
         b1 = claimed 1024 b0
      in all_completed b1)"

lemma passes_test_all_completed_empty_after_claim: test_all_completed_empty_after_claim
  unfolding test_all_completed_empty_after_claim_def Let_def by (simp add: buffer_eval Let_def)

definition test_segment_start_out_of_bounds_returns_zero :: bool where
  "test_segment_start_out_of_bounds_returns_zero \<longleftrightarrow>
     (let b0 = temp_buffer 100;
         b1 = claimed 100 b0
      in segment_start 999 b1 = 0
       \<and> segment_start u64_max b1 = 0)"

lemma passes_test_segment_start_out_of_bounds_returns_zero: test_segment_start_out_of_bounds_returns_zero
  unfolding test_segment_start_out_of_bounds_returns_zero_def Let_def by (simp add: buffer_eval Let_def)

definition test_segment_end_out_of_bounds_returns_total_size :: bool where
  "test_segment_end_out_of_bounds_returns_total_size \<longleftrightarrow>
     (let b0 = temp_buffer 100;
         b1 = claimed 100 b0
      in segment_end 999 b1 = 100
       \<and> segment_end u64_max b1 = 100)"

lemma passes_test_segment_end_out_of_bounds_returns_total_size: test_segment_end_out_of_bounds_returns_total_size
  unfolding test_segment_end_out_of_bounds_returns_total_size_def Let_def by (simp add: buffer_eval Let_def)

definition test_read_data_offset_beyond_total_size :: bool where
  "test_read_data_offset_beyond_total_size \<longleftrightarrow>
     (let b0 = temp_buffer 100
      in reads 200 10 b0 = None)"

lemma passes_test_read_data_offset_beyond_total_size: test_read_data_offset_beyond_total_size
  unfolding test_read_data_offset_beyond_total_size_def Let_def by (simp add: buffer_eval Let_def)

definition test_write_data_offset_beyond_file_size :: bool where
  "test_write_data_offset_beyond_file_size \<longleftrightarrow>
     (let b0 = temp_buffer 10
      in is_ok (fst (write_data wr_full 100 (bytes_of ''overflow'') b0)))"

lemma passes_test_write_data_offset_beyond_file_size: test_write_data_offset_beyond_file_size
  unfolding test_write_data_offset_beyond_file_size_def Let_def by (simp add: buffer_eval Let_def)

definition test_mark_all_ready_then_all_completed :: bool where
  "test_mark_all_ready_then_all_completed \<longleftrightarrow>
     (let b0 = temp_buffer 500;
         b1 = claimed 100 b0;
         b2 = claimed 100 b1;
         b3 = claimed 100 b2;
         b4 = claimed 100 b3;
         b5 = claimed 100 b4;
         b6 = claimed 1 b5;
         b7 = mark_all_ready b6
      in claims 1 b5 = None
       \<and> \<not> all_completed b6
       \<and> all_completed b7)"

lemma passes_test_mark_all_ready_then_all_completed: test_mark_all_ready_then_all_completed
  unfolding test_mark_all_ready_then_all_completed_def Let_def by (simp add: buffer_eval Let_def)

end
