(* ===== verification/Tests_Coalescer.thy ===== *)
theory Tests_Coalescer
  imports Coalescing Test_Kit
begin

text \<open>
  The unit tests of \<open>src/src/coalescer.rs\<close>, on the definitions of Coalescing. A buffer is its number.
  Registrations of several tasks are atomic under the mutex, so the tests with tasks register in some
  order; the URLs of these tests differ in their number only.
\<close>

text \<open>The state after an operation, what \<open>register\<close> answers, and many registrations one after the other.\<close>

definition answer :: "string \<Rightarrow> nat coalescer \<Rightarrow> nat register_result" where
  "answer url c = fst (register url c)"

definition joins :: "string \<Rightarrow> nat coalescer \<Rightarrow> nat coalescer" where
  "joins url c = snd (register url c)"

fun is_follower :: "nat register_result \<Rightarrow> bool" where
  "is_follower (Follower _) = True"
| "is_follower _ = False"

fun answers :: "string list \<Rightarrow> nat coalescer \<Rightarrow> nat register_result list" where
  "answers [] c = []"
| "answers (u # us) c = answer u c # answers us (joins u c)"

abbreviation empty_coalescer :: "nat coalescer" where
  "empty_coalescer \<equiv> new_coalescer"

lemma register_new:
  assumes "u \<notin> fst ` set (inflight c)" "length (inflight c) < MAX_INFLIGHT"
  shows "answer u c = Leader" "inflight (joins u c) = inflight c @ [(u, Pending [])]"
proof -
  have none: "am_get u (inflight c) = None" using assms(1) by (simp add: am_get_None_iff)
  have ins: "am_insert u v m = m @ [(u, v)]" if "u \<notin> fst ` set m" for v :: "nat inflight" and m
    using that by (induction u v m rule: am_insert.induct) auto
  show "answer u c = Leader" "inflight (joins u c) = inflight c @ [(u, Pending [])]"
    using assms none ins by (simp_all add: answer_def joins_def register_def)
qed

text \<open>As long as there is room every new URL has a leader of its own.\<close>

lemma register_all_new:
  assumes "distinct us" "set us \<inter> fst ` set (inflight c) = {}" "length (inflight c) + length us \<le> MAX_INFLIGHT"
  shows "answers us c = replicate (length us) Leader
    \<and> inflight (fold joins us c) = inflight c @ map (\<lambda>u. (u, Pending [])) us"
  using assms
proof (induction us arbitrary: c)
  case Nil
  then show ?case by simp
next
  case (Cons u us)
  have new: "answer u c = Leader" "inflight (joins u c) = inflight c @ [(u, Pending [])]"
    using register_new [of u c] Cons.prems by auto
  show ?case using Cons.IH [of "joins u c"] Cons.prems new by auto
qed

lemma digits_inj: "dec m = dec n \<Longrightarrow> m = n"
  using parse_uint_dec [of m "max m n"] parse_uint_dec [of n "max m n"] by (metis max.cobounded1 max.cobounded2 option.inject)

definition numbered :: "string \<Rightarrow> nat \<Rightarrow> string list" where
  "numbered pre n = map (\<lambda>i. pre @ dec i) [0..<n]"

lemma numbered_props: "distinct (numbered pre n)" "length (numbered pre n) = n"
  by (auto simp: numbered_def distinct_map intro!: inj_onI dest: digits_inj)

lemma numbered_new:
  assumes "n \<le> MAX_INFLIGHT"
  shows "answers (numbered pre n) empty_coalescer = replicate n Leader
    \<and> inflight (fold joins (numbered pre n) empty_coalescer) = map (\<lambda>u. (u, Pending [])) (numbered pre n)"
  using register_all_new [of "numbered pre n" empty_coalescer] assms numbered_props [of pre n]
  by (simp add: new_coalescer_def)

lemmas coalescer_eval = answer_def joins_def new_coalescer_def register_def attach_buffer_def complete_def
  take_entry_def send_all_def MAX_INFLIGHT_def am_remove_def Let_def

definition test_register_leader_first_call :: bool where
  "test_register_leader_first_call \<longleftrightarrow>
     answer ''http://example.com/file'' empty_coalescer = Leader"

lemma passes_test_register_leader_first_call: test_register_leader_first_call
  unfolding test_register_leader_first_call_def Let_def by (simp add: coalescer_eval)

definition test_register_follower_then_leader :: bool where
  "test_register_follower_then_leader \<longleftrightarrow>
     (let url = ''http://example.com/a''; c0 = empty_coalescer; c1 = joins url c0
      in answer url c0 = Leader
       \<and> is_follower (answer url c1))"

lemma passes_test_register_follower_then_leader: test_register_follower_then_leader
  unfolding test_register_follower_then_leader_def Let_def by (simp add: coalescer_eval)

definition test_register_multiple_followers :: bool where
  "test_register_multiple_followers \<longleftrightarrow>
     (let url = ''http://example.com/multi''; c0 = empty_coalescer; c1 = joins url c0
      in list_all is_follower (answers (replicate 5 url) c1))"

lemma passes_test_register_multiple_followers: test_register_multiple_followers
  unfolding test_register_multiple_followers_def Let_def by (simp add: coalescer_eval eval_nat_numeral)

definition test_attach_buffer_sends_to_followers :: bool where
  "test_attach_buffer_sends_to_followers \<longleftrightarrow>
     (let url = ''http://example.com/attach''; c0 = empty_coalescer; c1 = joins url c0; c2 = joins url c1; c3 = attach_buffer url 7 c2
      in (case answer url c1 of Follower rx \<Rightarrow> channels c3 rx = Sent 7 | _ \<Rightarrow> False))"

lemma passes_test_attach_buffer_sends_to_followers: test_attach_buffer_sends_to_followers
  unfolding test_attach_buffer_sends_to_followers_def Let_def by (simp add: coalescer_eval)

definition test_attach_buffer_without_followers :: bool where
  "test_attach_buffer_without_followers \<longleftrightarrow>
     (let url = ''http://example.com/no-followers''; c0 = empty_coalescer; c1 = joins url c0; c2 = attach_buffer url 7 c1
      in am_get url (inflight c2) = Some (In_download 7))"

lemma passes_test_attach_buffer_without_followers: test_attach_buffer_without_followers
  unfolding test_attach_buffer_without_followers_def Let_def by (simp add: coalescer_eval)

definition test_follower_buffer_when_already_downloading :: bool where
  "test_follower_buffer_when_already_downloading \<longleftrightarrow>
     (let url = ''http://example.com/already-dl''; c0 = empty_coalescer; c1 = joins url c0; c2 = attach_buffer url 7 c1
      in answer url c2 = Follower_buffer 7)"

lemma passes_test_follower_buffer_when_already_downloading: test_follower_buffer_when_already_downloading
  unfolding test_follower_buffer_when_already_downloading_def Let_def by (simp add: coalescer_eval)

definition test_complete_removes_entry :: bool where
  "test_complete_removes_entry \<longleftrightarrow>
     (let url = ''http://example.com/complete''; c0 = empty_coalescer; c1 = joins url c0; c2 = complete url c1
      in am_get url (inflight c1) \<noteq> None
       \<and> am_get url (inflight c2) = None)"

lemma passes_test_complete_removes_entry: test_complete_removes_entry
  unfolding test_complete_removes_entry_def Let_def by (simp add: coalescer_eval)

definition test_max_inflight_overflow :: bool where
  "test_max_inflight_overflow \<longleftrightarrow>
     (let us = numbered ''http://example.com/unique-'' MAX_INFLIGHT
      in answers us empty_coalescer = replicate MAX_INFLIGHT Leader
       \<and> answer ''http://example.com/overflow'' (fold joins us empty_coalescer) = Leader)"

lemma passes_test_max_inflight_overflow: test_max_inflight_overflow
  unfolding test_max_inflight_overflow_def Let_def
  using numbered_new [of MAX_INFLIGHT "''http://example.com/unique-''"] numbered_props(2)
  by (simp add: answer_def register_def)

definition test_different_urls_independent :: bool where
  "test_different_urls_independent \<longleftrightarrow>
     (let c0 = empty_coalescer; c1 = joins ''http://a.com/1'' c0; c2 = joins ''http://b.com/2'' c1; c3 = joins ''http://a.com/1'' c2
      in answer ''http://a.com/1'' c0 = Leader \<and> answer ''http://b.com/2'' c1 = Leader
       \<and> is_follower (answer ''http://a.com/1'' c2) \<and> answer ''http://c.com/3'' c3 = Leader)"

lemma passes_test_different_urls_independent: test_different_urls_independent
  unfolding test_different_urls_independent_def Let_def by (simp add: coalescer_eval)

definition test_attach_buffer_then_register_follower_buffer :: bool where
  "test_attach_buffer_then_register_follower_buffer \<longleftrightarrow>
     (let url = ''http://example.com/abc''; c0 = empty_coalescer; c1 = joins url c0; c2 = attach_buffer url 7 c1; c3 = joins url c2; c4 = complete url c3
      in answer url c2 = Follower_buffer 7
       \<and> answer url c4 = Leader)"

lemma passes_test_attach_buffer_then_register_follower_buffer: test_attach_buffer_then_register_follower_buffer
  unfolding test_attach_buffer_then_register_follower_buffer_def Let_def by (simp add: coalescer_eval)

definition test_complete_then_register_again :: bool where
  "test_complete_then_register_again \<longleftrightarrow>
     (let url = ''http://example.com/cycle''; c0 = empty_coalescer; c1 = joins url c0; c2 = complete url c1; c3 = joins url c2; c4 = complete url c3; c5 = complete url c4
      in answer url c0 = Leader
       \<and> answer url c2 = Leader)"

lemma passes_test_complete_then_register_again: test_complete_then_register_again
  unfolding test_complete_then_register_again_def Let_def by (simp add: coalescer_eval)

definition test_concurrent_register_same_url :: bool where
  "test_concurrent_register_same_url \<longleftrightarrow>
     (let rs = answers (replicate 10 ''http://example.com/concurrent-same'') empty_coalescer
      in length (filter (\<lambda>r. r = Leader) rs) = 1 \<and> length (filter (\<lambda>r. r \<noteq> Leader) rs) = 9)"

lemma passes_test_concurrent_register_same_url: test_concurrent_register_same_url
  unfolding test_concurrent_register_same_url_def Let_def by (simp add: coalescer_eval eval_nat_numeral)

definition test_register_attach_complete_register_attach :: bool where
  "test_register_attach_complete_register_attach \<longleftrightarrow>
     (let url = ''http://example.com/full-cycle''; c0 = empty_coalescer; c1 = joins url c0; c2 = attach_buffer url 7 c1; c3 = complete url c2; c4 = joins url c3; c5 = attach_buffer url 8 c4; c6 = complete url c5
      in answer url c0 = Leader
       \<and> answer url c3 = Leader)"

lemma passes_test_register_attach_complete_register_attach: test_register_attach_complete_register_attach
  unfolding test_register_attach_complete_register_attach_def Let_def by (simp add: coalescer_eval)

definition test_register_complete_immediately_re_register :: bool where
  "test_register_complete_immediately_re_register \<longleftrightarrow>
     (let url = ''http://example.com/rapid-cycle''; c0 = empty_coalescer; c1 = joins url c0; c2 = complete url c1
      in answer url c0 = Leader
       \<and> answer url c2 = Leader)"

lemma passes_test_register_complete_immediately_re_register: test_register_complete_immediately_re_register
  unfolding test_register_complete_immediately_re_register_def Let_def by (simp add: coalescer_eval)

definition test_max_inflight_overflow_still_works_for_new_url :: bool where
  "test_max_inflight_overflow_still_works_for_new_url \<longleftrightarrow>
     (let c = fold joins (numbered ''http://example.com/prefill-'' MAX_INFLIGHT) empty_coalescer
      in answer ''http://example.com/overflow'' c = Leader
       \<and> am_get ''http://example.com/overflow'' (inflight (joins ''http://example.com/overflow'' c)) = None)"

lemma passes_test_max_inflight_overflow_still_works_for_new_url: test_max_inflight_overflow_still_works_for_new_url
  unfolding test_max_inflight_overflow_still_works_for_new_url_def Let_def
  using numbered_new [of MAX_INFLIGHT "''http://example.com/prefill-''"] numbered_props(2)
  by (auto simp: answer_def joins_def register_def am_get_None_iff numbered_def)

definition test_concurrent_register_different_urls :: bool where
  "test_concurrent_register_different_urls \<longleftrightarrow>
     (let us = numbered ''http://example.com/conc-'' 100
      in list_all (\<lambda>r. r = Leader) (answers us empty_coalescer))"

lemma passes_test_concurrent_register_different_urls: test_concurrent_register_different_urls
  unfolding test_concurrent_register_different_urls_def Let_def using numbered_new [of 100]
  by (simp add: MAX_INFLIGHT_def list_all_iff)

end
