(* ===== verification/Tests_Limits.thy ===== *)
theory Tests_Limits
  imports Ip_Limiter Test_Kit
begin

text \<open>
  The unit tests of \<open>src/src/rate_limit.rs\<close>, on the definitions of Token\_Bucket and Ip\_Limiter. The clocks
  stand still in a test except where it waits: \<open>clock\<close> is the wall clock of the buckets and \<open>now\<close> the
  \<open>Instant\<close> of the limiter, both in nanoseconds. The tests that wait for a refill by sleeping are left out.
\<close>

definition took :: "u64 \<Rightarrow> u64 \<Rightarrow> token_bucket \<Rightarrow> bool" where
  "took clock n b = fst (try_consume clock n b)"

definition after_take :: "u64 \<Rightarrow> u64 \<Rightarrow> token_bucket \<Rightarrow> token_bucket" where
  "after_take clock n b = snd (try_consume clock n b)"

text \<open>Single tokens taken by any number of tasks: how many were granted, and the bucket after.\<close>

fun take_ones :: "u64 \<Rightarrow> nat \<Rightarrow> token_bucket \<Rightarrow> nat \<times> token_bucket" where
  "take_ones clock 0 b = (0, b)"
| "take_ones clock (Suc n) b =
     (let (k, b1) = take_ones clock n (after_take clock 1 b) in (if took clock 1 b then Suc k else k, b1))"

lemma take_ones_grants:
  assumes "refill_rate_nanos b = 0" "max_tokens b = 10000" "tokens b = of_nat m" "m \<le> 10000" "n \<le> m"
  shows "take_ones clock n b = (n, b\<lparr>tokens := of_nat (m - n)\<rparr>)"
  using assms
proof (induction n arbitrary: b m)
  case 0
  then show ?case by simp
next
  case (Suc n)
  have u: "unat (of_nat m :: u64) = m" using Suc.prems by (simp add: unsigned_of_nat take_bit_nat_eq_self)
  have no: "\<not> tokens b < 1"
    using Suc.prems u by (simp add: word_less_nat_alt)
  have step: "try_consume clock 1 b = (True, b\<lparr>tokens := of_nat (m - 1)\<rparr>)"
    using Suc.prems no by (simp add: try_consume_def bucket_unlimited_def refilled_def of_nat_diff)
  show ?case
    using Suc.IH [of "b\<lparr>tokens := of_nat (m - 1)\<rparr>" "m - 1"] Suc.prems step
    by (simp add: took_def after_take_def)
qed

definition permit :: "string \<Rightarrow> nat \<Rightarrow> u64 \<Rightarrow> ip_limiter \<Rightarrow> ip_permit option" where
  "permit ip now clock s = fst (acquire ip now clock s)"

definition acquired :: "string \<Rightarrow> nat \<Rightarrow> u64 \<Rightarrow> ip_limiter \<Rightarrow> ip_limiter" where
  "acquired ip now clock s = snd (acquire ip now clock s)"

lemmas bucket_eval = took_def after_take_def try_consume_def available_def wait_time_nanos_def bucket_unlimited_def
  refilled_def refill_def new_bucket_def unlimited_bucket_def wait_consume_def wait_loop.simps NANOS_PER_SEC_def

lemmas limiter_eval = permit_def acquired_def acquire_def new_limiter_def touch_semaphore_def try_acquire_sem_def
  get_or_create_bucket_def sweep_stale_entries_at_def recently_used_def MAP_ENTRY_TTL_def UNLIMITED_def
  available_def bucket_unlimited_def refilled_def refill_def new_bucket_def NANOS_PER_SEC_def

definition test_token_bucket_unlimited :: "u64 \<Rightarrow> bool" where
  "test_token_bucket_unlimited clock \<longleftrightarrow>
     (let b0 = unlimited_bucket; b1 = after_take clock (- 1) b0
      in took clock (- 1) b0
       \<and> fst (available clock b1) = - 1)"

lemma passes_test_token_bucket_unlimited: "test_token_bucket_unlimited clock"
  unfolding test_token_bucket_unlimited_def Let_def by (simp add: bucket_eval Let_def)

definition test_token_bucket_full :: "u64 \<Rightarrow> bool" where
  "test_token_bucket_full clock \<longleftrightarrow>
     (let b0 = new_bucket 1000 100 clock; b1 = after_take clock 1000 b0
      in took clock 1000 b0
       \<and> \<not> took clock 1 b1)"

lemma passes_test_token_bucket_full: "test_token_bucket_full clock"
  unfolding test_token_bucket_full_def Let_def by (simp add: bucket_eval Let_def)

definition test_token_bucket_zero_rate :: "u64 \<Rightarrow> bool" where
  "test_token_bucket_zero_rate clock \<longleftrightarrow>
     (let b0 = new_bucket 100 0 clock; b1 = after_take clock 100 b0
      in took clock 100 b0
       \<and> \<not> took clock 1 b1)"

lemma passes_test_token_bucket_zero_rate: "test_token_bucket_zero_rate clock"
  unfolding test_token_bucket_zero_rate_def Let_def by (simp add: bucket_eval Let_def)

definition test_ip_limiter_unlimited :: "nat \<Rightarrow> u64 \<Rightarrow> bool" where
  "test_ip_limiter_unlimited now clock \<longleftrightarrow>
     (let ip = ''127.0.0.1''; s0 = new_limiter 0 0 0;
         s1 = acquired ip now clock s0
      in permit ip now clock s0 \<noteq> None
       \<and> permit ip now clock s1 \<noteq> None)"

lemma passes_test_ip_limiter_unlimited: "test_ip_limiter_unlimited now clock"
  unfolding test_ip_limiter_unlimited_def Let_def by (simp add: limiter_eval Let_def)

definition test_ip_limiter_per_ip_limit :: "nat \<Rightarrow> u64 \<Rightarrow> bool" where
  "test_ip_limiter_per_ip_limit now clock \<longleftrightarrow>
     (let ip = ''127.0.0.1''; s0 = new_limiter 1 0 0;
         s1 = acquired ip now clock s0
      in permit ip now clock s0 \<noteq> None
       \<and> permit ip now clock s1 = None)"

lemma passes_test_ip_limiter_per_ip_limit: "test_ip_limiter_per_ip_limit now clock"
  unfolding test_ip_limiter_per_ip_limit_def Let_def by (simp add: limiter_eval Let_def)

definition test_ip_limiter_global_limit :: "nat \<Rightarrow> u64 \<Rightarrow> bool" where
  "test_ip_limiter_global_limit now clock \<longleftrightarrow>
     (let ip = ''127.0.0.1''; s0 = new_limiter 10 1 0;
         s1 = acquired ip now clock s0
      in permit ip now clock s0 \<noteq> None
       \<and> permit ''127.0.0.2'' now clock s1 = None)"

lemma passes_test_ip_limiter_global_limit: "test_ip_limiter_global_limit now clock"
  unfolding test_ip_limiter_global_limit_def Let_def by (simp add: limiter_eval Let_def)

definition test_worker_limiter :: bool where
  "test_worker_limiter \<longleftrightarrow>
     (let w0 = new_worker_limiter 2; w1 = snd (worker_try_acquire w0); w2 = snd (worker_try_acquire w1); w3 = worker_release w2
      in fst (worker_try_acquire w0) \<noteq> None \<and> fst (worker_try_acquire w1) \<noteq> None
       \<and> fst (worker_try_acquire w2) = None \<and> fst (worker_try_acquire w3) \<noteq> None)"

lemma passes_test_worker_limiter: test_worker_limiter
  unfolding test_worker_limiter_def Let_def
  by (simp add: new_worker_limiter_def worker_try_acquire_def worker_release_def)

definition test_wait_time_nanos_unlimited :: "u64 \<Rightarrow> bool" where
  "test_wait_time_nanos_unlimited clock \<longleftrightarrow>
     fst (wait_time_nanos clock 1000 unlimited_bucket) = 0"

lemma passes_test_wait_time_nanos_unlimited: "test_wait_time_nanos_unlimited clock"
  unfolding test_wait_time_nanos_unlimited_def Let_def by (simp add: bucket_eval Let_def)

definition test_wait_time_nanos_enough_tokens :: "u64 \<Rightarrow> bool" where
  "test_wait_time_nanos_enough_tokens clock \<longleftrightarrow>
     fst (wait_time_nanos clock 500 (new_bucket 1000 100 clock)) = 0"

lemma passes_test_wait_time_nanos_enough_tokens: "test_wait_time_nanos_enough_tokens clock"
  unfolding test_wait_time_nanos_enough_tokens_def Let_def by (simp add: bucket_eval Let_def)

definition test_wait_time_nanos_needs_refill :: "u64 \<Rightarrow> bool" where
  "test_wait_time_nanos_needs_refill clock \<longleftrightarrow>
     fst (wait_time_nanos clock 500 (after_take clock 1000 (new_bucket 1000 100 clock))) > 0"

lemma passes_test_wait_time_nanos_needs_refill: "test_wait_time_nanos_needs_refill clock"
  unfolding test_wait_time_nanos_needs_refill_def Let_def by (simp add: bucket_eval Let_def)

definition test_wait_consume_immediate :: "u64 \<Rightarrow> bool" where
  "test_wait_consume_immediate clock \<longleftrightarrow>
     (case wait_consume clock [] 500 (new_bucket 1000 1000 clock) of
        (outcome, _, b) \<Rightarrow> outcome = Consumed \<and> fst (available clock b) \<le> 500)"

lemma passes_test_wait_consume_immediate: "test_wait_consume_immediate clock"
  unfolding test_wait_consume_immediate_def Let_def by (simp add: bucket_eval Let_def)

definition test_wait_consume_cancelled :: "u64 \<Rightarrow> bool" where
  "test_wait_consume_cancelled clock \<longleftrightarrow>
     fst (wait_consume clock [(True, clock)] 50 (after_take clock 100 (new_bucket 100 100 clock))) = Cancelled"

lemma passes_test_wait_consume_cancelled: "test_wait_consume_cancelled clock"
  unfolding test_wait_consume_cancelled_def Let_def by (simp add: bucket_eval Let_def)

definition test_sweep_removes_stale_per_ip :: "nat \<Rightarrow> u64 \<Rightarrow> bool" where
  "test_sweep_removes_stale_per_ip now clock \<longleftrightarrow>
     (let ip = ''10.0.0.1''; s0 = new_limiter 10 0 0;
         s1 = acquired ip now clock s0;
         s2 = sweep_stale_entries_at (now + MAP_ENTRY_TTL + 10 ^ 9) s1;
         s3 = acquired ip now clock s2
      in permit ip now clock s0 \<noteq> None
       \<and> am_get ip (per_ip s1) \<noteq> None
       \<and> am_get ip (per_ip s2) = None
       \<and> permit ip now clock s2 \<noteq> None
       \<and> am_get ip (per_ip s3) \<noteq> None)"

lemma passes_test_sweep_removes_stale_per_ip: "test_sweep_removes_stale_per_ip now clock"
  unfolding test_sweep_removes_stale_per_ip_def Let_def by (simp add: limiter_eval Let_def)

definition test_sweep_keeps_fresh_entries :: "nat \<Rightarrow> u64 \<Rightarrow> bool" where
  "test_sweep_keeps_fresh_entries now clock \<longleftrightarrow>
     (let ip = ''10.0.0.2''; s0 = new_limiter 10 0 0;
         s1 = acquired ip now clock s0;
         s2 = sweep_stale_entries_at now s1
      in permit ip now clock s0 \<noteq> None
       \<and> am_get ip (per_ip s2) \<noteq> None)"

lemma passes_test_sweep_keeps_fresh_entries: "test_sweep_keeps_fresh_entries now clock"
  unfolding test_sweep_keeps_fresh_entries_def Let_def by (simp add: limiter_eval Let_def)

definition test_sweep_removes_stale_bucket :: "nat \<Rightarrow> u64 \<Rightarrow> bool" where
  "test_sweep_removes_stale_bucket now clock \<longleftrightarrow>
     (let ip = ''10.0.0.3''; s0 = new_limiter 0 0 1024;
         s1 = acquired ip now clock s0;
         s2 = sweep_stale_entries_at (now + MAP_ENTRY_TTL + 10 ^ 9) s1;
         s3 = acquired ip now clock s2
      in permit ip now clock s0 \<noteq> None
       \<and> am_get ip (per_ip_buckets s1) \<noteq> None
       \<and> am_get ip (per_ip_buckets s2) = None
       \<and> permit ip now clock s2 \<noteq> None
       \<and> holds_some (\<lambda>(i, _). fst (available clock (buckets s3 ! i)) > 0) (am_get ip (per_ip_buckets s3)))"

lemma passes_test_sweep_removes_stale_bucket: "test_sweep_removes_stale_bucket now clock"
  unfolding test_sweep_removes_stale_bucket_def Let_def by (simp add: limiter_eval Let_def)

definition test_ip_limiter_per_ip_bucket_created :: "nat \<Rightarrow> u64 \<Rightarrow> bool" where
  "test_ip_limiter_per_ip_bucket_created now clock \<longleftrightarrow>
     (let ip = ''127.0.0.1''; s0 = new_limiter 0 0 4096
      in holds_some (\<lambda>p. permit_bucket p \<noteq> None) (permit ip now clock s0))"

lemma passes_test_ip_limiter_per_ip_bucket_created: "test_ip_limiter_per_ip_bucket_created now clock"
  unfolding test_ip_limiter_per_ip_bucket_created_def Let_def by (simp add: limiter_eval Let_def)

definition test_ip_limiter_per_ip_bucket_none :: "nat \<Rightarrow> u64 \<Rightarrow> bool" where
  "test_ip_limiter_per_ip_bucket_none now clock \<longleftrightarrow>
     (let ip = ''127.0.0.1''; s0 = new_limiter 0 0 0
      in holds_some (\<lambda>p. permit_bucket p = None) (permit ip now clock s0))"

lemma passes_test_ip_limiter_per_ip_bucket_none: "test_ip_limiter_per_ip_bucket_none now clock"
  unfolding test_ip_limiter_per_ip_bucket_none_def Let_def by (simp add: limiter_eval Let_def)

definition test_try_consume_concurrent :: "u64 \<Rightarrow> bool" where
  "test_try_consume_concurrent clock \<longleftrightarrow>
     (let (total, b) = take_ones clock (100 * 100) (new_bucket 10000 0 clock)
      in total = 10000 \<and> fst (available clock b) = 0 \<and> \<not> took clock 1 b)"

lemma passes_test_try_consume_concurrent: "test_try_consume_concurrent clock"
  unfolding test_try_consume_concurrent_def using take_ones_grants [of "new_bucket 10000 0 clock" 10000 10000 clock]
  by (simp add: bucket_eval Let_def)

end
