(* ===== verification/Tests_Downloader.thy ===== *)
theory Tests_Downloader
  imports Range_Download Tests_Buffer
begin

text \<open>
  The unit tests of \<open>src/src/downloader.rs\<close>, on the definitions of Range\_Download. The mock server of a test
  is the list of answers it gives, a answer_body being one chunk; the tests of errors of reqwest are left out.
\<close>

text \<open>A speed in bytes per second, as \<open>next_segment_size\<close> reads it, with a target time of two seconds.\<close>

definition speed :: "int \<Rightarrow> nat option" where
  "speed v = (if v \<le> 0 then None else Some (nat (v * 2)))"

definition size_for :: "int \<Rightarrow> nat" where
  "size_for v = next_segment_size (speed v)"

text \<open>A worker with an empty file of a size, an unlimited bucket, and a server with these answers.\<close>

definition served_with :: "nat \<Rightarrow> bool list \<Rightarrow> range_answer list \<Rightarrow> dl_world" where
  "served_with n cancels as =
     \<lparr>dw_answers = as, dw_polls = cancels, dw_waits = [(0, []), (0, []), (0, []), (0, []), (0, [])], dw_bucket = unlimited_bucket,
      dw_buffer = temp_buffer n, dw_exchanges = [], dw_sleeps = [], dw_ready = 0\<rparr>"

definition answer_body :: "nat \<Rightarrow> bytes \<Rightarrow> range_answer" where
  "answer_body status data = Inr \<lparr>rr_status = status, rr_stream = [Chunk data]\<rparr>"

definition work :: "string option \<Rightarrow> dl_world \<Rightarrow> ((download_error + unit) \<times> dl_world) option" where
  "work etag w = download_worker wr_full None etag [None, None] initial_segment_size w"

definition timed_out :: range_answer where
  "timed_out = Inl \<lparr>is_connect = False, is_body = False, is_timeout = True, is_decode = False, is_request = True\<rparr>"

text \<open>The file of a worker after it has stopped, and whether every segment is ready.\<close>

definition content :: "nat \<Rightarrow> dl_world \<Rightarrow> bytes option" where
  "content n w = reads 0 n (dw_buffer w)"

lemma full_write_data: "write_data wr_full off d b = (Inr (), b\<lparr>dl_file := pwrite (dl_file b) off d\<rparr>)"
  using write_full_ok [of off d b] written_full [of off d b] by (simp add: written_def prod_eq_iff)

lemma write_chunk_done [simp]: "write_chunk wr e [] off w = Some (Inr off, w)"
  by (simp add: write_chunk.simps)

lemma write_chunk_whole:
  assumes "d \<noteq> []" "off + length d \<le> e" "dw_waits w = (t, ts) # ws" "dw_bucket w = unlimited_bucket"
  shows "write_chunk wr_full e d off w = Some (Inr (off + length d), w\<lparr>dw_waits := ws,
    dw_buffer := (dw_buffer w)\<lparr>dl_file := pwrite (dl_file (dw_buffer w)) off d\<rparr>\<rparr>)"
proof -
  have "consume_upstream n w = Some (True, w\<lparr>dw_waits := ws\<rparr>)" for n
    using assms(3,4) by (cases w) (simp add: consume_upstream_def wait_consume_def try_consume_def
        bucket_unlimited_def unlimited_bucket_def)
  moreover have "min (length d) (e - off) = length d" "\<not> e \<le> off" using assms(1,2) by (simp, cases d, auto)
  ultimately show ?thesis using assms(1,2)
    by (subst write_chunk.simps) (cases w, auto simp: Let_def full_write_data)
qed

lemmas worker_eval = served_with_def answer_body_def work_def timed_out_def content_def temp_buffer_def new_buffer_def
  claim_range_def attempt_loop.simps try_segment_def send_request_def is_cancelled_def check_status_def
  is_transient_error_def max_segment_retries_def sleep_ms_def mark_ready_def initial_segment_size_def
  write_chunk_whole range_request_for_def is_strong_etag_def starts_with_def all_completed_def
  reads_def read_data_def rd_full_def pwrite_def pread_def bytes_of_def good_answer_def Let_def

lemmas speed_eval = size_for_def speed_def next_segment_size_def min_segment_size_def max_segment_size_def
  initial_segment_size_def

definition test_constants_sanity :: bool where
  "test_constants_sanity \<longleftrightarrow>
     min_segment_size < max_segment_size
     \<and> initial_segment_size \<ge> min_segment_size
     \<and> initial_segment_size \<le> max_segment_size
     \<and> min_segment_size = 64 * 1024
     \<and> max_segment_size = 4 * 1024 * 1024
     \<and> initial_segment_size = 1024 * 1024"

lemma passes_test_constants_sanity: test_constants_sanity
  by (simp add: test_constants_sanity_def speed_eval)

definition test_next_segment_size_zero_speed :: bool where
  "test_next_segment_size_zero_speed \<longleftrightarrow>
     size_for 0 = initial_segment_size"

lemma passes_test_next_segment_size_zero_speed: test_next_segment_size_zero_speed
  by (simp add: test_next_segment_size_zero_speed_def speed_eval)

definition test_next_segment_size_negative_speed :: bool where
  "test_next_segment_size_negative_speed \<longleftrightarrow>
     size_for (- 1) = initial_segment_size"

lemma passes_test_next_segment_size_negative_speed: test_next_segment_size_negative_speed
  by (simp add: test_next_segment_size_negative_speed_def speed_eval)

definition test_next_segment_size_very_slow :: bool where
  "test_next_segment_size_very_slow \<longleftrightarrow>
     size_for 10000 = min_segment_size"

lemma passes_test_next_segment_size_very_slow: test_next_segment_size_very_slow
  by (simp add: test_next_segment_size_very_slow_def speed_eval)

definition test_next_segment_size_target_exact_min :: bool where
  "test_next_segment_size_target_exact_min \<longleftrightarrow>
     size_for (int min_segment_size div 2) = min_segment_size"

lemma passes_test_next_segment_size_target_exact_min: test_next_segment_size_target_exact_min
  by (simp add: test_next_segment_size_target_exact_min_def speed_eval)

definition test_next_segment_size_target_exact_max :: bool where
  "test_next_segment_size_target_exact_max \<longleftrightarrow>
     size_for (int max_segment_size div 2) = max_segment_size"

lemma passes_test_next_segment_size_target_exact_max: test_next_segment_size_target_exact_max
  by (simp add: test_next_segment_size_target_exact_max_def speed_eval)

definition test_next_segment_size_very_fast :: bool where
  "test_next_segment_size_very_fast \<longleftrightarrow>
     size_for 100000000 = max_segment_size"

lemma passes_test_next_segment_size_very_fast: test_next_segment_size_very_fast
  by (simp add: test_next_segment_size_very_fast_def speed_eval)

definition test_next_segment_size_mid_range :: bool where
  "test_next_segment_size_mid_range \<longleftrightarrow>
     size_for 524288 = 1024 * 1024"

lemma passes_test_next_segment_size_mid_range: test_next_segment_size_mid_range
  by (simp add: test_next_segment_size_mid_range_def speed_eval)

definition test_next_segment_size_clamp_low :: bool where
  "test_next_segment_size_clamp_low \<longleftrightarrow>
     size_for 10 = min_segment_size"

lemma passes_test_next_segment_size_clamp_low: test_next_segment_size_clamp_low
  by (simp add: test_next_segment_size_clamp_low_def speed_eval)

definition test_next_segment_size_clamp_high :: bool where
  "test_next_segment_size_clamp_high \<longleftrightarrow>
     size_for 1000000000 = max_segment_size"

lemma passes_test_next_segment_size_clamp_high: test_next_segment_size_clamp_high
  by (simp add: test_next_segment_size_clamp_high_def speed_eval)

definition test_next_segment_size_monotonic :: bool where
  "test_next_segment_size_monotonic \<longleftrightarrow>
     sorted (map size_for [1000, 10000, 100000, 500000, 1000000, 10000000])"

lemma passes_test_next_segment_size_monotonic: test_next_segment_size_monotonic
  by (simp add: test_next_segment_size_monotonic_def speed_eval)

definition test_next_segment_size_f64_edge_cases :: bool where
  "test_next_segment_size_f64_edge_cases \<longleftrightarrow>
     next_segment_size (Some u64_max) = max_segment_size
     \<and> next_segment_size (Some 0) = min_segment_size"

lemma passes_test_next_segment_size_f64_edge_cases: test_next_segment_size_f64_edge_cases
  by (simp add: test_next_segment_size_f64_edge_cases_def speed_eval)

definition test_is_strong_etag_strong :: bool where
  "test_is_strong_etag_strong \<longleftrightarrow>
     is_strong_etag ''\"abc123\"''
     \<and> is_strong_etag ''\"123\"''"

lemma passes_test_is_strong_etag_strong: test_is_strong_etag_strong
  by (simp add: test_is_strong_etag_strong_def is_strong_etag_def starts_with_def)

definition test_is_strong_etag_weak_rejected :: bool where
  "test_is_strong_etag_weak_rejected \<longleftrightarrow>
     \<not> is_strong_etag ''W/\"abc123\"''
     \<and> \<not> is_strong_etag ''w/\"abc123\"''"

lemma passes_test_is_strong_etag_weak_rejected: test_is_strong_etag_weak_rejected
  by (simp add: test_is_strong_etag_weak_rejected_def is_strong_etag_def starts_with_def)

definition test_etag_pin_skipped_for_weak_etag :: bool where
  "test_etag_pin_skipped_for_weak_etag \<longleftrightarrow>
     (case work (Some ''W/\"abc\"'') (served_with 512 [] [answer_body 206 (replicate 512 0x44)]) of
        Some (Inr _, w) \<Rightarrow> list_all (\<lambda>(rq, _). rq_if_match rq = None) (dw_exchanges w)
      | _ \<Rightarrow> False)"

lemma passes_test_etag_pin_skipped_for_weak_etag: test_etag_pin_skipped_for_weak_etag
  by (simp add: test_etag_pin_skipped_for_weak_etag_def worker_eval)

definition test_200_ok_accepted_for_single_full_file_segment :: bool where
  "test_200_ok_accepted_for_single_full_file_segment \<longleftrightarrow>
     (case work None (served_with 2048 [] [answer_body 200 (replicate 2048 0x66)]) of
        Some (Inr _, w) \<Rightarrow> all_completed (dw_buffer w)
          \<and> content 2048 w = Some (replicate 2048 0x66)
      | _ \<Rightarrow> False)"

lemma passes_test_200_ok_accepted_for_single_full_file_segment: test_200_ok_accepted_for_single_full_file_segment
  by (simp add: test_200_ok_accepted_for_single_full_file_segment_def worker_eval)

definition test_download_worker_small_file :: bool where
  "test_download_worker_small_file \<longleftrightarrow>
     (case work None (served_with 26 [] [answer_body 200 (bytes_of ''hello from wiremock worker'')]) of
        Some (Inr _, w) \<Rightarrow> all_completed (dw_buffer w)
          \<and> content 26 w = Some (bytes_of ''hello from wiremock worker'')
      | _ \<Rightarrow> False)"

lemma passes_test_download_worker_small_file: test_download_worker_small_file
  by (simp add: test_download_worker_small_file_def worker_eval)

definition test_download_worker_cancelled :: bool where
  "test_download_worker_cancelled \<longleftrightarrow>
     (case work None (served_with 100000 [False, False, True] [answer_body 200 (replicate 100000 0)]) of
        Some (Inl e, w) \<Rightarrow> e = Dl_cancelled
      | _ \<Rightarrow> False)"

lemma passes_test_download_worker_cancelled: test_download_worker_cancelled
  by (simp add: test_download_worker_cancelled_def worker_eval)

definition test_stream_read_timeout_retries :: bool where
  "test_stream_read_timeout_retries \<longleftrightarrow>
     (case work None (served_with (256 * 1024) [] [timed_out, timed_out, timed_out, timed_out]) of
        Some (Inl e, w) \<Rightarrow> length (dw_exchanges w) > 1
      | _ \<Rightarrow> False)"

lemma passes_test_stream_read_timeout_retries: test_stream_read_timeout_retries
  by (simp add: test_stream_read_timeout_retries_def worker_eval)

definition test_incomplete_segment_retries :: bool where
  "test_incomplete_segment_retries \<longleftrightarrow>
     (case work None (served_with 1024 [] (let a = answer_body 206 (replicate 512 0xAB) in [a, a, a, a])) of
        Some (Inl e, w) \<Rightarrow> length (dw_exchanges w) > 1
          \<and> content 1024 w = Some (replicate 512 0xAB @ replicate 512 0)
      | _ \<Rightarrow> False)"

lemma passes_test_incomplete_segment_retries: test_incomplete_segment_retries
  by (simp add: test_incomplete_segment_retries_def worker_eval)

definition test_200_instead_of_206_rejected_to_avoid_corruption :: bool where
  "test_200_instead_of_206_rejected_to_avoid_corruption \<longleftrightarrow>
     (case work None (served_with (3 * 1024 * 1024) [] [answer_body 200 (replicate (3 * 1024 * 1024) 0x55)]) of
        Some (Inl e, w) \<Rightarrow> e = Dl_range_unsupported
          \<and> \<not> all_completed (dw_buffer w)
      | _ \<Rightarrow> False)"

lemma passes_test_200_instead_of_206_rejected_to_avoid_corruption: test_200_instead_of_206_rejected_to_avoid_corruption
  by (simp add: test_200_instead_of_206_rejected_to_avoid_corruption_def worker_eval)

definition test_etag_pin_sends_if_match_header :: bool where
  "test_etag_pin_sends_if_match_header \<longleftrightarrow>
     (case work (Some ''\"abc123\"'') (served_with 512 [] [answer_body 206 (replicate 512 0x33)]) of
        Some (Inr _, w) \<Rightarrow> list_all (\<lambda>(rq, _). rq_if_match rq = Some ''\"abc123\"'') (dw_exchanges w)
          \<and> all_completed (dw_buffer w)
      | _ \<Rightarrow> False)"

lemma passes_test_etag_pin_sends_if_match_header: test_etag_pin_sends_if_match_header
  by (simp add: test_etag_pin_sends_if_match_header_def worker_eval)

definition test_etag_pin_412_aborts_download :: bool where
  "test_etag_pin_412_aborts_download \<longleftrightarrow>
     (case work (Some ''\"stale\"'') (served_with 1024 [] [answer_body 412 []]) of
        Some (Inl e, w) \<Rightarrow> e = Dl_etag_changed
          \<and> \<not> all_completed (dw_buffer w)
      | _ \<Rightarrow> False)"

lemma passes_test_etag_pin_412_aborts_download: test_etag_pin_412_aborts_download
  by (simp add: test_etag_pin_412_aborts_download_def worker_eval)

definition test_content_length_mismatch_does_not_panic :: bool where
  "test_content_length_mismatch_does_not_panic \<longleftrightarrow>
     (case work None (served_with 512 [] [answer_body 206 (replicate 512 0x77)]) of
        Some (Inr _, w) \<Rightarrow> content 512 w = Some (replicate 512 0x77)
      | _ \<Rightarrow> False)"

lemma passes_test_content_length_mismatch_does_not_panic: test_content_length_mismatch_does_not_panic
  by (simp add: test_content_length_mismatch_does_not_panic_def worker_eval)

definition test_download_worker_sends_segment_ready_signal :: bool where
  "test_download_worker_sends_segment_ready_signal \<longleftrightarrow>
     (case work None (served_with 2048 [] [answer_body 206 (replicate 2048 0xAA)]) of
        Some (Inr _, w) \<Rightarrow> all_completed (dw_buffer w)
          \<and> dw_ready w = 1
      | _ \<Rightarrow> False)"

lemma passes_test_download_worker_sends_segment_ready_signal: test_download_worker_sends_segment_ready_signal
  by (simp add: test_download_worker_sends_segment_ready_signal_def worker_eval)

end
