(* ===== verification/Tests_Ctl.thy ===== *)
theory Tests_Ctl
  imports Ctl_Output Test_Kit
begin

text \<open>
  The unit tests of \<open>src/src/bin/blitzctl/cache_cli.rs\<close>, on the definitions of the theories Ctl\_*. The URL
  parser is the one of plain URLs, the regular expressions are those that \<open>glob_to_regex\<close> makes, and the
  known values of the digests are left to their crates.
\<close>

subsection \<open>The crates on the inputs of the tests\<close>

text \<open>\<open>Url::parse\<close> of \<open>scheme://host/path\<close>.\<close>

definition plain_url :: url_parser where
  "plain_url url =
     (case find_str ''://'' url of
        None \<Rightarrow> None
      | Some i \<Rightarrow>
          let rest = drop (i + 3) url in
          (case find_char ((=) (CHR ''/'')) rest of
             Some k \<Rightarrow> Some (Some (take k rest), drop k rest)
           | None \<Rightarrow> Some (Some rest, ''/'')))"

text \<open>\<open>Regex\<close> on what \<open>glob_to_regex\<close> gives it: letters without regard to case, \<open>.\<close> and \<open>.*\<close>.\<close>

datatype glob_item = Any_text | Any_char | Letter char

fun glob_items :: "string \<Rightarrow> glob_item list" where
  "glob_items [] = []"
| "glob_items [c] = [if c = CHR ''.'' then Any_char else Letter c]"
| "glob_items (c # d # s) =
     (if c = CHR ''.'' then (if d = CHR ''*'' then Any_text # glob_items s else Any_char # glob_items (d # s))
      else if c = CHR 0x5C then Letter d # glob_items s
      else Letter c # glob_items (d # s))"

fun matches_here :: "glob_item list \<Rightarrow> string \<Rightarrow> bool" where
  "matches_here [] s = True"
| "matches_here (Letter c # ps) [] = False"
| "matches_here (Letter c # ps) (x # s) = (c = x \<and> matches_here ps s)"
| "matches_here (Any_char # ps) [] = False"
| "matches_here (Any_char # ps) (x # s) = matches_here ps s"
| "matches_here (Any_text # ps) [] = matches_here ps []"
| "matches_here (Any_text # ps) (x # s) = (matches_here ps (x # s) \<or> matches_here (Any_text # ps) s)"

fun matches_somewhere :: "glob_item list \<Rightarrow> string \<Rightarrow> bool" where
  "matches_somewhere ps [] = matches_here ps []"
| "matches_somewhere ps (x # s) = (matches_here ps (x # s) \<or> matches_somewhere ps s)"

definition glob_lib :: regex_lib where
  "glob_lib =
     \<lparr>re_escape = (\<lambda>c. if c \<in> set ''.+*?()|[]{}^$#&-~'' then [CHR 0x5C, c] else [c]),
      re_new = (\<lambda>re. case strip_prefix ''(?i)'' re of
        Some r \<Rightarrow> Some (\<lambda>s. matches_somewhere (glob_items (to_ascii_lowercase r)) (to_ascii_lowercase s))
      | None \<Rightarrow> None)\<rparr>"

subsection \<open>What the tests build\<close>

definition mk_entry :: "string \<Rightarrow> string \<Rightarrow> resolved" where
  "mk_entry hostname path = resolved_new plain_url (''http://'' @ hostname @ path) []"

definition detail :: "string \<Rightarrow> cache_entry_detail" where
  "detail url =
     \<lparr>ce_url = url, ce_file_path = url, ce_size = 0, ce_last_access = 0, ce_cached_at = 0, ce_headers = []\<rparr>"

definition infos :: "string \<Rightarrow> string \<Rightarrow> url_map list \<Rightarrow> perspective \<Rightarrow> cache_entry_detail list \<Rightarrow> string list" where
  "infos hostname path maps p details = map ce_url (info_matches plain_url hostname path maps p details)"

definition mapped :: "string list \<Rightarrow> config_error + url_map list" where
  "mapped ms = collect_res (map parse_url_map ms)"

definition file_of :: "nat \<Rightarrow> int \<Rightarrow> int \<Rightarrow> cached_file" where
  "file_of sz cached_at last_access =
     \<lparr>cf_url = ''http://h/a.deb'', cf_file_path = [], cf_size = sz, cf_last_access = last_access,
      cf_cached_at = cached_at\<rparr>"

definition no_filter :: find_filter where
  "no_filter =
     \<lparr>ff_min_size = None, ff_max_size = None, ff_cached_min_age = None, ff_cached_max_age = None,
      ff_access_min_age = None, ff_access_max_age = None\<rparr>"

lemmas select_eval = host_and_path_def plain_url_def normalize_target_def parse_target_def validate_host_def
  join_host_path_def trim_char_def glob_base_def is_glob_char_def basename_def contains_char_def str_eval

lemmas alias_eval = resolved_new_def reverse_prefix_def host_matches_def rv_host_def rv_path_def mapped_def
  parse_url_map_def infos_def info_matches_def detail_def resolve_unique_def mk_entry_def select_eval

lemmas find_eval = find_matches_def glob_to_regex_def glob_lib_def find_in_entry_def path_comps_def alias_eval

lemmas tree_eval = tree_insert_def path_comps_def new_node_def less_list_code less_char_def

lemmas size_eval = parse_size_def parse_duration_def parse_scaled_def size_suffix_def duration_suffix_def
  checked_mul_def str_eval

lemmas age_eval = passes_def age_of_def file_of_def no_filter_def sat_i64_def wrap_i64_def

lemmas time_eval = human_duration_def pad2_def expiry_str_def freshness_str_def str_eval

definition test_parse_target_host_only :: bool where
  "test_parse_target_host_only \<longleftrightarrow>
     tg_host (parse_target ''deb.debian.org'') = ''deb.debian.org''
     \<and> tg_prefix (parse_target ''deb.debian.org'') = None"

lemma passes_test_parse_target_host_only: test_parse_target_host_only
  by (simp add: test_parse_target_host_only_def select_eval)

definition test_parse_target_host_path :: bool where
  "test_parse_target_host_path \<longleftrightarrow>
     tg_host (parse_target ''deb.debian.org/pool/main'') = ''deb.debian.org''
     \<and> tg_prefix (parse_target ''deb.debian.org/pool/main'') = Some ''/pool/main''"

lemma passes_test_parse_target_host_path: test_parse_target_host_path
  by (simp add: test_parse_target_host_path_def select_eval)

definition test_normalize_target_scheme :: bool where
  "test_normalize_target_scheme \<longleftrightarrow>
     normalize_target ''http://deb.debian.org/pool/x'' = ''deb.debian.org/pool/x''"

lemma passes_test_normalize_target_scheme: test_normalize_target_scheme
  by (simp add: test_normalize_target_scheme_def select_eval)

definition test_join_host_path :: bool where
  "test_join_host_path \<longleftrightarrow>
     join_host_path ''deb.debian.org'' [] = ''deb.debian.org''
     \<and> join_host_path ''deb.debian.org'' ''pool/main'' = ''deb.debian.org/pool/main''
     \<and> join_host_path ''deb.debian.org'' ''/pool/main/'' = ''deb.debian.org/pool/main''
     \<and> join_host_path ''f'' ''pool/*.deb'' = ''f/pool/*.deb''
     \<and> join_host_path ''deb.debian.org'' ''/'' = ''deb.debian.org''"

lemma passes_test_join_host_path: test_join_host_path
  by (simp add: test_join_host_path_def select_eval)

definition test_validate_host_rejects_slash :: bool where
  "test_validate_host_rejects_slash \<longleftrightarrow>
     is_ok (validate_host ''deb.debian.org'')
     \<and> is_ok (validate_host ''f'')
     \<and> \<not> is_ok (validate_host ''deb.debian.org/pool'')
     \<and> \<not> is_ok (validate_host ''http://deb.debian.org/pool'')"

lemma passes_test_validate_host_rejects_slash: test_validate_host_rejects_slash
  by (simp add: test_validate_host_rejects_slash_def select_eval)

definition test_glob_base :: bool where
  "test_glob_base \<longleftrightarrow>
     glob_base ''deb.debian.org/*.deb'' = ''deb.debian.org/''
     \<and> glob_base ''deb.debian.org/pool/*/a.deb'' = ''deb.debian.org/pool/''
     \<and> glob_base ''*.deb'' = []
     \<and> glob_base ''deb.debian.org/pool/main'' = []
     \<and> glob_base ''a/b?c'' = ''a/''
     \<and> glob_base ''host/prefix/x*.deb'' = ''host/prefix/''"

lemma passes_test_glob_base: test_glob_base
  by (simp add: test_glob_base_def select_eval)

definition test_glob_base_no_trailing_slash_for_root_host :: bool where
  "test_glob_base_no_trailing_slash_for_root_host \<longleftrightarrow>
     glob_base ''deb.debian.org/*.deb'' = ''deb.debian.org/''"

lemma passes_test_glob_base_no_trailing_slash_for_root_host: test_glob_base_no_trailing_slash_for_root_host
  by (simp add: test_glob_base_no_trailing_slash_for_root_host_def select_eval)

definition test_host_and_path :: bool where
  "test_host_and_path \<longleftrightarrow>
     host_and_path plain_url ''http://deb.debian.org/pool/main/a.deb'' = (''deb.debian.org'', ''/pool/main/a.deb'')"

lemma passes_test_host_and_path: test_host_and_path
  by (simp add: test_host_and_path_def select_eval)

definition test_tree_build_aggregates :: bool where
  "test_tree_build_aggregates \<longleftrightarrow>
     (let root = tree_insert ''/pool/other.deb'' 50 (tree_insert ''/pool/main/b/b.deb'' 200
         (tree_insert ''/pool/main/a/apt.deb'' 100 (new_node ''host'' True)))
      in nd_size root = 350 \<and> nd_count root = 3
       \<and> holds_some (\<lambda>pool. nd_size pool = 350 \<and> nd_count pool = 3
       \<and> map_of (nd_children pool) ''main'' \<noteq> None
             \<and> map_of (nd_children pool) ''other.deb'' \<noteq> None) (map_of (nd_children root) ''pool''))"

lemma passes_test_tree_build_aggregates: test_tree_build_aggregates
  unfolding test_tree_build_aggregates_def Let_def by code_simp

definition test_human_size :: bool where
  "test_human_size \<longleftrightarrow>
     human_size 0 = ''0 B''
     \<and> human_size 512 = ''512 B''
     \<and> human_size 1024 = ''1.0 KiB''
     \<and> human_size 1536 = ''1.5 KiB''
     \<and> human_size 1048576 = ''1.0 MiB''"

lemma passes_test_human_size: test_human_size
  unfolding test_human_size_def human_size_def tenths_def div_even_def Let_def
  by (simp add: as_f64_exact unit_loop.simps UNITS_def dec.simps char_of_def bit_0)

definition test_print_tree_hides_files_by_default :: bool where
  "test_print_tree_hides_files_by_default \<longleftrightarrow>
     (let root = tree_insert ''/pool/main/b.deb'' 200 (tree_insert ''/pool/main/a.deb'' 100 (new_node ''host'' True))
      in nd_count root = 2
       \<and> holds_some (\<lambda>pool. nd_count pool = 2
             \<and> holds_some (\<lambda>main. map_of (nd_children main) ''a.deb'' \<noteq> None
                   \<and> map_of (nd_children main) ''b.deb'' \<noteq> None) (map_of (nd_children pool) ''main''))
           (map_of (nd_children root) ''pool''))"

lemma passes_test_print_tree_hides_files_by_default: test_print_tree_hides_files_by_default
  unfolding test_print_tree_hides_files_by_default_def Let_def by code_simp

definition test_glob_to_regex_wildcards :: bool where
  "test_glob_to_regex_wildcards \<longleftrightarrow>
     holds_some (\<lambda>re. re ''a.deb'' \<and> re ''pool/main/a.deb''
       \<and> \<not> re ''a.rpm'') (glob_to_regex glob_lib ''*.deb'')
     \<and> holds_some (\<lambda>re. re ''pool/main''
       \<and> \<not> re ''pool/again'') (glob_to_regex glob_lib ''pool/??in'')
     \<and> holds_some (\<lambda>re. re ''Main'') (glob_to_regex glob_lib ''MAIN'')"

lemma passes_test_glob_to_regex_wildcards: test_glob_to_regex_wildcards
  by (simp add: test_glob_to_regex_wildcards_def find_eval)

definition test_find_name_mode :: bool where
  "test_find_name_mode \<longleftrightarrow>
     (let entries = [mk_entry ''deb.debian.org'' ''/pool/main/a.deb'', mk_entry ''deb.debian.org'' ''/pool/main/b.deb'',
           mk_entry ''deb.debian.org'' ''/pool/unstable/x.deb'', mk_entry ''other.host'' ''/pool/main/a.deb'']
      in holds_some (\<lambda>(folders, files). folders = {''deb.debian.org/pool/main/''} \<and> files = {})
         (find_matches glob_lib ''deb.debian.org'' ''main'' entries Real)
       \<and> holds_some (\<lambda>(folders, files). folders = {} \<and> card files = 3
       \<and> ''deb.debian.org/pool/unstable/x.deb'' \<in> files)
         (find_matches glob_lib ''deb.debian.org'' ''*.deb'' entries Real)
       \<and> holds_some (\<lambda>(folders, files). folders = {} \<and> files = {})
         (find_matches glob_lib ''example.com'' ''main'' entries Real))"

lemma passes_test_find_name_mode: test_find_name_mode
  unfolding test_find_name_mode_def Let_def by (simp add: find_eval)

definition test_find_path_mode :: bool where
  "test_find_path_mode \<longleftrightarrow>
     (let entries = [mk_entry ''deb.debian.org'' ''/pool/main/a.deb'', mk_entry ''deb.debian.org'' ''/pool/main/b.deb'',
           mk_entry ''deb.debian.org'' ''/dists/unstable/InRelease'']
      in holds_some (\<lambda>(folders, files). folders = {''deb.debian.org/pool/main/''}
       \<and> card files = 2 \<and> ''deb.debian.org/pool/main/a.deb'' \<in> files)
         (find_matches glob_lib ''deb.debian.org'' ''pool/main'' entries Real)
       \<and> holds_some (\<lambda>(folders, files). folders = {''deb.debian.org/pool/main/''} \<and> card files = 2)
         (find_matches glob_lib ''deb.debian.org'' ''pool/*'' entries Real))"

lemma passes_test_find_path_mode: test_find_path_mode
  unfolding test_find_path_mode_def Let_def by (simp add: find_eval)

definition test_info_matches_real_and_alias :: bool where
  "test_info_matches_real_and_alias \<longleftrightarrow>
     holds_for (\<lambda>maps. let details = map detail [''http://real.com/base/pool/a.deb'', ''http://real.com/base/pool/b.deb'',
            ''http://other.com/x.deb''] in
         infos ''real.com'' ''base/pool/a.deb'' maps Real details = [''http://real.com/base/pool/a.deb'']
       \<and> infos ''f'' ''pool/a.deb'' maps Alias details = [''http://real.com/base/pool/a.deb'']
       \<and> infos ''real.com'' ''pool/a.deb'' maps Real details = []
       \<and> infos ''f'' ''base/pool/a.deb'' maps Alias details = []
       \<and> infos ''nope'' ''pool/a.deb'' maps Real details = [])
       (mapped [''f=http://real.com/base''])"

lemma passes_test_info_matches_real_and_alias: test_info_matches_real_and_alias
  by (simp add: test_info_matches_real_and_alias_def alias_eval)

definition test_info_matches_leading_slash_insensitive :: bool where
  "test_info_matches_leading_slash_insensitive \<longleftrightarrow>
     (let details = [detail ''http://real.com/pool/a.deb'']
      in length (infos ''real.com'' ''pool/a.deb'' [] Real details) = 1
       \<and> length (infos ''real.com'' ''/pool/a.deb'' [] Real details) = 1)"

lemma passes_test_info_matches_leading_slash_insensitive: test_info_matches_leading_slash_insensitive
  by (simp add: test_info_matches_leading_slash_insensitive_def alias_eval)

definition test_find_leading_slash_path_is_strict :: bool where
  "test_find_leading_slash_path_is_strict \<longleftrightarrow>
     infos ''real.com'' ''pool/main'' [] Real [detail ''http://real.com/pool/main/a.deb''] = []"

lemma passes_test_find_leading_slash_path_is_strict: test_find_leading_slash_path_is_strict
  by (simp add: test_find_leading_slash_path_is_strict_def alias_eval)

definition test_find_perspective :: bool where
  "test_find_perspective \<longleftrightarrow>
     holds_for (\<lambda>maps. let entries = [resolved_new plain_url ''http://real.com/base/pool/a.deb'' maps,
            resolved_new plain_url ''http://real.com/base/pool/b.deb'' maps] in
         holds_some (\<lambda>(folders, files). card files = 2
       \<and> (\<forall>f \<in> files. starts_with f ''f/'')
       \<and> (\<forall>f \<in> files. \<not> contains_str f ''real.com''))
         (find_matches glob_lib ''f'' ''*.deb'' entries Alias)
       \<and> holds_some (\<lambda>(folders, files). card files = 2
       \<and> (\<forall>f \<in> files. starts_with f ''real.com/'')
       \<and> (\<forall>f \<in> files. \<not> starts_with f ''f/''))
         (find_matches glob_lib ''real.com'' ''*.deb'' entries Real))
       (mapped [''f=http://real.com/base''])"

lemma passes_test_find_perspective: test_find_perspective
  proof -
  have m: "mapped [''f=http://real.com/base''] = Inr [\<lparr>fake_host = ''f'', real_base = ''http://real.com/base''\<rparr>]"
    by (simp add: alias_eval)
  show ?thesis unfolding test_find_perspective_def m holds_for.simps Let_def by (simp add: find_eval)
qed

definition test_reverse_resolve :: bool where
  "test_reverse_resolve \<longleftrightarrow>
     holds_for (\<lambda>maps.
         reverse_resolve plain_url ''http://real.com/base/foo/bar.deb'' maps = (''f'', ''/foo/bar.deb'')
       \<and> reverse_resolve plain_url ''http://real.com/base'' maps = (''f'', [])
       \<and> reverse_resolve plain_url ''http://real.com/base/'' maps = (''f'', ''/'')
       \<and> reverse_resolve plain_url ''http://real.com/baseball'' maps = (''real.com'', ''/baseball'')
       \<and> reverse_resolve plain_url ''ftp://real.ftp/pub/file.iso'' maps = (''ftp-f'', ''/file.iso'')
       \<and> reverse_resolve plain_url ''http://other.com/x'' maps = (''other.com'', ''/x''))
       (mapped [''f=http://real.com/base'', ''ftp-f=ftp://real.ftp/pub''])
     \<and> holds_for (\<lambda>maps2. reverse_resolve plain_url ''http://first.com/x'' maps2 = (''a'', ''/x''))
       (mapped [''a=http://first.com'', ''b=http://first.com/x''])"

lemma passes_test_reverse_resolve: test_reverse_resolve
  by (simp add: test_reverse_resolve_def alias_eval)

definition test_resolved_host_and_path_match :: bool where
  "test_resolved_host_and_path_match \<longleftrightarrow>
     holds_for (\<lambda>maps. let r = resolved_new plain_url ''http://real.com/base/pool/a.deb'' maps in
         host_matches ''f'' r \<and> host_matches ''real.com'' r \<and> \<not> host_matches ''other'' r
         \<and> starts_with (rv_path Alias r) ''/pool'' \<and> starts_with (rv_path Real r) ''/base/pool'')
       (mapped [''f=http://real.com/base''])
     \<and> (let r2 = resolved_new plain_url ''http://other.com/pool/a.deb'' []
         in host_matches ''other.com'' r2 \<and> \<not> host_matches ''f'' r2)"

lemma passes_test_resolved_host_and_path_match: test_resolved_host_and_path_match
  by (simp add: test_resolved_host_and_path_match_def alias_eval)

definition test_resolve_unique_single :: bool where
  "test_resolve_unique_single \<longleftrightarrow>
     (case resolve_unique plain_url ''deb.debian.org'' ''/pool/main/a.deb'' [] Real [detail ''http://deb.debian.org/pool/main/a.deb''] of
        Inr d \<Rightarrow> ce_url d = ''http://deb.debian.org/pool/main/a.deb'' | Inl _ \<Rightarrow> False)"

lemma passes_test_resolve_unique_single: test_resolve_unique_single
  by (simp add: test_resolve_unique_single_def alias_eval)

definition test_resolve_unique_none :: bool where
  "test_resolve_unique_none \<longleftrightarrow>
     (case resolve_unique plain_url ''deb.debian.org'' ''/pool/main/missing.deb'' [] Real
          [detail ''http://deb.debian.org/pool/main/a.deb''] of
        Inl (No_entry _ _) \<Rightarrow> True | _ \<Rightarrow> False)"

lemma passes_test_resolve_unique_none: test_resolve_unique_none
  by (simp add: test_resolve_unique_none_def alias_eval)

definition test_resolve_unique_ambiguous :: bool where
  "test_resolve_unique_ambiguous \<longleftrightarrow>
     (case resolve_unique plain_url ''deb.debian.org'' ''/pool/main/a.deb'' [] Real
          [detail ''http://deb.debian.org/pool/main/a.deb'', detail ''https://deb.debian.org/pool/main/a.deb''] of
        Inl (Ambiguous _ _ _) \<Rightarrow> True | _ \<Rightarrow> False)"

lemma passes_test_resolve_unique_ambiguous: test_resolve_unique_ambiguous
  by (simp add: test_resolve_unique_ambiguous_def alias_eval)

definition test_parse_size :: bool where
  "test_parse_size \<longleftrightarrow>
     parse_size ''0'' = Some (0)
     \<and> parse_size ''1024'' = Some (1024)
     \<and> parse_size ''1k'' = Some (1024)
     \<and> parse_size ''1K'' = Some (1024)
     \<and> parse_size ''3M'' = Some (3 * 1024 * 1024)
     \<and> parse_size ''2g'' = Some (2 * 1024 * 1024 * 1024)
     \<and> parse_size '' 1k '' = Some (1024)
     \<and> parse_size [] = None
     \<and> parse_size ''k'' = None
     \<and> parse_size ''1.5M'' = None
     \<and> parse_size ''-1'' = None
     \<and> parse_size ''99999999999999999999T'' = None"

lemma passes_test_parse_size: test_parse_size
  by (simp add: test_parse_size_def size_eval)

definition test_parse_duration :: bool where
  "test_parse_duration \<longleftrightarrow>
     parse_duration ''0'' = Some (0)
     \<and> parse_duration ''300'' = Some (300)
     \<and> parse_duration ''5s'' = Some (5)
     \<and> parse_duration ''10m'' = Some (600)
     \<and> parse_duration ''2h'' = Some (7200)
     \<and> parse_duration ''1d'' = Some (86400)
     \<and> parse_duration ''2w'' = Some (2 * 604800)
     \<and> parse_duration [] = None
     \<and> parse_duration ''m'' = None
     \<and> parse_duration ''2x'' = None
     \<and> parse_duration ''-1h'' = None"

lemma passes_test_parse_duration: test_parse_duration
  by (simp add: test_parse_duration_def size_eval)

definition test_find_filter_size_bounds :: bool where
  "test_find_filter_size_bounds \<longleftrightarrow>
     \<not> passes (no_filter\<lparr>ff_min_size := Some 1000\<rparr>) 1000000 (file_of 100 (1000000 - 3600) (1000000 - 1800))
     \<and> passes (no_filter\<lparr>ff_min_size := Some 1000\<rparr>) 1000000 (file_of 10000 (1000000 - 3600) (1000000 - 1800))
     \<and> passes (no_filter\<lparr>ff_max_size := Some 1000\<rparr>) 1000000 (file_of 100 (1000000 - 3600) (1000000 - 1800))
     \<and> \<not> passes (no_filter\<lparr>ff_max_size := Some 1000\<rparr>) 1000000 (file_of 10000 (1000000 - 3600) (1000000 - 1800))
     \<and> passes (no_filter\<lparr>ff_min_size := Some 100, ff_max_size := Some 100\<rparr>) 1000000 (file_of 100 (1000000 - 3600) (1000000 - 1800))
     \<and> \<not> passes (no_filter\<lparr>ff_min_size := Some 100, ff_max_size := Some 100\<rparr>) 1000000 (file_of 10000 (1000000 - 3600) (1000000 - 1800))"

lemma passes_test_find_filter_size_bounds: test_find_filter_size_bounds
  by (simp add: test_find_filter_size_bounds_def age_eval)

definition test_find_filter_cached_age :: bool where
  "test_find_filter_cached_age \<longleftrightarrow>
     passes (no_filter\<lparr>ff_cached_min_age := Some 86400\<rparr>) 1000000 (file_of 10 (1000000 - 7 * 86400) 1000000)
     \<and> \<not> passes (no_filter\<lparr>ff_cached_min_age := Some 86400\<rparr>) 1000000 (file_of 10 (1000000 - 60) 1000000)
     \<and> \<not> passes (no_filter\<lparr>ff_cached_max_age := Some 3600\<rparr>) 1000000 (file_of 10 (1000000 - 7 * 86400) 1000000)
     \<and> passes (no_filter\<lparr>ff_cached_max_age := Some 3600\<rparr>) 1000000 (file_of 10 (1000000 - 60) 1000000)"

lemma passes_test_find_filter_cached_age: test_find_filter_cached_age
  by (simp add: test_find_filter_cached_age_def age_eval)

definition test_find_filter_access_age_and_future_timestamp :: bool where
  "test_find_filter_access_age_and_future_timestamp \<longleftrightarrow>
     passes (no_filter\<lparr>ff_access_min_age := Some 86400\<rparr>) 1000000 (file_of 10 1000000 (1000000 - 5 * 86400))
     \<and> \<not> passes (no_filter\<lparr>ff_access_min_age := Some 86400\<rparr>) 1000000 (file_of 10 1000000 (1000000 - 60))
     \<and> \<not> passes (no_filter\<lparr>ff_access_max_age := Some 3600\<rparr>) 1000000 (file_of 10 1000000 (1000000 - 5 * 86400))
     \<and> passes (no_filter\<lparr>ff_access_max_age := Some 3600\<rparr>) 1000000 (file_of 10 1000000 (1000000 - 60))
     \<and> \<not> passes (no_filter\<lparr>ff_cached_min_age := Some 1\<rparr>) 1000000 (file_of 10 (1000000 + 5000) 1000000)
     \<and> passes (no_filter\<lparr>ff_cached_max_age := Some 3600\<rparr>) 1000000 (file_of 10 (1000000 + 5000) 1000000)"

lemma passes_test_find_filter_access_age_and_future_timestamp: test_find_filter_access_age_and_future_timestamp
  by (simp add: test_find_filter_access_age_and_future_timestamp_def age_eval)

definition test_find_filter_combined :: bool where
  "test_find_filter_combined \<longleftrightarrow>
     passes (no_filter\<lparr>ff_min_size := Some 1000, ff_max_size := Some 2000, ff_cached_min_age := Some 86400,
        ff_access_max_age := Some 3600\<rparr>) 1000000 (file_of 1500 (1000000 - 86400) (1000000 - 60))
     \<and> \<not> passes (no_filter\<lparr>ff_min_size := Some 1000, ff_max_size := Some 2000, ff_cached_min_age := Some 86400,
        ff_access_max_age := Some 3600\<rparr>) 1000000 (file_of 500 (1000000 - 86400) (1000000 - 60))
     \<and> passes no_filter 1000000 (file_of 1500 (1000000 - 86400) (1000000 - 60))"

lemma passes_test_find_filter_combined: test_find_filter_combined
  by (simp add: test_find_filter_combined_def age_eval)

definition test_is_ls_recent :: bool where
  "test_is_ls_recent \<longleftrightarrow>
     is_ls_recent (10000000 - 1) 10000000
     \<and> is_ls_recent (10000000 - 10 * 86400) 10000000
     \<and> \<not> is_ls_recent (10000000 - SIX_MONTHS_SECS) 10000000
     \<and> \<not> is_ls_recent (10000000 - 2 * SIX_MONTHS_SECS) 10000000
     \<and> \<not> is_ls_recent (10000000 + 1) 10000000
     \<and> \<not> is_ls_recent (10000000 + 40 * 86400) 10000000"

lemma passes_test_is_ls_recent: test_is_ls_recent
  by (simp add: test_is_ls_recent_def is_ls_recent_def SIX_MONTHS_SECS_def)

definition test_ls_ts_format :: bool where
  "test_ls_ts_format \<longleftrightarrow>
     ls_ts_format True = ''%b %e %H:%M''
     \<and> ls_ts_format False = ''%b %e  %Y''"

lemma passes_test_ls_ts_format: test_ls_ts_format
  by (simp add: test_ls_ts_format_def ls_ts_format_def)

definition test_human_duration :: bool where
  "test_human_duration \<longleftrightarrow>
     human_duration 0 = ''00:00:00''
     \<and> human_duration 1 = ''00:00:01''
     \<and> human_duration 59 = ''00:00:59''
     \<and> human_duration 60 = ''00:01:00''
     \<and> human_duration 3599 = ''00:59:59''
     \<and> human_duration 3600 = ''01:00:00''
     \<and> human_duration 38950 = ''10:49:10''
     \<and> human_duration 86399 = ''23:59:59''
     \<and> human_duration 86400 = ''24:00:00''
     \<and> human_duration 360000 = ''100:00:00''"

lemma passes_test_human_duration: test_human_duration
  by (simp add: test_human_duration_def time_eval)

definition test_expiry_str :: bool where
  "test_expiry_str \<longleftrightarrow>
     expiry_str None = ''expired''
     \<and> expiry_str (Some 0) = ''expired''
     \<and> expiry_str (Some 38950) = ''10:49:10''"

lemma passes_test_expiry_str: test_expiry_str
  by (simp add: test_expiry_str_def time_eval)

definition test_freshness_str :: bool where
  "test_freshness_str \<longleftrightarrow>
     freshness_str (Some 38950) = ''10:49:10''
     \<and> freshness_str None = ''expired / not cacheable''
     \<and> freshness_str (Some 0) = ''expired / not cacheable''"

lemma passes_test_freshness_str: test_freshness_str
  by (simp add: test_freshness_str_def time_eval)

end
