(* ===== verification/Tests_Cache.thy ===== *)
theory Tests_Cache
  imports Cache_Properties Test_Kit
begin

text \<open>
  The unit tests of \<open>src/src/cache.rs\<close> that open a cache, on the definitions of Disk\_Cache. The directory of a
  test is \<open>/t\<close>; the clock reads 5, and more after a test has slept. SHA-256 and serde\_json stay
  arguments: the tests pass for every environment that keeps its contract and gives the URLs of the test different
  hashes. Where a test makes the cache evict one of two rows of the same second, SQLite is taken
  to pick the older row.
\<close>

definition opened :: "nat \<Rightarrow> disk_cache" where
  "opened max_size = new_cache ''/t'' max_size None []"

definition write_temp :: "string \<Rightarrow> bytes \<Rightarrow> disk_cache \<Rightarrow> disk_cache" where
  "write_temp name content c = c\<lparr>c_disk := am_insert [''t'', ''tmp'', name] content (c_disk c)\<rparr>"

definition temp_path :: "string \<Rightarrow> string" where
  "temp_path name = ''/t/tmp/'' @ name"

text \<open>\<open>cache.store(..).await.unwrap()\<close> of a file just written, with what the test does next.\<close>

definition storing ::
    "cache_env \<Rightarrow> int \<Rightarrow> string \<Rightarrow> string \<Rightarrow> bytes \<Rightarrow> header_map \<Rightarrow> disk_cache \<Rightarrow> (string \<Rightarrow> disk_cache \<Rightarrow> bool) \<Rightarrow> bool" where
  "storing env now url name content hs c next \<longleftrightarrow>
     (case store env no_faults now url (temp_path name) hs (write_temp name content c) of
        Some (Inr path, c') \<Rightarrow> next path c'
      | _ \<Rightarrow> False)"

definition found :: "cache_env \<Rightarrow> int \<Rightarrow> string \<Rightarrow> disk_cache \<Rightarrow> bool" where
  "found env now url c \<longleftrightarrow> fst (lookup env now url c) \<noteq> None"

definition file_exists :: "string \<Rightarrow> disk_cache \<Rightarrow> bool" where
  "file_exists path c \<longleftrightarrow> am_get (resolve_path path) (c_disk c) \<noteq> None"

text \<open>How many of the URLs are found, one lookup after the other.\<close>

fun count_found :: "cache_env \<Rightarrow> string list \<Rightarrow> disk_cache \<Rightarrow> nat" where
  "count_found env [] c = 0"
| "count_found env (u # us) c =
     (let (r, c') = lookup env 5 u c in (if r = None then 0 else 1) + count_found env us c')"

definition hundred_b :: bytes where
  "hundred_b = replicate 100 (of_char CHR ''b'')"

lemma length_hundred_b: "length hundred_b = 100"
  by (simp add: hundred_b_def)

definition length_is :: "nat \<Rightarrow> cache_error + cached_file list \<Rightarrow> bool" where
  "length_is n r \<longleftrightarrow> (case r of Inr fs \<Rightarrow> length fs = n | Inl _ \<Rightarrow> False)"

definition distinct_hashes :: "cache_env \<Rightarrow> string list \<Rightarrow> bool" where
  "distinct_hashes env urls \<longleftrightarrow> distinct (map (hash_of env) urls)"

lemma distinct_hashes_simps:
  "distinct_hashes env []"
  "distinct_hashes env (u # us) \<longleftrightarrow>
     (\<forall>v \<in> set us. hash_of env u \<noteq> hash_of env v
       \<and> hash_of env v \<noteq> hash_of env u) \<and> distinct_hashes env us"
  by (auto simp: distinct_hashes_def image_iff)

text \<open>Where the paths of the tests lead.\<close>

lemma entry_at:
  "sound_env env \<Longrightarrow> resolve_path (join_path ''/t'' (entry_file_name (hash_of env u)))
     = [''t'', take 2 (hash_of env u), hash_of env u]"
  by (simp add: sound_env_def resolve_entry efile_def) (simp add: resolve_path_def walk_def walk_step_def)

lemma temp_at: "plain_name name \<Longrightarrow> resolve_path (temp_path name) = [''t'', ''tmp'', name]"
  using walk_append [of "[]" "''/t/tmp''" name] walk_plain [of name "walk [] ''/t/tmp''"]
  by (simp add: resolve_path_def temp_path_def) (simp add: walk_def walk_step_def)

lemma hash_not_tmp: "sound_env env \<Longrightarrow> take 2 (hash_of env u) \<noteq> ''tmp''
       \<and> ''tmp'' \<noteq> take 2 (hash_of env u)"
proof -
  assume "sound_env env"
  then have "length (take 2 (hash_of env u)) = 2" by (simp add: sound_env_def hex_hash_def)
  then show ?thesis by (metis length_Cons list.size(3) numeral_2_eq_2 n_not_Suc_n)
qed

lemma json_back: "sound_env env \<Longrightarrow> of_json env (to_json env (headers_to_map hs)) = Some (headers_to_map hs)"
  by (simp add: sound_env_def json_ok_def)

text \<open>The headers that come back.\<close>

definition kept :: "header_map \<Rightarrow> header_map" where
  "kept hs = (case map_to_headers (headers_to_map hs) [] of Some r \<Rightarrow> r | None \<Rightarrow> [])"

lemma kept_restored: "map_to_headers (headers_to_map hs) [] = Some (kept hs)"
  using headers_survive [of hs] by (auto simp: kept_def)

lemma kept_get: "header_get k (kept hs) = (if k \<in> set stored_header_names then header_text k hs else None)"
  using headers_survive [of hs] kept_restored [of hs] by auto

lemma kept_Nil: "kept [] = []"
  by (simp add: kept_def headers_to_map_def map_filter_def stored_header_names_def)

lemma fixed_paths:
  "resolve_path ''/t/cache.db'' = [''t'', ''cache.db'']" "resolve_path (join_path ''/t'' ''tmp'') = [''t'', ''tmp'']"
  by (simp_all add: resolve_path_def join_path_def walk_def walk_step_def starts_with_def ends_with_def)

lemma entry_relative: "sound_env env \<Longrightarrow> \<not> starts_with (entry_file_name (hash_of env u)) ''/''"
  by (simp add: sound_env_def entry_not_abs)

lemmas disk_eval = write_temp_def opened_def new_cache_def migrate_schema_def store_def found_def lookup_def lookup_entry_def
  evict_inner_def no_faults_def insert_or_replace_def delete_row_def update_row_def find_row_def row_file_def
  total_size_of_def to_u64_def file_exists_def plain_name_def distinct_hashes_simps
  am_remove_def Let_def

lemmas disk_facts = length_hundred_b entry_at temp_at hash_not_tmp json_back kept_restored kept_get kept_Nil headers_to_map_get

definition test_cache_lookup_miss :: "cache_env \<Rightarrow> bool" where
  "test_cache_lookup_miss env \<longleftrightarrow>
     \<not> found env 5 ''http://example.com/nonexistent'' (opened 10000)"

lemma passes_test_cache_lookup_miss: "sound_env env \<Longrightarrow> test_cache_lookup_miss env"
  unfolding test_cache_lookup_miss_def storing_def Let_def
  by (simp add: disk_eval disk_facts stored_header_names_def header_text_def to_str_def visible_char_def)

definition test_cache_store_and_lookup :: "cache_env \<Rightarrow> bool" where
  "test_cache_store_and_lookup env \<longleftrightarrow>
     storing env 5 ''http://example.com/test.deb'' ''test.download'' (map of_char ''hello world'') (header_insert ''content-type'' ''binary/octet-stream'' []) (opened 10000) (\<lambda>p c. file_exists p c \<and> holds_some (\<lambda>(p', h). p' = p \<and> header_text ''content-type'' h = Some ''binary/octet-stream'')
        (fst (lookup env 5 ''http://example.com/test.deb'' c)))"

lemma passes_test_cache_store_and_lookup: "sound_env env \<Longrightarrow> test_cache_store_and_lookup env"
  unfolding test_cache_store_and_lookup_def storing_def Let_def
  by (simp add: disk_eval disk_facts stored_header_names_def header_text_def to_str_def visible_char_def)

definition test_cache_lookup_stale_file :: "cache_env \<Rightarrow> bool" where
  "test_cache_lookup_stale_file env \<longleftrightarrow>
     storing env 5 ''http://example.com/stale.deb'' ''stale.download'' (map of_char ''data'') [] (opened 10000) (\<lambda>p c. let (r, c') = lookup env 5 ''http://example.com/stale.deb'' (c\<lparr>c_disk := am_remove (resolve_path p) (c_disk c)\<rparr>)
        in r = None \<and> find_row (hash_of env ''http://example.com/stale.deb'') (c_rows c') = None)"

lemma passes_test_cache_lookup_stale_file: "sound_env env \<Longrightarrow> test_cache_lookup_stale_file env"
  unfolding test_cache_lookup_stale_file_def storing_def Let_def
  by (simp add: disk_eval disk_facts stored_header_names_def header_text_def to_str_def visible_char_def)

definition test_cache_store_updates_existing :: "cache_env \<Rightarrow> bool" where
  "test_cache_store_updates_existing env \<longleftrightarrow>
     storing env 5 ''http://example.com/replace.deb'' ''v1.download'' (map of_char ''version1'') [] (opened 10000) (\<lambda>p c. 
       storing env 5 ''http://example.com/replace.deb'' ''v2.download'' (map of_char ''version2'') [] c (\<lambda>p' c'. p = p' \<and> am_get (resolve_path p') (c_disk c') = Some (map of_char ''version2'')))"

lemma passes_test_cache_store_updates_existing: "sound_env env \<Longrightarrow> test_cache_store_updates_existing env"
  unfolding test_cache_store_updates_existing_def storing_def Let_def
  by (simp add: disk_eval disk_facts stored_header_names_def header_text_def to_str_def visible_char_def)

definition test_cache_eviction_at_max_size :: "cache_env \<Rightarrow> bool" where
  "test_cache_eviction_at_max_size env \<longleftrightarrow>
     storing env 5 ''http://example.com/a.deb'' ''a.download'' (map of_char ''aaaa'') [] (opened 100) (\<lambda>p c. let (r, c1) = lookup env 5 ''http://example.com/a.deb'' c in r \<noteq> None \<and>
       storing env 5 ''http://example.com/b.deb'' ''b.download'' hundred_b [] c1 (\<lambda>p' c'. \<not> found env 5 ''http://example.com/a.deb'' c'
         \<and> \<not> file_exists (join_path ''/t'' (entry_file_name (hash_of env ''http://example.com/a.deb''))) c'
         \<and> found env 5 ''http://example.com/b.deb'' c'))"

lemma passes_test_cache_eviction_at_max_size: "sound_env env \<Longrightarrow> distinct_hashes env [''http://example.com/a.deb'', ''http://example.com/b.deb''] \<Longrightarrow> pick_oldest env = first_oldest \<Longrightarrow> test_cache_eviction_at_max_size env"
  unfolding test_cache_eviction_at_max_size_def storing_def Let_def
  by (simp add: disk_eval disk_facts stored_header_names_def header_text_def to_str_def visible_char_def)

definition test_cache_zero_max_size :: "cache_env \<Rightarrow> bool" where
  "test_cache_zero_max_size env \<longleftrightarrow>
     storing env 5 ''http://example.com/z.deb'' ''z.download'' (map of_char ''zero'') [] (opened 0) (\<lambda>p c. \<not> found env 5 ''http://example.com/z.deb'' c)"

lemma passes_test_cache_zero_max_size: "sound_env env \<Longrightarrow> pick_oldest env = first_oldest \<Longrightarrow> test_cache_zero_max_size env"
  unfolding test_cache_zero_max_size_def storing_def Let_def
  by (simp add: disk_eval disk_facts stored_header_names_def header_text_def to_str_def visible_char_def)

definition test_cache_lookup_corrupted_headers_json :: "cache_env \<Rightarrow> bool" where
  "test_cache_lookup_corrupted_headers_json env \<longleftrightarrow>
     storing env 5 ''http://example.com/corrupt.deb'' ''c.download'' (map of_char ''data'') [] (opened 10000) (\<lambda>p c. holds_some (\<lambda>(path, h). file_exists path c \<and> h = [])
       (fst (lookup env 5 ''http://example.com/corrupt.deb'' (c\<lparr>c_rows := update_row (hash_of env ''http://example.com/corrupt.deb'')
          (\<lambda>r. r\<lparr>row_headers := ''not valid json''\<rparr>) (c_rows c)\<rparr>))))"

lemma passes_test_cache_lookup_corrupted_headers_json: "sound_env env \<Longrightarrow> of_json env ''not valid json'' = None \<Longrightarrow> test_cache_lookup_corrupted_headers_json env"
  unfolding test_cache_lookup_corrupted_headers_json_def storing_def Let_def
  by (simp add: disk_eval disk_facts stored_header_names_def header_text_def to_str_def visible_char_def)

definition test_cache_multi_eviction :: "cache_env \<Rightarrow> bool" where
  "test_cache_multi_eviction env \<longleftrightarrow>
     storing env 5 ''http://example.com/0.deb'' ''0.download'' (map of_char ''1234567890'') [] (opened 10) (\<lambda>p c0. 
       storing env 5 ''http://example.com/1.deb'' ''1.download'' (map of_char ''1234567890'') [] c0 (\<lambda>p c1. 
       storing env 5 ''http://example.com/2.deb'' ''2.download'' (map of_char ''1234567890'') [] c1 (\<lambda>p c2. 
       storing env 5 ''http://example.com/3.deb'' ''3.download'' (map of_char ''1234567890'') [] c2 (\<lambda>p c3. 
       storing env 5 ''http://example.com/4.deb'' ''4.download'' (map of_char ''1234567890'') [] c3 (\<lambda>p c4. 
       count_found env [''http://example.com/0.deb'', ''http://example.com/1.deb'', ''http://example.com/2.deb'', ''http://example.com/3.deb'', ''http://example.com/4.deb''] c4 = 1)))))"

lemma passes_test_cache_multi_eviction: "sound_env env \<Longrightarrow> distinct_hashes env [''http://example.com/0.deb'', ''http://example.com/1.deb'', ''http://example.com/2.deb'', ''http://example.com/3.deb'', ''http://example.com/4.deb''] \<Longrightarrow> pick_oldest env = first_oldest \<Longrightarrow> test_cache_multi_eviction env"
  unfolding test_cache_multi_eviction_def storing_def Let_def
  by (simp add: disk_eval disk_facts stored_header_names_def header_text_def to_str_def visible_char_def)

definition test_cache_store_nonexistent_temp :: "cache_env \<Rightarrow> bool" where
  "test_cache_store_nonexistent_temp env \<longleftrightarrow>
     (case store env no_faults 5 ''http://example.com/nonexistent-temp.deb'' ''/nonexistent/path/file.deb'' [] (opened 10000) of
        Some (Inl e, _) \<Rightarrow> True
      | _ \<Rightarrow> False)"

lemma passes_test_cache_store_nonexistent_temp: "sound_env env \<Longrightarrow> test_cache_store_nonexistent_temp env"
  unfolding test_cache_store_nonexistent_temp_def storing_def Let_def
  by (simp add: disk_eval disk_facts stored_header_names_def header_text_def to_str_def visible_char_def)

definition test_cache_lookup_updates_last_access :: "cache_env \<Rightarrow> bool" where
  "test_cache_lookup_updates_last_access env \<longleftrightarrow>
     storing env 5 ''http://example.com/access.deb'' ''a.download'' (map of_char ''data'') [] (opened 10000) (\<lambda>p c. let (r, c') = lookup env 6 ''http://example.com/access.deb'' c;
           access = (\<lambda>c. map_option row_last_access (find_row (hash_of env ''http://example.com/access.deb'') (c_rows c)))
        in r \<noteq> None \<and> holds_some (\<lambda>old. holds_some (\<lambda>new. old < new) (access c')) (access c))"

lemma passes_test_cache_lookup_updates_last_access: "sound_env env \<Longrightarrow> test_cache_lookup_updates_last_access env"
  unfolding test_cache_lookup_updates_last_access_def storing_def Let_def
  by (simp add: disk_eval disk_facts stored_header_names_def header_text_def to_str_def visible_char_def)

definition test_cache_reopen_persists :: "cache_env \<Rightarrow> bool" where
  "test_cache_reopen_persists env \<longleftrightarrow>
     storing env 5 ''http://example.com/persist.deb'' ''p.download'' (map of_char ''persist'') [] (opened 10000) (\<lambda>p c. found env 5 ''http://example.com/persist.deb''
       (new_cache ''/t'' 10000 (Some \<lparr>has_cached_at = True, db_rows = c_rows c\<rparr>) (c_disk c)))"

lemma passes_test_cache_reopen_persists: "sound_env env \<Longrightarrow> test_cache_reopen_persists env"
  unfolding test_cache_reopen_persists_def storing_def Let_def
  by (simp add: disk_eval disk_facts stored_header_names_def header_text_def to_str_def visible_char_def)

definition test_cache_store_empty_headers :: "cache_env \<Rightarrow> bool" where
  "test_cache_store_empty_headers env \<longleftrightarrow>
     storing env 5 ''http://example.com/no-headers.deb'' ''nohdr.download'' (map of_char ''content'') [] (opened 10000) (\<lambda>p c. file_exists p c \<and> fst (lookup env 5 ''http://example.com/no-headers.deb'' c) = Some (p, []))"

lemma passes_test_cache_store_empty_headers: "sound_env env \<Longrightarrow> test_cache_store_empty_headers env"
  unfolding test_cache_store_empty_headers_def storing_def Let_def
  by (simp add: disk_eval disk_facts stored_header_names_def header_text_def to_str_def visible_char_def)

definition test_cache_store_empty_content_length :: "cache_env \<Rightarrow> bool" where
  "test_cache_store_empty_content_length env \<longleftrightarrow>
     storing env 5 ''http://example.com/no-clen.deb'' ''nocl.download'' (map of_char ''payload'') (header_insert ''content-type'' ''image/png'' []) (opened 10000) (\<lambda>p c. holds_some (\<lambda>(_, h). header_text ''content-type'' h = Some ''image/png'' \<and> header_get ''content-length'' h = None)
       (fst (lookup env 5 ''http://example.com/no-clen.deb'' c)))"

lemma passes_test_cache_store_empty_content_length: "sound_env env \<Longrightarrow> test_cache_store_empty_content_length env"
  unfolding test_cache_store_empty_content_length_def storing_def Let_def
  by (simp add: disk_eval disk_facts stored_header_names_def header_text_def to_str_def visible_char_def)

definition test_cache_sql_injection_in_url :: "cache_env \<Rightarrow> bool" where
  "test_cache_sql_injection_in_url env \<longleftrightarrow>
     storing env 5 ''http://example.com/'; DROP TABLE cache_entries; --.deb'' ''sqli.download'' (map of_char ''data'') [] (opened 100000) (\<lambda>p c. let (r, c1) = lookup env 5 ''http://example.com/'; DROP TABLE cache_entries; --.deb'' c in r \<noteq> None \<and>
       storing env 5 ''http://example.com/normal.deb'' ''sqli2.download'' (map of_char ''data2'') [] c1 (\<lambda>p' c'. found env 5 ''http://example.com/normal.deb'' c'))"

lemma passes_test_cache_sql_injection_in_url: "sound_env env \<Longrightarrow> distinct_hashes env [''http://example.com/'; DROP TABLE cache_entries; --.deb'', ''http://example.com/normal.deb''] \<Longrightarrow> test_cache_sql_injection_in_url env"
  unfolding test_cache_sql_injection_in_url_def storing_def Let_def
  by (simp add: disk_eval disk_facts stored_header_names_def header_text_def to_str_def visible_char_def)

definition test_cache_sql_injection_in_url_select :: "cache_env \<Rightarrow> bool" where
  "test_cache_sql_injection_in_url_select env \<longleftrightarrow>
     storing env 5 ''http://example.com/ok.deb'' ''ok.download'' (map of_char ''data'') [] (opened 100000) (\<lambda>p c. \<not> found env 5 ''http://example.com/' OR '1'='1'' c)"

lemma passes_test_cache_sql_injection_in_url_select: "sound_env env \<Longrightarrow> distinct_hashes env [''http://example.com/ok.deb'', ''http://example.com/' OR '1'='1''] \<Longrightarrow> test_cache_sql_injection_in_url_select env"
  unfolding test_cache_sql_injection_in_url_select_def storing_def Let_def
  by (simp add: disk_eval disk_facts stored_header_names_def header_text_def to_str_def visible_char_def)

definition test_cache_path_traversal_in_url :: "cache_env \<Rightarrow> bool" where
  "test_cache_path_traversal_in_url env \<longleftrightarrow>
     storing env 5 ''http://example.com/../../../etc/passwd'' ''traversal.download'' (map of_char ''data'') [] (opened 100000) (\<lambda>p c. holds_some (\<lambda>(path, _). path_starts_with path ''/t'') (fst (lookup env 5 ''http://example.com/../../../etc/passwd'' c)))"

lemma passes_test_cache_path_traversal_in_url: "sound_env env \<Longrightarrow> test_cache_path_traversal_in_url env"
  unfolding test_cache_path_traversal_in_url_def storing_def Let_def
  by (simp add: disk_eval disk_facts join_starts_with entry_relative stored_header_names_def header_text_def to_str_def visible_char_def)

definition test_cache_lookup_nonexistent :: "cache_env \<Rightarrow> bool" where
  "test_cache_lookup_nonexistent env \<longleftrightarrow>
     \<not> found env 5 ''http://example.com/never-cached.deb'' (opened 10000)"

lemma passes_test_cache_lookup_nonexistent: "sound_env env \<Longrightarrow> test_cache_lookup_nonexistent env"
  unfolding test_cache_lookup_nonexistent_def storing_def Let_def
  by (simp add: disk_eval disk_facts stored_header_names_def header_text_def to_str_def visible_char_def)

definition test_cache_list_all_detailed_includes_headers :: "cache_env \<Rightarrow> bool" where
  "test_cache_list_all_detailed_includes_headers env \<longleftrightarrow>
     storing env 5 ''http://example.com/detailed.deb'' ''d.download'' (map of_char ''payload'') 
        (header_insert ''content-type'' ''application/octet-stream'' (header_insert ''cache-control'' ''max-age=3600'' [])) (opened 10000) (\<lambda>p c. holds_for (\<lambda>ds. length ds = 1 \<and> ce_url (ds ! 0) = ''http://example.com/detailed.deb'' \<and> ce_size (ds ! 0) = 7
            \<and> map_of (ce_headers (ds ! 0)) ''cache-control'' = Some ''max-age=3600''
            \<and> map_of (ce_headers (ds ! 0)) ''content-type'' = Some ''application/octet-stream''
            \<and> 0 < ce_cached_at (ds ! 0)) (list_all_detailed env c))"

lemma passes_test_cache_list_all_detailed_includes_headers: "sound_env env \<Longrightarrow> test_cache_list_all_detailed_includes_headers env"
  unfolding test_cache_list_all_detailed_includes_headers_def storing_def Let_def
  by (simp add: disk_eval disk_facts list_all_detailed_def detail_of_def stored_header_names_def header_text_def to_str_def visible_char_def)

definition test_lookup_entry_returns_cached_at :: "cache_env \<Rightarrow> bool" where
  "test_lookup_entry_returns_cached_at env \<longleftrightarrow>
     storing env 5 ''http://example.com/cached-at.deb'' ''t.download'' (map of_char ''data'') [] (opened 10000) (\<lambda>p c. holds_some (\<lambda>(_, _, cached_at). 5 \<le> cached_at \<and> cached_at \<le> 5) (fst (lookup_entry env 5 ''http://example.com/cached-at.deb'' c)))"

lemma passes_test_lookup_entry_returns_cached_at: "sound_env env \<Longrightarrow> test_lookup_entry_returns_cached_at env"
  unfolding test_lookup_entry_returns_cached_at_def storing_def Let_def
  by (simp add: disk_eval disk_facts stored_header_names_def header_text_def to_str_def visible_char_def)

definition test_cache_refresh_updates_headers_and_cached_at :: "cache_env \<Rightarrow> bool" where
  "test_cache_refresh_updates_headers_and_cached_at env \<longleftrightarrow>
     storing env 5 ''http://example.com/refresh.deb'' ''r.download'' (map of_char ''data'') [] (opened 10000) (\<lambda>p c. let (before, c1) = lookup_entry env 5 ''http://example.com/refresh.deb'' c;
           (r, c2) = refresh env no_faults 6 ''http://example.com/refresh.deb'' (header_insert ''etag'' ''\"fresh\"'' []) c1
        in r = Inr () \<and> holds_some (\<lambda>(_, _, at1). holds_some (\<lambda>(_, h, at2).
              header_text ''etag'' h = Some ''\"fresh\"''
       \<and> at1 < at2) (fst (lookup_entry env 6 ''http://example.com/refresh.deb'' c2))) before)"

lemma passes_test_cache_refresh_updates_headers_and_cached_at: "sound_env env \<Longrightarrow> test_cache_refresh_updates_headers_and_cached_at env"
  unfolding test_cache_refresh_updates_headers_and_cached_at_def storing_def Let_def
  by (simp add: disk_eval disk_facts refresh_def stored_header_names_def header_text_def to_str_def visible_char_def)

definition test_cache_refresh_nonexistent_url :: "cache_env \<Rightarrow> bool" where
  "test_cache_refresh_nonexistent_url env \<longleftrightarrow>
     (let (r, c) = refresh env no_faults 5 ''http://example.com/not-cached.deb'' [] (opened 10000)
      in is_ok r \<and> \<not> found env 5 ''http://example.com/not-cached.deb'' c)"

lemma passes_test_cache_refresh_nonexistent_url: "sound_env env \<Longrightarrow> test_cache_refresh_nonexistent_url env"
  unfolding test_cache_refresh_nonexistent_url_def storing_def Let_def
  by (simp add: disk_eval disk_facts refresh_def stored_header_names_def header_text_def to_str_def visible_char_def)

definition test_cache_list_all_and_delete :: "cache_env \<Rightarrow> bool" where
  "test_cache_list_all_and_delete env \<longleftrightarrow>
     storing env 5 ''http://example.com/a.deb'' ''entry-0.download'' (map of_char ''data'') [] (opened 1000000) (\<lambda>p c0. 
       storing env 5 ''http://example.com/b.deb'' ''entry-1.download'' (map of_char ''data'') [] c0 (\<lambda>p c1. 
       storing env 5 ''http://other.com/c.deb'' ''entry-2.download'' (map of_char ''data'') [] c1 (\<lambda>p c2. 
       length_is 3 (list_all_cached c2) \<and>
       (let (r, c3) = delete_by_urls env no_faults [''http://example.com/a.deb''] c2; (r', c4) = clear_all no_faults c3
        in is_ok r \<and> length_is 2 (list_all_cached c3) \<and> is_ok r' \<and> length_is 0 (list_all_cached c4)))))"

lemma passes_test_cache_list_all_and_delete: "sound_env env \<Longrightarrow> distinct_hashes env [''http://example.com/a.deb'', ''http://example.com/b.deb'', ''http://other.com/c.deb''] \<Longrightarrow> test_cache_list_all_and_delete env"
  unfolding test_cache_list_all_and_delete_def storing_def Let_def
  by (simp add: disk_eval disk_facts fixed_paths stale_download_def join_starts_with entry_relative length_is_def list_all_cached_def delete_by_urls_def clear_all_def guarded_unlink_def stored_header_names_def header_text_def to_str_def visible_char_def)

definition test_cache_clear_removes_physical_files :: "cache_env \<Rightarrow> bytes \<Rightarrow> bool" where
  "test_cache_clear_removes_physical_files env db \<longleftrightarrow>
     storing env 5 ''http://example.com/x.deb'' ''x.download'' (map of_char ''payload'') [] 
      ((opened 1000000)\<lparr>c_disk := [([''t'', ''cache.db''], db)]\<rparr>) (\<lambda>p c. file_exists p c \<and>
       (let (r, c') = clear_all no_faults c
        in is_ok r \<and> \<not> file_exists p c' \<and> file_exists ''/t/cache.db'' c'))"

lemma passes_test_cache_clear_removes_physical_files: "sound_env env \<Longrightarrow> test_cache_clear_removes_physical_files env db"
  unfolding test_cache_clear_removes_physical_files_def storing_def Let_def
  by (simp add: disk_eval disk_facts fixed_paths stale_download_def join_starts_with entry_relative length_is_def list_all_cached_def delete_by_urls_def clear_all_def guarded_unlink_def stored_header_names_def header_text_def to_str_def visible_char_def)

definition test_migrate_old_schema_adds_cached_at :: bool where
  "test_migrate_old_schema_adds_cached_at \<longleftrightarrow>
     (let old = \<lparr>has_cached_at = False,
         db_rows = [\<lparr>row_hash = ''hash'', row_url = ''http://example.com/old.deb'', row_size = 4, row_last_access = 1111,
           row_path = ''ha/hash'', row_headers = ''{}'', row_cached_at = 0\<rparr>]\<rparr>
      in map_option row_cached_at (find_row ''hash'' (c_rows (new_cache ''/t'' 10000 (Some old) []))) = Some 1111
       \<and> has_cached_at (migrate_schema old))"

lemma passes_test_migrate_old_schema_adds_cached_at: test_migrate_old_schema_adds_cached_at
  unfolding test_migrate_old_schema_adds_cached_at_def storing_def Let_def
  by (simp add: disk_eval disk_facts stored_header_names_def header_text_def to_str_def visible_char_def)

end
