(* ===== verification/Tests_Ctl_Files.thy ===== *)
theory Tests_Ctl_Files
  imports Tests_Ctl Tests_Cache Ctl_Commands Ctl_Hashes
begin

text \<open>
  The unit tests of \<open>src/src/bin/blitzctl/cache_cli.rs\<close> that copy and print cached files. The directory of
  a test is \<open>/t\<close>, which is also that of the cache.
\<close>

definition dirs_of_test :: "string list \<Rightarrow> bool" where
  "dirs_of_test p \<longleftrightarrow> p \<in> {[], [''t''], [''t'', ''sub'']}"

lemma places:
  "resolve_path ''/t/src.bin'' = [''t'', ''src.bin'']" "resolve_path ''/t/dest.bin'' = [''t'', ''dest.bin'']"
  "resolve_path ''/t/copy.deb'' = [''t'', ''copy.deb'']" "resolve_path ''/t/sub'' = [''t'', ''sub'']"
  "resolve_path ''out.bin'' = [''out.bin'']"
  "resolve_path ''/nonexistent/out/child.bin'' = [''nonexistent'', ''out'', ''child.bin'']"
  by (simp_all add: resolve_path_def walk_def walk_step_def)

lemmas dest_eval = resolve_dest_def file_name_def parent_of_def place_of_def path_components_def dirs_of_test_def
  walk_step_def starts_with_def ends_with_def

lemmas entry_eval = resolve_cached_entry_def list_all_detailed_def perspective_for_def

definition test_compute_hashes_missing_file :: "'h digest_lib \<Rightarrow> bool" where
  "test_compute_hashes_missing_file lib \<longleftrightarrow>
     \<not> is_ok (compute_hashes lib None)"

lemma passes_test_compute_hashes_missing_file: "test_compute_hashes_missing_file lib"
  by (simp add: test_compute_hashes_missing_file_def compute_hashes_def)

definition test_resolve_dest_directory_and_file :: bool where
  "test_resolve_dest_directory_and_file \<longleftrightarrow>
     resolve_dest dirs_of_test ''/t/sub'' ''/pool/main/a.deb'' = Inr (join_path ''/t/sub'' ''a.deb'')
     \<and> resolve_dest dirs_of_test ''out.bin'' ''/pool/main/b.bin'' = Inr ''out.bin''
     \<and> \<not> is_ok (resolve_dest dirs_of_test ''/nonexistent/out/child.bin'' ''/pool/main/b.bin'')"

lemma passes_test_resolve_dest_directory_and_file: test_resolve_dest_directory_and_file
  by (simp add: test_resolve_dest_directory_and_file_def dest_eval places)

definition test_copy_source_overwrite_semantics :: bool where
  "test_copy_source_overwrite_semantics \<longleftrightarrow>
     (let d = [([''t'', ''src.bin''], map of_char ''abc'')];
         (r, d1) = copy_source dirs_of_test True ''/t/src.bin'' ''/t/dest.bin'' False d;
         (r1, d2) = copy_source dirs_of_test True ''/t/src.bin'' ''/t/dest.bin'' False d1;
         (r2, d3) = copy_source dirs_of_test True ''/t/src.bin'' ''/t/dest.bin'' True d2
      in r = Inr 3 \<and> am_get [''t'', ''dest.bin''] d1 = Some (map of_char ''abc'')
       \<and> \<not> is_ok r1 \<and> r2 = Inr 3)"

lemma passes_test_copy_source_overwrite_semantics: test_copy_source_overwrite_semantics
  unfolding test_copy_source_overwrite_semantics_def Let_def
  by (simp add: copy_source_def Let_def places dirs_of_test_def)

definition test_cmd_cp_integration :: "cache_env \<Rightarrow> bool" where
  "test_cmd_cp_integration env \<longleftrightarrow>
     storing env 5 ''http://deb.debian.org/pool/main/x.deb'' ''x'' (map of_char ''payload-from-cache'') [] (opened (2 ^ 64 - 1)) (\<lambda>p c.
       let (r, c1) = cmd_cp env plain_url dirs_of_test True [] True False ''deb.debian.org'' ''pool/main/x.deb'' ''/t/copy.deb''  c;
           (r1, c2) = cmd_cp env plain_url dirs_of_test True [] True False ''deb.debian.org'' ''pool/main/x.deb'' ''/t/copy.deb''  c1;
           (r2, c3) = cmd_cp env plain_url dirs_of_test True [] True True ''deb.debian.org'' ''pool/main/x.deb'' ''/t/copy.deb''  c2
       in is_ok r \<and> am_get [''t'', ''copy.deb''] (c_disk c1) = Some (map of_char ''payload-from-cache'') \<and> \<not> is_ok r1 \<and> is_ok r2 \<and> am_get [''t'', ''copy.deb''] (c_disk c3) = Some (map of_char ''payload-from-cache''))"

lemma passes_test_cmd_cp_integration: "sound_env env \<Longrightarrow> test_cmd_cp_integration env"
  unfolding test_cmd_cp_integration_def storing_def Let_def
  by (simp add: cmd_cp_def copy_source_def entry_eval detail_of_def alias_eval dest_eval places disk_eval disk_facts)

definition test_cmd_cat_output_matches_entry :: "cache_env \<Rightarrow> bool" where
  "test_cmd_cat_output_matches_entry env \<longleftrightarrow>
     storing env 5 ''http://deb.debian.org/pool/main/y.deb'' ''y'' (map of_char ''cat-me-please'') [] (opened (2 ^ 64 - 1)) (\<lambda>p c.
       holds_for (\<lambda>(out, _). out = map of_char ''cat-me-please'')
         (cmd_cat env plain_url [] True ''deb.debian.org'' ''pool/main/y.deb'' c))"

lemma passes_test_cmd_cat_output_matches_entry: "sound_env env \<Longrightarrow> test_cmd_cat_output_matches_entry env"
  unfolding test_cmd_cat_output_matches_entry_def storing_def Let_def
  by (simp add: cmd_cat_def entry_eval detail_of_def alias_eval disk_eval disk_facts)

end
