(* ===== verification/Tests_Streams.thy ===== *)
theory Tests_Streams
  imports Buffer_Stream Throttled_Stream Proxy_Handler Tests_Buffer
begin

text \<open>
  The unit tests of \<open>src/src/proxy.rs\<close> that read a stream to its end or serve a file, on the definitions of
  Buffer\_Stream, Throttled\_Stream and Proxy\_Handler. Reads are complete. The contents of a test are any bytes of the
  length it takes; the clock of the throttled streams starts at 0 and runs as the timers of the stream say.
\<close>

text \<open>\<open>collect\<close> of a stream whose items are all bytes.\<close>

fun collected :: "stream_out list \<Rightarrow> bytes option" where
  "collected (stream_out.Chunk d # outs) = map_option (\<lambda>r. d @ r) (collected outs)"
| "collected (Stream_end # outs) = Some []"
| "collected _ = None"

definition stream_of :: "nat \<Rightarrow> segments_buffer \<Rightarrow> stream_out list" where
  "stream_of turns b = stream_drive (\<lambda>b. rd_full (dl_file b)) (replicate turns b) stream_init"

fun collect_polls :: "poll_env list \<Rightarrow> throttle \<Rightarrow> bytes list option" where
  "collect_polls [] s = None"
| "collect_polls (env # envs) s =
     (case poll_next env s of
        Some (Poll_item p, s1) \<Rightarrow> map_option (Cons p) (collect_polls envs s1)
      | Some (Poll_pending, s1) \<Rightarrow> collect_polls envs s1
      | Some (Poll_end, s1) \<Rightarrow> Some []
      | _ \<Rightarrow> None)"

text \<open>A poll of a stream that is not cancelled, before its timer is due or after.\<close>

definition poll_at :: "u64 \<Rightarrow> poll_env" where
  "poll_at t = \<lparr>pe_cancelled = False, pe_now = t, pe_timer_due = False\<rparr>"

definition wake_at :: "u64 \<Rightarrow> poll_env" where
  "wake_at t = \<lparr>pe_cancelled = False, pe_now = t, pe_timer_due = True\<rparr>"

lemma slice_three:
  assumes "length data = 250"
  shows "slice_chunk 100 data = Some [take 100 data, take 100 (drop 100 data), drop 200 data]"
proof -
  have "data \<noteq> []" "drop 100 data \<noteq> []" "drop 200 data \<noteq> []" using assms by auto
  then show ?thesis using assms
    by (simp add: slice_chunk.simps [of 100 data] slice_chunk.simps [of 100 "drop 100 data"]
        slice_chunk.simps [of 100 "drop 200 data"] slice_chunk.simps [of 100 "[]"])
qed

lemma turns:
  "replicate 2 b = [b, b]" "replicate 3 b = [b, b, b]" "replicate 7 b = [b, b, b, b, b, b, b]"
  by (simp_all add: eval_nat_numeral)

lemma cut_three:
  "take 100 data @ take 100 (drop 100 data) @ drop 200 data = (data :: bytes)"
  "take 80 data @ take 80 (drop 80 data) @ drop 160 data = (data :: bytes)"
proof -
  have "take n data @ take n (drop n data) @ drop n (drop n data) = data" for n by (simp only: append_take_drop_id)
  from this [of 100] this [of 80] show
    "take 100 data @ take 100 (drop 100 data) @ drop 200 data = (data :: bytes)"
    "take 80 data @ take 80 (drop 80 data) @ drop 160 data = (data :: bytes)" by simp_all
qed

lemma read_full: "off < length f \<Longrightarrow> 0 < n \<Longrightarrow> read_data (rd_full f) off n b = Some (pread (dl_file b) off (min n (length f - off)))"
  by (simp add: read_data_def rd_full_def)

lemmas stream_eval = num_segments_def stream_of_def stream_iter_def stream_init_def next_segment_def is_ready_def is_failed_def
  segment_start_def segment_end_def read_full pread_def pwrite_def written_full temp_buffer_def claimed_def claims_def
  claim_range_def new_buffer_def mark_ready_def set_failed_def all_completed_def

lemmas serve_eval = serve_file_def plain_response_def header_append_def header_text_def to_str_def visible_char_def
  bytes_of_def str_eval

lemmas poll_eval = poll_next_def poll_idle_def poll_inner_def poll_waiting_def deliver_or_wait_def try_deliver_def
  wait_for_tokens_def schedule_wake_def enqueue_chunk_def throttled_def poll_at_def wake_at_def
  try_consume_def wait_time_nanos_def available_def bucket_unlimited_def refilled_def refill_def new_bucket_def NANOS_PER_SEC_def

definition test_make_buffer_stream_single_segment :: "bytes \<Rightarrow> bool" where
  "test_make_buffer_stream_single_segment data \<longleftrightarrow>
     (let b = claimed 100 (temp_buffer 100); b1 = claimed 1 b
      in claims 100 (temp_buffer 100) = Some (0, 0, 100) \<and> claims 1 b = None
       \<and> collected (stream_of 3 (mark_ready 0 (written 0 data b1))) = Some data)"

lemma passes_test_make_buffer_stream_single_segment: "length data = 100 \<Longrightarrow> test_make_buffer_stream_single_segment data"
  unfolding test_make_buffer_stream_single_segment_def Let_def
  by (simp add: stream_eval turns cut_three Let_def) auto

definition test_make_buffer_stream_mid_segment :: "bytes \<Rightarrow> bool" where
  "test_make_buffer_stream_mid_segment data \<longleftrightarrow>
     (let b = claimed 50000 (temp_buffer 50000); b1 = claimed 1 b
      in claims 50000 (temp_buffer 50000) = Some (0, 0, 50000) \<and> claims 1 b = None
       \<and> collected (stream_of 3 (mark_ready 0 (written 0 data b1))) = Some data)"

lemma passes_test_make_buffer_stream_mid_segment: "length data = 50000 \<Longrightarrow> test_make_buffer_stream_mid_segment data"
  unfolding test_make_buffer_stream_mid_segment_def Let_def
  by (simp add: stream_eval turns cut_three Let_def) auto

definition test_make_buffer_stream_failed_buffer_yields_none :: bool where
  "test_make_buffer_stream_failed_buffer_yields_none \<longleftrightarrow>
     (let b = claimed 100 (temp_buffer 100); b1 = claimed 1 b
      in claims 1 b = None \<and> stream_of 2 (set_failed b1) = [stream_out.Stream_error, Stream_end])"

lemma passes_test_make_buffer_stream_failed_buffer_yields_none: test_make_buffer_stream_failed_buffer_yields_none
  unfolding test_make_buffer_stream_failed_buffer_yields_none_def Let_def
  by (simp add: stream_eval turns cut_three Let_def)

definition test_throttled_stream_no_bucket_passthrough :: bool where
  "test_throttled_stream_no_bucket_passthrough \<longleftrightarrow>
     collect_polls [poll_at 0, poll_at 0, poll_at 0]
       (throttled [Inner_chunk (bytes_of ''hello''), Inner_chunk (bytes_of '' world'')] None)
     = Some [bytes_of ''hello'', bytes_of '' world'']"

lemma passes_test_throttled_stream_no_bucket_passthrough: test_throttled_stream_no_bucket_passthrough
  unfolding test_throttled_stream_no_bucket_passthrough_def Let_def
  by (simp add: poll_eval bytes_of_def slice_three cut_three Let_def)

definition test_throttled_stream_with_enough_tokens :: bool where
  "test_throttled_stream_with_enough_tokens \<longleftrightarrow>
     collect_polls [poll_at 0, poll_at 0]
       (throttled [Inner_chunk (bytes_of ''abcdef'')] (Some (new_bucket 1000 1000 0)))
     = Some [bytes_of ''abcdef'']"

lemma passes_test_throttled_stream_with_enough_tokens: test_throttled_stream_with_enough_tokens
  unfolding test_throttled_stream_with_enough_tokens_def Let_def
  by (simp add: poll_eval bytes_of_def slice_three cut_three Let_def)

definition test_throttled_stream_throttles_and_delivers :: bool where
  "test_throttled_stream_throttles_and_delivers \<longleftrightarrow>
     collect_polls [poll_at 0, wake_at 140000000, poll_at 140000000]
       (throttled [Inner_chunk (bytes_of ''throttled data'')] (Some (snd (try_consume 0 100 (new_bucket 100 100 0)))))
     = Some [bytes_of ''throttled data'']"

lemma passes_test_throttled_stream_throttles_and_delivers: test_throttled_stream_throttles_and_delivers
  unfolding test_throttled_stream_throttles_and_delivers_def Let_def
  by (simp add: poll_eval bytes_of_def slice_three cut_three Let_def)

definition test_throttled_stream_cancel_stops :: bool where
  "test_throttled_stream_cancel_stops \<longleftrightarrow>
     collect_polls [\<lparr>pe_cancelled = True, pe_now = 0, pe_timer_due = False\<rparr>]
       (throttled [Inner_chunk (bytes_of ''data'')] (Some (snd (try_consume 0 100 (new_bucket 100 100 0)))))
     = Some []"

lemma passes_test_throttled_stream_cancel_stops: test_throttled_stream_cancel_stops
  unfolding test_throttled_stream_cancel_stops_def Let_def
  by (simp add: poll_eval bytes_of_def slice_three cut_three Let_def)

definition test_throttled_stream_oversized_chunk_splits :: "bytes \<Rightarrow> bool" where
  "test_throttled_stream_oversized_chunk_splits data \<longleftrightarrow>
     (case collect_polls [poll_at 0, poll_at 0, wake_at 150000000, poll_at 150000000, wake_at 200000000, poll_at 200000000]
            (throttled [Inner_chunk data] (Some (new_bucket 100 1000 0))) of
        Some r \<Rightarrow> map length r = [100, 100, 50] \<and> concat r = data
      | None \<Rightarrow> False)"

lemma passes_test_throttled_stream_oversized_chunk_splits: "length data = 250 \<Longrightarrow> test_throttled_stream_oversized_chunk_splits data"
  unfolding test_throttled_stream_oversized_chunk_splits_def Let_def
  by (simp add: poll_eval bytes_of_def slice_three cut_three Let_def)

definition test_plain_proxy_upstream_bandwidth_error :: bool where
  "test_plain_proxy_upstream_bandwidth_error \<longleftrightarrow>
     (case plain_proxy (Some (200, [(''content-length'', ''14'')])) of
        Inr resp \<Rightarrow> rs_body resp = Body_upstream
          \<and> fst (plain_chunks [(0, Inr (bytes_of ''hello upstream''))] (new_bucket 0 0 0)) = [Inl ()]
      | Inl _ \<Rightarrow> False)"

lemma passes_test_plain_proxy_upstream_bandwidth_error: test_plain_proxy_upstream_bandwidth_error
  unfolding test_plain_proxy_upstream_bandwidth_error_def
  by (simp add: plain_proxy_def plain_response_def poll_eval bytes_of_def Let_def)

definition test_make_buffer_stream_multiple_segments :: "bytes \<Rightarrow> bool" where
  "test_make_buffer_stream_multiple_segments data \<longleftrightarrow>
     (let b0 = temp_buffer 200; b1 = claimed 80 b0; b2 = claimed 80 b1; b3 = claimed 80 b2; b3' = claimed 1 b3;
         b4 = written 160 (drop 160 data) (written 80 (take 80 (drop 80 data)) (written 0 (take 80 data) b3'));
         b5 = mark_ready 2 (mark_ready 1 (mark_ready 0 b4))
      in claims 80 b0 = Some (0, 0, 80) \<and> claims 80 b1 = Some (1, 80, 160) \<and> claims 80 b2 = Some (2, 160, 200)
       \<and> claims 1 b3 = None \<and> collected (stream_of 7 b5) = Some data)"

lemma passes_test_make_buffer_stream_multiple_segments: "length data = 200 \<Longrightarrow> test_make_buffer_stream_multiple_segments data"
  unfolding test_make_buffer_stream_multiple_segments_def Let_def
  by (simp add: stream_eval turns cut_three Let_def) auto

definition test_serve_file_nonexistent :: bool where
  "test_serve_file_nonexistent \<longleftrightarrow>
     (case serve_file ''/nonexistent/path/file.deb'' [] [] of Inl (Internal _) \<Rightarrow> True | _ \<Rightarrow> False)"

lemma passes_test_serve_file_nonexistent: test_serve_file_nonexistent
  by (simp add: test_serve_file_nonexistent_def serve_file_def)

definition test_serve_file_empty_file :: bool where
  "test_serve_file_empty_file \<longleftrightarrow>
     (case serve_file ''/tmp/empty.deb'' [(''content-type'', ''text/plain'')] [(resolve_path ''/tmp/empty.deb'', [])] of
        Inr resp \<Rightarrow> rs_status resp = 200
       \<and> header_text ''content-type'' (rs_headers resp) = Some ''text/plain''
          \<and> header_text ''content-length'' (rs_headers resp) = Some ''0''
          \<and> header_text ''accept-ranges'' (rs_headers resp) = Some ''bytes''
      | Inl _ \<Rightarrow> False)"

lemma passes_test_serve_file_empty_file: test_serve_file_empty_file
  by (simp add: test_serve_file_empty_file_def serve_eval)

definition test_serve_file_with_headers :: bool where
  "test_serve_file_with_headers \<longleftrightarrow>
     (case serve_file ''/tmp/with-headers.deb'' [(''etag'', ''\"xyz\"''), (''cache-control'', ''public'')]
            [(resolve_path ''/tmp/with-headers.deb'', bytes_of ''data'')] of
        Inr resp \<Rightarrow> header_text ''etag'' (rs_headers resp) = Some ''\"xyz\"''
          \<and> header_text ''cache-control'' (rs_headers resp) = Some ''public''
          \<and> header_text ''content-length'' (rs_headers resp) = Some ''4''
      | Inl _ \<Rightarrow> False)"

lemma passes_test_serve_file_with_headers: test_serve_file_with_headers
  by (simp add: test_serve_file_with_headers_def serve_eval)

end
