(* ===== verification/Tests_Tunnel.thy ===== *)
theory Tests_Tunnel
  imports Connect_Tunnel Test_Kit
begin

text \<open>
  The unit tests of \<open>src/src/proxy.rs\<close> for \<open>handle_connect_tunnel\<close>, on the definitions of Connect\_Tunnel. The
  server of a test is an environment that accepts the connection to its port; what the client
  writes after the head is what the tunnel hands to the server.
\<close>

definition listening :: "nat \<Rightarrow> tunnel_env \<Rightarrow> bool" where
  "listening portno env \<longleftrightarrow> te_connect env ''127.0.0.1'' portno
       \<and> te_client_write env \<and> portno \<le> 65535"

definition request :: "string \<Rightarrow> string" where
  "request line = line @ crlf2"

definition answers_with :: "string \<Rightarrow> tunnel \<Rightarrow> bool" where
  "answers_with status t \<longleftrightarrow> starts_with (tn_answer t) status"

lemma loopback_plain: "plain_host ''127.0.0.1''"
  by (simp add: plain_host_def is_ws_def)

text \<open>A head of one line is read as such, and what it asks for is found.\<close>

lemma tunnel_of_line:
  assumes "plain_host hostname" "portno \<le> 65535" "length hostname \<le> 8000"
  shows "handle_connect_tunnel env upstream no_proxy (connect_line hostname portno @ crlf2 @ rest) fin
    = connect_upstream env upstream no_proxy hostname portno rest"
proof -
  have "length (dec portno) \<le> 5"
    using assms(2) by (simp add: dec.simps [of portno] dec.simps [of "portno div 10"] dec.simps [of "portno div 10 div 10"]
        dec.simps [of "portno div 10 div 10 div 10"] dec.simps [of "portno div 10 div 10 div 10 div 10"])
  then have "length (connect_line hostname portno) \<le> 8188" using assms(3) by (simp add: connect_line_def)
  moreover have "CHR 0x0A \<notin> set (connect_line hostname portno)" using connect_line_chars [OF assms(1)] by blast
  ultimately have "read_head [] (connect_line hostname portno @ crlf2 @ rest) fin
      = Head (connect_line hostname portno @ crlf2) rest"
    using read_head_line [of "[]"] by simp
  then show ?thesis using parse_connect_line [OF assms(1,2)] by (simp add: handle_connect_tunnel_def)
qed

text \<open>A head that does not end within the limit: two line feeds are needed for its end.\<close>

lemma read_head_long:
  assumes "8192 < length buf + length s" "length buf \<le> 8192"
    and "\<forall>k \<le> length s. \<not> ends_with (buf @ take k s) crlf2 \<or> 8193 < length buf + k"
  shows "read_head buf s fin = Head_too_long"
  using assms
proof (induction s arbitrary: buf)
  case Nil
  then show ?case by simp
next
  case (Cons c cs)
  have no: "\<not> ends_with (buf @ [c]) crlf2" using Cons.prems(2) spec [OF Cons.prems(3), of 1] by simp
  show ?case
  proof (cases "length buf = 8192")
    case True
    then show ?thesis using no by (simp add: Let_def)
  next
    case False
    have "\<forall>k \<le> length cs. \<not> ends_with ((buf @ [c]) @ take k cs) crlf2 \<or> 8193 < length (buf @ [c]) + k"
    proof (intro allI impI)
      fix k assume "k \<le> length cs"
      then show "\<not> ends_with ((buf @ [c]) @ take k cs) crlf2 \<or> 8193 < length (buf @ [c]) + k"
        using spec [OF Cons.prems(3), of "Suc k"] by simp
    qed
    then have "read_head (buf @ [c]) cs fin = Head_too_long"
      using False Cons.prems(1,2) by (intro Cons.IH) simp_all
    then show ?thesis using no False Cons.prems(2) by (simp add: Let_def)
  qed
qed

definition count_lf :: "string \<Rightarrow> nat" where
  "count_lf s = length (filter ((=) (CHR 0x0A)) s)"

lemma ends_needs_two: "ends_with s crlf2 \<Longrightarrow> 2 \<le> count_lf s"
  by (auto simp: ends_with_iff count_lf_def crlf2_def)

lemma one_lf_too_long:
  assumes "8193 \<le> length p" "count_lf p \<le> 1"
  shows "read_head [] (p @ rest) fin = Head_too_long"
proof (rule read_head_long)
  show "\<forall>k \<le> length (p @ rest). \<not> ends_with ([] @ take k (p @ rest)) crlf2 \<or> 8193 < length ([] :: string) + k"
  proof (intro allI impI)
    fix k
    have "\<not> ends_with (take k (p @ rest)) crlf2" if "k \<le> 8193"
    proof
      assume "ends_with (take k (p @ rest)) crlf2"
      then have "2 \<le> count_lf (take k p)" using that assms(1) ends_needs_two by fastforce
      moreover have "count_lf p = count_lf (take k p) + count_lf (drop k p)"
        unfolding count_lf_def by (metis append_take_drop_id filter_append length_append)
      ultimately show False using assms(2) by simp
    qed
    then show "\<not> ends_with ([] @ take k (p @ rest)) crlf2 \<or> 8193 < length ([] :: string) + k"
      by (cases "k \<le> 8193") simp_all
  qed
qed (use assms in simp_all)

lemma parse_one_line:
  assumes "\<forall>c \<in> set line. of_char c < (128 :: nat) \<and> c \<noteq> CHR 0x0A"
  shows "parse_connect (line @ crlf2) =
    (case split_whitespace line of
       verb # authority # _ \<Rightarrow> if verb = ''CONNECT'' then parse_authority authority else None
     | _ \<Rightarrow> None)"
proof -
  have "CHR 0x0A \<notin> set line" using assms by blast
  then have "first_line (line @ crlf2) = line"
    using split_once_append [of "CHR 0x0A" "line @ [CHR 0x0D]" "[CHR 0x0D, CHR 0x0A]"]
    by (simp add: first_line_def crlf2_def)
  moreover have "from_utf8_lossy (line @ crlf2) = line @ crlf2"
    by (rule lossy_ascii) (use assms in \<open>auto simp: crlf2_def\<close>)
  ultimately show ?thesis by (simp add: parse_connect_def)
qed

lemmas tunnel_eval = request_def answers_with_def handle_connect_tunnel_def closed_def bad_request_def bad_gateway_def
  crlf2_def starts_with_def

definition test_connect_tunnel_direct_ok :: "tunnel_env \<Rightarrow> nat \<Rightarrow> bool" where
  "test_connect_tunnel_direct_ok env portno \<longleftrightarrow>
     (let t = handle_connect_tunnel env None [] (request (connect_line ''127.0.0.1'' portno) @ ''ping'') In_eof
      in answers_with ''HTTP/1.1 200'' t \<and> tn_route t = Some (Direct ''127.0.0.1'' portno)
       \<and> tn_client_rest t = ''ping'')"

lemma passes_test_connect_tunnel_direct_ok: "listening portno env \<Longrightarrow> test_connect_tunnel_direct_ok env portno"
  unfolding test_connect_tunnel_direct_ok_def Let_def request_def
  using tunnel_of_line [OF loopback_plain, of portno env None "[]" "''ping''" In_eof]
  by (simp add: listening_def connect_upstream_def open_tunnel_def answers_with_def established_def
      starts_with_def str_eval)

definition test_connect_tunnel_no_proxy_bypass :: "tunnel_env \<Rightarrow> nat \<Rightarrow> bool" where
  "test_connect_tunnel_no_proxy_bypass env portno \<longleftrightarrow>
     (let t = handle_connect_tunnel env None [''127.0.0.1''] (request (connect_line ''127.0.0.1'' portno) @ ''no_proxy_test'') In_eof
      in answers_with ''HTTP/1.1 200'' t \<and> tn_route t = Some (Direct ''127.0.0.1'' portno)
       \<and> tn_client_rest t = ''no_proxy_test'')"

lemma passes_test_connect_tunnel_no_proxy_bypass: "listening portno env \<Longrightarrow> test_connect_tunnel_no_proxy_bypass env portno"
  unfolding test_connect_tunnel_no_proxy_bypass_def Let_def request_def
  using tunnel_of_line [OF loopback_plain, of portno env None "[''127.0.0.1'']" "''no_proxy_test''" In_eof]
  by (simp add: listening_def connect_upstream_def open_tunnel_def answers_with_def established_def
      starts_with_def str_eval)

definition test_connect_tunnel_upstream_refused :: "tunnel_env \<Rightarrow> bool" where
  "test_connect_tunnel_upstream_refused env \<longleftrightarrow>
     answers_with ''HTTP/1.1 502''
       (handle_connect_tunnel env None [] (request (connect_line ''127.0.0.1'' 1)) In_eof)"

lemma passes_test_connect_tunnel_upstream_refused: "\<not> te_connect env ''127.0.0.1'' 1 \<Longrightarrow> test_connect_tunnel_upstream_refused env"
  unfolding test_connect_tunnel_upstream_refused_def request_def
  using tunnel_of_line [OF loopback_plain, of 1 env None "[]" "[]" In_eof]
  by (simp add: connect_upstream_def closed_def bad_gateway_def answers_with_def starts_with_def)

definition test_connect_tunnel_invalid_port_rejected :: "tunnel_env \<Rightarrow> bool" where
  "test_connect_tunnel_invalid_port_rejected env \<longleftrightarrow>
     answers_with ''HTTP/1.1 400''
       (handle_connect_tunnel env None [] (request ''CONNECT example.com:99999 HTTP/1.1'') In_eof)"

lemma passes_test_connect_tunnel_invalid_port_rejected: "test_connect_tunnel_invalid_port_rejected env"
  unfolding test_connect_tunnel_invalid_port_rejected_def request_def
proof -
  have "parse_connect (''CONNECT example.com:99999 HTTP/1.1'' @ crlf2) = None"
    by (subst parse_one_line) (simp_all add: split_whitespace_def parse_authority_def u16_max_def str_eval)
  then show "answers_with ''HTTP/1.1 400'' (handle_connect_tunnel env None [] (''CONNECT example.com:99999 HTTP/1.1'' @ crlf2) In_eof)"
    using read_head_line [of "[]" "''CONNECT example.com:99999 HTTP/1.1''" "[]" In_eof]
    by (simp add: handle_connect_tunnel_def closed_def bad_request_def answers_with_def starts_with_def)
qed

definition test_connect_tunnel_not_connect_method :: "tunnel_env \<Rightarrow> bool" where
  "test_connect_tunnel_not_connect_method env \<longleftrightarrow>
     answers_with ''HTTP/1.1 400''
       (handle_connect_tunnel env None [] (request ''GET / HTTP/1.1'') In_eof)"

lemma passes_test_connect_tunnel_not_connect_method: "test_connect_tunnel_not_connect_method env"
  unfolding test_connect_tunnel_not_connect_method_def request_def
proof -
  have "parse_connect (''GET / HTTP/1.1'' @ crlf2) = None"
    by (subst parse_one_line) (simp_all add: split_whitespace_def parse_authority_def u16_max_def str_eval)
  then show "answers_with ''HTTP/1.1 400'' (handle_connect_tunnel env None [] (''GET / HTTP/1.1'' @ crlf2) In_eof)"
    using read_head_line [of "[]" "''GET / HTTP/1.1''" "[]" In_eof]
    by (simp add: handle_connect_tunnel_def closed_def bad_request_def answers_with_def starts_with_def)
qed

definition test_connect_tunnel_empty_request :: "tunnel_env \<Rightarrow> bool" where
  "test_connect_tunnel_empty_request env \<longleftrightarrow>
     answers_with ''HTTP/1.1 400''
       (handle_connect_tunnel env None [] (request []) In_eof)"

lemma passes_test_connect_tunnel_empty_request: "test_connect_tunnel_empty_request env"
  unfolding test_connect_tunnel_empty_request_def request_def
proof -
  have "parse_connect ([] @ crlf2) = None"
    by (subst parse_one_line) (simp_all add: split_whitespace_def parse_authority_def u16_max_def str_eval)
  then show "answers_with ''HTTP/1.1 400'' (handle_connect_tunnel env None [] ([] @ crlf2) In_eof)"
    using read_head_line [of "[]" "[]" "[]" In_eof]
    by (simp add: handle_connect_tunnel_def closed_def bad_request_def answers_with_def starts_with_def)
qed

definition test_connect_tunnel_headers_too_long :: "tunnel_env \<Rightarrow> bool" where
  "test_connect_tunnel_headers_too_long env \<longleftrightarrow>
     answers_with ''HTTP/1.1 400''
       (handle_connect_tunnel env None [] (request (''CONNECT host:443 HTTP/1.1'' @ [CHR 0x0D, CHR 0x0A] @ ''X-Long: '' @ replicate 9000 (CHR ''A''))) In_eof)"

lemma passes_test_connect_tunnel_headers_too_long: "test_connect_tunnel_headers_too_long env"
  unfolding test_connect_tunnel_headers_too_long_def request_def
  using one_lf_too_long [of "(''CONNECT host:443 HTTP/1.1'' @ [CHR 0x0D, CHR 0x0A] @ ''X-Long: '' @ replicate 9000 (CHR ''A''))" crlf2 In_eof]
  by (simp add: handle_connect_tunnel_def closed_def bad_request_def answers_with_def starts_with_def count_lf_def)

end
