(* ===== verification/Tests_Flight.thy ===== *)
theory Tests_Flight
  imports Proxy_Flight Tests_Buffer
begin

text \<open>
  The unit tests of \<open>src/src/proxy.rs\<close> for \<open>resolve_with_coalescing\<close> and \<open>spawn_cache_persistence\<close>, on the
  definitions of Proxy\_Flight. The cache of a test is new and empty, so that hashes and JSON do not
  matter; \<open>now\<close> is the \<open>Instant\<close> of the failure tracker. What the other tasks of a test do during a wait
  is an observation of the turn.
\<close>

definition fresh_proxy :: "segments_buffer list \<Rightarrow> proxy_state" where
  "fresh_proxy bs =
     \<lparr>px_cache = new_cache ''/t'' (1024 * 1024) None [], px_coalescer = new_coalescer, px_failures = [],
      px_buffers = bs\<rparr>"

text \<open>A turn at which the other tasks do nothing but what \<open>waiting\<close> says.\<close>

definition turn :: "nat \<Rightarrow> (proxy_state \<Rightarrow> proxy_state) \<Rightarrow> turn_obs" where
  "turn now waiting =
     \<lparr>to_instant = now, to_unix = 5, to_head = None, to_faults = no_faults, to_meanwhile = id, to_waiting = waiting\<rparr>"

definition retries :: "nat \<Rightarrow> nat \<Rightarrow> flight_config" where
  "retries n etag_n = \<lparr>fc_max_retries = n, fc_etag_max_retries = etag_n, fc_max_cache_age = 86400\<rparr>"

definition resolved ::
    "cache_env \<Rightarrow> flight_config \<Rightarrow> string \<Rightarrow> turn_obs list \<Rightarrow> proxy_state \<Rightarrow> (proxy_error + coalesce_outcome) option" where
  "resolved env cfg url turns s = map_option fst (resolve_with_coalescing env (\<lambda>_. None) cfg url turns 0 s)"

definition registered :: "string \<Rightarrow> proxy_state \<Rightarrow> proxy_state" where
  "registered url s = s\<lparr>px_coalescer := snd (register url (px_coalescer s))\<rparr>"

definition attached :: "string \<Rightarrow> nat \<Rightarrow> proxy_state \<Rightarrow> proxy_state" where
  "attached url h s = s\<lparr>px_coalescer := attach_buffer url h (px_coalescer s)\<rparr>"

definition persisting :: "nat \<Rightarrow> persist_obs" where
  "persisting now =
     \<lparr>po_instant = now, po_unix = 5, po_faults = no_faults, po_sync_ok = True, po_xz_test = (\<lambda>_. True)\<rparr>"

text \<open>The message of an error that contains a word.\<close>

definition fails_with :: "string \<Rightarrow> (proxy_error + coalesce_outcome) option \<Rightarrow> bool" where
  "fails_with word r \<longleftrightarrow> (case r of Some (Inl e) \<Rightarrow> contains_str (show_proxy_error [] e) word | _ \<Rightarrow> False)"

lemma messages:
  "contains_str ''timed out waiting for in-flight download of http://example.com/timeout.bin'' ''timed out''"
  "contains_str ''upstream in failure cooldown for http://example.com/cooldown.bin, retry later'' ''cooldown''"
  by code_simp+

lemma funpow_3: "(f ^^ 3) x = f (f (f x))"
  by (simp add: numeral_3_eq_3)

lemmas flight_eval = show_proxy_error_def send_all_def messages fresh_proxy_def turn_def retries_def resolved_def registered_def attached_def persisting_def
  fails_with_def resolve_turn_def consult_cache_def lookup_entry_def new_cache_def migrate_schema_def find_row_def
  register_def attach_buffer_def fail_def take_entry_def new_coalescer_def MAX_INFLIGHT_def etag_failed_for_def
  fail_flight_def is_in_cooldown_def record_failure_def MAX_FAILURES_BEFORE_COOLDOWN_def MAX_FAILURE_ENTRIES_def
  FAILURE_COOLDOWN_SECS_def am_remove_def

lemmas persist_eval = persist_download_def drop_download_def on_disk_def remove_file_def fail_buffer_def note_failure_def
  set_failed_def no_faults_def temp_buffer_def new_buffer_def flight_eval

definition test_etag_changed_skips_cooldown_but_flags_retry :: "cache_env \<Rightarrow> nat \<Rightarrow> bool" where
  "test_etag_changed_skips_cooldown_but_flags_retry env now \<longleftrightarrow>
     (case persist_download env http_etag_changed (persisting now) ''http://example.com/etag-changed.bin'' 0 [] (Some (Inl Dl_etag_changed)) (fresh_proxy [temp_buffer 1024]) of
        None \<Rightarrow> False
      | Some s \<Rightarrow>
          \<not> is_in_cooldown now ''http://example.com/etag-changed.bin'' (record_failure now ''http://example.com/etag-changed.bin'' (record_failure now ''http://example.com/etag-changed.bin'' (px_failures s)))
          \<and> etag_failed_for ''http://example.com/etag-changed.bin'' (px_coalescer s))"

lemma passes_test_etag_changed_skips_cooldown_but_flags_retry: "test_etag_changed_skips_cooldown_but_flags_retry env now"
  unfolding test_etag_changed_skips_cooldown_but_flags_retry_def Let_def
  by (simp add: persist_eval http_etag_changed_def Let_def)

definition test_real_failure_records_and_is_not_etag :: "cache_env \<Rightarrow> nat \<Rightarrow> bool" where
  "test_real_failure_records_and_is_not_etag env now \<longleftrightarrow>
     (case persist_download env (\<lambda>_. False) (persisting now) ''http://example.com/real-fail.bin'' 0 [] (Some (Inl Dl_io)) (fresh_proxy [temp_buffer 1024]) of
        None \<Rightarrow> False
      | Some s \<Rightarrow>
          is_in_cooldown now ''http://example.com/real-fail.bin'' (record_failure now ''http://example.com/real-fail.bin'' (record_failure now ''http://example.com/real-fail.bin'' (px_failures s)))
          \<and> \<not> etag_failed_for ''http://example.com/real-fail.bin'' (px_coalescer s))"

lemma passes_test_real_failure_records_and_is_not_etag: "test_real_failure_records_and_is_not_etag env now"
  unfolding test_real_failure_records_and_is_not_etag_def Let_def
  by (simp add: persist_eval Let_def)

definition test_coalesce_follower_receives_buffer_within_timeout :: "cache_env \<Rightarrow> nat \<Rightarrow> bool" where
  "test_coalesce_follower_receives_buffer_within_timeout env now \<longleftrightarrow>
     (let s = attached ''http://example.com/follower-ok.bin'' 0 (registered ''http://example.com/follower-ok.bin'' (fresh_proxy [temp_buffer 1024]))
      in resolved env (retries 3 3) ''http://example.com/follower-ok.bin'' [turn now id] s = Some (Inr (From_buffer 0)))"

lemma passes_test_coalesce_follower_receives_buffer_within_timeout: "test_coalesce_follower_receives_buffer_within_timeout env now"
  unfolding test_coalesce_follower_receives_buffer_within_timeout_def Let_def
  by (simp add: flight_eval Let_def)

definition test_coalesce_leader_drop_triggers_retry_then_leader :: "cache_env \<Rightarrow> nat \<Rightarrow> bool" where
  "test_coalesce_leader_drop_triggers_retry_then_leader env now \<longleftrightarrow>
     (let s = fail_flight ''http://example.com/leader-drop.bin'' False (registered ''http://example.com/leader-drop.bin'' (fresh_proxy []))
      in resolved env (retries 3 3) ''http://example.com/leader-drop.bin'' [turn now id] s = Some (Inr Become_leader))"

lemma passes_test_coalesce_leader_drop_triggers_retry_then_leader: "test_coalesce_leader_drop_triggers_retry_then_leader env now"
  unfolding test_coalesce_leader_drop_triggers_retry_then_leader_def Let_def
  by (simp add: flight_eval Let_def)

definition test_coalesce_timeout_returns_error :: "cache_env \<Rightarrow> nat \<Rightarrow> bool" where
  "test_coalesce_timeout_returns_error env now \<longleftrightarrow>
     fails_with ''timed out''
       (resolved env (retries 0 3) ''http://example.com/timeout.bin'' [turn now id] (registered ''http://example.com/timeout.bin'' (fresh_proxy [])))"

lemma passes_test_coalesce_timeout_returns_error: "test_coalesce_timeout_returns_error env now"
  unfolding test_coalesce_timeout_returns_error_def Let_def
  by (simp add: flight_eval Let_def)

definition test_coalesce_leader_drop_exceeds_max_retries :: "cache_env \<Rightarrow> nat \<Rightarrow> bool" where
  "test_coalesce_leader_drop_exceeds_max_retries env now \<longleftrightarrow>
     (case resolved env (retries 1 10) ''http://example.com/maxretry.bin'' [turn now (fail_flight ''http://example.com/maxretry.bin'' False), turn now id]
            (registered ''http://example.com/maxretry.bin'' (fresh_proxy [])) of
        Some r \<Rightarrow> is_ok r
      | None \<Rightarrow> False)"

lemma passes_test_coalesce_leader_drop_exceeds_max_retries: "test_coalesce_leader_drop_exceeds_max_retries env now"
  unfolding test_coalesce_leader_drop_exceeds_max_retries_def Let_def
  by (simp add: flight_eval Let_def)

definition test_coalesce_cooldown_blocks_immediately :: "cache_env \<Rightarrow> nat \<Rightarrow> bool" where
  "test_coalesce_cooldown_blocks_immediately env now \<longleftrightarrow>
     (let s = (fresh_proxy [])\<lparr>px_failures := (record_failure now ''http://example.com/cooldown.bin'' ^^ MAX_FAILURES_BEFORE_COOLDOWN) []\<rparr>
      in fails_with ''cooldown'' (resolved env (retries 3 3) ''http://example.com/cooldown.bin'' [turn now id] s))"

lemma passes_test_coalesce_cooldown_blocks_immediately: "test_coalesce_cooldown_blocks_immediately env now"
  unfolding test_coalesce_cooldown_blocks_immediately_def Let_def
  by (simp add: flight_eval funpow_3 Let_def)

end
