(* ===== verification/Tests_Ftp_Transfer.thy ===== *)
theory Tests_Ftp_Transfer
  imports Ftp_Download Tests_Buffer
begin

text \<open>
  The unit tests of \<open>src/src/ftp.rs\<close> that talk to a server, on the definitions of Ftp\_Download. The mock
  servers of the tests answer every command with one line, which a function gives here; a server is the
  script of its answers to the commands of the test. The file of a test is any bytes of its length, and
  arrives in one piece.
\<close>

definition crlf :: string where
  "crlf = [CHR 0x0D, CHR 0x0A]"

text \<open>The line with which a server answers a command; \<open>pasv\<close> is the answer to PASV.\<close>

definition mock_reply :: "string \<Rightarrow> string \<Rightarrow> string \<Rightarrow> string" where
  "mock_reply sz pasv cmd =
     (if starts_with cmd ''USER'' then ''230 Login successful''
      else if starts_with cmd ''PASS'' then ''230 Already logged in''
      else if starts_with cmd ''TYPE'' then ''200 Type set''
      else if starts_with cmd ''SIZE'' then ''213 '' @ sz
      else if starts_with cmd ''PASV'' then pasv
      else if starts_with cmd ''RETR'' then ''150 Opening data connection''
      else if cmd = [] then ''226 Transfer complete''
      else if starts_with cmd ''QUIT'' then ''221 Bye''
      else ''500 Unknown'')"

text \<open>
  A server that meets these commands; the empty command is the end of the data, after which the
  server reports the transfer complete.
\<close>

definition mock_server :: "string \<Rightarrow> string \<Rightarrow> string list \<Rightarrow> ftp_control" where
  "mock_server sz pasv cmds =
     \<lparr>incoming = map (\<lambda>l. Line (l @ crlf)) (''220 Mock FTP ready'' # map (mock_reply sz pasv) cmds),
      sent = [], writes_left = None\<rparr>"

definition mock_ftp_server :: "string list \<Rightarrow> ftp_control" where
  "mock_ftp_server cmds = mock_server ''123456'' ''500 Unknown'' cmds"

definition mock_ftp_with_data :: "nat \<Rightarrow> string list \<Rightarrow> ftp_control" where
  "mock_ftp_with_data file_size cmds =
     mock_server (dec file_size) ''227 Entering Passive Mode (127,0,0,1,156,64)'' cmds"

definition login :: "string list" where
  "login = [''USER'', ''PASS'', ''TYPE'']"

definition local_url :: "string \<Rightarrow> string option \<Rightarrow> string option \<Rightarrow> nat \<Rightarrow> string \<Rightarrow> ftp_url" where
  "local_url scheme user pass portno path =
     \<lparr>ftp_scheme = scheme, ftp_username = user, ftp_password = pass, ftp_host = ''127.0.0.1'',
      ftp_port = portno, ftp_path = path\<rparr>"

text \<open>The buffer of a test, a data connection for each transfer, and an unlimited bucket.\<close>

definition ftp_world_of :: "segments_buffer \<Rightarrow> data_conn list \<Rightarrow> ftp_world" where
  "ftp_world_of b conns =
     \<lparr>w_ctrl = mock_ftp_server [], w_data = conns, w_bucket = unlimited_bucket, w_buffer = b\<rparr>"

definition transfer :: "string list" where
  "transfer = login @ [''PASV'', ''RETR'', [], ''QUIT'']"

lemma whole_file:
  assumes "length data = length (dl_file b)" "0 < length data" "length data \<le> data_buf_len" "n = length data"
  shows "range_loop wr_full 0 n 0 [Piece 0 data] bk b
    = (Inr n, snd (try_consume 0 (of_nat n) bk), b\<lparr>dl_file := data\<rparr>)"
proof -
  have d: "data \<noteq> []" using assms(2) by auto
  have k: "min data_buf_len (n - 0) = n" using assms by simp
  have "write_data wr_full (0 + 0) (take n data) b = (Inr (), b\<lparr>dl_file := pwrite (dl_file b) 0 (take n data)\<rparr>)"
    using Ftp_Download.write_data_full [of 0 "take n data" b] assms by simp
  then show ?thesis
    using range_loop_piece [of 0 n data n wr_full 0 b "Inr ()" _ 0 "[]" bk] assms d k
    by (simp add: Let_def pwrite_def range_loop.simps [of _ _ _ _ "[]"])
qed

lemma reads_full: "length (dl_file b) = n \<Longrightarrow> 0 < n \<Longrightarrow> reads 0 n b = Some (dl_file b)"
  by (auto simp: reads_def read_data_def rd_full_def pread_def)

lemmas ftp_run = mock_ftp_server_def mock_ftp_with_data_def mock_server_def mock_reply_def crlf_def login_def transfer_def
  local_url_def connect_and_login_def ftp_connect_def login_cmds_def ftp_cmd_def write_control_def read_response_def
  read_line_def trim_end_crlf_def char_boundary_def check_ftp_size_def starts_with_def

lemmas ftp_transfer = download_ftp_single_def fetch_segment_def download_range_def ftp_world_of_def temp_buffer_def
  new_buffer_def claim_range_def mark_ready_def is_ready_def num_segments_def

lemma pasv_answers:
  "parse_pasv ''227 Entering Passive Mode (127,0,0,1,156,64)'' = Inr (''127.0.0.1'', 40000)"
  "parse_pasv ''227 Entering Passive Mode (127,0,0,1,0,1)'' = Inr (''127.0.0.1'', 1)"
  by (simp_all add: parse_pasv_def pasv_body_def pasv_port_def str_eval)

definition test_ftp_control_connect_and_welcome :: bool where
  "test_ftp_control_connect_and_welcome \<longleftrightarrow>
     (case ftp_connect (Some (mock_ftp_server [''NOOP''])) of
        Some (Inr _, Some c) \<Rightarrow> map_option fst (ftp_cmd ''NOOP'' c) = Some (Inr ''500 Unknown'')
      | _ \<Rightarrow> False)"

lemma passes_test_ftp_control_connect_and_welcome: test_ftp_control_connect_and_welcome
  unfolding test_ftp_control_connect_and_welcome_def Let_def
  by (simp add: ftp_run str_eval eval_nat_numeral Let_def)

definition test_ftp_control_cmd_roundtrip :: bool where
  "test_ftp_control_cmd_roundtrip \<longleftrightarrow>
     (case ftp_connect (Some (mock_ftp_server [''USER test''])) of
        Some (Inr _, Some c) \<Rightarrow> map_option fst (ftp_cmd ''USER test'' c) = Some (Inr ''230 Login successful'')
      | _ \<Rightarrow> False)"

lemma passes_test_ftp_control_cmd_roundtrip: test_ftp_control_cmd_roundtrip
  unfolding test_ftp_control_cmd_roundtrip_def Let_def
  by (simp add: ftp_run str_eval eval_nat_numeral Let_def)

definition test_ftp_control_connect_refused :: bool where
  "test_ftp_control_connect_refused \<longleftrightarrow>
     (case ftp_connect None of Some (Inl e, _) \<Rightarrow> True | _ \<Rightarrow> False)"

lemma passes_test_ftp_control_connect_refused: test_ftp_control_connect_refused
  unfolding test_ftp_control_connect_refused_def Let_def
  by (simp add: ftp_run str_eval eval_nat_numeral Let_def)

definition test_check_ftp_size_with_mock :: "nat \<Rightarrow> bool" where
  "test_check_ftp_size_with_mock portno \<longleftrightarrow>
     check_ftp_size (local_url ''ftp'' None None portno ''/bigfile.bin'')
       (Some (mock_ftp_server (login @ [''SIZE'', ''QUIT'']))) = Some (Inr 123456)"

lemma passes_test_check_ftp_size_with_mock: "test_check_ftp_size_with_mock portno"
  unfolding test_check_ftp_size_with_mock_def Let_def
  by (simp add: ftp_transfer ftp_run pasv_answers whole_file data_buf_len_def reads_full str_eval Let_def)

definition test_check_ftp_size_refused :: bool where
  "test_check_ftp_size_refused \<longleftrightarrow>
     (case check_ftp_size (local_url ''ftp'' None None 1 ''/x'') None of Some (Inl _) \<Rightarrow> True | _ \<Rightarrow> False)"

lemma passes_test_check_ftp_size_refused: test_check_ftp_size_refused
  unfolding test_check_ftp_size_refused_def Let_def
  by (simp add: ftp_run str_eval eval_nat_numeral Let_def)

definition test_check_ftp_size_ftps_rejected :: "ftp_control option \<Rightarrow> bool" where
  "test_check_ftp_size_ftps_rejected peer \<longleftrightarrow>
     check_ftp_size (local_url ''ftps'' None None 990 ''/x'') peer = Some (Inl Ftps_unsupported)"

lemma passes_test_check_ftp_size_ftps_rejected: "test_check_ftp_size_ftps_rejected peer"
  unfolding test_check_ftp_size_ftps_rejected_def Let_def
  by (simp add: ftp_run str_eval eval_nat_numeral Let_def)

definition test_download_ftp_single_with_mock :: "bytes \<Rightarrow> nat \<Rightarrow> bool" where
  "test_download_ftp_single_with_mock data portno \<longleftrightarrow>
     (case download_ftp_single wr_full (local_url ''ftp'' None None portno ''/file.dat'')
            (Some (mock_ftp_with_data 100 transfer)) (ftp_world_of (temp_buffer 100) [Some [Piece 0 data]]) of
        Some (Inr _, w) \<Rightarrow> is_ready 0 (w_buffer w) \<and> reads 0 100 (w_buffer w) = Some data
      | _ \<Rightarrow> False)"

lemma passes_test_download_ftp_single_with_mock: "length data = 100 \<Longrightarrow> test_download_ftp_single_with_mock data portno"
  unfolding test_download_ftp_single_with_mock_def Let_def
  by (simp add: ftp_transfer ftp_run pasv_answers whole_file data_buf_len_def reads_full Let_def)

definition test_download_ftp_single_with_auth :: "bytes \<Rightarrow> nat \<Rightarrow> bool" where
  "test_download_ftp_single_with_auth data portno \<longleftrightarrow>
     (case download_ftp_single wr_full (local_url ''ftp'' (Some ''testuser'') (Some ''secret'') portno ''/auth.dat'')
            (Some (mock_ftp_with_data 50 transfer)) (ftp_world_of (temp_buffer 50) [Some [Piece 0 data]]) of
        Some (Inr _, w) \<Rightarrow> is_ready 0 (w_buffer w)
       \<and> map_option length (reads 0 50 (w_buffer w)) = Some 50
      | _ \<Rightarrow> False)"

lemma passes_test_download_ftp_single_with_auth: "length data = 50 \<Longrightarrow> test_download_ftp_single_with_auth data portno"
  unfolding test_download_ftp_single_with_auth_def Let_def
  by (simp add: ftp_transfer ftp_run pasv_answers whole_file data_buf_len_def reads_full Let_def)

definition test_ftp_pasv_data_connect_refused :: "nat \<Rightarrow> bool" where
  "test_ftp_pasv_data_connect_refused portno \<longleftrightarrow>
     (case download_ftp_single wr_full (local_url ''ftp'' None None portno ''/file.dat'')
            (Some (mock_server [] ''227 Entering Passive Mode (127,0,0,1,0,1)'' (login @ [''PASV''])))
            (ftp_world_of (temp_buffer 100) [None]) of
        Some (Inl _, w) \<Rightarrow> True
      | _ \<Rightarrow> False)"

lemma passes_test_ftp_pasv_data_connect_refused: "test_ftp_pasv_data_connect_refused portno"
  unfolding test_ftp_pasv_data_connect_refused_def Let_def
  by (simp add: ftp_transfer ftp_run pasv_answers whole_file data_buf_len_def reads_full Let_def)

definition test_download_ftp_multithreaded_with_mock :: "bytes \<Rightarrow> nat \<Rightarrow> bool" where
  "test_download_ftp_multithreaded_with_mock data portno \<longleftrightarrow>
     (let url = local_url ''ftp'' None None portno ''/bigfile.dat'';
         idle = Some (mock_ftp_with_data 500 (login @ [''QUIT'']))
      in case ftp_worker wr_full url (Some (mock_ftp_with_data 500 transfer)) [(False, None), (False, None)]
                (ftp_world_of (temp_buffer 500) [Some [Piece 0 data]]) of
           Some (r1, w1) \<Rightarrow> (case ftp_worker wr_full url idle [(False, None)] w1 of
             Some (r2, w2) \<Rightarrow> (case ftp_worker wr_full url idle [(False, None)] w2 of
               Some (r3, w3) \<Rightarrow> (case ftp_worker wr_full url idle [(False, None)] w3 of
                 Some (r4, w4) \<Rightarrow>
                   (case download_ftp_multithreaded [Joined r1, Joined r2, Joined r3, Joined r4] (w_buffer w4) of
                      (r, b) \<Rightarrow> is_ok r \<and> all_completed b \<and> reads 0 500 b = Some data)
               | None \<Rightarrow> False)
             | None \<Rightarrow> False)
           | None \<Rightarrow> False)
         | None \<Rightarrow> False)"

lemma passes_test_download_ftp_multithreaded_with_mock: "length data = 500 \<Longrightarrow> test_download_ftp_multithreaded_with_mock data portno"
  unfolding test_download_ftp_multithreaded_with_mock_def Let_def
  by (simp add: ftp_transfer ftp_worker_def next_preferred_def download_ftp_multithreaded_def all_completed_def ftp_run pasv_answers whole_file data_buf_len_def reads_full Let_def)

end
