(* ===== verification/Spec2Isabelle.thy ===== *)
theory Spec2Isabelle
  imports Blitz_Prelude Rust_Str Http_Headers Assoc_Map Segments_Buffer Buffer_Protocol
    Claim_Interleaving Buffer_Stream Coalescing Token_Bucket Permit_Pool Ip_Limiter
    Config_Parse Config_Load Freshness Unix_Path Ranked_Steps Disk_Cache Cache_Safety
    Cache_Properties Ftp_Url Ftp_Download Range_Download Worker_Steps Download_Supervisor
    Parallel_Download Parallel_Results Parallel_Stream Proxy_Rules Connect_Tunnel
    Failure_Cooldown Throttled_Stream Proxy_Flight Proxy_Handler Proxy_Properties
    Proxy_System Cache_Contents Whole_Proxy End_To_End Server Startup Ctl_Values
    Ctl_Select Ctl_Tree Ctl_Listing Ctl_Commands Ctl_Output Ctl_Hashes Ctl_Run Test_Kit
    Tests_Config Tests_Ftp Tests_Freshness Tests_Proxy Tests_Buffer Tests_Coalescer
    Tests_Limits Tests_Downloader Tests_Ctl Tests_Cache Tests_Ctl_Files Tests_Streams
    Tests_Tunnel Tests_Flight Tests_Ftp_Transfer
begin

text \<open>
  apt-blitz: a caching HTTP and FTP proxy for APT, and its control tool blitzctl.

  1. The program. \<open>run_proxy\<close> (src/src/lib.rs) cleans the temporary directory, makes the shared
  state and accepts connections. A connection that begins with CONNECT becomes a tunnel
  (\<open>handle_connect_tunnel\<close>); every other one carries HTTP requests, each handled by
  \<open>handle_proxy\<close> (src/src/proxy.rs): it takes a permit from the limiter (src/src/rate\_limit.rs),
  rewrites the URL by the configured maps, checks it, and asks \<open>resolve_with_coalescing\<close> where the
  body is to come from: the disk cache (src/src/cache.rs), possibly after a conditional HEAD, the
  buffer of a download that another request leads, or a download of its own. A leader sends a
  HEAD; when the answer allows ranges it makes a temporary file with a \<open>SegmentsBuffer\<close>
  (src/src/buffer.rs), hands the buffer to its followers through the coalescer
  (src/src/coalescer.rs), and starts two tasks: the download
  (\<open>download_multithreaded\<close> of src/src/downloader.rs, or src/src/ftp.rs) and the persistence that
  waits for it, moves the file into the cache and releases the URL. Meanwhile
  \<open>make_buffer_stream\<close> sends leader and followers the segments as they become ready, through a
  throttle that a token bucket pays for. blitzctl (src/src/bin/blitzctl/cache\_cli.rs) opens the
  same cache directory and lists, searches, prints, copies and removes entries.

  2. How the code is written here. A struct is a record, an enum a datatype, with the names of
  the source; u64 counters whose wrap-around matters are \<open>64 word\<close>, other unsigned numbers are
  \<open>nat\<close> and i64 times \<open>int\<close> with the casts and saturations written out. \<open>Result<T, E>\<close> is the sum
  with \<open>Inl\<close> for the error; \<open>None\<close> around a result is a call that does not return. A string is
  the list of its bytes. Every method that locks a mutex or does one atomic operation is one
  function of the state; what tasks do at the same time is a step relation. What another
  program, the disk or the clock says is an argument, or an observation in a record.

  3. The theories, in the order of the imports.
  Foundations:
    Blitz\_Prelude    machine integers, results, files with positional writes, fact collections
    Rust\_Str         the operations of str and the integer parsers the sources call
    Http\_Headers     the header maps of the crate http
    Assoc\_Map        HashMap as an association list with distinct keys
    Ranked\_Steps     processes that end: the locale ranked\_steps, for Proxy\_System and Server
    Unix\_Path        join, components and starts\_with of std::path, and what a path names
  Downloads:
    Segments\_Buffer  buffer.rs: claim\_range, writes, mark\_ready, failed, the metadata
    Buffer\_Protocol  buffer.rs: the locale range\_supply, reachable buffers, completeness
    Claim\_Interleaving  buffer.rs: the atomic steps of claim\_range by any number of workers
    Buffer\_Stream    proxy.rs: make\_buffer\_stream
    Token\_Bucket     rate\_limit.rs: TokenBucket, on words, with the locale rated\_source
    Permit\_Pool, Ip\_Limiter  rate\_limit.rs: IpRateLimiter and WorkerLimiter
    Range\_Download   downloader.rs: download\_worker as one function, its retries, the body of a range
    Worker\_Steps     downloader.rs: the same worker cut at its awaits, for interleaving
    Download\_Supervisor  downloader.rs: download\_multithreaded as a state machine
    Parallel\_Download  the supervisor and any number of its workers on one buffer, and the invariant
    Parallel\_Results what the supervisor's answer says of the file, and where an error comes from
    Parallel\_Stream  a client's stream read while that download runs
    Ftp\_Url, Ftp\_Download  ftp.rs: URLs, PASV, the control dialogue, transfers and segments
  Cache:
    Freshness         cache.rs: is\_fresh, time\_until\_expiry, parse\_max\_age, etag\_equals
    Disk\_Cache       cache.rs: the table, lookup, refresh, store, eviction, listing, deletion
    Cache\_Safety     eviction and the invariant of table and files
    Cache\_Properties every operation keeps the invariant; storing and finding
  Proxy:
    Coalescing        coalescer.rs, with the locale flight\_registry
    Config\_Parse, Config\_Load  config.rs: value parsers, and where a value comes from
    Proxy\_Rules      proxy.rs: URL maps, the checks of a URL, revalidation, proxy bypass
    Connect\_Tunnel   proxy.rs: handle\_connect\_tunnel
    Failure\_Cooldown proxy.rs: FailureTracker
    Throttled\_Stream proxy.rs: ThrottledPermitStream
    Proxy\_Flight     proxy.rs: resolve\_with\_coalescing and spawn\_cache\_persistence
    Proxy\_Handler    proxy.rs: handle\_proxy and what it calls
    Proxy\_Properties what the handlers keep, seen by one request
    Proxy\_System     any number of requests, downloads and departing clients in any order
    Cache\_Contents   what the files of the cache can hold, whatever fails
    Whole\_Proxy      Proxy\_System with every HTTP download a run of Parallel\_Download, and its invariant
    End\_To\_End      what a client of the whole proxy is given, from the cache or from a buffer
    Server            lib.rs: the start, the kind of a connection, the accept loop
    Startup           lib.rs and main.rs: run\_proxy with its early returns, the HTTP client's settings
  blitzctl, all of cache\_cli.rs:
    Ctl\_Values       sizes, durations and the filters of find
    Ctl\_Select       hosts, aliases and selectors
    Ctl\_Tree, Ctl\_Listing  the tree, and the levels of ls
    Ctl\_Commands     hosts, tree, find, info, cat, cp, rm
    Ctl\_Output       what is printed, with the floating point of human\_size
    Ctl\_Hashes       how a digest is computed: the whole entry in blocks of 64 KiB, once
    Ctl\_Run          run, and what a session of commands does to the cache
  The unit tests of the repository, with servers and clocks as scripts:
    Test\_Kit         what they share
    Tests\_Config, Tests\_Ftp, Tests\_Ftp\_Transfer, Tests\_Freshness, Tests\_Cache, Tests\_Proxy, Tests\_Tunnel,
    Tests\_Flight, Tests\_Streams, Tests\_Buffer, Tests\_Coalescer, Tests\_Limits, Tests\_Downloader, Tests\_Ctl,
    Tests\_Ctl\_Files: a test is a definition that says what it asserts
    of the model, with the lemma that the model passes it

  4. What is proved. (a) A download is the file: claimed ranges are disjoint and cover the
  file for every interleaving of claim\_range; in every run of the supervisor with any number of
  workers each ready segment holds the upstream's bytes, Ok means that the file is the upstream's,
  an error has a cause among the answers seen, and a client that streams meanwhile gets a prefix
  of the file; with one connection that answers properly it gets all of it. The function
  download\_worker is one run of the steps of Worker\_Steps, so what is proved of every run holds
  of it. End to end, for any number of requests, downloads with their workers, departing clients,
  faults of disk and database, and commands of blitzctl in any order: a body from the cache is the whole
  of a version that the upstream served for this URL (or what the cache held at the start), a body from a buffer is
  filled by a download of the URL that was asked for. (b) One download
  per URL for every interleaving of requests, followers get the buffer of their leader, every
  request is answered in a bounded number of steps, every download that ends releases its URL,
  permits are never lost or doubled. (c) The table and the files of the cache stay in step under
  every operation of the proxy and of the tool; what was stored is found again, unchanged;
  eviction ends, respects the limit and drops the oldest; an entry is served only for a
  reason. (d) Rates and limits hold exactly. (e) Parsers read back what they are meant to read, the
  configuration has its documented precedence, rewritten URLs are listed under the name the
  client used. The contracts between components are locales (range\_supply, rated\_source,
  permit\_pool, oldest\_choice, flight\_registry, ranked\_steps), each interpreted on the definitions of the code.
  A lemma whose text says that something goes wrong is about the code as it is; the manifest
  lists these as findings.

  5. Fuel and bounds. evict\_loop gets one unit more than there are rows, and every turn without
  a fault deletes one (lemma evict\_ends); with a fault it never ends (lemma evict\_hangs).
  read\_response\_loop of FTP takes one unit per line; with more units than lines it returns
  unless the server has closed the connection inside a response, when no fuel is enough.
  resolve\_with\_coalescing recurses on the list of its observations; one more than the larger
  retry limit is enough (lemma resolve\_ends). wait\_consume recurses on the turns of its loop, and
  the theorem wait\_consume\_returns says when these are enough. All other recursion is structural
  or has a measure.

  6. Parameters. The crates and programs outside the repository are arguments: the URL parser
  (url), regular expressions (regex), the hash of a URL (sha2) and the JSON of stored headers
  (serde\_json) in the record cache\_env, with SQLite's choice among equally old rows; HTTP dates
  (httpdate), YAML (serde\_yaml), the command line (clap), Base64, local times (chrono), the
  hashers of info (init, update, finish), the test of xz files, and what reqwest, the FTP server and the client
  connections deliver. Hypotheses on them are the documented ones: a hash is 64 hexadecimal
  digits, JSON reads back what it wrote, ORDER BY picks a least row.

  7. Not modelled. Logging and progress output; the permission bits of files and directories; the
  work of hyper, axum and
  tokio below the handlers; TLS; SQLite below the statements, its WAL mode and its locks (a
  command of blitzctl beside the running proxy is one step); white space outside ASCII; the unit tests
  of threads that run at once, of Send and Sync, of sleeping, of the messages of library errors and of
  the crates themselves (known digests, an xz stream, JSON, dates); the
  integration tests, packaging and scripts.
\<close>

end
